(* ===== verification/Prelude.thy ===== *)
theory Prelude
  imports Main "HOL-Library.Word" "HOL-Library.AList"
begin

text \<open>
  Shared vocabulary of the development: results that carry a thrown error (a sum whose left
  component is the error), JavaScript's insertion-ordered \<^verbatim>\<open>Map\<close> as an association list with
  distinct keys, the UTC day arithmetic that several components repeat, and the collections of
  rewrite rules the component theories rely on.
\<close>

named_theorems res_simps "rewriting of results that may carry an error"
named_theorems jsmap_simps "lookup and size of insertion-ordered maps"

section \<open>Results\<close>

text \<open>\<open>Inl e\<close> is a thrown error or a rejected promise, \<open>Inr x\<close> a returned value.\<close>

fun res_bind :: "'e + 'a \<Rightarrow> ('a \<Rightarrow> 'e + 'b) \<Rightarrow> 'e + 'b" where
  "res_bind (Inl e) f = Inl e"
| "res_bind (Inr a) f = f a"

fun is_ok :: "'e + 'a \<Rightarrow> bool" where
  "is_ok (Inl e) = False"
| "is_ok (Inr a) = True"

lemma res_bind_Inr_iff [res_simps]:
  "res_bind r f = Inr b \<longleftrightarrow> (\<exists>a. r = Inr a \<and> f a = Inr b)"
  by (cases r) auto

lemma res_bind_Inl_iff [res_simps]:
  "res_bind r f = Inl e \<longleftrightarrow> r = Inl e \<or> (\<exists>a. r = Inr a \<and> f a = Inl e)"
  by (cases r) auto

lemma guard_Inr_iff [res_simps]:
  "(if c then Inl e else r) = Inr b \<longleftrightarrow> \<not> c \<and> r = Inr b"
  by auto

lemma res_bind_cong [fundef_cong]:
  "r = r' \<Longrightarrow> (\<And>a. r' = Inr a \<Longrightarrow> f a = g a) \<Longrightarrow> res_bind r f = res_bind r' g"
  by (cases r') auto

lemma is_ok_iff: "is_ok r \<longleftrightarrow> (\<exists>a. r = Inr a)"
  by (cases r) auto

text \<open>Running a fallible step over a list, stopping at the first error.\<close>

fun res_map :: "('a \<Rightarrow> 'e + 'b) \<Rightarrow> 'a list \<Rightarrow> 'e + 'b list" where
  "res_map f [] = Inr []"
| "res_map f (x # xs) = res_bind (f x) (\<lambda>y. res_bind (res_map f xs) (\<lambda>ys. Inr (y # ys)))"

lemma res_map_Inr_iff:
  "res_map f xs = Inr ys \<longleftrightarrow> list_all2 (\<lambda>x y. f x = Inr y) xs ys"
  by (induction xs arbitrary: ys) (auto simp: res_simps list_all2_Cons1)

lemma res_map_length: "res_map f xs = Inr ys \<Longrightarrow> length ys = length xs"
  by (auto simp: res_map_Inr_iff dest: list_all2_lengthD)

lemma res_map_total: "(\<And>x. x \<in> set xs \<Longrightarrow> f x = Inr (g x)) \<Longrightarrow> res_map f xs = Inr (map g xs)"
  by (induction xs) auto

section \<open>Insertion-ordered maps\<close>

text \<open>
  A JavaScript \<^verbatim>\<open>Map\<close> iterates in insertion order; \<^verbatim>\<open>set\<close> of a present key keeps its position,
  \<^verbatim>\<open>set\<close> of an absent key appends. \<^const>\<open>AList.update\<close> and \<^const>\<open>AList.delete\<close> do exactly
  this on an association list, and \<^const>\<open>map_of\<close> is \<^verbatim>\<open>get\<close>.
\<close>

type_synonym ('k, 'v) jsmap = "('k \<times> 'v) list"

abbreviation js_get :: "('k, 'v) jsmap \<Rightarrow> 'k \<Rightarrow> 'v option" where
  "js_get m k \<equiv> map_of m k"

abbreviation js_set :: "'k \<Rightarrow> 'v \<Rightarrow> ('k, 'v) jsmap \<Rightarrow> ('k, 'v) jsmap" where
  "js_set k v m \<equiv> AList.update k v m"

abbreviation js_delete :: "'k \<Rightarrow> ('k, 'v) jsmap \<Rightarrow> ('k, 'v) jsmap" where
  "js_delete k m \<equiv> AList.delete k m"

abbreviation js_keys :: "('k, 'v) jsmap \<Rightarrow> 'k list" where
  "js_keys m \<equiv> map fst m"

definition js_has :: "('k, 'v) jsmap \<Rightarrow> 'k \<Rightarrow> bool" where
  "js_has m k \<longleftrightarrow> js_get m k \<noteq> None"

text \<open>Deleting in a loop every entry that fails a test is filtering.\<close>

definition js_prune :: "('v \<Rightarrow> bool) \<Rightarrow> ('k, 'v) jsmap \<Rightarrow> ('k, 'v) jsmap" where
  "js_prune keep m = filter (\<lambda>(k, v). keep v) m"

definition js_ok :: "('k, 'v) jsmap \<Rightarrow> bool" where
  "js_ok m \<longleftrightarrow> distinct (js_keys m)"

lemma js_ok_Nil [simp]: "js_ok []"
  by (simp add: js_ok_def)

lemma js_ok_set [intro]: "js_ok m \<Longrightarrow> js_ok (js_set k v m)"
  by (simp add: js_ok_def distinct_update)

lemma js_ok_delete [intro]: "js_ok m \<Longrightarrow> js_ok (js_delete k m)"
  by (simp add: js_ok_def distinct_delete)

lemma js_ok_prune [intro]: "js_ok m \<Longrightarrow> js_ok (js_prune p m)"
  by (auto simp: js_ok_def js_prune_def intro: distinct_map_filter)

lemma js_get_set [jsmap_simps]: "js_get (js_set k v m) k' = (if k' = k then Some v else js_get m k')"
  by (simp add: update_conv')

lemma js_get_delete [jsmap_simps]: "js_get (js_delete k m) k' = (if k' = k then None else js_get m k')"
  by (simp add: delete_conv')

lemma js_has_iff: "js_has m k \<longleftrightarrow> k \<in> set (js_keys m)"
  by (auto simp: js_has_def map_of_eq_None_iff)

lemma js_get_in: "js_get m k = Some v \<Longrightarrow> (k, v) \<in> set m"
  by (rule map_of_SomeD)

lemma js_ok_get: "js_ok m \<Longrightarrow> (k, v) \<in> set m \<Longrightarrow> js_get m k = Some v"
  by (simp add: js_ok_def)

lemma js_get_prune:
  "js_ok m \<Longrightarrow> js_get (js_prune p m) k =
     (case js_get m k of None \<Rightarrow> None | Some v \<Rightarrow> if p v then Some v else None)"
proof (induction m)
  case Nil
  then show ?case by (simp add: js_prune_def)
next
  case (Cons kv m)
  obtain k0 v0 where [simp]: "kv = (k0, v0)" by (cases kv)
  have "k0 \<notin> set (js_keys m)" using Cons.prems by (simp add: js_ok_def)
  then have none: "js_get m k0 = None" by (simp add: map_of_eq_None_iff)
  then have "js_get (js_prune p m) k0 = None"
    using Cons.IH [of] Cons.prems by (auto simp: js_ok_def js_prune_def map_of_eq_None_iff)
  with none Cons.IH Cons.prems show ?case
    by (auto simp: js_ok_def js_prune_def split: option.splits)
qed

lemma js_set_inD: "x \<in> set (js_set k v m) \<Longrightarrow> x = (k, v) \<or> x \<in> set m"
  by (induction m) (auto split: if_splits)

lemma js_set_fresh: "k \<notin> set (js_keys m) \<Longrightarrow> js_set k v m = m @ [(k, v)]"
  by (induction m) auto

lemma js_delete_filter: "js_delete k m = filter (\<lambda>e. fst e \<noteq> k) m"
  by (simp add: AList.delete_eq case_prod_unfold eq_commute)

lemma js_keys_delete: "set (js_keys (js_delete k m)) = set (js_keys m) - {k}"
  by (auto simp: js_delete_filter)

lemma js_size_delete: "js_ok m \<Longrightarrow> js_has m k \<Longrightarrow> length (js_delete k m) = length m - 1"
proof (induction m)
  case Nil
  then show ?case by (simp add: js_has_iff)
next
  case (Cons kv m)
  show ?case
  proof (cases "fst kv = k")
    case True
    with Cons.prems have "k \<notin> set (js_keys m)" by (auto simp: js_ok_def)
    then have "filter (\<lambda>e. fst e \<noteq> k) m = m" by (auto simp: filter_id_conv)
    with True show ?thesis by (simp add: js_delete_filter)
  next
    case False
    with Cons.prems have "js_ok m" "js_has m k" by (auto simp: js_ok_def js_has_iff)
    then have "length m > 0" by (auto simp: js_has_iff)
    with Cons.IH [OF \<open>js_ok m\<close> \<open>js_has m k\<close>] False show ?thesis
      by (cases m) (auto simp: js_delete_filter)
  qed
qed

lemma js_size_set: "length (js_set k v m) = (if js_has m k then length m else Suc (length m))"
  by (induction m) (auto simp: js_has_iff)

lemma js_prune_length: "length (js_prune p m) \<le> length m"
  by (simp add: js_prune_def)

section \<open>UTC days\<close>

text \<open>
  Times are Unix milliseconds. \<^verbatim>\<open>Date.UTC(y, m, d)\<close> of the UTC components of \<open>t\<close> is the last
  multiple of a day at or below \<open>t\<close>: ECMAScript time has no leap seconds.
\<close>

definition day_ms :: int where
  "day_ms = 24 * 60 * 60000"

definition startOfUtcDay :: "int \<Rightarrow> int" where
  "startOfUtcDay t = (t div day_ms) * day_ms"

lemma startOfUtcDay_le: "startOfUtcDay t \<le> t"
  by (simp add: startOfUtcDay_def day_ms_def)

lemma startOfUtcDay_gt: "t < startOfUtcDay t + day_ms"
  by (simp add: startOfUtcDay_def day_ms_def)

lemma startOfUtcDay_idem [simp]: "startOfUtcDay (startOfUtcDay t) = startOfUtcDay t"
  by (simp add: startOfUtcDay_def day_ms_def)

lemma startOfUtcDay_mono: "s \<le> t \<Longrightarrow> startOfUtcDay s \<le> startOfUtcDay t"
  by (simp add: startOfUtcDay_def day_ms_def zdiv_mono1)

lemma startOfUtcDay_eqI: "startOfUtcDay s \<le> t \<Longrightarrow> t < startOfUtcDay s + day_ms \<Longrightarrow> startOfUtcDay t = startOfUtcDay s"
  unfolding startOfUtcDay_def day_ms_def by simp

section \<open>Lists\<close>

lemma sum_list_filter_partition:
  "sum_list (map f (filter p xs)) + sum_list (map f (filter (\<lambda>x. \<not> p x) xs)) = (sum_list (map f xs) :: int)"
  by (induction xs) auto

lemma length_filter_mono: "(\<And>x. x \<in> set xs \<Longrightarrow> p x \<Longrightarrow> q x) \<Longrightarrow> length (filter p xs) \<le> length (filter q xs)"
proof (induction xs)
  case (Cons x xs)
  then have "length (filter p xs) \<le> length (filter q xs)" by auto
  with Cons.prems [of x] show ?case by auto
qed simp

lemma take_drop_append:
  "length xs = n \<Longrightarrow> take n (xs @ ys) = xs" "length xs = n \<Longrightarrow> drop n (xs @ ys) = ys"
  by auto

end
