(* ===== verification/Backoff.thy ===== *)
theory Backoff
  imports Prelude
begin

text \<open>
  Retrying: \<^verbatim>\<open>withBackoff\<close> of \<^verbatim>\<open>relayer/src/bitcoin/header-sync.ts\<close> and the host fallback of
  \<^verbatim>\<open>EsploraClient.request\<close> in \<^verbatim>\<open>relayer/src/bitcoin/esplora.ts\<close>. What the network answers is the
  function from the number of an attempt to its outcome; the pauses taken are part of the result.
\<close>

section \<open>withBackoff\<close>

text \<open>
  \<open>fn k\<close> is the outcome of the \<open>k\<close>-th call of \<^verbatim>\<open>fn\<close>, counted from 0. The result carries the
  pauses, in order, and the outcome of the last call: the first success, or the error thrown.
\<close>

function with_backoff ::
    "(nat \<Rightarrow> 'e + 'a) \<Rightarrow> ('e \<Rightarrow> bool) \<Rightarrow> nat \<Rightarrow> nat \<Rightarrow> nat \<Rightarrow> nat list \<times> ('e + 'a)" where
  "with_backoff fn isRetryable retries baseDelayMs attempt =
     (case fn attempt of
        Inr x \<Rightarrow> ([], Inr x)
      | Inl e \<Rightarrow>
          if attempt \<ge> retries \<or> \<not> isRetryable e then ([], Inl e)
          else (let (pauses, r) = with_backoff fn isRetryable retries baseDelayMs (Suc attempt)
                in (baseDelayMs * 2 ^ attempt # pauses, r)))"
  by pat_completeness auto
termination
  by (relation "measure (\<lambda>(fn, p, retries, b, attempt). retries - attempt)") auto

declare with_backoff.simps [simp del]

definition withBackoff ::
    "(nat \<Rightarrow> 'e + 'a) \<Rightarrow> ('e \<Rightarrow> bool) \<Rightarrow> nat \<Rightarrow> nat \<Rightarrow> nat list \<times> ('e + 'a)" where
  "withBackoff fn isRetryable retries baseDelayMs = with_backoff fn isRetryable retries baseDelayMs 0"

lemma with_backoff_spec:
  "with_backoff fn p retries b a = (ps, r) \<Longrightarrow>
     a + length ps \<le> max a retries \<and>
     r = fn (a + length ps) \<and>
     ps = map (\<lambda>k. b * 2 ^ k) [a..<a + length ps] \<and>
     (\<forall>k\<in>{a..<a + length ps}. \<exists>e. fn k = Inl e \<and> p e) \<and>
     (\<forall>e. r = Inl e \<longrightarrow> a + length ps \<ge> retries \<or> \<not> p e)"
proof (induction fn p retries b a arbitrary: ps r rule: with_backoff.induct)
  case (1 fn p retries b a)
  show ?case
  proof (cases "\<exists>e. fn a = Inl e \<and> a < retries \<and> p e")
    case False
    then have "ps = []" "r = fn a"
      using "1.prems" by (subst (asm) with_backoff.simps, auto split: sum.splits if_splits)+
    with False show ?thesis by (cases "fn a") (auto simp: not_le)
  next
    case True
    then obtain e where e: "fn a = Inl e" "a < retries" "p e" by blast
    obtain qs r' where rec: "with_backoff fn p retries b (Suc a) = (qs, r')" by fastforce
    with "1.prems" e have ps: "ps = b * 2 ^ a # qs" "r = r'"
      by (subst (asm) with_backoff.simps, auto)+
    from "1.IH" [OF e(1) _ rec] e have ih:
      "Suc a + length qs \<le> max (Suc a) retries" "r' = fn (Suc a + length qs)"
      "qs = map (\<lambda>k. b * 2 ^ k) [Suc a..<Suc a + length qs]"
      "\<forall>k\<in>{Suc a..<Suc a + length qs}. \<exists>e. fn k = Inl e \<and> p e"
      "\<forall>e. r' = Inl e \<longrightarrow> Suc a + length qs \<ge> retries \<or> \<not> p e"
      by auto
    have "[a..<a + length ps] = a # [Suc a..<Suc a + length qs]"
      using ps upt_conv_Cons [of a "a + length ps"] by (simp del: upt_Suc)
    then have "ps = map (\<lambda>k. b * 2 ^ k) [a..<a + length ps]" using ps ih(3) by simp
    moreover have "\<forall>k\<in>{a..<a + length ps}. \<exists>e. fn k = Inl e \<and> p e"
      using ih(4) e ps by (auto simp: le_eq_less_or_eq Suc_le_eq)
    ultimately show ?thesis using ih(1,2,5) e ps by auto
  qed
qed

section \<open>Hosts and fallback\<close>

text \<open>What a fetch can throw, as far as the code tells them apart.\<close>

datatype fetch_error =
    EsploraStatus nat string  \<comment> \<open>\<^verbatim>\<open>EsploraError\<close>: a non-2xx status and the body\<close>
  | AbortError                \<comment> \<open>the timeout fired\<close>
  | TypeError                 \<comment> \<open>a network error\<close>
  | OtherError string         \<comment> \<open>a body that does not parse\<close>

fun isUpstreamUnavailable :: "fetch_error \<Rightarrow> bool" where
  "isUpstreamUnavailable (EsploraStatus status body) = (status = 429 \<or> status \<ge> 500)"
| "isUpstreamUnavailable AbortError = True"
| "isUpstreamUnavailable TypeError = True"
| "isUpstreamUnavailable (OtherError m) = False"

definition isRetryableOnSameHost :: "fetch_error \<Rightarrow> bool" where
  "isRetryableOnSameHost e \<longleftrightarrow> isUpstreamUnavailable e \<and> e \<noteq> AbortError"

fun isRateLimited :: "fetch_error \<Rightarrow> bool" where
  "isRateLimited (EsploraStatus status body) = (status = 429)"
| "isRateLimited _ = False"

text \<open>
  \<^verbatim>\<open>EsploraClient.request\<close>: \<open>net host k\<close> is the outcome of the \<open>k\<close>-th attempt on \<open>host\<close>. The
  hosts are tried in order; an error that is not an upstream failure ends the loop at once.
\<close>

fun request_hosts ::
    "(string \<Rightarrow> nat \<Rightarrow> fetch_error + 'a) \<Rightarrow> nat \<Rightarrow> nat \<Rightarrow> fetch_error \<Rightarrow> string list \<Rightarrow> fetch_error + 'a" where
  "request_hosts net retries delay lastError [] = Inl lastError"
| "request_hosts net retries delay lastError (host # hosts) =
     (case snd (withBackoff (net host) isRetryableOnSameHost retries delay) of
        Inr x \<Rightarrow> Inr x
      | Inl e \<Rightarrow> if \<not> isUpstreamUnavailable e then Inl e
                 else request_hosts net retries delay e hosts)"

definition esplora_request ::
    "(string \<Rightarrow> nat \<Rightarrow> fetch_error + 'a) \<Rightarrow> string \<Rightarrow> string option \<Rightarrow> nat \<Rightarrow> nat \<Rightarrow> fetch_error + 'a" where
  "esplora_request net baseUrl fallbackBaseUrl retries retryBaseDelayMs =
     (let hosts = (case fallbackBaseUrl of None \<Rightarrow> [baseUrl] | Some f \<Rightarrow> [baseUrl, f])
      in request_hosts net retries retryBaseDelayMs (OtherError ''undefined'') hosts)"

lemma request_hosts_Inr:
  "request_hosts net retries d e hosts = Inr x \<Longrightarrow> \<exists>h\<in>set hosts. \<exists>k\<le>retries. net h k = Inr x"
proof (induction hosts arbitrary: e)
  case (Cons h hs)
  obtain ps r where wb: "withBackoff (net h) isRetryableOnSameHost retries d = (ps, r)" by fastforce
  note sp = with_backoff_spec [OF wb [unfolded withBackoff_def]]
  show ?case
  proof (cases r)
    case (Inr y)
    with Cons.prems wb have "y = x" by simp
    with sp Inr show ?thesis by (auto intro!: exI [of _ "length ps"])
  next
    case (Inl e')
    with Cons.prems wb have "request_hosts net retries d e' hs = Inr x" by (auto split: if_splits)
    with Cons.IH show ?thesis by auto
  qed
qed simp

section \<open>Properties\<close>

text \<open>\<^verbatim>\<open>withBackoff\<close> returns the outcome of the call after its last pause; it makes at most
  \<open>retries + 1\<close> calls, its pauses double from the base delay, every call before the last failed with
  a retryable error, and an error is only thrown when the retries are spent or it is not retryable.\<close>

theorem withBackoff_correct:
  assumes "withBackoff fn isRetryable retries base = (pauses, r)"
  shows "length pauses \<le> retries
    \<and> r = fn (length pauses)
    \<and> pauses = map (\<lambda>k. base * 2 ^ k) [0..<length pauses]
    \<and> (\<forall>k<length pauses. \<exists>e. fn k = Inl e \<and> isRetryable e)
    \<and> (\<forall>e. r = Inl e \<longrightarrow> length pauses = retries \<or> \<not> isRetryable e)"
  using with_backoff_spec [OF assms [unfolded withBackoff_def]] by (auto simp: max_def)

theorem withBackoff_correct_witness:
  "(\<lambda>k::nat. if k < 2 then Inl ''429'' else Inr (7::nat)) 2 = Inr 7
    \<and> fst (withBackoff (\<lambda>k::nat. if k < 2 then Inl ''429'' else Inr (7::nat)) (\<lambda>_. True) 5 1000) = [1000, 2000]"
proof -
  let ?fn = "\<lambda>k::nat. if k < 2 then Inl ''429'' else Inr (7::nat)"
  have "withBackoff ?fn (\<lambda>_. True) 5 1000 = ([1000, 2000], Inr 7)"
    by (simp add: withBackoff_def with_backoff.simps numeral_2_eq_2)
  from withBackoff_correct [OF this] this show ?thesis by simp
qed

text \<open>A request succeeds only with a body some host served within its allowance of attempts, and
  the fallback host is asked only after the primary was unavailable: an answer such as a 404 from the
  primary is final.\<close>

theorem esplora_request_correct:
  "(\<forall>x. esplora_request net base fallback retries d = Inr x \<longrightarrow>
      (\<exists>h\<in>insert base (set_option fallback). \<exists>k\<le>retries. net h k = Inr x))
   \<and> (\<forall>e. net base 0 = Inl e \<and> \<not> isUpstreamUnavailable e \<longrightarrow>
      esplora_request net base fallback retries d = Inl e)"
proof (intro conjI allI impI)
  fix x assume "esplora_request net base fallback retries d = Inr x"
  then have "request_hosts net retries d (OtherError ''undefined'')
      (case fallback of None \<Rightarrow> [base] | Some f \<Rightarrow> [base, f]) = Inr x"
    by (simp only: esplora_request_def Let_def)
  from request_hosts_Inr [OF this]
  show "\<exists>h\<in>insert base (set_option fallback). \<exists>k\<le>retries. net h k = Inr x"
    by (auto split: option.splits)
next
  fix e assume "net base 0 = Inl e \<and> \<not> isUpstreamUnavailable e"
  then show "esplora_request net base fallback retries d = Inl e"
    by (simp add: esplora_request_def Let_def withBackoff_def with_backoff.simps
        isRetryableOnSameHost_def split: option.splits)
qed

theorem esplora_request_correct_witness:
  "esplora_request (\<lambda>h k. if h = ''p'' then Inl (EsploraStatus 404 []) else Inr (1::nat)) ''p'' (Some ''f'') 2 250
     = Inl (EsploraStatus 404 [])"
  using esplora_request_correct
    [of "\<lambda>h k. if h = ''p'' then Inl (EsploraStatus 404 []) else Inr (1::nat)" "''p''" "Some ''f''" 2 250]
  by simp

end
