(* ===== verification/JsText.thy ===== *)
theory JsText
  imports Prelude
begin

text \<open>
  What the source uses of JavaScript strings: character classes, trimming and lower case, padding,
  hexadecimal and decimal notation. A string is a list of Latin-1 code units; the code under
  \<^verbatim>\<open>relayer/src\<close> and \<^verbatim>\<open>bitcoin-script/src\<close> that is modelled here only ever branches on ASCII.
\<close>

section \<open>Case, white space, padding\<close>

definition code :: "char \<Rightarrow> nat" where
  "code c = of_char c"

definition is_ws :: "char \<Rightarrow> bool" where
  "is_ws c \<longleftrightarrow> (9 \<le> code c \<and> code c \<le> 13) \<or> code c = 32 \<or> code c = 160"

definition trim :: "string \<Rightarrow> string" where
  "trim s = rev (dropWhile is_ws (rev (dropWhile is_ws s)))"

definition lower_char :: "char \<Rightarrow> char" where
  "lower_char c = (let n = code c in
     if (65 \<le> n \<and> n \<le> 90) \<or> (192 \<le> n \<and> n \<le> 222 \<and> n \<noteq> 215) then char_of (n + 32) else c)"

definition toLowerCase :: "string \<Rightarrow> string" where
  "toLowerCase s = map lower_char s"

definition padStart :: "nat \<Rightarrow> char \<Rightarrow> string \<Rightarrow> string" where
  "padStart n c s = replicate (n - length s) c @ s"

definition startsWith :: "string \<Rightarrow> string \<Rightarrow> bool" where
  "startsWith p s \<longleftrightarrow> take (length p) s = p"

definition is_digit :: "char \<Rightarrow> bool" where
  "is_digit c \<longleftrightarrow> 48 \<le> code c \<and> code c \<le> 57"

lemma code_char_of [simp]: "n < 256 \<Longrightarrow> code (char_of n) = n"
  by (simp add: code_def)

lemma char_of_code [simp]: "char_of (code c) = c"
  by (simp add: code_def)

lemma code_lt [simp]: "code c < 256"
  by (simp add: code_def)

lemma code_inject: "code c = code d \<longleftrightarrow> c = d"
  by (metis char_of_code)

lemma trim_no_ws: "(\<And>c. c \<in> set s \<Longrightarrow> \<not> is_ws c) \<Longrightarrow> trim s = s"
proof -
  assume a: "\<And>c. c \<in> set s \<Longrightarrow> \<not> is_ws c"
  then have d: "dropWhile is_ws s = s" by (cases s) auto
  from a have "\<And>c. c \<in> set (rev s) \<Longrightarrow> \<not> is_ws c" by simp
  then have "dropWhile is_ws (rev s) = rev s" by (cases "rev s") (simp_all del: set_rev)
  with d show ?thesis by (simp add: trim_def)
qed

lemma length_padStart: "length (padStart n c s) = max n (length s)"
  by (simp add: padStart_def)

section \<open>Hexadecimal\<close>

definition hex_val :: "char \<Rightarrow> nat option" where
  "hex_val c = (let n = code c in
     if 48 \<le> n \<and> n \<le> 57 then Some (n - 48)
     else if 97 \<le> n \<and> n \<le> 102 then Some (n - 87)
     else if 65 \<le> n \<and> n \<le> 70 then Some (n - 55)
     else None)"

definition hex_digit :: "nat \<Rightarrow> char" where
  "hex_digit n = char_of (if n < 10 then n + 48 else n + 87)"

definition is_hex :: "char \<Rightarrow> bool" where
  "is_hex c \<longleftrightarrow> hex_val c \<noteq> None"

definition is_lower_hex :: "char \<Rightarrow> bool" where
  "is_lower_hex c \<longleftrightarrow> (48 \<le> code c \<and> code c \<le> 57) \<or> (97 \<le> code c \<and> code c \<le> 102)"

lemma hex_val_digit [simp]: "n < 16 \<Longrightarrow> hex_val (hex_digit n) = Some n"
  by (auto simp: hex_val_def hex_digit_def Let_def)

lemma hex_val_lt: "hex_val c = Some n \<Longrightarrow> n < 16"
  by (auto simp: hex_val_def Let_def split: if_splits)

lemma hex_digit_lower: "n < 16 \<Longrightarrow> is_lower_hex (hex_digit n)"
  by (auto simp: is_lower_hex_def hex_digit_def)

lemma lower_hex_val: "is_lower_hex c \<Longrightarrow> \<exists>n<16. hex_val c = Some n \<and> hex_digit n = c"
  by (auto simp: is_lower_hex_def hex_val_def hex_digit_def Let_def intro!: exI [of _ "code c - 87"])

lemma lower_hex_is_hex: "is_lower_hex c \<Longrightarrow> is_hex c"
  using lower_hex_val by (auto simp: is_hex_def)

lemma lower_char_lower_hex: "is_lower_hex c \<Longrightarrow> lower_char c = c"
  by (auto simp: is_lower_hex_def lower_char_def Let_def)

lemma lower_hex_not_ws: "is_lower_hex c \<Longrightarrow> \<not> is_ws c"
  by (auto simp: is_lower_hex_def is_ws_def)

lemma toLowerCase_lower_hex: "list_all is_lower_hex s \<Longrightarrow> toLowerCase s = s"
  by (induction s) (auto simp: toLowerCase_def lower_char_lower_hex)

lemma trim_lower_hex: "list_all is_lower_hex s \<Longrightarrow> trim s = s"
  by (rule trim_no_ws) (auto simp: list_all_iff dest: lower_hex_not_ws)

section \<open>Decimal\<close>

text \<open>\<^verbatim>\<open>String(n)\<close> of a non-negative integer, most significant digit first.\<close>

fun dec_str :: "nat \<Rightarrow> string" where
  "dec_str n = (if n < 10 then [char_of (n + 48)] else dec_str (n div 10) @ [char_of (n mod 10 + 48)])"

declare dec_str.simps [simp del]

fun dec_val_aux :: "nat \<Rightarrow> string \<Rightarrow> nat" where
  "dec_val_aux acc [] = acc"
| "dec_val_aux acc (c # cs) = dec_val_aux (10 * acc + (code c - 48)) cs"

text \<open>\<^verbatim>\<open>BigInt(s)\<close> of a string of decimal digits.\<close>

definition dec_val :: "string \<Rightarrow> nat" where
  "dec_val s = dec_val_aux 0 s"

lemma dec_val_aux_append: "dec_val_aux acc (xs @ ys) = dec_val_aux (dec_val_aux acc xs) ys"
  by (induction xs arbitrary: acc) auto

lemma dec_val_snoc: "dec_val (xs @ [c]) = 10 * dec_val xs + (code c - 48)"
  by (simp add: dec_val_def dec_val_aux_append)

lemma dec_val_str [simp]: "dec_val (dec_str n) = n"
proof (induction n rule: dec_str.induct)
  case (1 n)
  show ?case
  proof (cases "n < 10")
    case True
    then show ?thesis by (subst dec_str.simps) (simp add: dec_val_def)
  next
    case False
    with 1 have "dec_val (dec_str (n div 10)) = n div 10" by simp
    with False show ?thesis by (subst dec_str.simps) (simp add: dec_val_snoc)
  qed
qed

lemma dec_str_digits: "list_all is_digit (dec_str n)"
proof (induction n rule: dec_str.induct)
  case (1 n)
  show ?case
  proof (cases "n < 10")
    case True
    then show ?thesis by (subst dec_str.simps) (simp add: is_digit_def)
  next
    case False
    with 1 have "list_all is_digit (dec_str (n div 10))" by simp
    moreover have "is_digit (char_of (n mod 10 + 48))" by (simp add: is_digit_def)
    ultimately show ?thesis using False by (subst dec_str.simps) simp
  qed
qed

lemma dec_str_length_le: "0 < k \<Longrightarrow> n < 10 ^ k \<Longrightarrow> length (dec_str n) \<le> k"
proof (induction n arbitrary: k rule: dec_str.induct)
  case (1 n)
  show ?case
  proof (cases "n < 10")
    case True
    with 1 show ?thesis by (subst dec_str.simps) simp
  next
    case False
    have "k \<noteq> 1" using "1.prems" False by auto
    with "1.prems" obtain j where k: "k = Suc j" "0 < j"
      by (cases k) auto
    with "1.prems" have "n div 10 < 10 ^ j" by (simp add: less_mult_imp_div_less)
    with "1.IH" [OF False k(2)] k False show ?thesis by (subst dec_str.simps) simp
  qed
qed

lemma dec_str_length_gt: "10 ^ k \<le> n \<Longrightarrow> k < length (dec_str n)"
proof (induction n arbitrary: k rule: dec_str.induct)
  case (1 n)
  show ?case
  proof (cases "n < 10")
    case True
    have "(10::nat) ^ Suc j \<ge> 10" for j by simp
    with 1(2) True have "k = 0" by (cases k) (auto simp del: power_Suc, meson le_trans not_le)
    with True show ?thesis by (subst dec_str.simps) simp
  next
    case False
    show ?thesis
    proof (cases k)
      case 0
      with False show ?thesis by (subst dec_str.simps) simp
    next
      case (Suc j)
      with "1.prems" have "10 ^ j \<le> n div 10" by simp
      with "1.IH" [OF False] Suc False show ?thesis by (subst dec_str.simps) simp
    qed
  qed
qed

lemma dec_val_replicate_zero [simp]: "dec_val (replicate k (CHR ''0'') @ s) = dec_val s"
proof -
  have "dec_val_aux 0 (replicate k (CHR ''0'')) = 0" by (induction k) (auto simp: code_def)
  then show ?thesis by (simp add: dec_val_def dec_val_aux_append)
qed

lemma is_digit_zero [simp]: "is_digit (CHR ''0'')"
  by (simp add: is_digit_def code_def)

lemma padStart_digits: "list_all is_digit s \<Longrightarrow> list_all is_digit (padStart n (CHR ''0'') s)"
  by (auto simp: padStart_def list_all_iff)

lemma dec_val_padStart [simp]: "dec_val (padStart n (CHR ''0'') s) = dec_val s"
  by (simp add: padStart_def)

end
