(* ===== verification/HeaderSync.thy ===== *)
theory HeaderSync
  imports Backoff JsText
begin

text \<open>
  \<^verbatim>\<open>relayer/src/bitcoin/header-sync.ts\<close> and the pass of \<^verbatim>\<open>spv-submit.ts\<close>: which headers a pass
  submits to the light client, in what batches, under which fee ceiling, and what it records.
  Esplora and the Stellar RPC are parameters. Times are Unix milliseconds where the code stores ISO
  strings, and \<^verbatim>\<open>null\<close> is \<^const>\<open>None\<close>.
\<close>

section \<open>Planning\<close>

record header_batch =
  fromHeight :: int
  toHeight :: int

function plan_from :: "int \<Rightarrow> int \<Rightarrow> int \<Rightarrow> header_batch list" where
  "plan_from start to maxPerSubmit =
     (if maxPerSubmit < 1 \<or> start > to then []
      else \<lparr>fromHeight = start, toHeight = min (start + maxPerSubmit - 1) to\<rparr>
           # plan_from (start + maxPerSubmit) to maxPerSubmit)"
  by pat_completeness auto
termination
  by (relation "measure (\<lambda>(start, to, m). nat (to + 1 - start))") auto

declare plan_from.simps [simp del]

datatype sync_error =
    BadBatchSize
  | FeeCeilingExceededError int int
  | SimulationFailed
  | SendRejected
  | TransactionFailed
  | ConfirmTimeout
  | SourceFailed fetch_error

definition planHeaderBatches :: "int \<Rightarrow> int \<Rightarrow> int \<Rightarrow> sync_error + header_batch list" where
  "planHeaderBatches from to maxPerSubmit =
     (if maxPerSubmit < 1 then Inl BadBatchSize else Inr (plan_from from to maxPerSubmit))"

definition batch_heights :: "header_batch \<Rightarrow> int list" where
  "batch_heights b = [fromHeight b..toHeight b]"

definition REORG_RESUBMIT_DEPTH :: int where
  "REORG_RESUBMIT_DEPTH = 6"

definition syncStartHeight :: "int \<Rightarrow> int option \<Rightarrow> int" where
  "syncStartHeight configuredFrom contractTipHeight =
     (case contractTipHeight of
        None \<Rightarrow> configuredFrom
      | Some t \<Rightarrow> max configuredFrom (t - REORG_RESUBMIT_DEPTH))"

section \<open>Submitting\<close>

text \<open>
  \<open>submit k hs\<close> is the outcome of the \<open>k\<close>-th call of \<^verbatim>\<open>deps.submitHeaders\<close>. The first component of
  the result lists the batches of headers that were submitted successfully, in order. A failing call
  makes the returned promise reject: the height reached so far is then not returned.
\<close>

fun sync_batches ::
    "(int \<Rightarrow> 'e + string) \<Rightarrow> (nat \<Rightarrow> string list \<Rightarrow> 'e + unit) \<Rightarrow> nat \<Rightarrow> int option \<Rightarrow> header_batch list
     \<Rightarrow> string list list \<times> ('e + int option)" where
  "sync_batches getHeaderHex submit k through [] = ([], Inr through)"
| "sync_batches getHeaderHex submit k through (batch # rest) =
     (case res_map getHeaderHex (batch_heights batch) of
        Inl e \<Rightarrow> ([], Inl e)
      | Inr hs \<Rightarrow>
         (case submit k hs of
            Inl e \<Rightarrow> ([], Inl e)
          | Inr _ \<Rightarrow>
             (let (done, r) = sync_batches getHeaderHex submit (Suc k) (Some (toHeight batch)) rest
              in (hs # done, r))))"

definition syncHeaders ::
    "int \<Rightarrow> int \<Rightarrow> int \<Rightarrow> (int \<Rightarrow> sync_error + string) \<Rightarrow> (nat \<Rightarrow> string list \<Rightarrow> sync_error + unit)
     \<Rightarrow> string list list \<times> (sync_error + int option)" where
  "syncHeaders from to maxPerSubmit getHeaderHex submit =
     (case planHeaderBatches from to maxPerSubmit of
        Inl e \<Rightarrow> ([], Inl e)
      | Inr bs \<Rightarrow> sync_batches getHeaderHex submit 0 None bs)"

record chain_tip =
  tip_height :: int
  tip_hash :: string

definition hasNewHeaders :: "chain_tip \<Rightarrow> chain_tip option \<Rightarrow> bool" where
  "hasNewHeaders bitcoinTip contractTip =
     (case contractTip of
        None \<Rightarrow> True
      | Some c \<Rightarrow>
          if tip_height bitcoinTip > tip_height c then True
          else if tip_height bitcoinTip < tip_height c then False
          else toLowerCase (tip_hash bitcoinTip) \<noteq> toLowerCase (tip_hash c))"

definition stroopsToXlm :: "int \<Rightarrow> string" where
  "stroopsToXlm stroops =
     (let negative = stroops < 0;
          a = nat (if negative then - stroops else stroops);
          whole = a div 10000000;
          frac = padStart 7 (CHR ''0'') (dec_str (a mod 10000000))
      in (if negative then ''-'' else []) @ dec_str whole @ ''.'' @ frac)"

definition assertWithinFeeCeiling :: "int \<Rightarrow> int \<Rightarrow> sync_error + unit" where
  "assertWithinFeeCeiling feeStroops maxFeeStroops =
     (if feeStroops > maxFeeStroops then Inl (FeeCeilingExceededError feeStroops maxFeeStroops) else Inr ())"

section \<open>Status\<close>

record header_sync_status =
  enabled :: bool
  lastPassAt :: "int option"
  bitcoinTip :: "int option"
  contractTip :: "int option"
  lastSubmittedThrough :: "int option"
  lastSubmissionAt :: "int option"
  lastFeeXlm :: "string option"
  maxFeeXlm :: "string option"
  submissions :: nat
  skippedNoNewHeaders :: nat
  skippedFeeCeiling :: nat
  lastFeeCeilingSkip :: "(int \<times> string) option"
  relayerBalanceXlm :: "string option"
  minBalanceXlm :: "string option"
  balanceLow :: bool
  lastError :: "sync_error option"

definition headerSyncStatus :: header_sync_status where
  "headerSyncStatus = \<lparr>enabled = False, lastPassAt = None, bitcoinTip = None, contractTip = None,
     lastSubmittedThrough = None, lastSubmissionAt = None, lastFeeXlm = None, maxFeeXlm = None,
     submissions = 0, skippedNoNewHeaders = 0, skippedFeeCeiling = 0, lastFeeCeilingSkip = None,
     relayerBalanceXlm = None, minBalanceXlm = None, balanceLow = False, lastError = None\<rparr>"

definition recordRelayerBalance :: "header_sync_status \<Rightarrow> int \<Rightarrow> int \<Rightarrow> header_sync_status \<times> bool" where
  "recordRelayerBalance status balanceStroops minBalanceStroops =
     (let low = balanceStroops < minBalanceStroops in
      (status\<lparr>relayerBalanceXlm := Some (stroopsToXlm balanceStroops),
              minBalanceXlm := Some (stroopsToXlm minBalanceStroops),
              balanceLow := low\<rparr>, low))"

section \<open>Sending one batch\<close>

datatype poll_answer = Success int | Failed | NotFound

text \<open>What the Stellar RPC answers to one \<^verbatim>\<open>sendHeaders\<close> call.\<close>

record send_env =
  simFails :: bool
  preparedFee :: int
  sendErrors :: bool
  pollAnswer :: "nat \<Rightarrow> poll_answer"
  sentAt :: int

text \<open>The confirmation loop: \<open>n\<close> of its 60 iterations are left.\<close>

fun poll_tx :: "send_env \<Rightarrow> nat \<Rightarrow> nat \<Rightarrow> header_sync_status \<Rightarrow> header_sync_status \<times> (sync_error + unit)" where
  "poll_tx env 0 i st = (st, Inl ConfirmTimeout)"
| "poll_tx env (Suc n) i st =
     (case pollAnswer env i of
        Success feeCharged \<Rightarrow>
          (st\<lparr>submissions := Suc (submissions st), lastSubmissionAt := Some (sentAt env),
              lastFeeXlm := Some (stroopsToXlm feeCharged)\<rparr>, Inr ())
      | Failed \<Rightarrow> (st, Inl TransactionFailed)
      | NotFound \<Rightarrow> poll_tx env n (Suc i) st)"

text \<open>The first component says whether a transaction was handed to the network.\<close>

definition sendHeaders ::
    "send_env \<Rightarrow> int \<Rightarrow> header_sync_status \<Rightarrow> bool \<times> header_sync_status \<times> (sync_error + unit)" where
  "sendHeaders env maxFeeStroops st =
     (if simFails env then (False, st, Inl SimulationFailed)
      else case assertWithinFeeCeiling (preparedFee env) maxFeeStroops of
             Inl e \<Rightarrow> (False, st, Inl e)
           | Inr _ \<Rightarrow>
               if sendErrors env then (True, st, Inl SendRejected)
               else (let (st', r) = poll_tx env 60 0 st in (True, st', r)))"

section \<open>A pass\<close>

text \<open>
  One \<^verbatim>\<open>tick\<close>: the answers it meets, the settings it reads, and the loop over the batches with
  \<^verbatim>\<open>sendHeaders\<close> threading the status. \<open>sends\<close> lists the fee bids of the transactions it put out.
\<close>

record tick_env =
  tickNow :: int
  balanceRead :: "fetch_error + int"
  tipHeightRead :: "fetch_error + int"
  tipHashRead :: "fetch_error + string"
  contractTipRead :: "sync_error + chain_tip option"
  headerRead :: "int \<Rightarrow> fetch_error + string"
  sendEnv :: "nat \<Rightarrow> send_env"

record sync_config =
  spvSyncFromHeight :: int
  spvMaxFeeStroops :: int
  relayerMinBalanceStroops :: int

record sync_state =
  running :: bool
  lastBalanceCheck :: int
  status :: header_sync_status
  sends :: "int list"

definition MAX_HEADERS_PER_SUBMIT :: int where
  "MAX_HEADERS_PER_SUBMIT = 16"

definition BALANCE_CHECK_INTERVAL_MS :: int where
  "BALANCE_CHECK_INTERVAL_MS = 10 * 60000"

definition src :: "fetch_error + 'a \<Rightarrow> sync_error + 'a" where
  "src r = (case r of Inl e \<Rightarrow> Inl (SourceFailed e) | Inr x \<Rightarrow> Inr x)"

definition checkRelayerBalance :: "tick_env \<Rightarrow> sync_config \<Rightarrow> header_sync_status \<Rightarrow> header_sync_status" where
  "checkRelayerBalance env cfg st =
     (case balanceRead env of
        Inl e \<Rightarrow> st
      | Inr balance \<Rightarrow> fst (recordRelayerBalance st balance (relayerMinBalanceStroops cfg)))"

fun tick_batches ::
    "tick_env \<Rightarrow> sync_config \<Rightarrow> nat \<Rightarrow> int option \<Rightarrow> header_batch list \<Rightarrow> sync_state
     \<Rightarrow> sync_state \<times> (sync_error + int option)" where
  "tick_batches env cfg k through [] s = (s, Inr through)"
| "tick_batches env cfg k through (batch # rest) s =
     (case res_map (\<lambda>h. src (headerRead env h)) (batch_heights batch) of
        Inl e \<Rightarrow> (s, Inl e)
      | Inr hs \<Rightarrow>
         (case sendHeaders (sendEnv env k) (spvMaxFeeStroops cfg) (status s) of
            (sent, st', r) \<Rightarrow>
              (let s' = s\<lparr>status := st',
                          sends := sends s @ (if sent then [preparedFee (sendEnv env k)] else [])\<rparr>
               in case r of
                    Inl e \<Rightarrow> (s', Inl e)
                  | Inr _ \<Rightarrow> tick_batches env cfg (Suc k) (Some (toHeight batch)) rest s')))"

text \<open>The \<^verbatim>\<open>try\<close> block after the balance check, then its \<^verbatim>\<open>catch\<close>.\<close>

definition tick_body :: "tick_env \<Rightarrow> sync_config \<Rightarrow> sync_state \<Rightarrow> sync_state \<times> (sync_error + unit)" where
  "tick_body env cfg s =
     (case src (tipHeightRead env) of Inl e \<Rightarrow> (s, Inl e) | Inr tipHeight \<Rightarrow>
      case src (tipHashRead env) of Inl e \<Rightarrow> (s, Inl e) | Inr hash \<Rightarrow>
      case contractTipRead env of Inl e \<Rightarrow> (s, Inl e) | Inr ctip \<Rightarrow>
      let btip = \<lparr>tip_height = tipHeight, tip_hash = trim hash\<rparr>;
          s1 = s\<lparr>status := (status s)\<lparr>lastPassAt := Some (tickNow env), bitcoinTip := Some tipHeight,
                 contractTip := map_option tip_height ctip\<rparr>\<rparr>
      in if \<not> hasNewHeaders btip ctip
         then (s1\<lparr>status := (status s1)\<lparr>skippedNoNewHeaders := Suc (skippedNoNewHeaders (status s1)),
                  lastError := None\<rparr>\<rparr>, Inr ())
         else (let from = syncStartHeight (spvSyncFromHeight cfg) (map_option tip_height ctip)
               in case tick_batches env cfg 0 None (plan_from from tipHeight MAX_HEADERS_PER_SUBMIT) s1 of
                    (s2, Inl e) \<Rightarrow> (s2, Inl e)
                  | (s2, Inr through) \<Rightarrow>
                      (s2\<lparr>status := (status s2)\<lparr>lastError := None,
                         lastSubmittedThrough :=
                           (case through of None \<Rightarrow> lastSubmittedThrough (status s2) | Some h \<Rightarrow> Some h)\<rparr>\<rparr>,
                       Inr ())))"

definition tick_catch :: "tick_env \<Rightarrow> sync_error \<Rightarrow> sync_state \<Rightarrow> sync_state" where
  "tick_catch env e s =
     (case e of
        FeeCeilingExceededError fee maxFee \<Rightarrow>
          s\<lparr>status := (status s)\<lparr>skippedFeeCeiling := Suc (skippedFeeCeiling (status s)),
             lastFeeCeilingSkip := Some (tickNow env, stroopsToXlm fee), lastError := Some e\<rparr>\<rparr>
      | _ \<Rightarrow> s\<lparr>status := (status s)\<lparr>lastError := Some e\<rparr>\<rparr>)"

definition tick :: "tick_env \<Rightarrow> sync_config \<Rightarrow> sync_state \<Rightarrow> sync_state" where
  "tick env cfg s =
     (if running s then s
      else (let s0 = (if tickNow env - lastBalanceCheck s \<ge> BALANCE_CHECK_INTERVAL_MS
                      then s\<lparr>lastBalanceCheck := tickNow env,
                             status := checkRelayerBalance env cfg (status s)\<rparr>
                      else s)
            in case tick_body env cfg s0 of
                 (s1, Inr _) \<Rightarrow> s1\<lparr>running := False\<rparr>
               | (s1, Inl e) \<Rightarrow> (tick_catch env e s1)\<lparr>running := False\<rparr>))"

section \<open>Lemmas\<close>

lemma plan_from_heights: "1 \<le> m \<Longrightarrow> concat (map batch_heights (plan_from a b m)) = [a..b]"
proof (induction a b m rule: plan_from.induct)
  case (1 a b m)
  show ?case
  proof (cases "a > b")
    case True
    then show ?thesis by (subst plan_from.simps) simp
  next
    case False
    have split: "[a..min (a + m - 1) b] @ [a + m..b] = [a..b]"
    proof (cases "a + m - 1 \<le> b")
      case True
      have "[a..b] = [a..a + m - 1] @ [a + m - 1 + 1..b]"
        using upto_split2 [of a "a + m - 1" b] True "1.prems" by simp
      with True show ?thesis by simp
    qed simp
    from False 1 have "concat (map batch_heights (plan_from (a + m) b m)) = [a + m..b]" by simp
    with False "1.prems" split show ?thesis
      by (subst plan_from.simps) (simp add: batch_heights_def)
  qed
qed

lemma plan_from_size:
  "b \<in> set (plan_from a c m) \<Longrightarrow> fromHeight b \<le> toHeight b \<and> toHeight b < fromHeight b + m"
proof (induction a c m rule: plan_from.induct)
  case (1 a c m)
  show ?case
  proof (cases "m < 1 \<or> a > c")
    case True
    with "1.prems" show ?thesis by (subst (asm) plan_from.simps) simp
  next
    case False
    with "1.prems" have "b = \<lparr>fromHeight = a, toHeight = min (a + m - 1) c\<rparr> \<or> b \<in> set (plan_from (a + m) c m)"
      by (subst (asm) plan_from.simps) simp
    with "1.IH" False show ?thesis by auto
  qed
qed

lemma plan_from_last: "1 \<le> m \<Longrightarrow> a \<le> b \<Longrightarrow> plan_from a b m \<noteq> [] \<and> toHeight (last (plan_from a b m)) = b"
proof (induction a b m rule: plan_from.induct)
  case (1 a b m)
  show ?case
  proof (cases "a + m \<le> b")
    case True
    with 1 have "plan_from (a + m) b m \<noteq> []" "toHeight (last (plan_from (a + m) b m)) = b" by auto
    with "1.prems" show ?thesis by (subst (1 2) plan_from.simps) simp
  next
    case False
    then have "plan_from (a + m) b m = []" by (subst plan_from.simps) simp
    with False "1.prems" show ?thesis by (subst (1 2) plan_from.simps) simp
  qed
qed

lemma sync_batches_prefix:
  "sync_batches get submit k t bs = (done, r) \<Longrightarrow>
     length done \<le> length bs \<and>
     list_all2 (\<lambda>b hs. res_map get (batch_heights b) = Inr hs) (take (length done) bs) done \<and>
     (\<forall>x. r = Inr x \<longrightarrow> length done = length bs \<and> x = (if bs = [] then t else Some (toHeight (last bs)))) \<and>
     (\<forall>j<length done. submit (k + j) (done ! j) = Inr ())"
proof (induction bs arbitrary: k t "done" r)
  case (Cons b bs)
  show ?case
  proof (cases "res_map get (batch_heights b)")
    case (Inl e)
    with Cons.prems show ?thesis by auto
  next
    case (Inr hs)
    show ?thesis
    proof (cases "submit k hs")
      case (Inl e)
      with Inr Cons.prems show ?thesis by auto
    next
      case sub: (Inr u)
      obtain d' r' where rec: "sync_batches get submit (Suc k) (Some (toHeight b)) bs = (d', r')" by fastforce
      with sub Inr Cons.prems have d: "done = hs # d'" "r' = r" by auto
      have u: "submit k hs = Inr ()" using sub by simp
      have "\<forall>j<length done. submit (k + j) (done ! j) = Inr ()"
      proof (intro allI impI)
        fix j assume "j < length done"
        then show "submit (k + j) (done ! j) = Inr ()"
          using Cons.IH [OF rec] u d by (cases j) auto
      qed
      with Cons.IH [OF rec] Inr d show ?thesis by auto
    qed
  qed
qed auto

lemma concat_take_res_map:
  "list_all2 (\<lambda>b hs. res_map get (batch_heights b) = Inr hs) bs ds \<Longrightarrow>
   res_map get (concat (map batch_heights bs)) = Inr (concat ds)"
proof (induction rule: list_all2_induct)
  case (Cons b bs hs ds)
  then show ?case by (simp add: res_map_Inr_iff list_all2_appendI)
qed simp

lemma poll_tx_sends: "fst (poll_tx env n i st) = st \<or>
    (\<exists>fee. fst (poll_tx env n i st) =
      st\<lparr>submissions := Suc (submissions st), lastSubmissionAt := Some (sentAt env),
         lastFeeXlm := Some (stroopsToXlm fee)\<rparr>)"
  by (induction env n i st rule: poll_tx.induct) (auto split: poll_answer.splits)

lemma sendHeaders_ceiling: "sendHeaders env m st = (True, st', r) \<Longrightarrow> preparedFee env \<le> m"
  by (auto simp: sendHeaders_def assertWithinFeeCeiling_def split: if_splits prod.splits)

lemma tick_batches_ceiling:
  "\<forall>f\<in>set (sends s). f \<le> spvMaxFeeStroops cfg \<Longrightarrow>
   \<forall>f\<in>set (sends (fst (tick_batches env cfg k t bs s))). f \<le> spvMaxFeeStroops cfg"
proof (induction bs arbitrary: k t s)
  case (Cons b bs)
  obtain sent st' q where sh: "sendHeaders (sendEnv env k) (spvMaxFeeStroops cfg) (status s) = (sent, st', q)"
    by (cases "sendHeaders (sendEnv env k) (spvMaxFeeStroops cfg) (status s)") auto
  define s' where "s' = s\<lparr>status := st', sends := sends s @ (if sent then [preparedFee (sendEnv env k)] else [])\<rparr>"
  have "preparedFee (sendEnv env k) \<le> spvMaxFeeStroops cfg" if sent
    using sh that sendHeaders_ceiling [of "sendEnv env k"] by simp
  with Cons.prems have s': "\<forall>f\<in>set (sends s'). f \<le> spvMaxFeeStroops cfg"
    by (auto simp: s'_def)
  show ?case
  proof (cases "res_map (\<lambda>h. src (headerRead env h)) (batch_heights b)")
    case (Inr hs)
    then show ?thesis
      using s' Cons.IH [OF s'] by (cases q) (simp_all add: sh s'_def)
  qed (use Cons.prems in simp)
qed simp

lemma tick_batches_ceilingD:
  "tick_batches env cfg k t bs s = (s', r) \<Longrightarrow> f \<in> set (sends s') \<Longrightarrow>
   \<forall>f\<in>set (sends s). f \<le> spvMaxFeeStroops cfg \<Longrightarrow> f \<le> spvMaxFeeStroops cfg"
  using tick_batches_ceiling [of s cfg env k t bs] by simp

lemma tick_body_ceilingD:
  "tick_body env cfg s = (s', r) \<Longrightarrow> f \<in> set (sends s') \<Longrightarrow>
   \<forall>f\<in>set (sends s). f \<le> spvMaxFeeStroops cfg \<Longrightarrow> f \<le> spvMaxFeeStroops cfg"
  unfolding tick_body_def Let_def
  by (auto split: sum.splits if_splits prod.splits dest: tick_batches_ceilingD)

lemma tick_catch_sends [simp]: "sends (tick_catch env e s) = sends s"
  by (simp add: tick_catch_def split: sync_error.splits)

lemma tick_body_skip:
  assumes "tipHeightRead env = Inr h" "tipHashRead env = Inr x" "contractTipRead env = Inr c"
    and "\<not> hasNewHeaders \<lparr>tip_height = h, tip_hash = trim x\<rparr> c"
  shows "sends (fst (tick_body env cfg s)) = sends s"
  using assms by (simp add: tick_body_def src_def Let_def)

lemma dec_val_stroops:
  "dec_val (dec_str (n div 10000000)) * 10000000 + dec_val (padStart 7 (CHR ''0'') (dec_str (n mod 10000000))) = n"
  by (simp add: dec_val_padStart dec_val_str)

lemma length_frac: "length (padStart 7 (CHR ''0'') (dec_str (n mod 10000000))) = 7"
proof -
  have "length (dec_str (n mod 10000000)) \<le> 7"
    by (rule dec_str_length_le) simp_all
  then show ?thesis by (simp add: length_padStart)
qed

section \<open>Properties\<close>

text \<open>A sync submits the headers of a contiguous run of heights starting at \<open>from\<close>, in
  increasing order and in batches of at most the configured size, each only after the one before it
  succeeded; when it returns, that run reaches \<open>to\<close> and \<open>to\<close> is what it reports. When a batch fails
  the error is all the caller gets, whatever has already landed.\<close>

theorem syncHeaders_correct:
  assumes "1 \<le> m" and "syncHeaders from to m get submit = (done, r)"
  shows "\<exists>k \<le> length (plan_from from to m).
       res_map get (concat (map batch_heights (take k (plan_from from to m)))) = Inr (concat done)
     \<and> concat (map batch_heights (plan_from from to m)) = [from..to]
     \<and> (\<forall>hs\<in>set done. int (length hs) \<le> m)
     \<and> (\<forall>j<length done. submit j (done ! j) = Inr ())
     \<and> (\<forall>x. r = Inr x \<longrightarrow> res_map get [from..to] = Inr (concat done) \<and> x = (if from \<le> to then Some to else None))"
proof -
  let ?p = "plan_from from to m"
  from assms have sb: "sync_batches get submit 0 None ?p = (done, r)"
    by (simp add: syncHeaders_def planHeaderBatches_def)
  note pre = sync_batches_prefix [OF sb]
  then have l2: "list_all2 (\<lambda>b hs. res_map get (batch_heights b) = Inr hs) (take (length done) ?p) done"
    by blast
  have small: "int (length hs) \<le> m" if "hs \<in> set done" for hs
  proof -
    from that obtain j where j: "j < length done" "done ! j = hs"
      by (auto simp: in_set_conv_nth)
    with l2 have "res_map get (batch_heights (take (length done) ?p ! j)) = Inr hs" "j < length ?p"
      by (auto simp: list_all2_conv_all_nth)
    with j obtain b where b: "b \<in> set ?p" "res_map get (batch_heights b) = Inr hs"
      by (metis nth_mem nth_take)
    with plan_from_size [OF b(1)] show ?thesis
      by (auto simp: batch_heights_def dest!: res_map_length)
  qed
  have all: "res_map get [from..to] = Inr (concat done) \<and> x = (if from \<le> to then Some to else None)"
    if "r = Inr x" for x
  proof -
    from pre that have full: "length done = length ?p" "x = (if ?p = [] then None else Some (toHeight (last ?p)))"
      by blast+
    with concat_take_res_map [OF l2] plan_from_heights [OF assms(1), of "from" to]
    have "res_map get [from..to] = Inr (concat done)" by simp
    moreover have "?p = []" if "\<not> from \<le> to"
      using that by (subst plan_from.simps) simp
    ultimately show ?thesis
      using full plan_from_last [OF assms(1), of "from" to] by auto
  qed
  from pre have len: "length done \<le> length ?p" and sub: "\<forall>j<length done. submit (0 + j) (done ! j) = Inr ()"
    by blast+
  show ?thesis
    using len sub small all concat_take_res_map [OF l2] plan_from_heights [OF assms(1), of "from" to]
    by (intro exI [of _ "length done"]) simp
qed

theorem syncHeaders_correct_witness:
  "\<exists>done. syncHeaders 5 9 2 (\<lambda>h. Inr (dec_str (nat h))) (\<lambda>k hs. if k < 2 then Inr () else Inl SendRejected)
       = (done, Inl SendRejected) \<and> (\<forall>hs\<in>set done. int (length hs) \<le> 2)
     \<and> done = [[''5'', ''6''], [''7'', ''8'']]"
proof -
  let ?sync = "syncHeaders 5 9 2 (\<lambda>h. Inr (dec_str (nat h))) (\<lambda>k hs. if k < 2 then Inr () else Inl SendRejected)"
  have "?sync = ([[''5'', ''6''], [''7'', ''8'']], Inl SendRejected)" by code_simp
  with syncHeaders_correct [OF _ this] show ?thesis by auto
qed

text \<open>C16. No pass of the header sync ever puts out a transaction that could cost more than the
  configured ceiling, and a pass that finds no new Bitcoin block puts out none at all.\<close>

theorem tick_within_fee_ceiling:
  assumes "\<forall>f\<in>set (sends s). f \<le> spvMaxFeeStroops cfg"
  shows "(\<forall>f\<in>set (sends (tick env cfg s)). f \<le> spvMaxFeeStroops cfg)
     \<and> (\<not> running s \<and> tipHeightRead env = Inr h \<and> tipHashRead env = Inr x \<and> contractTipRead env = Inr c
          \<and> \<not> hasNewHeaders \<lparr>tip_height = h, tip_hash = trim x\<rparr> c \<longrightarrow> sends (tick env cfg s) = sends s)"
proof -
  let ?s = "if tickNow env - lastBalanceCheck s \<ge> BALANCE_CHECK_INTERVAL_MS
            then s\<lparr>lastBalanceCheck := tickNow env, status := checkRelayerBalance env cfg (status s)\<rparr> else s"
  obtain s1 r where body: "tick_body env cfg ?s = (s1, r)" by fastforce
  have tick: "sends (tick env cfg s) = (if running s then sends s else sends s1)"
    by (cases r) (auto simp: tick_def body Let_def)
  have "\<forall>f\<in>set (sends ?s). f \<le> spvMaxFeeStroops cfg" using assms by simp
  with tick_body_ceilingD [OF body] assms tick
  have "\<forall>f\<in>set (sends (tick env cfg s)). f \<le> spvMaxFeeStroops cfg" by auto
  moreover have "sends s1 = sends s"
    if "tipHeightRead env = Inr h" "tipHashRead env = Inr x" "contractTipRead env = Inr c"
      "\<not> hasNewHeaders \<lparr>tip_height = h, tip_hash = trim x\<rparr> c"
    using tick_body_skip [OF that, of cfg ?s] body by simp
  ultimately show ?thesis using tick by auto
qed

definition sample_send :: "int \<Rightarrow> send_env" where
  "sample_send fee = \<lparr>simFails = False, preparedFee = fee, sendErrors = False,
     pollAnswer = (\<lambda>i. if i < 2 then NotFound else Success 900), sentAt = 5\<rparr>"

definition sample_tick :: "int \<Rightarrow> tick_env" where
  "sample_tick fee = \<lparr>tickNow = 700000, balanceRead = Inr 12345, tipHeightRead = Inr 110, tipHashRead = Inr ''ab'',
     contractTipRead = Inr (Some \<lparr>tip_height = 108, tip_hash = ''cd''\<rparr>), headerRead = (\<lambda>h. Inr (dec_str (nat h))),
     sendEnv = (\<lambda>k. sample_send fee)\<rparr>"

theorem tick_within_fee_ceiling_witness:
  "let cfg = \<lparr>spvSyncFromHeight = 100, spvMaxFeeStroops = 1000, relayerMinBalanceStroops = 20000\<rparr>;
       s = \<lparr>running = False, lastBalanceCheck = 0, status = headerSyncStatus, sends = []\<rparr>
   in sends (tick (sample_tick 1000) cfg s) = [1000] \<and> sends (tick (sample_tick 1001) cfg s) = []
      \<and> balanceLow (status (tick (sample_tick 1001) cfg s))
      \<and> (\<forall>f\<in>set (sends (tick (sample_tick 1000) cfg s)). f \<le> 1000)"
proof -
  let ?cfg = "\<lparr>spvSyncFromHeight = 100, spvMaxFeeStroops = 1000, relayerMinBalanceStroops = 20000\<rparr>"
  let ?s = "\<lparr>running = False, lastBalanceCheck = 0, status = headerSyncStatus, sends = []\<rparr>"
  have "\<forall>f\<in>set (sends ?s). f \<le> spvMaxFeeStroops ?cfg" by simp
  note app = tick_within_fee_ceiling [OF this, of "sample_tick 1000"]
  have "sends (tick (sample_tick 1000) ?cfg ?s) = [1000]" "sends (tick (sample_tick 1001) ?cfg ?s) = []"
    "balanceLow (status (tick (sample_tick 1001) ?cfg ?s))"
    by (simp_all add: tick_def tick_body_def tick_catch_def sample_tick_def src_def hasNewHeaders_def
        syncStartHeight_def REORG_RESUBMIT_DEPTH_def MAX_HEADERS_PER_SUBMIT_def BALANCE_CHECK_INTERVAL_MS_def
        plan_from.simps batch_heights_def upto.simps sendHeaders_def assertWithinFeeCeiling_def
        sample_send_def checkRelayerBalance_def recordRelayerBalance_def Let_def headerSyncStatus_def
        eval_nat_numeral del: upto_rec_numeral)
  with app show ?thesis by simp
qed

text \<open>The XLM text of an amount loses nothing: it is the sign, the whole part and exactly seven
  decimals, and reading the two numbers back gives the amount in stroops.\<close>

lemma stroopsToXlm_exact:
  "\<exists>whole frac. stroopsToXlm a = (if a < 0 then ''-'' else []) @ whole @ ''.'' @ frac \<and> length frac = 7
     \<and> int (dec_val whole * 10000000 + dec_val frac) = \<bar>a\<bar>"
proof -
  let ?n = "nat \<bar>a\<bar>"
  have "stroopsToXlm a = (if a < 0 then ''-'' else []) @ dec_str (?n div 10000000) @ ''.''
     @ padStart 7 (CHR ''0'') (dec_str (?n mod 10000000))"
    by (cases "a < 0") (simp_all add: stroopsToXlm_def Let_def)
  moreover have "int (dec_val (dec_str (?n div 10000000)) * 10000000
     + dec_val (padStart 7 (CHR ''0'') (dec_str (?n mod 10000000)))) = \<bar>a\<bar>"
    by (simp only: dec_val_stroops)
  ultimately show ?thesis using length_frac [of ?n] by blast
qed

end
