(* ===== verification/JsBuffer.thy ===== *)
theory JsBuffer
  imports JsText
begin

text \<open>
  What the source uses of Node's \<^verbatim>\<open>Buffer\<close>: a list of bytes, clamped sub-arrays, little and big
  endian reads that throw when they run past the end, and hexadecimal conversion.
\<close>

type_synonym byte = "8 word"
type_synonym buffer = "byte list"

section \<open>Indexing\<close>

text \<open>\<^verbatim>\<open>buf[i]\<close>: \<^const>\<open>None\<close> is \<^verbatim>\<open>undefined\<close>.\<close>

definition at_opt :: "'a list \<Rightarrow> nat \<Rightarrow> 'a option" where
  "at_opt xs i = (if i < length xs then Some (xs ! i) else None)"

text \<open>\<^verbatim>\<open>buf.subarray(start, start + len)\<close> for non-negative bounds: silently truncated at the end.\<close>

definition subarray :: "'a list \<Rightarrow> nat \<Rightarrow> nat \<Rightarrow> 'a list" where
  "subarray xs start len = take len (drop start xs)"

text \<open>\<^verbatim>\<open>buf.subarray(start)\<close> for an integer start: a negative one counts from the end.\<close>

definition subarray_from :: "'a list \<Rightarrow> int \<Rightarrow> 'a list" where
  "subarray_from xs start =
     drop (nat (if start < 0 then max 0 (int (length xs) + start) else start)) xs"

definition le_val :: "buffer \<Rightarrow> nat" where
  "le_val bs = foldr (\<lambda>b acc. unat b + 256 * acc) bs 0"

definition be_val :: "buffer \<Rightarrow> nat" where
  "be_val bs = foldl (\<lambda>acc b. 256 * acc + unat b) 0 bs"

text \<open>\<^verbatim>\<open>readUInt16LE\<close>, \<^verbatim>\<open>readUInt32LE\<close>, \<^verbatim>\<open>readBigUInt64LE\<close>, \<^verbatim>\<open>readUInt32BE\<close> throw a RangeError past the end.\<close>

definition readLE :: "nat \<Rightarrow> buffer \<Rightarrow> nat \<Rightarrow> nat option" where
  "readLE n buf off = (if off + n \<le> length buf then Some (le_val (subarray buf off n)) else None)"

definition readBE :: "nat \<Rightarrow> buffer \<Rightarrow> nat \<Rightarrow> nat option" where
  "readBE n buf off = (if off + n \<le> length buf then Some (be_val (subarray buf off n)) else None)"

fun le_bytes :: "nat \<Rightarrow> nat \<Rightarrow> buffer" where
  "le_bytes 0 v = []"
| "le_bytes (Suc n) v = word_of_nat (v mod 256) # le_bytes n (v div 256)"

definition be_bytes :: "nat \<Rightarrow> nat \<Rightarrow> buffer" where
  "be_bytes n v = rev (le_bytes n v)"

lemma unat_byte_lt [simp]: "unat (b :: byte) < 256"
  using unsigned_less [of b] by simp

lemma unat_byte_of_nat [simp]: "n < 256 \<Longrightarrow> unat (word_of_nat n :: byte) = n"
  by (simp add: unsigned_of_nat take_bit_nat_eq_self_iff)

lemma length_le_bytes [simp]: "length (le_bytes n v) = n"
  by (induction n arbitrary: v) auto

lemma length_be_bytes [simp]: "length (be_bytes n v) = n"
  by (simp add: be_bytes_def)

lemma le_val_Nil [simp]: "le_val [] = 0"
  by (simp add: le_val_def)

lemma le_val_Cons [simp]: "le_val (b # bs) = unat b + 256 * le_val bs"
  by (simp add: le_val_def)

lemma le_val_bytes [simp]: "v < 256 ^ n \<Longrightarrow> le_val (le_bytes n v) = v"
proof (induction n arbitrary: v)
  case (Suc n)
  then have "v div 256 < 256 ^ n" by (simp add: less_mult_imp_div_less mult.commute)
  with Suc.IH show ?case by simp
qed simp

lemma digit_bound: "(u::nat) < 256 \<Longrightarrow> v < P \<Longrightarrow> u + 256 * v < 256 * P"
  by linarith

lemma le_val_lt: "le_val bs < 256 ^ length bs"
proof (induction bs)
  case (Cons b bs)
  then show ?case using digit_bound [of "unat b" "le_val bs" "256 ^ length bs"] by simp
qed simp

lemma be_val_le_val: "be_val bs = le_val (rev bs)"
  by (simp add: be_val_def le_val_def foldr_conv_foldl add.commute)

lemma be_val_bytes [simp]: "v < 256 ^ n \<Longrightarrow> be_val (be_bytes n v) = v"
  by (simp add: be_val_le_val be_bytes_def)

lemma be_val_lt: "be_val bs < 256 ^ length bs"
  using le_val_lt [of "rev bs"] by (simp add: be_val_le_val)

lemma le_bytes_val: "le_bytes (length bs) (le_val bs) = bs"
proof (induction bs)
  case (Cons b bs)
  have "(unat b + 256 * le_val bs) div 256 = le_val bs" by simp
  moreover have "(unat b + 256 * le_val bs) mod 256 = unat b" by simp
  ultimately show ?case using Cons by simp
qed simp

lemma be_bytes_val: "be_bytes (length bs) (be_val bs) = bs"
  using le_bytes_val [of "rev bs"] by (simp add: be_bytes_def be_val_le_val)

section \<open>Reading inside a concatenation\<close>

text \<open>
  A parser runs over \<open>pre @ x @ post\<close> with its offset at the end of \<open>pre\<close>; these rules read the
  field \<open>x\<close> off.
\<close>

lemma subarray_mid [simp]: "length x = n \<Longrightarrow> subarray (pre @ x @ post) (length pre) n = x"
  by (simp add: subarray_def)

lemma subarray_mid0 [simp]: "length x = n \<Longrightarrow> subarray (x @ post) 0 n = x"
  by (simp add: subarray_def)

lemma readLE_mid: "length x = n \<Longrightarrow> readLE n (pre @ x @ post) (length pre) = Some (le_val x)"
  by (simp add: readLE_def)

lemma at_opt_mid [simp]: "at_opt (pre @ b # post) (length pre) = Some b"
  by (simp add: at_opt_def)

section \<open>Hexadecimal\<close>

definition hex_of_byte :: "byte \<Rightarrow> string" where
  "hex_of_byte b = [hex_digit (unat b div 16), hex_digit (unat b mod 16)]"

text \<open>\<^verbatim>\<open>buf.toString("hex")\<close>.\<close>

definition hex_of_bytes :: "buffer \<Rightarrow> string" where
  "hex_of_bytes bs = concat (map hex_of_byte bs)"

text \<open>\<^verbatim>\<open>Buffer.from(s, "hex")\<close> decodes pairs and stops at the first one that is not two hex digits.\<close>

fun bytes_of_hex :: "string \<Rightarrow> buffer" where
  "bytes_of_hex (c # d # rest) =
     (case (hex_val c, hex_val d) of
        (Some a, Some b) \<Rightarrow> word_of_nat (16 * a + b) # bytes_of_hex rest
      | _ \<Rightarrow> [])"
| "bytes_of_hex _ = []"

lemma hex_of_bytes_Nil [simp]: "hex_of_bytes [] = []"
  by (simp add: hex_of_bytes_def)

lemma hex_of_bytes_Cons: "hex_of_bytes (b # bs) = hex_of_byte b @ hex_of_bytes bs"
  by (simp add: hex_of_bytes_def)

lemma hex_of_bytes_append [simp]: "hex_of_bytes (xs @ ys) = hex_of_bytes xs @ hex_of_bytes ys"
  by (simp add: hex_of_bytes_def)

lemma length_hex_of_bytes [simp]: "length (hex_of_bytes bs) = 2 * length bs"
  by (induction bs) (auto simp: hex_of_bytes_Cons hex_of_byte_def)

lemma bytes_of_hex_of_bytes [simp]: "bytes_of_hex (hex_of_bytes bs) = bs"
proof (induction bs)
  case (Cons b bs)
  have "unat b div 16 < 16" by (simp add: less_mult_imp_div_less)
  with Cons show ?case by (simp add: hex_of_bytes_Cons hex_of_byte_def)
qed simp

lemma hex_of_bytes_lower: "list_all is_lower_hex (hex_of_bytes bs)"
proof (induction bs)
  case (Cons b bs)
  have "unat b div 16 < 16" by (simp add: less_mult_imp_div_less)
  with Cons show ?case by (simp add: hex_of_bytes_Cons hex_of_byte_def hex_digit_lower)
qed simp

lemma hex_of_bytes_inject [simp]: "hex_of_bytes xs = hex_of_bytes ys \<longleftrightarrow> xs = ys"
  by (metis bytes_of_hex_of_bytes)

lemma toLowerCase_hex_of_bytes [simp]: "toLowerCase (hex_of_bytes bs) = hex_of_bytes bs"
  by (rule toLowerCase_lower_hex) (rule hex_of_bytes_lower)

lemma trim_hex_of_bytes [simp]: "trim (hex_of_bytes bs) = hex_of_bytes bs"
  by (rule trim_lower_hex) (rule hex_of_bytes_lower)

lemma hex_of_bytes_of_hex:
  "even (length s) \<Longrightarrow> list_all is_lower_hex s \<Longrightarrow> hex_of_bytes (bytes_of_hex s) = s"
proof (induction s rule: bytes_of_hex.induct)
  case (1 c d rest)
  from 1(3) obtain a b where a: "a < 16" "hex_val c = Some a" "hex_digit a = c"
    and b: "b < 16" "hex_val d = Some b" "hex_digit b = d"
    using lower_hex_val by (metis list.pred_inject(2))
  have n: "unat (word_of_nat (16 * a + b) :: byte) = 16 * a + b"
    using a b by (intro unat_byte_of_nat) simp
  have "hex_of_byte (word_of_nat (16 * a + b)) = [c, d]"
    using a b by (simp only: hex_of_byte_def n) simp
  moreover have "hex_of_bytes (bytes_of_hex rest) = rest" using 1 a b by simp
  ultimately show ?case using a b by (simp add: hex_of_bytes_Cons del: of_nat_add of_nat_mult)
qed auto

lemma length_bytes_of_hex:
  "list_all is_hex s \<Longrightarrow> length (bytes_of_hex s) = length s div 2"
  by (induction s rule: bytes_of_hex.induct) (auto simp: is_hex_def)

end
