(* ===== verification/CctpMessage.thy ===== *)
theory CctpMessage
  imports JsBuffer
begin

text \<open>
  \<^verbatim>\<open>relayer/src/cctp/message.ts\<close>: decoding Circle's CCTP V2 burn message and the one route the relay
  pays gas for. The wire layout is written down independently as \<open>enc_burn\<close>, so that decoding and
  acceptance are stated against the layout and not against the decoder.
\<close>

section \<open>Decoding\<close>

datatype message_refused =
    NotHex | TooShort | NotV2Burn | NotFromStellar | NotToBase | NotTokenMessenger
  | NamesItsCaller | CarriesHook | RecipientNotAddress | ZeroAmount

definition STELLAR_DOMAIN :: nat where "STELLAR_DOMAIN = 27"
definition BASE_DOMAIN :: nat where "BASE_DOMAIN = 6"
definition MESSAGE_VERSION :: nat where "MESSAGE_VERSION = 1"
definition BURN_MESSAGE_VERSION :: nat where "BURN_MESSAGE_VERSION = 1"
definition HEADER_BYTES :: nat where "HEADER_BYTES = 148"
definition BODY_BYTES :: nat where "BODY_BYTES = 228"

definition BASE_SEPOLIA_TOKEN_MESSENGER :: string where
  "BASE_SEPOLIA_TOKEN_MESSENGER = ''0x8FE6B999Dc680CcFDD5Bf7EB0974218be2542DAA''"

record burn_body =
  bodyVersion :: nat
  burnToken :: string
  bodyMintRecipient :: string
  amount :: string
  messageSender :: string
  maxFee :: string
  feeExecuted :: string
  expirationBlock :: string
  hookData :: string

record burn_message =
  version :: nat
  sourceDomain :: nat
  destinationDomain :: nat
  nonce :: string
  sender :: string
  recipient :: string
  destinationCaller :: string
  minFinalityThreshold :: nat
  finalityThresholdExecuted :: nat
  body :: burn_body

definition hexToBytes :: "string \<Rightarrow> message_refused + buffer" where
  "hexToBytes hex =
     (let clean = (if startsWith ''0x'' hex then drop 2 hex else hex) in
      if length clean mod 2 \<noteq> 0 \<or> \<not> list_all is_hex clean then Inl NotHex
      else Inr (bytes_of_hex clean))"

definition b32 :: "buffer \<Rightarrow> nat \<Rightarrow> string" where
  "b32 buf at = ''0x'' @ hex_of_bytes (subarray buf at 32)"

text \<open>\<^verbatim>\<open>BigInt(b32(buf, at)).toString()\<close>: the 32 bytes read big-endian, in decimal.\<close>

definition u256 :: "buffer \<Rightarrow> nat \<Rightarrow> string" where
  "u256 buf at = dec_str (be_val (subarray buf at 32))"

definition readUInt32BE :: "buffer \<Rightarrow> nat \<Rightarrow> nat" where
  "readUInt32BE buf at = be_val (subarray buf at 4)"

definition decodeBurnMessage :: "string \<Rightarrow> message_refused + burn_message" where
  "decodeBurnMessage messageHex =
     res_bind (hexToBytes messageHex) (\<lambda>m.
     if length m < HEADER_BYTES + BODY_BYTES then Inl TooShort
     else (let bd = drop HEADER_BYTES m in
       Inr \<lparr>version = readUInt32BE m 0, sourceDomain = readUInt32BE m 4,
            destinationDomain = readUInt32BE m 8, nonce = b32 m 12, sender = b32 m 44,
            recipient = b32 m 76, destinationCaller = b32 m 108,
            minFinalityThreshold = readUInt32BE m 140, finalityThresholdExecuted = readUInt32BE m 144,
            body = \<lparr>bodyVersion = readUInt32BE bd 0, burnToken = b32 bd 4, bodyMintRecipient = b32 bd 36,
              amount = u256 bd 68, messageSender = b32 bd 100, maxFee = u256 bd 132,
              feeExecuted = u256 bd 164, expirationBlock = u256 bd 196,
              hookData = ''0x'' @ hex_of_bytes (drop BODY_BYTES bd)\<rparr>\<rparr>))"

section \<open>Acceptance\<close>

definition strip0x :: "string \<Rightarrow> string" where
  "strip0x s = (if startsWith ''0x'' s then drop 2 s else s)"

definition addressToBytes32 :: "string \<Rightarrow> string" where
  "addressToBytes32 address = ''0x'' @ replicate 24 (CHR ''0'') @ strip0x (toLowerCase address)"

definition bytes32ToAddress :: "string \<Rightarrow> string option" where
  "bytes32ToAddress value =
     (let hex = strip0x (toLowerCase value) in
      if length hex \<noteq> 64 \<or> take 24 hex \<noteq> replicate 24 (CHR ''0'') then None
      else Some (''0x'' @ drop 24 hex))"

definition ZERO_BYTES32 :: string where
  "ZERO_BYTES32 = ''0x'' @ replicate 64 (CHR ''0'')"

record relayable_burn =
  burnMessage :: burn_message
  mintRecipient :: string

definition assertRelayable :: "string \<Rightarrow> message_refused + relayable_burn" where
  "assertRelayable messageHex =
     res_bind (decodeBurnMessage messageHex) (\<lambda>m.
     if version m \<noteq> MESSAGE_VERSION \<or> bodyVersion (body m) \<noteq> BURN_MESSAGE_VERSION then Inl NotV2Burn
     else if sourceDomain m \<noteq> STELLAR_DOMAIN then Inl NotFromStellar
     else if destinationDomain m \<noteq> BASE_DOMAIN then Inl NotToBase
     else if recipient m \<noteq> addressToBytes32 BASE_SEPOLIA_TOKEN_MESSENGER then Inl NotTokenMessenger
     else if destinationCaller m \<noteq> ZERO_BYTES32 then Inl NamesItsCaller
     else if hookData (body m) \<noteq> ''0x'' then Inl CarriesHook
     else (case bytes32ToAddress (bodyMintRecipient (body m)) of
             None \<Rightarrow> Inl RecipientNotAddress
           | Some a \<Rightarrow>
               if a = ''0x'' @ replicate 40 (CHR ''0'') then Inl RecipientNotAddress
               else if dec_val (amount (body m)) = 0 then Inl ZeroAmount
               else Inr \<lparr>burnMessage = m, mintRecipient = a\<rparr>))"

section \<open>The wire layout\<close>

record raw_burn =
  r_version :: nat
  r_source :: nat
  r_destination :: nat
  r_nonce :: buffer
  r_sender :: buffer
  r_recipient :: buffer
  r_caller :: buffer
  r_minFinality :: nat
  r_finality :: nat
  r_bodyVersion :: nat
  r_burnToken :: buffer
  r_mintRecipient :: buffer
  r_amount :: nat
  r_messageSender :: buffer
  r_maxFee :: nat
  r_feeExecuted :: nat
  r_expiration :: nat
  r_hook :: buffer

definition wf_burn :: "raw_burn \<Rightarrow> bool" where
  "wf_burn b \<longleftrightarrow>
     r_version b < 256 ^ 4 \<and> r_source b < 256 ^ 4 \<and> r_destination b < 256 ^ 4 \<and>
     r_minFinality b < 256 ^ 4 \<and> r_finality b < 256 ^ 4 \<and> r_bodyVersion b < 256 ^ 4 \<and>
     length (r_nonce b) = 32 \<and> length (r_sender b) = 32 \<and> length (r_recipient b) = 32 \<and>
     length (r_caller b) = 32 \<and> length (r_burnToken b) = 32 \<and> length (r_mintRecipient b) = 32 \<and>
     length (r_messageSender b) = 32 \<and>
     r_amount b < 256 ^ 32 \<and> r_maxFee b < 256 ^ 32 \<and> r_feeExecuted b < 256 ^ 32 \<and> r_expiration b < 256 ^ 32"

definition enc_header :: "raw_burn \<Rightarrow> buffer" where
  "enc_header b = be_bytes 4 (r_version b) @ be_bytes 4 (r_source b) @ be_bytes 4 (r_destination b)
     @ r_nonce b @ r_sender b @ r_recipient b @ r_caller b
     @ be_bytes 4 (r_minFinality b) @ be_bytes 4 (r_finality b)"

definition enc_body :: "raw_burn \<Rightarrow> buffer" where
  "enc_body b = be_bytes 4 (r_bodyVersion b) @ r_burnToken b @ r_mintRecipient b @ be_bytes 32 (r_amount b)
     @ r_messageSender b @ be_bytes 32 (r_maxFee b) @ be_bytes 32 (r_feeExecuted b)
     @ be_bytes 32 (r_expiration b) @ r_hook b"

definition enc_burn :: "raw_burn \<Rightarrow> buffer" where
  "enc_burn b = enc_header b @ enc_body b"

definition hex0x :: "buffer \<Rightarrow> string" where
  "hex0x bs = ''0x'' @ hex_of_bytes bs"

text \<open>What decoding should report for a message laid out from \<open>b\<close>.\<close>

definition burn_view :: "raw_burn \<Rightarrow> burn_message" where
  "burn_view b =
     \<lparr>version = r_version b, sourceDomain = r_source b, destinationDomain = r_destination b,
      nonce = hex0x (r_nonce b), sender = hex0x (r_sender b), recipient = hex0x (r_recipient b),
      destinationCaller = hex0x (r_caller b), minFinalityThreshold = r_minFinality b,
      finalityThresholdExecuted = r_finality b,
      body = \<lparr>bodyVersion = r_bodyVersion b, burnToken = hex0x (r_burnToken b),
        bodyMintRecipient = hex0x (r_mintRecipient b), amount = dec_str (r_amount b),
        messageSender = hex0x (r_messageSender b), maxFee = dec_str (r_maxFee b),
        feeExecuted = dec_str (r_feeExecuted b), expirationBlock = dec_str (r_expiration b),
        hookData = hex0x (r_hook b)\<rparr>\<rparr>"

section \<open>Lemmas\<close>

lemma is_hex_of_bytes: "list_all is_hex (hex_of_bytes bs)"
  using hex_of_bytes_lower [of bs] by (auto simp: list_all_iff lower_hex_is_hex)

lemma startsWith_0x [simp]: "startsWith ''0x'' (CHR ''0'' # CHR ''x'' # s)"
  by (simp add: startsWith_def)

lemma hexToBytes_0x [simp]: "hexToBytes (hex0x bs) = Inr bs"
  by (simp add: hexToBytes_def hex0x_def is_hex_of_bytes)

lemma hex0x_inject [simp]: "hex0x xs = hex0x ys \<longleftrightarrow> xs = ys"
  by (simp add: hex0x_def)

lemma length_enc_header: "wf_burn b \<Longrightarrow> length (enc_header b) = 148"
  by (simp add: enc_header_def wf_burn_def)

lemma length_enc_body: "wf_burn b \<Longrightarrow> length (enc_body b) = 228 + length (r_hook b)"
  by (simp add: enc_body_def wf_burn_def)

lemma subarray_skip: "length x \<le> i \<Longrightarrow> subarray (x @ y) i n = subarray y (i - length x) n"
  by (simp add: subarray_def)

lemma subarray_hit: "length x = n \<Longrightarrow> subarray (x @ y) 0 n = x"
  by (simp add: subarray_def)

lemma subarray_head: "i + n \<le> length x \<Longrightarrow> subarray (x @ y) i n = subarray x i n"
  by (simp add: subarray_def)

lemma subarray_all: "length x = n \<Longrightarrow> subarray x 0 n = x"
  by (simp add: subarray_def)

lemmas layout_simps = subarray_skip subarray_hit subarray_all

lemma header_fields:
  assumes "wf_burn b"
  shows "readUInt32BE (enc_header b) 0 = r_version b" "readUInt32BE (enc_header b) 4 = r_source b"
    "readUInt32BE (enc_header b) 8 = r_destination b" "b32 (enc_header b) 12 = hex0x (r_nonce b)"
    "b32 (enc_header b) 44 = hex0x (r_sender b)" "b32 (enc_header b) 76 = hex0x (r_recipient b)"
    "b32 (enc_header b) 108 = hex0x (r_caller b)"
    "readUInt32BE (enc_header b) 140 = r_minFinality b" "readUInt32BE (enc_header b) 144 = r_finality b"
  using assms
  by (simp_all add: enc_header_def wf_burn_def readUInt32BE_def b32_def hex0x_def layout_simps)

lemma body_fields:
  assumes "wf_burn b"
  shows "readUInt32BE (enc_body b) 0 = r_bodyVersion b" "b32 (enc_body b) 4 = hex0x (r_burnToken b)"
    "b32 (enc_body b) 36 = hex0x (r_mintRecipient b)" "u256 (enc_body b) 68 = dec_str (r_amount b)"
    "b32 (enc_body b) 100 = hex0x (r_messageSender b)" "u256 (enc_body b) 132 = dec_str (r_maxFee b)"
    "u256 (enc_body b) 164 = dec_str (r_feeExecuted b)" "u256 (enc_body b) 196 = dec_str (r_expiration b)"
    "drop 228 (enc_body b) = r_hook b"
  using assms
  by (simp_all add: enc_body_def wf_burn_def readUInt32BE_def b32_def u256_def hex0x_def layout_simps)

lemma head_fields:
  "wf_burn b \<Longrightarrow> i + 4 \<le> 148 \<Longrightarrow> readUInt32BE (enc_header b @ y) i = readUInt32BE (enc_header b) i"
  "wf_burn b \<Longrightarrow> i + 32 \<le> 148 \<Longrightarrow> b32 (enc_header b @ y) i = b32 (enc_header b) i"
  by (simp_all add: readUInt32BE_def b32_def subarray_head length_enc_header)

lemma decode_enc: "wf_burn b \<Longrightarrow> decodeBurnMessage (hex0x (enc_burn b)) = Inr (burn_view b)"
  by (simp add: decodeBurnMessage_def enc_burn_def HEADER_BYTES_def BODY_BYTES_def Let_def
      length_enc_header length_enc_body head_fields header_fields body_fields burn_view_def hex0x_def [of "r_hook b"])

text \<open>The contract address of the token messenger as 32 bytes.\<close>

definition token_messenger_bytes :: buffer where
  "token_messenger_bytes = bytes_of_hex (drop 2 (addressToBytes32 BASE_SEPOLIA_TOKEN_MESSENGER))"

lemma token_messenger: "addressToBytes32 BASE_SEPOLIA_TOKEN_MESSENGER = hex0x token_messenger_bytes"
  by code_simp

lemma hex_zeros: "hex_of_bytes (replicate n 0) = replicate (2 * n) (CHR ''0'')"
proof -
  have "hex_digit 0 = CHR ''0''" by code_simp
  then show ?thesis by (induction n) (simp_all add: hex_of_bytes_Cons hex_of_byte_def)
qed

lemma zero_bytes32: "ZERO_BYTES32 = hex0x (replicate 32 0)"
  by (simp add: ZERO_BYTES32_def hex0x_def hex_zeros)

lemma toLowerCase_hex0x [simp]: "toLowerCase (hex0x bs) = hex0x bs"
proof -
  have "toLowerCase ''0x'' = ''0x''" by code_simp
  then show ?thesis
    using toLowerCase_hex_of_bytes [of bs] by (simp add: hex0x_def toLowerCase_def)
qed

lemma take_hex: "take (2 * n) (hex_of_bytes bs) = hex_of_bytes (take n bs)"
proof (induction bs arbitrary: n)
  case (Cons b bs)
  then show ?case by (cases n) (simp_all add: hex_of_bytes_Cons hex_of_byte_def)
qed simp

lemma drop_hex: "drop (2 * n) (hex_of_bytes bs) = hex_of_bytes (drop n bs)"
proof (induction bs arbitrary: n)
  case (Cons b bs)
  then show ?case by (cases n) (simp_all add: hex_of_bytes_Cons hex_of_byte_def)
qed simp

lemma bytes32ToAddress_hex:
  assumes "length bs = 32"
  shows "bytes32ToAddress (hex0x bs) =
     (if take 12 bs = replicate 12 0 then Some (hex0x (drop 12 bs)) else None)"
proof -
  have "take 24 (hex_of_bytes bs) = hex_of_bytes (take 12 bs)" "drop 24 (hex_of_bytes bs) = hex_of_bytes (drop 12 bs)"
    using take_hex [of 12 bs] drop_hex [of 12 bs] by simp_all
  moreover have "replicate 24 (CHR ''0'') = hex_of_bytes (replicate 12 0)"
    using hex_zeros [of 12] by simp
  moreover have "strip0x (toLowerCase (hex0x bs)) = hex_of_bytes bs"
    by (simp add: strip0x_def) (simp add: hex0x_def)
  ultimately show ?thesis
    using assms by (simp only: bytes32ToAddress_def Let_def length_hex_of_bytes hex_of_bytes_inject hex0x_def) simp
qed

lemma zero_address: "''0x'' @ replicate 40 (CHR ''0'') = hex0x (replicate 20 0)"
  using hex_zeros [of 20] by (simp only: hex0x_def) simp

lemma drop_zero_bytes:
  "length bs = 32 \<Longrightarrow> take 12 bs = replicate 12 0 \<Longrightarrow>
     drop 12 bs = replicate 20 0 \<longleftrightarrow> bs = replicate 32 (0::byte)"
proof
  assume a: "length bs = 32" "take 12 bs = replicate 12 0" "drop 12 bs = replicate 20 0"
  have "bs = take 12 bs @ drop 12 bs" by simp
  also have "\<dots> = replicate 32 0" using a by (simp flip: replicate_add)
  finally show "bs = replicate 32 0" .
qed simp

text \<open>Acceptance, read off the layout.\<close>

definition relayable :: "raw_burn \<Rightarrow> bool" where
  "relayable b \<longleftrightarrow>
     r_version b = 1 \<and> r_bodyVersion b = 1 \<and> r_source b = 27 \<and> r_destination b = 6
     \<and> r_recipient b = token_messenger_bytes \<and> r_caller b = replicate 32 0 \<and> r_hook b = []
     \<and> take 12 (r_mintRecipient b) = replicate 12 0 \<and> r_mintRecipient b \<noteq> replicate 32 0
     \<and> 0 < r_amount b"

lemma assertRelayable_layout:
  assumes "wf_burn b"
  shows "assertRelayable (hex0x (enc_burn b)) = Inr r \<longleftrightarrow>
     relayable b \<and> r = \<lparr>burnMessage = burn_view b, mintRecipient = hex0x (drop 12 (r_mintRecipient b))\<rparr>"
proof -
  have len: "length (r_mintRecipient b) = 32" using assms by (simp add: wf_burn_def)
  have hook: "hex0x (r_hook b) = ''0x'' \<longleftrightarrow> r_hook b = []"
    using hex0x_inject [of "r_hook b" "[]"] by (simp add: hex0x_def)
  show ?thesis
    unfolding assertRelayable_def decode_enc [OF assms] res_bind.simps token_messenger zero_bytes32 zero_address
    by (auto simp: burn_view_def relayable_def MESSAGE_VERSION_def BURN_MESSAGE_VERSION_def STELLAR_DOMAIN_def
        BASE_DOMAIN_def hook bytes32ToAddress_hex [OF len] drop_zero_bytes [OF len] split: if_splits)
qed

section \<open>Properties\<close>

text \<open>Decoding a message laid out as CCTP V2 lays out a burn reports exactly its fields, whatever
  hook data follows; anything shorter than the fixed part or not hexadecimal is refused.\<close>

theorem decodeBurnMessage_roundtrip:
  "(wf_burn b \<longrightarrow> decodeBurnMessage (hex0x (enc_burn b)) = Inr (burn_view b))
   \<and> (length bs < 376 \<longrightarrow> decodeBurnMessage (hex0x bs) = Inl TooShort)
   \<and> (odd (length s) \<or> \<not> list_all is_hex s \<longrightarrow> decodeBurnMessage (''0x'' @ s) = Inl NotHex)"
  by (auto simp: decode_enc decodeBurnMessage_def [of "hex0x bs"] HEADER_BYTES_def BODY_BYTES_def
      decodeBurnMessage_def [of "CHR ''0'' # CHR ''x'' # s"] hexToBytes_def [of "CHR ''0'' # CHR ''x'' # s"]
      odd_iff_mod_2_eq_one)

text \<open>The relay accepts exactly the Stellar to Base Sepolia USDC burns that anyone may complete and
  that carry no hook, a positive amount and a real recipient address, and mints to that address.\<close>

theorem assertRelayable_exact:
  assumes "wf_burn b"
  shows "(relayable b \<longleftrightarrow> is_ok (assertRelayable (hex0x (enc_burn b))))
     \<and> (\<forall>r. assertRelayable (hex0x (enc_burn b)) = Inr r \<longrightarrow>
          mintRecipient r = hex0x (drop 12 (r_mintRecipient b))
          \<and> amount (body (burnMessage r)) = dec_str (r_amount b) \<and> nonce (burnMessage r) = hex0x (r_nonce b))"
  using assertRelayable_layout [OF assms] by (auto simp: is_ok_iff burn_view_def)

definition sample_burn :: raw_burn where
  "sample_burn = \<lparr>r_version = 1, r_source = 27, r_destination = 6, r_nonce = replicate 32 7,
     r_sender = replicate 32 1, r_recipient = token_messenger_bytes, r_caller = replicate 32 0,
     r_minFinality = 2000, r_finality = 2000, r_bodyVersion = 1, r_burnToken = replicate 32 9,
     r_mintRecipient = replicate 12 0 @ replicate 20 5, r_amount = 1500000, r_messageSender = replicate 32 3,
     r_maxFee = 500, r_feeExecuted = 100, r_expiration = 0, r_hook = []\<rparr>"

lemma length_token_messenger [simp]: "length token_messenger_bytes = 32"
  by code_simp

lemma wf_sample_burn: "wf_burn sample_burn"
  by (simp add: wf_burn_def sample_burn_def)

theorem decodeBurnMessage_roundtrip_witness:
  "wf_burn sample_burn \<and> decodeBurnMessage (hex0x (enc_burn sample_burn)) = Inr (burn_view sample_burn)
   \<and> decodeBurnMessage (hex0x []) = Inl TooShort \<and> decodeBurnMessage ''0xzz'' = Inl NotHex"
  using decodeBurnMessage_roundtrip [of sample_burn "[]" "''zz''"] wf_sample_burn
  by (simp add: is_hex_def hex_val_def code_def)

theorem assertRelayable_exact_witness:
  "wf_burn sample_burn \<and> is_ok (assertRelayable (hex0x (enc_burn sample_burn)))
   \<and> \<not> is_ok (assertRelayable (hex0x (enc_burn (sample_burn\<lparr>r_source := 0\<rparr>))))"
proof -
  have "wf_burn (sample_burn\<lparr>r_source := 0\<rparr>)" by (simp add: wf_burn_def sample_burn_def)
  moreover have "last (r_mintRecipient sample_burn) = 5" "take 12 (r_mintRecipient sample_burn) = replicate 12 0"
    by (simp_all add: sample_burn_def)
  moreover from this have "r_mintRecipient sample_burn \<noteq> replicate 32 0"
    by auto
  ultimately have "relayable sample_burn" "\<not> relayable (sample_burn\<lparr>r_source := 0\<rparr>)"
    by (simp_all add: relayable_def) (simp_all add: sample_burn_def)
  with \<open>wf_burn (sample_burn\<lparr>r_source := 0\<rparr>)\<close> show ?thesis
    using assertRelayable_exact [OF wf_sample_burn] assertRelayable_exact [of "sample_burn\<lparr>r_source := 0\<rparr>"]
      wf_sample_burn by blast
qed

end
