(* ===== verification/CctpStore.thy ===== *)
theory CctpStore
  imports JsText
begin

text \<open>
  \<^verbatim>\<open>relayer/src/cctp/store.ts\<close> and \<^verbatim>\<open>sqlite-store.ts\<close>: the record kept per burn, the contract of a
  relay store as the locale \<open>relay_store\<close>, its two implementations (the in-memory \<^verbatim>\<open>Map\<close> and the
  sqlite table, whose TEXT columns are typed by the literals they hold) and what the API reports of
  a record. Times are Unix milliseconds, also where the view formats them as ISO text.
\<close>

section \<open>Records\<close>

datatype relay_state = Sent | Confirming | Confirmed | Submitted | Arrived | Failed

datatype failure_code =
    Confirm_timeout | Rpc | Out_of_gas | Daily_cap | Send_failed | Not_mined | Reverted | Unexpected
  | Refused | Mint_refused | Unseen | Gave_up

datatype minted_by = Relay | Other

record relay_record =
  burnHash :: string
  state :: relay_state
  rNonce :: "string option"
  rRecipient :: "string option"
  rAmount :: "string option"
  rFeeExecuted :: "string option"
  rMessage :: "string option"
  attestation :: "string option"
  mintHash :: "string option"
  mintedBy :: "minted_by option"
  failure :: "string option"
  failureCode :: "failure_code option"
  retryable :: bool
  retryAt :: "int option"
  attempts :: "nat option"
  retryingSince :: "int option"
  createdAt :: int
  updatedAt :: int
  submittedAt :: "int option"

text \<open>A string that JavaScript takes for true.\<close>

definition truthy :: "string option \<Rightarrow> bool" where
  "truthy x \<longleftrightarrow> (case x of None \<Rightarrow> False | Some s \<Rightarrow> s \<noteq> [])"

definition isSettled :: "relay_record \<Rightarrow> bool" where
  "isSettled r \<longleftrightarrow> state r = Arrived \<or> state r = Failed"

definition isRetrying :: "relay_record \<Rightarrow> bool" where
  "isRetrying r \<longleftrightarrow> state r = Failed \<and> retryAt r \<noteq> None"

definition submitted_since :: "int \<Rightarrow> relay_record \<Rightarrow> bool" where
  "submitted_since since r \<longleftrightarrow> (case submittedAt r of None \<Rightarrow> False | Some t \<Rightarrow> t \<ge> since)"

definition due_by :: "int \<Rightarrow> relay_record \<Rightarrow> bool" where
  "due_by now r \<longleftrightarrow> (case retryAt r of None \<Rightarrow> False | Some t \<Rightarrow> t \<le> now)"

section \<open>The store interface\<close>

record 's store_ops =
  st_get :: "'s \<Rightarrow> string \<Rightarrow> relay_record option"
  st_put :: "relay_record \<Rightarrow> 's \<Rightarrow> 's"
  st_countSubmittedSince :: "'s \<Rightarrow> int \<Rightarrow> nat"
  st_listOpen :: "'s \<Rightarrow> relay_record list"
  st_listDue :: "'s \<Rightarrow> int \<Rightarrow> relay_record list"

locale relay_store =
  fixes ops :: "'s store_ops" and ok :: "'s \<Rightarrow> bool"
  assumes ok_put: "ok s \<Longrightarrow> ok (st_put ops r s)"
    and get_put: "ok s \<Longrightarrow> st_get ops (st_put ops r s) h = (if h = burnHash r then Some r else st_get ops s h)"
    and get_key: "ok s \<Longrightarrow> st_get ops s h = Some r \<Longrightarrow> burnHash r = h"
    and finite_keys: "ok s \<Longrightarrow> finite {h. st_get ops s h \<noteq> None}"
    and count_eq: "ok s \<Longrightarrow> st_countSubmittedSince ops s t =
          card {h. \<exists>r. st_get ops s h = Some r \<and> submitted_since t r}"
    and open_eq: "ok s \<Longrightarrow> set (st_listOpen ops s) = {r. st_get ops s (burnHash r) = Some r \<and> \<not> isSettled r}"
    and open_sorted: "ok s \<Longrightarrow> sorted (map createdAt (st_listOpen ops s)) \<and> distinct (map burnHash (st_listOpen ops s))"
    and due_eq: "ok s \<Longrightarrow> set (st_listDue ops s now) = {r. st_get ops s (burnHash r) = Some r \<and> due_by now r}"
    and due_sorted: "ok s \<Longrightarrow> sorted (map (the \<circ> retryAt) (st_listDue ops s now))
          \<and> distinct (map burnHash (st_listDue ops s now))"
begin

lemma get_put_same [simp]: "ok s \<Longrightarrow> st_get ops (st_put ops r s) (burnHash r) = Some r"
  by (simp add: get_put)

lemma count_put_le:
  assumes "ok s"
  shows "st_countSubmittedSince ops (st_put ops r s) t \<le> Suc (st_countSubmittedSince ops s t)"
proof -
  let ?A = "\<lambda>s. {h. \<exists>r. st_get ops s h = Some r \<and> submitted_since t r}"
  have fin: "finite (?A s)" by (rule finite_subset [OF _ finite_keys [OF assms]]) auto
  have "?A (st_put ops r s) \<subseteq> insert (burnHash r) (?A s)" by (auto simp: get_put [OF assms] split: if_splits)
  with fin have "card (?A (st_put ops r s)) \<le> card (insert (burnHash r) (?A s))" by (intro card_mono) auto
  also have "\<dots> \<le> Suc (card (?A s))" using fin by (simp add: card_insert_if)
  finally show ?thesis by (simp add: count_eq assms ok_put)
qed

lemma count_put_eq:
  assumes "ok s" "st_get ops s (burnHash r) = Some r0" "submitted_since t r = submitted_since t r0"
  shows "st_countSubmittedSince ops (st_put ops r s) t = st_countSubmittedSince ops s t"
proof -
  have "{h. \<exists>q. st_get ops (st_put ops r s) h = Some q \<and> submitted_since t q}
      = {h. \<exists>q. st_get ops s h = Some q \<and> submitted_since t q}"
    using assms by (auto simp: get_put split: if_splits)
  then show ?thesis by (simp add: count_eq assms ok_put)
qed

end

section \<open>In memory\<close>

type_synonym mem_store = "(string, relay_record) jsmap"

definition mem_get :: "mem_store \<Rightarrow> string \<Rightarrow> relay_record option" where
  "mem_get m h = js_get m h"

definition mem_put :: "relay_record \<Rightarrow> mem_store \<Rightarrow> mem_store" where
  "mem_put r m = js_set (burnHash r) r m"

definition mem_countSubmittedSince :: "mem_store \<Rightarrow> int \<Rightarrow> nat" where
  "mem_countSubmittedSince m since = length (filter (submitted_since since) (map snd m))"

definition mem_listOpen :: "mem_store \<Rightarrow> relay_record list" where
  "mem_listOpen m = sort_key createdAt (filter (\<lambda>r. \<not> isSettled r) (map snd m))"

definition mem_listDue :: "mem_store \<Rightarrow> int \<Rightarrow> relay_record list" where
  "mem_listDue m now = sort_key (\<lambda>r. the (retryAt r)) (filter (due_by now) (map snd m))"

definition mem_ops :: "mem_store store_ops" where
  "mem_ops = \<lparr>st_get = mem_get, st_put = mem_put, st_countSubmittedSince = mem_countSubmittedSince,
     st_listOpen = mem_listOpen, st_listDue = mem_listDue\<rparr>"

definition mem_ok :: "mem_store \<Rightarrow> bool" where
  "mem_ok m \<longleftrightarrow> js_ok m \<and> (\<forall>(k, r)\<in>set m. burnHash r = k)"

section \<open>In sqlite\<close>

record relay_row =
  c_burn_hash :: string
  c_state :: relay_state
  c_nonce :: "string option"
  c_recipient :: "string option"
  c_amount :: "string option"
  c_fee_executed :: "string option"
  c_message :: "string option"
  c_attestation :: "string option"
  c_mint_hash :: "string option"
  c_minted_by :: "minted_by option"
  c_failure :: "string option"
  c_retryable :: int
  c_created_at :: int
  c_updated_at :: int
  c_submitted_at :: "int option"
  c_failure_code :: "failure_code option"
  c_retry_at :: "int option"
  c_attempts :: "nat option"
  c_retrying_since :: "int option"

definition fromRow :: "relay_row \<Rightarrow> relay_record" where
  "fromRow r = \<lparr>burnHash = c_burn_hash r, state = c_state r, rNonce = c_nonce r, rRecipient = c_recipient r,
     rAmount = c_amount r, rFeeExecuted = c_fee_executed r, rMessage = c_message r,
     attestation = c_attestation r, mintHash = c_mint_hash r, mintedBy = c_minted_by r,
     failure = c_failure r, failureCode = c_failure_code r, retryable = (c_retryable r = 1),
     retryAt = c_retry_at r, attempts = c_attempts r, retryingSince = c_retrying_since r,
     createdAt = c_created_at r, updatedAt = c_updated_at r, submittedAt = c_submitted_at r\<rparr>"

definition toRow :: "relay_record \<Rightarrow> relay_row" where
  "toRow r = \<lparr>c_burn_hash = burnHash r, c_state = state r, c_nonce = rNonce r, c_recipient = rRecipient r,
     c_amount = rAmount r, c_fee_executed = rFeeExecuted r, c_message = rMessage r,
     c_attestation = attestation r, c_mint_hash = mintHash r, c_minted_by = mintedBy r,
     c_failure = failure r, c_retryable = (if retryable r then 1 else 0),
     c_created_at = createdAt r, c_updated_at = updatedAt r, c_submitted_at = submittedAt r,
     c_failure_code = failureCode r, c_retry_at = retryAt r, c_attempts = attempts r,
     c_retrying_since = retryingSince r\<rparr>"

type_synonym sql_store = "relay_row list"

text \<open>\<^verbatim>\<open>INSERT OR REPLACE\<close> removes the row with the same primary key and inserts the new one.\<close>

definition sql_put :: "relay_record \<Rightarrow> sql_store \<Rightarrow> sql_store" where
  "sql_put r rows = filter (\<lambda>row. c_burn_hash row \<noteq> burnHash r) rows @ [toRow r]"

definition sql_get :: "sql_store \<Rightarrow> string \<Rightarrow> relay_record option" where
  "sql_get rows h = map_option fromRow (find (\<lambda>row. c_burn_hash row = h) rows)"

definition sql_countSubmittedSince :: "sql_store \<Rightarrow> int \<Rightarrow> nat" where
  "sql_countSubmittedSince rows since =
     length (filter (\<lambda>row. case c_submitted_at row of None \<Rightarrow> False | Some t \<Rightarrow> t \<ge> since) rows)"

definition sql_listOpen :: "sql_store \<Rightarrow> relay_record list" where
  "sql_listOpen rows =
     map fromRow (sort_key c_created_at (filter (\<lambda>row. c_state row \<notin> {Arrived, Failed}) rows))"

definition sql_listDue :: "sql_store \<Rightarrow> int \<Rightarrow> relay_record list" where
  "sql_listDue rows now =
     map fromRow (sort_key (\<lambda>row. the (c_retry_at row))
       (filter (\<lambda>row. case c_retry_at row of None \<Rightarrow> False | Some t \<Rightarrow> t \<le> now) rows))"

definition sql_ops :: "sql_store store_ops" where
  "sql_ops = \<lparr>st_get = sql_get, st_put = sql_put, st_countSubmittedSince = sql_countSubmittedSince,
     st_listOpen = sql_listOpen, st_listDue = sql_listDue\<rparr>"

definition sql_ok :: "sql_store \<Rightarrow> bool" where
  "sql_ok rows \<longleftrightarrow> distinct (map c_burn_hash rows)"

section \<open>What the API answers\<close>

datatype view_kind = VSent | VConfirming | VConfirmed | VArrived | VFailed

record relay_view =
  v_burnHash :: string
  v_kind :: view_kind
  v_mintHash :: "string option option"
  v_explorerUrl :: "string option"
  v_reason :: "string option"
  v_retryable :: "bool option"
  v_retrying :: bool
  v_nextRetryAt :: "int option"
  v_recipient :: "string option"
  v_amount :: "string option"
  v_feeExecuted :: "string option"
  v_mintedBy :: "minted_by option"
  v_createdAt :: int
  v_updatedAt :: int

definition BASE_SEPOLIA_EXPLORER :: string where
  "BASE_SEPOLIA_EXPLORER = ''https://sepolia.basescan.org''"

fun state_kind :: "relay_state \<Rightarrow> view_kind" where
  "state_kind Sent = VSent"
| "state_kind Confirming = VConfirming"
| "state_kind Confirmed = VConfirmed"
| "state_kind Submitted = VConfirmed"
| "state_kind Arrived = VArrived"
| "state_kind Failed = VFailed"

definition or_else :: "'a option \<Rightarrow> 'a \<Rightarrow> 'a" where
  "or_else x d = (case x of None \<Rightarrow> d | Some y \<Rightarrow> y)"

definition when_truthy :: "string option \<Rightarrow> string option" where
  "when_truthy x = (if truthy x then x else None)"

definition toRelayView :: "relay_record \<Rightarrow> relay_view" where
  "toRelayView r =
     (let retrying = isRetrying r;
          kind = (if retrying then (if truthy (attestation r) then VConfirmed else VConfirming)
                  else state_kind (state r))
      in \<lparr>v_burnHash = burnHash r, v_kind = kind,
          v_mintHash = (if kind = VArrived then Some (mintHash r) else None),
          v_explorerUrl = (if kind = VArrived \<and> truthy (mintHash r)
             then Some (BASE_SEPOLIA_EXPLORER @ ''/tx/'' @ the (mintHash r)) else None),
          v_reason = (if retrying then Some (or_else (failure r) ''the relay is retrying'')
             else if kind = VFailed then Some (or_else (failure r) ''the relay stopped'') else None),
          v_retryable = (if kind = VFailed then Some (retryable r) else None),
          v_retrying = retrying,
          v_nextRetryAt = (if retrying then retryAt r else None),
          v_recipient = when_truthy (rRecipient r), v_amount = when_truthy (rAmount r),
          v_feeExecuted = when_truthy (rFeeExecuted r), v_mintedBy = mintedBy r,
          v_createdAt = createdAt r, v_updatedAt = updatedAt r\<rparr>)"

text \<open>The argument of \<open>normalizeBurnHash\<close> is whatever the request carried; \<^const>\<open>None\<close> is any value that is not a string.\<close>

definition normalizeBurnHash :: "string option \<Rightarrow> string option" where
  "normalizeBurnHash raw =
     (case raw of
        None \<Rightarrow> None
      | Some s \<Rightarrow> (let hash = toLowerCase (trim s) in
          if length hash = 64 \<and> list_all is_lower_hex hash then Some hash else None))"

definition lookupCctpRelay :: "'s store_ops \<Rightarrow> 's \<Rightarrow> string \<Rightarrow> relay_view option" where
  "lookupCctpRelay ops s h =
     (case normalizeBurnHash (Some h) of
        None \<Rightarrow> None
      | Some hash \<Rightarrow> map_option toRelayView (st_get ops s hash))"

section \<open>Both stores keep the contract\<close>

lemma fromRow_toRow [simp]: "fromRow (toRow r) = r"
  by (simp add: fromRow_def toRow_def)

lemma fromRow_simps [simp]:
  "burnHash (fromRow row) = c_burn_hash row" "state (fromRow row) = c_state row"
  "submittedAt (fromRow row) = c_submitted_at row" "retryAt (fromRow row) = c_retry_at row"
  "createdAt (fromRow row) = c_created_at row"
  by (simp_all add: fromRow_def)

lemma mem_value: "mem_ok m \<Longrightarrow> r \<in> snd ` set m \<longleftrightarrow> js_get m (burnHash r) = Some r"
  by (force simp: mem_ok_def js_ok_def dest: js_get_in)

lemma mem_keys: "mem_ok m \<Longrightarrow> map burnHash (map snd m) = map fst m"
  by (auto simp: mem_ok_def)

lemma mem_distinct: "mem_ok m \<Longrightarrow> distinct (map burnHash (map snd m))"
  by (simp only: mem_keys) (simp add: mem_ok_def js_ok_def)

lemma distinct_map_sorted_filter:
  "distinct (map f xs) \<Longrightarrow> distinct (map f (sort_key k (filter p xs)))"
proof -
  assume "distinct (map f xs)"
  then have "distinct (map f (filter p xs))" by (rule distinct_map_filter)
  then show ?thesis by (simp add: distinct_map)
qed

lemma card_keys_filter:
  assumes "distinct (map k xs)"
  shows "card {h. \<exists>x\<in>set xs. k x = h \<and> p x} = length (filter p xs)"
proof -
  have "{h. \<exists>x\<in>set xs. k x = h \<and> p x} = set (map k (filter p xs))" by auto
  then show ?thesis using distinct_map_filter [OF assms, of p] by (simp only: distinct_card length_map)
qed

interpretation mem: relay_store mem_ops mem_ok
proof
  fix m :: mem_store and r :: relay_record and h :: string and now t :: int
  assume ok: "mem_ok m"
  then show "mem_ok (st_put mem_ops r m)"
    by (auto simp: mem_ok_def mem_ops_def mem_put_def dest!: js_set_inD)
  show "st_get mem_ops (st_put mem_ops r m) h = (if h = burnHash r then Some r else st_get mem_ops m h)"
    by (simp add: mem_ops_def mem_put_def mem_get_def jsmap_simps)
  show "burnHash r = h" if "st_get mem_ops m h = Some r"
    using ok that by (auto simp: mem_ops_def mem_get_def mem_ok_def dest!: js_get_in)
  show "finite {h. st_get mem_ops m h \<noteq> None}"
    using finite_dom_map_of [of m] by (simp add: mem_ops_def mem_get_def dom_def)
  have key: "js_get m h = Some q \<longleftrightarrow> q \<in> set (map snd m) \<and> burnHash q = h" for h q
    using ok by (force simp: mem_ok_def js_ok_def)
  then have "{h. \<exists>r. st_get mem_ops m h = Some r \<and> submitted_since t r}
      = {h. \<exists>x\<in>set (map snd m). burnHash x = h \<and> submitted_since t x}"
    by (simp only: mem_ops_def mem_get_def store_ops.simps) blast
  then show "st_countSubmittedSince mem_ops m t = card {h. \<exists>r. st_get mem_ops m h = Some r \<and> submitted_since t r}"
    using card_keys_filter [OF mem_distinct [OF ok]] by (simp add: mem_ops_def mem_countSubmittedSince_def)
  show "set (st_listOpen mem_ops m) = {r. st_get mem_ops m (burnHash r) = Some r \<and> \<not> isSettled r}"
    using mem_value [OF ok] by (auto simp: mem_ops_def mem_listOpen_def mem_get_def)
  show "sorted (map createdAt (st_listOpen mem_ops m)) \<and> distinct (map burnHash (st_listOpen mem_ops m))"
    using distinct_map_sorted_filter [OF mem_distinct [OF ok]] by (simp add: mem_ops_def mem_listOpen_def)
  show "set (st_listDue mem_ops m now) = {r. st_get mem_ops m (burnHash r) = Some r \<and> due_by now r}"
    using mem_value [OF ok] by (auto simp: mem_ops_def mem_listDue_def mem_get_def)
  show "sorted (map (the \<circ> retryAt) (st_listDue mem_ops m now)) \<and> distinct (map burnHash (st_listDue mem_ops m now))"
    using distinct_map_sorted_filter [OF mem_distinct [OF ok]] sorted_sort_key [of "the \<circ> retryAt"]
    by (simp add: mem_ops_def mem_listDue_def comp_def)
qed

lemma sql_find: "sql_ok rows \<Longrightarrow> find (\<lambda>row. c_burn_hash row = h) rows = Some row \<longleftrightarrow> row \<in> set rows \<and> c_burn_hash row = h"
  by (induction rows) (auto simp: sql_ok_def)

lemma sql_get_Some: "sql_ok rows \<Longrightarrow> sql_get rows h = Some r \<longleftrightarrow> (\<exists>row\<in>set rows. c_burn_hash row = h \<and> r = fromRow row)"
  by (auto simp: sql_get_def sql_find)

lemma sql_filter_key: "sql_ok rows \<Longrightarrow> sql_ok (filter p rows @ [row]) \<longleftrightarrow> c_burn_hash row \<notin> c_burn_hash ` set (filter p rows)"
  by (auto simp: sql_ok_def distinct_map_filter)

lemma sql_put_ok: "sql_ok rows \<Longrightarrow> sql_ok (sql_put r rows)"
  by (auto simp: sql_put_def sql_filter_key toRow_def)

lemma find_append_filter:
  "find (\<lambda>x. k x = h) (filter (\<lambda>x. k x \<noteq> b) xs @ [y]) =
     (if h = b then (if k y = h then Some y else None)
      else case find (\<lambda>x. k x = h) xs of None \<Rightarrow> if k y = h then Some y else None | Some z \<Rightarrow> Some z)"
  by (induction xs) auto

interpretation sql: relay_store sql_ops sql_ok
proof
  fix rows :: sql_store and r :: relay_record and h :: string and now t :: int
  assume ok: "sql_ok rows"
  then have ok': "sql_ok (sql_put r rows)" by (rule sql_put_ok)
  then show "sql_ok (st_put sql_ops r rows)" by (simp add: sql_ops_def)
  have row: "c_burn_hash row = burnHash r" if "row = toRow r" for row
    using that by (simp add: toRow_def)
  have "sql_get (sql_put r rows) h = (if h = burnHash r then Some r else sql_get rows h)"
  proof (cases "h = burnHash r")
    case True
    then show ?thesis
      using row by (simp add: sql_get_def sql_put_def find_None_iff find_append_filter)
  next
    case False
    then show ?thesis
      using row by (simp add: sql_get_def sql_put_def find_append_filter split: option.splits)
  qed
  then show "st_get sql_ops (st_put sql_ops r rows) h = (if h = burnHash r then Some r else st_get sql_ops rows h)"
    by (simp add: sql_ops_def)
  show "burnHash r = h" if "st_get sql_ops rows h = Some r"
    using ok that by (auto simp: sql_ops_def sql_get_Some)
  have "{h. sql_get rows h \<noteq> None} \<subseteq> c_burn_hash ` set rows"
    using ok by (auto simp: sql_get_Some)
  then have "finite {h. sql_get rows h \<noteq> None}"
    by (rule finite_subset) simp
  then show "finite {h. st_get sql_ops rows h \<noteq> None}"
    by (simp add: sql_ops_def)
  have "{h. \<exists>r. sql_get rows h = Some r \<and> submitted_since t r}
      = {h. \<exists>row\<in>set rows. c_burn_hash row = h \<and> submitted_since t (fromRow row)}"
    using ok by (auto simp: sql_get_Some)
  then show "st_countSubmittedSince sql_ops rows t = card {h. \<exists>r. st_get sql_ops rows h = Some r \<and> submitted_since t r}"
    using card_keys_filter [of c_burn_hash rows "\<lambda>row. submitted_since t (fromRow row)"] ok
    by (simp add: sql_ops_def sql_countSubmittedSince_def sql_ok_def submitted_since_def)
  show "set (st_listOpen sql_ops rows) = {r. st_get sql_ops rows (burnHash r) = Some r \<and> \<not> isSettled r}"
    using ok by (auto simp: sql_ops_def sql_listOpen_def sql_get_Some isSettled_def)
  show "sorted (map createdAt (st_listOpen sql_ops rows)) \<and> distinct (map burnHash (st_listOpen sql_ops rows))"
    using distinct_map_sorted_filter [of c_burn_hash rows] ok
    by (simp add: sql_ops_def sql_listOpen_def sql_ok_def comp_def)
  show "set (st_listDue sql_ops rows now) = {r. st_get sql_ops rows (burnHash r) = Some r \<and> due_by now r}"
    using ok by (auto simp: sql_ops_def sql_listDue_def sql_get_Some due_by_def)
  show "sorted (map (the \<circ> retryAt) (st_listDue sql_ops rows now)) \<and> distinct (map burnHash (st_listDue sql_ops rows now))"
    using distinct_map_sorted_filter [of c_burn_hash rows] sorted_sort_key [of "\<lambda>row. the (c_retry_at row)"] ok
    by (simp add: sql_ops_def sql_listDue_def sql_ok_def comp_def)
qed

lemma puts_ok:
  "mem_ok (fold mem_put rs [])" "sql_ok (fold sql_put rs [])"
proof -
  have "mem_ok (fold mem_put rs m) \<and> sql_ok (fold sql_put rs n)" if "mem_ok m" "sql_ok n" for m n
    using that
  proof (induction rs arbitrary: m n)
    case (Cons r rs)
    from Cons.IH [OF mem.ok_put [OF Cons.prems(1), of r] sql.ok_put [OF Cons.prems(2), of r]]
    show ?case by (simp add: mem_ops_def sql_ops_def)
  qed simp
  from this [of "[]" "[]"] show "mem_ok (fold mem_put rs [])" "sql_ok (fold sql_put rs [])"
    by (simp_all add: mem_ok_def [of "[]"] sql_ok_def [of "[]"])
qed

lemma puts_get: "mem_get (fold mem_put rs []) h = sql_get (fold sql_put rs []) h"
proof (induction rs rule: rev_induct)
  case (snoc r rs)
  then show ?case
    using mem.get_put [OF puts_ok(1) [of rs], of r h] sql.get_put [OF puts_ok(2) [of rs], of r h]
    by (simp add: mem_ops_def sql_ops_def)
qed (simp add: mem_get_def sql_get_def)

lemma normalizeBurnHash_idem:
  "normalizeBurnHash raw = Some h \<Longrightarrow> length h = 64 \<and> list_all is_lower_hex h \<and> normalizeBurnHash (Some h) = Some h"
  by (auto simp: normalizeBurnHash_def Let_def trim_lower_hex toLowerCase_lower_hex split: option.splits if_splits)

section \<open>Properties\<close>


text \<open>The API never reports a dead end for a transfer the relay still retries: a retrying record is
  shown in progress with the time of its next attempt, \<open>failed\<close> is shown exactly for a stopped one and
  always with a reason, and a mint hash is only ever shown for an arrived transfer.\<close>

lemma toRelayView_kind:
  "(v_kind (toRelayView r) = VFailed \<longleftrightarrow> state r = Failed \<and> retryAt r = None)
   \<and> (v_kind (toRelayView r) = VArrived \<longleftrightarrow> state r = Arrived)
   \<and> (isRetrying r \<longleftrightarrow> v_retrying (toRelayView r))
   \<and> (isRetrying r \<longrightarrow> v_kind (toRelayView r) \<in> {VConfirming, VConfirmed} \<and> v_nextRetryAt (toRelayView r) = retryAt r
        \<and> (v_kind (toRelayView r) = VConfirmed \<longleftrightarrow> truthy (attestation r)))
   \<and> (v_kind (toRelayView r) = VFailed \<or> isRetrying r \<longleftrightarrow> v_reason (toRelayView r) \<noteq> None)
   \<and> (v_mintHash (toRelayView r) \<noteq> None \<longleftrightarrow> state r = Arrived)
   \<and> (v_explorerUrl (toRelayView r) \<noteq> None \<longrightarrow> state r = Arrived \<and> truthy (mintHash r))"
  by (cases "state r") (auto simp: toRelayView_def Let_def isRetrying_def)

definition blank_record :: "string \<Rightarrow> relay_record" where
  "blank_record h = \<lparr>burnHash = h, state = Sent, rNonce = None, rRecipient = None, rAmount = None,
     rFeeExecuted = None, rMessage = None, attestation = None, mintHash = None, mintedBy = None,
     failure = None, failureCode = None, retryable = False, retryAt = None, attempts = None,
     retryingSince = None, createdAt = 0, updatedAt = 0, submittedAt = None\<rparr>"

end
