(* ===== verification/CctpSources.thy ===== *)
theory CctpSources
  imports CctpMessage CctpStore
begin

text \<open>
  The two outside services the relay reads and how their answers are interpreted:
  \<^verbatim>\<open>relayer/src/cctp/iris.ts\<close> (Circle's attestation service) and \<^verbatim>\<open>indexer.ts\<close> (a block explorer).
  What the services answer is a parameter; what the code makes of an answer is modelled here. Also
  the outcomes \<^verbatim>\<open>chain.ts\<close> declares for Base Sepolia.
\<close>

section \<open>Iris\<close>

record iris_message =
  m_status :: "string option"
  m_message :: "string option"
  m_attestation :: "string option"

text \<open>\<open>Answer status messages\<close> is a response: \<^const>\<open>None\<close> is a body without a \<^verbatim>\<open>messages\<close> array.\<close>

datatype iris_answer = NoAnswer | BadBody int | Answer int "iris_message list option"

datatype iris_lookup = Unknown | Pending | Complete string string

datatype iris_error = RequestFailed | AnsweredStatus int | UnreadableBody

definition http_ok :: "int \<Rightarrow> bool" where
  "http_ok st \<longleftrightarrow> 200 \<le> st \<and> st \<le> 299"

definition read_messages :: "iris_message list option \<Rightarrow> iris_lookup" where
  "read_messages ms =
     (case ms of
        Some (m # _) \<Rightarrow>
          if m_status m \<noteq> Some ''complete'' \<or> \<not> truthy (m_message m) \<or> \<not> truthy (m_attestation m)
             \<or> m_attestation m = Some ''PENDING''
          then Pending
          else Complete (the (m_message m)) (the (m_attestation m))
      | _ \<Rightarrow> Unknown)"

fun fetchIrisMessage :: "iris_answer \<Rightarrow> iris_error + iris_lookup" where
  "fetchIrisMessage NoAnswer = Inl RequestFailed"
| "fetchIrisMessage (BadBody st) =
     (if st = 404 then Inr Unknown else if \<not> http_ok st then Inl (AnsweredStatus st) else Inl UnreadableBody)"
| "fetchIrisMessage (Answer st ms) =
     (if st = 404 then Inr Unknown else if \<not> http_ok st then Inl (AnsweredStatus st) else Inr (read_messages ms))"

section \<open>The explorer\<close>

record mint_log =
  txHash :: string
  caller :: string

record etherscan_log =
  l_address :: "string option"
  l_topics :: "string option list option"
  l_transactionHash :: "string option"

datatype indexer_error = NotANonce | IndexerFailed | IndexerStatus int | IndexerNotJson | IndexerRefused

datatype indexer_answer = NoReply | Status int | NotJson | NotArray | Logs "etherscan_log list"

definition MESSAGE_RECEIVED_TOPIC :: string where
  "MESSAGE_RECEIVED_TOPIC = ''0xff48c13eda96b1cceacc6b9edeedc9e9db9d6226afbc30146b720c19d3addb1c''"

definition BASE_SEPOLIA_MESSAGE_TRANSMITTER :: string where
  "BASE_SEPOLIA_MESSAGE_TRANSMITTER = ''0xE737e5cEBEEBa77EFE34D4aa090756590b1CE275''"

definition is_hash :: "string \<Rightarrow> bool" where
  "is_hash s \<longleftrightarrow> length s = 66 \<and> take 2 s = ''0x'' \<and> list_all is_lower_hex (drop 2 s)"

definition topic_texts :: "etherscan_log \<Rightarrow> string list" where
  "topic_texts log =
     map (\<lambda>t. case t of None \<Rightarrow> [] | Some x \<Rightarrow> toLowerCase x) (case l_topics log of None \<Rightarrow> [] | Some ts \<Rightarrow> ts)"

definition nth_opt :: "'a list \<Rightarrow> nat \<Rightarrow> 'a option" where
  "nth_opt xs i = (if i < length xs then Some (xs ! i) else None)"

definition log_hash :: "etherscan_log \<Rightarrow> string option" where
  "log_hash log = map_option toLowerCase (l_transactionHash log)"

text \<open>The loop body: the log counts, or the loop continues.\<close>

definition log_matches :: "string \<Rightarrow> etherscan_log \<Rightarrow> bool" where
  "log_matches want log \<longleftrightarrow>
     map_option toLowerCase (l_address log) = Some (toLowerCase BASE_SEPOLIA_MESSAGE_TRANSMITTER)
     \<and> nth_opt (topic_texts log) 0 = Some MESSAGE_RECEIVED_TOPIC \<and> nth_opt (topic_texts log) 2 = Some want
     \<and> (\<exists>h. log_hash log = Some h \<and> is_hash h)
     \<and> (\<exists>t. nth_opt (topic_texts log) 1 = Some t \<and> is_hash t)"

lemma log_matches_code [code]:
  "log_matches want log \<longleftrightarrow>
     map_option toLowerCase (l_address log) = Some (toLowerCase BASE_SEPOLIA_MESSAGE_TRANSMITTER)
     \<and> nth_opt (topic_texts log) 0 = Some MESSAGE_RECEIVED_TOPIC \<and> nth_opt (topic_texts log) 2 = Some want
     \<and> (case log_hash log of None \<Rightarrow> False | Some h \<Rightarrow> is_hash h)
     \<and> (case nth_opt (topic_texts log) 1 of None \<Rightarrow> False | Some t \<Rightarrow> is_hash t)"
  by (auto simp: log_matches_def split: option.splits)

definition findMintOnIndexer :: "string \<Rightarrow> indexer_answer \<Rightarrow> indexer_error + mint_log option" where
  "findMintOnIndexer nonceText ans =
     (let want = toLowerCase nonceText in
      if \<not> is_hash want then Inl NotANonce
      else (case ans of
          NoReply \<Rightarrow> Inl IndexerFailed
        | Status st \<Rightarrow> Inl (IndexerStatus st)
        | NotJson \<Rightarrow> Inl IndexerNotJson
        | NotArray \<Rightarrow> Inl IndexerRefused
        | Logs logs \<Rightarrow>
            Inr (case find (log_matches want) logs of
                   None \<Rightarrow> None
                 | Some log \<Rightarrow> Some \<lparr>txHash = the (log_hash log),
                      caller = ''0x'' @ drop 26 (the (nth_opt (topic_texts log) 1))\<rparr>)))"

section \<open>Base Sepolia\<close>

datatype simulate_outcome = SimOk | SimFailed bool "string option"

datatype receipt_outcome = RSuccess | RReverted | RPending

datatype send_error = Insufficient_funds | Other_send_failure

end
