(* ===== verification/Effect.thy ===== *)
theory Effect
  imports Prelude
begin

text \<open>
  Programs over a state that may throw, for the components that interleave many calls: a computation
  maps a state to the state it leaves and either the error it rejects with or its result, so that the
  writes made before an error are kept. \<open>keeps\<close> is preservation of an invariant by a computation
  whatever it answers, with one rule per combinator.
\<close>

type_synonym ('s, 'e, 'a) eff = "'s \<Rightarrow> 's \<times> ('e + 'a)"

definition eff_return :: "'a \<Rightarrow> ('s, 'e, 'a) eff" where
  "eff_return x = (\<lambda>s. (s, Inr x))"

definition eff_throw :: "'e \<Rightarrow> ('s, 'e, 'a) eff" where
  "eff_throw e = (\<lambda>s. (s, Inl e))"

definition eff_bind :: "('s, 'e, 'a) eff \<Rightarrow> ('a \<Rightarrow> ('s, 'e, 'b) eff) \<Rightarrow> ('s, 'e, 'b) eff" where
  "eff_bind m f = (\<lambda>s. case m s of (s', Inl e) \<Rightarrow> (s', Inl e) | (s', Inr x) \<Rightarrow> f x s')"

definition eff_catch :: "('s, 'e, 'a) eff \<Rightarrow> ('e \<Rightarrow> ('s, 'f, 'a) eff) \<Rightarrow> ('s, 'f, 'a) eff" where
  "eff_catch m h = (\<lambda>s. case m s of (s', Inl e) \<Rightarrow> h e s' | (s', Inr x) \<Rightarrow> (s', Inr x))"

definition eff_gets :: "('s \<Rightarrow> 'a) \<Rightarrow> ('s, 'e, 'a) eff" where
  "eff_gets f = (\<lambda>s. (s, Inr (f s)))"

definition eff_modify :: "('s \<Rightarrow> 's) \<Rightarrow> ('s, 'e, unit) eff" where
  "eff_modify f = (\<lambda>s. (f s, Inr ()))"

definition eff_when :: "bool \<Rightarrow> ('s, 'e, unit) eff \<Rightarrow> ('s, 'e, unit) eff" where
  "eff_when c m = (if c then m else eff_return ())"

definition eff_lift :: "'e + 'a \<Rightarrow> ('s, 'e, 'a) eff" where
  "eff_lift r = (\<lambda>s. (s, r))"

lemmas eff_defs = eff_return_def eff_throw_def eff_bind_def eff_catch_def eff_gets_def eff_modify_def
  eff_when_def eff_lift_def

lemma eff_bind_return [simp]: "eff_bind (eff_return x) f = f x"
  by (simp add: eff_bind_def eff_return_def)

lemma eff_bind_throw [simp]: "eff_bind (eff_throw e) f = eff_throw e"
  by (simp add: eff_bind_def eff_throw_def)

lemma eff_bind_assoc: "eff_bind (eff_bind m f) g = eff_bind m (\<lambda>x. eff_bind (f x) g)"
  by (rule ext) (simp add: eff_bind_def split: prod.split sum.split)

definition keeps :: "('s \<Rightarrow> bool) \<Rightarrow> ('s, 'e, 'a) eff \<Rightarrow> bool" where
  "keeps P m \<longleftrightarrow> (\<forall>s. P s \<longrightarrow> P (fst (m s)))"

lemma keepsD: "keeps P m \<Longrightarrow> P s \<Longrightarrow> m s = (s', r) \<Longrightarrow> P s'"
  by (auto simp: keeps_def dest: spec [of _ s])

lemma keeps_return [intro, simp]: "keeps P (eff_return x)"
  by (simp add: keeps_def eff_return_def)

lemma keeps_throw [intro, simp]: "keeps P (eff_throw e)"
  by (simp add: keeps_def eff_throw_def)

lemma keeps_gets [intro, simp]: "keeps P (eff_gets f)"
  by (simp add: keeps_def eff_gets_def)

lemma keeps_lift [intro, simp]: "keeps P (eff_lift r)"
  by (simp add: keeps_def eff_lift_def)

lemma keeps_modify [intro]: "(\<And>s. P s \<Longrightarrow> P (f s)) \<Longrightarrow> keeps P (eff_modify f)"
  by (simp add: keeps_def eff_modify_def)

lemma keeps_bind [intro]: "keeps P m \<Longrightarrow> (\<And>x. keeps P (f x)) \<Longrightarrow> keeps P (eff_bind m f)"
  unfolding keeps_def eff_bind_def by (auto split: prod.split sum.split)

lemma keeps_catch [intro]: "keeps P m \<Longrightarrow> (\<And>e. keeps P (h e)) \<Longrightarrow> keeps P (eff_catch m h)"
  unfolding keeps_def eff_catch_def by (auto split: prod.split sum.split)

lemma keeps_when [intro]: "keeps P m \<Longrightarrow> keeps P (eff_when c m)"
  by (simp add: eff_when_def)

lemma keeps_if [intro]: "(c \<Longrightarrow> keeps P m) \<Longrightarrow> (\<not> c \<Longrightarrow> keeps P n) \<Longrightarrow> keeps P (if c then m else n)"
  by simp

lemma keeps_option [intro]:
  "(x = None \<Longrightarrow> keeps P m) \<Longrightarrow> (\<And>y. x = Some y \<Longrightarrow> keeps P (f y)) \<Longrightarrow> keeps P (case x of None \<Rightarrow> m | Some y \<Rightarrow> f y)"
  by (cases x) auto

lemma keeps_sum [intro]:
  "(\<And>y. x = Inl y \<Longrightarrow> keeps P (f y)) \<Longrightarrow> (\<And>y. x = Inr y \<Longrightarrow> keeps P (g y)) \<Longrightarrow>
   keeps P (case x of Inl y \<Rightarrow> f y | Inr y \<Rightarrow> g y)"
  by (cases x) auto

section \<open>Triples\<close>

text \<open>
  \<open>triple P m Q E\<close>: run in a state with \<open>P\<close>, the computation returns with \<open>Q\<close> of its result or throws
  with \<open>E\<close>.
\<close>

definition triple :: "('s \<Rightarrow> bool) \<Rightarrow> ('s, 'e, 'a) eff \<Rightarrow> ('a \<Rightarrow> 's \<Rightarrow> bool) \<Rightarrow> ('s \<Rightarrow> bool) \<Rightarrow> bool" where
  "triple P m Q E \<longleftrightarrow>
     (\<forall>s. P s \<longrightarrow> (case m s of (s', Inr x) \<Rightarrow> Q x s' | (s', Inl e) \<Rightarrow> E s'))"

lemma tripleD: "triple P m Q E \<Longrightarrow> P s \<Longrightarrow> m s = (s', Inr x) \<Longrightarrow> Q x s'"
  by (auto simp: triple_def dest!: spec [of _ s])

lemma tripleD_throw: "triple P m Q E \<Longrightarrow> P s \<Longrightarrow> m s = (s', Inl e) \<Longrightarrow> E s'"
  by (auto simp: triple_def dest!: spec [of _ s])

lemma triple_return: "(\<And>s. P s \<Longrightarrow> Q x s) \<Longrightarrow> triple P (eff_return x) Q E"
  by (simp add: triple_def eff_return_def)

lemma triple_gets: "(\<And>s. P s \<Longrightarrow> Q (f s) s) \<Longrightarrow> triple P (eff_gets f) Q E"
  by (simp add: triple_def eff_gets_def)

lemma triple_modify: "(\<And>s. P s \<Longrightarrow> Q () (f s)) \<Longrightarrow> triple P (eff_modify f) Q E"
  by (simp add: triple_def eff_modify_def)

lemma triple_bind:
  assumes "triple P m R E" "\<And>x. triple (R x) (f x) Q E"
  shows "triple P (eff_bind m f) Q E"
  unfolding triple_def
proof (intro allI impI)
  fix s assume "P s"
  obtain s' r where m: "m s = (s', r)" by fastforce
  show "case eff_bind m f s of (s', Inl e) \<Rightarrow> E s' | (s', Inr x) \<Rightarrow> Q x s'"
  proof (cases r)
    case (Inl e)
    with m tripleD_throw [OF assms(1) \<open>P s\<close>] show ?thesis by (simp add: eff_bind_def)
  next
    case (Inr x)
    with m tripleD [OF assms(1) \<open>P s\<close>] have "R x s'" by simp
    with assms(2) [of x] m Inr show ?thesis by (simp add: eff_bind_def triple_def)
  qed
qed

lemma triple_seq: "triple P m (\<lambda>_. P) E \<Longrightarrow> (\<And>x. triple P (f x) Q E) \<Longrightarrow> triple P (eff_bind m f) Q E"
  by (rule triple_bind)

lemma triple_catch:
  assumes "triple P m Q R" "\<And>e. triple R (h e) Q E"
  shows "triple P (eff_catch m h) Q E"
  unfolding triple_def
proof (intro allI impI)
  fix s assume "P s"
  obtain s' r where m: "m s = (s', r)" by fastforce
  show "case eff_catch m h s of (s', Inl e) \<Rightarrow> E s' | (s', Inr x) \<Rightarrow> Q x s'"
  proof (cases r)
    case (Inl e)
    with m tripleD_throw [OF assms(1) \<open>P s\<close>] have "R s'" by simp
    with assms(2) [of e] m Inl show ?thesis by (simp add: eff_catch_def triple_def)
  next
    case (Inr x)
    with m tripleD [OF assms(1) \<open>P s\<close>] show ?thesis by (simp add: eff_catch_def)
  qed
qed

lemma triple_if: "(c \<Longrightarrow> triple P m Q E) \<Longrightarrow> (\<not> c \<Longrightarrow> triple P n Q E) \<Longrightarrow> triple P (if c then m else n) Q E"
  by simp

lemma triple_option:
  "(x = None \<Longrightarrow> triple P m Q E) \<Longrightarrow> (\<And>y. x = Some y \<Longrightarrow> triple P (f y) Q E) \<Longrightarrow>
   triple P (case x of None \<Rightarrow> m | Some y \<Rightarrow> f y) Q E"
  by (cases x) auto

lemma triple_conseq:
  "triple P' m Q' E' \<Longrightarrow> (\<And>s. P s \<Longrightarrow> P' s) \<Longrightarrow> (\<And>x s. Q' x s \<Longrightarrow> Q x s) \<Longrightarrow> (\<And>s. E' s \<Longrightarrow> E s) \<Longrightarrow> triple P m Q E"
  unfolding triple_def by (auto split: prod.splits sum.splits) (metis (no_types, lifting) | blast)+

end
