(* ===== verification/CctpRelay.thy ===== *)
theory CctpRelay
  imports CctpSources Effect
begin

text \<open>
  \<^verbatim>\<open>relayer/src/cctp/service.ts\<close>: the relay's background jobs as a state machine. A job runs from one
  \<^verbatim>\<open>await\<close> that can take long to the next: one Iris poll, one balance check before a retry, one mint
  (serialised by the lock, so a single step) or one search for a mint hash. Between two steps any
  request, status read, sweep or step of another job may happen. The store is any one with the
  operations of \<^theory_text>\<open>store_ops\<close>; the answers of the clock, Iris, the explorer and Base Sepolia are
  read from an environment at the position \<open>calls\<close>, which every call advances. \<open>sends\<close> is the log of
  the transactions the relay's key broadcast (burn and time).
\<close>

section \<open>State\<close>

datatype relay_exn = NoRecord string | ChainError

datatype job = Polling relay_record int int | Minting | ResumingGas relay_record | Searching relay_record

record 's relay_svc =
  db :: 's
  jobs :: "(string, job) jsmap"
  calls :: nat
  balanceCache :: "(int \<times> int) option"
  sends :: "(string \<times> int) list"

record relay_env =
  e_now :: "nat \<Rightarrow> int"
  e_iris :: "nat \<Rightarrow> string \<Rightarrow> iris_answer"
  e_nonceUsed :: "nat \<Rightarrow> string \<Rightarrow> relay_exn + bool"
  e_simulate :: "nat \<Rightarrow> relay_exn + simulate_outcome"
  e_send :: "nat \<Rightarrow> send_error + string"
  e_receipt :: "nat \<Rightarrow> string \<Rightarrow> relay_exn + receipt_outcome"
  e_findMint :: "nat \<Rightarrow> string \<Rightarrow> relay_exn + mint_log option"
  e_indexer :: "nat \<Rightarrow> string \<Rightarrow> indexer_answer"
  e_balance :: "nat \<Rightarrow> relay_exn + int"
  e_address :: string

record relay_settings =
  confirmTimeoutMs :: int
  dailyCap :: nat
  maxOpen :: nat
  pollInitialMs :: int
  pollMaxMs :: int
  mintIndexerUrl :: "string option"

definition UNSEEN_TIMEOUT_MS :: int where "UNSEEN_TIMEOUT_MS = 10 * 60000"
definition RECEIPT_WAITS :: nat where "RECEIPT_WAITS = 4"
definition LOW_BALANCE_WEI :: int where "LOW_BALANCE_WEI = 2000000000000000"
definition BALANCE_CACHE_MS :: int where "BALANCE_CACHE_MS = 15000"
definition RETRY_INITIAL_MS :: int where "RETRY_INITIAL_MS = 30000"
definition RETRY_MAX_MS :: int where "RETRY_MAX_MS = 15 * 60000"
definition RETRY_GIVE_UP_MS :: int where "RETRY_GIVE_UP_MS = 24 * 60 * 60000"
definition MIN_RETRY_BALANCE_WEI :: int where "MIN_RETRY_BALANCE_WEI = 100000000000000"
definition MINT_LOOKUP_ATTEMPTS :: nat where "MINT_LOOKUP_ATTEMPTS = 8"

definition retryDelayMs :: "nat \<Rightarrow> int" where
  "retryDelayMs attempt = min (RETRY_INITIAL_MS * 2 ^ (attempt - 1)) RETRY_MAX_MS"

section \<open>Calls and updates\<close>

type_synonym ('s, 'a) act = "('s relay_svc, relay_exn, 'a) eff"

definition ask :: "(nat \<Rightarrow> 'a) \<Rightarrow> ('s, 'a) act" where
  "ask f = (\<lambda>s. (s\<lparr>calls := Suc (calls s)\<rparr>, Inr (f (calls s))))"

definition ask_try :: "(nat \<Rightarrow> relay_exn + 'a) \<Rightarrow> ('s, 'a) act" where
  "ask_try f = (\<lambda>s. (s\<lparr>calls := Suc (calls s)\<rparr>, f (calls s)))"

definition get_record :: "'s store_ops \<Rightarrow> string \<Rightarrow> ('s, relay_record option) act" where
  "get_record ops h = eff_gets (\<lambda>s. st_get ops (db s) h)"

definition put_record :: "'s store_ops \<Rightarrow> relay_record \<Rightarrow> ('s, unit) act" where
  "put_record ops r = eff_modify (\<lambda>s. s\<lparr>db := st_put ops r (db s)\<rparr>)"

text \<open>\<open>patch\<close> is the \<^verbatim>\<open>Partial<RelayRecord>\<close> spread over the current record.\<close>

definition update_record ::
    "'s store_ops \<Rightarrow> relay_env \<Rightarrow> string \<Rightarrow> (relay_record \<Rightarrow> relay_record) \<Rightarrow> ('s, relay_record) act" where
  "update_record ops env h patch =
     eff_bind (get_record ops h) (\<lambda>current.
     case current of
       None \<Rightarrow> eff_throw (NoRecord h)
     | Some r \<Rightarrow> eff_bind (ask (e_now env)) (\<lambda>t.
         let next = (patch r)\<lparr>updatedAt := t\<rparr> in
         eff_bind (put_record ops next) (\<lambda>_. eff_return next)))"

section \<open>Failing\<close>

definition fail_patch :: "failure_code \<Rightarrow> string \<Rightarrow> relay_record \<Rightarrow> relay_record" where
  "fail_patch cause reason r =
     r\<lparr>state := Failed, retryable := (cause \<noteq> Refused \<and> cause \<noteq> Mint_refused), failure := Some reason,
       failureCode := Some cause, retryAt := None\<rparr>"

definition fail_record :: "'s store_ops \<Rightarrow> relay_env \<Rightarrow> string \<Rightarrow> failure_code \<Rightarrow> string \<Rightarrow> ('s, unit) act" where
  "fail_record ops env h cause reason =
     eff_bind (update_record ops env h (fail_patch cause reason)) (\<lambda>_. eff_return ())"

definition gave_up_text :: "string \<Rightarrow> string" where
  "gave_up_text reason = ''the relay stopped after '' @ dec_str (nat (RETRY_GIVE_UP_MS div 3600000))
     @ '' hours of retrying ('' @ reason @ ''); ask again to start over''"

definition transient :: "'s store_ops \<Rightarrow> relay_env \<Rightarrow> string \<Rightarrow> failure_code \<Rightarrow> string \<Rightarrow> ('s, unit) act" where
  "transient ops env h cause reason =
     eff_bind (get_record ops h) (\<lambda>current.
     eff_bind (ask (e_now env)) (\<lambda>t.
     let since = (case current of None \<Rightarrow> t | Some r \<Rightarrow> or_else (retryingSince r) t);
         n = (case current of None \<Rightarrow> 0 | Some r \<Rightarrow> or_else (attempts r) 0) + 1
     in if t - since \<ge> RETRY_GIVE_UP_MS
        then eff_bind (update_record ops env h (\<lambda>r. r\<lparr>attempts := Some n, retryingSince := Some since\<rparr>)) (\<lambda>_.
             fail_record ops env h Gave_up (gave_up_text reason))
        else let at = (if cause = Daily_cap then startOfUtcDay t + day_ms else t + retryDelayMs n) in
             eff_bind (update_record ops env h (\<lambda>r. r\<lparr>state := Failed, retryable := True, failure := Some reason,
                 failureCode := Some cause, retryAt := Some at, attempts := Some n, retryingSince := Some since\<rparr>))
               (\<lambda>_. eff_return ())))"

section \<open>The end of a transfer\<close>

definition arrived :: "'s store_ops \<Rightarrow> relay_env \<Rightarrow> string \<Rightarrow> string option \<Rightarrow> minted_by \<Rightarrow> ('s, unit) act" where
  "arrived ops env h mint by_whom =
     eff_bind (if truthy mint then eff_return None
               else eff_bind (ask (e_now env)) (\<lambda>t. eff_return (Some (t + RETRY_INITIAL_MS)))) (\<lambda>at.
     eff_bind (update_record ops env h (\<lambda>r. r\<lparr>state := Arrived, mintHash := mint, mintedBy := Some by_whom,
         failure := None, failureCode := None, retryable := False, retryAt := at, attempts := None,
         retryingSince := None\<rparr>)) (\<lambda>_. eff_return ()))"

definition mintedByOf :: "relay_env \<Rightarrow> mint_log option \<Rightarrow> minted_by" where
  "mintedByOf env found =
     (case found of
        None \<Rightarrow> Other
      | Some m \<Rightarrow> if toLowerCase (caller m) = toLowerCase (e_address env) then Relay else Other)"

text \<open>The two \<^verbatim>\<open>try\<close> blocks: a failed search counts as not finding.\<close>

definition findMintTx :: "relay_env \<Rightarrow> relay_settings \<Rightarrow> string \<Rightarrow> ('s, mint_log option) act" where
  "findMintTx env cfg nonceText =
     eff_bind (eff_catch (ask_try (\<lambda>k. e_findMint env k nonceText)) (\<lambda>_. eff_return None)) (\<lambda>found.
     case found of
       Some m \<Rightarrow> eff_return (Some m)
     | None \<Rightarrow>
         if \<not> truthy (mintIndexerUrl cfg) then eff_return None
         else eff_bind (ask (\<lambda>k. findMintOnIndexer nonceText (e_indexer env k nonceText))) (\<lambda>ans.
              eff_return (case ans of Inl _ \<Rightarrow> None | Inr m \<Rightarrow> m)))"

definition mintedElsewhere :: "'s store_ops \<Rightarrow> relay_env \<Rightarrow> relay_settings \<Rightarrow> string \<Rightarrow> string \<Rightarrow> ('s, unit) act" where
  "mintedElsewhere ops env cfg h nonceText =
     eff_bind (findMintTx env cfg nonceText) (\<lambda>found.
     arrived ops env h (map_option txHash found) (mintedByOf env found))"

definition lookupMintAgain :: "'s store_ops \<Rightarrow> relay_env \<Rightarrow> relay_settings \<Rightarrow> relay_record \<Rightarrow> ('s, unit) act" where
  "lookupMintAgain ops env cfg r =
     eff_bind (if truthy (rNonce r) then findMintTx env cfg (the (rNonce r)) else eff_return None) (\<lambda>found.
     case found of
       Some m \<Rightarrow>
         eff_bind (update_record ops env (burnHash r) (\<lambda>q. q\<lparr>mintHash := Some (txHash m),
             mintedBy := Some (mintedByOf env found), retryAt := None, attempts := None\<rparr>)) (\<lambda>_. eff_return ())
     | None \<Rightarrow>
         let n = or_else (attempts r) 0 + 1; more = rNonce r \<noteq> None \<and> n < MINT_LOOKUP_ATTEMPTS in
         eff_bind (if more then eff_bind (ask (e_now env)) (\<lambda>t. eff_return (Some (t + retryDelayMs (n + 1))))
                   else eff_return None) (\<lambda>at.
         eff_bind (update_record ops env (burnHash r) (\<lambda>q. q\<lparr>attempts := Some n, retryAt := at\<rparr>))
           (\<lambda>_. eff_return ())))"

definition warnIfLow :: "relay_env \<Rightarrow> ('s, unit) act" where
  "warnIfLow env =
     eff_catch (eff_bind (ask_try (e_balance env)) (\<lambda>wei.
       eff_bind (ask (e_now env)) (\<lambda>t. eff_modify (\<lambda>s. s\<lparr>balanceCache := Some (t, wei)\<rparr>))))
     (\<lambda>_. eff_return ())"

definition canPayForMint :: "relay_env \<Rightarrow> ('s, bool) act" where
  "canPayForMint env =
     eff_catch (eff_bind (ask_try (e_balance env)) (\<lambda>wei.
       eff_bind (ask (e_now env)) (\<lambda>t.
       eff_bind (eff_modify (\<lambda>s. s\<lparr>balanceCache := Some (t, wei)\<rparr>)) (\<lambda>_.
       eff_return (wei \<ge> MIN_RETRY_BALANCE_WEI)))))
     (\<lambda>_. eff_return False)"

section \<open>Minting\<close>

text \<open>\<open>n\<close> of the \<^const>\<open>RECEIPT_WAITS\<close> waits are left.\<close>

fun await_receipt :: "nat \<Rightarrow> relay_env \<Rightarrow> string \<Rightarrow> ('s, receipt_outcome) act" where
  "await_receipt 0 env h = eff_return RPending"
| "await_receipt (Suc n) env h =
     eff_bind (ask_try (\<lambda>k. e_receipt env k h)) (\<lambda>outcome.
     if outcome \<noteq> RPending then eff_return outcome else await_receipt n env h)"

definition awaitReceipt :: "relay_env \<Rightarrow> string \<Rightarrow> ('s, receipt_outcome) act" where
  "awaitReceipt = await_receipt RECEIPT_WAITS"

definition isNonceUsed :: "relay_env \<Rightarrow> string \<Rightarrow> ('s, bool) act" where
  "isNonceUsed env nonceText = ask_try (\<lambda>k. e_nonceUsed env k nonceText)"

text \<open>After the broadcast: the receipt, and what its absence means.\<close>

definition settle_mint ::
    "'s store_ops \<Rightarrow> relay_env \<Rightarrow> relay_settings \<Rightarrow> string \<Rightarrow> string \<Rightarrow> string \<Rightarrow> ('s, unit) act" where
  "settle_mint ops env cfg h nonceText mint =
     eff_bind (awaitReceipt env mint) (\<lambda>outcome.
     if outcome = RSuccess
     then eff_bind (arrived ops env h (Some mint) Relay) (\<lambda>_. warnIfLow env)
     else eff_bind (isNonceUsed env nonceText) (\<lambda>used.
       if used then mintedElsewhere ops env cfg h nonceText
       else if outcome = RReverted
       then transient ops env h Reverted ''the mint transaction reverted on Base Sepolia''
       else transient ops env h Not_mined ''the mint transaction on Base Sepolia is not mined yet''))"

text \<open>The broadcast and the record of it.\<close>

definition send_mint ::
    "'s store_ops \<Rightarrow> relay_env \<Rightarrow> relay_settings \<Rightarrow> string \<Rightarrow> string \<Rightarrow> ('s, unit) act" where
  "send_mint ops env cfg h nonceText =
     eff_bind (ask (e_send env)) (\<lambda>sent.
     case sent of
       Inl Insufficient_funds \<Rightarrow>
         transient ops env h Out_of_gas ''the relay is out of Base Sepolia gas; it retries once the account is refilled''
     | Inl Other_send_failure \<Rightarrow> transient ops env h Send_failed ''the mint could not be sent to Base Sepolia''
     | Inr mint \<Rightarrow>
         eff_bind (ask (e_now env)) (\<lambda>t.
         eff_bind (eff_modify (\<lambda>s. s\<lparr>sends := sends s @ [(h, t)]\<rparr>)) (\<lambda>_.
         eff_bind (update_record ops env h (\<lambda>r. r\<lparr>state := Submitted, mintHash := Some mint,
             mintedBy := Some Relay, submittedAt := Some t\<rparr>)) (\<lambda>_.
         eff_bind (eff_modify (\<lambda>s. s\<lparr>balanceCache := None\<rparr>)) (\<lambda>_.
         settle_mint ops env cfg h nonceText mint)))))"

definition daily_cap_text :: "nat \<Rightarrow> string" where
  "daily_cap_text n = ''the relay reached its daily limit of '' @ dec_str n @ '' transfers; it resumes after 00:00 UTC''"

text \<open>From the nonce check on: the cap, the simulation, the broadcast.\<close>

definition fresh_mint ::
    "'s store_ops \<Rightarrow> relay_env \<Rightarrow> relay_settings \<Rightarrow> string \<Rightarrow> string \<Rightarrow> ('s, unit) act" where
  "fresh_mint ops env cfg h nonceText =
     eff_bind (isNonceUsed env nonceText) (\<lambda>used.
     if used then mintedElsewhere ops env cfg h nonceText
     else eff_bind (ask (e_now env)) (\<lambda>t.
       eff_bind (eff_gets (\<lambda>s. st_countSubmittedSince ops (db s) (startOfUtcDay t))) (\<lambda>count.
       if count \<ge> dailyCap cfg then transient ops env h Daily_cap (daily_cap_text (dailyCap cfg))
       else eff_bind (ask_try (e_simulate env)) (\<lambda>sim.
         case sim of
           SimOk \<Rightarrow> send_mint ops env cfg h nonceText
         | SimFailed temporary revert \<Rightarrow>
             eff_bind (isNonceUsed env nonceText) (\<lambda>used'.
             if used' then mintedElsewhere ops env cfg h nonceText
             else if temporary then transient ops env h Rpc ''Base Sepolia could not be reached''
             else fail_record ops env h Mint_refused
                    (''Base Sepolia refused the mint: '' @ or_else revert ''reverted''))))))"

definition mint :: "'s store_ops \<Rightarrow> relay_env \<Rightarrow> relay_settings \<Rightarrow> string \<Rightarrow> ('s, unit) act" where
  "mint ops env cfg h =
     eff_bind (get_record ops h) (\<lambda>rec.
     case rec of
       None \<Rightarrow> eff_return ()
     | Some r \<Rightarrow>
         if isSettled r \<or> \<not> truthy (rNonce r) \<or> \<not> truthy (rMessage r) \<or> \<not> truthy (attestation r)
         then eff_return ()
         else let nonceText = the (rNonce r) in
           if truthy (mintHash r) \<and> mintedBy r = Some Relay
           then eff_bind (awaitReceipt env (the (mintHash r))) (\<lambda>outcome.
             if outcome = RSuccess then arrived ops env h (mintHash r) Relay
             else if outcome = RPending
             then eff_bind (isNonceUsed env nonceText) (\<lambda>used.
               if \<not> used
               then transient ops env h Not_mined ''the mint transaction on Base Sepolia is not mined yet''
               else fresh_mint ops env cfg h nonceText)
             else fresh_mint ops env cfg h nonceText)
           else fresh_mint ops env cfg h nonceText)"

section \<open>Waiting for Circle\<close>

fun refusal_text :: "message_refused \<Rightarrow> string" where
  "refusal_text NotHex = ''the transfer message is not valid hex''"
| "refusal_text TooShort = ''the transfer message is too short to be a CCTP V2 burn''"
| "refusal_text NotV2Burn = ''the transfer is not a CCTP V2 burn''"
| "refusal_text NotFromStellar = ''the transfer was not sent from Stellar''"
| "refusal_text NotToBase = ''the transfer is not addressed to Base Sepolia''"
| "refusal_text NotTokenMessenger = ''the transfer is not a USDC mint through Circle's TokenMessenger''"
| "refusal_text NamesItsCaller = ''the transfer names its own caller on Base Sepolia, so the relay cannot complete it''"
| "refusal_text CarriesHook = ''the transfer carries a hook, which the relay does not run''"
| "refusal_text RecipientNotAddress = ''the transfer's recipient is not a Base Sepolia address''"
| "refusal_text ZeroAmount = ''the transfer's amount is zero''"

definition confirm_patch :: "string \<Rightarrow> string \<Rightarrow> relayable_burn \<Rightarrow> relay_record \<Rightarrow> relay_record" where
  "confirm_patch messageText att b r =
     r\<lparr>state := Confirmed, rNonce := Some (nonce (burnMessage b)), rRecipient := Some (mintRecipient b),
       rAmount := Some (amount (body (burnMessage b))), rFeeExecuted := Some (feeExecuted (body (burnMessage b))),
       rMessage := Some messageText, attestation := Some att\<rparr>"

text \<open>
  One turn of the polling loop of \<^verbatim>\<open>awaitMessage\<close>. The answer is the job that runs next, with
  \<^const>\<open>None\<close> when the burn is settled.
\<close>

definition poll_turn ::
    "'s store_ops \<Rightarrow> relay_env \<Rightarrow> relay_settings \<Rightarrow> relay_record \<Rightarrow> int \<Rightarrow> int \<Rightarrow> ('s, job option) act" where
  "poll_turn ops env cfg record begun delay =
     eff_bind (ask (\<lambda>k. fetchIrisMessage (e_iris env k (burnHash record)))) (\<lambda>lookup.
     case lookup of
       Inr (Complete messageText att) \<Rightarrow>
         (case assertRelayable messageText of
            Inr b \<Rightarrow> eff_bind (update_record ops env (burnHash record) (confirm_patch messageText att b))
                       (\<lambda>r. eff_return (if isSettled r then None else Some Minting))
          | Inl e \<Rightarrow> eff_bind (fail_record ops env (burnHash record) Refused
                       (''the relay does not complete this transfer: '' @ refusal_text e))
                       (\<lambda>_. eff_return None))
     | _ \<Rightarrow>
         eff_bind (if lookup = Inr Pending \<and> state record = Sent
                   then update_record ops env (burnHash record) (\<lambda>r. r\<lparr>state := Confirming\<rparr>)
                   else eff_return record) (\<lambda>r.
         eff_bind (ask (e_now env)) (\<lambda>t.
         let unseen = (state r = Sent);
             limit = (if unseen then min UNSEEN_TIMEOUT_MS (confirmTimeoutMs cfg) else confirmTimeoutMs cfg)
         in if t - begun \<ge> limit
            then eff_bind (if unseen
                   then fail_record ops env (burnHash record) Unseen
                     ''Circle has no record of this burn; check that it is a CCTP transfer sent from Stellar''
                   else transient ops env (burnHash record) Confirm_timeout
                     ''Circle has not confirmed the transfer yet'')
                 (\<lambda>_. eff_return None)
            else eff_return (Some (Polling r begun (min (delay * 2) (pollMaxMs cfg)))))))"

section \<open>Jobs\<close>

text \<open>\<open>run\<close> up to its first \<^verbatim>\<open>await\<close>.\<close>

definition run_job :: "'s store_ops \<Rightarrow> relay_env \<Rightarrow> relay_settings \<Rightarrow> string \<Rightarrow> ('s, job option) act" where
  "run_job ops env cfg h =
     eff_bind (get_record ops h) (\<lambda>rec.
     case rec of
       None \<Rightarrow> eff_return None
     | Some r \<Rightarrow>
         if isSettled r then eff_return None
         else if \<not> truthy (attestation r)
         then eff_bind (ask (e_now env)) (\<lambda>t. eff_return (Some (Polling r t (pollInitialMs cfg))))
         else eff_return (Some Minting))"

text \<open>The rest of \<open>resumeFailed\<close> once the gas check is passed.\<close>

definition resume_update :: "'s store_ops \<Rightarrow> relay_env \<Rightarrow> relay_settings \<Rightarrow> relay_record \<Rightarrow> ('s, job option) act" where
  "resume_update ops env cfg r =
     eff_bind (update_record ops env (burnHash r) (\<lambda>q. q\<lparr>state := (if truthy (attestation r) then Confirmed else Sent),
         failure := None, failureCode := None, retryAt := None, retryable := False\<rparr>)) (\<lambda>_.
     run_job ops env cfg (burnHash r))"

definition resume_gas :: "'s store_ops \<Rightarrow> relay_env \<Rightarrow> relay_settings \<Rightarrow> relay_record \<Rightarrow> ('s, job option) act" where
  "resume_gas ops env cfg r =
     eff_bind (canPayForMint env) (\<lambda>can.
     if can then resume_update ops env cfg r
     else eff_bind (transient ops env (burnHash r) Out_of_gas
            (or_else (failure r) ''the relay is out of Base Sepolia gas'')) (\<lambda>_. eff_return None))"

definition resumeFailed :: "'s store_ops \<Rightarrow> relay_env \<Rightarrow> relay_settings \<Rightarrow> relay_record \<Rightarrow> ('s, job option) act" where
  "resumeFailed ops env cfg r =
     (if failureCode r = Some Out_of_gas then eff_return (Some (ResumingGas r)) else resume_update ops env cfg r)"

definition set_job :: "string \<Rightarrow> job option \<Rightarrow> 's relay_svc \<Rightarrow> 's relay_svc" where
  "set_job h j s = s\<lparr>jobs := (case j of None \<Rightarrow> js_delete h (jobs s) | Some j' \<Rightarrow> js_set h j' (jobs s))\<rparr>"

text \<open>
  The \<^verbatim>\<open>catch\<close> and \<^verbatim>\<open>finally\<close> that \<open>launch\<close> puts around the work: an unexpected error is a
  transient failure unless the transfer has arrived, and the job ends.
\<close>

definition guard_job :: "'s store_ops \<Rightarrow> relay_env \<Rightarrow> string \<Rightarrow> ('s, job option) act \<Rightarrow> ('s, job option) act" where
  "guard_job ops env h work =
     eff_catch work (\<lambda>_.
       eff_bind (get_record ops h) (\<lambda>current.
       case current of
         Some r \<Rightarrow> if state r \<noteq> Arrived
           then eff_bind (transient ops env h Unexpected ''the relay hit an unexpected error'') (\<lambda>_. eff_return None)
           else eff_return None
       | None \<Rightarrow> eff_return None))"

definition finish_job :: "'s store_ops \<Rightarrow> relay_env \<Rightarrow> string \<Rightarrow> ('s, job option) act \<Rightarrow> 's relay_svc \<Rightarrow> 's relay_svc" where
  "finish_job ops env h work s =
     (case guard_job ops env h work s of
        (s', Inr j) \<Rightarrow> set_job h j s'
      | (s', Inl e) \<Rightarrow> set_job h None s')"

definition launch :: "'s store_ops \<Rightarrow> relay_env \<Rightarrow> string \<Rightarrow> ('s, job option) act \<Rightarrow> 's relay_svc \<Rightarrow> 's relay_svc \<times> bool" where
  "launch ops env h work s =
     (if js_has (jobs s) h then (s, False) else (finish_job ops env h work s, True))"

definition start :: "'s store_ops \<Rightarrow> relay_env \<Rightarrow> relay_settings \<Rightarrow> string \<Rightarrow> 's relay_svc \<Rightarrow> 's relay_svc" where
  "start ops env cfg h s = fst (launch ops env h (run_job ops env cfg h) s)"

definition searching_job :: "'s store_ops \<Rightarrow> relay_env \<Rightarrow> relay_settings \<Rightarrow> relay_record \<Rightarrow> ('s, job option) act" where
  "searching_job ops env cfg r =
     (if truthy (rNonce r) then eff_return (Some (Searching r))
      else eff_bind (lookupMintAgain ops env cfg r) (\<lambda>_. eff_return None))"

definition retry :: "'s store_ops \<Rightarrow> relay_env \<Rightarrow> relay_settings \<Rightarrow> string \<Rightarrow> 's relay_svc \<Rightarrow> 's relay_svc \<times> bool" where
  "retry ops env cfg h s =
     (case st_get ops (db s) h of
        None \<Rightarrow> (s, False)
      | Some r \<Rightarrow>
          (case retryAt r of
             None \<Rightarrow> (s, False)
           | Some at \<Rightarrow>
               let t = e_now env (calls s); s1 = s\<lparr>calls := Suc (calls s)\<rparr> in
               if at > t then (s1, False)
               else if js_has (jobs s1) h \<or> length (jobs s1) \<ge> maxOpen cfg then (s1, False)
               else if state r = Arrived then launch ops env h (searching_job ops env cfg r) s1
               else if \<not> isRetrying r then (s1, False)
               else launch ops env h (resumeFailed ops env cfg r) s1))"

text \<open>One step of the job of \<open>h\<close>.\<close>

definition job_work :: "'s store_ops \<Rightarrow> relay_env \<Rightarrow> relay_settings \<Rightarrow> string \<Rightarrow> job \<Rightarrow> ('s, job option) act" where
  "job_work ops env cfg h j =
     (case j of
        Polling r begun delay \<Rightarrow> poll_turn ops env cfg r begun delay
      | Minting \<Rightarrow> eff_bind (mint ops env cfg h) (\<lambda>_. eff_return None)
      | ResumingGas r \<Rightarrow> resume_gas ops env cfg r
      | Searching r \<Rightarrow> eff_bind (lookupMintAgain ops env cfg r) (\<lambda>_. eff_return None))"

definition job_step :: "'s store_ops \<Rightarrow> relay_env \<Rightarrow> relay_settings \<Rightarrow> string \<Rightarrow> 's relay_svc \<Rightarrow> 's relay_svc" where
  "job_step ops env cfg h s =
     (case js_get (jobs s) h of
        None \<Rightarrow> s
      | Some j \<Rightarrow> finish_job ops env h (job_work ops env cfg h j) s)"

section \<open>Requests\<close>

datatype relay_error = Invalid_burn_hash | Not_found | Relay_busy

fun httpStatus :: "relay_error \<Rightarrow> int" where
  "httpStatus Invalid_burn_hash = 400"
| "httpStatus Not_found = 404"
| "httpStatus Relay_busy = 503"

definition fresh_record :: "string \<Rightarrow> int \<Rightarrow> relay_record" where
  "fresh_record h t = \<lparr>burnHash = h, state = Sent, rNonce = None, rRecipient = None, rAmount = None,
     rFeeExecuted = None, rMessage = None, attestation = None, mintHash = None, mintedBy = None,
     failure = None, failureCode = None, retryable = False, retryAt = None, attempts = None,
     retryingSince = None, createdAt = t, updatedAt = t, submittedAt = None\<rparr>"

definition restart_record :: "relay_record \<Rightarrow> int \<Rightarrow> relay_record" where
  "restart_record r t = r\<lparr>state := (if truthy (attestation r) then Confirmed else Sent), failure := None,
     failureCode := None, retryable := False, retryAt := None, attempts := None, retryingSince := None,
     updatedAt := t\<rparr>"

definition request :: "'s store_ops \<Rightarrow> relay_env \<Rightarrow> relay_settings \<Rightarrow> string option \<Rightarrow> 's relay_svc
     \<Rightarrow> 's relay_svc \<times> (relay_error + relay_view)" where
  "request ops env cfg raw s =
     (case normalizeBurnHash raw of
        None \<Rightarrow> (s, Inl Invalid_burn_hash)
      | Some h \<Rightarrow>
         let t = e_now env (calls s); s0 = s\<lparr>calls := Suc (calls s)\<rparr>; existing = st_get ops (db s) h in
         if (case existing of None \<Rightarrow> False | Some r \<Rightarrow> isRetrying r \<or> \<not> (state r = Failed \<and> retryable r))
         then (let s1 = (if \<not> isSettled (the existing) then start ops env cfg h s0
                         else fst (retry ops env cfg h s0))
               in (s1, Inr (toRelayView (the (st_get ops (db s1) h)))))
         else if length (jobs s0) \<ge> maxOpen cfg then (s0, Inl Relay_busy)
         else (let record = (case existing of None \<Rightarrow> fresh_record h t | Some r \<Rightarrow> restart_record r t)
               in (start ops env cfg h (s0\<lparr>db := st_put ops record (db s0)\<rparr>), Inr (toRelayView record))))"

definition relay_status :: "'s store_ops \<Rightarrow> relay_env \<Rightarrow> relay_settings \<Rightarrow> string option \<Rightarrow> 's relay_svc
     \<Rightarrow> 's relay_svc \<times> (relay_error + relay_view)" where
  "relay_status ops env cfg raw s =
     (case normalizeBurnHash raw of
        None \<Rightarrow> (s, Inl Invalid_burn_hash)
      | Some h \<Rightarrow>
          if st_get ops (db s) h = None then (s, Inl Not_found)
          else (let s1 = fst (retry ops env cfg h s) in (s1, Inr (the (lookupCctpRelay ops (db s1) h)))))"

definition resume :: "'s store_ops \<Rightarrow> relay_env \<Rightarrow> relay_settings \<Rightarrow> 's relay_svc \<Rightarrow> 's relay_svc \<times> nat" where
  "resume ops env cfg s =
     (let opens = st_listOpen ops (db s) in
      (fold (\<lambda>r. start ops env cfg (burnHash r)) opens s, length opens))"

definition retry_each :: "'s store_ops \<Rightarrow> relay_env \<Rightarrow> relay_settings \<Rightarrow> relay_record \<Rightarrow> 's relay_svc \<times> nat \<Rightarrow> 's relay_svc \<times> nat" where
  "retry_each ops env cfg r acc =
     (case acc of (s, n) \<Rightarrow> (case retry ops env cfg (burnHash r) s of (s', b) \<Rightarrow> (s', if b then n + 1 else n)))"

definition retryDue :: "'s store_ops \<Rightarrow> relay_env \<Rightarrow> relay_settings \<Rightarrow> 's relay_svc \<Rightarrow> 's relay_svc \<times> nat" where
  "retryDue ops env cfg s =
     (let t = e_now env (calls s); s0 = s\<lparr>calls := Suc (calls s)\<rparr> in
      fold (retry_each ops env cfg) (st_listDue ops (db s0) t) (s0, 0))"

record relay_info_view =
  i_balanceWei :: "int option"
  i_lowBalance :: "bool option"
  i_mintsToday :: nat
  i_dailyCap :: nat
  i_inFlight :: nat

definition relay_info :: "'s store_ops \<Rightarrow> relay_env \<Rightarrow> relay_settings \<Rightarrow> 's relay_svc \<Rightarrow> 's relay_svc \<times> relay_info_view" where
  "relay_info ops env cfg s =
     (let t = e_now env (calls s); s0 = s\<lparr>calls := Suc (calls s)\<rparr>;
          (s1, wei) =
            (case balanceCache s0 of
               Some (at, w) \<Rightarrow> if t - at < BALANCE_CACHE_MS then (s0, Some w)
                 else (case e_balance env (calls s0) of
                         Inl _ \<Rightarrow> (s0\<lparr>calls := Suc (calls s0)\<rparr>, None)
                       | Inr w' \<Rightarrow> (s0\<lparr>calls := Suc (calls s0), balanceCache := Some (t, w')\<rparr>, Some w'))
             | None \<Rightarrow> (case e_balance env (calls s0) of
                         Inl _ \<Rightarrow> (s0\<lparr>calls := Suc (calls s0)\<rparr>, None)
                       | Inr w' \<Rightarrow> (s0\<lparr>calls := Suc (calls s0), balanceCache := Some (t, w')\<rparr>, Some w')))
      in (s1, \<lparr>i_balanceWei = wei, i_lowBalance = map_option (\<lambda>w. w < LOW_BALANCE_WEI) wei,
               i_mintsToday = st_countSubmittedSince ops (db s1) (startOfUtcDay t),
               i_dailyCap = dailyCap cfg, i_inFlight = length (jobs s1)\<rparr>))"

section \<open>Steps\<close>

datatype relay_event =
    Post "string option" | Get "string option" | Sweep | JobRuns string | InfoRead

fun relay_do :: "'s store_ops \<Rightarrow> relay_env \<Rightarrow> relay_settings \<Rightarrow> relay_event \<Rightarrow> 's relay_svc \<Rightarrow> 's relay_svc" where
  "relay_do ops env cfg (Post raw) s = fst (request ops env cfg raw s)"
| "relay_do ops env cfg (Get raw) s = fst (relay_status ops env cfg raw s)"
| "relay_do ops env cfg Sweep s = fst (retryDue ops env cfg s)"
| "relay_do ops env cfg (JobRuns h) s = job_step ops env cfg h s"
| "relay_do ops env cfg InfoRead s = fst (relay_info ops env cfg s)"

text \<open>
  What the process can reach: it starts with the records a previous process left and no job, resumes
  the open ones, and then takes events in any order.
\<close>

definition boot :: "'s store_ops \<Rightarrow> relay_env \<Rightarrow> relay_settings \<Rightarrow> 's \<Rightarrow> 's relay_svc" where
  "boot ops env cfg d = fst (resume ops env cfg
     \<lparr>db = d, jobs = [], calls = 0, balanceCache = None, sends = []\<rparr>)"

inductive reaches :: "'s store_ops \<Rightarrow> relay_env \<Rightarrow> relay_settings \<Rightarrow> 's relay_svc \<Rightarrow> 's relay_svc \<Rightarrow> bool"
  for ops env cfg where
  here: "reaches ops env cfg s s"
| event: "reaches ops env cfg s s' \<Longrightarrow> reaches ops env cfg s (relay_do ops env cfg ev s')"

end
