(* ===== verification/CctpRelayInv.thy ===== *)
theory CctpRelayInv
  imports CctpRelay
begin

text \<open>
  The invariant of the CCTP relay: what a record may look like, how it agrees with the job of its
  burn, and that every job step and every request keeps it, over any store that keeps the contract
  \<open>relay_store\<close>.
\<close>

section \<open>The invariant\<close>

definition final_codes :: "failure_code set" where
  "final_codes = {Refused, Mint_refused, Unseen, Gave_up}"

definition rec_inv :: "relay_record \<Rightarrow> bool" where
  "rec_inv r \<longleftrightarrow>
     (state r = Failed \<and> retryAt r = None \<longrightarrow>
        (\<exists>c. failureCode r = Some c \<and> c \<in> final_codes \<and> (retryable r \<longleftrightarrow> c \<noteq> Refused \<and> c \<noteq> Mint_refused)))
     \<and> (state r = Failed \<and> retryAt r \<noteq> None \<longrightarrow> retryable r \<and> retryingSince r \<noteq> None \<and> failure r \<noteq> None)
     \<and> (truthy (attestation r) \<longrightarrow> truthy (rNonce r) \<and> truthy (rMessage r))
     \<and> (state r \<in> {Confirmed, Submitted} \<longrightarrow> truthy (attestation r))
     \<and> (state r = Arrived \<longrightarrow> \<not> retryable r \<and> (retryAt r \<noteq> None \<longrightarrow> \<not> truthy (mintHash r)))
     \<and> (\<not> isSettled r \<longrightarrow> retryAt r = None)"

definition job_match :: "relay_record \<Rightarrow> job \<Rightarrow> bool" where
  "job_match r j \<longleftrightarrow>
     (case j of
        Polling q begun delay \<Rightarrow> \<not> isSettled r \<and> q = r
      | Minting \<Rightarrow> \<not> isSettled r \<and> truthy (attestation r)
      | ResumingGas q \<Rightarrow> isRetrying r \<and> q = r
      | Searching q \<Rightarrow> state r = Arrived \<and> retryAt r \<noteq> None \<and> q = r)"

text \<open>The record of a burn and its job agree; only burns in \<open>X\<close> may be open without a job.\<close>

definition burn_ok :: "string set \<Rightarrow> string \<Rightarrow> relay_record option \<Rightarrow> job option \<Rightarrow> bool" where
  "burn_ok X h rec j \<longleftrightarrow>
     (case rec of
        None \<Rightarrow> j = None
      | Some r \<Rightarrow> rec_inv r \<and> (case j of None \<Rightarrow> isSettled r \<or> h \<in> X | Some j' \<Rightarrow> job_match r j'))"

definition svc_inv :: "'s store_ops \<Rightarrow> ('s \<Rightarrow> bool) \<Rightarrow> string set \<Rightarrow> 's relay_svc \<Rightarrow> bool" where
  "svc_inv ops ok X s \<longleftrightarrow>
     ok (db s) \<and> js_ok (jobs s) \<and> (\<forall>h. burn_ok X h (st_get ops (db s) h) (js_get (jobs s) h))"

text \<open>The state during the work of the job of \<open>h\<close>, started in \<open>s0\<close>: nothing but the record of \<open>h\<close> moves.\<close>

definition at_rec :: "'s store_ops \<Rightarrow> ('s \<Rightarrow> bool) \<Rightarrow> 's relay_svc \<Rightarrow> string \<Rightarrow> (relay_record \<Rightarrow> bool) \<Rightarrow> 's relay_svc \<Rightarrow> bool" where
  "at_rec ops ok s0 h \<phi> s \<longleftrightarrow>
     ok (db s) \<and> jobs s = jobs s0 \<and> (\<forall>g. g \<noteq> h \<longrightarrow> st_get ops (db s) g = st_get ops (db s0) g)
     \<and> (\<exists>r. st_get ops (db s) h = Some r \<and> \<phi> r)"

definition stopped :: "relay_record \<Rightarrow> bool" where
  "stopped r \<longleftrightarrow> rec_inv r \<and> isSettled r"

definition mintable :: "relay_record \<Rightarrow> bool" where
  "mintable r \<longleftrightarrow> rec_inv r \<and> \<not> isSettled r \<and> truthy (attestation r)"

definition after_work :: "job option \<Rightarrow> relay_record \<Rightarrow> bool" where
  "after_work j r \<longleftrightarrow> rec_inv r \<and> (case j of None \<Rightarrow> isSettled r | Some j' \<Rightarrow> job_match r j')"

lemma at_rec_mono: "at_rec ops ok s0 h \<phi> s \<Longrightarrow> (\<And>r. \<phi> r \<Longrightarrow> \<psi> r) \<Longrightarrow> at_rec ops ok s0 h \<psi> s"
  unfolding at_rec_def by blast

lemma mintable_open: "mintable r \<Longrightarrow> rec_inv r \<and> state r \<noteq> Arrived"
  by (auto simp: mintable_def isSettled_def)

lemma truthy_Some [simp]: "truthy (Some s) \<longleftrightarrow> s \<noteq> []"
  by (simp add: truthy_def)

lemma truthy_None [simp]: "\<not> truthy None"
  by (simp add: truthy_def)

lemma relayable_nonce: "assertRelayable m = Inr b \<Longrightarrow> nonce (burnMessage b) \<noteq> []"
  by (auto simp: assertRelayable_def decodeBurnMessage_def Let_def b32_def res_simps split: if_splits option.splits)

lemma complete_truthy: "fetchIrisMessage a = Inr (Complete m att) \<Longrightarrow> m \<noteq> [] \<and> att \<noteq> []"
  by (cases a) (auto simp: read_messages_def truthy_def split: if_splits option.splits list.splits)

section \<open>Steps of the work\<close>

context relay_store begin

lemma triple_ask: "triple (at_rec ops ok s0 h \<phi>) (ask f) (\<lambda>_. at_rec ops ok s0 h \<phi>) E"
  by (simp add: triple_def ask_def at_rec_def)

lemma triple_ask_try: "triple (at_rec ops ok s0 h \<phi>) (ask_try f) (\<lambda>_. at_rec ops ok s0 h \<phi>) (at_rec ops ok s0 h \<phi>)"
  by (simp add: triple_def ask_try_def at_rec_def split: sum.split)

lemma triple_cache: "triple (at_rec ops ok s0 h \<phi>) (eff_modify (\<lambda>s. s\<lparr>balanceCache := c\<rparr>)) (\<lambda>_. at_rec ops ok s0 h \<phi>) E"
  by (simp add: triple_def eff_modify_def at_rec_def)

lemma triple_log: "triple (at_rec ops ok s0 h \<phi>) (eff_modify (\<lambda>s. s\<lparr>sends := f (sends s)\<rparr>)) (\<lambda>_. at_rec ops ok s0 h \<phi>) E"
  by (simp add: triple_def eff_modify_def at_rec_def)

lemma triple_observe: "triple (at_rec ops ok s0 h \<phi>) (eff_gets f) (\<lambda>_. at_rec ops ok s0 h \<phi>) E"
  by (simp add: triple_def eff_gets_def at_rec_def)

lemma triple_get:
  "triple (at_rec ops ok s0 h \<phi>) (get_record ops h) (\<lambda>x s. \<exists>r. x = Some r \<and> \<phi> r \<and> at_rec ops ok s0 h (\<lambda>q. q = r \<and> \<phi> r) s) E"
  by (auto simp: triple_def get_record_def eff_gets_def at_rec_def)

lemma triple_update:
  assumes "\<And>r t. \<phi> r \<Longrightarrow> burnHash r = h \<Longrightarrow> \<psi> ((patch r)\<lparr>updatedAt := t\<rparr>) \<and> burnHash (patch r) = h"
  shows "triple (at_rec ops ok s0 h \<phi>) (update_record ops env h patch)
    (\<lambda>x. at_rec ops ok s0 h (\<lambda>r. r = x \<and> \<psi> r)) E"
  unfolding triple_def
proof (intro allI impI)
  fix s assume a: "at_rec ops ok s0 h \<phi> s"
  then obtain r where r: "st_get ops (db s) h = Some r" "\<phi> r" and ok: "ok (db s)" by (auto simp: at_rec_def)
  define n where "n = (patch r)\<lparr>updatedAt := e_now env (calls s)\<rparr>"
  from assms [OF r(2) get_key [OF ok r(1)], of "e_now env (calls s)"] have n: "\<psi> n" "burnHash n = h"
    by (simp_all add: n_def)
  have "update_record ops env h patch s = (s\<lparr>calls := Suc (calls s), db := st_put ops n (db s)\<rparr>, Inr n)"
    using r by (simp add: update_record_def get_record_def put_record_def ask_def eff_defs Let_def n_def)
  moreover have "at_rec ops ok s0 h (\<lambda>r. r = n \<and> \<psi> r) (s\<lparr>calls := Suc (calls s), db := st_put ops n (db s)\<rparr>)"
    using a n ok by (auto simp: at_rec_def get_put ok_put)
  ultimately show "case update_record ops env h patch s of (s', Inl e) \<Rightarrow> E s'
      | (s', Inr x) \<Rightarrow> at_rec ops ok s0 h (\<lambda>r. r = x \<and> \<psi> r) s'" by simp
qed

lemma triple_update_unit:
  assumes "\<And>r t. \<phi> r \<Longrightarrow> burnHash r = h \<Longrightarrow> \<psi> ((patch r)\<lparr>updatedAt := t\<rparr>) \<and> burnHash (patch r) = h"
  shows "triple (at_rec ops ok s0 h \<phi>) (eff_bind (update_record ops env h patch) (\<lambda>_. eff_return ()))
    (\<lambda>_. at_rec ops ok s0 h \<psi>) E"
  by (rule triple_bind, rule triple_update [of \<phi> h \<psi>], erule (1) assms)
    (auto intro: triple_return elim: at_rec_mono)

lemma triple_fail:
  assumes "\<And>r. \<phi> r \<Longrightarrow> rec_inv r" "cause \<in> final_codes"
  shows "triple (at_rec ops ok s0 h \<phi>) (fail_record ops env h cause reason) (\<lambda>_. at_rec ops ok s0 h stopped) E"
  unfolding fail_record_def
  by (rule triple_update_unit)
    (use assms in \<open>auto simp: fail_patch_def stopped_def rec_inv_def isSettled_def dest!: assms(1)\<close>)

lemma triple_transient:
  assumes "\<And>r. \<phi> r \<Longrightarrow> rec_inv r \<and> state r \<noteq> Arrived"
  shows "triple (at_rec ops ok s0 h \<phi>) (transient ops env h cause reason) (\<lambda>_. at_rec ops ok s0 h stopped) E"
proof -
  have inv: "rec_inv r \<and> state r \<noteq> Arrived \<Longrightarrow>
      rec_inv (r\<lparr>attempts := n, retryingSince := Some since, updatedAt := t\<rparr>)" for r n since t
    by (auto simp: rec_inv_def isSettled_def)
  show ?thesis
    unfolding transient_def Let_def
    apply (rule triple_bind, rule triple_get)
    apply (rule triple_bind [where R = "\<lambda>_. at_rec ops ok s0 h \<phi>"])
     apply (rule triple_conseq [OF triple_ask [where \<phi> = \<phi>]])
       apply (auto elim: at_rec_mono)[3]
    apply (rule triple_if)
     apply (rule triple_bind [where R = "\<lambda>_. at_rec ops ok s0 h rec_inv"])
      apply (rule triple_conseq [OF triple_update [where \<phi> = \<phi> and \<psi> = rec_inv]])
         apply (use assms inv in \<open>auto elim: at_rec_mono\<close>)[4]
     apply (rule triple_fail)
      apply (simp_all add: final_codes_def)[2]
    apply (rule triple_update_unit)
    apply (use assms in \<open>auto simp: stopped_def rec_inv_def isSettled_def\<close>)
    done
qed

lemma triple_arrived:
  assumes "\<And>r. \<phi> r \<Longrightarrow> rec_inv r"
  shows "triple (at_rec ops ok s0 h \<phi>) (arrived ops env h m by_whom) (\<lambda>_. at_rec ops ok s0 h stopped) E"
proof (cases "truthy m")
  case True
  then show ?thesis
    by (simp add: arrived_def) (rule triple_update_unit, use assms in \<open>auto simp: stopped_def rec_inv_def isSettled_def\<close>)
next
  case False
  show ?thesis
    unfolding arrived_def if_not_P [OF False]
    apply (rule triple_seq)
     apply (intro triple_seq triple_ask triple_return, assumption)
    apply (rule triple_update_unit)
    apply (use assms False in \<open>auto simp: stopped_def rec_inv_def isSettled_def\<close>)
    done
qed

lemma triple_findMintTx:
  "triple (at_rec ops ok s0 h \<phi>) (findMintTx env cfg n) (\<lambda>_. at_rec ops ok s0 h \<phi>) E"
  unfolding findMintTx_def
  by (intro triple_seq triple_catch [OF triple_ask_try] triple_option triple_if triple_ask triple_return)

lemma triple_mintedElsewhere:
  "(\<And>r. \<phi> r \<Longrightarrow> rec_inv r) \<Longrightarrow>
   triple (at_rec ops ok s0 h \<phi>) (mintedElsewhere ops env cfg h n) (\<lambda>_. at_rec ops ok s0 h stopped) E"
  unfolding mintedElsewhere_def by (intro triple_seq triple_findMintTx triple_arrived)

lemma triple_warn: "triple (at_rec ops ok s0 h \<phi>) (warnIfLow env) (\<lambda>_. at_rec ops ok s0 h \<phi>) E"
  unfolding warnIfLow_def
  by (intro triple_catch [where R = "at_rec ops ok s0 h \<phi>"] triple_seq triple_ask triple_ask_try triple_cache triple_return)

lemma triple_can_pay: "triple (at_rec ops ok s0 h \<phi>) (canPayForMint env) (\<lambda>_. at_rec ops ok s0 h \<phi>) E"
  unfolding canPayForMint_def
  by (intro triple_catch [where R = "at_rec ops ok s0 h \<phi>"] triple_seq triple_ask triple_ask_try triple_cache triple_return)

lemma triple_await_receipt:
  "triple (at_rec ops ok s0 h \<phi>) (await_receipt n env m) (\<lambda>_. at_rec ops ok s0 h \<phi>) (at_rec ops ok s0 h \<phi>)"
proof (induction n)
  case 0
  show ?case by (simp add: triple_return)
next
  case (Suc n)
  show ?case by (simp del: not_None_eq) (intro triple_seq triple_ask_try triple_if triple_return Suc)
qed

lemma triple_receipt:
  "triple (at_rec ops ok s0 h \<phi>) (awaitReceipt env m) (\<lambda>_. at_rec ops ok s0 h \<phi>) (at_rec ops ok s0 h \<phi>)"
  unfolding awaitReceipt_def by (rule triple_await_receipt)

lemma triple_nonce:
  "triple (at_rec ops ok s0 h \<phi>) (isNonceUsed env n) (\<lambda>_. at_rec ops ok s0 h \<phi>) (at_rec ops ok s0 h \<phi>)"
  unfolding isNonceUsed_def by (rule triple_ask_try)

lemmas work_triples = triple_seq triple_if triple_option triple_return triple_ask triple_ask_try triple_nonce
  triple_receipt triple_observe triple_cache triple_log

lemma triple_settle_mint:
  "triple (at_rec ops ok s0 h mintable) (settle_mint ops env cfg h n m)
     (\<lambda>_. at_rec ops ok s0 h stopped) (at_rec ops ok s0 h mintable)"
  unfolding settle_mint_def
  by (rule triple_seq [OF triple_receipt], rule triple_if, rule triple_bind, rule triple_arrived,
      simp add: mintable_def, rule triple_warn, intro work_triples triple_mintedElsewhere triple_transient)
    (auto dest: mintable_open)

lemma triple_send_mint:
  "triple (at_rec ops ok s0 h mintable) (send_mint ops env cfg h n)
     (\<lambda>_. at_rec ops ok s0 h stopped) (at_rec ops ok s0 h mintable)"
proof -
  have "triple (at_rec ops ok s0 h mintable) (case sent of
       Inl Insufficient_funds \<Rightarrow> transient ops env h c1 r1
     | Inl Other_send_failure \<Rightarrow> transient ops env h c2 r2
     | Inr tx \<Rightarrow>
         eff_bind (ask (e_now env)) (\<lambda>t.
         eff_bind (eff_modify (\<lambda>s. s\<lparr>sends := sends s @ [(h, t)]\<rparr>)) (\<lambda>_.
         eff_bind (update_record ops env h (\<lambda>r. r\<lparr>state := Submitted, mintHash := Some tx,
             mintedBy := Some Relay, submittedAt := Some t\<rparr>)) (\<lambda>_.
         eff_bind (eff_modify (\<lambda>s. s\<lparr>balanceCache := None\<rparr>)) (\<lambda>_.
         settle_mint ops env cfg h n tx)))))
     (\<lambda>_. at_rec ops ok s0 h stopped) (at_rec ops ok s0 h mintable)" for sent c1 r1 c2 r2
  proof (cases sent)
    case (Inl e)
    then show ?thesis
      by (cases e) (simp_all add: triple_transient mintable_open)
  next
    case (Inr tx)
    have "triple (at_rec ops ok s0 h mintable) (update_record ops env h (\<lambda>r. r\<lparr>state := Submitted, mintHash := Some tx,
             mintedBy := Some Relay, submittedAt := Some t\<rparr>)) (\<lambda>_. at_rec ops ok s0 h mintable) (at_rec ops ok s0 h mintable)" for t
      by (rule triple_conseq [OF triple_update [where \<phi> = mintable and \<psi> = mintable]])
        (auto simp: mintable_def rec_inv_def isSettled_def elim: at_rec_mono)
    with Inr show ?thesis
      by simp (intro work_triples triple_settle_mint)
  qed
  then show ?thesis unfolding send_mint_def by (intro triple_seq triple_ask)
qed

lemma triple_fresh_mint:
  "triple (at_rec ops ok s0 h mintable) (fresh_mint ops env cfg h n)
     (\<lambda>_. at_rec ops ok s0 h stopped) (at_rec ops ok s0 h mintable)"
proof -
  have sim: "triple (at_rec ops ok s0 h mintable) (case sim of
           SimOk \<Rightarrow> send_mint ops env cfg h n
         | SimFailed temporary revert \<Rightarrow>
             eff_bind (isNonceUsed env n) (\<lambda>used'.
             if used' then mintedElsewhere ops env cfg h n
             else if temporary then transient ops env h Rpc r1
             else fail_record ops env h Mint_refused (r2 revert)))
     (\<lambda>_. at_rec ops ok s0 h stopped) (at_rec ops ok s0 h mintable)" for sim r1 r2
    by (cases sim) (auto intro!: work_triples triple_mintedElsewhere triple_transient triple_fail triple_send_mint
        simp: mintable_def final_codes_def isSettled_def)
  show ?thesis
    unfolding fresh_mint_def
    by (intro work_triples triple_mintedElsewhere triple_transient sim) (auto dest: mintable_open)
qed

lemma triple_mint:
  "triple (at_rec ops ok s0 h mintable) (mint ops env cfg h)
     (\<lambda>_. at_rec ops ok s0 h stopped) (at_rec ops ok s0 h mintable)"
proof -
  have body: "triple (at_rec ops ok s0 h mintable) (if isSettled r \<or> \<not> truthy (rNonce r) \<or> \<not> truthy (rMessage r) \<or> \<not> truthy (attestation r)
         then eff_return () else let nonceText = the (rNonce r) in
           if truthy (mintHash r) \<and> mintedBy r = Some Relay
           then eff_bind (awaitReceipt env (the (mintHash r))) (\<lambda>outcome.
             if outcome = RSuccess then arrived ops env h (mintHash r) Relay
             else if outcome = RPending
             then eff_bind (isNonceUsed env nonceText) (\<lambda>used.
               if \<not> used then transient ops env h Not_mined t
               else fresh_mint ops env cfg h nonceText)
             else fresh_mint ops env cfg h nonceText)
           else fresh_mint ops env cfg h nonceText)
     (\<lambda>_. at_rec ops ok s0 h stopped) (at_rec ops ok s0 h mintable)" if "mintable r" for r t
  proof -
    from that have no: "\<not> (isSettled r \<or> \<not> truthy (rNonce r) \<or> \<not> truthy (rMessage r) \<or> \<not> truthy (attestation r))"
      by (auto simp: mintable_def rec_inv_def)
    show ?thesis
      unfolding if_not_P [OF no] Let_def
      by (intro work_triples triple_arrived triple_transient triple_fresh_mint) (auto dest: mintable_open)
  qed
  show ?thesis
    unfolding mint_def
  proof (rule triple_bind, rule triple_get)
    fix x
    show "triple (\<lambda>s. \<exists>r. x = Some r \<and> mintable r \<and> at_rec ops ok s0 h (\<lambda>q. q = r \<and> mintable r) s)
      (case x of None \<Rightarrow> eff_return () | Some r \<Rightarrow> (if isSettled r \<or> \<not> truthy (rNonce r) \<or> \<not> truthy (rMessage r) \<or> \<not> truthy (attestation r)
         then eff_return () else let nonceText = the (rNonce r) in
           if truthy (mintHash r) \<and> mintedBy r = Some Relay
           then eff_bind (awaitReceipt env (the (mintHash r))) (\<lambda>outcome.
             if outcome = RSuccess then arrived ops env h (mintHash r) Relay
             else if outcome = RPending
             then eff_bind (isNonceUsed env nonceText) (\<lambda>used.
               if \<not> used then transient ops env h Not_mined ''the mint transaction on Base Sepolia is not mined yet''
               else fresh_mint ops env cfg h nonceText)
             else fresh_mint ops env cfg h nonceText)
           else fresh_mint ops env cfg h nonceText))
      (\<lambda>_. at_rec ops ok s0 h stopped) (at_rec ops ok s0 h mintable)"
    proof (cases x)
      case None
      then show ?thesis by (simp add: triple_def)
    next
      case (Some r)
      show ?thesis
      proof (cases "mintable r")
        case True
        show ?thesis
          unfolding Some option.case
          by (rule triple_conseq [OF body [OF True]]) (auto elim: at_rec_mono)
      qed (simp add: Some triple_def)
    qed
  qed
qed

text \<open>The work of a job, from a record that agrees with it.\<close>

definition work_ok :: "'s relay_svc \<Rightarrow> string \<Rightarrow> (relay_record \<Rightarrow> bool) \<Rightarrow> ('s, job option) act \<Rightarrow> bool" where
  "work_ok s0 h \<phi> work \<longleftrightarrow>
     triple (at_rec ops ok s0 h \<phi>) work (\<lambda>j. at_rec ops ok s0 h (after_work j))
       (at_rec ops ok s0 h (\<lambda>r. rec_inv r \<and> state r \<noteq> Arrived))"

lemma stopped_after_work: "stopped r \<Longrightarrow> after_work None r"
  by (simp add: stopped_def after_work_def)

lemma triple_then_stop:
  assumes "triple P m (\<lambda>_. at_rec ops ok s0 h stopped) E"
  shows "triple P (eff_bind m (\<lambda>_. eff_return None)) (\<lambda>j. at_rec ops ok s0 h (after_work j)) E"
  by (rule triple_bind [OF assms], rule triple_return) (auto elim: at_rec_mono intro: stopped_after_work)

lemma run_job_ok: "work_ok s0 h (\<lambda>r. rec_inv r \<and> \<not> isSettled r) (run_job ops env cfg h)"
  unfolding work_ok_def run_job_def
proof (rule triple_bind, rule triple_get)
  fix x
  let ?P = "\<lambda>s. \<exists>r. x = Some r \<and> (rec_inv r \<and> \<not> isSettled r) \<and> at_rec ops ok s0 h (\<lambda>q. q = r \<and> rec_inv r \<and> \<not> isSettled r) s"
  show "triple ?P (case x of None \<Rightarrow> eff_return None | Some r \<Rightarrow>
         if isSettled r then eff_return None
         else if \<not> truthy (attestation r)
         then eff_bind (ask (e_now env)) (\<lambda>t. eff_return (Some (Polling r t (pollInitialMs cfg))))
         else eff_return (Some Minting))
     (\<lambda>j. at_rec ops ok s0 h (after_work j)) (at_rec ops ok s0 h (\<lambda>r. rec_inv r \<and> state r \<noteq> Arrived))"
    by (cases x) (auto simp: triple_def eff_defs ask_def at_rec_def after_work_def job_match_def)
qed

lemma poll_turn_ok:
  assumes h: "burnHash r = h"
  shows "work_ok s0 h (\<lambda>q. q = r \<and> rec_inv r \<and> \<not> isSettled r) (poll_turn ops env cfg r begun delay)"
proof -
  let ?\<phi> = "\<lambda>q. q = r \<and> rec_inv r \<and> \<not> isSettled r"
  let ?Q = "\<lambda>j. at_rec ops ok s0 h (after_work j)"
  let ?E = "at_rec ops ok s0 h (\<lambda>r. rec_inv r \<and> state r \<noteq> Arrived)"
  have complete: "triple (at_rec ops ok s0 h ?\<phi>) (eff_bind (update_record ops env h (confirm_patch m att b))
        (\<lambda>r. eff_return (if isSettled r then None else Some Minting))) ?Q ?E"
    if "m \<noteq> []" "att \<noteq> []" "assertRelayable m = Inr b" for m att b
    by (rule triple_bind, rule triple_update [where \<phi> = ?\<phi> and \<psi> = mintable])
      (auto simp: mintable_def confirm_patch_def rec_inv_def isSettled_def after_work_def job_match_def
          that relayable_nonce [OF that(3)] intro!: triple_return elim!: at_rec_mono)
  have rest: "triple (at_rec ops ok s0 h ?\<phi>) (eff_bind (if c then update_record ops env h (\<lambda>r. r\<lparr>state := Confirming\<rparr>) else eff_return r) (\<lambda>r.
         eff_bind (ask (e_now env)) (\<lambda>t.
         let unseen = (state r = Sent);
             limit = (if unseen then min UNSEEN_TIMEOUT_MS (confirmTimeoutMs cfg) else confirmTimeoutMs cfg)
         in if t - begun \<ge> limit
            then eff_bind (if unseen then fail_record ops env h Unseen t1 else transient ops env h Confirm_timeout t2)
                 (\<lambda>_. eff_return None)
            else eff_return (Some (Polling r begun (min (delay * 2) (pollMaxMs cfg))))))) ?Q ?E" for c t1 t2
  proof (rule triple_bind)
    show "triple (at_rec ops ok s0 h ?\<phi>) (if c then update_record ops env h (\<lambda>r. r\<lparr>state := Confirming\<rparr>) else eff_return r)
        (\<lambda>x. at_rec ops ok s0 h (\<lambda>q. q = x \<and> rec_inv q \<and> \<not> isSettled q)) ?E"
      by (rule triple_if, rule triple_update [where \<psi> = "\<lambda>q. rec_inv q \<and> \<not> isSettled q"], auto simp: rec_inv_def isSettled_def)
        (rule triple_return, auto elim: at_rec_mono)
    show "triple (at_rec ops ok s0 h (\<lambda>q. q = x \<and> rec_inv q \<and> \<not> isSettled q)) (eff_bind (ask (e_now env)) (\<lambda>t.
         let unseen = (state x = Sent);
             limit = (if unseen then min UNSEEN_TIMEOUT_MS (confirmTimeoutMs cfg) else confirmTimeoutMs cfg)
         in if t - begun \<ge> limit
            then eff_bind (if unseen then fail_record ops env h Unseen t1 else transient ops env h Confirm_timeout t2)
                 (\<lambda>_. eff_return None)
            else eff_return (Some (Polling x begun (min (delay * 2) (pollMaxMs cfg)))))) ?Q ?E" for x
      unfolding Let_def
      by (rule triple_seq [OF triple_ask], rule triple_if, rule triple_then_stop, rule triple_if, rule triple_fail)
        (auto simp: final_codes_def isSettled_def after_work_def job_match_def
           intro!: triple_transient triple_return elim!: at_rec_mono)
  qed
  show ?thesis
    unfolding work_ok_def poll_turn_def h
    proof (rule triple_bind [where R = "\<lambda>l s. at_rec ops ok s0 h ?\<phi> s \<and>
           (\<forall>m att. l = Inr (Complete m att) \<longrightarrow> m \<noteq> [] \<and> att \<noteq> [])"])
      show "triple (at_rec ops ok s0 h ?\<phi>) (ask (\<lambda>k. fetchIrisMessage (e_iris env k h)))
         (\<lambda>l s. at_rec ops ok s0 h ?\<phi> s \<and> (\<forall>m att. l = Inr (Complete m att) \<longrightarrow> m \<noteq> [] \<and> att \<noteq> [])) ?E"
        by (auto simp: triple_def ask_def at_rec_def dest: complete_truthy)
      fix l
      show "triple (\<lambda>s. at_rec ops ok s0 h ?\<phi> s \<and> (\<forall>m att. l = Inr (Complete m att) \<longrightarrow> m \<noteq> [] \<and> att \<noteq> []))
        (case l of
           Inr (Complete messageText att) \<Rightarrow>
             (case assertRelayable messageText of
                Inr b \<Rightarrow> eff_bind (update_record ops env h (confirm_patch messageText att b))
                       (\<lambda>r. eff_return (if isSettled r then None else Some Minting))
              | Inl e \<Rightarrow> eff_bind (fail_record ops env h Refused
                       (''the relay does not complete this transfer: '' @ refusal_text e)) (\<lambda>_. eff_return None))
         | _ \<Rightarrow>
         eff_bind (if l = Inr Pending \<and> state r = Sent
                   then update_record ops env h (\<lambda>r. r\<lparr>state := Confirming\<rparr>)
                   else eff_return r) (\<lambda>r.
         eff_bind (ask (e_now env)) (\<lambda>t.
         let unseen = (state r = Sent);
             limit = (if unseen then min UNSEEN_TIMEOUT_MS (confirmTimeoutMs cfg) else confirmTimeoutMs cfg)
         in if t - begun \<ge> limit
            then eff_bind (if unseen
                   then fail_record ops env h Unseen
                     ''Circle has no record of this burn; check that it is a CCTP transfer sent from Stellar''
                   else transient ops env h Confirm_timeout ''Circle has not confirmed the transfer yet'')
                 (\<lambda>_. eff_return None)
            else eff_return (Some (Polling r begun (min (delay * 2) (pollMaxMs cfg))))))) ?Q ?E"
      proof (cases "\<exists>m att. l = Inr (Complete m att)")
        case True
        then obtain m att where l: "l = Inr (Complete m att)" by blast
        show ?thesis
        proof (cases "m \<noteq> [] \<and> att \<noteq> []")
          case False
          then show ?thesis by (auto simp: l triple_def)
        next
          case ne: True
          show ?thesis
          proof (cases "assertRelayable m")
            case (Inl e)
            show ?thesis
              by (simp add: l Inl ne) (rule triple_then_stop, rule triple_fail, simp_all add: final_codes_def)
          next
            case (Inr b)
            show ?thesis using ne complete [OF _ _ Inr] by (simp add: l Inr)
          qed
        qed
      next
        case False
        then consider e where "l = Inl e" | "l = Inr Unknown" | "l = Inr Pending"
          by (metis iris_lookup.exhaust sum.exhaust)
        then show ?thesis
        proof cases
          case 1
          show ?thesis unfolding 1 sum.case by (rule triple_conseq [OF rest]) auto
        next
          case 2
          show ?thesis unfolding 2 sum.case iris_lookup.case by (rule triple_conseq [OF rest]) auto
        next
          case 3
          show ?thesis unfolding 3 sum.case iris_lookup.case by (rule triple_conseq [OF rest]) auto
        qed
      qed
    qed
qed

end

end
