(* ===== verification/CctpRelaySteps.thy ===== *)
theory CctpRelaySteps
  imports CctpRelayInv
begin

text \<open>
  The relay's jobs and requests as steps of the whole service: each keeps \<^const>\<open>svc_inv\<close>, each job
  touches the record of its own burn only, and what has been settled for good stays so.
\<close>

section \<open>Jobs\<close>

text \<open>What never changes again: an arrived transfer stays arrived, one the relay refused stays refused.\<close>

definition sealed :: "relay_record \<Rightarrow> relay_record \<Rightarrow> bool" where
  "sealed r q \<longleftrightarrow>
     (state r = Arrived \<longrightarrow> state q = Arrived \<and> (truthy (mintHash r) \<longrightarrow> q = r))
     \<and> (state r = Failed \<and> retryAt r = None \<and> \<not> retryable r \<longrightarrow> q = r)"

lemma sealed_refl [simp]: "sealed r r"
  by (simp add: sealed_def)

lemma sealed_trans: "sealed a b \<Longrightarrow> sealed b c \<Longrightarrow> sealed a c"
  unfolding sealed_def by (metis (no_types))

lemma sealed_open: "rec_inv r \<Longrightarrow> \<not> isSettled r \<or> isRetrying r \<Longrightarrow> sealed r q"
  by (auto simp: sealed_def isSettled_def isRetrying_def)

lemma sealed_arrived: "state r = Arrived \<Longrightarrow> \<not> truthy (mintHash r) \<Longrightarrow> state q = Arrived \<Longrightarrow> sealed r q"
  by (simp add: sealed_def)

context relay_store begin

lemma resume_update_ok:
  assumes h: "burnHash r = h"
  shows "work_ok s0 h (\<lambda>q. q = r \<and> rec_inv r \<and> isRetrying r) (resume_update ops env cfg r)"
  unfolding work_ok_def resume_update_def h
proof (rule triple_bind)
  show "triple (at_rec ops ok s0 h (\<lambda>q. q = r \<and> rec_inv r \<and> isRetrying r))
     (update_record ops env h (\<lambda>q. q\<lparr>state := (if truthy (attestation r) then Confirmed else Sent),
         failure := None, failureCode := None, retryAt := None, retryable := False\<rparr>))
     (\<lambda>_. at_rec ops ok s0 h (\<lambda>q. rec_inv q \<and> \<not> isSettled q)) (at_rec ops ok s0 h (\<lambda>r. rec_inv r \<and> state r \<noteq> Arrived))"
    by (rule triple_conseq [OF triple_update [where \<psi> = "\<lambda>q. rec_inv q \<and> \<not> isSettled q"]])
      (auto simp: rec_inv_def isSettled_def elim: at_rec_mono)
  show "triple (at_rec ops ok s0 h (\<lambda>q. rec_inv q \<and> \<not> isSettled q)) (run_job ops env cfg h)
     (\<lambda>j. at_rec ops ok s0 h (after_work j)) (at_rec ops ok s0 h (\<lambda>r. rec_inv r \<and> state r \<noteq> Arrived))"
    using run_job_ok [unfolded work_ok_def] .
qed

lemma resume_gas_ok:
  assumes h: "burnHash r = h"
  shows "work_ok s0 h (\<lambda>q. q = r \<and> rec_inv r \<and> isRetrying r) (resume_gas ops env cfg r)"
  unfolding work_ok_def resume_gas_def
  by (rule triple_seq [OF triple_can_pay], rule triple_if,
      rule resume_update_ok [OF h, unfolded work_ok_def], rule triple_then_stop, unfold h, rule triple_transient)
    (auto simp: isRetrying_def)

lemma resumeFailed_ok:
  assumes h: "burnHash r = h"
  shows "work_ok s0 h (\<lambda>q. q = r \<and> rec_inv r \<and> isRetrying r) (resumeFailed ops env cfg r)"
  using resume_update_ok [OF h]
  by (auto simp: resumeFailed_def work_ok_def after_work_def job_match_def intro!: triple_return elim!: at_rec_mono)

text \<open>A search changes an arrived record only by filling in a hash it did not have.\<close>

definition searched :: "relay_record \<Rightarrow> relay_record \<Rightarrow> bool" where
  "searched r q \<longleftrightarrow> rec_inv q \<and> state q = Arrived \<and> sealed r q"

lemma rec_inv_arrived:
  "state r = Arrived \<Longrightarrow> rec_inv r \<longleftrightarrow> \<not> retryable r \<and> (retryAt r \<noteq> None \<longrightarrow> \<not> truthy (mintHash r))
     \<and> (truthy (attestation r) \<longrightarrow> truthy (rNonce r) \<and> truthy (rMessage r))"
  by (auto simp: rec_inv_def isSettled_def)

lemma lookup_ok:
  assumes h: "burnHash r = h"
  shows "triple (at_rec ops ok s0 h (\<lambda>q. q = r \<and> rec_inv r \<and> state r = Arrived \<and> retryAt r \<noteq> None))
     (lookupMintAgain ops env cfg r) (\<lambda>_. at_rec ops ok s0 h (searched r)) E"
proof -
  let ?P = "at_rec ops ok s0 h (\<lambda>q. q = r \<and> rec_inv r \<and> state r = Arrived \<and> retryAt r \<noteq> None)"
  have find: "triple ?P (if truthy (rNonce r) then findMintTx env cfg (the (rNonce r)) else eff_return None) (\<lambda>_. ?P) E"
    by (intro triple_if triple_findMintTx triple_return)
  have unhashed: "\<not> truthy (mintHash r)" if "rec_inv r" "state r = Arrived" "retryAt r \<noteq> None"
    using that by (simp add: rec_inv_arrived)
  have keep: "searched r (r\<lparr>attempts := n, retryAt := at, updatedAt := t\<rparr>)"
    if "rec_inv r" "state r = Arrived" "retryAt r \<noteq> None" for n at t
    using that unhashed [OF that] by (simp add: searched_def sealed_arrived rec_inv_arrived)
  have link: "searched r (r\<lparr>mintHash := x, mintedBy := y, retryAt := None, attempts := None, updatedAt := t\<rparr>)"
    if "rec_inv r" "state r = Arrived" "retryAt r \<noteq> None" for x y t
    using that unhashed [OF that] by (simp add: searched_def sealed_arrived rec_inv_arrived)
  have found: "triple ?P (eff_bind (update_record ops env h (\<lambda>q. q\<lparr>mintHash := x,
             mintedBy := y, retryAt := None, attempts := None\<rparr>)) (\<lambda>_. eff_return ())) (\<lambda>_. at_rec ops ok s0 h (searched r)) E" for x y
    by (rule triple_update_unit) (use link in force)
  have again: "triple ?P (eff_bind (if more then eff_bind (ask (e_now env)) (\<lambda>t. eff_return (Some (t + d))) else eff_return None) (\<lambda>at.
         eff_bind (update_record ops env h (\<lambda>q. q\<lparr>attempts := n, retryAt := at\<rparr>)) (\<lambda>_. eff_return ())))
       (\<lambda>_. at_rec ops ok s0 h (searched r)) E" for more d n
    by (rule triple_seq, intro triple_if triple_seq triple_ask triple_return, assumption, assumption, rule triple_update_unit)
      (use keep in force)
  show ?thesis
    unfolding lookupMintAgain_def h Let_def
    by (rule triple_seq [OF find], rule triple_option, rule again, rule found)
qed

lemma searching_ok:
  assumes h: "burnHash r = h"
  shows "work_ok s0 h (\<lambda>q. q = r \<and> rec_inv r \<and> state r = Arrived \<and> retryAt r \<noteq> None)
     (eff_bind (lookupMintAgain ops env cfg r) (\<lambda>_. eff_return None))"
  unfolding work_ok_def
  by (rule triple_bind [OF lookup_ok [OF h]], rule triple_return)
    (auto simp: searched_def after_work_def isSettled_def elim!: at_rec_mono)

lemma guard_job_triple:
  assumes "work_ok s0 h \<phi> work"
  shows "triple (at_rec ops ok s0 h \<phi>) (guard_job ops env h work) (\<lambda>j. at_rec ops ok s0 h (after_work j)) (\<lambda>_. False)"
  unfolding guard_job_def
proof (rule triple_catch [OF assms [unfolded work_ok_def]])
  fix e :: relay_exn
  let ?\<phi> = "\<lambda>r. rec_inv r \<and> state r \<noteq> Arrived"
  show "triple (at_rec ops ok s0 h ?\<phi>) (eff_bind (get_record ops h) (\<lambda>current.
       case current of
         Some r \<Rightarrow> if state r \<noteq> Arrived
           then eff_bind (transient ops env h Unexpected ''the relay hit an unexpected error'') (\<lambda>_. eff_return None)
           else eff_return None
       | None \<Rightarrow> eff_return None)) (\<lambda>j. at_rec ops ok s0 h (after_work j)) (\<lambda>_. False)"
  proof (rule triple_bind, rule triple_get)
    fix x
    let ?P = "\<lambda>s. \<exists>r. x = Some r \<and> ?\<phi> r \<and> at_rec ops ok s0 h (\<lambda>q. q = r \<and> ?\<phi> r) s"
    show "triple ?P (case x of
         Some r \<Rightarrow> if state r \<noteq> Arrived
           then eff_bind (transient ops env h Unexpected ''the relay hit an unexpected error'') (\<lambda>_. eff_return None)
           else eff_return None
       | None \<Rightarrow> eff_return None) (\<lambda>j. at_rec ops ok s0 h (after_work j)) (\<lambda>_. False)"
    proof (cases "\<exists>r. x = Some r \<and> ?\<phi> r")
      case True
      then obtain r where x: "x = Some r" "?\<phi> r" by blast
      then have prog: "(if state r \<noteq> Arrived
           then eff_bind (transient ops env h Unexpected ''the relay hit an unexpected error'') (\<lambda>_. eff_return None)
           else eff_return None) = eff_bind (transient ops env h Unexpected ''the relay hit an unexpected error'') (\<lambda>_. eff_return None)"
        by simp
      show ?thesis
        unfolding x(1) option.case prog
        by (rule triple_conseq [OF triple_then_stop [OF triple_transient [where \<phi> = ?\<phi>]]])
          (auto elim: at_rec_mono)
    qed (auto simp: triple_def)
  qed
qed

text \<open>A finished step, in one fact: only the record and the job of \<open>h\<close> have moved, and they agree.\<close>

lemma finish_job_spec:
  assumes "work_ok s h \<phi> work" "ok (db s)" "st_get ops (db s) h = Some r" "\<phi> r"
  obtains s' j q where "finish_job ops env h work s = set_job h j s'" "ok (db s')" "jobs s' = jobs s"
    "\<forall>g. g \<noteq> h \<longrightarrow> st_get ops (db s') g = st_get ops (db s) g" "st_get ops (db s') h = Some q" "after_work j q"
    "guard_job ops env h work s = (s', Inr j)"
proof -
  have "at_rec ops ok s h \<phi> s" using assms by (auto simp: at_rec_def)
  moreover obtain s' x where g: "guard_job ops env h work s = (s', x)" by fastforce
  ultimately obtain j where j: "x = Inr j" "at_rec ops ok s h (after_work j) s'"
    using guard_job_triple [OF assms(1)] by (cases x) (auto dest: tripleD tripleD_throw)
  with g that show ?thesis by (auto simp: finish_job_def at_rec_def)
qed

end

lemma js_get_set_job: "js_get (jobs (set_job h j s)) g = (if g = h then j else js_get (jobs s) g)"
  by (cases j) (simp_all add: set_job_def jsmap_simps)

lemma js_ok_set_job: "js_ok (jobs s) \<Longrightarrow> js_ok (jobs (set_job h j s))"
  by (cases j) (auto simp: set_job_def)

lemma db_set_job [simp]: "db (set_job h j s) = db s"
  by (simp add: set_job_def)

context relay_store begin

lemma burn_ok_other: "g \<noteq> h \<Longrightarrow> burn_ok (X - {h}) g rec j \<longleftrightarrow> burn_ok X g rec j"
  by (simp add: burn_ok_def split: option.split)

lemma finish_job_inv:
  assumes inv: "svc_inv ops ok X s" and work: "work_ok s h \<phi> work" and r: "st_get ops (db s) h = Some r" "\<phi> r"
  shows "svc_inv ops ok (X - {h}) (finish_job ops env h work s)"
proof -
  from inv have ok: "ok (db s)" "js_ok (jobs s)" and b: "\<And>g. burn_ok X g (st_get ops (db s) g) (js_get (jobs s) g)"
    by (auto simp: svc_inv_def)
  obtain s' j q where f: "finish_job ops env h work s = set_job h j s'" "ok (db s')"
    "jobs s' = jobs s" "\<forall>g. g \<noteq> h \<longrightarrow> st_get ops (db s') g = st_get ops (db s) g" "st_get ops (db s') h = Some q" "after_work j q"
    by (rule finish_job_spec [OF work ok(1) r, of env]) (rule that)
  have "burn_ok (X - {h}) g (st_get ops (db s') g) (js_get (jobs (set_job h j s')) g)" for g
  proof (cases "g = h")
    case True
    with f(5,6) show ?thesis by (auto simp: js_get_set_job burn_ok_def after_work_def split: option.splits)
  next
    case False
    with f b [of g] show ?thesis by (simp add: js_get_set_job burn_ok_other)
  qed
  with f ok show ?thesis by (simp add: svc_inv_def js_ok_set_job)
qed

lemma finish_job_other:
  assumes "ok (db s)" "work_ok s h \<phi> work" "st_get ops (db s) h = Some r" "\<phi> r" "g \<noteq> h"
  shows "st_get ops (db (finish_job ops env h work s)) g = st_get ops (db s) g"
    and "js_get (jobs (finish_job ops env h work s)) g = js_get (jobs s) g"
proof -
  obtain s' j q where f: "finish_job ops env h work s = set_job h j s'"
    "jobs s' = jobs s" "\<forall>g. g \<noteq> h \<longrightarrow> st_get ops (db s') g = st_get ops (db s) g"
    by (rule finish_job_spec [OF assms(2,1,3,4), of env]) (rule that)
  with assms(5) show "st_get ops (db (finish_job ops env h work s)) g = st_get ops (db s) g"
    "js_get (jobs (finish_job ops env h work s)) g = js_get (jobs s) g"
    by (simp_all add: js_get_set_job)
qed

lemma finish_job_sealed:
  assumes "ok (db s)" "work_ok s h \<phi> work" "st_get ops (db s) h = Some r" "\<phi> r"
    and "rec_inv r" "\<not> isSettled r \<or> isRetrying r"
  shows "\<exists>q. st_get ops (db (finish_job ops env h work s)) h = Some q \<and> sealed r q"
proof -
  obtain s' j q where "finish_job ops env h work s = set_job h j s'" "st_get ops (db s') h = Some q"
    by (rule finish_job_spec [OF assms(2,1,3,4), of env]) (rule that)
  then show ?thesis using sealed_open [OF assms(5,6)] by simp
qed

lemma finish_search_sealed:
  assumes "ok (db s)" "st_get ops (db s) h = Some r" "rec_inv r" "state r = Arrived" "retryAt r \<noteq> None"
  shows "\<exists>q. st_get ops (db (finish_job ops env h (eff_bind (lookupMintAgain ops env cfg r) (\<lambda>_. eff_return None)) s)) h = Some q
    \<and> sealed r q"
proof -
  have h: "burnHash r = h" using get_key assms by blast
  have "at_rec ops ok s h (\<lambda>q. q = r \<and> rec_inv r \<and> state r = Arrived \<and> retryAt r \<noteq> None) s"
    using assms by (simp add: at_rec_def)
  moreover obtain s' x where m: "lookupMintAgain ops env cfg r s = (s', x)" by fastforce
  ultimately have "x = Inr ()" "at_rec ops ok s h (searched r) s'"
    using lookup_ok [OF h, of s env cfg "\<lambda>_. False"] by (cases x; auto dest: tripleD tripleD_throw)+
  with m show ?thesis
    by (auto simp: finish_job_def guard_job_def eff_catch_def eff_bind_def eff_return_def at_rec_def searched_def)
qed

text \<open>What a step may do to the records, and to the number of jobs.\<close>

definition moves :: "'s relay_svc \<Rightarrow> 's relay_svc \<Rightarrow> bool" where
  "moves s s' \<longleftrightarrow> (\<forall>g r. st_get ops (db s) g = Some r \<longrightarrow> (\<exists>q. st_get ops (db s') g = Some q \<and> sealed r q))"

definition good :: "string set \<Rightarrow> nat \<Rightarrow> 's relay_svc \<Rightarrow> 's relay_svc \<Rightarrow> bool" where
  "good X n s s' \<longleftrightarrow> svc_inv ops ok X s' \<and> moves s s' \<and> length (jobs s') \<le> max (length (jobs s)) n"

lemma moves_refl [simp]: "moves s s"
  by (simp add: moves_def)

lemma moves_trans: "moves a b \<Longrightarrow> moves b c \<Longrightarrow> moves a c"
  unfolding moves_def by (meson sealed_trans)

lemma good_trans: "good X n a b \<Longrightarrow> good Y n b c \<Longrightarrow> good Y n a c"
  unfolding good_def using moves_trans [of a b c] by auto

lemma good_refl: "svc_inv ops ok X s \<Longrightarrow> good X n s s"
  by (simp add: good_def)

lemma good_mono: "good X n s s' \<Longrightarrow> n \<le> m \<Longrightarrow> good X m s s'"
  by (auto simp: good_def)

lemma burn_ok_mono: "burn_ok X h rec j \<Longrightarrow> X \<subseteq> Y \<Longrightarrow> burn_ok Y h rec j"
  by (auto simp: burn_ok_def split: option.splits)

lemma svc_inv_mono: "svc_inv ops ok X s \<Longrightarrow> X \<subseteq> Y \<Longrightarrow> svc_inv ops ok Y s"
  unfolding svc_inv_def using burn_ok_mono [of X _ _ _ Y] by blast

lemma finish_job_moves:
  assumes "ok (db s)" "work_ok s h \<phi> work" "st_get ops (db s) h = Some r" "\<phi> r"
    and "\<exists>q. st_get ops (db (finish_job ops env h work s)) h = Some q \<and> sealed r q"
  shows "moves s (finish_job ops env h work s)"
  unfolding moves_def
proof (intro allI impI)
  fix g r' assume g: "st_get ops (db s) g = Some r'"
  show "\<exists>q. st_get ops (db (finish_job ops env h work s)) g = Some q \<and> sealed r' q"
    using g assms(3,5) finish_job_other(1) [OF assms(1-4), of g env] by (cases "g = h") auto
qed

lemma finish_job_size:
  assumes "ok (db s)" "js_ok (jobs s)" "work_ok s h \<phi> work" "st_get ops (db s) h = Some r" "\<phi> r"
  shows "length (jobs (finish_job ops env h work s)) \<le> (if js_has (jobs s) h then length (jobs s) else Suc (length (jobs s)))"
proof -
  obtain s' j where f: "finish_job ops env h work s = set_job h j s'" "jobs s' = jobs s"
    by (rule finish_job_spec [OF assms(3,1,4,5), of env]) (rule that)
  have "length (js_delete h (jobs s)) \<le> length (jobs s)" by (simp add: js_delete_filter)
  with f show ?thesis by (cases j) (auto simp: set_job_def js_size_set)
qed

text \<open>The record a job works on is the one it was started with.\<close>

lemma job_work_ok:
  assumes "burn_ok X h (Some r) (Some j)" "burnHash r = h"
  obtains \<phi> where "work_ok s h \<phi> (job_work ops env cfg h j)" "\<phi> r"
proof (cases j)
  case (Polling q b d)
  with assms have "q = r" "rec_inv r" "\<not> isSettled r" by (auto simp: burn_ok_def job_match_def)
  with poll_turn_ok [OF assms(2)] that Polling show ?thesis by (force simp: job_work_def)
next
  case Minting
  with assms have "mintable r" by (auto simp: burn_ok_def job_match_def mintable_def)
  moreover have "work_ok s h mintable (eff_bind (mint ops env cfg h) (\<lambda>_. eff_return None))"
    unfolding work_ok_def
    by (rule triple_conseq [OF triple_then_stop [OF triple_mint]]) (auto elim!: at_rec_mono dest: mintable_open)
  ultimately show ?thesis using that Minting by (simp add: job_work_def)
next
  case (ResumingGas q)
  with assms have "q = r" "rec_inv r" "isRetrying r" by (auto simp: burn_ok_def job_match_def)
  with resume_gas_ok [OF assms(2)] that ResumingGas show ?thesis by (force simp: job_work_def)
next
  case (Searching q)
  with assms have "q = r" "rec_inv r" "state r = Arrived" "retryAt r \<noteq> None" by (auto simp: burn_ok_def job_match_def)
  with searching_ok [OF assms(2)] that Searching show ?thesis by (force simp: job_work_def)
qed

lemma job_step_good:
  assumes "svc_inv ops ok X s"
  shows "good X n s (job_step ops env cfg h s)"
proof (cases "js_get (jobs s) h")
  case None
  with assms show ?thesis by (simp add: job_step_def good_refl)
next
  case (Some j)
  from assms have ok: "ok (db s)" "js_ok (jobs s)" and b: "burn_ok X h (st_get ops (db s) h) (js_get (jobs s) h)"
    by (auto simp: svc_inv_def)
  from b Some obtain r where r: "st_get ops (db s) h = Some r" by (auto simp: burn_ok_def split: option.splits)
  with b Some have b': "burn_ok X h (Some r) (Some j)" by simp
  have h: "burnHash r = h" using get_key ok r by blast
  obtain \<phi> where w: "work_ok s h \<phi> (job_work ops env cfg h j)" "\<phi> r"
    by (rule job_work_ok [OF b' h])
  have inv: "svc_inv ops ok X (finish_job ops env h (job_work ops env cfg h j) s)"
    by (rule svc_inv_mono [OF finish_job_inv [OF assms w(1) r w(2)]]) auto
  have "\<exists>q. st_get ops (db (finish_job ops env h (job_work ops env cfg h j) s)) h = Some q \<and> sealed r q"
  proof (cases "\<exists>q. j = Searching q")
    case True
    with b' have "j = Searching r" "rec_inv r" "state r = Arrived" "retryAt r \<noteq> None"
      by (auto simp: burn_ok_def job_match_def)
    with finish_search_sealed [OF ok(1) r] show ?thesis by (simp add: job_work_def)
  next
    case False
    with b' have "rec_inv r" "\<not> isSettled r \<or> isRetrying r"
      by (auto simp: burn_ok_def job_match_def split: job.splits)
    with finish_job_sealed [OF ok(1) w(1) r w(2)] show ?thesis by blast
  qed
  with finish_job_moves [OF ok(1) w(1) r w(2)] inv finish_job_size [OF ok w(1) r w(2), of env] Some
  show ?thesis by (simp add: job_step_def good_def js_has_def)
qed

section \<open>Requests\<close>

lemma svc_invD:
  assumes "svc_inv ops ok X s"
  shows "ok (db s)" "js_ok (jobs s)" "burn_ok X h (st_get ops (db s) h) (js_get (jobs s) h)"
  using assms by (auto simp: svc_inv_def)

lemma no_jobD: "\<not> js_has m h \<Longrightarrow> js_get m h = None"
  by (simp add: js_has_def)

lemma start_good:
  assumes inv: "svc_inv ops ok X s" and r: "st_get ops (db s) h = Some r" "\<not> isSettled r" and x: "h \<in> X"
  shows "svc_inv ops ok (X - {h}) (start ops env cfg h s) \<and> moves s (start ops env cfg h s)
    \<and> length (jobs (start ops env cfg h s)) \<le> Suc (length (jobs s))"
proof (cases "js_has (jobs s) h")
  case True
  then have "start ops env cfg h s = s" by (simp add: start_def launch_def)
  moreover have "burn_ok (X - {h}) g (st_get ops (db s) g) (js_get (jobs s) g)" for g
    using svc_invD(3) [OF inv, of g] True r
    by (cases "g = h") (auto simp: burn_ok_other js_has_def burn_ok_def split: option.splits)
  ultimately show ?thesis using inv by (simp add: svc_inv_def)
next
  case False
  have ri: "rec_inv r" using svc_invD(3) [OF inv, of h] r by (auto simp: burn_ok_def split: option.splits)
  then have phi: "rec_inv r \<and> \<not> isSettled r" using r by simp
  note ok = svc_invD(1,2) [OF inv]
  note work = run_job_ok [of s h env cfg]
  have eq: "start ops env cfg h s = finish_job ops env h (run_job ops env cfg h) s"
    using False by (simp add: start_def launch_def)
  have "moves s (finish_job ops env h (run_job ops env cfg h) s)"
    by (rule finish_job_moves [OF ok(1) work r(1) phi])
      (use finish_job_sealed [OF ok(1) work r(1) phi ri] r in blast)
  then show ?thesis
    using finish_job_inv [OF inv work r(1) phi] finish_job_size [OF ok work r(1) phi, of env] False eq by simp
qed

lemma calls_irrelevant [simp]:
  "svc_inv ops ok X (s\<lparr>calls := n\<rparr>) \<longleftrightarrow> svc_inv ops ok X s" "moves (s\<lparr>calls := n\<rparr>) s' \<longleftrightarrow> moves s s'"
  "moves s (s'\<lparr>calls := n\<rparr>) \<longleftrightarrow> moves s s'" "good X m s (s'\<lparr>calls := n\<rparr>) \<longleftrightarrow> good X m s s'"
  "good X m (s\<lparr>calls := n\<rparr>) s' \<longleftrightarrow> good X m s s'"
  by (simp_all add: svc_inv_def moves_def good_def)

lemma launch_good:
  assumes inv: "svc_inv ops ok X s" and r: "st_get ops (db s) h = Some r" "\<phi> r"
    and work: "work_ok s h \<phi> work" and none: "\<not> js_has (jobs s) h" and room: "length (jobs s) < n"
    and seal: "\<exists>q. st_get ops (db (finish_job ops env h work s)) h = Some q \<and> sealed r q"
  shows "good X n s (fst (launch ops env h work s))"
proof -
  note ok = svc_invD(1,2) [OF inv]
  have "svc_inv ops ok X (finish_job ops env h work s)"
    by (rule svc_inv_mono [OF finish_job_inv [OF inv work r]]) auto
  with finish_job_moves [OF ok(1) work r seal] finish_job_size [OF ok work r, of env] none room
  show ?thesis by (simp add: launch_def good_def)
qed

lemma launch_search_good:
  assumes inv: "svc_inv ops ok X s" and r: "st_get ops (db s) h = Some r" "state r = Arrived" "retryAt r \<noteq> None"
    and none: "\<not> js_has (jobs s) h" and room: "length (jobs s) < n"
  shows "good X n s (fst (launch ops env h (searching_job ops env cfg r) s))"
proof -
  have ri: "rec_inv r" using svc_invD(3) [OF inv, of h] r by (auto simp: burn_ok_def split: option.splits)
  have h: "burnHash r = h" using get_key svc_invD(1) [OF inv] r by blast
  let ?\<phi> = "\<lambda>q. q = r \<and> rec_inv r \<and> state r = Arrived \<and> retryAt r \<noteq> None"
  have phi: "?\<phi> r" using ri r by simp
  have work: "work_ok s h ?\<phi> (searching_job ops env cfg r)"
    using searching_ok [OF h, of s env cfg]
    by (auto simp: searching_job_def work_ok_def after_work_def job_match_def intro!: triple_return elim!: at_rec_mono)
  have seal: "\<exists>q. st_get ops (db (finish_job ops env h (searching_job ops env cfg r) s)) h = Some q \<and> sealed r q"
  proof (cases "truthy (rNonce r)")
    case True
    with r show ?thesis
      by (simp add: searching_job_def finish_job_def guard_job_def eff_catch_def eff_return_def)
  next
    case False
    with finish_search_sealed [OF svc_invD(1) [OF inv] r(1) ri r(2,3)] show ?thesis by (simp add: searching_job_def)
  qed
  show ?thesis by (rule launch_good [OF inv r(1) phi work none room seal])
qed

lemma launch_resume_good:
  assumes inv: "svc_inv ops ok X s" and r: "st_get ops (db s) h = Some r" "isRetrying r"
    and none: "\<not> js_has (jobs s) h" and room: "length (jobs s) < n"
  shows "good X n s (fst (launch ops env h (resumeFailed ops env cfg r) s))"
proof -
  have ri: "rec_inv r" using svc_invD(3) [OF inv, of h] r by (auto simp: burn_ok_def split: option.splits)
  have h: "burnHash r = h" using get_key svc_invD(1) [OF inv] r by blast
  let ?\<phi> = "\<lambda>q. q = r \<and> rec_inv r \<and> isRetrying r"
  have phi: "?\<phi> r" using ri r by simp
  note work = resumeFailed_ok [OF h, of s env cfg]
  have seal: "\<exists>q. st_get ops (db (finish_job ops env h (resumeFailed ops env cfg r) s)) h = Some q \<and> sealed r q"
    by (rule finish_job_sealed [OF svc_invD(1) [OF inv] work r(1) phi ri]) (simp add: r)
  show ?thesis by (rule launch_good [OF inv r(1) phi work none room seal])
qed

lemma retry_good:
  assumes inv: "svc_inv ops ok X s"
  shows "good X (maxOpen cfg) s (fst (retry ops env cfg h s))"
proof (cases "st_get ops (db s) h")
  case None
  with inv show ?thesis by (simp add: retry_def good_refl)
next
  case (Some r)
  show ?thesis
  proof (cases "retryAt r")
    case None
    with inv Some show ?thesis by (simp add: retry_def good_refl)
  next
    case at: (Some at)
    define s1 where "s1 = s\<lparr>calls := Suc (calls s)\<rparr>"
    have inv1: "svc_inv ops ok X s1" and r1: "st_get ops (db s1) h = Some r"
      using inv Some by (simp_all add: s1_def)
    have to1: "good X (maxOpen cfg) s s' \<longleftrightarrow> good X (maxOpen cfg) s1 s'" for s' by (simp add: s1_def)
    have eq: "fst (retry ops env cfg h s) =
       (if at > e_now env (calls s) then s1
        else if js_has (jobs s1) h \<or> length (jobs s1) \<ge> maxOpen cfg then s1
        else if state r = Arrived then fst (launch ops env h (searching_job ops env cfg r) s1)
        else if \<not> isRetrying r then s1
        else fst (launch ops env h (resumeFailed ops env cfg r) s1))"
      using Some at by (simp add: retry_def Let_def s1_def)
    consider "fst (retry ops env cfg h s) = s1"
      | "\<not> js_has (jobs s1) h" "length (jobs s1) < maxOpen cfg" "state r = Arrived"
        "fst (retry ops env cfg h s) = fst (launch ops env h (searching_job ops env cfg r) s1)"
      | "\<not> js_has (jobs s1) h" "length (jobs s1) < maxOpen cfg" "isRetrying r"
        "fst (retry ops env cfg h s) = fst (launch ops env h (resumeFailed ops env cfg r) s1)"
      unfolding eq
      by (cases "at > e_now env (calls s)"; cases "js_has (jobs s1) h \<or> length (jobs s1) \<ge> maxOpen cfg";
          cases "state r = Arrived"; cases "isRetrying r") auto
    then show ?thesis
    proof cases
      case 1
      with inv1 show ?thesis by (simp add: to1 good_refl)
    next
      case 2
      with launch_search_good [OF inv1 r1] at show ?thesis by (simp add: to1)
    next
      case 3
      with launch_resume_good [OF inv1 r1] show ?thesis by (simp add: to1)
    qed
  qed
qed

lemma relay_status_good: "svc_inv ops ok X s \<Longrightarrow> good X (maxOpen cfg) s (fst (relay_status ops env cfg raw s))"
  by (simp add: relay_status_def Let_def retry_good good_refl split: option.split)

lemma retry_each_good:
  "svc_inv ops ok X s \<Longrightarrow> good X (maxOpen cfg) s (fst (fold (retry_each ops env cfg) rs (s, n)))"
proof (induction rs arbitrary: s n)
  case (Cons r rs)
  obtain s' b where r: "retry ops env cfg (burnHash r) s = (s', b)" by fastforce
  with retry_good [OF Cons.prems, of cfg env "burnHash r"] have g: "good X (maxOpen cfg) s s'" by simp
  then have "svc_inv ops ok X s'" by (simp add: good_def)
  from good_trans [OF g Cons.IH [OF this]] show ?case by (simp add: retry_each_def r)
qed (simp add: good_refl)

lemma retryDue_good: "svc_inv ops ok X s \<Longrightarrow> good X (maxOpen cfg) s (fst (retryDue ops env cfg s))"
  using retry_each_good [of X "s\<lparr>calls := Suc (calls s)\<rparr>"] by (simp add: retryDue_def Let_def)

lemma relay_info_good: "svc_inv ops ok X s \<Longrightarrow> good X n s (fst (relay_info ops env cfg s))"
  by (auto simp: relay_info_def Let_def good_def svc_inv_def moves_def split: option.splits sum.splits)

lemma fresh_record_inv: "rec_inv (fresh_record h t) \<and> \<not> isSettled (fresh_record h t)"
  by (simp add: rec_inv_def isSettled_def fresh_record_def)

lemma restart_record_inv: "rec_inv r \<Longrightarrow> rec_inv (restart_record r t) \<and> \<not> isSettled (restart_record r t)"
  by (simp add: rec_inv_def isSettled_def restart_record_def)

lemma burnHash_new: "burnHash (fresh_record h t) = h" "burnHash (restart_record r t) = burnHash r"
  by (simp_all add: fresh_record_def restart_record_def)

text \<open>Recording a new transfer, or starting a stopped one over.\<close>

lemma put_start_good:
  assumes inv: "svc_inv ops ok {} s" and rec: "rec_inv r" "\<not> isSettled r" "burnHash r = h"
    and old: "\<And>q. st_get ops (db s) h = Some q \<Longrightarrow> state q = Failed \<and> retryAt q = None \<and> retryable q"
    and room: "length (jobs s) < n"
  shows "good {} n s (start ops env cfg h (s\<lparr>db := st_put ops r (db s)\<rparr>))"
proof -
  let ?s = "s\<lparr>db := st_put ops r (db s)\<rparr>"
  note ok = svc_invD(1,2) [OF inv]
  have nojob: "js_get (jobs s) h = None"
    using svc_invD(3) [OF inv, of h] old
    by (auto simp: burn_ok_def job_match_def isSettled_def isRetrying_def split: option.splits job.splits)
  have "burn_ok {h} g (st_get ops (db ?s) g) (js_get (jobs ?s) g)" for g
    using svc_invD(3) [OF inv, of g] nojob rec burn_ok_mono [of "{}" g _ _ "{h}"]
    by (cases "g = h") (auto simp: get_put [OF ok(1)] burn_ok_def)
  then have inv': "svc_inv ops ok {h} ?s" using ok by (simp add: svc_inv_def ok_put)
  have r: "st_get ops (db ?s) h = Some r" using rec ok by (simp add: get_put)
  have mv: "moves s ?s"
    unfolding moves_def
  proof (intro allI impI)
    fix g q assume "st_get ops (db s) g = Some q"
    then show "\<exists>q'. st_get ops (db ?s) g = Some q' \<and> sealed q q'"
      using old ok rec by (cases "g = h") (auto simp: get_put sealed_def)
  qed
  from start_good [OF inv' r rec(2), of env cfg] moves_trans [OF mv] room show ?thesis
    by (auto simp: good_def)
qed

lemma request_good:
  assumes inv: "svc_inv ops ok {} s"
  shows "good {} (maxOpen cfg) s (fst (request ops env cfg raw s))"
proof (cases "normalizeBurnHash raw")
  case None
  with inv show ?thesis by (simp add: request_def good_refl)
next
  case (Some h)
  define s0 where "s0 = s\<lparr>calls := Suc (calls s)\<rparr>"
  define t where "t = e_now env (calls s)"
  have inv0: "svc_inv ops ok {} s0" using inv by (simp add: s0_def)
  have to0: "good {} (maxOpen cfg) s s' \<longleftrightarrow> good {} (maxOpen cfg) s0 s'" for s' by (simp add: s0_def)
  have db0: "db s0 = db s" by (simp add: s0_def)
  show ?thesis
  proof (cases "st_get ops (db s) h")
    case None
    have "good {} (maxOpen cfg) s0 (start ops env cfg h (s0\<lparr>db := st_put ops (fresh_record h t) (db s0)\<rparr>))"
      if "length (jobs s0) < maxOpen cfg"
      by (rule put_start_good [OF inv0 _ _ _ _ that]) (simp_all add: fresh_record_inv None db0 burnHash_new)
    with None Some inv0 show ?thesis
      by (simp add: request_def Let_def to0 good_refl flip: s0_def t_def)
  next
    case r: (Some r)
    have key: "burnHash r = h" using get_key svc_invD(1) [OF inv] r by blast
    have ri: "rec_inv r" using svc_invD(3) [OF inv, of h] r by (auto simp: burn_ok_def split: option.splits)
    consider "isRetrying r \<or> \<not> (state r = Failed \<and> retryable r)" "\<not> isSettled r"
      | "isRetrying r \<or> \<not> (state r = Failed \<and> retryable r)" "isSettled r"
      | "\<not> (isRetrying r \<or> \<not> (state r = Failed \<and> retryable r))" by blast
    then show ?thesis
    proof cases
      case 1
      have "js_has (jobs s0) h"
        using svc_invD(3) [OF inv, of h] r 1 by (auto simp: burn_ok_def js_has_def s0_def split: option.splits)
      then have "start ops env cfg h s0 = s0" by (simp add: start_def launch_def)
      with 1 r Some inv0 show ?thesis
        by (simp add: request_def Let_def to0 good_refl flip: s0_def t_def)
    next
      case 2
      with r Some retry_good [OF inv0] show ?thesis
        by (simp add: request_def Let_def to0 flip: s0_def t_def)
    next
      case 3
      then have old: "state r = Failed \<and> retryAt r = None \<and> retryable r" by (auto simp: isRetrying_def)
      have "good {} (maxOpen cfg) s0 (start ops env cfg h (s0\<lparr>db := st_put ops (restart_record r t) (db s0)\<rparr>))"
        if "length (jobs s0) < maxOpen cfg"
        by (rule put_start_good [OF inv0 _ _ _ _ that])
          (use ri key old r in \<open>simp_all add: restart_record_inv db0 burnHash_new\<close>)
      with 3 r Some inv0 show ?thesis
        by (simp add: request_def Let_def to0 good_refl flip: s0_def t_def)
    qed
  qed
qed

lemma relay_do_good: "svc_inv ops ok {} s \<Longrightarrow> good {} (maxOpen cfg) s (relay_do ops env cfg ev s)"
proof (cases ev)
  case (JobRuns h)
  then show "svc_inv ops ok {} s \<Longrightarrow> ?thesis" by (simp add: good_mono [OF job_step_good [where n = 0]])
qed (simp_all add: request_good relay_status_good retryDue_good relay_info_good)

lemma reaches_good: "reaches ops env cfg s s' \<Longrightarrow> svc_inv ops ok {} s \<Longrightarrow> good {} (maxOpen cfg) s s'"
proof (induction rule: reaches.induct)
  case (event s s' ev)
  then have g: "good {} (maxOpen cfg) s s'" by simp
  then have "svc_inv ops ok {} s'" by (simp add: good_def)
  from good_trans [OF g relay_do_good [OF this]] show ?case .
qed (simp add: good_refl)

text \<open>Starting up: every open record a previous process left gets a job.\<close>

lemma resume_fold:
  assumes "svc_inv ops ok (set (map burnHash rs)) s" "distinct (map burnHash rs)"
    "\<And>r. r \<in> set rs \<Longrightarrow> st_get ops (db s) (burnHash r) = Some r \<and> \<not> isSettled r"
  shows "svc_inv ops ok {} (fold (\<lambda>r. start ops env cfg (burnHash r)) rs s)
    \<and> moves s (fold (\<lambda>r. start ops env cfg (burnHash r)) rs s)
    \<and> length (jobs (fold (\<lambda>r. start ops env cfg (burnHash r)) rs s)) \<le> length (jobs s) + length rs"
  using assms
proof (induction rs arbitrary: s)
  case (Cons r rs)
  let ?s = "start ops env cfg (burnHash r) s"
  from Cons.prems(3) have r: "st_get ops (db s) (burnHash r) = Some r" "\<not> isSettled r" by simp_all
  have g: "svc_inv ops ok (set (map burnHash (r # rs)) - {burnHash r}) ?s" "moves s ?s"
    "length (jobs ?s) \<le> Suc (length (jobs s))"
    using start_good [OF Cons.prems(1) r] by simp_all
  have inv: "svc_inv ops ok (set (map burnHash rs)) ?s"
    by (rule svc_inv_mono [OF g(1)]) auto
  have phi: "rec_inv r \<and> \<not> isSettled r"
    using svc_invD(3) [OF Cons.prems(1), of "burnHash r"] r by (auto simp: burn_ok_def split: option.splits)
  have other: "st_get ops (db ?s) (burnHash q) = Some q \<and> \<not> isSettled q" if "q \<in> set rs" for q
  proof -
    from that Cons.prems(2) have "burnHash q \<noteq> burnHash r" by (metis distinct.simps(2) image_eqI list.map(2) list.set_map)
    with finish_job_other(1) [OF svc_invD(1) [OF Cons.prems(1)] run_job_ok r(1) phi]
    have "st_get ops (db ?s) (burnHash q) = st_get ops (db s) (burnHash q)"
      by (simp add: start_def launch_def)
    with Cons.prems(3) that show ?thesis by simp
  qed
  from Cons.IH [OF inv _ other] Cons.prems(2) g(2,3) moves_trans [OF g(2)] show ?case by auto
qed simp

lemma boot_good:
  assumes "ok d" "\<And>h r. st_get ops d h = Some r \<Longrightarrow> rec_inv r"
  shows "svc_inv ops ok {} (boot ops env cfg d)"
    and "\<And>h r. st_get ops d h = Some r \<Longrightarrow> \<exists>q. st_get ops (db (boot ops env cfg d)) h = Some q \<and> sealed r q"
    and "length (jobs (boot ops env cfg d)) \<le> length (st_listOpen ops d)"
proof -
  let ?s = "\<lparr>db = d, jobs = [], calls = 0, balanceCache = None, sends = []\<rparr> :: 's relay_svc"
  have "burn_ok (set (map burnHash (st_listOpen ops d))) h (st_get ops d h) None" for h
    using assms open_eq [OF assms(1)] get_key [OF assms(1), of h]
    by (auto simp: burn_ok_def split: option.split)
  then have inv: "svc_inv ops ok (set (map burnHash (st_listOpen ops d))) ?s"
    using assms(1) by (simp add: svc_inv_def)
  have *: "svc_inv ops ok {} (boot ops env cfg d) \<and> moves ?s (boot ops env cfg d)
     \<and> length (jobs (boot ops env cfg d)) \<le> length (jobs ?s) + length (st_listOpen ops d)"
    using resume_fold [OF inv, of env cfg] open_eq [OF assms(1)] open_sorted [OF assms(1)]
    by (simp add: boot_def resume_def Let_def)
  then show "svc_inv ops ok {} (boot ops env cfg d)"
    and "\<And>h r. st_get ops d h = Some r \<Longrightarrow> \<exists>q. st_get ops (db (boot ops env cfg d)) h = Some q \<and> sealed r q"
    and "length (jobs (boot ops env cfg d)) \<le> length (st_listOpen ops d)"
    by (auto simp: moves_def)
qed

end

end
