(* ===== verification/CctpRelayProps.thy ===== *)
theory CctpRelayProps
  imports CctpRelaySteps
begin

text \<open>
  What the CCTP relay promises, stated over the sqlite store it runs on (and any number of restarts,
  requests, polls, sweeps and job steps in any order): nothing is ever stuck, settled outcomes stay,
  the in-flight bound, the retry schedule and the guards before every broadcast.
\<close>

section \<open>Broadcasts\<close>

abbreviation logs :: "(string \<times> int) list \<Rightarrow> 's relay_svc \<Rightarrow> bool" where
  "logs L \<equiv> \<lambda>s. sends s = L"

lemma keeps_ask [intro]: "keeps (logs L) (ask f)"
  by (simp add: keeps_def ask_def)

lemma keeps_ask_try [intro]: "keeps (logs L) (ask_try f)"
  by (simp add: keeps_def ask_try_def)

lemma keeps_get [intro]: "keeps (logs L) (get_record ops h)"
  by (simp add: get_record_def keeps_gets)

lemma keeps_put [intro]: "keeps (logs L) (put_record ops r)"
  by (simp add: put_record_def keeps_def eff_modify_def)

lemma keeps_update [intro]: "keeps (logs L) (update_record ops env h patch)"
  unfolding update_record_def Let_def by (intro keeps_bind keeps_option keeps_get keeps_ask keeps_put keeps_return keeps_throw)

lemma keeps_fail [intro]: "keeps (logs L) (fail_record ops env h c r)"
  unfolding fail_record_def by (intro keeps_bind keeps_update keeps_return)

lemma keeps_transient [intro]: "keeps (logs L) (transient ops env h c r)"
  unfolding transient_def Let_def
  by (intro keeps_bind keeps_if keeps_get keeps_ask keeps_update keeps_fail keeps_return)

lemma keeps_arrived [intro]: "keeps (logs L) (arrived ops env h m b)"
  unfolding arrived_def by (intro keeps_bind keeps_if keeps_ask keeps_update keeps_return)

lemma keeps_findMintTx [intro]: "keeps (logs L) (findMintTx env cfg n)"
  unfolding findMintTx_def by (intro keeps_bind keeps_catch keeps_option keeps_if keeps_ask keeps_ask_try keeps_return)

lemma keeps_mintedElsewhere [intro]: "keeps (logs L) (mintedElsewhere ops env cfg h n)"
  unfolding mintedElsewhere_def by (intro keeps_bind keeps_findMintTx keeps_arrived)

lemma keeps_lookup [intro]: "keeps (logs L) (lookupMintAgain ops env cfg r)"
  unfolding lookupMintAgain_def Let_def
  by (intro keeps_bind keeps_option keeps_if keeps_findMintTx keeps_ask keeps_update keeps_return)

lemma keeps_cache [intro]: "keeps (logs L) (eff_modify (\<lambda>s. s\<lparr>balanceCache := c\<rparr>))"
  by (simp add: keeps_def eff_modify_def)

lemma keeps_warn [intro]: "keeps (logs L) (warnIfLow env)"
  unfolding warnIfLow_def by (intro keeps_bind keeps_catch keeps_ask keeps_ask_try keeps_cache keeps_return)

lemma keeps_can_pay [intro]: "keeps (logs L) (canPayForMint env)"
  unfolding canPayForMint_def by (intro keeps_bind keeps_catch keeps_ask keeps_ask_try keeps_cache keeps_return)

lemma keeps_await_receipt [intro]: "keeps (logs L) (await_receipt n env h)"
  by (induction n) (auto intro!: keeps_bind keeps_if keeps_ask_try keeps_return)

lemma keeps_settle [intro]: "keeps (logs L) (settle_mint ops env cfg h n m)"
  unfolding settle_mint_def awaitReceipt_def isNonceUsed_def
  by (intro keeps_bind keeps_if keeps_await_receipt keeps_arrived keeps_warn keeps_ask_try
      keeps_mintedElsewhere keeps_transient)

lemma keeps_run_job [intro]: "keeps (logs L) (run_job ops env cfg h)"
  unfolding run_job_def by (intro keeps_bind keeps_option keeps_if keeps_get keeps_ask keeps_return)

lemma keeps_resume_update [intro]: "keeps (logs L) (resume_update ops env cfg r)"
  unfolding resume_update_def by (intro keeps_bind keeps_update keeps_run_job)

lemma keeps_resume_gas [intro]: "keeps (logs L) (resume_gas ops env cfg r)"
  unfolding resume_gas_def
  by (intro keeps_bind keeps_if keeps_can_pay keeps_resume_update keeps_transient keeps_return)

lemma keeps_resumeFailed [intro]: "keeps (logs L) (resumeFailed ops env cfg r)"
  unfolding resumeFailed_def by (intro keeps_if keeps_resume_update keeps_return)

lemma keeps_searching [intro]: "keeps (logs L) (searching_job ops env cfg r)"
  unfolding searching_job_def by (intro keeps_bind keeps_if keeps_lookup keeps_return)

lemma keeps_iris:
  "keeps P a \<Longrightarrow> keeps P b \<Longrightarrow> (\<And>m t. keeps P (c m t)) \<Longrightarrow>
   keeps P (case l of Unknown \<Rightarrow> a | Pending \<Rightarrow> b | Complete m t \<Rightarrow> c m t)"
  by (cases l) auto

lemma keeps_poll [intro]: "keeps (logs L) (poll_turn ops env cfg r b d)"
  unfolding poll_turn_def Let_def
  by (intro keeps_bind keeps_ask keeps_sum keeps_iris keeps_if keeps_update keeps_fail keeps_transient keeps_return)

lemma keepsE: "keeps (logs L) m \<Longrightarrow> sends s = L \<Longrightarrow> sends (fst (m s)) = L"
  by (simp add: keeps_def)

lemma guard_job_sends: "sends (fst (guard_job ops env h work s)) = sends (fst (work s))"
proof -
  have "keeps (logs L) (eff_bind (get_record ops h) (\<lambda>current. case current of
         Some r \<Rightarrow> if state r \<noteq> Arrived
           then eff_bind (transient ops env h Unexpected ''the relay hit an unexpected error'') (\<lambda>_. eff_return None)
           else eff_return None
       | None \<Rightarrow> eff_return None))" for L
    by (intro keeps_bind keeps_option keeps_if keeps_get keeps_transient keeps_return)
  note same = keepsE [OF this refl]
  obtain s' x where w: "work s = (s', x)" by fastforce
  show ?thesis
    using same [of s'] by (cases x) (simp_all add: guard_job_def eff_catch_def w)
qed

lemma finish_job_sends: "sends (finish_job ops env h work s) = sends (fst (work s))"
  using guard_job_sends [of ops env h work s]
  by (auto simp: finish_job_def set_job_def split: prod.split sum.split)

lemma bind_ask: "eff_bind (ask f) g s = g (f (calls s)) (s\<lparr>calls := Suc (calls s)\<rparr>)"
  by (simp add: eff_bind_def ask_def)

lemma bind_ask_try: "eff_bind (ask_try f) g s =
    (case f (calls s) of Inl e \<Rightarrow> (s\<lparr>calls := Suc (calls s)\<rparr>, Inl e) | Inr x \<Rightarrow> g x (s\<lparr>calls := Suc (calls s)\<rparr>))"
  by (simp add: eff_bind_def ask_try_def split: sum.split)

lemma bind_gets: "eff_bind (eff_gets f) g s = g (f s) s"
  by (simp add: eff_bind_def eff_gets_def)

lemma bind_modify: "eff_bind (eff_modify f) g s = g () (f s)"
  by (simp add: eff_bind_def eff_modify_def)

lemmas run_simps = bind_ask bind_ask_try bind_gets bind_modify

lemma send_mint_sends:
  "sends (fst (send_mint ops env cfg h n s)) =
     (case e_send env (calls s) of Inl _ \<Rightarrow> sends s | Inr tx \<Rightarrow> sends s @ [(h, e_now env (Suc (calls s)))])"
proof (cases "e_send env (calls s)")
  case (Inl e)
  have "sends (fst (transient ops env h c r (s\<lparr>calls := Suc (calls s)\<rparr>))) = sends s" for c r
    by (rule keepsE [OF keeps_transient]) simp
  then show ?thesis using Inl by (cases e) (simp_all add: send_mint_def run_simps)
next
  case (Inr tx)
  let ?t = "e_now env (Suc (calls s))"
  have "keeps (logs L) (eff_bind (update_record ops env h (\<lambda>r. r\<lparr>state := Submitted, mintHash := Some tx,
             mintedBy := Some Relay, submittedAt := Some ?t\<rparr>)) (\<lambda>_.
         eff_bind (eff_modify (\<lambda>s. s\<lparr>balanceCache := None\<rparr>)) (\<lambda>_. settle_mint ops env cfg h n tx)))" for L
    by (intro keeps_bind keeps_update keeps_cache keeps_settle)
  note quiet = keepsE [OF this]
  show ?thesis
    by (simp add: send_mint_def run_simps Inr quiet)
qed

text \<open>What must hold for a broadcast: \<open>k\<close> is the call that read the nonce.\<close>

definition guarded_send :: "'s store_ops \<Rightarrow> relay_env \<Rightarrow> relay_settings \<Rightarrow> 's \<Rightarrow> string \<Rightarrow> nat \<Rightarrow> bool" where
  "guarded_send ops env cfg d n k \<longleftrightarrow>
     e_nonceUsed env k n = Inr False
     \<and> st_countSubmittedSince ops d (startOfUtcDay (e_now env (k + 1))) < dailyCap cfg
     \<and> e_simulate env (k + 2) = Inr SimOk \<and> is_ok (e_send env (k + 3))"

lemma fresh_mint_sends:
  assumes "sends (fst (fresh_mint ops env cfg h n s)) \<noteq> sends s"
  shows "guarded_send ops env cfg (db s) n (calls s)
    \<and> sends (fst (fresh_mint ops env cfg h n s)) = sends s @ [(h, e_now env (calls s + 4))]"
proof -
  have quiet: "sends (fst (mintedElsewhere ops env cfg h n s')) = sends s'"
    "sends (fst (transient ops env h c r s')) = sends s'" "sends (fst (fail_record ops env h c r s')) = sends s'" for c r s'
    by (rule keepsE [OF _ refl], rule keeps_mintedElsewhere keeps_transient keeps_fail)+
  have used: "e_nonceUsed env (calls s) n = Inr False"
    using assms by (auto simp: fresh_mint_def isNonceUsed_def run_simps quiet split: sum.splits if_splits)
  have cap: "st_countSubmittedSince ops (db s) (startOfUtcDay (e_now env (Suc (calls s)))) < dailyCap cfg"
    using assms by (auto simp: fresh_mint_def isNonceUsed_def run_simps quiet used not_le split: if_splits)
  have sim: "e_simulate env (Suc (Suc (calls s))) = Inr SimOk"
    using assms cap by (auto simp: fresh_mint_def isNonceUsed_def run_simps quiet used
        split: sum.splits simulate_outcome.splits if_splits)
  show ?thesis
    using assms used cap sim
    by (auto simp: fresh_mint_def isNonceUsed_def run_simps send_mint_sends guarded_send_def
        eval_nat_numeral split: sum.splits)
qed

lemma await_receipt_db: "db (fst (await_receipt n env m s)) = db s \<and> calls s \<le> calls (fst (await_receipt n env m s))"
proof (induction n arbitrary: s)
  case (Suc n)
  from Suc [of "s\<lparr>calls := Suc (calls s)\<rparr>"] show ?case
    by (auto simp: run_simps eff_return_def split: sum.split)
qed (simp add: eff_return_def)

lemma mint_sends:
  assumes "sends (fst (mint ops env cfg h s)) \<noteq> sends s"
  shows "\<exists>r k. st_get ops (db s) h = Some r \<and> \<not> isSettled r \<and> truthy (attestation r)
     \<and> calls s \<le> k \<and> guarded_send ops env cfg (db s) (the (rNonce r)) k
     \<and> sends (fst (mint ops env cfg h s)) = sends s @ [(h, e_now env (k + 4))]"
proof -
  have quiet: "sends (fst (arrived ops env h m w s')) = sends s'"
    "sends (fst (transient ops env h c r s')) = sends s'"
    "sends (fst (await_receipt i env m' s')) = sends s'" for c r s' m w i m'
    by (rule keepsE [OF _ refl], rule keeps_arrived keeps_transient keeps_await_receipt)+
  obtain r where r: "st_get ops (db s) h = Some r"
    using assms by (cases "st_get ops (db s) h") (auto simp: mint_def get_record_def run_simps eff_return_def)
  have open_r: "\<not> (isSettled r \<or> \<not> truthy (rNonce r) \<or> \<not> truthy (rMessage r) \<or> \<not> truthy (attestation r))"
    using assms r by (auto simp: mint_def get_record_def run_simps eff_return_def split: if_splits)
  let ?n = "the (rNonce r)"
  have fresh: "\<exists>s1. db s1 = db s \<and> calls s \<le> calls s1 \<and> sends s1 = sends s \<and> mint ops env cfg h s = fresh_mint ops env cfg h ?n s1"
  proof (cases "truthy (mintHash r) \<and> mintedBy r = Some Relay")
    case False
    with r open_r show ?thesis by (intro exI [of _ s]) (auto simp: mint_def get_record_def run_simps Let_def)
  next
    case True
    obtain s1 x where rec: "awaitReceipt env (the (mintHash r)) s = (s1, x)" by fastforce
    with await_receipt_db [of RECEIPT_WAITS env "the (mintHash r)" s] quiet(3) [of RECEIPT_WAITS "the (mintHash r)" s]
    have s1: "db s1 = db s" "calls s \<le> calls s1" "sends s1 = sends s" by (auto simp: awaitReceipt_def)
    have run: "mint ops env cfg h s = eff_bind (\<lambda>_. (s1, x)) (\<lambda>outcome.
             if outcome = RSuccess then arrived ops env h (mintHash r) Relay
             else if outcome = RPending
             then eff_bind (isNonceUsed env ?n) (\<lambda>used.
               if \<not> used then transient ops env h Not_mined ''the mint transaction on Base Sepolia is not mined yet''
               else fresh_mint ops env cfg h ?n)
             else fresh_mint ops env cfg h ?n) s"
      using True r open_r by (simp add: mint_def get_record_def run_simps Let_def eff_bind_def [of "awaitReceipt _ _"] rec)
        (simp add: eff_bind_def)
    show ?thesis
    proof (cases x)
      case (Inl e)
      with assms run s1 show ?thesis by (simp add: eff_bind_def)
    next
      case (Inr out)
      note run' = run [unfolded Inr eff_bind_def, simplified]
      show ?thesis
      proof (cases out)
        case RSuccess
        with run' assms s1 quiet(1) show ?thesis by simp
      next
        case RReverted
        with run' s1 show ?thesis by (intro exI [of _ s1]) simp
      next
        case RPending
        with run' assms s1 quiet(2) show ?thesis
          by (intro exI [of _ "s1\<lparr>calls := Suc (calls s1)\<rparr>"])
            (auto simp: isNonceUsed_def ask_try_def split: sum.splits if_splits)
      qed
    qed
  qed
  then obtain s1 where s1: "db s1 = db s" "calls s \<le> calls s1" "sends s1 = sends s"
    "mint ops env cfg h s = fresh_mint ops env cfg h ?n s1" by blast
  with assms fresh_mint_sends [of ops env cfg h ?n s1] r open_r show ?thesis by auto
qed

lemma start_sends: "sends (start ops env cfg h s) = sends s"
  using keepsE [OF keeps_run_job refl, of ops env cfg h s] by (simp add: start_def launch_def finish_job_sends)

lemma retry_sends: "sends (fst (retry ops env cfg h s)) = sends s"
proof -
  have "sends (fst (searching_job ops env cfg r s')) = sends s'" "sends (fst (resumeFailed ops env cfg r s')) = sends s'" for r s'
    by (rule keepsE [OF _ refl], rule keeps_searching keeps_resumeFailed)+
  then show ?thesis
    by (simp add: retry_def Let_def launch_def finish_job_sends split: option.split)
qed

lemma retry_each_sends: "sends (fst (fold (retry_each ops env cfg) rs (s, n))) = sends s"
proof (induction rs arbitrary: s n)
  case (Cons r rs)
  obtain s' b where r: "retry ops env cfg (burnHash r) s = (s', b)" by fastforce
  with retry_sends [of ops env cfg "burnHash r" s] Cons show ?case by (simp add: retry_each_def)
qed simp

lemma other_events_sends:
  "sends (fst (request ops env cfg raw s)) = sends s"
  "sends (fst (relay_status ops env cfg raw s)) = sends s"
  "sends (fst (retryDue ops env cfg s)) = sends s"
  "sends (fst (relay_info ops env cfg s)) = sends s"
  by (auto simp: request_def relay_status_def retryDue_def relay_info_def Let_def start_sends retry_sends retry_each_sends
      split: option.split sum.split)

lemma sql_get_ops: "st_get sql_ops = sql_get" "st_listOpen sql_ops = sql_listOpen"
  by (simp_all add: sql_ops_def)

lemma bind_update:
  assumes "st_get ops (db s) h = Some q"
  shows "eff_bind (update_record ops env h f) g s =
    g ((f q)\<lparr>updatedAt := e_now env (calls s)\<rparr>)
      (s\<lparr>calls := Suc (calls s), db := st_put ops ((f q)\<lparr>updatedAt := e_now env (calls s)\<rparr>) (db s)\<rparr>)"
  using assms
  by (simp add: eff_bind_def update_record_def get_record_def put_record_def eff_gets_def ask_def
      eff_modify_def eff_return_def Let_def)

section \<open>A concrete service\<close>

definition sample_burn_hash :: string where
  "sample_burn_hash = replicate 64 (CHR ''a'')"

definition sample_cfg :: relay_settings where
  "sample_cfg = \<lparr>confirmTimeoutMs = 3600000, dailyCap = 2, maxOpen = 5, pollInitialMs = 1000,
     pollMaxMs = 60000, mintIndexerUrl = None\<rparr>"

definition sample_env :: relay_env where
  "sample_env = \<lparr>e_now = (\<lambda>k. 100000 * int k), e_iris = (\<lambda>_ _. Answer 200 None), e_nonceUsed = (\<lambda>_ _. Inr False),
     e_simulate = (\<lambda>_. Inr SimOk), e_send = (\<lambda>_. Inr ''0xaa''), e_receipt = (\<lambda>_ _. Inr RReverted),
     e_findMint = (\<lambda>_ _. Inr None), e_indexer = (\<lambda>_ _. NoReply), e_balance = (\<lambda>_. Inr 0), e_address = ''0xbb''\<rparr>"

definition sample_record :: relay_record where
  "sample_record = (blank_record sample_burn_hash)\<lparr>state := Confirmed, rNonce := Some ''0x07'',
     rMessage := Some ''0x00'', attestation := Some ''0x01''\<rparr>"

definition sample_start :: "sql_store relay_svc" where
  "sample_start = boot sql_ops sample_env sample_cfg [toRow sample_record]"

definition sample_events :: "relay_event list" where
  "sample_events = [JobRuns sample_burn_hash, Sweep, JobRuns sample_burn_hash, Sweep, JobRuns sample_burn_hash]"

definition sample_run :: "sql_store relay_svc" where
  "sample_run = fold (relay_do sql_ops sample_env sample_cfg) sample_events sample_start"

text \<open>
  The cap bounds the records with a broadcast today, not the broadcasts: a transfer whose mint keeps
  reverting is broadcast again and overwrites its own time stamp, here three times under a cap of two.
\<close>

lemma daily_cap_counts_records:
  "length (filter (\<lambda>(h, t). startOfUtcDay t = 0) (sends sample_run)) = 3 \<and> dailyCap sample_cfg = 2"
  by code_simp

section \<open>Properties\<close>

text \<open>C1. A broadcast happens only in a mint step of a burn that is open and signed by Circle, after the
  chain has just said that its nonce is unspent, with the day's count below the cap and the
  simulation passed; and a step broadcasts at most once.\<close>

theorem relay_send_guarded:
  assumes "sends (relay_do ops env cfg ev s) \<noteq> sends s"
  shows "\<exists>h r k. ev = JobRuns h \<and> js_get (jobs s) h = Some Minting
     \<and> st_get ops (db s) h = Some r \<and> \<not> isSettled r \<and> truthy (attestation r)
     \<and> e_nonceUsed env k (the (rNonce r)) = Inr False
     \<and> st_countSubmittedSince ops (db s) (startOfUtcDay (e_now env (k + 1))) < dailyCap cfg
     \<and> e_simulate env (k + 2) = Inr SimOk
     \<and> sends (relay_do ops env cfg ev s) = sends s @ [(h, e_now env (k + 4))]"
proof (cases ev)
  case (JobRuns h)
  have quiet: "sends (fst (poll_turn ops env cfg r b d s)) = sends s" "sends (fst (resume_gas ops env cfg r s)) = sends s"
    "sends (fst (eff_bind (lookupMintAgain ops env cfg r) (\<lambda>_. eff_return (None :: job option)) s)) = sends s" for r b d
    by (rule keepsE [OF _ refl], rule keeps_poll keeps_resume_gas keeps_bind [OF keeps_lookup keeps_return])+
  have mint_step: "sends (fst (eff_bind (mint ops env cfg h) (\<lambda>_. eff_return (None :: job option)) s)) = sends (fst (mint ops env cfg h s))"
    by (simp add: eff_bind_def eff_return_def split: prod.split sum.split)
  from JobRuns assms have "js_get (jobs s) h = Some Minting"
    by (auto simp: job_step_def finish_job_sends job_work_def quiet split: option.splits job.splits)
  with JobRuns assms mint_sends [of ops env cfg h s] show ?thesis
    by (auto simp: job_step_def finish_job_sends job_work_def mint_step guarded_send_def)
qed (use assms in \<open>simp_all add: other_events_sends\<close>)

text \<open>C10. No transfer is ever stuck: in every state the service can reach from a well-formed database,
  an open record has a job that is polling or minting, and a failed one either has its next attempt
  scheduled or has failed for one of the four final reasons.\<close>

theorem relay_never_stuck:
  assumes "sql_ok d" "\<And>h r. sql_get d h = Some r \<Longrightarrow> rec_inv r"
    and "reaches sql_ops env cfg (boot sql_ops env cfg d) s" and "sql_get (db s) h = Some r"
  shows "(\<not> isSettled r \<longrightarrow> (\<exists>begun delay. js_get (jobs s) h = Some (Polling r begun delay)) \<or>
            js_get (jobs s) h = Some Minting \<and> truthy (attestation r) \<and> truthy (rNonce r) \<and> truthy (rMessage r))
     \<and> (state r = Failed \<longrightarrow> (retryAt r \<noteq> None \<and> retryingSince r \<noteq> None) \<or>
            failureCode r \<in> {Some Refused, Some Mint_refused, Some Unseen, Some Gave_up})
     \<and> (state r = Failed \<and> retryAt r = None \<longrightarrow>
            (retryable r \<longleftrightarrow> failureCode r = Some Unseen \<or> failureCode r = Some Gave_up))"
proof -
  have "svc_inv sql_ops sql_ok {} (boot sql_ops env cfg d)"
    by (rule sql.boot_good(1)) (use assms(1,2) in \<open>simp_all add: sql_ops_def\<close>)
  from sql.reaches_good [OF assms(3) this] have "svc_inv sql_ops sql_ok {} s" by (simp add: sql.good_def)
  from sql.svc_invD(3) [OF this, of h] assms(4) have b: "burn_ok {} h (Some r) (js_get (jobs s) h)"
    by (simp add: sql_ops_def)
  then have "rec_inv r" by (simp add: burn_ok_def)
  with b show ?thesis
    by (auto simp: burn_ok_def job_match_def rec_inv_def final_codes_def isSettled_def isRetrying_def
        split: option.splits job.splits)
qed

text \<open>C11. What is over stays over, whatever happens next: an arrived transfer stays
  arrived, with the mint it is linked to, and a refused one keeps its record.\<close>

theorem relay_outcomes_stay:
  assumes "sql_ok d" "\<And>h r. sql_get d h = Some r \<Longrightarrow> rec_inv r"
    and "reaches sql_ops env cfg (boot sql_ops env cfg d) s" "reaches sql_ops env cfg s s'"
    and "sql_get (db s) h = Some r"
  shows "\<exists>q. sql_get (db s') h = Some q
     \<and> (state r = Arrived \<longrightarrow> state q = Arrived \<and> (truthy (mintHash r) \<longrightarrow> q = r))
     \<and> (state r = Failed \<and> failureCode r \<in> {Some Refused, Some Mint_refused} \<and> retryAt r = None \<longrightarrow> q = r)"
proof -
  have "svc_inv sql_ops sql_ok {} (boot sql_ops env cfg d)"
    by (rule sql.boot_good(1)) (use assms(1,2) in \<open>simp_all add: sql_ops_def\<close>)
  from sql.reaches_good [OF assms(3) this] have inv: "svc_inv sql_ops sql_ok {} s" by (simp add: sql.good_def)
  from sql.reaches_good [OF assms(4) inv] have "sql.moves s s'" by (simp add: sql.good_def)
  with assms(5) obtain q where q: "sql_get (db s') h = Some q" "sealed r q" by (auto simp: sql.moves_def sql_get_ops)
  from sql.svc_invD(3) [OF inv, of h] assms(5) have "rec_inv r"
    by (auto simp: sql_get_ops burn_ok_def)
  with q show ?thesis by (auto simp: sealed_def rec_inv_def)
qed

text \<open>There is never more than one job per burn, and never more jobs than the configured limit
  except for those a restart had to resume.\<close>

theorem relay_in_flight_bound:
  assumes "sql_ok d" "\<And>h r. sql_get d h = Some r \<Longrightarrow> rec_inv r"
    and "reaches sql_ops env cfg (boot sql_ops env cfg d) s"
  shows "distinct (js_keys (jobs s)) \<and> length (jobs s) \<le> max (maxOpen cfg) (length (sql_listOpen d))"
proof -
  have boot: "svc_inv sql_ops sql_ok {} (boot sql_ops env cfg d)"
    by (rule sql.boot_good(1)) (use assms(1,2) in \<open>simp_all add: sql_ops_def\<close>)
  have "length (jobs (boot sql_ops env cfg d)) \<le> length (st_listOpen sql_ops d)"
    by (rule sql.boot_good(3)) (use assms(1,2) in \<open>simp_all add: sql_ops_def\<close>)
  with sql.reaches_good [OF assms(3) boot] show ?thesis
    by (auto simp: sql.good_def svc_inv_def js_ok_def sql_get_ops)
qed

text \<open>The retry schedule: a transient failure is retried after thirty seconds, doubling to at most
  fifteen minutes, or after the coming UTC midnight for the daily cap, keeping the start of the
  streak; once the streak has lasted a day the transfer stops for good and can be asked for anew.\<close>

theorem transient_schedule:
  fixes env :: relay_env and s :: "sql_store relay_svc"
  defines "t \<equiv> e_now env (calls s)"
  assumes "sql_ok (db s)" "sql_get (db s) h = Some r"
  shows "\<exists>q at. sql_get (db (fst (transient sql_ops env h cause reason s))) h = Some q
     \<and> is_ok (snd (transient sql_ops env h cause reason s)) \<and> state q = Failed \<and> retryable q
     \<and> attempts q = Some (or_else (attempts r) 0 + 1) \<and> retryingSince q = Some (or_else (retryingSince r) t)
     \<and> (t - or_else (retryingSince r) t < 24 * 60 * 60000 \<longrightarrow>
          failureCode q = Some cause \<and> failure q = Some reason \<and> retryAt q = Some at
          \<and> (cause \<noteq> Daily_cap \<longrightarrow> at = t + retryDelayMs (or_else (attempts r) 0 + 1) \<and> t + 30000 \<le> at \<and> at \<le> t + 900000)
          \<and> (cause = Daily_cap \<longrightarrow> t < at \<and> startOfUtcDay at = at \<and> at \<le> t + 24 * 60 * 60000))
     \<and> (t - or_else (retryingSince r) t \<ge> 24 * 60 * 60000 \<longrightarrow> failureCode q = Some Gave_up \<and> retryAt q = None)"
proof -
  have ok: "sql_ok (db s)" by fact
  have get: "st_get sql_ops (st_put sql_ops q d) g = (if g = burnHash q then Some q else st_get sql_ops d g)"
    if "sql_ok d" for q d g using sql.get_put that .
  have h: "burnHash r = h" using sql.get_key [OF ok] assms(3) by (simp add: sql_get_ops)
  let ?at = "if cause = Daily_cap then startOfUtcDay t + day_ms else t + retryDelayMs (or_else (attempts r) 0 + 1)"
  have delay: "30000 \<le> retryDelayMs n \<and> retryDelayMs n \<le> 900000" for n
    by (simp add: retryDelayMs_def RETRY_INITIAL_MS_def RETRY_MAX_MS_def)
  have day: "t < startOfUtcDay t + day_ms" "startOfUtcDay (startOfUtcDay t + day_ms) = startOfUtcDay t + day_ms"
    "startOfUtcDay t \<le> t"
    using startOfUtcDay_gt [of t] startOfUtcDay_le [of t] by (simp_all add: startOfUtcDay_def day_ms_def)
  have r: "st_get sql_ops (db s) h = Some r" using assms(3) by (simp add: sql_get_ops)
  show ?thesis
  proof (cases "t - or_else (retryingSince r) t \<ge> 24 * 60 * 60000")
    case False
    then show ?thesis
      using r ok h delay [of "or_else (attempts r) 0 + 1"] day
      by (intro exI [of _ "r\<lparr>state := Failed, retryable := True, failure := Some reason, failureCode := Some cause,
            retryAt := Some ?at, attempts := Some (or_else (attempts r) 0 + 1),
            retryingSince := Some (or_else (retryingSince r) t), updatedAt := e_now env (Suc (calls s))\<rparr>"] exI [of _ ?at])
        (simp add: transient_def get_record_def run_simps Let_def RETRY_GIVE_UP_MS_def bind_update eff_return_def
          get t_def [symmetric] day_ms_def flip: sql_get_ops(1))
  next
    case True
    then show ?thesis
      using r ok h
      by (intro exI [of _ "(fail_patch Gave_up (gave_up_text reason) (r\<lparr>attempts := Some (or_else (attempts r) 0 + 1),
            retryingSince := Some (or_else (retryingSince r) t), updatedAt := e_now env (Suc (calls s))\<rparr>))
            \<lparr>updatedAt := e_now env (Suc (Suc (calls s)))\<rparr>"] exI [of _ 0])
        (simp add: transient_def fail_record_def get_record_def run_simps Let_def RETRY_GIVE_UP_MS_def bind_update
          eff_return_def get sql.ok_put fail_patch_def t_def [symmetric] flip: sql_get_ops(1))
  qed
qed

section \<open>The properties at the concrete service\<close>

lemma sample_db: "sql_ok [toRow sample_record]" "sql_get [toRow sample_record] h = Some r \<Longrightarrow> rec_inv r"
proof -
  show "sql_ok [toRow sample_record]" by (simp add: sql_ok_def)
  have "rec_inv sample_record"
    by (simp add: rec_inv_def sample_record_def blank_record_def isSettled_def)
  then show "sql_get [toRow sample_record] h = Some r \<Longrightarrow> rec_inv r"
    by (auto simp: sql_get_def split: if_splits)
qed

lemma sample_reaches:
  "reaches sql_ops sample_env sample_cfg sample_start (relay_do sql_ops sample_env sample_cfg ev sample_start)"
  by (rule reaches.event) (rule reaches.here)

theorem relay_send_guarded_witness:
  "\<exists>r. st_get sql_ops (db sample_start) sample_burn_hash = Some r \<and> \<not> isSettled r
     \<and> js_get (jobs sample_start) sample_burn_hash = Some Minting
     \<and> sends (relay_do sql_ops sample_env sample_cfg (JobRuns sample_burn_hash) sample_start) \<noteq> sends sample_start"
proof -
  have ne: "sends (relay_do sql_ops sample_env sample_cfg (JobRuns sample_burn_hash) sample_start) \<noteq> sends sample_start"
    by code_simp
  from relay_send_guarded [OF ne] ne show ?thesis by auto
qed

theorem relay_never_stuck_witness:
  "\<exists>r. sql_get (db (relay_do sql_ops sample_env sample_cfg (JobRuns sample_burn_hash) sample_start)) sample_burn_hash = Some r
     \<and> state r = Failed \<and> retryAt r \<noteq> None \<and> retryingSince r \<noteq> None"
proof -
  let ?s = "relay_do sql_ops sample_env sample_cfg (JobRuns sample_burn_hash) sample_start"
  have ev: "map_option (\<lambda>r. (state r, failureCode r)) (sql_get (db ?s) sample_burn_hash) = Some (Failed, Some Reverted)"
    by code_simp
  then obtain r where r: "sql_get (db ?s) sample_burn_hash = Some r" "state r = Failed" "failureCode r = Some Reverted"
    by auto
  from relay_never_stuck [OF sample_db(1) sample_db(2) sample_reaches [unfolded sample_start_def] r(1) [unfolded sample_start_def]] r
  show ?thesis by auto
qed

theorem relay_outcomes_stay_witness:
  "\<exists>q. sql_get (db (relay_do sql_ops sample_env sample_cfg Sweep (boot sql_ops sample_env sample_cfg
       [toRow (sample_record\<lparr>state := Arrived, mintHash := Some ''0xcc''\<rparr>)]))) sample_burn_hash = Some q
     \<and> q = sample_record\<lparr>state := Arrived, mintHash := Some ''0xcc''\<rparr>"
proof -
  let ?r = "sample_record\<lparr>state := Arrived, mintHash := Some ''0xcc''\<rparr>"
  let ?d = "[toRow ?r]"
  have ok: "sql_ok ?d" by (simp add: sql_ok_def)
  have "rec_inv ?r" by (simp add: rec_inv_def sample_record_def blank_record_def isSettled_def)
  then have inv: "\<And>h r. sql_get ?d h = Some r \<Longrightarrow> rec_inv r"
    by (auto simp: sql_get_def split: if_splits)
  have "db (boot sql_ops sample_env sample_cfg ?d) = ?d"
    by (simp add: boot_def resume_def sql_ops_def sql_listOpen_def toRow_def Let_def)
  then have get: "sql_get (db (boot sql_ops sample_env sample_cfg ?d)) sample_burn_hash = Some ?r"
    by (simp add: sql_get_def) (simp add: toRow_def sample_record_def blank_record_def fromRow_def)
  from relay_outcomes_stay [OF ok inv reaches.here reaches.event [OF reaches.here, of _ _ _ _ Sweep] get]
  show ?thesis by (simp del: relay_do.simps)
qed

theorem relay_in_flight_bound_witness:
  "distinct (js_keys (jobs sample_run)) \<and> length (jobs sample_start) \<le> 5"
proof -
  have start: "reaches sql_ops sample_env sample_cfg (boot sql_ops sample_env sample_cfg [toRow sample_record]) sample_start"
    unfolding sample_start_def by (rule reaches.here)
  have run: "reaches sql_ops sample_env sample_cfg (boot sql_ops sample_env sample_cfg [toRow sample_record]) sample_run"
    unfolding sample_run_def sample_events_def
    by (simp only: fold.simps o_def id_apply) (intro reaches.event start)
  have "sql_listOpen [toRow sample_record] = [sample_record]" by code_simp
  with relay_in_flight_bound [OF sample_db(1) sample_db(2) start] relay_in_flight_bound [OF sample_db(1) sample_db(2) run]
  show ?thesis by (simp add: sample_cfg_def)
qed

theorem transient_schedule_witness:
  "\<exists>q at. sql_get (db (fst (transient sql_ops sample_env sample_burn_hash Rpc ''x'' sample_start))) sample_burn_hash = Some q
     \<and> state q = Failed \<and> retryAt q = Some at \<and> at = e_now sample_env (calls sample_start) + 30000"
proof -
  have db: "db sample_start = [toRow sample_record]"
    by (simp add: sample_start_def boot_def resume_def sql_ops_def sql_listOpen_def toRow_def Let_def
        start_def launch_def finish_job_def guard_job_def run_job_def get_record_def sql_get_def bind_gets
        eff_catch_def eff_return_def sample_record_def blank_record_def fromRow_def isSettled_def)
  have ok: "sql_ok (db sample_start)" by (simp add: db sample_db)
  have get: "sql_get (db sample_start) sample_burn_hash = Some sample_record"
    by (simp add: db sql_get_def) (simp add: toRow_def fromRow_def sample_record_def blank_record_def)
  have "retryDelayMs (0 + 1) = 30000" by (simp add: retryDelayMs_def RETRY_INITIAL_MS_def RETRY_MAX_MS_def)
  with transient_schedule [OF ok get, of sample_env Rpc "''x''"] show ?thesis
    by (auto simp: sample_record_def blank_record_def or_else_def)
qed

end
