(* ===== verification/FaucetStore.thy ===== *)
theory FaucetStore
  imports JsText "HOL-Library.Multiset"
begin

text \<open>
  The Signet faucet's memory: \<^verbatim>\<open>relayer/src/faucet/nonce.ts\<close> (single-use challenges) and the claim
  records of \<^verbatim>\<open>store.ts\<close> and \<^verbatim>\<open>sqlite-store.ts\<close>, with the contract of a claim store as the locale
  \<open>claim_store\<close>.
\<close>

section \<open>Challenges\<close>

definition NONCE_TTL_MS :: int where "NONCE_TTL_MS = 5 * 60000"
definition MAX_OUTSTANDING :: nat where "MAX_OUTSTANDING = 10000"

type_synonym nonce_book = "(string, int) jsmap"

definition nonce_prune :: "int \<Rightarrow> nonce_book \<Rightarrow> nonce_book" where
  "nonce_prune t book = js_prune (\<lambda>expires. expires > t) book"

text \<open>Dropping the oldest keys while there are \<open>limit\<close> of them or more.\<close>

fun evict_oldest :: "nat \<Rightarrow> nonce_book \<Rightarrow> nonce_book" where
  "evict_oldest limit [] = []"
| "evict_oldest limit (e # book) = (if Suc (length book) \<ge> limit then evict_oldest limit book else e # book)"

text \<open>\<open>r\<close> is the random challenge; the two times are the clock read by the pruning and by the expiry.\<close>

definition nonce_issue :: "string \<Rightarrow> int \<Rightarrow> int \<Rightarrow> int \<Rightarrow> nonce_book \<Rightarrow> nonce_book \<times> (string \<times> int)" where
  "nonce_issue r t1 t2 ttlMs book =
     (let kept = evict_oldest MAX_OUTSTANDING (nonce_prune t1 book); expiresAt = t2 + ttlMs
      in (js_set r expiresAt kept, (r, expiresAt)))"

definition nonce_consume :: "string \<Rightarrow> int \<Rightarrow> nonce_book \<Rightarrow> nonce_book \<times> bool" where
  "nonce_consume n t book =
     (case js_get book n of
        None \<Rightarrow> (book, False)
      | Some expiresAt \<Rightarrow> (js_delete n book, expiresAt > t))"

definition faucetClaimMessage :: "string \<Rightarrow> string \<Rightarrow> string \<Rightarrow> string" where
  "faucetClaimMessage n stellarAddress signetAddress =
     ''Writz Signet faucet'' @ [CHR 0x0A] @ ''nonce:'' @ n @ [CHR 0x0A] @ ''stellar:'' @ stellarAddress
       @ [CHR 0x0A] @ ''signet:'' @ signetAddress"

section \<open>Claims\<close>

record claim_record =
  address :: string
  ipHash :: string
  userKey :: string
  stellarAddress :: string
  txid :: string
  amountSat :: int
  createdAt :: int

text \<open>
  A row of the table. Rows written before claims needed a login have no \<open>user_key\<close> and no
  \<open>stellar_address\<close>.
\<close>

record claim_row =
  c_address :: string
  c_ip_hash :: string
  c_user_key :: "string option"
  c_stellar_address :: "string option"
  c_txid :: string
  c_amount_sat :: int
  c_created_at :: int

definition claim_to_row :: "claim_record \<Rightarrow> claim_row" where
  "claim_to_row c = \<lparr>c_address = address c, c_ip_hash = ipHash c, c_user_key = Some (userKey c),
     c_stellar_address = Some (stellarAddress c), c_txid = txid c, c_amount_sat = amountSat c,
     c_created_at = createdAt c\<rparr>"

record 's claim_ops =
  hasClaimForAddress :: "'s \<Rightarrow> string \<Rightarrow> bool"
  hasClaimForUser :: "'s \<Rightarrow> string \<Rightarrow> bool"
  hasClaimForStellarAddress :: "'s \<Rightarrow> string \<Rightarrow> bool"
  ipClaimsSince :: "'s \<Rightarrow> string \<Rightarrow> int \<Rightarrow> int list"
  countSince :: "'s \<Rightarrow> int \<Rightarrow> nat"
  recordClaim :: "claim_record \<Rightarrow> 's \<Rightarrow> 's option"

text \<open>What the faucet relies on: \<open>rows\<close> are the claims the store holds, oldest insertion first.\<close>

locale claim_store =
  fixes ops :: "'s claim_ops" and ok :: "'s \<Rightarrow> bool" and rows :: "'s \<Rightarrow> claim_row list"
  assumes has_address: "hasClaimForAddress ops s a \<longleftrightarrow> (\<exists>r\<in>set (rows s). c_address r = a)"
    and has_user: "hasClaimForUser ops s u \<longleftrightarrow> (\<exists>r\<in>set (rows s). c_user_key r = Some u)"
    and has_stellar: "hasClaimForStellarAddress ops s a \<longleftrightarrow> (\<exists>r\<in>set (rows s). c_stellar_address r = Some a)"
    and ip_since: "ipClaimsSince ops s ip t =
          sort (map c_created_at (filter (\<lambda>r. c_ip_hash r = ip \<and> c_created_at r \<ge> t) (rows s)))"
    and count_since: "countSince ops s t = length (filter (\<lambda>r. c_created_at r \<ge> t) (rows s))"
    and record_dup: "ok s \<Longrightarrow> hasClaimForAddress ops s (address c) \<or> hasClaimForUser ops s (userKey c)
          \<or> hasClaimForStellarAddress ops s (stellarAddress c) \<Longrightarrow> recordClaim ops c s = None"
    and record_new: "ok s \<Longrightarrow> \<not> hasClaimForAddress ops s (address c) \<Longrightarrow> \<not> hasClaimForUser ops s (userKey c)
          \<Longrightarrow> \<not> hasClaimForStellarAddress ops s (stellarAddress c) \<Longrightarrow>
          \<exists>s'. recordClaim ops c s = Some s' \<and> ok s' \<and> rows s' = rows s @ [claim_to_row c]"
begin

lemma record_cases:
  assumes "ok s"
  obtains (refused) "recordClaim ops c s = None"
      "hasClaimForAddress ops s (address c) \<or> hasClaimForUser ops s (userKey c) \<or> hasClaimForStellarAddress ops s (stellarAddress c)"
    | (stored) s' where "recordClaim ops c s = Some s'" "ok s'" "rows s' = rows s @ [claim_to_row c]"
      "\<not> hasClaimForAddress ops s (address c)" "\<not> hasClaimForUser ops s (userKey c)"
      "\<not> hasClaimForStellarAddress ops s (stellarAddress c)"
proof (cases "hasClaimForAddress ops s (address c) \<or> hasClaimForUser ops s (userKey c)
    \<or> hasClaimForStellarAddress ops s (stellarAddress c)")
  case True
  then show ?thesis using refused record_dup [OF assms] by simp
next
  case False
  then have new: "\<not> hasClaimForAddress ops s (address c)" "\<not> hasClaimForUser ops s (userKey c)"
    "\<not> hasClaimForStellarAddress ops s (stellarAddress c)" by simp_all
  from record_new [OF assms new] obtain s' where "recordClaim ops c s = Some s'" "ok s'" "rows s' = rows s @ [claim_to_row c]"
    by blast
  then show ?thesis by (rule stored [OF _ _ _ new])
qed

end

section \<open>In memory\<close>

definition mem_record :: "claim_record \<Rightarrow> claim_record list \<Rightarrow> claim_record list option" where
  "mem_record c claims =
     (if list_ex (\<lambda>d. userKey d = userKey c) claims \<or> list_ex (\<lambda>d. stellarAddress d = stellarAddress c) claims
         \<or> list_ex (\<lambda>d. address d = address c) claims
      then None else Some (claims @ [c]))"

definition mem_claims :: "claim_record list claim_ops" where
  "mem_claims = \<lparr>hasClaimForAddress = (\<lambda>claims a. list_ex (\<lambda>c. address c = a) claims),
     hasClaimForUser = (\<lambda>claims u. list_ex (\<lambda>c. userKey c = u) claims),
     hasClaimForStellarAddress = (\<lambda>claims a. list_ex (\<lambda>c. stellarAddress c = a) claims),
     ipClaimsSince = (\<lambda>claims ip t. sort (map createdAt (filter (\<lambda>c. ipHash c = ip \<and> createdAt c \<ge> t) claims))),
     countSince = (\<lambda>claims t. length (filter (\<lambda>c. createdAt c \<ge> t) claims)),
     recordClaim = mem_record\<rparr>"

interpretation mem_claims: claim_store mem_claims "\<lambda>_. True" "map claim_to_row"
proof
qed (auto simp: mem_claims_def mem_record_def claim_to_row_def list_ex_iff filter_map comp_def)

section \<open>In sqlite\<close>

text \<open>
  The three unique indexes, and the explicit address check before the insertion that also sees the
  rows without a login.
\<close>

definition sqlite_record :: "claim_record \<Rightarrow> claim_row list \<Rightarrow> claim_row list option" where
  "sqlite_record c table =
     (if length (filter (\<lambda>r. c_address r = address c) table) > 0 then None
      else if list_ex (\<lambda>r. c_user_key r = Some (userKey c)) table
        \<or> list_ex (\<lambda>r. c_stellar_address r = Some (stellarAddress c)) table
        \<or> list_ex (\<lambda>r. c_user_key r \<noteq> None \<and> c_address r = address c) table
      then None
      else Some (table @ [claim_to_row c]))"

definition sqlite_claims :: "claim_row list claim_ops" where
  "sqlite_claims = \<lparr>hasClaimForAddress = (\<lambda>table a. length (filter (\<lambda>r. c_address r = a) table) > 0),
     hasClaimForUser = (\<lambda>table u. length (filter (\<lambda>r. c_user_key r = Some u) table) > 0),
     hasClaimForStellarAddress = (\<lambda>table a. length (filter (\<lambda>r. c_stellar_address r = Some a) table) > 0),
     ipClaimsSince = (\<lambda>table ip t. map c_created_at
        (sort_key c_created_at (filter (\<lambda>r. c_ip_hash r = ip \<and> c_created_at r \<ge> t) table))),
     countSince = (\<lambda>table t. length (filter (\<lambda>r. c_created_at r \<ge> t) table)),
     recordClaim = sqlite_record\<rparr>"

lemma map_sort_key: "map f (sort_key f xs) = sort (map f xs)"
  by (rule properties_for_sort [symmetric]) simp_all

interpretation sqlite_claims: claim_store sqlite_claims "\<lambda>_. True" "\<lambda>table. table"
proof
qed (auto simp: sqlite_claims_def sqlite_record_def list_ex_iff filter_empty_conv map_sort_key)

section \<open>Lemmas on challenges\<close>

lemma evict_oldest_length: "0 < limit \<Longrightarrow> length (evict_oldest limit m) < limit"
  by (induction limit m rule: evict_oldest.induct) auto

lemma evict_oldest_suffix: "\<exists>k. evict_oldest limit m = drop k m"
proof (induction limit m rule: evict_oldest.induct)
  case (2 limit e book)
  then obtain k where "Suc (length book) \<ge> limit \<Longrightarrow> evict_oldest limit book = drop k book" by auto
  then show ?case by (cases "Suc (length book) \<ge> limit") (auto intro: exI [of _ "Suc k"] exI [of _ 0])
qed simp

lemma evict_oldest_id: "length m < limit \<Longrightarrow> evict_oldest limit m = m"
  by (cases m) auto

lemma js_ok_drop: "js_ok m \<Longrightarrow> js_ok (drop k m)"
  by (simp add: js_ok_def drop_map [symmetric])

lemma js_ok_evict: "js_ok m \<Longrightarrow> js_ok (evict_oldest limit m)"
  by (metis evict_oldest_suffix js_ok_drop)

section \<open>Properties\<close>

text \<open>A challenge is good once: it is accepted exactly if it was issued and has not expired, and
  whatever the answer it is gone afterwards. The book never holds more than its limit, and below the
  limit issuing one drops none that is still valid.\<close>

theorem nonce_single_use:
  assumes "js_ok book"
  shows "(snd (nonce_consume n t book) \<longleftrightarrow> (\<exists>e. js_get book n = Some e \<and> t < e))
     \<and> (\<forall>t'. \<not> snd (nonce_consume n t' (fst (nonce_consume n t book))))
     \<and> (\<forall>m. m \<noteq> n \<longrightarrow> js_get (fst (nonce_consume n t book)) m = js_get book m)
     \<and> snd (nonce_consume r t (fst (nonce_issue r t1 t2 ttl book))) = (t < t2 + ttl)
     \<and> length (fst (nonce_issue r t1 t2 ttl book)) \<le> MAX_OUTSTANDING
     \<and> (length book < MAX_OUTSTANDING \<and> m \<noteq> r \<and> js_get book m = Some e \<and> t1 < e \<longrightarrow>
          js_get (fst (nonce_issue r t1 t2 ttl book)) m = Some e)
     \<and> js_ok (fst (nonce_issue r t1 t2 ttl book)) \<and> js_ok (fst (nonce_consume n t book))"
proof -
  let ?kept = "evict_oldest MAX_OUTSTANDING (nonce_prune t1 book)"
  have len: "length ?kept < MAX_OUTSTANDING"
    by (rule evict_oldest_length) (simp add: MAX_OUTSTANDING_def)
  have ok: "js_ok ?kept" using assms by (simp add: nonce_prune_def js_ok_prune js_ok_evict)
  have keep: "?kept = nonce_prune t1 book" if "length book < MAX_OUTSTANDING"
    using that le_less_trans [OF js_prune_length] by (intro evict_oldest_id) (simp add: nonce_prune_def)
  have "js_get (nonce_prune t1 book) m = Some e" if "js_get book m = Some e" "t1 < e"
    using js_get_prune [OF assms] that by (simp add: nonce_prune_def)
  then show ?thesis
    using len ok keep assms
    by (auto simp: nonce_consume_def nonce_issue_def Let_def jsmap_simps js_size_set js_ok_set js_ok_delete split: option.splits)
qed

theorem nonce_single_use_witness:
  "js_ok [(''ab'', 100 :: int)] \<and> snd (nonce_consume ''ab'' 50 [(''ab'', 100)])
   \<and> \<not> snd (nonce_consume ''ab'' 50 (fst (nonce_consume ''ab'' 50 [(''ab'', 100)])))"
proof -
  have ok: "js_ok [(''ab'', 100 :: int)]" by (simp add: js_ok_def)
  with nonce_single_use [OF ok, of "''ab''" 50] show ?thesis by auto
qed

end
