(* ===== verification/Payment.thy ===== *)
theory Payment
  imports JsBuffer Complex_Main
begin

text \<open>
  \<^verbatim>\<open>bitcoin-script/src/payment.ts\<close>: coin selection of a single-key payment. \<^verbatim>\<open>bitcoinjs-lib\<close> (address
  decoding, the payer's script, building and signing the transaction) is the parameter \<open>btc_lib\<close>.
  Satoshi amounts are integers and the fee rate is an exact rational: the rounding of a product of
  doubles before \<^verbatim>\<open>Math.ceil\<close> is not modelled.
\<close>

definition P2WPKH_DUST_LIMIT_SAT :: int where "P2WPKH_DUST_LIMIT_SAT = 294"
definition TX_OVERHEAD_VB :: int where "TX_OVERHEAD_VB = 11"
definition P2WPKH_INPUT_VB :: int where "P2WPKH_INPUT_VB = 68"

record utxo =
  u_txid :: string
  u_vout :: nat
  u_value :: int

record built_tx =
  b_txHex :: string
  b_txid :: string
  b_vsize :: int

record btc_lib =
  toOutputScript :: "string \<Rightarrow> buffer option"
  payerScript :: "buffer option"
  buildTx :: "utxo list \<Rightarrow> (buffer \<times> int) list \<Rightarrow> built_tx"

record payment =
  p_txHex :: string
  p_txid :: string
  feeSat :: int
  changeSat :: int
  vsize :: int
  inputs :: "utxo list"

datatype payment_error =
    AmountNotPositive
  | FeeRateNotPositive
  | BadRecipient
  | NoPayerScript
  | InsufficientFundsError int int

definition outputVbytes :: "buffer \<Rightarrow> int" where
  "outputVbytes script = 8 + 1 + int (length script)"

definition estimateP2wpkhVsize :: "nat \<Rightarrow> buffer list \<Rightarrow> int" where
  "estimateP2wpkhVsize ins scripts =
     TX_OVERHEAD_VB + int ins * P2WPKH_INPUT_VB + sum_list (map outputVbytes scripts)"

definition fee_for :: "nat \<Rightarrow> buffer list \<Rightarrow> rat \<Rightarrow> int" where
  "fee_for ins scripts feeRate = \<lceil>of_int (estimateP2wpkhVsize ins scripts) * feeRate\<rceil>"

text \<open>The selection loop: the coins chosen, the fee and the change, or \<^const>\<open>None\<close> when the coins ran out.\<close>

fun select_coins ::
    "buffer \<Rightarrow> buffer \<Rightarrow> int \<Rightarrow> rat \<Rightarrow> utxo list \<Rightarrow> int \<Rightarrow> utxo list \<Rightarrow> (utxo list \<times> int \<times> int) option" where
  "select_coins recipient change amountSat feeRate selected sofar [] = None"
| "select_coins recipient change amountSat feeRate selected sofar (u # us) =
     (let selected' = selected @ [u];
          sofar' = sofar + u_value u;
          feeWithChange = fee_for (length selected') [recipient, change] feeRate;
          left = sofar' - amountSat - feeWithChange;
          feeNoChange = fee_for (length selected') [recipient] feeRate
      in if left \<ge> P2WPKH_DUST_LIMIT_SAT then Some (selected', feeWithChange, left)
         else if sofar' - amountSat \<ge> feeNoChange then Some (selected', sofar' - amountSat, 0)
         else select_coins recipient change amountSat feeRate selected' sofar' us)"

definition sum_value :: "utxo list \<Rightarrow> int" where
  "sum_value us = sum_list (map u_value us)"

definition buildP2wpkhPayment :: "btc_lib \<Rightarrow> utxo list \<Rightarrow> string \<Rightarrow> int \<Rightarrow> rat \<Rightarrow> payment_error + payment" where
  "buildP2wpkhPayment lib utxos to amountSat feeRate =
     (if amountSat \<le> 0 then Inl AmountNotPositive
      else if \<not> feeRate > 0 then Inl FeeRateNotPositive
      else case toOutputScript lib to of
        None \<Rightarrow> Inl BadRecipient
      | Some recipient \<Rightarrow>
         (case payerScript lib of
            None \<Rightarrow> Inl NoPayerScript
          | Some change \<Rightarrow>
             (case select_coins recipient change amountSat feeRate [] 0 utxos of
                None \<Rightarrow> Inl (InsufficientFundsError (sum_value utxos)
                          (amountSat + fee_for (max 1 (length utxos)) [recipient] feeRate))
              | Some (selected, fee, left) \<Rightarrow>
                  let tx = buildTx lib selected
                        ((recipient, amountSat) # (if left > 0 then [(change, left)] else []))
                  in Inr \<lparr>p_txHex = b_txHex tx, p_txid = b_txid tx, feeSat = fee, changeSat = left,
                          vsize = b_vsize tx, inputs = selected\<rparr>)))"

section \<open>Lemmas\<close>

lemma sum_value_simps [simp]: "sum_value [] = 0" "sum_value (u # us) = u_value u + sum_value us"
  "sum_value (us @ vs) = sum_value us + sum_value vs"
  by (simp_all add: sum_value_def)

lemma fee_with_change_ge: "0 < feeRate \<Longrightarrow> fee_for n [r] feeRate \<le> fee_for n [r, c] feeRate"
  unfolding fee_for_def estimateP2wpkhVsize_def outputVbytes_def
  by (intro ceiling_mono mult_right_mono) simp_all

text \<open>A prefix of the coins is enough when it covers the amount and the fee without a change output.\<close>

definition covers :: "buffer \<Rightarrow> int \<Rightarrow> rat \<Rightarrow> utxo list \<Rightarrow> bool" where
  "covers recipient amountSat feeRate us \<longleftrightarrow>
     us \<noteq> [] \<and> sum_value us - amountSat \<ge> fee_for (length us) [recipient] feeRate"

lemma select_coins_Some:
  assumes "select_coins r c amt rate sel tot us = Some (sel', fee, left)" "tot = sum_value sel" "0 < rate"
  shows "\<exists>k \<le> length us. sel' = sel @ take k us \<and> covers r amt rate sel'
    \<and> (\<forall>j<k. 0 < j \<longrightarrow> \<not> covers r amt rate (sel @ take j us))
    \<and> sum_value sel' = amt + fee + left \<and> fee_for (length sel') [r] rate \<le> fee
    \<and> (left = 0 \<and> fee < fee_for (length sel') [r, c] rate + P2WPKH_DUST_LIMIT_SAT
       \<or> left \<ge> P2WPKH_DUST_LIMIT_SAT \<and> fee = fee_for (length sel') [r, c] rate)"
  using assms
proof (induction us arbitrary: sel tot)
  case (Cons u us)
  let ?s = "sel @ [u]" and ?t = "tot + u_value u"
  note le = fee_with_change_ge [OF Cons.prems(3), of "length ?s" r c]
  consider "?t - amt - fee_for (length ?s) [r, c] rate \<ge> P2WPKH_DUST_LIMIT_SAT"
    | "\<not> ?t - amt - fee_for (length ?s) [r, c] rate \<ge> P2WPKH_DUST_LIMIT_SAT" "?t - amt \<ge> fee_for (length ?s) [r] rate"
    | "\<not> ?t - amt - fee_for (length ?s) [r, c] rate \<ge> P2WPKH_DUST_LIMIT_SAT" "\<not> ?t - amt \<ge> fee_for (length ?s) [r] rate"
    by blast
  then show ?case
  proof cases
    case 1
    with Cons.prems le show ?thesis
      by (intro exI [of _ 1]) (auto simp: Let_def covers_def P2WPKH_DUST_LIMIT_SAT_def)
  next
    case 2
    with Cons.prems le show ?thesis by (intro exI [of _ 1]) (auto simp: Let_def covers_def)
  next
    case 3
    with Cons.prems have rec: "select_coins r c amt rate ?s ?t us = Some (sel', fee, left)" by (simp add: Let_def)
    from Cons.IH [OF rec] Cons.prems obtain k where k: "k \<le> length us" "sel' = ?s @ take k us" "covers r amt rate sel'"
      "\<forall>j<k. 0 < j \<longrightarrow> \<not> covers r amt rate (?s @ take j us)"
      "sum_value sel' = amt + fee + left \<and> fee_for (length sel') [r] rate \<le> fee
        \<and> (left = 0 \<and> fee < fee_for (length sel') [r, c] rate + P2WPKH_DUST_LIMIT_SAT
           \<or> left \<ge> P2WPKH_DUST_LIMIT_SAT \<and> fee = fee_for (length sel') [r, c] rate)"
      by auto
    have "\<not> covers r amt rate (sel @ take j (u # us))" if "j < Suc k" "0 < j" for j
    proof (cases j)
      case (Suc i)
      show ?thesis
      proof (cases i)
        case 0
        with 3 Suc Cons.prems show ?thesis by (simp add: covers_def)
      next
        case (Suc i')
        with k(4) that \<open>j = Suc i\<close> show ?thesis by (metis Suc_less_SucD append.assoc append_Cons append_Nil take_Suc_Cons zero_less_Suc)
      qed
    qed (use that in simp)
    with k show ?thesis by (intro exI [of _ "Suc k"]) auto
  qed
qed simp

lemma select_coins_None:
  "select_coins r c amt rate sel tot us = None \<Longrightarrow> tot = sum_value sel \<Longrightarrow> 0 < rate \<Longrightarrow>
   \<forall>j. 0 < j \<and> j \<le> length us \<longrightarrow> \<not> covers r amt rate (sel @ take j us)"
proof (induction us arbitrary: sel tot)
  case (Cons u us)
  let ?s = "sel @ [u]"
  from Cons.prems have rec: "select_coins r c amt rate ?s (tot + u_value u) us = None"
    and first: "\<not> covers r amt rate ?s"
    by (auto simp: Let_def covers_def split: if_splits)
  have ih: "\<forall>j. 0 < j \<and> j \<le> length us \<longrightarrow> \<not> covers r amt rate (?s @ take j us)"
    using Cons.IH [OF rec] Cons.prems by simp
  show ?case
  proof (intro allI impI)
    fix j assume j: "0 < j \<and> j \<le> length (u # us)"
    then obtain i where i: "j = Suc i" by (cases j) auto
    show "\<not> covers r amt rate (sel @ take j (u # us))"
      using first ih j i by (cases i) auto
  qed
qed simp

section \<open>Properties\<close>

text \<open>A payment balances: its inputs are the shortest prefix of the candidate coins that covers the
  amount and the fee, inputs equal amount plus fee plus change, the fee is at least the estimate for
  the transaction built and at most the estimate with a change output plus the dust limit, and the
  change is either absent or at least the dust limit. It fails for lack of funds exactly when no
  prefix is enough.\<close>

theorem buildP2wpkhPayment_balances:
  assumes "0 < amountSat" "0 < feeRate" "toOutputScript lib to = Some r" "payerScript lib = Some c"
  shows "case buildP2wpkhPayment lib utxos to amountSat feeRate of
      Inr p \<Rightarrow> (\<exists>k \<le> length utxos. 0 < k \<and> inputs p = take k utxos \<and> covers r amountSat feeRate (inputs p)
                 \<and> (\<forall>j<k. \<not> covers r amountSat feeRate (take j utxos)))
               \<and> sum_value (inputs p) = amountSat + feeSat p + changeSat p
               \<and> (changeSat p = 0 \<or> changeSat p \<ge> 294)
               \<and> fee_for (length (inputs p)) (if changeSat p = 0 then [r] else [r, c]) feeRate \<le> feeSat p
               \<and> feeSat p < fee_for (length (inputs p)) [r, c] feeRate + 294
    | Inl e \<Rightarrow> (\<exists>need. e = InsufficientFundsError (sum_value utxos) need)
               \<and> (\<forall>j\<le>length utxos. \<not> covers r amountSat feeRate (take j utxos))"
proof (cases "select_coins r c amountSat feeRate [] 0 utxos")
  case None
  from select_coins_None [OF None] assms have "\<not> covers r amountSat feeRate (take j utxos)" if "j \<le> length utxos" for j
    using that by (cases "j = 0") (auto simp: covers_def)
  with None assms show ?thesis by (auto simp: buildP2wpkhPayment_def)
next
  case (Some x)
  then obtain sel fee left where x: "x = (sel, fee, left)" by (cases x) auto
  with Some select_coins_Some [of r c amountSat feeRate "[]" 0 utxos sel fee left] assms(2)
  obtain k where k: "k \<le> length utxos" "sel = take k utxos" "covers r amountSat feeRate sel"
    "\<forall>j<k. 0 < j \<longrightarrow> \<not> covers r amountSat feeRate (take j utxos)"
    "sum_value sel = amountSat + fee + left" "fee_for (length sel) [r] feeRate \<le> fee"
    "left = 0 \<and> fee < fee_for (length sel) [r, c] feeRate + P2WPKH_DUST_LIMIT_SAT
       \<or> left \<ge> P2WPKH_DUST_LIMIT_SAT \<and> fee = fee_for (length sel) [r, c] feeRate"
    by auto
  have "0 < k" using k(2,3) by (cases k) (auto simp: covers_def)
  moreover have "\<forall>j<k. \<not> covers r amountSat feeRate (take j utxos)"
    using k(4) by (metis covers_def gr0I take0)
  ultimately show ?thesis
    using k Some x assms
    by (auto simp: buildP2wpkhPayment_def Let_def P2WPKH_DUST_LIMIT_SAT_def)
qed

definition sample_lib :: btc_lib where
  "sample_lib = \<lparr>toOutputScript = (\<lambda>a. if a = ''tb1q'' then Some (replicate 22 0) else None),
     payerScript = Some (replicate 22 1),
     buildTx = (\<lambda>us outs. \<lparr>b_txHex = ''00'', b_txid = ''ab'', b_vsize = 141\<rparr>)\<rparr>"

theorem buildP2wpkhPayment_balances_witness:
  "\<exists>p. buildP2wpkhPayment sample_lib
       [\<lparr>u_txid = ''a'', u_vout = 0, u_value = 1000\<rparr>, \<lparr>u_txid = ''b'', u_vout = 1, u_value = 30000\<rparr>,
        \<lparr>u_txid = ''c'', u_vout = 1, u_value = 5\<rparr>] ''tb1q'' 10000 2 = Inr p
     \<and> sum_value (inputs p) = 10000 + feeSat p + changeSat p \<and> changeSat p \<ge> 294 \<and> length (inputs p) = 2"
proof -
  let ?us = "[\<lparr>u_txid = ''a'', u_vout = 0, u_value = 1000\<rparr>, \<lparr>u_txid = ''b'', u_vout = 1, u_value = 30000\<rparr>,
        \<lparr>u_txid = ''c'', u_vout = 1, u_value = 5\<rparr>]"
  let ?b = "buildP2wpkhPayment sample_lib ?us ''tb1q'' 10000 2"
  have b: "\<exists>p. ?b = Inr p \<and> changeSat p = 20582 \<and> length (inputs p) = 2"
    by (simp add: buildP2wpkhPayment_def sample_lib_def Let_def fee_for_def estimateP2wpkhVsize_def
        TX_OVERHEAD_VB_def P2WPKH_INPUT_VB_def outputVbytes_def P2WPKH_DUST_LIMIT_SAT_def)
  have "toOutputScript sample_lib ''tb1q'' = Some (replicate 22 0)" "payerScript sample_lib = Some (replicate 22 1)"
    by (simp_all add: sample_lib_def)
  from buildP2wpkhPayment_balances [OF _ _ this, of 10000 2 ?us] b show ?thesis by auto
qed

end
