(* ===== verification/Faucet.thy ===== *)
theory Faucet
  imports FaucetStore Payment Backoff Effect
begin

text \<open>
  \<^verbatim>\<open>relayer/src/faucet/service.ts\<close> and \<^verbatim>\<open>pollar.ts\<close>: the shape of a claim, its limits, the coins that
  can be spent, the payment and its record. A claim runs in three steps that other claims and status
  reads may separate: up to the call to Pollar, Pollar's answer, and the send inside the lock. Esplora,
  Pollar, the clock, the random source and the Bitcoin libraries are parameters; an answer is read at
  the position \<open>fcalls\<close>, which every call advances. \<open>paid\<close> is the log of the claims whose transaction
  the network accepted, \<open>broadcasts\<close> that of the outpoints of every transaction the network may hold.
\<close>

section \<open>Errors and requests\<close>

datatype faucet_code =
    Invalid_request | Invalid_address | Faucet_address | Nonce_invalid | Address_key_mismatch
  | Bad_signature | Login_expired | Login_invalid | Login_wrong_app | Login_wrong_network
  | Login_not_social | Login_address_mismatch | Login_provider_not_allowed | Login_check_unavailable
  | Account_already_claimed | Stellar_address_already_claimed | Signet_address_already_claimed
  | Ip_cooldown | Daily_cap_reached | Faucet_empty | Upstream_unavailable | Broadcast_rejected

fun faucet_status_code :: "faucet_code \<Rightarrow> int" where
  "faucet_status_code Invalid_request = 400"
| "faucet_status_code Invalid_address = 400"
| "faucet_status_code Faucet_address = 400"
| "faucet_status_code Nonce_invalid = 400"
| "faucet_status_code Address_key_mismatch = 400"
| "faucet_status_code Bad_signature = 400"
| "faucet_status_code Login_expired = 401"
| "faucet_status_code Login_invalid = 401"
| "faucet_status_code Login_wrong_app = 403"
| "faucet_status_code Login_wrong_network = 403"
| "faucet_status_code Login_not_social = 403"
| "faucet_status_code Login_address_mismatch = 403"
| "faucet_status_code Login_provider_not_allowed = 403"
| "faucet_status_code Login_check_unavailable = 503"
| "faucet_status_code Account_already_claimed = 409"
| "faucet_status_code Stellar_address_already_claimed = 409"
| "faucet_status_code Signet_address_already_claimed = 409"
| "faucet_status_code Ip_cooldown = 429"
| "faucet_status_code Daily_cap_reached = 429"
| "faucet_status_code Faucet_empty = 503"
| "faucet_status_code Upstream_unavailable = 503"
| "faucet_status_code Broadcast_rejected = 502"

text \<open>A \<^verbatim>\<open>FaucetError\<close> with its retry hint in seconds, or another exception of the payment builder.\<close>

datatype faucet_error = FaucetError faucet_code "int option" | PaymentFailed payment_error

definition err :: "faucet_code \<Rightarrow> faucet_error" where
  "err c = FaucetError c None"

text \<open>The untrusted body: \<^const>\<open>None\<close> is a field that is missing or not a string.\<close>

record claim_request =
  pollarAccessToken :: string
  reqStellarAddress :: string
  signetAddress :: string
  signetPubkey :: string
  nonce :: string
  keySig :: string

record raw_body =
  rb_token :: "string option"
  rb_stellar :: "string option"
  rb_signet :: "string option"
  rb_pubkey :: "string option"
  rb_nonce :: "string option"
  rb_keySig :: "string option"

definition is_base32 :: "char \<Rightarrow> bool" where
  "is_base32 c \<longleftrightarrow> (65 \<le> code c \<and> code c \<le> 90) \<or> (50 \<le> code c \<and> code c \<le> 55)"

definition is_base64 :: "char \<Rightarrow> bool" where
  "is_base64 c \<longleftrightarrow> (65 \<le> code c \<and> code c \<le> 90) \<or> (97 \<le> code c \<and> code c \<le> 122) \<or> is_digit c
     \<or> c = CHR ''+'' \<or> c = CHR ''/''"

definition STELLAR_ACCOUNT :: "string \<Rightarrow> bool" where
  "STELLAR_ACCOUNT s \<longleftrightarrow> length s = 56 \<and> take 1 s = ''G'' \<and> list_all is_base32 (drop 1 s)"

definition NONCE_FORMAT :: "string \<Rightarrow> bool" where
  "NONCE_FORMAT s \<longleftrightarrow> length s = 32 \<and> list_all is_lower_hex s"

definition PUBKEY_HEX :: "string \<Rightarrow> bool" where
  "PUBKEY_HEX s \<longleftrightarrow> length s = 66 \<and> (take 2 s = ''02'' \<or> take 2 s = ''03'') \<and> list_all is_hex (drop 2 s)"

definition BASE64 :: "string \<Rightarrow> bool" where
  "BASE64 s \<longleftrightarrow> length s = 88 \<and> list_all is_base64 (take 86 s)
     \<and> list_all (\<lambda>c. is_base64 c \<or> c = CHR ''='') (drop 86 s)"

definition MAX_TOKEN_LENGTH :: nat where "MAX_TOKEN_LENGTH = 8192"

definition str_field :: "string option \<Rightarrow> faucet_error + string" where
  "str_field v = (case v of None \<Rightarrow> Inl (err Invalid_request)
     | Some s \<Rightarrow> if trim s = [] then Inl (err Invalid_request) else Inr (trim s))"

definition check_shape :: "bool \<Rightarrow> faucet_error + unit" where
  "check_shape good = (if \<not> good then Inl (err Invalid_request) else Inr ())"

definition parseClaimRequest :: "raw_body \<Rightarrow> faucet_error + claim_request" where
  "parseClaimRequest b =
     res_bind (str_field (rb_token b)) (\<lambda>token.
     res_bind (check_shape (length token \<le> MAX_TOKEN_LENGTH)) (\<lambda>_.
     res_bind (str_field (rb_stellar b)) (\<lambda>stellar.
     res_bind (check_shape (STELLAR_ACCOUNT stellar)) (\<lambda>_.
     res_bind (str_field (rb_signet b)) (\<lambda>signet.
     res_bind (str_field (rb_pubkey b)) (\<lambda>pubkey.
     res_bind (check_shape (PUBKEY_HEX pubkey)) (\<lambda>_.
     res_bind (str_field (rb_nonce b)) (\<lambda>n.
     res_bind (check_shape (NONCE_FORMAT n)) (\<lambda>_.
     res_bind (str_field (rb_keySig b)) (\<lambda>sig.
     res_bind (check_shape (BASE64 sig)) (\<lambda>_.
     Inr \<lparr>pollarAccessToken = token, reqStellarAddress = stellar, signetAddress = signet,
          signetPubkey = toLowerCase pubkey, nonce = n, keySig = sig\<rparr>)))))))))))"

section \<open>Addresses\<close>

text \<open>\<^verbatim>\<open>s === s.toUpperCase()\<close>: no character has another upper case.\<close>

definition upper_fixed :: "char \<Rightarrow> bool" where
  "upper_fixed c \<longleftrightarrow> \<not> (97 \<le> code c \<and> code c \<le> 122) \<and> \<not> (223 \<le> code c \<and> code c \<noteq> 247) \<and> code c \<noteq> 181"

text \<open>\<^verbatim>\<open>[02-9ac-hj-np-z]\<close>.\<close>

definition is_bech32 :: "char \<Rightarrow> bool" where
  "is_bech32 c \<longleftrightarrow> (is_digit c \<or> (97 \<le> code c \<and> code c \<le> 122)) \<and> c \<notin> {CHR ''1'', CHR ''b'', CHR ''i'', CHR ''o''}"

definition BECH32_CHARS :: "string \<Rightarrow> bool" where
  "BECH32_CHARS s \<longleftrightarrow> take 3 s = ''tb1'' \<and> 11 \<le> length s \<and> length s \<le> 90
     \<and> list_all is_bech32 (drop 3 s)"

definition normalizeSignetAddress :: "btc_lib \<Rightarrow> string option \<Rightarrow> faucet_error + string" where
  "normalizeSignetAddress lib raw =
     (case raw of
        None \<Rightarrow> Inl (err Invalid_address)
      | Some s \<Rightarrow>
         let t = trim s; addr = (if list_all upper_fixed t then toLowerCase t else t) in
         if \<not> BECH32_CHARS addr then Inl (err Invalid_address)
         else case toOutputScript lib addr of
            None \<Rightarrow> Inl (err Invalid_address)
          | Some script \<Rightarrow>
              let v0 = at_opt script 0 = Some 0 \<and> (length script = 22 \<or> length script = 34);
                  v1 = at_opt script 0 = Some 0x51 \<and> length script = 34
              in if \<not> v0 \<and> \<not> v1 then Inl (err Invalid_address) else Inr addr)"

section \<open>Pollar\<close>

record pollar_wallet =
  w_type :: "string option"
  w_address :: "string option"

record verify_content =
  userId :: "string option"
  applicationId :: "string option"
  network :: "string option"
  wallet :: "pollar_wallet option"
  authProvider :: "string option"

record verify_body =
  success :: bool
  bodyCode :: "string option"
  content :: "verify_content option"

text \<open>An answer: none at all, or a status with the parsed body (the empty one when it is not JSON).\<close>

datatype pollar_answer = Unreachable | Answered int verify_body

record pollar_opts =
  po_applicationId :: string
  allowEmail :: bool

definition login_unavailable :: faucet_error where
  "login_unavailable = FaucetError Login_check_unavailable (Some 30)"

text \<open>\<^verbatim>\<open>/email|otp/.test(provider)\<close>.\<close>

fun contains_text :: "string \<Rightarrow> string \<Rightarrow> bool" where
  "contains_text p [] = (p = [])"
| "contains_text p (c # s) = (startsWith p (c # s) \<or> contains_text p s)"

definition verify_login ::
    "(string \<Rightarrow> string) \<Rightarrow> pollar_opts \<Rightarrow> pollar_answer \<Rightarrow> string \<Rightarrow> faucet_error + string \<times> string" where
  "verify_login userKeyFor opts ans stellar =
     (case ans of
        Unreachable \<Rightarrow> Inl login_unavailable
      | Answered st b \<Rightarrow>
         let bcode = (case bodyCode b of None \<Rightarrow> [] | Some c \<Rightarrow> c) in
         if \<not> (200 \<le> st \<and> st \<le> 299) then
           (if bcode = ''SDK_AUTH_TOKEN_EXPIRED'' then Inl (err Login_expired)
            else if bcode = ''SDK_AUTH_INVALID_TOKEN'' then Inl (err Login_invalid)
            else if bcode = ''SDK_TOKEN_WRONG_APPLICATION'' then Inl (err Login_wrong_app)
            else Inl login_unavailable)
         else case content b of
             None \<Rightarrow> Inl login_unavailable
           | Some c \<Rightarrow>
              if \<not> success b \<or> bcode \<noteq> ''SERVER_TOKEN_VERIFIED'' \<or> userId c = None \<or> userId c = Some []
              then Inl login_unavailable
              else if applicationId c \<noteq> Some (po_applicationId opts) then Inl (err Login_wrong_app)
              else if network c \<noteq> Some ''testnet'' then Inl (err Login_wrong_network)
              else (case wallet c of
                  None \<Rightarrow> Inl (err Login_not_social)
                | Some w \<Rightarrow>
                    if w_type w \<noteq> Some ''internal'' \<or> w_address w = None then Inl (err Login_not_social)
                    else if w_address w \<noteq> Some stellar then Inl (err Login_address_mismatch)
                    else let provider = (case authProvider c of None \<Rightarrow> [] | Some p \<Rightarrow> toLowerCase p) in
                      if \<not> allowEmail opts \<and> (contains_text ''email'' provider \<or> contains_text ''otp'' provider)
                      then Inl (err Login_provider_not_allowed)
                      else Inr (userKeyFor (the (userId c)), stellar)))"

section \<open>State\<close>

record faucet_settings =
  amount_sat :: int
  daily_cap :: nat
  ipClaimsPerWindow :: nat
  ipWindowMs :: int
  minFeeRate :: rat
  maxFeeRate :: rat

record address_utxo =
  a_txid :: string
  a_vout :: nat
  a_value :: int
  a_confirmed :: bool

record faucet_env =
  f_now :: "nat \<Rightarrow> int"
  f_utxos :: "nat \<Rightarrow> fetch_error + address_utxo list"
  f_estimate :: "nat \<Rightarrow> fetch_error + rat option"
  f_broadcast :: "nat \<Rightarrow> string \<Rightarrow> fetch_error + string"
  f_pollar :: "nat \<Rightarrow> string \<Rightarrow> pollar_answer"
  f_pollarOpts :: pollar_opts
  f_userKeyFor :: "string \<Rightarrow> string"
  f_lib :: btc_lib
  f_p2wpkh :: "buffer \<Rightarrow> string option"
  f_verifyMessage :: "string \<Rightarrow> string \<Rightarrow> buffer \<Rightarrow> bool"
  f_hashIp :: "string \<Rightarrow> string"
  f_address :: string

record pending_change =
  pc_utxo :: utxo
  pc_expiresAt :: int

record 's faucet =
  store :: 's
  nonces :: nonce_book
  reserved :: "(string, int) jsmap"
  pendingChange :: "pending_change list"
  balance_cache :: "(int \<times> int) option"
  fcalls :: nat
  paid :: "claim_record list"
  broadcasts :: "(string list \<times> int) list"

definition MAX_FAUCET_AMOUNT_SAT :: int where "MAX_FAUCET_AMOUNT_SAT = 50000"
definition MIN_FAUCET_AMOUNT_SAT :: int where "MIN_FAUCET_AMOUNT_SAT = 1000"
definition RESERVATION_TTL_MS :: int where "RESERVATION_TTL_MS = 30 * 60000"
definition FAUCET_BALANCE_CACHE_MS :: int where "FAUCET_BALANCE_CACHE_MS = 15000"

text \<open>The settings the constructor accepts.\<close>

definition settings_ok :: "faucet_settings \<Rightarrow> bool" where
  "settings_ok cfg \<longleftrightarrow> MIN_FAUCET_AMOUNT_SAT \<le> amount_sat cfg \<and> amount_sat cfg \<le> MAX_FAUCET_AMOUNT_SAT
     \<and> 1 \<le> ipClaimsPerWindow cfg \<and> 0 < ipWindowMs cfg"

definition outpoint :: "utxo \<Rightarrow> string" where
  "outpoint u = u_txid u @ '':'' @ dec_str (u_vout u)"

definition listed_utxo :: "address_utxo \<Rightarrow> utxo" where
  "listed_utxo a = \<lparr>u_txid = a_txid a, u_vout = a_vout a, u_value = a_value a\<rparr>"

type_synonym ('s, 'e, 'a) fact = "('s faucet, 'e, 'a) eff"

definition fask :: "(nat \<Rightarrow> 'a) \<Rightarrow> ('s, 'e, 'a) fact" where
  "fask f = (\<lambda>s. (s\<lparr>fcalls := Suc (fcalls s)\<rparr>, Inr (f (fcalls s))))"

definition fask_try :: "(nat \<Rightarrow> 'e + 'a) \<Rightarrow> ('s, 'e, 'a) fact" where
  "fask_try f = (\<lambda>s. (s\<lparr>fcalls := Suc (fcalls s)\<rparr>, f (fcalls s)))"

section \<open>Coins\<close>

text \<open>Confirmed coins first, larger first within each group, Esplora's order within ties.\<close>

definition sort_coins :: "address_utxo list \<Rightarrow> address_utxo list" where
  "sort_coins us = sort_key (\<lambda>a. if a_confirmed a then 0 else 1 :: nat) (sort_key (\<lambda>a. - a_value a) us)"

definition spendable :: "faucet_env \<Rightarrow> ('s, fetch_error, utxo list) fact" where
  "spendable env =
     eff_bind (fask (f_now env)) (\<lambda>t.
     eff_bind (eff_modify (\<lambda>s. s\<lparr>reserved := js_prune (\<lambda>e. \<not> e \<le> t) (reserved s),
         pendingChange := filter (\<lambda>c. pc_expiresAt c > t) (pendingChange s)\<rparr>)) (\<lambda>_.
     eff_bind (fask_try (f_utxos env)) (\<lambda>listed.
     let listedKeys = map (outpoint \<circ> listed_utxo) listed in
     eff_bind (eff_modify (\<lambda>s. s\<lparr>pendingChange :=
         filter (\<lambda>c. outpoint (pc_utxo c) \<notin> set listedKeys) (pendingChange s)\<rparr>)) (\<lambda>_.
     eff_gets (\<lambda>s.
       map listed_utxo (sort_coins (filter (\<lambda>a. \<not> js_has (reserved s) (outpoint (listed_utxo a))) listed))
       @ filter (\<lambda>u. \<not> js_has (reserved s) (outpoint u)) (map pc_utxo (pendingChange s)))))))"

definition faucet_feeRate :: "faucet_env \<Rightarrow> faucet_settings \<Rightarrow> ('s, fetch_error, rat) fact" where
  "faucet_feeRate env cfg =
     eff_bind (eff_catch (fask_try (f_estimate env)) (\<lambda>_. eff_return None)) (\<lambda>value.
     eff_return (min (maxFeeRate cfg) (max (minFeeRate cfg)
       (case value of None \<Rightarrow> minFeeRate cfg | Some v \<Rightarrow> v))))"

definition reserve :: "faucet_env \<Rightarrow> utxo list \<Rightarrow> ('s, 'e, unit) fact" where
  "reserve env us =
     eff_bind (fask (f_now env)) (\<lambda>t.
     eff_modify (\<lambda>s. s\<lparr>broadcasts := broadcasts s @ [(map outpoint us, t)],
       reserved := fold (\<lambda>u. js_set (outpoint u) (t + RESERVATION_TTL_MS)) us (reserved s),
       pendingChange := filter (\<lambda>c. outpoint (pc_utxo c) \<notin> outpoint ` set us) (pendingChange s)\<rparr>))"

section \<open>Limits\<close>

record claimant =
  cl_address :: string
  cl_stellar :: string
  cl_userKey :: "string option"

definition ceil_div :: "int \<Rightarrow> int \<Rightarrow> int" where
  "ceil_div a b = - ((- a) div b)"

definition check_limits :: "'s claim_ops \<Rightarrow> faucet_settings \<Rightarrow> claimant \<Rightarrow> string \<Rightarrow> int \<Rightarrow> 's \<Rightarrow> faucet_error + unit" where
  "check_limits ops cfg c ip t d =
     (if (case cl_userKey c of None \<Rightarrow> False | Some u \<Rightarrow> hasClaimForUser ops d u)
      then Inl (err Account_already_claimed)
      else if hasClaimForStellarAddress ops d (cl_stellar c) then Inl (err Stellar_address_already_claimed)
      else if hasClaimForAddress ops d (cl_address c) then Inl (err Signet_address_already_claimed)
      else let ipClaims = ipClaimsSince ops d ip (t - ipWindowMs cfg + 1) in
        if length ipClaims \<ge> ipClaimsPerWindow cfg
        then (let freesAt = ipClaims ! (length ipClaims - ipClaimsPerWindow cfg) + ipWindowMs cfg
              in Inl (FaucetError Ip_cooldown (Some (max 1 (ceil_div (freesAt - t) 1000)))))
        else let dayStart = startOfUtcDay t in
          if countSince ops d dayStart \<ge> daily_cap cfg
          then Inl (FaucetError Daily_cap_reached (Some (ceil_div (dayStart + 86400000 - t) 1000)))
          else Inr ())"

definition checkLimits :: "'s claim_ops \<Rightarrow> faucet_env \<Rightarrow> faucet_settings \<Rightarrow> claimant \<Rightarrow> string \<Rightarrow> ('s, faucet_error, unit) fact" where
  "checkLimits ops env cfg c ip =
     eff_bind (fask (f_now env)) (\<lambda>t.
     eff_bind (eff_gets (\<lambda>s. check_limits ops cfg c ip t (store s))) eff_lift)"

section \<open>Sending\<close>

record claim_result =
  res_txid :: string
  res_address :: string
  res_amount :: int
  res_fee :: int

definition upstream :: faucet_error where
  "upstream = FaucetError Upstream_unavailable (Some 30)"

definition rejected :: "fetch_error \<Rightarrow> bool" where
  "rejected e \<longleftrightarrow> (case e of EsploraStatus st _ \<Rightarrow> 400 \<le> st \<and> st < 500 \<and> st \<noteq> 429 | _ \<Rightarrow> False)"

text \<open>
  After a broadcast the network accepted: the reservations, the change, the record. The node's answer
  is only logged when it differs from the computed transaction id.
\<close>

definition settle_payment ::
    "'s claim_ops \<Rightarrow> faucet_env \<Rightarrow> faucet_settings \<Rightarrow> claimant \<Rightarrow> string \<Rightarrow> payment \<Rightarrow> ('s, faucet_error, claim_result) fact" where
  "settle_payment ops env cfg c ip pay =
     eff_bind (reserve env (inputs pay)) (\<lambda>_.
     eff_bind (if changeSat pay > 0
       then eff_bind (fask (f_now env)) (\<lambda>t. eff_modify (\<lambda>s. s\<lparr>pendingChange := pendingChange s @
              [\<lparr>pc_utxo = \<lparr>u_txid = p_txid pay, u_vout = 1, u_value = changeSat pay\<rparr>,
                pc_expiresAt = t + RESERVATION_TTL_MS\<rparr>]\<rparr>))
       else eff_return ()) (\<lambda>_.
     eff_bind (eff_modify (\<lambda>s. s\<lparr>balance_cache := None\<rparr>)) (\<lambda>_.
     eff_bind (fask (f_now env)) (\<lambda>t.
     let claim = \<lparr>address = cl_address c, ipHash = ip, userKey = the (cl_userKey c),
           stellarAddress = cl_stellar c, txid = p_txid pay, amountSat = amount_sat cfg, createdAt = t\<rparr> in
     eff_bind (eff_modify (\<lambda>s. s\<lparr>paid := paid s @ [claim],
         store := (case recordClaim ops claim (store s) of None \<Rightarrow> store s | Some d \<Rightarrow> d)\<rparr>)) (\<lambda>_.
     eff_return \<lparr>res_txid = p_txid pay, res_address = cl_address c, res_amount = amount_sat cfg,
       res_fee = feeSat pay\<rparr>)))))"

definition lift_upstream :: "('s, fetch_error, 'a) fact \<Rightarrow> ('s, faucet_error, 'a) fact" where
  "lift_upstream m = eff_catch m (\<lambda>_. eff_throw upstream)"

definition send :: "'s claim_ops \<Rightarrow> faucet_env \<Rightarrow> faucet_settings \<Rightarrow> claimant \<Rightarrow> string \<Rightarrow> ('s, faucet_error, claim_result) fact" where
  "send ops env cfg c ip =
     eff_bind (lift_upstream (eff_bind (spendable env) (\<lambda>us.
       eff_bind (faucet_feeRate env cfg) (\<lambda>rate. eff_return (us, rate))))) (\<lambda>(us, rate).
     (case buildP2wpkhPayment (f_lib env) us (cl_address c) (amount_sat cfg) rate of
        Inl (InsufficientFundsError _ _) \<Rightarrow> eff_throw (err Faucet_empty)
      | Inl e \<Rightarrow> eff_throw (PaymentFailed e)
      | Inr pay \<Rightarrow>
          eff_bind (fask (\<lambda>k. f_broadcast env k (p_txHex pay))) (\<lambda>answer.
          case answer of
            Inl e \<Rightarrow>
              if rejected e then eff_throw (err Broadcast_rejected)
              else eff_bind (reserve env (inputs pay)) (\<lambda>_. eff_throw upstream)
          | Inr _ \<Rightarrow> settle_payment ops env cfg c ip pay)))"

section \<open>A claim\<close>

text \<open>Up to the call to Pollar. The result is what the rest of the claim needs.\<close>

definition claim_begin ::
    "'s claim_ops \<Rightarrow> faucet_env \<Rightarrow> faucet_settings \<Rightarrow> raw_body \<Rightarrow> string
     \<Rightarrow> ('s, faucet_error, claim_request \<times> string \<times> string) fact" where
  "claim_begin ops env cfg raw ip =
     eff_bind (eff_lift (parseClaimRequest raw)) (\<lambda>req.
     eff_bind (eff_gets (\<lambda>s. js_get (nonces s) (nonce req))) (\<lambda>known.
     eff_bind (if known = None then eff_return False
       else eff_bind (fask (f_now env)) (\<lambda>t.
            eff_bind (eff_gets (\<lambda>s. snd (nonce_consume (nonce req) t (nonces s)))) (\<lambda>fresh.
            eff_bind (eff_modify (\<lambda>s. s\<lparr>nonces := fst (nonce_consume (nonce req) t (nonces s))\<rparr>)) (\<lambda>_.
            eff_return fresh)))) (\<lambda>fresh.
     if \<not> fresh then eff_throw (err Nonce_invalid) else
     eff_bind (eff_lift (normalizeSignetAddress (f_lib env) (Some (signetAddress req)))) (\<lambda>addr.
     if addr = f_address env then eff_throw (err Faucet_address) else
     let pubkey = bytes_of_hex (signetPubkey req) in
     if f_p2wpkh env pubkey \<noteq> Some addr then eff_throw (err Address_key_mismatch) else
     if \<not> f_verifyMessage env (faucetClaimMessage (nonce req) (reqStellarAddress req) addr) (keySig req) pubkey
     then eff_throw (err Bad_signature) else
     let ih = f_hashIp env ip in
     eff_bind (checkLimits ops env cfg
         \<lparr>cl_address = addr, cl_stellar = reqStellarAddress req, cl_userKey = None\<rparr> ih) (\<lambda>_.
     eff_return (req, addr, ih))))))"

text \<open>Pollar's answer and the checks before queueing.\<close>

definition claim_verify ::
    "'s claim_ops \<Rightarrow> faucet_env \<Rightarrow> faucet_settings \<Rightarrow> claim_request \<Rightarrow> string \<Rightarrow> string
     \<Rightarrow> ('s, faucet_error, claimant) fact" where
  "claim_verify ops env cfg req addr ih =
     eff_bind (fask_try (\<lambda>k. verify_login (f_userKeyFor env) (f_pollarOpts env)
         (f_pollar env k (pollarAccessToken req)) (reqStellarAddress req))) (\<lambda>(user, stellar).
     let c = \<lparr>cl_address = addr, cl_stellar = stellar, cl_userKey = Some user\<rparr> in
     eff_bind (checkLimits ops env cfg c ih) (\<lambda>_. eff_return c))"

text \<open>Inside the lock.\<close>

definition claim_send ::
    "'s claim_ops \<Rightarrow> faucet_env \<Rightarrow> faucet_settings \<Rightarrow> claimant \<Rightarrow> string \<Rightarrow> ('s, faucet_error, claim_result) fact" where
  "claim_send ops env cfg c ih =
     eff_bind (checkLimits ops env cfg c ih) (\<lambda>_. send ops env cfg c ih)"

definition claim ::
    "'s claim_ops \<Rightarrow> faucet_env \<Rightarrow> faucet_settings \<Rightarrow> raw_body \<Rightarrow> string \<Rightarrow> ('s, faucet_error, claim_result) fact" where
  "claim ops env cfg raw ip =
     eff_bind (claim_begin ops env cfg raw ip) (\<lambda>(req, addr, ih).
     eff_bind (claim_verify ops env cfg req addr ih) (\<lambda>c.
     claim_send ops env cfg c ih))"

definition issueNonce :: "faucet_env \<Rightarrow> string \<Rightarrow> ('s, 'e, string \<times> int) fact" where
  "issueNonce env r =
     eff_bind (fask (f_now env)) (\<lambda>t1. eff_bind (fask (f_now env)) (\<lambda>t2.
     eff_bind (eff_gets (\<lambda>s. snd (nonce_issue r t1 t2 NONCE_TTL_MS (nonces s)))) (\<lambda>n.
     eff_bind (eff_modify (\<lambda>s. s\<lparr>nonces := fst (nonce_issue r t1 t2 NONCE_TTL_MS (nonces s))\<rparr>)) (\<lambda>_.
     eff_return n))))"

section \<open>Status\<close>

record faucet_status_view =
  st_remainingToday :: nat
  st_resetsAt :: int
  st_funded :: "bool option"

definition faucet_balance :: "faucet_env \<Rightarrow> int \<Rightarrow> ('s, faucet_error, int option) fact" where
  "faucet_balance env t =
     eff_bind (eff_gets balance_cache) (\<lambda>cached.
     if (case cached of None \<Rightarrow> False | Some (stamp, sats) \<Rightarrow> t - stamp < FAUCET_BALANCE_CACHE_MS)
     then eff_return (map_option snd cached)
     else eff_catch (eff_bind (spendable env) (\<lambda>us.
            eff_bind (eff_modify (\<lambda>s. s\<lparr>balance_cache := Some (t, sum_value us)\<rparr>)) (\<lambda>_.
            eff_return (Some (sum_value us)))))
          (\<lambda>_. eff_return None))"

definition faucet_status :: "'s claim_ops \<Rightarrow> faucet_env \<Rightarrow> faucet_settings \<Rightarrow> ('s, faucet_error, faucet_status_view) fact" where
  "faucet_status ops env cfg =
     eff_bind (fask (f_now env)) (\<lambda>t.
     let dayStart = startOfUtcDay t in
     eff_bind (eff_gets (\<lambda>s. countSince ops (store s) dayStart)) (\<lambda>claimsToday.
     eff_bind (faucet_balance env t) (\<lambda>bal.
     let perClaim = amount_sat cfg + fee_for 1 [replicate 34 0, replicate 22 0] (minFeeRate cfg) in
     eff_return \<lparr>st_remainingToday = daily_cap cfg - claimsToday, st_resetsAt = dayStart + 86400000,
       st_funded = map_option (\<lambda>b. b \<ge> perClaim) bal\<rparr>)))"

end
