(* ===== verification/FaucetProps.thy ===== *)
theory FaucetProps
  imports Faucet
begin

text \<open>
  What the faucet promises whatever the order of claims, status reads and challenges: one payment
  ever per account, Stellar address and Signet address, at most the daily cap per UTC day, and no
  coin spent twice while its reservation lasts.
\<close>

section \<open>Every event of the service\<close>

inductive faucet_reaches :: "'s claim_ops \<Rightarrow> faucet_env \<Rightarrow> faucet_settings \<Rightarrow> 's faucet \<Rightarrow> 's faucet \<Rightarrow> bool"
  for ops env cfg s0 where
  here: "faucet_reaches ops env cfg s0 s0"
| challenge: "faucet_reaches ops env cfg s0 s \<Longrightarrow>
    faucet_reaches ops env cfg s0 (fst ((issueNonce env r :: ('s, faucet_error, string \<times> int) fact) s))"
| began: "faucet_reaches ops env cfg s0 s \<Longrightarrow> faucet_reaches ops env cfg s0 (fst (claim_begin ops env cfg raw ip s))"
| verified: "faucet_reaches ops env cfg s0 s \<Longrightarrow>
    faucet_reaches ops env cfg s0 (fst (claim_verify ops env cfg req a ih s))"
| sent: "faucet_reaches ops env cfg s0 s \<Longrightarrow> cl_userKey c = Some u \<Longrightarrow>
    faucet_reaches ops env cfg s0 (fst (claim_send ops env cfg c ih s))"
| status: "faucet_reaches ops env cfg s0 s \<Longrightarrow> faucet_reaches ops env cfg s0 (fst (faucet_status ops env cfg s))"

section \<open>What leaves the claims alone\<close>

definition idle :: "'s \<Rightarrow> claim_record list \<Rightarrow> nat \<Rightarrow> 's faucet \<Rightarrow> bool" where
  "idle D P K s \<longleftrightarrow> store s = D \<and> paid s = P \<and> K \<le> fcalls s"

lemma keeps_fask [intro]: "keeps (idle D P K) (fask f)"
  by (simp add: keeps_def fask_def idle_def)

lemma keeps_fask_try [intro]: "keeps (idle D P K) (fask_try f)"
  by (simp add: keeps_def fask_try_def idle_def)

lemma keeps_fmod [intro]:
  "(\<And>s. store (f s) = store s) \<Longrightarrow> (\<And>s. paid (f s) = paid s) \<Longrightarrow> (\<And>s. fcalls (f s) = fcalls s) \<Longrightarrow>
   keeps (idle D P K) (eff_modify f)"
  by (simp add: keeps_def eff_modify_def idle_def)

lemma keeps_spendable [intro]: "keeps (idle D P K) (spendable env)"
  unfolding spendable_def Let_def by (intro keeps_bind keeps_fask keeps_fask_try keeps_gets keeps_fmod) simp_all

lemma keeps_fee [intro]: "keeps (idle D P K) (faucet_feeRate env cfg)"
  unfolding faucet_feeRate_def by (intro keeps_bind keeps_catch keeps_fask_try keeps_return)

lemma keeps_reserve [intro]: "keeps (idle D P K) (reserve env us)"
  unfolding reserve_def by (intro keeps_bind keeps_fask keeps_fmod) simp_all

lemma keeps_limits [intro]: "keeps (idle D P K) (checkLimits ops env cfg c ip)"
  unfolding checkLimits_def by (intro keeps_bind keeps_fask keeps_gets keeps_lift)

lemma keeps_issue [intro]: "keeps (idle D P K) (issueNonce env r)"
  unfolding issueNonce_def by (intro keeps_bind keeps_fask keeps_gets keeps_return keeps_fmod) simp_all

lemma keeps_begin [intro]: "keeps (idle D P K) (claim_begin ops env cfg raw ip)"
  unfolding claim_begin_def Let_def
  by (intro keeps_bind keeps_if keeps_fask keeps_gets keeps_lift keeps_return keeps_throw keeps_limits keeps_fmod) simp_all

lemma keeps_prod: "(\<And>a b. p = (a, b) \<Longrightarrow> keeps P (f a b)) \<Longrightarrow> keeps P (case p of (a, b) \<Rightarrow> f a b)"
  by (cases p) simp

lemma keeps_verify [intro]: "keeps (idle D P K) (claim_verify ops env cfg req a ih)"
  unfolding claim_verify_def Let_def
  by (intro keeps_bind keeps_prod keeps_fask_try keeps_limits keeps_return)

lemma keeps_balance [intro]: "keeps (idle D P K) (faucet_balance env t)"
  unfolding faucet_balance_def
  by (intro keeps_bind keeps_if keeps_catch keeps_gets keeps_return keeps_spendable keeps_fmod) simp_all

lemma keeps_status [intro]: "keeps (idle D P K) (faucet_status ops env cfg)"
  unfolding faucet_status_def Let_def by (intro keeps_bind keeps_fask keeps_gets keeps_balance keeps_return)

lemma idle_step: "keeps (idle (store s) (paid s) (fcalls s)) m \<Longrightarrow> idle (store s) (paid s) (fcalls s) (fst (m s))"
  by (simp add: keeps_def idle_def)

lemma keeps_triple: "keeps P m \<Longrightarrow> triple P m (\<lambda>_. P) P"
  unfolding keeps_def triple_def by (auto split: prod.split sum.split)

lemma triple_keeps: "triple P m Q E \<Longrightarrow> (\<And>x s. Q x s \<Longrightarrow> P s) \<Longrightarrow> (\<And>s. E s \<Longrightarrow> P s) \<Longrightarrow> keeps P m"
  unfolding keeps_def triple_def
proof (intro allI impI)
  fix s
  assume t: "\<forall>s. P s \<longrightarrow> (case m s of (s', Inl e) \<Rightarrow> E s' | (s', Inr x) \<Rightarrow> Q x s')" and s: "P s"
    and QE: "\<And>x s. Q x s \<Longrightarrow> P s" "\<And>s. E s \<Longrightarrow> P s"
  obtain s' r where m: "m s = (s', r)" by fastforce
  from t s m have "case r of Inl e \<Rightarrow> E s' | Inr x \<Rightarrow> Q x s'" by (auto dest: spec [of _ s] split: sum.splits)
  then show "P (fst (m s))" using m QE by (cases r) simp_all
qed

section \<open>A payment\<close>

definition new_claim :: "faucet_env \<Rightarrow> faucet_settings \<Rightarrow> claimant \<Rightarrow> string \<Rightarrow> string \<Rightarrow> nat \<Rightarrow> claim_record" where
  "new_claim env cfg c ip x k = \<lparr>address = cl_address c, ipHash = ip, userKey = the (cl_userKey c),
     stellarAddress = cl_stellar c, txid = x, amountSat = amount_sat cfg, createdAt = f_now env k\<rparr>"

definition recorded :: "'s claim_ops \<Rightarrow> faucet_env \<Rightarrow> faucet_settings \<Rightarrow> claimant \<Rightarrow> string \<Rightarrow> 's \<Rightarrow> claim_record list \<Rightarrow> nat \<Rightarrow> 's faucet \<Rightarrow> bool" where
  "recorded ops env cfg c ip D P K s \<longleftrightarrow>
     (\<exists>k x. K \<le> k \<and> k < fcalls s \<and> paid s = P @ [new_claim env cfg c ip x k]
        \<and> store s = (case recordClaim ops (new_claim env cfg c ip x k) D of None \<Rightarrow> D | Some d \<Rightarrow> d))"

lemma settle_payment_triple:
  "triple (idle D P K) (settle_payment ops env cfg c ip pay) (\<lambda>_. recorded ops env cfg c ip D P K) (idle D P K)"
proof -
  have change: "keeps (idle D P K) (if changeSat pay > 0
       then eff_bind (fask (f_now env)) (\<lambda>t. eff_modify (\<lambda>s. s\<lparr>pendingChange := pendingChange s @
              [\<lparr>pc_utxo = \<lparr>u_txid = p_txid pay, u_vout = 1, u_value = changeSat pay\<rparr>,
                pc_expiresAt = t + RESERVATION_TTL_MS\<rparr>]\<rparr>))
       else eff_return ())"
    by (intro keeps_if keeps_bind keeps_fask keeps_return keeps_fmod) simp_all
  have cache: "keeps (idle D P K) (eff_modify (\<lambda>s. s\<lparr>balance_cache := None\<rparr>))"
    by (rule keeps_fmod) simp_all
  have last: "triple (idle D P K) (eff_bind (fask (f_now env)) (\<lambda>t.
     eff_bind (eff_modify (\<lambda>s. s\<lparr>paid := paid s @ [\<lparr>address = cl_address c, ipHash = ip, userKey = the (cl_userKey c),
           stellarAddress = cl_stellar c, txid = p_txid pay, amountSat = amount_sat cfg, createdAt = t\<rparr>],
         store := (case recordClaim ops \<lparr>address = cl_address c, ipHash = ip, userKey = the (cl_userKey c),
           stellarAddress = cl_stellar c, txid = p_txid pay, amountSat = amount_sat cfg, createdAt = t\<rparr> (store s) of
             None \<Rightarrow> store s | Some d \<Rightarrow> d)\<rparr>)) (\<lambda>_.
     eff_return \<lparr>res_txid = p_txid pay, res_address = cl_address c, res_amount = amount_sat cfg,
       res_fee = feeSat pay\<rparr>))) (\<lambda>_. recorded ops env cfg c ip D P K) (idle D P K)"
    unfolding triple_def
  proof (intro allI impI)
    fix s :: "'a faucet"
    assume s: "idle D P K s"
    let ?c = "new_claim env cfg c ip (p_txid pay) (fcalls s)"
    have "recorded ops env cfg c ip D P K (s\<lparr>fcalls := Suc (fcalls s), paid := paid s @ [?c],
        store := (case recordClaim ops ?c (store s) of None \<Rightarrow> store s | Some d \<Rightarrow> d)\<rparr>)"
      unfolding recorded_def
      by (rule exI [of _ "fcalls s"], rule exI [of _ "p_txid pay"]) (use s in \<open>auto simp: idle_def split: option.split\<close>)
    then show "case (eff_bind (fask (f_now env)) (\<lambda>t.
     eff_bind (eff_modify (\<lambda>s. s\<lparr>paid := paid s @ [\<lparr>address = cl_address c, ipHash = ip, userKey = the (cl_userKey c),
           stellarAddress = cl_stellar c, txid = p_txid pay, amountSat = amount_sat cfg, createdAt = t\<rparr>],
         store := (case recordClaim ops \<lparr>address = cl_address c, ipHash = ip, userKey = the (cl_userKey c),
           stellarAddress = cl_stellar c, txid = p_txid pay, amountSat = amount_sat cfg, createdAt = t\<rparr> (store s) of
             None \<Rightarrow> store s | Some d \<Rightarrow> d)\<rparr>)) (\<lambda>_.
     eff_return \<lparr>res_txid = p_txid pay, res_address = cl_address c, res_amount = amount_sat cfg,
       res_fee = feeSat pay\<rparr>))) s of
         (s', Inl e) \<Rightarrow> idle D P K s' | (s', Inr x) \<Rightarrow> recorded ops env cfg c ip D P K s'"
      by (simp add: eff_defs fask_def new_claim_def cong: option.case_cong)
  qed
  show ?thesis
    unfolding settle_payment_def Let_def
    by (rule triple_seq [OF keeps_triple [OF keeps_reserve]], rule triple_seq [OF keeps_triple [OF change]],
        rule triple_seq [OF keeps_triple [OF cache]], rule last)
qed

lemma send_triple:
  "triple (idle D P K) (send ops env cfg c ip) (\<lambda>_. recorded ops env cfg c ip D P K) (idle D P K)"
proof -
  have coins: "keeps (idle D P K) (lift_upstream (eff_bind (spendable env) (\<lambda>us.
       eff_bind (faucet_feeRate env cfg) (\<lambda>rate. eff_return (us, rate)))))"
    unfolding lift_upstream_def
    by (intro keeps_catch keeps_bind keeps_spendable keeps_fee keeps_return keeps_throw)
  have throws: "triple (idle D P K) (eff_throw e) Q (idle D P K)" for e and Q :: "claim_result \<Rightarrow> 'a faucet \<Rightarrow> bool"
    by (simp add: triple_def eff_throw_def)
  have broadcast: "triple (idle D P K) (eff_bind (fask (\<lambda>k. f_broadcast env k (p_txHex pay))) (\<lambda>answer.
          case answer of
            Inl e \<Rightarrow>
              if rejected e then eff_throw (err Broadcast_rejected)
              else eff_bind (reserve env (inputs pay)) (\<lambda>_. eff_throw upstream)
          | Inr _ \<Rightarrow> settle_payment ops env cfg c ip pay)) (\<lambda>_. recorded ops env cfg c ip D P K) (idle D P K)" for pay
  proof (rule triple_seq [OF keeps_triple [OF keeps_fask]])
    fix answer
    show "triple (idle D P K) (case answer of
            Inl e \<Rightarrow>
              if rejected e then eff_throw (err Broadcast_rejected)
              else eff_bind (reserve env (inputs pay)) (\<lambda>_. eff_throw upstream)
          | Inr _ \<Rightarrow> settle_payment ops env cfg c ip pay) (\<lambda>_. recorded ops env cfg c ip D P K) (idle D P K)"
      by (cases answer)
        (auto intro!: settle_payment_triple throws triple_seq [OF keeps_triple [OF keeps_reserve]])
  qed
  show ?thesis
    unfolding send_def
  proof (rule triple_seq [OF keeps_triple [OF coins]])
    fix x :: "utxo list \<times> rat"
    obtain us rate where x: "x = (us, rate)" by (cases x)
    show "triple (idle D P K) (case x of (us, rate) \<Rightarrow>
      (case buildP2wpkhPayment (f_lib env) us (cl_address c) (amount_sat cfg) rate of
        Inl (InsufficientFundsError _ _) \<Rightarrow> eff_throw (err Faucet_empty)
      | Inl e \<Rightarrow> eff_throw (PaymentFailed e)
      | Inr pay \<Rightarrow>
          eff_bind (fask (\<lambda>k. f_broadcast env k (p_txHex pay))) (\<lambda>answer.
          case answer of
            Inl e \<Rightarrow>
              if rejected e then eff_throw (err Broadcast_rejected)
              else eff_bind (reserve env (inputs pay)) (\<lambda>_. eff_throw upstream)
          | Inr _ \<Rightarrow> settle_payment ops env cfg c ip pay))) (\<lambda>_. recorded ops env cfg c ip D P K) (idle D P K)"
    proof (cases "buildP2wpkhPayment (f_lib env) us (cl_address c) (amount_sat cfg) rate")
      case (Inl e)
      then show ?thesis by (cases e) (simp_all add: x throws)
    next
      case (Inr pay)
      with broadcast show ?thesis by (simp add: x)
    qed
  qed
qed

text \<open>The send of a claim: nothing recorded, or one claim recorded after its limits passed.\<close>

lemma claim_send_cases:
  obtains (nothing) "idle (store s) (paid s) (fcalls s) (fst (claim_send ops env cfg c ip s))"
  | (payment) "check_limits ops cfg c ip (f_now env (fcalls s)) (store s) = Inr ()"
      "recorded ops env cfg c ip (store s) (paid s) (fcalls s) (fst (claim_send ops env cfg c ip s))"
proof -
  let ?s = "s\<lparr>fcalls := Suc (fcalls s)\<rparr>"
  have run: "claim_send ops env cfg c ip s =
      (case check_limits ops cfg c ip (f_now env (fcalls s)) (store s) of
         Inl e \<Rightarrow> (?s, Inl e) | Inr _ \<Rightarrow> send ops env cfg c ip ?s)"
    by (simp add: claim_send_def checkLimits_def eff_bind_def fask_def eff_gets_def eff_lift_def split: sum.split)
  show ?thesis
  proof (cases "check_limits ops cfg c ip (f_now env (fcalls s)) (store s)")
    case (Inl e)
    have "idle (store s) (paid s) (fcalls s) (fst (claim_send ops env cfg c ip s))" by (simp add: run Inl idle_def)
    then show ?thesis by (rule nothing)
  next
    case lim: (Inr u)
    obtain s' r where r: "send ops env cfg c ip ?s = (s', r)" by fastforce
    have idle0: "idle (store s) (paid s) (fcalls s) ?s" by (simp add: idle_def)
    show ?thesis
    proof (cases r)
      case (Inl e)
      with r run lim have "idle (store s) (paid s) (fcalls s) (fst (claim_send ops env cfg c ip s))"
        using tripleD_throw [OF send_triple idle0] by simp
      then show ?thesis by (rule nothing)
    next
      case (Inr res)
      with r run lim have "recorded ops env cfg c ip (store s) (paid s) (fcalls s) (fst (claim_send ops env cfg c ip s))"
        using tripleD [OF send_triple idle0] by simp
      then show ?thesis using lim by (intro payment) simp_all
    qed
  qed
qed

section \<open>The limits hold of what the store holds\<close>

definition on_day :: "int \<Rightarrow> claim_row list \<Rightarrow> nat" where
  "on_day d rs = length (filter (\<lambda>r. startOfUtcDay (c_created_at r) = startOfUtcDay d) rs)"

definition in_window :: "faucet_settings \<Rightarrow> string \<Rightarrow> int \<Rightarrow> claim_row list \<Rightarrow> nat" where
  "in_window cfg ip t rs = length (filter (\<lambda>r. c_ip_hash r = ip \<and> t - ipWindowMs cfg < c_created_at r \<and> c_created_at r \<le> t) rs)"

definition within_limits :: "faucet_settings \<Rightarrow> claim_row list \<Rightarrow> bool" where
  "within_limits cfg rs \<longleftrightarrow> (\<forall>d. on_day d rs \<le> daily_cap cfg) \<and> (\<forall>ip t. in_window cfg ip t rs \<le> ipClaimsPerWindow cfg)"

definition paid_once :: "claim_row list \<Rightarrow> claim_record list \<Rightarrow> bool" where
  "paid_once rs P \<longleftrightarrow> distinct (map address P) \<and> distinct (map userKey P) \<and> distinct (map stellarAddress P)
     \<and> (\<forall>c\<in>set P. \<forall>r\<in>set rs. c_address r \<noteq> address c \<and> c_user_key r \<noteq> Some (userKey c)
          \<and> c_stellar_address r \<noteq> Some (stellarAddress c))"

lemma within_limits_extend:
  assumes lim: "within_limits cfg rs" and past: "\<And>r. r \<in> set rs \<Longrightarrow> c_created_at r \<le> t0"
    and day: "length (filter (\<lambda>r. c_created_at r \<ge> startOfUtcDay t0) rs) < daily_cap cfg"
    and window: "length (filter (\<lambda>r. c_ip_hash r = c_ip_hash x \<and> c_created_at r \<ge> t0 - ipWindowMs cfg + 1) rs) < ipClaimsPerWindow cfg"
    and later: "t0 \<le> c_created_at x"
  shows "within_limits cfg (rs @ [x])"
proof -
  have "on_day d (rs @ [x]) \<le> daily_cap cfg" for d
  proof (cases "startOfUtcDay (c_created_at x) = startOfUtcDay d")
    case True
    have "startOfUtcDay t0 \<le> c_created_at r" if "startOfUtcDay (c_created_at r) = startOfUtcDay d" for r
      using that True startOfUtcDay_mono [OF later] startOfUtcDay_le [of "c_created_at r"] by simp
    then have "on_day d rs \<le> length (filter (\<lambda>r. c_created_at r \<ge> startOfUtcDay t0) rs)"
      unfolding on_day_def by (intro length_filter_mono)
    with day True show ?thesis by (simp add: on_day_def)
  next
    case False
    with lim show ?thesis by (simp add: within_limits_def on_day_def)
  qed
  moreover have "in_window cfg ip t (rs @ [x]) \<le> ipClaimsPerWindow cfg" for ip t
  proof (cases "c_ip_hash x = ip \<and> t - ipWindowMs cfg < c_created_at x \<and> c_created_at x \<le> t")
    case True
    with later have "in_window cfg ip t rs
        \<le> length (filter (\<lambda>r. c_ip_hash r = c_ip_hash x \<and> c_created_at r \<ge> t0 - ipWindowMs cfg + 1) rs)"
      unfolding in_window_def by (intro length_filter_mono) auto
    with window True show ?thesis by (simp add: in_window_def)
  next
    case False
    with lim show ?thesis by (auto simp: within_limits_def in_window_def)
  qed
  ultimately show ?thesis by (simp add: within_limits_def)
qed

context claim_store
begin

lemma check_limits_Inr:
  assumes "check_limits ops cfg c ip t d = Inr ()" "cl_userKey c = Some u"
  shows "\<not> hasClaimForUser ops d u" "\<not> hasClaimForStellarAddress ops d (cl_stellar c)"
    "\<not> hasClaimForAddress ops d (cl_address c)"
    "length (filter (\<lambda>r. c_ip_hash r = ip \<and> c_created_at r \<ge> t - ipWindowMs cfg + 1) (rows d)) < ipClaimsPerWindow cfg"
    "length (filter (\<lambda>r. c_created_at r \<ge> startOfUtcDay t) (rows d)) < daily_cap cfg"
  using assms by (auto simp: check_limits_def Let_def ip_since count_since split: if_splits)

definition sound :: "faucet_env \<Rightarrow> faucet_settings \<Rightarrow> claim_row list \<Rightarrow> 's faucet \<Rightarrow> bool" where
  "sound env cfg rs0 s \<longleftrightarrow> ok (store s) \<and> rows (store s) = rs0 @ map claim_to_row (paid s)
     \<and> paid_once rs0 (paid s) \<and> within_limits cfg (rows (store s))
     \<and> (\<forall>r\<in>set (rows (store s)). c_created_at r \<le> f_now env (fcalls s))"

lemma sound_idle:
  assumes "mono (f_now env)" "sound env cfg rs0 s" "idle (store s) (paid s) (fcalls s) s'"
  shows "sound env cfg rs0 s'"
proof -
  have "f_now env (fcalls s) \<le> f_now env (fcalls s')" using assms by (simp add: idle_def monoD)
  with assms(2, 3) show ?thesis by (auto simp: sound_def idle_def intro: order_trans)
qed

lemma sound_recorded:
  assumes clock: "mono (f_now env)" and s: "sound env cfg rs0 s"
    and lim: "check_limits ops cfg c ip (f_now env (fcalls s)) (store s) = Inr ()" and u: "cl_userKey c = Some u"
    and rec: "recorded ops env cfg c ip (store s) (paid s) (fcalls s) s'"
  shows "sound env cfg rs0 s'"
proof -
  from rec obtain k x where k: "fcalls s \<le> k" "k < fcalls s'" and P: "paid s' = paid s @ [new_claim env cfg c ip x k]"
    and S: "store s' = (case recordClaim ops (new_claim env cfg c ip x k) (store s) of None \<Rightarrow> store s | Some d \<Rightarrow> d)"
    unfolding recorded_def by blast
  let ?n = "new_claim env cfg c ip x k"
  have n: "address ?n = cl_address c" "userKey ?n = u" "stellarAddress ?n = cl_stellar c" "ipHash ?n = ip"
    "createdAt ?n = f_now env k" by (simp_all add: new_claim_def u)
  note L = check_limits_Inr [OF lim u]
  from s have sok: "ok (store s)" and R: "rows (store s) = rs0 @ map claim_to_row (paid s)" by (simp_all add: sound_def)
  from record_new [OF sok, of ?n] L n obtain d where d: "recordClaim ops ?n (store s) = Some d" "ok d"
    "rows d = rows (store s) @ [claim_to_row ?n]" by auto
  have t: "f_now env (fcalls s) \<le> f_now env k" "f_now env k \<le> f_now env (fcalls s')"
    using clock k by (simp_all add: monoD)
  have past: "\<And>r. r \<in> set (rows (store s)) \<Longrightarrow> c_created_at r \<le> f_now env (fcalls s)"
    using s by (simp add: sound_def)
  have within: "within_limits cfg (rows (store s) @ [claim_to_row ?n])"
    using L(4, 5) t past s n by (intro within_limits_extend [where ?t0.0 = "f_now env (fcalls s)"])
      (auto simp: sound_def claim_to_row_def)
  have fresh: "\<And>r. r \<in> set (rows (store s)) \<Longrightarrow> c_address r \<noteq> cl_address c \<and> c_user_key r \<noteq> Some u
      \<and> c_stellar_address r \<noteq> Some (cl_stellar c)"
    using L(1-3) by (auto simp: has_address has_user has_stellar)
  have "address q \<noteq> cl_address c \<and> userKey q \<noteq> u \<and> stellarAddress q \<noteq> cl_stellar c" if "q \<in> set (paid s)" for q
    using fresh [of "claim_to_row q"] that by (simp add: R claim_to_row_def)
  then have fresh_paid: "cl_address c \<notin> address ` set (paid s)" "u \<notin> userKey ` set (paid s)"
    "cl_stellar c \<notin> stellarAddress ` set (paid s)" by (force simp: image_iff)+
  have "paid_once rs0 (paid s')"
    using s fresh fresh_paid by (auto simp: sound_def P R paid_once_def n)
  with d within t past show ?thesis by (auto simp: sound_def S P R claim_to_row_def n intro: order_trans)
qed

theorem sound_reaches:
  assumes "faucet_reaches ops env cfg s0 s" "mono (f_now env)" "sound env cfg rs0 s0"
  shows "sound env cfg rs0 s"
  using assms(1, 3)
proof (induction rule: faucet_reaches.induct)
  case (sent s c u ih)
  then have s: "sound env cfg rs0 s" by simp
  show ?case
  proof (rule claim_send_cases [of s ops env cfg c ih])
    assume "idle (store s) (paid s) (fcalls s) (fst (claim_send ops env cfg c ih s))"
    then show ?thesis by (rule sound_idle [OF assms(2) s])
  next
    assume lim: "check_limits ops cfg c ih (f_now env (fcalls s)) (store s) = Inr ()"
      and rec: "recorded ops env cfg c ih (store s) (paid s) (fcalls s) (fst (claim_send ops env cfg c ih s))"
    show ?thesis by (rule sound_recorded [OF assms(2) s lim sent.hyps(2) rec])
  qed
next
  case (challenge s r)
  have "idle (store s) (paid s) (fcalls s) (fst ((issueNonce env r :: ('s, faucet_error, string \<times> int) fact) s))"
    by (rule idle_step [OF keeps_issue])
  then show ?case by (rule sound_idle [OF assms(2) challenge.IH [OF challenge.prems]])
next
  case (began s raw ip)
  have "idle (store s) (paid s) (fcalls s) (fst (claim_begin ops env cfg raw ip s))"
    by (rule idle_step [OF keeps_begin])
  then show ?case by (rule sound_idle [OF assms(2) began.IH [OF began.prems]])
next
  case (verified s req a ih)
  have "idle (store s) (paid s) (fcalls s) (fst (claim_verify ops env cfg req a ih s))"
    by (rule idle_step [OF keeps_verify])
  then show ?case by (rule sound_idle [OF assms(2) verified.IH [OF verified.prems]])
next
  case (status s)
  have "idle (store s) (paid s) (fcalls s) (fst (faucet_status ops env cfg s))"
    by (rule idle_step [OF keeps_status])
  then show ?case by (rule sound_idle [OF assms(2) status.IH [OF status.prems]])
qed simp

end

section \<open>Coins of a broadcast stay out of the next ones\<close>

definition no_reuse :: "(string list \<times> int) list \<Rightarrow> bool" where
  "no_reuse bs \<longleftrightarrow> sorted_wrt (\<lambda>(os, t) (os', t'). set os \<inter> set os' \<noteq> {} \<longrightarrow> t + RESERVATION_TTL_MS \<le> t') bs"

definition held :: "faucet_env \<Rightarrow> 's faucet \<Rightarrow> string list \<times> int \<Rightarrow> bool" where
  "held env s b \<longleftrightarrow> snd b \<le> f_now env (fcalls s)
     \<and> (\<forall>x\<in>set (fst b). (\<exists>e. js_get (reserved s) x = Some e \<and> snd b + RESERVATION_TTL_MS \<le> e)
          \<or> snd b + RESERVATION_TTL_MS \<le> f_now env (fcalls s))"

text \<open>The invariant, together with the coins \<open>us\<close> a send has in hand.\<close>

definition kept_out :: "faucet_env \<Rightarrow> utxo list \<Rightarrow> 's faucet \<Rightarrow> bool" where
  "kept_out env us s \<longleftrightarrow> js_ok (reserved s) \<and> no_reuse (broadcasts s) \<and> (\<forall>b\<in>set (broadcasts s). held env s b)
     \<and> (\<forall>u\<in>set us. \<not> js_has (reserved s) (outpoint u))"

lemma held_later:
  assumes "mono (f_now env)" "held env s b" "reserved s' = reserved s" "fcalls s \<le> fcalls s'"
  shows "held env s' b"
proof -
  have "f_now env (fcalls s) \<le> f_now env (fcalls s')" using assms by (simp add: monoD)
  with assms(2, 3) show ?thesis unfolding held_def by (auto intro: order_trans)
qed

lemma kept_out_later:
  assumes "mono (f_now env)" "kept_out env us s" "reserved s' = reserved s" "broadcasts s' = broadcasts s" "fcalls s \<le> fcalls s'"
  shows "kept_out env us s'"
  using assms held_later [OF assms(1) _ assms(3) assms(5)] by (simp add: kept_out_def)

lemma kept_out_fewer: "kept_out env us s \<Longrightarrow> set vs \<subseteq> set us \<Longrightarrow> kept_out env vs s"
  by (auto simp: kept_out_def)

lemma held_prune:
  assumes "js_ok (reserved s)" "held env s b" "f_now env (fcalls s) = t"
    "reserved s' = js_prune (\<lambda>e. \<not> e \<le> t) (reserved s)" "fcalls s' = fcalls s"
  shows "held env s' b"
  using assms unfolding held_def by (fastforce simp: js_get_prune)

lemma keeps_out_same:
  assumes "mono (f_now env)" "\<And>s. reserved (fst (m s)) = reserved s" "\<And>s. broadcasts (fst (m s)) = broadcasts s"
    "\<And>s. fcalls s \<le> fcalls (fst (m s))"
  shows "keeps (kept_out env us) m"
  unfolding keeps_def using assms by (auto intro: kept_out_later [OF assms(1)])

lemma keeps_out_fask [intro]: "mono (f_now env) \<Longrightarrow> keeps (kept_out env us) (fask f)"
  by (rule keeps_out_same) (simp_all add: fask_def)

lemma keeps_out_fask_try [intro]: "mono (f_now env) \<Longrightarrow> keeps (kept_out env us) (fask_try f)"
  by (rule keeps_out_same) (simp_all add: fask_try_def)

lemma keeps_out_fmod [intro]:
  "mono (f_now env) \<Longrightarrow> (\<And>s. reserved (f s) = reserved s) \<Longrightarrow> (\<And>s. broadcasts (f s) = broadcasts s) \<Longrightarrow>
   (\<And>s. fcalls (f s) = fcalls s) \<Longrightarrow> keeps (kept_out env us) (eff_modify f)"
  by (rule keeps_out_same) (simp_all add: eff_modify_def)

lemma spendable_triple:
  assumes clock: "mono (f_now env)"
  shows "triple (kept_out env []) (spendable env) (\<lambda>us. kept_out env us) (kept_out env [])"
proof -
  have prune: "triple (kept_out env []) (eff_bind (fask (f_now env)) (\<lambda>t.
      eff_modify (\<lambda>s. s\<lparr>reserved := js_prune (\<lambda>e. \<not> e \<le> t) (reserved s),
         pendingChange := filter (\<lambda>c. pc_expiresAt c > t) (pendingChange s)\<rparr>)))
      (\<lambda>_. kept_out env []) (kept_out env [] :: 's faucet \<Rightarrow> bool)"
    unfolding triple_def
  proof (intro allI impI)
    fix s :: "'s faucet"
    assume s: "kept_out env [] s"
    let ?t = "f_now env (fcalls s)"
    let ?p = "s\<lparr>reserved := js_prune (\<lambda>e. \<not> e \<le> ?t) (reserved s)\<rparr>"
    let ?s = "s\<lparr>fcalls := Suc (fcalls s), reserved := js_prune (\<lambda>e. \<not> e \<le> ?t) (reserved s),
         pendingChange := filter (\<lambda>c. pc_expiresAt c > ?t) (pendingChange s)\<rparr>"
    have "kept_out env [] ?p"
      using s held_prune [where s = s and s' = ?p, OF _ _ refl] by (auto simp: kept_out_def)
    then have "kept_out env [] ?s" by (rule kept_out_later [OF clock]) simp_all
    then show "case eff_bind (fask (f_now env)) (\<lambda>t. eff_modify (\<lambda>s. s\<lparr>reserved := js_prune (\<lambda>e. \<not> e \<le> t) (reserved s),
         pendingChange := filter (\<lambda>c. pc_expiresAt c > t) (pendingChange s)\<rparr>)) s of
       (s', Inl e) \<Rightarrow> kept_out env [] s' | (s', Inr x) \<Rightarrow> kept_out env [] s'"
      by (simp add: eff_defs fask_def)
  qed
  have rest: "triple (kept_out env []) (eff_bind (fask_try (f_utxos env)) (\<lambda>listed.
     let listedKeys = map (outpoint \<circ> listed_utxo) listed in
     eff_bind (eff_modify (\<lambda>s. s\<lparr>pendingChange :=
         filter (\<lambda>c. outpoint (pc_utxo c) \<notin> set listedKeys) (pendingChange s)\<rparr>)) (\<lambda>_.
     eff_gets (\<lambda>s.
       map listed_utxo (sort_coins (filter (\<lambda>a. \<not> js_has (reserved s) (outpoint (listed_utxo a))) listed))
       @ filter (\<lambda>u. \<not> js_has (reserved s) (outpoint u)) (map pc_utxo (pendingChange s))))))
      (\<lambda>us. kept_out env us) (kept_out env [] :: 's faucet \<Rightarrow> bool)"
    unfolding Let_def
    by (intro triple_seq [OF keeps_triple] keeps_out_fask_try keeps_out_fmod clock triple_gets)
      (auto simp: kept_out_def sort_coins_def)
  have "spendable env = eff_bind (eff_bind (fask (f_now env)) (\<lambda>t.
      eff_modify (\<lambda>s. s\<lparr>reserved := js_prune (\<lambda>e. \<not> e \<le> t) (reserved s),
         pendingChange := filter (\<lambda>c. pc_expiresAt c > t) (pendingChange s)\<rparr>))) (\<lambda>_. eff_bind (fask_try (f_utxos env)) (\<lambda>listed.
     let listedKeys = map (outpoint \<circ> listed_utxo) listed in
     eff_bind (eff_modify (\<lambda>s. s\<lparr>pendingChange :=
         filter (\<lambda>c. outpoint (pc_utxo c) \<notin> set listedKeys) (pendingChange s)\<rparr>)) (\<lambda>_.
     eff_gets (\<lambda>s.
       map listed_utxo (sort_coins (filter (\<lambda>a. \<not> js_has (reserved s) (outpoint (listed_utxo a))) listed))
       @ filter (\<lambda>u. \<not> js_has (reserved s) (outpoint u)) (map pc_utxo (pendingChange s))))))"
    by (simp only: spendable_def eff_bind_assoc)
  from this [symmetric] show ?thesis by (rule subst) (rule triple_seq [OF prune rest])
qed

lemma reserve_triple:
  assumes clock: "mono (f_now env)" and sub: "set vs \<subseteq> set us"
  shows "triple (kept_out env us) (reserve env vs :: ('s, 'e, unit) fact) (\<lambda>_. kept_out env []) E"
  unfolding triple_def
proof (intro allI impI)
  fix s :: "'s faucet"
  assume s: "kept_out env us s"
  let ?t = "f_now env (fcalls s)"
  let ?res = "fold (\<lambda>u. js_set (outpoint u) (?t + RESERVATION_TTL_MS)) vs (reserved s)"
  let ?s = "s\<lparr>fcalls := Suc (fcalls s), broadcasts := broadcasts s @ [(map outpoint vs, ?t)], reserved := ?res,
       pendingChange := filter (\<lambda>c. outpoint (pc_utxo c) \<notin> outpoint ` set vs) (pendingChange s)\<rparr>"
  have get: "js_get (fold (\<lambda>u. js_set (outpoint u) x) ws m) k = (if k \<in> outpoint ` set ws then Some x else js_get m k)"
    for x :: int and ws m k
    by (induction ws arbitrary: m) (auto simp: jsmap_simps)
  have ok: "js_ok m \<Longrightarrow> js_ok (fold (\<lambda>u. js_set (outpoint u) x) ws m)" for x :: int and ws m
    by (induction ws arbitrary: m) (auto intro: js_ok_set)
  have now: "?t \<le> f_now env (Suc (fcalls s))" using clock by (simp add: monoD)
  have free: "snd b + RESERVATION_TTL_MS \<le> ?t"
    if "b \<in> set (broadcasts s)" "x \<in> set (fst b)" "x \<in> outpoint ` set vs" for b x
    using s sub that unfolding kept_out_def held_def js_has_def by fastforce
  have old: "held env ?s b" if b: "b \<in> set (broadcasts s)" for b
  proof -
    have "held env s b" using s b by (simp add: kept_out_def)
    then show ?thesis
      using now free [OF b] by (fastforce simp: held_def get)
  qed
  have new: "held env ?s (map outpoint vs, ?t)" using now by (simp add: held_def get)
  have "no_reuse (broadcasts s @ [(map outpoint vs, ?t)])"
    using s free by (fastforce simp: no_reuse_def kept_out_def sorted_wrt_append)
  with s old new have "kept_out env [] ?s" by (simp add: kept_out_def ok)
  then show "case (reserve env vs :: ('s, 'e, unit) fact) s of (s', Inl e) \<Rightarrow> E s' | (s', Inr x) \<Rightarrow> kept_out env [] s'"
    by (simp add: reserve_def eff_defs fask_def)
qed

lemma select_coins_subset:
  "select_coins r c a f sel n us = Some (sel', fee, left) \<Longrightarrow> set sel' \<subseteq> set sel \<union> set us"
  by (induction r c a f sel n us rule: select_coins.induct) (auto simp: Let_def split: if_splits)

lemma payment_inputs_subset: "buildP2wpkhPayment lib us to a f = Inr p \<Longrightarrow> set (inputs p) \<subseteq> set us"
  by (auto simp: buildP2wpkhPayment_def Let_def split: if_splits option.splits prod.splits dest!: select_coins_subset)

lemma settle_out:
  assumes clock: "mono (f_now env)" and sub: "set (inputs pay) \<subseteq> set us"
  shows "triple (kept_out env us) (settle_payment ops env cfg c ip pay) (\<lambda>_. kept_out env []) (kept_out env [])"
  unfolding settle_payment_def Let_def
  by (rule triple_bind [OF reserve_triple [OF clock sub]], rule keeps_triple)
    (intro keeps_bind keeps_if keeps_out_fask keeps_return keeps_out_fmod clock; simp)

lemma triple_throw: "triple P (eff_throw e) Q P"
  by (simp add: triple_def eff_throw_def)

lemma triple_fewer:
  "triple (kept_out env us) m Q (kept_out env us) \<Longrightarrow> triple (kept_out env us) m Q (kept_out env [])"
  by (erule triple_conseq) (auto intro: kept_out_fewer)

lemma send_out:
  fixes ops :: "'s claim_ops"
  assumes clock: "mono (f_now env)"
  shows "triple (kept_out env []) (send ops env cfg c ip) (\<lambda>_. kept_out env []) (kept_out env [])"
proof -
  have fee: "keeps (kept_out env us) (faucet_feeRate env cfg)" for us
    unfolding faucet_feeRate_def by (intro keeps_bind keeps_catch keeps_out_fask_try keeps_return clock)
  have coins: "triple (kept_out env []) (lift_upstream (eff_bind (spendable env) (\<lambda>us.
       eff_bind (faucet_feeRate env cfg) (\<lambda>rate. eff_return (us, rate))))) (\<lambda>(us, _). kept_out env us) (kept_out env [])"
    unfolding lift_upstream_def
    by (intro triple_catch [OF _ triple_throw] triple_bind [OF spendable_triple [OF clock]]
        triple_bind [OF triple_fewer [OF keeps_triple [OF fee]]] triple_return) simp
  have broadcast: "triple (kept_out env us) (eff_bind (fask (\<lambda>k. f_broadcast env k (p_txHex pay))) (\<lambda>answer.
          case answer of
            Inl e \<Rightarrow>
              if rejected e then eff_throw (err Broadcast_rejected)
              else eff_bind (reserve env (inputs pay)) (\<lambda>_. eff_throw upstream)
          | Inr _ \<Rightarrow> settle_payment ops env cfg c ip pay)) (\<lambda>_. kept_out env []) (kept_out env [])"
    if sub: "set (inputs pay) \<subseteq> set us" for pay us
  proof (rule triple_bind [OF triple_fewer [OF keeps_triple [OF keeps_out_fask [OF clock]]]])
    fix answer
    show "triple (kept_out env us) (case answer of
            Inl e \<Rightarrow>
              if rejected e then eff_throw (err Broadcast_rejected)
              else eff_bind (reserve env (inputs pay)) (\<lambda>_. eff_throw upstream)
          | Inr _ \<Rightarrow> settle_payment ops env cfg c ip pay) (\<lambda>_. kept_out env []) (kept_out env [])"
      by (cases answer)
        (auto intro!: settle_out [OF clock sub] triple_fewer [OF triple_throw] triple_throw triple_bind [OF reserve_triple [OF clock sub]])
  qed
  show ?thesis
    unfolding send_def
  proof (rule triple_bind [OF coins])
    fix x :: "utxo list \<times> rat"
    obtain us rate where x: "x = (us, rate)" by (cases x)
    show "triple (case x of (us, _) \<Rightarrow> kept_out env us) (case x of (us, rate) \<Rightarrow>
      (case buildP2wpkhPayment (f_lib env) us (cl_address c) (amount_sat cfg) rate of
        Inl (InsufficientFundsError _ _) \<Rightarrow> eff_throw (err Faucet_empty)
      | Inl e \<Rightarrow> eff_throw (PaymentFailed e)
      | Inr pay \<Rightarrow>
          eff_bind (fask (\<lambda>k. f_broadcast env k (p_txHex pay))) (\<lambda>answer.
          case answer of
            Inl e \<Rightarrow>
              if rejected e then eff_throw (err Broadcast_rejected)
              else eff_bind (reserve env (inputs pay)) (\<lambda>_. eff_throw upstream)
          | Inr _ \<Rightarrow> settle_payment ops env cfg c ip pay))) (\<lambda>_. kept_out env []) (kept_out env [])"
    proof (cases "buildP2wpkhPayment (f_lib env) us (cl_address c) (amount_sat cfg) rate")
      case (Inl e)
      then show ?thesis by (cases e) (simp_all add: x triple_fewer [OF triple_throw])
    next
      case (Inr pay)
      with broadcast [OF payment_inputs_subset [OF Inr]] show ?thesis by (simp add: x)
    qed
  qed
qed

lemma kept_out_send:
  assumes clock: "mono (f_now env)"
  shows "keeps (kept_out env []) (claim_send ops env cfg c ip)"
proof -
  have lim: "keeps (kept_out env []) (checkLimits ops env cfg c ip)"
    unfolding checkLimits_def by (intro keeps_bind keeps_out_fask keeps_gets keeps_lift clock)
  have "triple (kept_out env []) (claim_send ops env cfg c ip) (\<lambda>_. kept_out env []) (kept_out env [])"
    unfolding claim_send_def by (rule triple_seq [OF keeps_triple [OF lim] send_out [OF clock]])
  then show ?thesis by (rule triple_keeps)
qed

lemma kept_out_others:
  assumes clock: "mono (f_now env)"
  shows "keeps (kept_out env []) (issueNonce env r)" "keeps (kept_out env []) (claim_begin ops env cfg raw ip)"
    "keeps (kept_out env []) (claim_verify ops env cfg req a ih)" "keeps (kept_out env []) (faucet_status ops env cfg)"
proof -
  have lim: "keeps (kept_out env []) (checkLimits ops env cfg c ip)" for c ip
    unfolding checkLimits_def by (intro keeps_bind keeps_out_fask keeps_gets keeps_lift clock)
  have coins: "keeps (kept_out env []) (spendable env)"
    by (rule triple_keeps [OF spendable_triple [OF clock]]) (simp_all add: kept_out_fewer)
  have balance: "keeps (kept_out env []) (faucet_balance env t)" for t
    unfolding faucet_balance_def
    by (intro keeps_bind keeps_if keeps_catch keeps_gets keeps_return coins keeps_out_fmod clock) simp_all
  show "keeps (kept_out env []) (issueNonce env r)"
    unfolding issueNonce_def by (intro keeps_bind keeps_out_fask keeps_gets keeps_return keeps_out_fmod clock) simp_all
  show "keeps (kept_out env []) (claim_begin ops env cfg raw ip)"
    unfolding claim_begin_def Let_def
    by (intro keeps_bind keeps_if keeps_out_fask keeps_gets keeps_lift keeps_return keeps_throw lim keeps_out_fmod clock) simp_all
  show "keeps (kept_out env []) (claim_verify ops env cfg req a ih)"
    unfolding claim_verify_def Let_def by (intro keeps_bind keeps_prod keeps_out_fask_try lim keeps_return clock)
  show "keeps (kept_out env []) (faucet_status ops env cfg)"
    unfolding faucet_status_def Let_def by (intro keeps_bind keeps_out_fask keeps_gets balance keeps_return clock)
qed

lemma kept_out_reaches:
  assumes "faucet_reaches ops env cfg s0 s" "mono (f_now env)" "kept_out env [] s0"
  shows "kept_out env [] s"
  using assms(1, 3)
proof (induction rule: faucet_reaches.induct)
  case (sent s c u ih)
  show ?case by (rule keepsD [OF kept_out_send [OF assms(2)] sent.IH [OF sent.prems] surjective_pairing])
next
  case (challenge s r)
  show ?case by (rule keepsD [OF kept_out_others(1) [OF assms(2)] challenge.IH [OF challenge.prems] surjective_pairing])
next
  case (began s raw ip)
  show ?case by (rule keepsD [OF kept_out_others(2) [OF assms(2)] began.IH [OF began.prems] surjective_pairing])
next
  case (verified s req a ih)
  show ?case by (rule keepsD [OF kept_out_others(3) [OF assms(2)] verified.IH [OF verified.prems] surjective_pairing])
next
  case (status s)
  show ?case by (rule keepsD [OF kept_out_others(4) [OF assms(2)] status.IH [OF status.prems] surjective_pairing])
qed simp

section \<open>Properties\<close>


text \<open>No outpoint is in two transactions handed to the network within thirty minutes of each other:
  two broadcasts, accepted or of unknown outcome, that share a coin are at least that far apart.\<close>

theorem faucet_coins_apart:
  assumes "faucet_reaches ops env cfg s0 s" "mono (f_now env)" "broadcasts s0 = []" "js_ok (reserved s0)"
    "i < j" "j < length (broadcasts s)" "x \<in> set (fst (broadcasts s ! i))" "x \<in> set (fst (broadcasts s ! j))"
  shows "snd (broadcasts s ! i) + 30 * 60000 \<le> snd (broadcasts s ! j)"
proof -
  have "kept_out env [] s" by (rule kept_out_reaches [OF assms(1, 2)]) (simp add: kept_out_def no_reuse_def assms(3, 4))
  then have "no_reuse (broadcasts s)" by (simp add: kept_out_def)
  from sorted_wrt_nth_less [OF this [unfolded no_reuse_def] assms(5, 6)] assms(7, 8)
  show ?thesis by (auto simp: case_prod_unfold RESERVATION_TTL_MS_def)
qed

section \<open>The retry hints\<close>

lemma ceil_div_bounds:
  assumes "0 < (b :: int)"
  shows "a \<le> b * ceil_div a b" "b * (ceil_div a b - 1) < a"
proof -
  have e: "- a = b * (- a div b) + - a mod b" by simp
  have m: "0 \<le> - a mod b" "- a mod b < b" using assms by simp_all
  show "a \<le> b * ceil_div a b" unfolding ceil_div_def mult_minus_right using e m by linarith
  show "b * (ceil_div a b - 1) < a" unfolding ceil_div_def right_diff_distrib mult_minus_right using e m by linarith
qed

lemma sorted_around:
  assumes "sorted xs" "k < length xs"
  shows "x \<in> set (drop k xs) \<Longrightarrow> xs ! k \<le> x" "x \<in> set (take (Suc k) xs) \<Longrightarrow> x \<le> xs ! k"
proof -
  have "sorted (xs ! k # drop (Suc k) xs)" using sorted_wrt_drop [OF assms(1), of k] assms(2) by (simp add: Cons_nth_drop_Suc)
  then show "x \<in> set (drop k xs) \<Longrightarrow> xs ! k \<le> x" using assms(2) by (auto simp flip: Cons_nth_drop_Suc)
  have "sorted (take k xs @ [xs ! k])" using sorted_wrt_take [OF assms(1), of "Suc k"] assms(2) by (simp add: take_Suc_conv_app_nth)
  then show "x \<in> set (take (Suc k) xs) \<Longrightarrow> x \<le> xs ! k"
    using assms(2) by (auto simp: take_Suc_conv_app_nth sorted_append)
qed

lemma sorted_count_above:
  assumes "sorted (xs :: int list)" "n \<le> length xs" "0 < n"
  shows "length (filter (\<lambda>x. y < x) xs) \<ge> n \<longleftrightarrow> y < xs ! (length xs - n)"
proof
  assume "y < xs ! (length xs - n)"
  then have "\<forall>x\<in>set (drop (length xs - n) xs). y < x"
    using assms sorted_around(1) [OF assms(1), of "length xs - n"] by (auto intro: less_le_trans)
  then have "filter (\<lambda>x. y < x) (drop (length xs - n) xs) = drop (length xs - n) xs" by simp
  moreover have "length (filter (\<lambda>x. y < x) xs) =
      length (filter (\<lambda>x. y < x) (take (length xs - n) xs)) + length (filter (\<lambda>x. y < x) (drop (length xs - n) xs))"
    by (metis append_take_drop_id filter_append length_append)
  ultimately show "length (filter (\<lambda>x. y < x) xs) \<ge> n" using assms by simp
next
  assume n: "length (filter (\<lambda>x. y < x) xs) \<ge> n"
  show "y < xs ! (length xs - n)"
  proof (rule ccontr)
    assume "\<not> y < xs ! (length xs - n)"
    then have "\<forall>x\<in>set (take (Suc (length xs - n)) xs). \<not> y < x"
      using assms sorted_around(2) [OF assms(1), of "length xs - n"] by (fastforce dest: less_le_trans)
    then have none: "filter (\<lambda>x. y < x) (take (Suc (length xs - n)) xs) = []" by (simp add: filter_empty_conv)
    have "length (filter (\<lambda>x. y < x) xs) =
      length (filter (\<lambda>x. y < x) (take (Suc (length xs - n)) xs)) + length (filter (\<lambda>x. y < x) (drop (Suc (length xs - n)) xs))"
      by (metis append_take_drop_id filter_append length_append)
    also have "\<dots> \<le> length (drop (Suc (length xs - n)) xs)" unfolding none list.size add_0 by (rule length_filter_le)
    also have "\<dots> < n" using assms by simp
    finally show False using n by simp
  qed
qed

lemma ip_since_later:
  assumes "t \<le> t'"
  shows "ipClaimsSince sqlite_claims d ip (t' - w + 1) = filter (\<lambda>x. t' - w < x) (ipClaimsSince sqlite_claims d ip (t - w + 1))"
proof -
  have "filter (\<lambda>r. c_ip_hash r = ip \<and> t' - w + 1 \<le> c_created_at r) d =
      filter (\<lambda>r. c_ip_hash r = ip \<and> t' - w < c_created_at r \<and> t - w + 1 \<le> c_created_at r) d"
    using assms by (intro filter_cong) auto
  then show ?thesis by (simp add: sqlite_claims.ip_since filter_sort filter_map comp_def conj_commute conj_left_commute)
qed

text \<open>When a waiting limit refuses a claim, the rest of the checks passed.\<close>

lemma check_limits_waits:
  assumes "check_limits ops cfg c ip t d = Inl (FaucetError why (Some secs))"
  shows "\<not> (case cl_userKey c of None \<Rightarrow> False | Some u \<Rightarrow> hasClaimForUser ops d u)
       \<and> \<not> hasClaimForStellarAddress ops d (cl_stellar c) \<and> \<not> hasClaimForAddress ops d (cl_address c)"
    "(why = Ip_cooldown \<and> length (ipClaimsSince ops d ip (t - ipWindowMs cfg + 1)) \<ge> ipClaimsPerWindow cfg
        \<and> secs = max 1 (ceil_div (ipClaimsSince ops d ip (t - ipWindowMs cfg + 1)
            ! (length (ipClaimsSince ops d ip (t - ipWindowMs cfg + 1)) - ipClaimsPerWindow cfg) + ipWindowMs cfg - t) 1000))
     \<or> (why = Daily_cap_reached \<and> length (ipClaimsSince ops d ip (t - ipWindowMs cfg + 1)) < ipClaimsPerWindow cfg
        \<and> countSince ops d (startOfUtcDay t) \<ge> daily_cap cfg \<and> secs = ceil_div (startOfUtcDay t + 86400000 - t) 1000)"
  using assms by (auto simp: check_limits_def Let_def err_def split: if_splits)

lemma check_limits_refused:
  assumes "\<not> (case cl_userKey c of None \<Rightarrow> False | Some u \<Rightarrow> hasClaimForUser ops d u)
       \<and> \<not> hasClaimForStellarAddress ops d (cl_stellar c) \<and> \<not> hasClaimForAddress ops d (cl_address c)"
  shows "(\<exists>k. check_limits ops cfg c ip t d = Inl (FaucetError Ip_cooldown (Some k)))
       \<longleftrightarrow> length (ipClaimsSince ops d ip (t - ipWindowMs cfg + 1)) \<ge> ipClaimsPerWindow cfg"
    "(\<exists>k. check_limits ops cfg c ip t d = Inl (FaucetError Daily_cap_reached (Some k)))
       \<longleftrightarrow> length (ipClaimsSince ops d ip (t - ipWindowMs cfg + 1)) < ipClaimsPerWindow cfg
         \<and> countSince ops d (startOfUtcDay t) \<ge> daily_cap cfg"
  using assms by (auto simp: check_limits_def Let_def split: if_splits)

lemma ip_hint:
  assumes N: "1 \<le> ipClaimsPerWindow cfg" and full: "length xs \<ge> ipClaimsPerWindow cfg"
    and xs: "xs = ipClaimsSince sqlite_claims d ip (t - ipWindowMs cfg + 1)" and later: "t \<le> t'"
  shows "length (ipClaimsSince sqlite_claims d ip (t' - ipWindowMs cfg + 1)) \<ge> ipClaimsPerWindow cfg
     \<longleftrightarrow> t' < xs ! (length xs - ipClaimsPerWindow cfg) + ipWindowMs cfg"
proof -
  have "sorted xs" by (simp add: xs sqlite_claims.ip_since)
  from sorted_count_above [OF this full, of "t' - ipWindowMs cfg"] N
  show ?thesis by (auto simp: ip_since_later [OF later] xs)
qed

text \<open>The retry hints are exact. A claim refused by the per-address limit or by the daily cap, and by
  nothing else, gets a positive number of seconds: with the same records that limit no longer refuses it
  from then on, and it still refuses it at any moment a second or more before.\<close>

theorem retry_hint_exact:
  assumes ok: "settings_ok cfg" and past: "\<forall>r\<in>set d. c_created_at r \<le> t" and cap: "0 < daily_cap cfg"
    and refused: "check_limits sqlite_claims cfg c ip t d = Inl (FaucetError why (Some secs))"
  shows "1 \<le> secs
    \<and> (t + 1000 * secs \<le> t' \<longrightarrow> (\<nexists>k. check_limits sqlite_claims cfg c ip t' d = Inl (FaucetError why (Some k))))
    \<and> (t \<le> t' \<and> t' \<le> t + 1000 * (secs - 1) \<longrightarrow>
         (\<exists>k. check_limits sqlite_claims cfg c ip t' d = Inl (FaucetError why (Some k))))"
proof -
  note fresh = check_limits_waits(1) [OF refused]
  let ?xs = "ipClaimsSince sqlite_claims d ip (t - ipWindowMs cfg + 1)"
  let ?N = "ipClaimsPerWindow cfg"
  have N: "1 \<le> ?N" using ok by (simp add: settings_ok_def)
  from check_limits_waits(2) [OF refused] consider
      (ip) "why = Ip_cooldown" "length ?xs \<ge> ?N"
        "secs = max 1 (ceil_div (?xs ! (length ?xs - ?N) + ipWindowMs cfg - t) 1000)"
    | (day) "why = Daily_cap_reached" "length ?xs < ?N" "countSince sqlite_claims d (startOfUtcDay t) \<ge> daily_cap cfg"
        "secs = ceil_div (startOfUtcDay t + 86400000 - t) 1000" by blast
  then show ?thesis
  proof cases
    case ip
    let ?frees = "?xs ! (length ?xs - ?N) + ipWindowMs cfg"
    have "t < ?frees" using ip_hint [OF N ip(2) refl, of t] ip(2) by simp
    moreover have "?frees - t \<le> 1000 * ceil_div (?frees - t) 1000" "1000 * (ceil_div (?frees - t) 1000 - 1) < ?frees - t"
      by (rule ceil_div_bounds, simp)+
    ultimately have "1 \<le> secs" "?frees \<le> t + 1000 * secs" "t + 1000 * (secs - 1) < ?frees"
      unfolding ip(3) by linarith+
    moreover from this(1) have "t \<le> t'" if "t + 1000 * secs \<le> t'" using that by linarith
    ultimately show ?thesis
      using ip_hint [OF N ip(2) refl, of t'] ip(1) by (auto simp: check_limits_refused [OF fresh])
  next
    case day
    have secs: "startOfUtcDay t + 86400000 - t \<le> 1000 * secs" "1000 * (secs - 1) < startOfUtcDay t + 86400000 - t"
      unfolding day(4) by (rule ceil_div_bounds, simp)+
    have pos: "1 \<le> secs" using secs(1) startOfUtcDay_gt [of t] by (simp add: day_ms_def)
    have reset: "countSince sqlite_claims d (startOfUtcDay t') = 0" if "t + 1000 * secs \<le> t'"
    proof -
      have "startOfUtcDay t + day_ms \<le> startOfUtcDay t'"
        using startOfUtcDay_mono [of "startOfUtcDay t + day_ms" t'] that secs(1)
        by (simp add: startOfUtcDay_def day_ms_def)
      with startOfUtcDay_gt [of t] past have "\<forall>r\<in>set d. \<not> startOfUtcDay t' \<le> c_created_at r" by fastforce
      then show ?thesis by (simp add: sqlite_claims.count_since filter_empty_conv)
    qed
    have same: "startOfUtcDay t' = startOfUtcDay t" "length (ipClaimsSince sqlite_claims d ip (t' - ipWindowMs cfg + 1)) < ?N"
      if "t \<le> t'" "t' \<le> t + 1000 * (secs - 1)"
    proof -
      show "startOfUtcDay t' = startOfUtcDay t"
        using that secs(2) startOfUtcDay_le [of t] by (intro startOfUtcDay_eqI) (simp_all add: day_ms_def)
      show "length (ipClaimsSince sqlite_claims d ip (t' - ipWindowMs cfg + 1)) < ?N"
        unfolding ip_since_later [OF that(1)] using day(2) length_filter_le le_less_trans by blast
    qed
    show ?thesis using pos reset same cap day(1, 3) by (auto simp: check_limits_refused [OF fresh])
  qed
qed

text \<open>
  A claim that fails leaves the records as they were, also when its transaction was handed to the
  network and no answer came back: the same account can claim again.
\<close>

lemma failed_claim_unrecorded:
  assumes "claim_send ops env cfg c ip s = (s', Inl e)"
  shows "store s' = store s" "paid s' = paid s"
proof -
  let ?s = "s\<lparr>fcalls := Suc (fcalls s)\<rparr>"
  have idle0: "idle (store s) (paid s) (fcalls s) ?s" by (simp add: idle_def)
  have "idle (store s) (paid s) (fcalls s) s'"
  proof (cases "check_limits ops cfg c ip (f_now env (fcalls s)) (store s)")
    case (Inl x)
    with assms idle0 show ?thesis
      by (auto simp: claim_send_def checkLimits_def eff_bind_def fask_def eff_gets_def eff_lift_def)
  next
    case (Inr u)
    with assms have "send ops env cfg c ip ?s = (s', Inl e)"
      by (simp add: claim_send_def checkLimits_def eff_bind_def fask_def eff_gets_def eff_lift_def)
    then show ?thesis by (rule tripleD_throw [OF send_triple idle0])
  qed
  then show "store s' = store s" "paid s' = paid s" by (simp_all add: idle_def)
qed

section \<open>Who is paid\<close>

lemma eff_bind_Inr:
  "eff_bind m f s = (s', Inr b) \<Longrightarrow> (\<And>s1 a. m s = (s1, Inr a) \<Longrightarrow> f a s1 = (s', Inr b) \<Longrightarrow> thesis) \<Longrightarrow> thesis"
  by (auto simp: eff_bind_def split: prod.splits sum.splits)

lemma claim_begin_Inr:
  assumes "claim_begin ops env cfg raw ip s = (s', Inr (req, addr, ih))"
  shows "parseClaimRequest raw = Inr req" "\<exists>e. js_get (nonces s) (nonce req) = Some e \<and> f_now env (fcalls s) < e"
    "nonces s' = js_delete (nonce req) (nonces s)" "store s' = store s" "paid s' = paid s"
    "normalizeSignetAddress (f_lib env) (Some (signetAddress req)) = Inr addr" "addr \<noteq> f_address env"
    "f_p2wpkh env (bytes_of_hex (signetPubkey req)) = Some addr"
    "f_verifyMessage env (faucetClaimMessage (nonce req) (reqStellarAddress req) addr) (keySig req) (bytes_of_hex (signetPubkey req))"
    "ih = f_hashIp env ip"
  using assms unfolding claim_begin_def Let_def
  by (auto elim!: eff_bind_Inr simp: eff_lift_def eff_gets_def eff_return_def eff_throw_def eff_modify_def fask_def
      nonce_consume_def checkLimits_def split: if_splits option.splits)

text \<open>What Pollar must have answered.\<close>

definition live_login :: "(string \<Rightarrow> string) \<Rightarrow> pollar_opts \<Rightarrow> pollar_answer \<Rightarrow> string \<Rightarrow> string \<Rightarrow> bool" where
  "live_login userKeyFor opts ans stellar user \<longleftrightarrow>
     (\<exists>st b c w u. ans = Answered st b \<and> 200 \<le> st \<and> st \<le> 299 \<and> success b \<and> bodyCode b = Some ''SERVER_TOKEN_VERIFIED''
        \<and> content b = Some c \<and> userId c = Some u \<and> u \<noteq> [] \<and> user = userKeyFor u
        \<and> applicationId c = Some (po_applicationId opts) \<and> network c = Some ''testnet''
        \<and> wallet c = Some w \<and> w_type w = Some ''internal'' \<and> w_address w = Some stellar)"

lemma verify_login_Inr:
  "verify_login userKeyFor opts ans stellar = Inr (user, x) \<Longrightarrow> live_login userKeyFor opts ans stellar user \<and> x = stellar"
  unfolding verify_login_def live_login_def
  by (auto simp: Let_def login_unavailable_def split: pollar_answer.splits if_splits option.splits)

lemma claim_verify_Inr:
  assumes "claim_verify ops env cfg req addr ih s = (s', Inr c)"
  shows "cl_address c = addr" "cl_stellar c = reqStellarAddress req" "store s' = store s" "paid s' = paid s"
    "\<exists>user. cl_userKey c = Some user \<and> live_login (f_userKeyFor env) (f_pollarOpts env)
        (f_pollar env (fcalls s) (pollarAccessToken req)) (reqStellarAddress req) user"
  using assms unfolding claim_verify_def Let_def
  by (auto elim!: eff_bind_Inr simp: eff_lift_def eff_gets_def eff_return_def fask_try_def fask_def checkLimits_def
      dest: verify_login_Inr)

lemma claim_send_Inr:
  assumes "claim_send ops env cfg c ih s = (s', Inr res)"
  shows "check_limits ops cfg c ih (f_now env (fcalls s)) (store s) = Inr ()"
    "recorded ops env cfg c ih (store s) (paid s) (Suc (fcalls s)) s'"
proof -
  let ?s = "s\<lparr>fcalls := Suc (fcalls s)\<rparr>"
  have s: "check_limits ops cfg c ih (f_now env (fcalls s)) (store s) = Inr ()" "send ops env cfg c ih ?s = (s', Inr res)"
    using assms unfolding claim_send_def
    by (auto elim!: eff_bind_Inr simp: eff_lift_def eff_gets_def fask_def checkLimits_def)
  have "idle (store s) (paid s) (Suc (fcalls s)) ?s" by (simp add: idle_def)
  from tripleD [OF send_triple this s(2)] show "recorded ops env cfg c ih (store s) (paid s) (Suc (fcalls s)) s'" .
  show "check_limits ops cfg c ih (f_now env (fcalls s)) (store s) = Inr ()" by (rule s(1))
qed


section \<open>A run\<close>


text \<open>Two claims against one coin of 30 000 sats: the second needs the change of the first.\<close>

definition sample_fenv :: faucet_env where
  "sample_fenv = \<lparr>f_now = (\<lambda>k. 600000 * int k), f_utxos = (\<lambda>_. Inr [\<lparr>a_txid = ''cc'', a_vout = 0, a_value = 30000, a_confirmed = True\<rparr>]),
     f_estimate = (\<lambda>_. Inr (Some 2)), f_broadcast = (\<lambda>_ _. Inr ''ab''), f_pollar = (\<lambda>_ _. Unreachable),
     f_pollarOpts = \<lparr>po_applicationId = ''app'', allowEmail = False\<rparr>, f_userKeyFor = (\<lambda>u. u), f_lib = sample_lib\<lparr>toOutputScript := (\<lambda>_. Some (replicate 22 0))\<rparr>,
     f_p2wpkh = (\<lambda>_. None), f_verifyMessage = (\<lambda>_ _ _. True), f_hashIp = (\<lambda>i. i), f_address = ''tb1f''\<rparr>"

definition sample_fcfg :: faucet_settings where
  "sample_fcfg = \<lparr>amount_sat = 10000, daily_cap = 2, ipClaimsPerWindow = 2, ipWindowMs = 3600000, minFeeRate = 1, maxFeeRate = 5\<rparr>"

definition sample_faucet :: "claim_row list faucet" where
  "sample_faucet = \<lparr>store = [], nonces = [], reserved = [], pendingChange = [], balance_cache = None, fcalls = 0,
     paid = [], broadcasts = []\<rparr>"

definition sample_claimant :: "string \<Rightarrow> claimant" where
  "sample_claimant u = \<lparr>cl_address = u, cl_stellar = u, cl_userKey = Some u\<rparr>"

lemmas sample_simps = sample_fenv_def sample_fcfg_def sample_faucet_def sample_claimant_def

definition sample_one :: "claim_row list faucet" where
  "sample_one = fst (claim_send sqlite_claims sample_fenv sample_fcfg (sample_claimant ''u'') ''ip'' sample_faucet)"

lemmas run_defs = claim_send_def checkLimits_def send_def spendable_def faucet_feeRate_def settle_payment_def
    reserve_def lift_upstream_def sample_simps

lemma dec_str_0: "dec_str 0 = ''0''"
  by code_simp

lemmas run_simps = eff_defs fask_def fask_try_def check_limits_def Let_def sqlite_claims_def js_prune_def sort_coins_def
    buildP2wpkhPayment_def sample_lib_def fee_for_def estimateP2wpkhVsize_def TX_OVERHEAD_VB_def P2WPKH_INPUT_VB_def
    outputVbytes_def P2WPKH_DUST_LIMIT_SAT_def outpoint_def listed_utxo_def js_has_def sqlite_record_def claim_to_row_def
    dec_str_0 RESERVATION_TTL_MS_def startOfUtcDay_def day_ms_def

lemma sample_one:
  "sample_one = \<lparr>store = [\<lparr>c_address = ''u'', c_ip_hash = ''ip'', c_user_key = Some ''u'', c_stellar_address = Some ''u'',
       c_txid = ''ab'', c_amount_sat = 10000, c_created_at = 4200000\<rparr>], nonces = [], reserved = [(''cc:0'', 4800000)],
     pendingChange = [\<lparr>pc_utxo = \<lparr>u_txid = ''ab'', u_vout = 1, u_value = 19718\<rparr>, pc_expiresAt = 5400000\<rparr>],
     balance_cache = None, fcalls = 8,
     paid = [\<lparr>address = ''u'', ipHash = ''ip'', userKey = ''u'', stellarAddress = ''u'', txid = ''ab'', amountSat = 10000,
       createdAt = 4200000\<rparr>], broadcasts = [([''cc:0''], 3000000)]\<rparr>"
  unfolding sample_one_def run_defs
  by (simp add: run_simps)

text \<open>
  The second claim comes when the reservation of the first has run out and Esplora still lists the
  coin as unspent: the coin is spent again.
\<close>

definition sample_two :: "claim_row list faucet" where
  "sample_two = fst (claim_send sqlite_claims sample_fenv sample_fcfg (sample_claimant ''v'') ''ip'' sample_one)"

lemma sample_two: "broadcasts sample_two = [([''cc:0''], 3000000), ([''cc:0''], 7800000)] \<and> length (paid sample_two) = 2"
  unfolding sample_two_def sample_one run_defs
  by (simp add: run_simps)

lemma sample_two_reached: "faucet_reaches sqlite_claims sample_fenv sample_fcfg sample_faucet sample_two"
  unfolding sample_two_def sample_one_def
  by (rule faucet_reaches.sent [OF faucet_reaches.sent [OF faucet_reaches.here]]) (simp_all add: sample_claimant_def)

lemma sample_clock: "mono (f_now sample_fenv)"
  by (simp add: sample_fenv_def mono_def)


theorem retry_hint_exact_witness:
  "check_limits sqlite_claims (sample_fcfg\<lparr>ipClaimsPerWindow := 1\<rparr>) (sample_claimant ''w'') ''ip'' 4200500 (store sample_one)
     = Inl (FaucetError Ip_cooldown (Some 3600))
   \<and> (\<nexists>k. check_limits sqlite_claims (sample_fcfg\<lparr>ipClaimsPerWindow := 1\<rparr>) (sample_claimant ''w'') ''ip'' 7800500
        (store sample_one) = Inl (FaucetError Ip_cooldown (Some k)))"
proof -
  have r: "check_limits sqlite_claims (sample_fcfg\<lparr>ipClaimsPerWindow := 1\<rparr>) (sample_claimant ''w'') ''ip'' 4200500 (store sample_one)
      = Inl (FaucetError Ip_cooldown (Some 3600))"
    by (simp add: check_limits_def sqlite_claims_def sample_one sample_claimant_def sample_fcfg_def ceil_div_def Let_def)
  have "settings_ok (sample_fcfg\<lparr>ipClaimsPerWindow := 1\<rparr>)" "\<forall>r\<in>set (store sample_one). c_created_at r \<le> 4200500"
    "0 < daily_cap (sample_fcfg\<lparr>ipClaimsPerWindow := 1\<rparr>)"
    by (simp_all add: sample_one sample_fcfg_def settings_ok_def MIN_FAUCET_AMOUNT_SAT_def MAX_FAUCET_AMOUNT_SAT_def)
  from retry_hint_exact [OF this r, of 7800500] r show ?thesis by simp
qed

theorem faucet_coins_apart_witness:
  "snd (broadcasts sample_two ! 0) + 30 * 60000 \<le> snd (broadcasts sample_two ! 1)"
  by (rule faucet_coins_apart [OF sample_two_reached sample_clock, where x = "''cc:0''"])
    (simp_all add: sample_two, simp_all add: sample_faucet_def)

text \<open>A whole claim.\<close>

definition sample_req :: claim_request where
  "sample_req = \<lparr>pollarAccessToken = ''tok'', reqStellarAddress = CHR ''G'' # replicate 55 CHR ''A'', signetAddress = ''tb1qqqqqqqqq'',
     signetPubkey = ''02'' @ replicate 64 CHR ''0'', nonce = replicate 32 CHR ''a'', keySig = replicate 88 CHR ''A''\<rparr>"

definition sample_raw :: raw_body where
  "sample_raw = \<lparr>rb_token = Some '' tok'', rb_stellar = Some (reqStellarAddress sample_req), rb_signet = Some ''TB1QQQQQQQQQ'',
     rb_pubkey = Some (signetPubkey sample_req), rb_nonce = Some (nonce sample_req), rb_keySig = Some (keySig sample_req)\<rparr>"

definition sample_login :: "faucet_env" where
  "sample_login = sample_fenv\<lparr>f_p2wpkh := (\<lambda>_. Some ''tb1qqqqqqqqq''),
     f_pollar := (\<lambda>_ _. Answered 200 \<lparr>success = True, bodyCode = Some ''SERVER_TOKEN_VERIFIED'',
        content = Some \<lparr>userId = Some ''u'', applicationId = Some ''app'', network = Some ''testnet'',
          wallet = Some \<lparr>w_type = Some ''internal'', w_address = Some (reqStellarAddress sample_req)\<rparr>, authProvider = Some ''google''\<rparr>\<rparr>)\<rparr>"

definition sample_before :: "claim_row list faucet" where
  "sample_before = sample_faucet\<lparr>nonces := [(nonce sample_req, 300000)]\<rparr>"

lemma sample_parse: "parseClaimRequest sample_raw = Inr (sample_req\<lparr>signetAddress := ''TB1QQQQQQQQQ''\<rparr>)"
  by code_simp

lemma sample_normalize: "normalizeSignetAddress (f_lib sample_login) (Some ''TB1QQQQQQQQQ'') = Inr ''tb1qqqqqqqqq''"
  by code_simp

lemma sample_claim_begin:
  "claim_begin sqlite_claims sample_login sample_fcfg sample_raw ''ip'' sample_before
   = (sample_before\<lparr>nonces := [], fcalls := 2\<rparr>, Inr (sample_req\<lparr>signetAddress := ''TB1QQQQQQQQQ''\<rparr>, ''tb1qqqqqqqqq'', ''ip''))"
proof -
  have login: "f_now sample_login 0 = 0" "f_now sample_login 1 = 600000" "f_address sample_login = ''tb1f''"
    "f_p2wpkh sample_login = (\<lambda>_. Some ''tb1qqqqqqqqq'')" "f_verifyMessage sample_login = (\<lambda>_ _ _. True)"
    "f_hashIp sample_login = (\<lambda>i. i)"
    by (simp_all add: sample_login_def sample_fenv_def)
  show ?thesis
    unfolding claim_begin_def sample_parse
    by (simp add: eff_defs fask_def sample_before_def sample_faucet_def sample_normalize login nonce_consume_def Let_def checkLimits_def
      check_limits_def sqlite_claims_def sample_fcfg_def)
qed

lemma sample_claim_verify:
  "claim_verify sqlite_claims sample_login sample_fcfg (sample_req\<lparr>signetAddress := ''TB1QQQQQQQQQ''\<rparr>) ''tb1qqqqqqqqq'' ''ip''
     (sample_before\<lparr>nonces := [], fcalls := 2\<rparr>)
   = (sample_before\<lparr>nonces := [], fcalls := 4\<rparr>,
      Inr \<lparr>cl_address = ''tb1qqqqqqqqq'', cl_stellar = reqStellarAddress sample_req, cl_userKey = Some ''u''\<rparr>)"
proof -
  have "verify_login (f_userKeyFor sample_login) (f_pollarOpts sample_login) (f_pollar sample_login 2 tok) (reqStellarAddress sample_req)
      = Inr (''u'', reqStellarAddress sample_req)" for tok
    by (simp add: sample_login_def sample_fenv_def verify_login_def Let_def toLowerCase_def) code_simp
  then show ?thesis
    by (simp add: claim_verify_def eff_defs fask_def fask_try_def Let_def checkLimits_def check_limits_def sqlite_claims_def
      sample_fcfg_def sample_before_def sample_faucet_def)
qed

lemma sample_claim:
  "\<exists>s' res. claim sqlite_claims sample_login sample_fcfg sample_raw ''ip'' sample_before = (s', Inr res) \<and> map c_address (store s') = [''tb1qqqqqqqqq'']"
proof -
  have login: "f_lib sample_login = f_lib sample_fenv" "f_utxos sample_login = f_utxos sample_fenv"
    "f_estimate sample_login = f_estimate sample_fenv" "f_broadcast sample_login = f_broadcast sample_fenv"
    "f_now sample_login = f_now sample_fenv"
    by (simp_all add: sample_login_def)
  show ?thesis
    unfolding claim_def
    apply (simp add: eff_bind_def [of "claim_begin _ _ _ _ _"] sample_claim_begin)
    apply (simp add: eff_bind_def [of "claim_verify _ _ _ _ _ _"] sample_claim_verify)
    unfolding claim_send_def checkLimits_def send_def spendable_def faucet_feeRate_def settle_payment_def
      reserve_def lift_upstream_def login
    by (simp add: run_simps sample_before_def sample_faucet_def sample_fcfg_def sample_fenv_def)
qed


end
