(* ===== verification/EventCursor.thy ===== *)
theory EventCursor
  imports JsText "HOL-Library.Char_ord" "HOL-Library.List_Lexorder"
begin

text \<open>
  \<^verbatim>\<open>relayer/src/rpc-cursor.ts\<close>: the position in the event stream that every watcher stores. A cursor is
  a string and is compared as one, by the code (\<^verbatim>\<open>id <= previous\<close>) and by the database
  (\<^verbatim>\<open>ORDER BY id\<close>); the order on \<^typ>\<open>string\<close> is the lexicographic one of the library.
\<close>

section \<open>Operations\<close>

definition isValidCursor :: "string \<Rightarrow> bool" where
  "isValidCursor c \<longleftrightarrow> length c = 30 \<and> list_all is_digit (take 19 c) \<and> c ! 19 = CHR ''-'' \<and> list_all is_digit (drop 20 c)"

datatype cursor_error = InvalidCursor string | InvalidLedger int

definition cursorForLedger :: "int \<Rightarrow> cursor_error + string" where
  "cursorForLedger ledger =
     (if ledger < 0 then Inl (InvalidLedger ledger)
      else Inr (padStart 19 (CHR ''0'') (dec_str (nat ledger * 2 ^ 32)) @ ''-'' @ replicate 10 (CHR ''0'')))"

definition ledgerOfCursor :: "string \<Rightarrow> nat" where
  "ledgerOfCursor c = dec_val (takeWhile (\<lambda>x. x \<noteq> CHR ''-'') c) div 2 ^ 32"

definition assertValidCursor :: "string \<Rightarrow> cursor_error + unit" where
  "assertValidCursor c = (if \<not> isValidCursor c then Inl (InvalidCursor c) else Inr ())"

section \<open>Order\<close>

lemma less_char_code: "c < d \<longleftrightarrow> code c < code d"
  by (simp add: less_char_def code_def)

lemma dec_val_Cons: "dec_val (c # cs) = (code c - 48) * 10 ^ length cs + dec_val cs"
proof (induction cs rule: rev_induct)
  case (snoc x xs)
  have "dec_val (c # xs @ [x]) = 10 * dec_val (c # xs) + (code x - 48)" using dec_val_snoc [of "c # xs" x] by simp
  with snoc show ?case by (simp add: dec_val_snoc algebra_simps)
qed (simp add: dec_val_def)

lemma dec_val_lt: "list_all is_digit s \<Longrightarrow> dec_val s < 10 ^ length s"
proof (induction s)
  case (Cons c s)
  then have "code c - 48 \<le> 9" "dec_val s < 10 ^ length s" by (auto simp: is_digit_def)
  then have "(code c - 48) * 10 ^ length s + dec_val s < 9 * 10 ^ length s + 10 ^ length s"
    by (intro add_le_less_mono mult_le_mono1)
  then show ?case by (simp add: dec_val_Cons)
qed (simp add: dec_val_def)

text \<open>Digit strings of one length compare like their values.\<close>

lemma digits_less:
  assumes "length s = length t" "list_all is_digit s" "list_all is_digit t"
  shows "s < t \<longleftrightarrow> dec_val s < dec_val t"
  using assms
proof (induction s t rule: list_induct2)
  case (Cons a s b t)
  have bounds: "dec_val s < 10 ^ length t" "dec_val t < 10 ^ length t"
    using Cons dec_val_lt [of s] dec_val_lt [of t] by simp_all
  have digits: "48 \<le> code a" "48 \<le> code b" using Cons.prems by (simp_all add: is_digit_def)
  consider "code a < code b" | "code a = code b" | "code b < code a" by linarith
  then show ?case
  proof cases
    case 1
    then have "(code a - 48 + 1) * 10 ^ length t \<le> (code b - 48) * 10 ^ length t"
      using digits by (intro mult_le_mono1) linarith
    with bounds(1) have "(code a - 48) * 10 ^ length t + dec_val s < (code b - 48) * 10 ^ length t + dec_val t"
      by (simp add: algebra_simps)
    with 1 Cons.hyps show ?thesis by (simp add: dec_val_Cons less_char_code)
  next
    case 2
    with Cons show ?thesis by (simp add: dec_val_Cons code_inject)
  next
    case 3
    then have "(code b - 48 + 1) * 10 ^ length t \<le> (code a - 48) * 10 ^ length t"
      using digits by (intro mult_le_mono1) linarith
    with bounds(2) have "(code b - 48) * 10 ^ length t + dec_val t < (code a - 48) * 10 ^ length t + dec_val s"
      by (simp add: algebra_simps)
    with 3 Cons.hyps show ?thesis by (auto simp: dec_val_Cons less_char_code)
  qed
qed simp

lemma append_less:
  "length s = length t \<Longrightarrow> s @ u < t @ v \<longleftrightarrow> s < t \<or> (s = t \<and> u < (v :: string))"
  by (induction s t rule: list_induct2) auto

text \<open>The two numbers of a cursor.\<close>

definition toid :: "string \<Rightarrow> nat" where "toid c = dec_val (take 19 c)"
definition event_index :: "string \<Rightarrow> nat" where "event_index c = dec_val (drop 20 c)"

lemma valid_split:
  assumes "isValidCursor c"
  shows "c = take 19 c @ [CHR ''-''] @ drop 20 c"
proof -
  have "drop 19 c = c ! 19 # drop 20 c" using assms Cons_nth_drop_Suc [of 19 c] by (simp add: isValidCursor_def)
  then show ?thesis using assms append_take_drop_id [of 19 c] by (simp add: isValidCursor_def)
qed

lemma cursor_less:
  assumes "isValidCursor c" "isValidCursor d"
  shows "c < d \<longleftrightarrow> toid c < toid d \<or> (toid c = toid d \<and> event_index c < event_index d)"
proof -
  have d: "length c = 30" "length d = 30" "list_all is_digit (take 19 c)" "list_all is_digit (take 19 d)"
    "list_all is_digit (drop 20 c)" "list_all is_digit (drop 20 d)"
    using assms by (simp_all add: isValidCursor_def)
  have head: "take 19 c < take 19 d \<longleftrightarrow> toid c < toid d" "take 19 d < take 19 c \<longleftrightarrow> toid d < toid c"
    using digits_less [of "take 19 c" "take 19 d"] digits_less [of "take 19 d" "take 19 c"] d by (simp_all add: toid_def)
  then have same: "take 19 c = take 19 d \<longleftrightarrow> toid c = toid d"
    using less_linear [of "take 19 c" "take 19 d"] by (auto simp: toid_def)
  have tail: "drop 20 c < drop 20 d \<longleftrightarrow> event_index c < event_index d"
    using digits_less [of "drop 20 c" "drop 20 d"] d by (simp add: event_index_def)
  have "c < d \<longleftrightarrow> take 19 c @ [CHR ''-''] @ drop 20 c < take 19 d @ [CHR ''-''] @ drop 20 d"
    using valid_split [OF assms(1)] valid_split [OF assms(2)] by simp
  also have "\<dots> \<longleftrightarrow> take 19 c < take 19 d \<or> (take 19 c = take 19 d \<and> drop 20 c < drop 20 d)"
    using d by (subst append_less) auto
  finally show ?thesis using head same tail by blast
qed

lemma takeWhile_digits:
  assumes "list_all is_digit s"
  shows "takeWhile (\<lambda>x. x \<noteq> CHR ''-'') (s @ CHR ''-'' # t) = s"
proof -
  have "\<not> is_digit (CHR ''-'')" by (simp add: is_digit_def code_def)
  with assms have "\<forall>x\<in>set s. x \<noteq> CHR ''-''" by (auto simp: list_all_iff)
  then show ?thesis by (induction s) auto
qed

lemma ledgerOfCursor_toid: "isValidCursor c \<Longrightarrow> ledgerOfCursor c = toid c div 2 ^ 32"
  using takeWhile_digits [of "take 19 c" "drop 20 c"] valid_split [of c]
  by (simp add: ledgerOfCursor_def toid_def isValidCursor_def)

lemma ledgerOfCursor_mono: "isValidCursor c \<Longrightarrow> isValidCursor d \<Longrightarrow> c \<le> d \<Longrightarrow> ledgerOfCursor c \<le> ledgerOfCursor d"
  using cursor_less [of d c] by (auto simp: ledgerOfCursor_toid not_le [symmetric] intro: div_le_mono)

lemma cursor_for_valid:
  assumes "n * 2 ^ 32 < 10 ^ 19"
  shows "\<exists>c. cursorForLedger (int n) = Inr c \<and> isValidCursor c \<and> toid c = n * 2 ^ 32 \<and> event_index c = 0"
proof -
  let ?s = "padStart 19 (CHR ''0'') (dec_str (n * 2 ^ 32))"
  have "length (dec_str (n * 2 ^ 32)) \<le> 19" using assms by (intro dec_str_length_le) simp_all
  then have "length ?s = 19" by (simp add: length_padStart)
  moreover have "list_all is_digit ?s" by (intro padStart_digits dec_str_digits)
  moreover have "dec_val (replicate 10 (CHR ''0'')) = 0" using dec_val_replicate_zero [of 10 "[]"] by (simp add: dec_val_def)
  moreover have "list_all is_digit (replicate 10 (CHR ''0''))" by (simp add: list_all_iff)
  ultimately show ?thesis
    by (simp add: cursorForLedger_def isValidCursor_def nth_append toid_def event_index_def)
qed

lemma cursor_for_overflow:
  assumes "10 ^ 19 \<le> n * 2 ^ 32"
  shows "\<exists>c. cursorForLedger (int n) = Inr c \<and> \<not> isValidCursor c"
proof -
  have "19 < length (dec_str (n * 2 ^ 32))" using assms by (intro dec_str_length_gt)
  then have "30 < length (padStart 19 (CHR ''0'') (dec_str (n * 2 ^ 32)) @ ''-'' @ replicate 10 (CHR ''0''))"
    by (simp add: length_padStart)
  then show ?thesis by (simp add: cursorForLedger_def isValidCursor_def)
qed

section \<open>Properties\<close>

text \<open>Cursors are ordered like the chain: two valid cursors compare as strings exactly as their
  ledgers and positions do. The cursor built for a ledger is valid precisely up to ledger 2328306436
  (beyond it the number no longer fits nineteen digits), names that ledger, and stands before every
  valid cursor of that ledger or a later one other than itself and after every one of an earlier ledger.\<close>

theorem cursor_order:
  assumes "isValidCursor c" "isValidCursor d"
  shows "(c < d \<longleftrightarrow> toid c < toid d \<or> (toid c = toid d \<and> event_index c < event_index d))
    \<and> (c \<le> d \<longrightarrow> ledgerOfCursor c \<le> ledgerOfCursor d)
    \<and> (\<exists>b. cursorForLedger (int n) = Inr b \<and> (isValidCursor b \<longleftrightarrow> n \<le> 2328306436)
         \<and> (isValidCursor b \<longrightarrow> ledgerOfCursor b = n \<and> (b \<le> c \<longleftrightarrow> n \<le> ledgerOfCursor c)))"
proof -
  have "\<exists>b. cursorForLedger (int n) = Inr b \<and> (isValidCursor b \<longleftrightarrow> n \<le> 2328306436)
      \<and> (isValidCursor b \<longrightarrow> ledgerOfCursor b = n \<and> (b \<le> c \<longleftrightarrow> n \<le> ledgerOfCursor c))"
  proof (cases "n \<le> 2328306436")
    case True
    then have "n * 2 ^ 32 < 10 ^ 19" by simp
    from cursor_for_valid [OF this] obtain b where b: "cursorForLedger (int n) = Inr b" "isValidCursor b"
      "toid b = n * 2 ^ 32" "event_index b = 0" by blast
    have "b \<le> c \<longleftrightarrow> \<not> c < b" by (simp add: not_less)
    also have "\<dots> \<longleftrightarrow> n * 2 ^ 32 \<le> toid c" using cursor_less [OF assms(1) b(2)] b by auto
    also have "\<dots> \<longleftrightarrow> n \<le> ledgerOfCursor c"
      by (simp add: ledgerOfCursor_toid [OF assms(1)] less_eq_div_iff_mult_less_eq)
    finally show ?thesis using b True by (simp add: ledgerOfCursor_toid)
  next
    case False
    then have "10 ^ 19 \<le> n * 2 ^ 32" by simp
    from cursor_for_overflow [OF this] False show ?thesis by blast
  qed
  then show ?thesis using cursor_less [OF assms] ledgerOfCursor_mono [OF assms] by blast
qed

theorem cursor_order_witness:
  "ledgerOfCursor ''0019652868403363840-0000000000'' \<le> ledgerOfCursor ''0019652868403363840-0000000001''
   \<and> (''0019652868403363840-0000000000'' :: string) < ''0019652868403363840-0000000001''"
proof -
  have v: "isValidCursor ''0019652868403363840-0000000000''" "isValidCursor ''0019652868403363840-0000000001''"
    by code_simp+
  have "toid ''0019652868403363840-0000000000'' = toid ''0019652868403363840-0000000001''" by (simp add: toid_def)
  moreover have "event_index ''0019652868403363840-0000000000'' < event_index ''0019652868403363840-0000000001''"
    by (simp add: event_index_def dec_val_def code_def)
  ultimately show ?thesis using cursor_order [OF v] less_imp_le by blast
qed

end
