(* ===== verification/EventFeed.thy ===== *)
theory EventFeed
  imports EventCursor
begin

text \<open>
  Following a contract's events: what every watcher asks of the RPC server and of its own store. The
  chain is the list of all events of the contract, whenever they happen; an answer to a request holds,
  in order, the events after the requested position up to the answer's cursor. That is the documented
  behaviour of \<^verbatim>\<open>getEvents\<close>, stated as \<open>serves\<close>; the order and completeness of a page are all the
  watchers rely on.
\<close>

section \<open>Requests and answers\<close>

datatype events_request = FromCursor string | FromLedger nat

record 'ev page =
  page_events :: "'ev list"
  page_cursor :: string

text \<open>
  Whether an event position is past the start of a request. A cursor is exclusive; a start ledger
  includes the whole ledger.
\<close>

fun past_start :: "events_request \<Rightarrow> string \<Rightarrow> bool" where
  "past_start (FromCursor c) i \<longleftrightarrow> c < i"
| "past_start (FromLedger l) i \<longleftrightarrow> l \<le> ledgerOfCursor i"

definition serves :: "('ev \<Rightarrow> string) \<Rightarrow> 'ev list \<Rightarrow> events_request \<Rightarrow> 'ev page \<Rightarrow> bool" where
  "serves idof chain req p \<longleftrightarrow>
     (\<forall>c. req = FromCursor c \<longrightarrow> c \<le> page_cursor p)
     \<and> page_events p = filter (\<lambda>e. past_start req (idof e) \<and> idof e \<le> page_cursor p) chain"

lemma in_map_filter [simp]: "r \<in> set (List.map_filter f xs) \<longleftrightarrow> (\<exists>x\<in>set xs. f x = Some r)"
  by (induction xs) (auto simp: List.map_filter_simps split: option.splits)

section \<open>The store of a watcher\<close>

text \<open>
  The contract of a store that records the subjects of a page together with the cursor after it: both
  or, when the cursor is malformed, neither.
\<close>

locale event_store =
  fixes cursor_of :: "'s \<Rightarrow> string option"
    and commit :: "'r list \<Rightarrow> string \<Rightarrow> 's \<Rightarrow> cursor_error + 's"
    and holds :: "'s \<Rightarrow> 'r \<Rightarrow> bool"
  assumes commit_valid: "isValidCursor c \<Longrightarrow> \<exists>s'. commit rs c s = Inr s' \<and> cursor_of s' = Some c
        \<and> (\<forall>r. holds s r \<or> r \<in> set rs \<longrightarrow> holds s' r)"
    and commit_invalid: "\<not> isValidCursor c \<Longrightarrow> commit rs c s = Inl (InvalidCursor c)"
begin

text \<open>
  Nothing between the deployment ledger and the cursor is missing: what a relevant event asks to record
  is in the store or was dealt with. \<open>want e\<close> is the record an event calls for.
\<close>

definition complete :: "('ev \<Rightarrow> string) \<Rightarrow> ('ev \<Rightarrow> 'r option) \<Rightarrow> 'ev list \<Rightarrow> nat \<Rightarrow> ('r \<Rightarrow> bool) \<Rightarrow> 's \<Rightarrow> bool" where
  "complete idof want chain deploy handled s \<longleftrightarrow>
     (\<forall>c. cursor_of s = Some c \<longrightarrow> (\<forall>e\<in>set chain. deploy \<le> ledgerOfCursor (idof e) \<longrightarrow> idof e \<le> c \<longrightarrow>
        (\<forall>r. want e = Some r \<longrightarrow> holds s r \<or> handled r)))"

definition next_request :: "nat \<Rightarrow> 's \<Rightarrow> events_request" where
  "next_request deploy s = (case cursor_of s of None \<Rightarrow> FromLedger deploy | Some c \<Rightarrow> FromCursor c)"

lemma complete_commit:
  assumes "complete idof want chain deploy handled s" "serves idof chain (next_request deploy s) p"
    "commit (List.map_filter want (page_events p)) (page_cursor p) s = Inr s'"
  shows "complete idof want chain deploy handled s'" "cursor_of s' = Some (page_cursor p)"
proof -
  have valid: "isValidCursor (page_cursor p)" using assms(3) commit_invalid by (metis Inl_Inr_False)
  from commit_valid [OF this, of "List.map_filter want (page_events p)" s] assms(3)
  have c: "cursor_of s' = Some (page_cursor p)"
    and h: "\<And>r. holds s r \<or> r \<in> set (List.map_filter want (page_events p)) \<Longrightarrow> holds s' r" by auto
  have "holds s' r \<or> handled r"
    if e: "e \<in> set chain" "deploy \<le> ledgerOfCursor (idof e)" "idof e \<le> page_cursor p" "want e = Some r" for e r
  proof (cases "past_start (next_request deploy s) (idof e)")
    case True
    with e assms(2) have "e \<in> set (page_events p)" by (auto simp: serves_def)
    with e(4) have "r \<in> set (List.map_filter want (page_events p))" by auto
    then show ?thesis by (simp add: h)
  next
    case False
    with e(2) obtain c0 where "cursor_of s = Some c0" "idof e \<le> c0"
      by (auto simp: next_request_def not_less split: option.splits)
    with assms(1) e have "holds s r \<or> handled r" by (auto simp: complete_def)
    then show ?thesis by (auto simp: h)
  qed
  then show "complete idof want chain deploy handled s'" using c by (auto simp: complete_def)
  show "cursor_of s' = Some (page_cursor p)" by (rule c)
qed

end

text \<open>
  \<^verbatim>\<open>INSERT OR IGNORE\<close> into a table with a unique key.
\<close>

definition insert_new :: "('r \<Rightarrow> 'k) \<Rightarrow> 'r \<Rightarrow> 'r list \<Rightarrow> 'r list" where
  "insert_new key r rows = (if list_ex (\<lambda>x. key x = key r) rows then rows else rows @ [r])"

lemma fold_insert_new_keys: "key ` set (fold (insert_new key) rs rows) = key ` set rows \<union> key ` set rs"
proof (induction rs arbitrary: rows)
  case (Cons r rs)
  have "key ` set (insert_new key r rows) = insert (key r) (key ` set rows)"
    by (auto simp: insert_new_def list_ex_iff intro: rev_image_eqI)
  with Cons show ?case by auto
qed simp

lemma distinct_insert_new: "distinct (map key rows) \<Longrightarrow> distinct (map key (fold (insert_new key) rs rows))"
proof (induction rs arbitrary: rows)
  case (Cons r rs)
  then have "distinct (map key (insert_new key r rows))" by (auto simp: insert_new_def list_ex_iff)
  from Cons.IH [OF this] show ?case by simp
qed simp

lemma fold_insert_new_fresh:
  "distinct (map key rs) \<Longrightarrow> key ` set rs \<inter> key ` set rows = {} \<Longrightarrow> fold (insert_new key) rs rows = rows @ rs"
proof (induction rs arbitrary: rows)
  case (Cons r rs)
  then have "key r \<notin> key ` set rows" by auto
  then have "insert_new key r rows = rows @ [r]" unfolding insert_new_def list_ex_iff by (metis image_eqI)
  moreover from Cons have "fold (insert_new key) rs (rows @ [r]) = (rows @ [r]) @ rs" by (intro Cons.IH) auto
  ultimately show ?case by simp
qed simp

text \<open>A chain in order, cut at a position.\<close>

lemma filter_upto:
  assumes "sorted_wrt (<) (map idof chain)" "c \<le> (d :: string)"
  shows "filter (\<lambda>e. idof e \<le> d) chain = filter (\<lambda>e. idof e \<le> c) chain @ filter (\<lambda>e. c < idof e \<and> idof e \<le> d) chain"
  using assms
proof (induction chain)
  case (Cons e es)
  show ?case
  proof (cases "idof e \<le> c")
    case True
    then have "idof e \<le> d" using Cons.prems(2) by simp
    with True Cons show ?thesis by simp
  next
    case False
    then have "filter (\<lambda>e. idof e \<le> c) es = []" using Cons.prems(1) by (force simp: filter_empty_conv)
    with False Cons show ?thesis by (auto simp: not_le)
  qed
qed simp

text \<open>A store that forgets nothing and holds one entry per key: an archive.\<close>

locale event_archive = event_store cursor_of commit holds
  for cursor_of :: "'s \<Rightarrow> string option" and commit :: "'r list \<Rightarrow> string \<Rightarrow> 's \<Rightarrow> cursor_error + 's" and holds :: "'s \<Rightarrow> 'r \<Rightarrow> bool" +
  fixes entries :: "'s \<Rightarrow> 'r list" and key :: "'r \<Rightarrow> string"
  assumes holds_entries: "holds s r \<longleftrightarrow> key r \<in> key ` set (entries s)"
    and commit_entries: "commit rs c s = Inr s' \<Longrightarrow> entries s' = fold (insert_new key) rs (entries s)"
begin

text \<open>The archive is the chain's records up to its cursor, in the chain's order.\<close>

definition mirrors :: "('ev \<Rightarrow> string) \<Rightarrow> ('ev \<Rightarrow> 'r option) \<Rightarrow> 'ev list \<Rightarrow> 's \<Rightarrow> bool" where
  "mirrors idof want chain s \<longleftrightarrow> entries s =
     (case cursor_of s of None \<Rightarrow> [] | Some c \<Rightarrow> List.map_filter want (filter (\<lambda>e. idof e \<le> c) chain))"

lemma mirrors_commit:
  assumes chain: "sorted_wrt (<) (map idof chain)" "\<forall>e\<in>set chain. deploy \<le> ledgerOfCursor (idof e)"
    and keys: "\<And>e r. want e = Some r \<Longrightarrow> key r = idof e"
    and old: "mirrors idof want chain s"
    and page: "serves idof chain (next_request deploy s) p"
    and new: "commit (List.map_filter want (page_events p)) (page_cursor p) s = Inr s'"
  shows "mirrors idof want chain s'" "cursor_of s' = Some (page_cursor p)"
proof -
  have valid: "isValidCursor (page_cursor p)" using new commit_invalid by (metis Inl_Inr_False)
  from commit_valid [OF this, of "List.map_filter want (page_events p)" s] new
  show cur: "cursor_of s' = Some (page_cursor p)" by auto
  have keys_of: "map key (List.map_filter want es) = map idof (filter (\<lambda>e. want e \<noteq> None) es)" for es
    by (induction es) (auto simp: List.map_filter_simps keys split: option.splits)
  have sorted: "sorted_wrt (<) (map idof (filter P chain))" for P
    using chain(1) by (simp add: sorted_wrt_map sorted_wrt_filter)
  have dist: "distinct (map key (List.map_filter want (filter P chain)))" for P
    unfolding keys_of filter_filter using sorted strict_sorted_iff by blast
  have upto: "filter (\<lambda>e. idof e \<le> page_cursor p) chain =
      (case cursor_of s of None \<Rightarrow> [] | Some c \<Rightarrow> filter (\<lambda>e. idof e \<le> c) chain) @ page_events p"
  proof (cases "cursor_of s")
    case None
    with page have "page_events p = filter (\<lambda>e. deploy \<le> ledgerOfCursor (idof e) \<and> idof e \<le> page_cursor p) chain"
      by (simp add: serves_def next_request_def)
    also have "\<dots> = filter (\<lambda>e. idof e \<le> page_cursor p) chain" using chain(2) by (intro filter_cong) auto
    finally show ?thesis using None by simp
  next
    case (Some c)
    with page have "c \<le> page_cursor p" "page_events p = filter (\<lambda>e. c < idof e \<and> idof e \<le> page_cursor p) chain"
      by (simp_all add: serves_def next_request_def)
    with filter_upto [OF chain(1) this(1)] Some show ?thesis by simp
  qed
  have map_filter_app: "List.map_filter want (xs @ ys) = List.map_filter want xs @ List.map_filter want ys" for xs ys
    by (simp add: List.map_filter_def)
  have es: "entries s' = fold (insert_new key) (List.map_filter want (page_events p)) (entries s)" by (rule commit_entries [OF new])
  have whole: "List.map_filter want (filter (\<lambda>e. idof e \<le> page_cursor p) chain) = entries s @ List.map_filter want (page_events p)"
    using old unfolding upto mirrors_def by (cases "cursor_of s") (simp_all add: map_filter_app List.map_filter_simps)
  have "distinct (map key (entries s @ List.map_filter want (page_events p)))" using dist unfolding whole [symmetric] .
  then have "entries s' = entries s @ List.map_filter want (page_events p)"
    unfolding es by (intro fold_insert_new_fresh) auto
  with whole cur show "mirrors idof want chain s'" by (simp add: mirrors_def)
qed

end

end
