(* ===== verification/Releases.thy ===== *)
theory Releases
  imports EventFeed Backoff
begin

text \<open>
  \<^verbatim>\<open>relayer/src/repay-watcher/release-store.ts\<close> and \<^verbatim>\<open>poller.ts\<close>: the table of releases owed to
  borrowers who repaid in full, the poll that fills it and the sweep that publishes from it. RPC, the
  publication of a release, the chain's view of it and the clock are parameters; an answer of a sweep is
  read at the position \<open>w_calls\<close>, which every call advances. \<open>w_seen\<close> logs the rows that were removed,
  each because the contract showed its release.
\<close>

section \<open>The table\<close>

definition BASE_RETRY_DELAY_MS :: int where "BASE_RETRY_DELAY_MS = 30000"
definition MAX_RETRY_DELAY_MS :: int where "MAX_RETRY_DELAY_MS = 60 * 60000"
definition MAX_RELEASE_ATTEMPTS :: nat where "MAX_RELEASE_ATTEMPTS = 24"

definition releaseRetryDelayMs :: "nat \<Rightarrow> int" where
  "releaseRetryDelayMs attempts = min (BASE_RETRY_DELAY_MS * 2 ^ min (attempts - 1) 20) MAX_RETRY_DELAY_MS"

record pending_release =
  pr_contract :: string
  pr_txid :: string
  firstSeenAt :: int
  attempts :: nat
  next_attempt :: int
  lastError :: "string option"

record release_db =
  rd_cursor :: "string option"
  rd_pending :: "pending_release list"

definition row_for :: "string \<Rightarrow> string \<Rightarrow> pending_release \<Rightarrow> bool" where
  "row_for contract txid r \<longleftrightarrow> pr_contract r = contract \<and> pr_txid r = txid"

definition insert_release :: "string \<Rightarrow> int \<Rightarrow> string \<Rightarrow> pending_release list \<Rightarrow> pending_release list" where
  "insert_release contract t txid rows =
     (if list_ex (row_for contract txid) rows then rows
      else rows @ [\<lparr>pr_contract = contract, pr_txid = txid, firstSeenAt = t, attempts = 0, next_attempt = t, lastError = None\<rparr>])"

definition release_writeCursor :: "string \<Rightarrow> release_db \<Rightarrow> cursor_error + release_db" where
  "release_writeCursor c db = res_bind (assertValidCursor c) (\<lambda>_. Inr (db\<lparr>rd_cursor := Some c\<rparr>))"

text \<open>One transaction: a malformed cursor rolls the insertions back.\<close>

definition recordBatch :: "string \<Rightarrow> string list \<Rightarrow> string \<Rightarrow> int \<Rightarrow> release_db \<Rightarrow> cursor_error + release_db" where
  "recordBatch contract txids cursor t db =
     release_writeCursor cursor (db\<lparr>rd_pending := fold (insert_release contract t) txids (rd_pending db)\<rparr>)"

definition due :: "string \<Rightarrow> int \<Rightarrow> nat \<Rightarrow> release_db \<Rightarrow> pending_release list" where
  "due contract t limit db =
     take limit (sort_key firstSeenAt (sort_key pr_txid
       (filter (\<lambda>r. pr_contract r = contract \<and> next_attempt r \<le> t \<and> attempts r < MAX_RELEASE_ATTEMPTS) (rd_pending db))))"

definition attempts_of :: "string \<Rightarrow> string \<Rightarrow> release_db \<Rightarrow> nat" where
  "attempts_of contract txid db = (case find (row_for contract txid) (rd_pending db) of None \<Rightarrow> 0 | Some r \<Rightarrow> attempts r)"

definition markFailed :: "string \<Rightarrow> string \<Rightarrow> string \<Rightarrow> int \<Rightarrow> release_db \<Rightarrow> release_db" where
  "markFailed contract txid error t db =
     (let n = attempts_of contract txid db + 1 in
      db\<lparr>rd_pending := map (\<lambda>r. if row_for contract txid r
           then r\<lparr>attempts := attempts r + 1, lastError := Some error, next_attempt := t + releaseRetryDelayMs n\<rparr> else r)
         (rd_pending db)\<rparr>)"

definition remove_release :: "string \<Rightarrow> string \<Rightarrow> release_db \<Rightarrow> release_db" where
  "remove_release contract txid db = db\<lparr>rd_pending := filter (\<lambda>r. \<not> row_for contract txid r) (rd_pending db)\<rparr>"

record release_summary =
  rs_pending :: nat
  oldestPendingAt :: "int option"
  rs_stuck :: nat

definition summary :: "string \<Rightarrow> release_db \<Rightarrow> release_summary" where
  "summary contract db =
     (let rows = filter (\<lambda>r. pr_contract r = contract) (rd_pending db) in
      \<lparr>rs_pending = length rows,
       oldestPendingAt = (if rows = [] then None else Some (Min (firstSeenAt ` set rows))),
       rs_stuck = length (filter (\<lambda>r. attempts r \<ge> MAX_RELEASE_ATTEMPTS) rows)\<rparr>)"

section \<open>The poll\<close>

datatype poll_error = NoDeployLedger | RpcFailed string | BadCursor cursor_error

text \<open>\<open>decode\<close> gives the first topic and the transaction id of an event, where they are readable.\<close>

definition repaid :: "('ev \<Rightarrow> string option \<times> string option) \<Rightarrow> 'ev \<Rightarrow> string option" where
  "repaid decode e = (case decode e of
     (Some topic0, Some txid) \<Rightarrow> if topic0 = ''repay_full'' then Some txid else None
   | _ \<Rightarrow> None)"

definition poll_request :: "string option \<Rightarrow> nat option \<Rightarrow> poll_error + events_request" where
  "poll_request cursor deployLedger =
     (case cursor of
        Some c \<Rightarrow> Inr (FromCursor c)
      | None \<Rightarrow> (case deployLedger of None \<Rightarrow> Inl NoDeployLedger | Some l \<Rightarrow> Inr (FromLedger l)))"

definition runPollCycle ::
    "('ev \<Rightarrow> string option \<times> string option) \<Rightarrow> (events_request \<Rightarrow> string + 'ev page) \<Rightarrow> string \<Rightarrow> nat option \<Rightarrow> int
     \<Rightarrow> release_db \<Rightarrow> release_db \<times> (poll_error + unit)" where
  "runPollCycle decode getEvents contract deployLedger t db =
     (case poll_request (rd_cursor db) deployLedger of
        Inl e \<Rightarrow> (db, Inl e)
      | Inr req \<Rightarrow>
         (case getEvents req of
            Inl m \<Rightarrow> (db, Inl (RpcFailed m))
          | Inr p \<Rightarrow>
             (case recordBatch contract (List.map_filter (repaid decode) (page_events p)) (page_cursor p) t db of
                Inl e \<Rightarrow> (db, Inl (BadCursor e))
              | Inr db' \<Rightarrow> (db', Inr ()))))"

section \<open>The sweep\<close>

definition PUBLISH_RETRIES :: nat where "PUBLISH_RETRIES = 2"
definition PUBLISH_RETRY_BASE_DELAY_MS :: nat where "PUBLISH_RETRY_BASE_DELAY_MS = 2000"

text \<open>\<open>attempt k\<close> is the outcome of the \<open>k\<close>-th run of the handler.\<close>

definition withPromptRetry :: "(nat \<Rightarrow> string + unit) \<Rightarrow> string + unit" where
  "withPromptRetry attempt = snd (withBackoff attempt (\<lambda>_. True) PUBLISH_RETRIES PUBLISH_RETRY_BASE_DELAY_MS)"

record sweep_env =
  sw_now :: "nat \<Rightarrow> int"
  sw_handle :: "nat \<Rightarrow> string \<Rightarrow> nat \<Rightarrow> string + unit"
  sw_isPublished :: "nat \<Rightarrow> string \<Rightarrow> string + bool"

record watcher =
  w_db :: release_db
  w_calls :: nat
  w_seen :: "string list"

text \<open>\<^verbatim>\<open>await publish(txid)\<close>, then \<^verbatim>\<open>isPublished\<close>: the error, if any, and the calls made.\<close>

definition publish_row :: "sweep_env \<Rightarrow> nat \<Rightarrow> string \<Rightarrow> nat \<times> (string + unit)" where
  "publish_row env k txid =
     (case withPromptRetry (sw_handle env k txid) of
        Inl m \<Rightarrow> (Suc k, Inl m)
      | Inr _ \<Rightarrow>
         (Suc (Suc k),
          (case sw_isPublished env (Suc k) txid of
             Inl m \<Rightarrow> Inl m
           | Inr False \<Rightarrow> Inl ''published, but the release is not visible on chain yet''
           | Inr True \<Rightarrow> Inr ())))"

definition sweep_row :: "sweep_env \<Rightarrow> string \<Rightarrow> pending_release \<Rightarrow> watcher \<Rightarrow> watcher" where
  "sweep_row env contract row w =
     (let (k, r) = publish_row env (w_calls w) (pr_txid row) in
      case r of
        Inr _ \<Rightarrow> w\<lparr>w_db := remove_release contract (pr_txid row) (w_db w), w_calls := k, w_seen := w_seen w @ [pr_txid row]\<rparr>
      | Inl m \<Rightarrow> w\<lparr>w_db := markFailed contract (pr_txid row) (takeWhile (\<lambda>c. c \<noteq> CHR 0x0A) m) (sw_now env k) (w_db w), w_calls := Suc k\<rparr>)"

definition runReleaseSweep :: "sweep_env \<Rightarrow> string \<Rightarrow> watcher \<Rightarrow> watcher" where
  "runReleaseSweep env contract w =
     (let rows = due contract (sw_now env (w_calls w)) 10 (w_db w)
      in fold (sweep_row env contract) rows (w\<lparr>w_calls := Suc (w_calls w)\<rparr>))"

section \<open>The table as an event store\<close>

definition owed :: "string \<Rightarrow> release_db \<Rightarrow> string \<Rightarrow> bool" where
  "owed contract db txid \<longleftrightarrow> list_ex (row_for contract txid) (rd_pending db)"

lemma owed_fold_insert:
  "list_ex (row_for contract x) (fold (insert_release contract t) txids rows) \<longleftrightarrow> list_ex (row_for contract x) rows \<or> x \<in> set txids"
proof (induction txids arbitrary: rows)
  case (Cons y ys)
  have "list_ex (row_for contract x) (insert_release contract t y rows) \<longleftrightarrow> list_ex (row_for contract x) rows \<or> x = y"
    by (auto simp: insert_release_def row_for_def list_ex_iff)
  with Cons show ?case by auto
qed simp

interpretation releases: event_store rd_cursor "\<lambda>txids c db. recordBatch contract txids c t db" "\<lambda>db txid. owed contract db txid"
  for contract t
proof
  show "\<exists>s'. recordBatch contract rs c t s = Inr s' \<and> rd_cursor s' = Some c
      \<and> (\<forall>r. owed contract s r \<or> r \<in> set rs \<longrightarrow> owed contract s' r)" if "isValidCursor c" for c rs s
    using that by (simp add: recordBatch_def release_writeCursor_def assertValidCursor_def owed_def owed_fold_insert)
  show "recordBatch contract rs c t s = Inl (InvalidCursor c)" if "\<not> isValidCursor c" for c rs s
    using that by (simp add: recordBatch_def release_writeCursor_def assertValidCursor_def)
qed

section \<open>Every run of the watcher\<close>

text \<open>
  A poll with any answer, failed or served by the chain, or a sweep with any outcomes. A restart keeps
  the database, which is all the state there is.
\<close>

inductive watch_step ::
    "sweep_env \<Rightarrow> string \<Rightarrow> ('ev \<Rightarrow> string option \<times> string option) \<Rightarrow> ('ev \<Rightarrow> string) \<Rightarrow> 'ev list \<Rightarrow> nat \<Rightarrow> watcher \<Rightarrow> watcher \<Rightarrow> bool"
  for env contract decode idof chain deploy where
  poll: "(\<And>req p. getEvents req = Inr p \<Longrightarrow> serves idof chain req p) \<Longrightarrow> dl = None \<or> dl = Some deploy \<Longrightarrow>
    watch_step env contract decode idof chain deploy w
      (w\<lparr>w_db := fst (runPollCycle decode getEvents contract dl t (w_db w))\<rparr>)"
| sweep: "watch_step env contract decode idof chain deploy w (runReleaseSweep env contract w)"

inductive_cases watch_stepE: "watch_step env contract decode idof chain deploy w w'"

text \<open>\<open>dealt\<close> are the releases known to be on chain before the run.\<close>

abbreviation no_gap where
  "no_gap dealt contract decode idof chain deploy w \<equiv>
     releases.complete contract idof (repaid decode) chain deploy (\<lambda>x. dealt x \<or> x \<in> set (w_seen w)) (w_db w)"

definition seen_published :: "sweep_env \<Rightarrow> watcher \<Rightarrow> bool" where
  "seen_published env w \<longleftrightarrow> (\<forall>x\<in>set (w_seen w). \<exists>k<w_calls w. sw_isPublished env k x = Inr True)"

lemma poll_cases:
  obtains (same) "fst (runPollCycle decode getEvents contract dl t db) = db"
  | (page) req p db' where "poll_request (rd_cursor db) dl = Inr req" "getEvents req = Inr p"
      "recordBatch contract (List.map_filter (repaid decode) (page_events p)) (page_cursor p) t db = Inr db'"
      "fst (runPollCycle decode getEvents contract dl t db) = db'"
proof (cases "\<exists>req p db'. poll_request (rd_cursor db) dl = Inr req \<and> getEvents req = Inr p
    \<and> recordBatch contract (List.map_filter (repaid decode) (page_events p)) (page_cursor p) t db = Inr db'")
  case True
  then obtain req p db' where f: "poll_request (rd_cursor db) dl = Inr req" "getEvents req = Inr p"
    "recordBatch contract (List.map_filter (repaid decode) (page_events p)) (page_cursor p) t db = Inr db'" by blast
  then have "fst (runPollCycle decode getEvents contract dl t db) = db'" by (simp add: runPollCycle_def)
  with f show ?thesis by (rule page)
next
  case False
  then have "fst (runPollCycle decode getEvents contract dl t db) = db"
    by (auto simp: runPollCycle_def split: sum.splits)
  then show ?thesis by (rule same)
qed

lemma poll_request_next:
  "poll_request (rd_cursor db) dl = Inr req \<Longrightarrow> dl = None \<or> dl = Some deploy \<Longrightarrow> req = releases.next_request deploy db"
  by (auto simp: poll_request_def releases.next_request_def split: option.splits)

lemma no_gap_poll:
  assumes "no_gap dealt contract decode idof chain deploy w" "\<And>req p. getEvents req = Inr p \<Longrightarrow> serves idof chain req p"
    "dl = None \<or> dl = Some deploy"
  shows "no_gap dealt contract decode idof chain deploy (w\<lparr>w_db := fst (runPollCycle decode getEvents contract dl t (w_db w))\<rparr>)"
proof (cases rule: poll_cases [of decode getEvents contract dl t "w_db w"])
  case same
  with assms(1) show ?thesis by simp
next
  case (page req p db')
  have "serves idof chain (releases.next_request deploy (w_db w)) p"
    using assms(2) [OF page(2)] poll_request_next [OF page(1) assms(3)] by simp
  from releases.complete_commit(1) [OF assms(1) this page(3)] page(4) show ?thesis by simp
qed

lemma publish_row_calls: "publish_row env k x = (k', r) \<Longrightarrow> k < k' \<and> k' \<le> k + 2"
  by (auto simp: publish_row_def split: sum.splits)

lemma publish_row_ok: "publish_row env k x = (k', Inr u) \<Longrightarrow> k' = k + 2 \<and> sw_isPublished env (Suc k) x = Inr True"
  by (auto simp: publish_row_def split: sum.splits bool.splits)

lemma list_ex_map_same: "(\<And>x. P (g x) = P x) \<Longrightarrow> list_ex P (map g xs) = list_ex P xs"
  by (induction xs) simp_all

lemma owed_markFailed [simp]: "owed contract (markFailed c x e t db) y \<longleftrightarrow> owed contract db y"
  unfolding owed_def markFailed_def Let_def by (simp, rule list_ex_map_same) (simp add: row_for_def)

lemma owed_remove: "owed contract db y \<Longrightarrow> owed contract (remove_release contract x db) y \<or> y = x"
  by (auto simp: owed_def remove_release_def list_ex_iff row_for_def)

lemma sweep_row_keeps:
  assumes "no_gap dealt contract decode idof chain deploy w" "seen_published env w"
  shows "no_gap dealt contract decode idof chain deploy (sweep_row env contract row w)" "seen_published env (sweep_row env contract row w)"
proof -
  obtain k r where pub: "publish_row env (w_calls w) (pr_txid row) = (k, r)" by fastforce
  note calls = publish_row_calls [OF pub]
  have old: "\<exists>j<k. sw_isPublished env j x = Inr True" if "x \<in> set (w_seen w)" for x
    using assms(2) that calls unfolding seen_published_def by (meson less_trans)
  show "no_gap dealt contract decode idof chain deploy (sweep_row env contract row w)"
  proof (cases r)
    case (Inl m)
    with assms(1) pub show ?thesis
      by (simp add: sweep_row_def releases.complete_def) (simp add: markFailed_def Let_def)
  next
    case (Inr u)
    with assms(1) pub owed_remove show ?thesis
      by (simp add: sweep_row_def releases.complete_def) (fastforce simp: remove_release_def)
  qed
  show "seen_published env (sweep_row env contract row w)"
  proof (cases r)
    case (Inl m)
    with pub old show ?thesis by (force simp: sweep_row_def seen_published_def less_Suc_eq)
  next
    case (Inr u)
    with publish_row_ok [of env "w_calls w" "pr_txid row" k u] pub old show ?thesis
      by (auto simp: sweep_row_def seen_published_def)
  qed
qed

lemma sweep_keeps:
  assumes "no_gap dealt contract decode idof chain deploy w" "seen_published env w"
  shows "no_gap dealt contract decode idof chain deploy (runReleaseSweep env contract w) \<and> seen_published env (runReleaseSweep env contract w)"
proof -
  have fold: "no_gap dealt contract decode idof chain deploy v \<and> seen_published env v \<Longrightarrow>
      no_gap dealt contract decode idof chain deploy (fold (sweep_row env contract) rows v) \<and> seen_published env (fold (sweep_row env contract) rows v)"
    for rows v
  proof (induction rows arbitrary: v)
    case (Cons r rs)
    then have "no_gap dealt contract decode idof chain deploy (sweep_row env contract r v) \<and> seen_published env (sweep_row env contract r v)"
      by (intro conjI sweep_row_keeps(1) sweep_row_keeps(2) [where dealt = dealt and decode = decode and idof = idof and chain = chain and deploy = deploy])
        simp_all
    from Cons.IH [OF this] show ?case by simp
  qed simp
  show ?thesis
    unfolding runReleaseSweep_def Let_def
    by (rule fold) (use assms in \<open>auto simp: seen_published_def less_Suc_eq\<close>)
qed

lemma watch_step_keeps:
  assumes "watch_step env contract decode idof chain deploy w w'"
    "no_gap dealt contract decode idof chain deploy w \<and> seen_published env w"
  shows "no_gap dealt contract decode idof chain deploy w' \<and> seen_published env w'"
proof -
  from assms(1) consider
      (poll) getEvents dl t where "\<And>req p. getEvents req = Inr p \<Longrightarrow> serves idof chain req p" "dl = None \<or> dl = Some deploy"
        "w' = w\<lparr>w_db := fst (runPollCycle decode getEvents contract dl t (w_db w))\<rparr>"
    | (sweep) "w' = runReleaseSweep env contract w" by (rule watch_stepE) blast+
  then show ?thesis
  proof cases
    case poll
    have "no_gap dealt contract decode idof chain deploy w'"
      unfolding poll(3) by (rule no_gap_poll [OF _ poll(1, 2)]) (use assms(2) in simp_all)
    moreover have "seen_published env w'" using assms(2) by (simp add: poll(3) seen_published_def)
    ultimately show ?thesis ..
  next
    case sweep
    show ?thesis
      unfolding sweep by (rule sweep_keeps [OF conjunct1 [OF assms(2)] conjunct2 [OF assms(2)]])
  qed
qed

lemma watch_steps_keep:
  assumes "(watch_step env contract decode idof chain deploy)\<^sup>*\<^sup>* w w'"
    "no_gap dealt contract decode idof chain deploy w \<and> seen_published env w"
  shows "no_gap dealt contract decode idof chain deploy w' \<and> seen_published env w'"
  using assms
proof (induction rule: rtranclp_induct)
  case (step y z)
  show ?case by (rule watch_step_keeps [OF step.hyps(2) step.IH [OF step.prems]])
qed

section \<open>Properties\<close>

text \<open>C4. No repayment is lost: whatever fails, in whatever order polls and sweeps run from an empty
  database, the release of every full repayment the chain holds from the deployment ledger up to the
  stored cursor is still owed in the table, or was removed from it after the contract showed it.\<close>

theorem repayment_never_lost:
  assumes "(watch_step env contract decode idof chain deploy)\<^sup>*\<^sup>* w0 w" "rd_cursor (w_db w0) = None" "w_seen w0 = []"
    "e \<in> set chain" "deploy \<le> ledgerOfCursor (idof e)" "rd_cursor (w_db w) = Some c" "idof e \<le> c"
    "decode e = (Some ''repay_full'', Some txid)"
  shows "owed contract (w_db w) txid \<or> (\<exists>k<w_calls w. sw_isPublished env k txid = Inr True)"
proof -
  have "no_gap (\<lambda>_. False) contract decode idof chain deploy w0 \<and> seen_published env w0"
    using assms(2, 3) by (simp add: releases.complete_def seen_published_def)
  from watch_steps_keep [OF assms(1) this]
  have "no_gap (\<lambda>_. False) contract decode idof chain deploy w \<and> seen_published env w" .
  moreover have "repaid decode e = Some txid" using assms(8) by (simp add: repaid_def)
  ultimately have "owed contract (w_db w) txid \<or> txid \<in> set (w_seen w)" "seen_published env w"
    using assms(4-7) unfolding releases.complete_def by blast+
  then show ?thesis unfolding seen_published_def by blast
qed

section \<open>The sweep, row by row\<close>

definition distinct_rows :: "release_db \<Rightarrow> bool" where
  "distinct_rows db \<longleftrightarrow> distinct (map (\<lambda>r. (pr_contract r, pr_txid r)) (rd_pending db))"

text \<open>What one attempt makes of a row: \<^const>\<open>None\<close> when it is removed.\<close>

definition attempted :: "sweep_env \<Rightarrow> pending_release \<Rightarrow> pending_release option \<Rightarrow> bool" where
  "attempted env r res \<longleftrightarrow> (\<exists>k.
     (snd (publish_row env k (pr_txid r)) = Inr () \<and> res = None)
     \<or> (\<exists>m t. snd (publish_row env k (pr_txid r)) = Inl m
          \<and> res = Some (r\<lparr>attempts := attempts r + 1, lastError := Some (takeWhile (\<lambda>c. c \<noteq> CHR 0x0A) m),
                next_attempt := t + releaseRetryDelayMs (attempts r + 1)\<rparr>)))"

lemma filter_as_map_filter:
  "(\<And>x. x \<in> set xs \<Longrightarrow> P x \<longleftrightarrow> x = r) \<Longrightarrow> filter (\<lambda>x. \<not> P x) xs = List.map_filter (\<lambda>x. if x = r then None else Some x) xs"
  by (induction xs) (auto simp: List.map_filter_simps)

lemma map_as_map_filter:
  "(\<And>x. x \<in> set xs \<Longrightarrow> P x \<longleftrightarrow> x = r) \<Longrightarrow> map (\<lambda>x. if P x then g x else x) xs = List.map_filter (\<lambda>x. if x = r then Some (g r) else Some x) xs"
  by (induction xs) (auto simp: List.map_filter_simps)

lemma sweep_row_effect:
  assumes "distinct_rows (w_db w)" "r \<in> set (rd_pending (w_db w))" "pr_contract r = contract"
  obtains res where "attempted env r res"
    "rd_pending (w_db (sweep_row env contract r w)) = List.map_filter (\<lambda>x. if x = r then res else Some x) (rd_pending (w_db w))"
    "rd_cursor (w_db (sweep_row env contract r w)) = rd_cursor (w_db w)"
proof -
  let ?rows = "rd_pending (w_db w)"
  have same: "row_for contract (pr_txid r) x \<longleftrightarrow> x = r" if "x \<in> set ?rows" for x
    using assms that by (auto simp: distinct_rows_def distinct_map row_for_def dest: inj_onD)
  have find: "find (row_for contract (pr_txid r)) ?rows = Some r"
  proof -
    have "find (row_for contract (pr_txid r)) ?rows \<noteq> None" using assms(2) same by (auto simp: find_None_iff)
    then obtain x where x: "find (row_for contract (pr_txid r)) ?rows = Some x" by blast
    then have "x \<in> set ?rows \<and> row_for contract (pr_txid r) x" unfolding find_Some_iff by (metis nth_mem)
    then have "x = r" using same by blast
    with x show ?thesis by simp
  qed
  obtain k res where pub: "publish_row env (w_calls w) (pr_txid r) = (k, res)" by fastforce
  show ?thesis
  proof (cases res)
    case (Inr u)
    have "filter (\<lambda>x. \<not> row_for contract (pr_txid r) x) ?rows = List.map_filter (\<lambda>x. if x = r then None else Some x) ?rows"
      by (rule filter_as_map_filter) (use same in simp)
    moreover have "attempted env r None" using pub Inr by (auto simp: attempted_def intro!: exI [of _ "w_calls w"])
    ultimately show ?thesis using pub Inr by (intro that [of None]) (simp_all add: sweep_row_def remove_release_def)
  next
    case (Inl m)
    let ?r = "r\<lparr>attempts := attempts r + 1, lastError := Some (takeWhile (\<lambda>c. c \<noteq> CHR 0x0A) m),
        next_attempt := sw_now env k + releaseRetryDelayMs (Suc (attempts r))\<rparr>"
    have "map (\<lambda>x. if row_for contract (pr_txid r) x then x\<lparr>attempts := attempts x + 1,
          lastError := Some (takeWhile (\<lambda>c. c \<noteq> CHR 0x0A) m), next_attempt := sw_now env k + releaseRetryDelayMs (Suc (attempts r))\<rparr> else x) ?rows
        = List.map_filter (\<lambda>x. if x = r then Some ?r else Some x) ?rows"
      by (rule map_as_map_filter) (use same in simp)
    moreover have "attempted env r (Some ?r)" using pub Inl by (auto simp: attempted_def intro!: exI [of _ "w_calls w"])
    ultimately show ?thesis using pub Inl find
      by (intro that [of "Some ?r"]) (simp_all add: sweep_row_def markFailed_def Let_def attempts_of_def)
  qed
qed

lemma map_filter_compose: "List.map_filter g (List.map_filter f xs) = List.map_filter (\<lambda>x. Option.bind (f x) g) xs"
  by (induction xs) (auto simp: List.map_filter_simps split: option.splits)

lemma attempted_key: "attempted env r (Some r') \<Longrightarrow> pr_contract r' = pr_contract r \<and> pr_txid r' = pr_txid r"
  by (auto simp: attempted_def)

lemma distinct_rows_update:
  assumes "distinct_rows db" "\<And>x y. f x = Some y \<Longrightarrow> pr_contract y = pr_contract x \<and> pr_txid y = pr_txid x"
    "rd_pending db' = List.map_filter f (rd_pending db)"
  shows "distinct_rows db'"
proof -
  let ?key = "\<lambda>r. (pr_contract r, pr_txid r)"
  have sub: "?key ` set (List.map_filter f rows) \<subseteq> ?key ` set rows" for rows
    using assms(2) by (force simp: image_iff)
  have "distinct (map ?key rows) \<Longrightarrow> distinct (map ?key (List.map_filter f rows))" for rows
  proof (induction rows)
    case (Cons x xs)
    then have IH: "distinct (map ?key (List.map_filter f xs))" "?key x \<notin> ?key ` set xs" by auto
    show ?case
    proof (cases "f x")
      case None
      with IH show ?thesis by (simp add: List.map_filter_simps)
    next
      case (Some y)
      with assms(2) [OF this] IH(2) sub [of xs] have "?key y \<notin> ?key ` set (List.map_filter f xs)" by auto
      with IH(1) Some show ?thesis by (simp add: List.map_filter_simps)
    qed
  qed (simp add: List.map_filter_simps)
  with assms(1, 3) show ?thesis by (simp add: distinct_rows_def)
qed

lemma sweep_rows_effect:
  assumes "distinct_rows (w_db w)" "distinct rs" "set rs \<subseteq> set (rd_pending (w_db w))" "\<forall>r\<in>set rs. pr_contract r = contract"
  shows "\<exists>f. rd_pending (w_db (fold (sweep_row env contract) rs w)) = List.map_filter f (rd_pending (w_db w))
    \<and> (\<forall>r\<in>set rs. attempted env r (f r)) \<and> (\<forall>x. x \<notin> set rs \<longrightarrow> f x = Some x)
    \<and> rd_cursor (w_db (fold (sweep_row env contract) rs w)) = rd_cursor (w_db w)"
  using assms
proof (induction rs arbitrary: w)
  case Nil
  have "List.map_filter Some xs = xs" for xs :: "pending_release list"
    by (induction xs) (simp_all add: List.map_filter_simps)
  then show ?case by (intro exI [of _ Some]) simp
next
  case (Cons r rs)
  let ?w = "sweep_row env contract r w"
  let ?key = "\<lambda>r. (pr_contract r, pr_txid r)"
  have r: "r \<in> set (rd_pending (w_db w))" "pr_contract r = contract" using Cons.prems by auto
  obtain res where res: "attempted env r res"
    "rd_pending (w_db ?w) = List.map_filter (\<lambda>x. if x = r then res else Some x) (rd_pending (w_db w))"
    "rd_cursor (w_db ?w) = rd_cursor (w_db w)"
    using sweep_row_effect [OF Cons.prems(1) r] by blast
  have "distinct_rows (w_db ?w)"
    by (rule distinct_rows_update [OF Cons.prems(1) _ res(2)]) (use attempted_key res(1) in \<open>auto split: if_splits\<close>)
  moreover have "distinct rs" "\<forall>r\<in>set rs. pr_contract r = contract" using Cons.prems by auto
  moreover have "set rs \<subseteq> set (rd_pending (w_db ?w))"
  proof
    fix x assume "x \<in> set rs"
    with Cons.prems(2, 3) have "x \<in> set (rd_pending (w_db w))" "x \<noteq> r" by auto
    then show "x \<in> set (rd_pending (w_db ?w))" by (auto simp: res(2))
  qed
  ultimately obtain g where g: "rd_pending (w_db (fold (sweep_row env contract) rs ?w)) = List.map_filter g (rd_pending (w_db ?w))"
    "\<forall>r\<in>set rs. attempted env r (g r)" "\<forall>x. x \<notin> set rs \<longrightarrow> g x = Some x"
    "rd_cursor (w_db (fold (sweep_row env contract) rs ?w)) = rd_cursor (w_db ?w)"
    using Cons.IH by blast
  have kept: "g r' = Some r'" if "res = Some r'" for r'
  proof -
    have "?key r' = ?key r" using attempted_key res(1) that by auto
    moreover have "?key x \<noteq> ?key r" if "x \<in> set rs" for x
      using Cons.prems that by (auto simp: distinct_rows_def distinct_map dest: inj_onD)
    ultimately have "r' \<notin> set rs" by metis
    with g(3) show ?thesis by blast
  qed
  let ?f = "\<lambda>x. Option.bind (if x = r then res else Some x) g"
  have fr: "?f r = res" using kept by (cases res) simp_all
  have "rd_pending (w_db (fold (sweep_row env contract) (r # rs) w)) = List.map_filter ?f (rd_pending (w_db w))"
    by (simp add: g(1) res(2) map_filter_compose)
  moreover have "\<forall>x\<in>set (r # rs). attempted env x (?f x)"
    using fr res(1) g(2) Cons.prems(2) by auto
  moreover have "\<forall>x. x \<notin> set (r # rs) \<longrightarrow> ?f x = Some x" using g(3) by simp
  ultimately show ?case using g(4) res(3) by (intro exI [of _ ?f]) simp
qed

lemma set_due: "r \<in> set (due contract t n db) \<Longrightarrow> r \<in> set (rd_pending db) \<and> pr_contract r = contract
    \<and> next_attempt r \<le> t \<and> attempts r < MAX_RELEASE_ATTEMPTS"
  by (auto simp: due_def dest!: in_set_takeD)

lemma distinct_due: "distinct_rows db \<Longrightarrow> distinct (due contract t n db)"
  by (auto simp: due_def distinct_rows_def distinct_map)

text \<open>The primary key: every operation keeps one row per contract and transaction.\<close>

lemma distinct_recordBatch:
  assumes "distinct_rows db" "recordBatch contract txids c t db = Inr db'"
  shows "distinct_rows db'"
proof -
  have "distinct (map (\<lambda>r. (pr_contract r, pr_txid r)) rows) \<Longrightarrow>
      distinct (map (\<lambda>r. (pr_contract r, pr_txid r)) (fold (insert_release contract t) txids rows))" for rows
  proof (induction txids arbitrary: rows)
    case (Cons x xs)
    then have "distinct (map (\<lambda>r. (pr_contract r, pr_txid r)) (insert_release contract t x rows))"
      by (auto simp: insert_release_def list_ex_iff row_for_def)
    from Cons.IH [OF this] show ?case by simp
  qed simp
  with assms show ?thesis
    by (auto simp: recordBatch_def release_writeCursor_def assertValidCursor_def distinct_rows_def split: if_splits)
qed

lemma sweep_effect:
  assumes "distinct_rows (w_db w)"
  shows "\<exists>f. rd_pending (w_db (runReleaseSweep env contract w)) = List.map_filter f (rd_pending (w_db w))
    \<and> (\<forall>r\<in>set (due contract (sw_now env (w_calls w)) 10 (w_db w)). attempted env r (f r))
    \<and> (\<forall>r. r \<notin> set (due contract (sw_now env (w_calls w)) 10 (w_db w)) \<longrightarrow> f r = Some r)
    \<and> rd_cursor (w_db (runReleaseSweep env contract w)) = rd_cursor (w_db w)"
proof -
  let ?rows = "due contract (sw_now env (w_calls w)) 10 (w_db w)"
  let ?w = "w\<lparr>w_calls := Suc (w_calls w)\<rparr>"
  have "distinct_rows (w_db ?w)" "distinct ?rows" "set ?rows \<subseteq> set (rd_pending (w_db ?w))" "\<forall>r\<in>set ?rows. pr_contract r = contract"
    using assms distinct_due set_due by auto
  from sweep_rows_effect [OF this] show ?thesis by (simp add: runReleaseSweep_def Let_def)
qed

lemma distinct_sweep:
  assumes "distinct_rows (w_db w)"
  shows "distinct_rows (w_db (runReleaseSweep env contract w))"
proof -
  obtain f where f: "rd_pending (w_db (runReleaseSweep env contract w)) = List.map_filter f (rd_pending (w_db w))"
    "\<forall>r\<in>set (due contract (sw_now env (w_calls w)) 10 (w_db w)). attempted env r (f r)"
    "\<forall>r. r \<notin> set (due contract (sw_now env (w_calls w)) 10 (w_db w)) \<longrightarrow> f r = Some r"
    using sweep_effect [OF assms] by blast
  have "pr_contract y = pr_contract x \<and> pr_txid y = pr_txid x" if "f x = Some y" for x y
    using f(2, 3) attempted_key that by (metis option.inject)
  from distinct_rows_update [OF assms this f(1)] show ?thesis .
qed

text \<open>A sweep works on each due row by itself: it attempts at most ten due rows, the oldest first, each
  exactly once, and what becomes of a row (removed because its release is on chain, or kept with one more
  attempt, the error and a later next attempt) is decided by that row's own calls; every other row of the
  table and the cursor are left as they are, and no row is added.\<close>

theorem sweep_isolates_rows:
  assumes "distinct_rows (w_db w)"
  shows "\<exists>f. rd_pending (w_db (runReleaseSweep env contract w)) = List.map_filter f (rd_pending (w_db w))
    \<and> (\<forall>r\<in>set (due contract (sw_now env (w_calls w)) 10 (w_db w)). attempted env r (f r))
    \<and> (\<forall>r. r \<notin> set (due contract (sw_now env (w_calls w)) 10 (w_db w)) \<longrightarrow> f r = Some r)
    \<and> rd_cursor (w_db (runReleaseSweep env contract w)) = rd_cursor (w_db w)"
  using assms by (rule sweep_effect)

section \<open>The table drains\<close>

abbreviation live :: "string \<Rightarrow> pending_release \<Rightarrow> bool" where
  "live contract r \<equiv> pr_contract r = contract \<and> attempts r < MAX_RELEASE_ATTEMPTS"

definition drained :: "string \<Rightarrow> int \<Rightarrow> release_db \<Rightarrow> bool" where
  "drained contract T db \<longleftrightarrow> (\<forall>r\<in>set (rd_pending db). live contract r \<longrightarrow> T < next_attempt r)"

lemma short_take: "length (take n xs) < n \<Longrightarrow> take n xs = xs"
  by (simp add: min_def split: if_splits)

lemma due_short: "length (due contract t 10 db) < 10 \<Longrightarrow>
    set (due contract t 10 db) = {r \<in> set (rd_pending db). live contract r \<and> next_attempt r \<le> t}"
  unfolding due_def by (subst short_take) auto

lemma sweep_drains:
  fixes contract :: string
  assumes "distinct_rows (w_db w)" and good: "\<And>k x. snd (publish_row env k x) = Inr ()" and now: "T \<le> sw_now env (w_calls w)"
  defines "w' \<equiv> runReleaseSweep env contract w"
  shows "distinct_rows (w_db w')" "drained contract T (w_db w) \<Longrightarrow> drained contract T (w_db w')"
    "drained contract T (w_db w') \<or>
     length (filter (live contract) (rd_pending (w_db w'))) + 10 \<le> length (filter (live contract) (rd_pending (w_db w)))"
proof -
  let ?due = "due contract (sw_now env (w_calls w)) 10 (w_db w)" and ?rows = "rd_pending (w_db w)"
  obtain f where f: "rd_pending (w_db w') = List.map_filter f ?rows" "\<forall>r\<in>set ?due. attempted env r (f r)"
    "\<forall>r. r \<notin> set ?due \<longrightarrow> f r = Some r"
    using sweep_effect [OF assms(1)] unfolding w'_def by blast
  have "f r = None" if "r \<in> set ?due" for r using f(2) that good by (auto simp: attempted_def)
  with f(3) have "f = (\<lambda>r. if r \<in> set ?due then None else Some r)" by fastforce
  moreover have "List.map_filter (\<lambda>r. if P r then None else Some r) xs = filter (\<lambda>r. \<not> P r) xs" for P and xs :: "pending_release list"
    by (induction xs) (simp_all add: List.map_filter_simps)
  ultimately have rows: "rd_pending (w_db w') = filter (\<lambda>r. r \<notin> set ?due) ?rows" using f(1) by simp
  show "distinct_rows (w_db w')" unfolding w'_def by (rule distinct_sweep [OF assms(1)])
  show "drained contract T (w_db w) \<Longrightarrow> drained contract T (w_db w')" by (auto simp: drained_def rows)
  show "drained contract T (w_db w') \<or>
     length (filter (live contract) (rd_pending (w_db w'))) + 10 \<le> length (filter (live contract) ?rows)"
  proof (cases "length ?due < 10")
    case True
    have "T < next_attempt r" if "r \<in> set ?rows" "live contract r" "r \<notin> set ?due" for r
      using that now unfolding due_short [OF True] by force
    then have "drained contract T (w_db w')" unfolding drained_def rows by simp
    then show ?thesis ..
  next
    case False
    then have ten: "length ?due = 10" by (simp add: due_def)
    let ?gone = "filter (\<lambda>r. live contract r \<and> r \<in> set ?due) ?rows"
    have "set ?due \<subseteq> set ?gone" using set_due by auto
    then have "card (set ?due) \<le> length ?gone" by (meson card_length card_mono finite_set le_trans)
    then have "10 \<le> length ?gone" using ten distinct_card [OF distinct_due [OF assms(1)]] by simp
    moreover have "length (filter (live contract) ?rows) = length ?gone + length (filter (\<lambda>r. live contract r \<and> r \<notin> set ?due) ?rows)"
      using sum_length_filter_compl [of "\<lambda>r. r \<in> set ?due" "filter (live contract) ?rows"] by simp
    ultimately show ?thesis by (simp add: rows conj_commute)
  qed
qed


section \<open>Witnesses\<close>

text \<open>A chain of two events, of which one is a repayment in full; a poll, then a sweep that publishes it.\<close>

definition ex_decode :: "nat \<Rightarrow> string option \<times> string option" where
  "ex_decode e = (if e = 1 then (Some ''repay_full'', Some ''aa'') else (Some ''borrow'', Some ''bb''))"

definition ex_id :: "nat \<Rightarrow> string" where
  "ex_id e = (if e = 1 then ''0000000000000000002-0000000001'' else ''0000000000000000001-0000000001'')"

definition ex_env :: sweep_env where
  "ex_env = \<lparr>sw_now = (\<lambda>k. 1000), sw_handle = (\<lambda>k x i. Inr ()), sw_isPublished = (\<lambda>k x. Inr True)\<rparr>"

definition ex_polled :: watcher where
  "ex_polled = \<lparr>w_db = fst (runPollCycle ex_decode (\<lambda>_. Inr \<lparr>page_events = [0, 1], page_cursor = ex_id 1\<rparr>) ''C'' (Some 0) 7
      \<lparr>rd_cursor = None, rd_pending = []\<rparr>), w_calls = 0, w_seen = []\<rparr>"

lemma ex_polled_eq:
  "ex_polled = \<lparr>w_db = \<lparr>rd_cursor = Some ''0000000000000000002-0000000001'', rd_pending =
     [\<lparr>pr_contract = ''C'', pr_txid = ''aa'', firstSeenAt = 7, attempts = 0, next_attempt = 7, lastError = None\<rparr>]\<rparr>,
     w_calls = 0, w_seen = []\<rparr>"
  by code_simp

lemma ex_publish: "withPromptRetry (sw_handle ex_env k x) = Inr ()"
  by (simp add: withPromptRetry_def ex_env_def PUBLISH_RETRIES_def withBackoff_def with_backoff.simps)

theorem sweep_isolates_rows_witness:
  "\<exists>f. rd_pending (w_db (runReleaseSweep ex_env ''C'' ex_polled)) = List.map_filter f (rd_pending (w_db ex_polled))
    \<and> (\<forall>r\<in>set (due ''C'' (sw_now ex_env (w_calls ex_polled)) 10 (w_db ex_polled)). attempted ex_env r (f r))
    \<and> (\<forall>r. r \<notin> set (due ''C'' (sw_now ex_env (w_calls ex_polled)) 10 (w_db ex_polled)) \<longrightarrow> f r = Some r)
    \<and> rd_cursor (w_db (runReleaseSweep ex_env ''C'' ex_polled)) = rd_cursor (w_db ex_polled)"
  by (rule sweep_isolates_rows) (simp add: ex_polled_eq distinct_rows_def)


theorem repayment_never_lost_witness:
  "owed ''C'' (w_db (runReleaseSweep ex_env ''C'' ex_polled)) ''aa''
    \<or> (\<exists>k<w_calls (runReleaseSweep ex_env ''C'' ex_polled). sw_isPublished ex_env k ''aa'' = Inr True)"
proof -
  let ?w0 = "\<lparr>w_db = \<lparr>rd_cursor = None, rd_pending = []\<rparr>, w_calls = 0, w_seen = []\<rparr>"
  have "watch_step ex_env ''C'' ex_decode ex_id [0, 1] 0 ?w0
      (?w0\<lparr>w_db := fst (runPollCycle ex_decode (\<lambda>_. Inr \<lparr>page_events = [0, 1], page_cursor = ex_id 1\<rparr>) ''C'' (Some 0) 7 (w_db ?w0))\<rparr>)"
  proof (rule watch_step.poll [where getEvents = "\<lambda>req. if req = FromLedger 0 then Inr \<lparr>page_events = [0, 1], page_cursor = ex_id 1\<rparr> else Inl []"
        and dl = "Some 0" and deploy = 0, THEN back_subst [of "watch_step ex_env ''C'' ex_decode ex_id [0, 1] 0 ?w0"]])
    show "serves ex_id [0, 1] req p" if "(if req = FromLedger 0 then Inr \<lparr>page_events = [0, 1], page_cursor = ex_id 1\<rparr> else Inl []) = (Inr p :: string + nat page)" for req p
      using that by (auto simp: serves_def ex_id_def less_eq_list_code split: if_splits)
  qed (simp_all add: runPollCycle_def poll_request_def)
  then have "watch_step ex_env ''C'' ex_decode ex_id [0, 1] 0 ?w0 ex_polled" by (simp add: ex_polled_def)
  moreover have "watch_step ex_env ''C'' ex_decode ex_id [0, 1] 0 ex_polled (runReleaseSweep ex_env ''C'' ex_polled)" by (rule watch_step.sweep)
  ultimately have run: "(watch_step ex_env ''C'' ex_decode ex_id [0, 1] 0)\<^sup>*\<^sup>* ?w0 (runReleaseSweep ex_env ''C'' ex_polled)" by simp
  have "rd_cursor (w_db (runReleaseSweep ex_env ''C'' ex_polled)) = Some (ex_id 1)"
    using sweep_effect [of ex_polled ex_env "''C''"] by (auto simp: ex_polled_eq distinct_rows_def ex_id_def)
  from repayment_never_lost [OF run _ _ _ _ this, of 1] show ?thesis by (simp add: ex_decode_def)
qed

end
