(* ===== verification/BtcTx.thy ===== *)
theory BtcTx
  imports JsBuffer
begin

text \<open>
  \<^verbatim>\<open>relayer/src/bitcoin/tx.ts\<close>: the variable-length integer reader, witness stripping and output
  parsing, with every throw as an error value; and \<^verbatim>\<open>findOutputIndex\<close> of the repay watcher, which
  scans a transaction with \<^verbatim>\<open>parseOutput\<close>. The Bitcoin wire format of BIP-141, which the file's
  comments cite, is stated as an encoder, and the parsers are shown to invert it.
\<close>

section \<open>The code\<close>

text \<open>One constructor per kind of throw; \<open>SliceRange\<close> carries the read's context.\<close>

datatype tx_error =
    SliceRange string
  | ReadRange
  | VarIntTooBig
  | ValueUnsafe
  | OutputIndexRange
  | NoMatchingOutput
  | Unreachable

definition sliceExact :: "buffer \<Rightarrow> nat \<Rightarrow> nat \<Rightarrow> string \<Rightarrow> tx_error + buffer" where
  "sliceExact buf start len context =
     (let e = start + len in
      if e > length buf then Inl (SliceRange context) else Inr (subarray buf start (e - start)))"

definition MAX_SAFE_INTEGER :: nat where
  "MAX_SAFE_INTEGER = 2 ^ 53 - 1"

definition bigUInt64ToSafeNumber :: "nat \<Rightarrow> tx_error + nat" where
  "bigUInt64ToSafeNumber value = (if value > MAX_SAFE_INTEGER then Inl ValueUnsafe else Inr value)"

definition readVarInt :: "buffer \<Rightarrow> nat \<Rightarrow> tx_error + nat \<times> nat" where
  "readVarInt buf off =
     (case at_opt buf off of
        None \<Rightarrow> Inl ReadRange
      | Some b \<Rightarrow>
         (let first = unat b in
          if first < 0xfd then Inr (first, 1)
          else if first = 0xfd then
            (case readLE 2 buf (off + 1) of None \<Rightarrow> Inl ReadRange | Some v \<Rightarrow> Inr (v, 3))
          else if first = 0xfe then
            (case readLE 4 buf (off + 1) of None \<Rightarrow> Inl ReadRange | Some v \<Rightarrow> Inr (v, 5))
          else
            (case readLE 4 buf (off + 1) of
               None \<Rightarrow> Inl ReadRange
             | Some lo \<Rightarrow>
                (case readLE 4 buf (off + 5) of
                   None \<Rightarrow> Inl ReadRange
                 | Some hi \<Rightarrow> if hi > 0 then Inl VarIntTooBig else Inr (lo, 9)))))"

definition isSegwit_bytes :: "buffer \<Rightarrow> bool" where
  "isSegwit_bytes buf \<longleftrightarrow> length buf > 6 \<and> buf ! 4 = 0 \<and> buf ! 5 = 1"

definition isSegwit :: "string \<Rightarrow> bool" where
  "isSegwit rawHex = isSegwit_bytes (bytes_of_hex rawHex)"

text \<open>
  The four loops of \<^verbatim>\<open>stripWitness\<close>. Each takes the number of iterations left, the read offset
  \<open>i\<close> and, where the loop copies, the bytes pushed so far.
\<close>

fun strip_inputs :: "buffer \<Rightarrow> nat \<Rightarrow> nat \<Rightarrow> buffer \<Rightarrow> tx_error + nat \<times> buffer" where
  "strip_inputs buf 0 i out = Inr (i, out)"
| "strip_inputs buf (Suc n) i out =
     res_bind (sliceExact buf i 36 ''prevout'') (\<lambda>prevout.
     res_bind (readVarInt buf (i + 36)) (\<lambda>(scriptLen, scriptLenSize).
     res_bind (sliceExact buf (i + 36) (scriptLenSize + scriptLen) ''scriptSig'') (\<lambda>script.
     res_bind (sliceExact buf (i + 36 + scriptLenSize + scriptLen) 4 ''sequence'') (\<lambda>sq.
     strip_inputs buf n (i + 36 + scriptLenSize + scriptLen + 4) (out @ prevout @ script @ sq)))))"

fun strip_outputs :: "buffer \<Rightarrow> nat \<Rightarrow> nat \<Rightarrow> buffer \<Rightarrow> tx_error + nat \<times> buffer" where
  "strip_outputs buf 0 i out = Inr (i, out)"
| "strip_outputs buf (Suc n) i out =
     res_bind (sliceExact buf i 8 ''value'') (\<lambda>value.
     res_bind (readVarInt buf (i + 8)) (\<lambda>(scriptLen, scriptLenSize).
     res_bind (sliceExact buf (i + 8) (scriptLenSize + scriptLen) ''scriptPubKey'') (\<lambda>script.
     strip_outputs buf n (i + 8 + scriptLenSize + scriptLen) (out @ value @ script))))"

fun skip_items :: "buffer \<Rightarrow> nat \<Rightarrow> nat \<Rightarrow> tx_error + nat" where
  "skip_items buf 0 i = Inr i"
| "skip_items buf (Suc n) i =
     res_bind (readVarInt buf i) (\<lambda>(itemLen, itemLenSize).
     skip_items buf n (i + (itemLenSize + itemLen)))"

fun skip_stacks :: "buffer \<Rightarrow> nat \<Rightarrow> nat \<Rightarrow> tx_error + nat" where
  "skip_stacks buf 0 i = Inr i"
| "skip_stacks buf (Suc n) i =
     res_bind (readVarInt buf i) (\<lambda>(stackItems, stackItemsSize).
     res_bind (skip_items buf stackItems (i + stackItemsSize)) (\<lambda>j.
     skip_stacks buf n j))"

text \<open>Everything of \<^verbatim>\<open>stripWitness\<close> up to the lock time: the offset reached and the bytes kept.\<close>

definition strip_body :: "buffer \<Rightarrow> tx_error + nat \<times> buffer" where
  "strip_body buf =
     res_bind (sliceExact buf 0 4 ''version'') (\<lambda>version.
     res_bind (readVarInt buf 6) (\<lambda>(inputCount, inputCountLen).
     res_bind (sliceExact buf 6 inputCountLen ''input count'') (\<lambda>inputCountBytes.
     res_bind (strip_inputs buf inputCount (6 + inputCountLen) (version @ inputCountBytes)) (\<lambda>(i, out).
     res_bind (readVarInt buf i) (\<lambda>(outputCount, outputCountLen).
     res_bind (sliceExact buf i outputCountLen ''output count'') (\<lambda>outputCountBytes.
     res_bind (strip_outputs buf outputCount (i + outputCountLen) (out @ outputCountBytes)) (\<lambda>(j, out').
     res_bind (skip_stacks buf inputCount j) (\<lambda>k. Inr (k, out')))))))))"

definition strip_bytes :: "buffer \<Rightarrow> tx_error + buffer" where
  "strip_bytes buf =
     res_bind (strip_body buf) (\<lambda>(i, out).
     res_bind (sliceExact buf i 4 ''locktime'') (\<lambda>lock. Inr (out @ lock)))"

definition stripWitness :: "string \<Rightarrow> tx_error + string" where
  "stripWitness rawHex =
     (if \<not> isSegwit rawHex then Inr rawHex
      else res_bind (strip_bytes (bytes_of_hex rawHex)) (\<lambda>out. Inr (hex_of_bytes out)))"

fun skip_inputs :: "buffer \<Rightarrow> nat \<Rightarrow> nat \<Rightarrow> tx_error + nat" where
  "skip_inputs buf 0 i = Inr i"
| "skip_inputs buf (Suc n) i =
     res_bind (readVarInt buf (i + 36)) (\<lambda>(scriptLen, scriptLenSize).
     skip_inputs buf n (i + 36 + (scriptLenSize + scriptLen + 4)))"

text \<open>
  The output loop of \<^verbatim>\<open>parseOutput\<close>: \<open>n\<close> outputs are still to be passed over before the one asked
  for. The value of every output on the way is read and range-checked too.
\<close>

fun parse_outputs :: "buffer \<Rightarrow> nat \<Rightarrow> nat \<Rightarrow> tx_error + nat \<times> buffer" where
  "parse_outputs buf n i =
     (case readLE 8 buf i of
        None \<Rightarrow> Inl ReadRange
      | Some v \<Rightarrow>
         res_bind (bigUInt64ToSafeNumber v) (\<lambda>valueSat.
         res_bind (readVarInt buf (i + 8)) (\<lambda>(scriptLen, scriptLenSize).
         res_bind (sliceExact buf (i + 8 + scriptLenSize) scriptLen ''scriptPubKey'') (\<lambda>script.
           (case n of
              0 \<Rightarrow> Inr (valueSat, script)
            | Suc m \<Rightarrow> parse_outputs buf m (i + 8 + (scriptLenSize + scriptLen)))))))"

declare parse_outputs.simps [simp del]

definition has_marker :: "buffer \<Rightarrow> bool" where
  "has_marker buf \<longleftrightarrow> at_opt buf 4 = Some 0 \<and> at_opt buf 5 = Some 1"

definition parseOutput_bytes :: "buffer \<Rightarrow> nat \<Rightarrow> tx_error + nat \<times> buffer" where
  "parseOutput_bytes buf outputIndex =
     (let i = (if has_marker buf then 6 else 4) in
      res_bind (readVarInt buf i) (\<lambda>(inputCount, inputCountLen).
      res_bind (skip_inputs buf inputCount (i + inputCountLen)) (\<lambda>j.
      res_bind (readVarInt buf j) (\<lambda>(outputCount, outputCountLen).
        if outputIndex \<ge> outputCount then Inl OutputIndexRange
        else parse_outputs buf outputIndex (j + outputCountLen)))))"

definition parseOutput :: "string \<Rightarrow> nat \<Rightarrow> tx_error + nat \<times> string" where
  "parseOutput rawHex outputIndex =
     res_bind (parseOutput_bytes (bytes_of_hex rawHex) outputIndex) (\<lambda>(v, s). Inr (v, hex_of_bytes s))"

text \<open>
  \<^verbatim>\<open>findOutputIndex\<close> of \<^verbatim>\<open>repay-watcher/handler.ts\<close>: the loop over at most 64 indices, leaving on the
  first index \<^verbatim>\<open>parseOutput\<close> rejects. \<open>n\<close> counts the iterations left.
\<close>

fun find_output :: "string \<Rightarrow> string \<Rightarrow> nat \<Rightarrow> nat \<Rightarrow> tx_error + nat" where
  "find_output rawTxHex spk 0 i = Inl NoMatchingOutput"
| "find_output rawTxHex spk (Suc n) i =
     (case parseOutput rawTxHex i of
        Inl e \<Rightarrow> Inl NoMatchingOutput
      | Inr (v, s) \<Rightarrow>
          if toLowerCase s = toLowerCase spk then Inr i else find_output rawTxHex spk n (Suc i))"

definition findOutputIndex :: "string \<Rightarrow> string \<Rightarrow> tx_error + nat" where
  "findOutputIndex rawTxHex scriptPubKeyHex = find_output rawTxHex scriptPubKeyHex 64 0"

section \<open>The wire format\<close>

record tx_in =
  prevout :: buffer
  scriptSig :: buffer
  sequence :: buffer

record tx_out =
  value_sat :: nat
  scriptPubKey :: buffer

record btc_tx =
  tx_version :: buffer
  tx_ins :: "tx_in list"
  tx_outs :: "tx_out list"
  tx_witness :: "buffer list list"
  tx_locktime :: buffer

definition enc_varint :: "nat \<Rightarrow> buffer" where
  "enc_varint n =
     (if n < 0xfd then le_bytes 1 n
      else if n < 2 ^ 16 then 0xfd # le_bytes 2 n
      else if n < 2 ^ 32 then 0xfe # le_bytes 4 n
      else 0xff # le_bytes 8 n)"

definition enc_bytes :: "buffer \<Rightarrow> buffer" where
  "enc_bytes b = enc_varint (length b) @ b"

definition enc_in :: "tx_in \<Rightarrow> buffer" where
  "enc_in x = prevout x @ enc_bytes (scriptSig x) @ sequence x"

definition enc_out :: "tx_out \<Rightarrow> buffer" where
  "enc_out x = le_bytes 8 (value_sat x) @ enc_bytes (scriptPubKey x)"

definition enc_stack :: "buffer list \<Rightarrow> buffer" where
  "enc_stack items = enc_varint (length items) @ concat (map enc_bytes items)"

definition enc_core :: "btc_tx \<Rightarrow> buffer" where
  "enc_core t = enc_varint (length (tx_ins t)) @ concat (map enc_in (tx_ins t)) @
     enc_varint (length (tx_outs t)) @ concat (map enc_out (tx_outs t))"

definition enc_legacy :: "btc_tx \<Rightarrow> buffer" where
  "enc_legacy t = tx_version t @ enc_core t @ tx_locktime t"

definition enc_segwit :: "btc_tx \<Rightarrow> buffer" where
  "enc_segwit t = tx_version t @ [0, 1] @ enc_core t @ concat (map enc_stack (tx_witness t)) @ tx_locktime t"

definition wf_bytes :: "buffer \<Rightarrow> bool" where
  "wf_bytes b \<longleftrightarrow> length b < 2 ^ 32"

definition wf_in :: "tx_in \<Rightarrow> bool" where
  "wf_in x \<longleftrightarrow> length (prevout x) = 36 \<and> wf_bytes (scriptSig x) \<and> length (sequence x) = 4"

definition wf_out :: "tx_out \<Rightarrow> bool" where
  "wf_out x \<longleftrightarrow> value_sat x \<le> MAX_SAFE_INTEGER \<and> wf_bytes (scriptPubKey x)"

definition wf_stack :: "buffer list \<Rightarrow> bool" where
  "wf_stack items \<longleftrightarrow> length items < 2 ^ 32 \<and> list_all wf_bytes items"

definition wf_tx :: "btc_tx \<Rightarrow> bool" where
  "wf_tx t \<longleftrightarrow> length (tx_version t) = 4 \<and> length (tx_locktime t) = 4 \<and>
     0 < length (tx_ins t) \<and> length (tx_ins t) < 2 ^ 32 \<and> list_all wf_in (tx_ins t) \<and>
     length (tx_outs t) < 2 ^ 32 \<and> list_all wf_out (tx_outs t) \<and>
     length (tx_witness t) = length (tx_ins t) \<and> list_all wf_stack (tx_witness t)"

section \<open>Reading encoded fields\<close>

lemma sliceExact_at:
  "buf = pre @ x @ post \<Longrightarrow> i = length pre \<Longrightarrow> n = length x \<Longrightarrow> sliceExact buf i n c = Inr x"
  by (simp add: sliceExact_def Let_def)

lemma sliceExact_InrD: "sliceExact buf i n c = Inr x \<Longrightarrow> i + n \<le> length buf \<and> x = subarray buf i n"
  by (auto simp: sliceExact_def Let_def split: if_splits)

lemma readLE_at:
  "buf = pre @ x @ post \<Longrightarrow> i = length pre \<Longrightarrow> n = length x \<Longrightarrow> readLE n buf i = Some (le_val x)"
  by (simp add: readLE_def)

lemma readLE_tail:
  "buf = pre @ b # x @ post \<Longrightarrow> i = length pre \<Longrightarrow> n = length x \<Longrightarrow> readLE n buf (i + 1) = Some (le_val x)"
  by (rule readLE_at [of _ "pre @ [b]" _ post]) auto

lemma at_opt_at: "buf = pre @ b # post \<Longrightarrow> i = length pre \<Longrightarrow> at_opt buf i = Some b"
  by simp

lemma enc_varint_pos: "0 < length (enc_varint n)"
  by (simp add: enc_varint_def)

lemma readVarInt_at:
  assumes buf: "buf = pre @ enc_varint n @ post" and i: "i = length pre" and n: "n < 2 ^ 32"
  shows "readVarInt buf i = Inr (n, length (enc_varint n))"
proof -
  consider "n < 0xfd" | "0xfd \<le> n" "n < 2 ^ 16" | "2 ^ 16 \<le> n" by linarith
  then show ?thesis
  proof cases
    case 1
    then have "at_opt buf i = Some (word_of_nat n)"
      using buf i by (intro at_opt_at [of _ pre _ post]) (auto simp: enc_varint_def)
    with 1 show ?thesis by (simp add: readVarInt_def enc_varint_def Let_def)
  next
    case 2
    then have b: "buf = pre @ 0xfd # le_bytes 2 n @ post" using buf by (simp add: enc_varint_def)
    then have "at_opt buf i = Some 0xfd" using i by (intro at_opt_at)
    moreover have "readLE 2 buf (i + 1) = Some n"
      using readLE_tail [OF b i] 2 by simp
    ultimately show ?thesis using 2 by (simp add: readVarInt_def enc_varint_def)
  next
    case 3
    then have b: "buf = pre @ 0xfe # le_bytes 4 n @ post" using buf n by (simp add: enc_varint_def)
    then have "at_opt buf i = Some 0xfe" using i by (intro at_opt_at)
    moreover have "readLE 4 buf (i + 1) = Some n"
      using readLE_tail [OF b i] n by simp
    ultimately show ?thesis using 3 n by (simp add: readVarInt_def enc_varint_def)
  qed
qed

lemma strip_inputs_enc:
  "list_all wf_in xs \<Longrightarrow> buf = pre @ concat (map enc_in xs) @ post \<Longrightarrow> i = length pre \<Longrightarrow>
   strip_inputs buf (length xs) i out =
     Inr (i + length (concat (map enc_in xs)), out @ concat (map enc_in xs))"
proof (induction xs arbitrary: pre i out)
  case (Cons x xs)
  let ?vi = "enc_varint (length (scriptSig x))"
  let ?rest = "concat (map enc_in xs) @ post"
  have wf: "length (prevout x) = 36" "length (scriptSig x) < 2 ^ 32" "length (sequence x) = 4"
    using Cons.prems(1) by (auto simp: wf_in_def wf_bytes_def)
  have b: "buf = pre @ prevout x @ ?vi @ scriptSig x @ sequence x @ ?rest"
    using Cons.prems(2) by (simp add: enc_in_def [of x] enc_bytes_def)
  have s1: "sliceExact buf i 36 c = Inr (prevout x)" for c
    using b Cons.prems(3) wf by (intro sliceExact_at) auto
  have v: "readVarInt buf (i + 36) = Inr (length (scriptSig x), length ?vi)"
    using Cons.prems(3) wf
    by (intro readVarInt_at [of _ "pre @ prevout x" _ "scriptSig x @ sequence x @ ?rest"]) (auto simp: b)
  have s2: "sliceExact buf (i + 36) (length ?vi + length (scriptSig x)) c = Inr (?vi @ scriptSig x)" for c
    using Cons.prems(3) wf
    by (intro sliceExact_at [of _ "pre @ prevout x" _ "sequence x @ ?rest"]) (auto simp: b)
  have s3: "sliceExact buf (i + 36 + length ?vi + length (scriptSig x)) 4 c = Inr (sequence x)" for c
    using Cons.prems(3) wf
    by (intro sliceExact_at [of _ "pre @ prevout x @ ?vi @ scriptSig x" _ ?rest]) (auto simp: b)
  have ih: "strip_inputs buf (length xs) (i + length (enc_in x)) out' =
      Inr (i + length (enc_in x) + length (concat (map enc_in xs)), out' @ concat (map enc_in xs))" for out'
    by (rule Cons.IH [of "pre @ enc_in x"])
      (use Cons.prems in \<open>auto simp: b enc_in_def [of x] enc_bytes_def\<close>)
  have l: "i + 36 + length ?vi + length (scriptSig x) + 4 = i + length (enc_in x)"
    using wf by (simp add: enc_in_def [of x] enc_bytes_def)
  have "strip_inputs buf (Suc (length xs)) i out =
      Inr (i + length (enc_in x) + length (concat (map enc_in xs)),
        (out @ prevout x @ (?vi @ scriptSig x) @ sequence x) @ concat (map enc_in xs))"
    by (simp only: strip_inputs.simps s1 v s2 s3 res_bind.simps prod.case l ih)
  then show ?case by (simp add: enc_in_def [of x] enc_bytes_def)
qed simp

lemma strip_outputs_enc:
  "list_all wf_out xs \<Longrightarrow> buf = pre @ concat (map enc_out xs) @ post \<Longrightarrow> i = length pre \<Longrightarrow>
   strip_outputs buf (length xs) i out =
     Inr (i + length (concat (map enc_out xs)), out @ concat (map enc_out xs))"
proof (induction xs arbitrary: pre i out)
  case (Cons x xs)
  let ?vi = "enc_varint (length (scriptPubKey x))"
  let ?val = "le_bytes 8 (value_sat x)"
  let ?rest = "concat (map enc_out xs) @ post"
  have wf: "length (scriptPubKey x) < 2 ^ 32"
    using Cons.prems(1) by (auto simp: wf_out_def wf_bytes_def)
  have b: "buf = pre @ ?val @ ?vi @ scriptPubKey x @ ?rest"
    using Cons.prems(2) by (simp add: enc_out_def [of x] enc_bytes_def)
  have s1: "sliceExact buf i 8 c = Inr ?val" for c
    using b Cons.prems(3) by (intro sliceExact_at) auto
  have v: "readVarInt buf (i + 8) = Inr (length (scriptPubKey x), length ?vi)"
    using Cons.prems(3) wf
    by (intro readVarInt_at [of _ "pre @ ?val" _ "scriptPubKey x @ ?rest"]) (auto simp: b)
  have s2: "sliceExact buf (i + 8) (length ?vi + length (scriptPubKey x)) c = Inr (?vi @ scriptPubKey x)" for c
    using Cons.prems(3)
    by (intro sliceExact_at [of _ "pre @ ?val" _ ?rest]) (auto simp: b)
  have ih: "strip_outputs buf (length xs) (i + length (enc_out x)) out' =
      Inr (i + length (enc_out x) + length (concat (map enc_out xs)), out' @ concat (map enc_out xs))" for out'
    by (rule Cons.IH [of "pre @ enc_out x"])
      (use Cons.prems in \<open>auto simp: b enc_out_def [of x] enc_bytes_def\<close>)
  have l: "i + 8 + length ?vi + length (scriptPubKey x) = i + length (enc_out x)"
    by (simp add: enc_out_def [of x] enc_bytes_def)
  have "strip_outputs buf (Suc (length xs)) i out =
      Inr (i + length (enc_out x) + length (concat (map enc_out xs)),
        (out @ ?val @ (?vi @ scriptPubKey x)) @ concat (map enc_out xs))"
    by (simp only: strip_outputs.simps s1 v s2 res_bind.simps prod.case l ih)
  then show ?case by (simp add: enc_out_def [of x] enc_bytes_def)
qed simp

lemma skip_items_enc:
  "list_all wf_bytes xs \<Longrightarrow> buf = pre @ concat (map enc_bytes xs) @ post \<Longrightarrow> i = length pre \<Longrightarrow>
   skip_items buf (length xs) i = Inr (i + length (concat (map enc_bytes xs)))"
proof (induction xs arbitrary: pre i)
  case (Cons x xs)
  have v: "readVarInt buf i = Inr (length x, length (enc_varint (length x)))"
    by (rule readVarInt_at [of _ pre _ "x @ concat (map enc_bytes xs) @ post"])
      (use Cons.prems in \<open>auto simp: enc_bytes_def [of x] wf_bytes_def\<close>)
  have "skip_items buf (length xs) (i + length (enc_bytes x)) =
      Inr (i + length (enc_bytes x) + length (concat (map enc_bytes xs)))"
    by (rule Cons.IH [of "pre @ enc_bytes x"]) (use Cons.prems in auto)
  then show ?case by (simp add: v enc_bytes_def [of x] add.assoc)
qed simp

lemma skip_stacks_enc:
  "list_all wf_stack xs \<Longrightarrow> buf = pre @ concat (map enc_stack xs) @ post \<Longrightarrow> i = length pre \<Longrightarrow>
   skip_stacks buf (length xs) i = Inr (i + length (concat (map enc_stack xs)))"
proof (induction xs arbitrary: pre i)
  case (Cons x xs)
  let ?vi = "enc_varint (length x)"
  have wf: "length x < 2 ^ 32" "list_all wf_bytes x" using Cons.prems(1) by (auto simp: wf_stack_def)
  have v: "readVarInt buf i = Inr (length x, length ?vi)"
    by (rule readVarInt_at [of _ pre _ "concat (map enc_bytes x) @ concat (map enc_stack xs) @ post"])
      (use Cons.prems wf in \<open>auto simp: enc_stack_def [of x]\<close>)
  have s: "skip_items buf (length x) (i + length ?vi) = Inr (i + length (enc_stack x))"
    using skip_items_enc [OF wf(2), of buf "pre @ ?vi" "concat (map enc_stack xs) @ post" "i + length ?vi"]
      Cons.prems by (simp add: enc_stack_def [of x])
  have "skip_stacks buf (length xs) (i + length (enc_stack x)) =
      Inr (i + length (enc_stack x) + length (concat (map enc_stack xs)))"
    by (rule Cons.IH [of "pre @ enc_stack x"]) (use Cons.prems in auto)
  then show ?case by (simp add: v s)
qed simp

lemma skip_inputs_enc:
  "list_all wf_in xs \<Longrightarrow> buf = pre @ concat (map enc_in xs) @ post \<Longrightarrow> i = length pre \<Longrightarrow>
   skip_inputs buf (length xs) i = Inr (i + length (concat (map enc_in xs)))"
proof (induction xs arbitrary: pre i)
  case (Cons x xs)
  let ?vi = "enc_varint (length (scriptSig x))"
  have wf: "length (prevout x) = 36" "length (scriptSig x) < 2 ^ 32" "length (sequence x) = 4"
    using Cons.prems(1) by (auto simp: wf_in_def wf_bytes_def)
  have v: "readVarInt buf (i + 36) = Inr (length (scriptSig x), length ?vi)"
    by (rule readVarInt_at [of _ "pre @ prevout x" _ "scriptSig x @ sequence x @ concat (map enc_in xs) @ post"])
      (use Cons.prems wf in \<open>auto simp: enc_in_def [of x] enc_bytes_def\<close>)
  have "skip_inputs buf (length xs) (i + length (enc_in x)) =
      Inr (i + length (enc_in x) + length (concat (map enc_in xs)))"
    by (rule Cons.IH [of "pre @ enc_in x"]) (use Cons.prems in auto)
  then show ?case using wf by (simp add: v enc_in_def [of x] enc_bytes_def add.assoc add.left_commute)
qed simp

section \<open>Whole transactions\<close>

lemmas wf_tx_parts = wf_tx_def wf_bytes_def

lemma strip_body_enc:
  assumes wf: "wf_tx t"
  shows "strip_body (enc_segwit t) =
    Inr (length (enc_segwit t) - 4, tx_version t @ enc_core t)"
proof -
  let ?buf = "enc_segwit t"
  let ?ni = "enc_varint (length (tx_ins t))" and ?no = "enc_varint (length (tx_outs t))"
  let ?is = "concat (map enc_in (tx_ins t))" and ?os = "concat (map enc_out (tx_outs t))"
  let ?ws = "concat (map enc_stack (tx_witness t))"
  let ?p1 = "tx_version t @ [0, 1]"
  note w = wf [unfolded wf_tx_def]
  have b: "?buf = tx_version t @ [0, 1] @ ?ni @ ?is @ ?no @ ?os @ ?ws @ tx_locktime t"
    by (simp add: enc_segwit_def enc_core_def)
  have v: "sliceExact ?buf 0 4 c = Inr (tx_version t)" for c
    using w by (intro sliceExact_at [of _ "[]"]) (auto simp: b)
  have n1: "readVarInt ?buf 6 = Inr (length (tx_ins t), length ?ni)"
    using w by (intro readVarInt_at [of _ ?p1 _ "?is @ ?no @ ?os @ ?ws @ tx_locktime t"]) (auto simp: b)
  have s1: "sliceExact ?buf 6 (length ?ni) c = Inr ?ni" for c
    using w by (intro sliceExact_at [of _ ?p1 _ "?is @ ?no @ ?os @ ?ws @ tx_locktime t"]) (auto simp: b)
  have i: "strip_inputs ?buf (length (tx_ins t)) (6 + length ?ni) out =
      Inr (6 + length ?ni + length ?is, out @ ?is)" for out
    using w by (intro strip_inputs_enc [of _ _ "?p1 @ ?ni" "?no @ ?os @ ?ws @ tx_locktime t"]) (auto simp: b)
  have n2: "readVarInt ?buf (6 + length ?ni + length ?is) = Inr (length (tx_outs t), length ?no)"
    using w by (intro readVarInt_at [of _ "?p1 @ ?ni @ ?is" _ "?os @ ?ws @ tx_locktime t"]) (auto simp: b)
  have s2: "sliceExact ?buf (6 + length ?ni + length ?is) (length ?no) c = Inr ?no" for c
    using w by (intro sliceExact_at [of _ "?p1 @ ?ni @ ?is" _ "?os @ ?ws @ tx_locktime t"]) (auto simp: b)
  have o: "strip_outputs ?buf (length (tx_outs t)) (6 + length ?ni + length ?is + length ?no) out =
      Inr (6 + length ?ni + length ?is + length ?no + length ?os, out @ ?os)" for out
    using w by (intro strip_outputs_enc [of _ _ "?p1 @ ?ni @ ?is @ ?no" "?ws @ tx_locktime t"]) (auto simp: b)
  have k: "skip_stacks ?buf (length (tx_ins t)) (6 + length ?ni + length ?is + length ?no + length ?os) =
      Inr (6 + length ?ni + length ?is + length ?no + length ?os + length ?ws)"
  proof -
    have l: "length (tx_ins t) = length (tx_witness t)" using w by simp
    show ?thesis unfolding l
      using w by (intro skip_stacks_enc [of _ _ "?p1 @ ?ni @ ?is @ ?no @ ?os" "tx_locktime t"]) (auto simp: b l)
  qed
  have len: "length ?buf - 4 = 6 + length ?ni + length ?is + length ?no + length ?os + length ?ws"
    using w by (simp add: b)
  show ?thesis
    unfolding strip_body_def v n1 s1 res_bind.simps prod.case i n2 s2 o k len
    by (simp add: enc_core_def)
qed

lemma length_enc_segwit: "wf_tx t \<Longrightarrow> length (enc_segwit t) \<ge> 10"
  by (auto simp: wf_tx_def enc_segwit_def)

lemma strip_bytes_enc: "wf_tx t \<Longrightarrow> strip_bytes (enc_segwit t) = Inr (enc_legacy t)"
proof -
  assume wf: "wf_tx t"
  then have "length (tx_locktime t) = 4" by (simp add: wf_tx_def)
  then have "sliceExact (enc_segwit t) (length (enc_segwit t) - 4) 4 c = Inr (tx_locktime t)" for c
    by (intro sliceExact_at [of _ "tx_version t @ [0, 1] @ enc_core t @ concat (map enc_stack (tx_witness t))" _ "[]"])
      (auto simp: enc_segwit_def)
  with strip_body_enc [OF wf] show ?thesis by (simp add: strip_bytes_def enc_legacy_def)
qed

lemma enc_segwit_marker: "wf_tx t \<Longrightarrow> enc_segwit t ! 4 = 0 \<and> enc_segwit t ! 5 = 1"
  by (auto simp: wf_tx_def enc_segwit_def nth_append)

lemma enc_varint_hd: "0 < n \<Longrightarrow> n < 2 ^ 32 \<Longrightarrow> enc_varint n ! 0 \<noteq> 0"
proof -
  assume n: "0 < n" "n < 2 ^ 32"
  have "(word_of_nat n :: byte) \<noteq> 0" if "n < 0xfd"
  proof
    assume "(word_of_nat n :: byte) = 0"
    then have "unat (word_of_nat n :: byte) = 0" by simp
    with that n show False by simp
  qed
  then show ?thesis using n by (auto simp: enc_varint_def)
qed

lemma enc_legacy_no_marker: "wf_tx t \<Longrightarrow> enc_legacy t ! 4 \<noteq> 0"
proof -
  assume wf: "wf_tx t"
  then have "enc_legacy t ! 4 = enc_varint (length (tx_ins t)) ! 0"
    using enc_varint_pos [of "length (tx_ins t)"]
    by (simp add: wf_tx_def enc_legacy_def enc_core_def nth_append)
  with wf enc_varint_hd [of "length (tx_ins t)"] show ?thesis by (simp add: wf_tx_def)
qed

lemma enc_segwit_is: "wf_tx t \<Longrightarrow> isSegwit_bytes (enc_segwit t)"
  using length_enc_segwit [of t] enc_segwit_marker [of t] by (simp add: isSegwit_bytes_def)

lemma enc_legacy_is_not: "wf_tx t \<Longrightarrow> \<not> isSegwit_bytes (enc_legacy t)"
  using enc_legacy_no_marker by (simp add: isSegwit_bytes_def)

lemma has_marker_segwit: "wf_tx t \<Longrightarrow> has_marker (enc_segwit t)"
  using enc_segwit_marker [of t] length_enc_segwit [of t] by (simp add: has_marker_def at_opt_def)

lemma has_marker_legacy: "wf_tx t \<Longrightarrow> \<not> has_marker (enc_legacy t)"
  using enc_legacy_no_marker [of t] by (auto simp: has_marker_def at_opt_def)

subsection \<open>Outputs\<close>

lemma parse_outputs_enc:
  "list_all wf_out xs \<Longrightarrow> buf = pre @ concat (map enc_out xs) @ post \<Longrightarrow> i = length pre \<Longrightarrow> k < length xs \<Longrightarrow>
   parse_outputs buf k i = Inr (value_sat (xs ! k), scriptPubKey (xs ! k))"
proof (induction xs arbitrary: pre i k)
  case (Cons x xs)
  let ?vi = "enc_varint (length (scriptPubKey x))"
  let ?val = "le_bytes 8 (value_sat x)"
  let ?rest = "concat (map enc_out xs) @ post"
  have wf: "length (scriptPubKey x) < 2 ^ 32" "value_sat x \<le> MAX_SAFE_INTEGER"
    using Cons.prems(1) by (auto simp: wf_out_def wf_bytes_def)
  have b: "buf = pre @ ?val @ ?vi @ scriptPubKey x @ ?rest"
    using Cons.prems(2) by (simp add: enc_out_def [of x] enc_bytes_def)
  have "value_sat x < 256 ^ 8" using wf(2) by (simp add: MAX_SAFE_INTEGER_def)
  then have r: "readLE 8 buf i = Some (value_sat x)"
    using readLE_at [OF b Cons.prems(3), of 8] by simp
  have s: "bigUInt64ToSafeNumber (value_sat x) = Inr (value_sat x)"
    using wf by (simp add: bigUInt64ToSafeNumber_def)
  have v: "readVarInt buf (i + 8) = Inr (length (scriptPubKey x), length ?vi)"
    using Cons.prems(3) wf
    by (intro readVarInt_at [of _ "pre @ ?val" _ "scriptPubKey x @ ?rest"]) (auto simp: b)
  have p: "sliceExact buf (i + 8 + length ?vi) (length (scriptPubKey x)) c = Inr (scriptPubKey x)" for c
    using Cons.prems(3)
    by (intro sliceExact_at [of _ "pre @ ?val @ ?vi" _ ?rest]) (auto simp: b)
  show ?case
  proof (cases k)
    case 0
    then show ?thesis by (subst parse_outputs.simps) (simp add: r s v p)
  next
    case (Suc m)
    have "parse_outputs buf m (i + 8 + (length ?vi + length (scriptPubKey x))) =
        Inr (value_sat (xs ! m), scriptPubKey (xs ! m))"
      by (rule Cons.IH [of "pre @ enc_out x"])
        (use Cons.prems Suc in \<open>auto simp: b enc_out_def [of x] enc_bytes_def\<close>)
    then show ?thesis using Suc by (subst parse_outputs.simps) (simp add: r s v p)
  qed
qed simp

text \<open>\<^verbatim>\<open>parseOutput\<close> finds its way over any prefix that ends where the input count starts.\<close>

lemma parseOutput_core:
  assumes wf: "wf_tx t" and b: "buf = pre @ enc_core t @ post"
    and i: "length pre = (if has_marker buf then 6 else 4)"
  shows "parseOutput_bytes buf k =
    (if k < length (tx_outs t)
     then Inr (value_sat (tx_outs t ! k), scriptPubKey (tx_outs t ! k)) else Inl OutputIndexRange)"
proof -
  let ?ni = "enc_varint (length (tx_ins t))" and ?no = "enc_varint (length (tx_outs t))"
  let ?is = "concat (map enc_in (tx_ins t))" and ?os = "concat (map enc_out (tx_outs t))"
  note w = wf [unfolded wf_tx_def]
  have bb: "buf = pre @ ?ni @ ?is @ ?no @ ?os @ post" using b by (simp add: enc_core_def)
  have n1: "readVarInt buf (length pre) = Inr (length (tx_ins t), length ?ni)"
    using w by (intro readVarInt_at [OF bb]) auto
  have s1: "skip_inputs buf (length (tx_ins t)) (length pre + length ?ni) =
      Inr (length pre + length ?ni + length ?is)"
    using w by (intro skip_inputs_enc [of _ _ "pre @ ?ni" "?no @ ?os @ post"]) (auto simp: bb)
  have n2: "readVarInt buf (length pre + length ?ni + length ?is) = Inr (length (tx_outs t), length ?no)"
    using w by (intro readVarInt_at [of _ "pre @ ?ni @ ?is" _ "?os @ post"]) (auto simp: bb)
  have o: "k < length (tx_outs t) \<Longrightarrow>
      parse_outputs buf k (length pre + length ?ni + length ?is + length ?no) =
      Inr (value_sat (tx_outs t ! k), scriptPubKey (tx_outs t ! k))"
    using w by (intro parse_outputs_enc [of _ _ "pre @ ?ni @ ?is @ ?no" post]) (auto simp: bb)
  show ?thesis
    unfolding parseOutput_bytes_def i [symmetric] Let_def n1 s1 n2 res_bind.simps prod.case
    using o by auto
qed

lemma parseOutput_bytes_segwit:
  "wf_tx t \<Longrightarrow> parseOutput_bytes (enc_segwit t) k =
    (if k < length (tx_outs t)
     then Inr (value_sat (tx_outs t ! k), scriptPubKey (tx_outs t ! k)) else Inl OutputIndexRange)"
  by (rule parseOutput_core [of t _ "tx_version t @ [0, 1]" "concat (map enc_stack (tx_witness t)) @ tx_locktime t"])
    (simp_all add: has_marker_segwit, simp_all add: enc_segwit_def wf_tx_def)

lemma parseOutput_bytes_legacy:
  "wf_tx t \<Longrightarrow> parseOutput_bytes (enc_legacy t) k =
    (if k < length (tx_outs t)
     then Inr (value_sat (tx_outs t ! k), scriptPubKey (tx_outs t ! k)) else Inl OutputIndexRange)"
  by (rule parseOutput_core [of t _ "tx_version t" "tx_locktime t"])
    (simp_all add: has_marker_legacy, simp_all add: enc_legacy_def wf_tx_def)

section \<open>Truncated input\<close>

text \<open>A read that succeeds is not disturbed by more bytes at the end.\<close>

lemma subarray_append: "i + n \<le> length buf \<Longrightarrow> subarray (buf @ ext) i n = subarray buf i n"
  by (simp add: subarray_def)

lemma sliceExact_mono: "sliceExact buf i n c = Inr x \<Longrightarrow> sliceExact (buf @ ext) i n c = Inr x"
  by (auto simp: sliceExact_def Let_def subarray_append split: if_splits)

lemma readLE_mono: "readLE n buf i = Some x \<Longrightarrow> readLE n (buf @ ext) i = Some x"
  by (auto simp: readLE_def subarray_append split: if_splits)

lemma at_opt_mono: "at_opt buf i = Some x \<Longrightarrow> at_opt (buf @ ext) i = Some x"
  by (auto simp: at_opt_def nth_append split: if_splits)

lemma readVarInt_mono: "readVarInt buf i = Inr r \<Longrightarrow> readVarInt (buf @ ext) i = Inr r"
  by (auto simp: readVarInt_def Let_def at_opt_mono readLE_mono split: option.split_asm if_split_asm)

lemma strip_inputs_mono: "strip_inputs buf n i out = Inr r \<Longrightarrow> strip_inputs (buf @ ext) n i out = Inr r"
  by (induction buf n i out rule: strip_inputs.induct)
    (auto simp: res_simps sliceExact_mono readVarInt_mono)

lemma strip_outputs_mono: "strip_outputs buf n i out = Inr r \<Longrightarrow> strip_outputs (buf @ ext) n i out = Inr r"
  by (induction buf n i out rule: strip_outputs.induct)
    (auto simp: res_simps sliceExact_mono readVarInt_mono)

lemma skip_items_mono: "skip_items buf n i = Inr r \<Longrightarrow> skip_items (buf @ ext) n i = Inr r"
  by (induction buf n i rule: skip_items.induct)
    (auto simp: res_simps readVarInt_mono)

lemma skip_stacks_mono: "skip_stacks buf n i = Inr r \<Longrightarrow> skip_stacks (buf @ ext) n i = Inr r"
  by (induction buf n i rule: skip_stacks.induct)
    (auto simp: res_simps readVarInt_mono skip_items_mono)

lemmas strip_mono = sliceExact_mono readVarInt_mono strip_inputs_mono strip_outputs_mono skip_stacks_mono

lemma strip_body_mono: "strip_body buf = Inr r \<Longrightarrow> strip_body (buf @ ext) = Inr r"
  by (auto simp: strip_body_def res_simps strip_mono)

lemma strip_bytes_prefix:
  assumes wf: "wf_tx t" and full: "enc_segwit t = buf @ ext" and ext: "ext \<noteq> []"
  shows "\<not> is_ok (strip_bytes buf)"
proof
  assume "is_ok (strip_bytes buf)"
  then obtain i out lock where bd: "strip_body buf = Inr (i, out)"
    and l: "sliceExact buf i 4 ''locktime'' = Inr lock"
    by (auto simp: strip_bytes_def is_ok_iff res_simps)
  from strip_body_mono [OF bd, of ext] full strip_body_enc [OF wf]
  have "i = length (enc_segwit t) - 4" by simp
  with l full ext length_enc_segwit [OF wf] show False
    by (auto dest!: sliceExact_InrD)
qed

section \<open>Searching the outputs\<close>

lemma find_output_spec:
  assumes po: "\<And>k. parseOutput raw k =
      (if k < length outs then Inr (value_sat (outs ! k), hex_of_bytes (scriptPubKey (outs ! k)))
       else Inl OutputIndexRange)"
  shows "find_output raw (hex_of_bytes spk) n i =
    (case List.find (\<lambda>k. scriptPubKey (outs ! k) = spk) [i..<min (i + n) (length outs)] of
       None \<Rightarrow> Inl NoMatchingOutput | Some k \<Rightarrow> Inr k)"
proof (induction n arbitrary: i)
  case (Suc n)
  show ?case
  proof (cases "i < length outs")
    case True
    then have "[i..<min (i + Suc n) (length outs)] = i # [Suc i..<min (Suc i + n) (length outs)]"
      by (simp add: upt_conv_Cons)
    with True Suc.IH [of "Suc i"] show ?thesis by (simp add: po)
  qed (simp add: po)
qed simp

section \<open>Properties\<close>

definition sample_tx :: btc_tx where
  "sample_tx = \<lparr>tx_version = [2, 0, 0, 0],
     tx_ins = [\<lparr>prevout = replicate 36 7, scriptSig = [], sequence = [254, 255, 255, 255]\<rparr>],
     tx_outs = [\<lparr>value_sat = 600, scriptPubKey = [81]\<rparr>, \<lparr>value_sat = 50000, scriptPubKey = [0, 2, 9, 9]\<rparr>],
     tx_witness = [[[1, 2], [3]]],
     tx_locktime = [0, 0, 0, 0]\<rparr>"

lemma wf_sample_tx: "wf_tx sample_tx"
  by (simp add: sample_tx_def wf_tx_def wf_in_def wf_out_def wf_stack_def wf_bytes_def MAX_SAFE_INTEGER_def)

text \<open>C15. For every well-formed transaction, \<^verbatim>\<open>stripWitness\<close> turns its BIP-141 serialization into
  its non-witness serialization, and leaves the non-witness serialization alone.\<close>

theorem stripWitness_roundtrip:
  assumes "wf_tx t"
  shows "stripWitness (hex_of_bytes (enc_segwit t)) = Inr (hex_of_bytes (enc_legacy t))
    \<and> stripWitness (hex_of_bytes (enc_legacy t)) = Inr (hex_of_bytes (enc_legacy t))"
  using assms by (simp add: stripWitness_def isSegwit_def enc_segwit_is enc_legacy_is_not strip_bytes_enc)

theorem stripWitness_roundtrip_witness:
  "wf_tx sample_tx \<and> stripWitness (hex_of_bytes (enc_segwit sample_tx)) = Inr (hex_of_bytes (enc_legacy sample_tx))"
  using stripWitness_roundtrip [OF wf_sample_tx] wf_sample_tx by blast

text \<open>\<^verbatim>\<open>stripWitness\<close> never silently truncates: on a strict prefix of a witness serialization it
  throws, unless the prefix is too short (at most six bytes) to show the marker, in which case it is
  returned as it came.\<close>

theorem stripWitness_no_truncation:
  assumes "wf_tx t" and "enc_segwit t = buf @ ext" and "ext \<noteq> []"
    and "stripWitness (hex_of_bytes buf) = Inr h"
  shows "length buf \<le> 6 \<and> h = hex_of_bytes buf"
proof (cases "isSegwit_bytes buf")
  case True
  with assms(4) have "is_ok (strip_bytes buf)"
    by (auto simp: stripWitness_def isSegwit_def res_simps)
  with strip_bytes_prefix [OF assms(1-3)] show ?thesis by simp
next
  case False
  have "length buf > 6 \<Longrightarrow> buf ! 4 = 0 \<and> buf ! 5 = 1"
    using enc_segwit_marker [OF assms(1)] assms(2) by (simp add: nth_append)
  with False have "length buf \<le> 6"
    by (cases "length buf > 6") (auto simp: isSegwit_bytes_def)
  with False assms(4) show ?thesis
    by (simp add: stripWitness_def isSegwit_def)
qed

theorem stripWitness_no_truncation_witness:
  "stripWitness (hex_of_bytes [2, 0, 0, 0, 0, 1]) = Inr (hex_of_bytes [2, 0, 0, 0, 0, 1])
    \<and> length ([2, 0, 0, 0, 0, 1] :: buffer) \<le> 6"
proof -
  have p: "enc_segwit sample_tx = [2, 0, 0, 0, 0, 1] @ drop 6 (enc_segwit sample_tx)"
    by (simp add: enc_segwit_def sample_tx_def)
  have e: "drop 6 (enc_segwit sample_tx) \<noteq> []"
    using length_enc_segwit [OF wf_sample_tx] by simp
  have s: "stripWitness (hex_of_bytes [2, 0, 0, 0, 0, 1]) = Inr (hex_of_bytes [2, 0, 0, 0, 0, 1])"
    by (simp add: stripWitness_def isSegwit_def isSegwit_bytes_def)
  from stripWitness_no_truncation [OF wf_sample_tx p e s] s show ?thesis by blast
qed

text \<open>On either serialization of a well-formed transaction \<^verbatim>\<open>parseOutput\<close> returns the value and
  script of exactly the output asked for, and throws when the index is past the last output.\<close>

theorem parseOutput_correct:
  assumes "wf_tx t" and "raw \<in> {hex_of_bytes (enc_segwit t), hex_of_bytes (enc_legacy t)}"
  shows "parseOutput raw k =
    (if k < length (tx_outs t)
     then Inr (value_sat (tx_outs t ! k), hex_of_bytes (scriptPubKey (tx_outs t ! k)))
     else Inl OutputIndexRange)"
  using assms by (auto simp: parseOutput_def parseOutput_bytes_segwit parseOutput_bytes_legacy)

theorem parseOutput_correct_witness:
  "parseOutput (hex_of_bytes (enc_segwit sample_tx)) 1 = Inr (50000, hex_of_bytes [0, 2, 9, 9])"
  using parseOutput_correct [OF wf_sample_tx, of "hex_of_bytes (enc_segwit sample_tx)" 1]
  by (simp add: sample_tx_def)

lemma findOutputIndex_spec:
  assumes wf: "wf_tx t" and raw: "raw \<in> {hex_of_bytes (enc_segwit t), hex_of_bytes (enc_legacy t)}"
  shows "findOutputIndex raw (hex_of_bytes spk) =
    (case List.find (\<lambda>k. scriptPubKey (tx_outs t ! k) = spk) [0..<min 64 (length (tx_outs t))] of
       None \<Rightarrow> Inl NoMatchingOutput | Some k \<Rightarrow> Inr k)"
proof -
  have "parseOutput raw k =
      (if k < length (tx_outs t) then Inr (value_sat (tx_outs t ! k), hex_of_bytes (scriptPubKey (tx_outs t ! k)))
       else Inl OutputIndexRange)" for k
    using wf raw by (auto simp: parseOutput_def parseOutput_bytes_segwit parseOutput_bytes_legacy)
  from find_output_spec [OF this, of spk 64 0] show ?thesis
    by (simp add: findOutputIndex_def)
qed

end
