(* ===== verification/SpvProof.thy ===== *)
theory SpvProof
  imports BtcTx Backoff
begin

text \<open>
  \<^verbatim>\<open>relayer/src/bitcoin/spv.ts\<close>: the byte-order conversion and the assembly of an SPV proof bundle
  from an Esplora client, which is a parameter here: a record of the answers its methods give. Errors
  thrown by the client, by the transaction parser and by the assembly itself are kept apart.
\<close>

section \<open>Byte order\<close>

text \<open>
  \<^verbatim>\<open>hex.match(/../g)\<close>: the successive pairs of characters, a dot matching anything but a line
  terminator. No match at all is \<^verbatim>\<open>null\<close>, the empty list here.
\<close>

definition is_line_end :: "char \<Rightarrow> bool" where
  "is_line_end c \<longleftrightarrow> code c = 10 \<or> code c = 13"

fun match_pairs :: "string \<Rightarrow> string list" where
  "match_pairs (c # d # rest) =
     (if is_line_end c then match_pairs (d # rest)
      else if is_line_end d then match_pairs rest
      else [c, d] # match_pairs rest)"
| "match_pairs _ = []"

datatype spv_error =
    ConfirmationsBelowOne
  | OddLengthHex
  | UnconfirmedTxError string
  | InsufficientConfirmationsError string int int
  | ClientError fetch_error
  | MalformedTx tx_error

definition toInternalByteOrder :: "string \<Rightarrow> spv_error + string" where
  "toInternalByteOrder hex =
     (if length hex mod 2 \<noteq> 0 then Inl OddLengthHex
      else (case match_pairs hex of [] \<Rightarrow> Inr hex | ps \<Rightarrow> Inr (concat (rev ps))))"

text \<open>\<^verbatim>\<open>reverseHex\<close> of \<^verbatim>\<open>repay-watcher/handler.ts\<close> is the same without the length check.\<close>

definition reverseHex :: "string \<Rightarrow> string" where
  "reverseHex hex = (case match_pairs hex of [] \<Rightarrow> hex | ps \<Rightarrow> concat (rev ps))"

section \<open>The proof bundle\<close>

record tx_status =
  confirmed :: bool
  block_height :: "int option"

record merkle_proof_response =
  merkle :: "string list"
  pos :: int

record esplora_client =
  getTxInfo :: "string \<Rightarrow> fetch_error + tx_status"
  getTipHeight :: "fetch_error + int"
  getRawTx :: "string \<Rightarrow> fetch_error + string"
  getMerkleProof :: "string \<Rightarrow> fetch_error + merkle_proof_response"
  getBlockHashAtHeight :: "int \<Rightarrow> fetch_error + string"
  getBlockHeader :: "string \<Rightarrow> fetch_error + string"

record spv_bundle =
  txid :: string
  rawTxNoWitness :: string
  blockHash :: string
  txIndex :: int
  merkleProof :: "string list"
  headers :: "string list"
  blockHeight :: int
  confirmations :: int
  bitcoinTipHeight :: int

definition lift_client :: "fetch_error + 'a \<Rightarrow> spv_error + 'a" where
  "lift_client r = (case r of Inl e \<Rightarrow> Inl (ClientError e) | Inr x \<Rightarrow> Inr x)"

definition lift_tx :: "tx_error + 'a \<Rightarrow> spv_error + 'a" where
  "lift_tx r = (case r of Inl e \<Rightarrow> Inl (MalformedTx e) | Inr x \<Rightarrow> Inr x)"

definition confirmed_height :: "string \<Rightarrow> tx_status \<Rightarrow> spv_error + int" where
  "confirmed_height i s =
     (case block_height s of
        Some h \<Rightarrow> if confirmed s then Inr h else Inl (UnconfirmedTxError i)
      | None \<Rightarrow> Inl (UnconfirmedTxError i))"

text \<open>
  The \<^verbatim>\<open>Promise.all\<close> fetches are run in list order: with several failures the code rejects with the
  one that comes first in time, here the one that comes first in the list.
\<close>

definition buildSPVProof :: "string \<Rightarrow> int \<Rightarrow> esplora_client \<Rightarrow> spv_error + spv_bundle" where
  "buildSPVProof i n esplora =
     (if n < 1 then Inl ConfirmationsBelowOne else
      res_bind (lift_client (getTxInfo esplora i)) (\<lambda>status.
      res_bind (confirmed_height i status) (\<lambda>height.
      res_bind (lift_client (getTipHeight esplora)) (\<lambda>tipHeight.
      let available = tipHeight - height + 1 in
      if available < n then Inl (InsufficientConfirmationsError i n available) else
      res_bind (lift_client (getRawTx esplora i)) (\<lambda>rawTxFull.
      res_bind (lift_tx (stripWitness rawTxFull)) (\<lambda>raw.
      res_bind (lift_client (getMerkleProof esplora i)) (\<lambda>mp.
      let headerHeights = map (\<lambda>k. height + int k) [0..<nat n] in
      res_bind (res_map (\<lambda>h. lift_client (getBlockHashAtHeight esplora h)) headerHeights) (\<lambda>hashes.
      res_bind (res_map (\<lambda>h. lift_client (getBlockHeader esplora (trim h))) hashes) (\<lambda>hexes.
      res_bind (toInternalByteOrder (trim (hd hashes))) (\<lambda>bh.
      res_bind (res_map toInternalByteOrder (merkle mp)) (\<lambda>mproof.
      Inr \<lparr>txid = i, rawTxNoWitness = raw, blockHash = bh, txIndex = pos mp, merkleProof = mproof,
           headers = map trim hexes, blockHeight = height, confirmations = n,
           bitcoinTipHeight = tipHeight\<rparr>)))))))))))"

section \<open>Lemmas\<close>

lemma lower_hex_not_line_end: "is_lower_hex c \<Longrightarrow> \<not> is_line_end c"
  by (auto simp: is_lower_hex_def is_line_end_def)

lemma match_pairs_hex: "match_pairs (hex_of_bytes bs) = map hex_of_byte bs"
proof (induction bs)
  case (Cons b bs)
  have "unat b div 16 < 16" by (simp add: less_mult_imp_div_less)
  then have "\<not> is_line_end (hex_digit (unat b div 16))" "\<not> is_line_end (hex_digit (unat b mod 16))"
    by (auto intro!: lower_hex_not_line_end hex_digit_lower)
  with Cons show ?case by (simp add: hex_of_bytes_Cons hex_of_byte_def)
qed simp

lemma concat_rev_hex: "concat (rev (map hex_of_byte bs)) = hex_of_bytes (rev bs)"
  by (simp add: hex_of_bytes_def rev_map)

lemma toInternalByteOrder_hex [simp]: "toInternalByteOrder (hex_of_bytes bs) = Inr (hex_of_bytes (rev bs))"
proof (cases bs)
  case (Cons b bs')
  then show ?thesis
    using concat_rev_hex [of bs]
    by (simp add: toInternalByteOrder_def match_pairs_hex split: list.splits)
qed (simp add: toInternalByteOrder_def)

lemma reverseHex_hex [simp]: "reverseHex (hex_of_bytes bs) = hex_of_bytes (rev bs)"
  using concat_rev_hex [of bs]
  by (cases bs) (simp_all add: reverseHex_def match_pairs_hex)

lemma lift_client_Inr [simp]: "lift_client r = Inr x \<longleftrightarrow> r = Inr x"
  by (cases r) (auto simp: lift_client_def)

lemma lift_tx_Inr [simp]: "lift_tx r = Inr x \<longleftrightarrow> r = Inr x"
  by (cases r) (auto simp: lift_tx_def)

lemma confirmed_height_Inr: "confirmed_height i s = Inr h \<longleftrightarrow> confirmed s \<and> block_height s = Some h"
  by (auto simp: confirmed_height_def split: option.splits if_splits)

lemma buildSPVProof_InrE:
  assumes "buildSPVProof i n esplora = Inr b"
  obtains status height tip full raw mp hashes hexes bh mproof where
    "1 \<le> n" "getTxInfo esplora i = Inr status"
    "confirmed status" "block_height status = Some height"
    "getTipHeight esplora = Inr tip" "n \<le> tip - height + 1"
    "getRawTx esplora i = Inr full" "stripWitness full = Inr raw"
    "res_map (\<lambda>h. lift_client (getBlockHashAtHeight esplora h)) (map (\<lambda>k. height + int k) [0..<nat n]) = Inr hashes"
    "res_map (\<lambda>h. lift_client (getBlockHeader esplora (trim h))) hashes = Inr hexes"
    "toInternalByteOrder (trim (hd hashes)) = Inr bh"
    "getMerkleProof esplora i = Inr mp" "res_map toInternalByteOrder (merkle mp) = Inr mproof"
    "b = \<lparr>txid = i, rawTxNoWitness = raw, blockHash = bh, txIndex = pos mp, merkleProof = mproof,
         headers = map trim hexes, blockHeight = height, confirmations = n, bitcoinTipHeight = tip\<rparr>"
  using assms unfolding buildSPVProof_def Let_def
  by (simp only: res_simps confirmed_height_Inr lift_client_Inr lift_tx_Inr not_less sum.inject)
    (elim exE conjE, rule that, (assumption | simp)+)

section \<open>Properties\<close>

text \<open>Reversing the byte order is exactly reversing the bytes, so that doing it twice gives the
  hash back, and hex of odd length is refused rather than truncated.\<close>

lemma toInternalByteOrder_involution:
  "toInternalByteOrder (hex_of_bytes bs) = Inr (hex_of_bytes (rev bs))
   \<and> res_bind (toInternalByteOrder (hex_of_bytes bs)) toInternalByteOrder = Inr (hex_of_bytes bs)
   \<and> (odd (length s) \<longrightarrow> toInternalByteOrder s = Inl OddLengthHex)"
  by (auto simp: toInternalByteOrder_def [of s] odd_iff_mod_2_eq_one)

text \<open>C7. A bundle is only built for a confirmed transaction with enough blocks on top of it; it then
  carries exactly the requested number of headers, those of consecutive heights from the confirming
  block on, the stripped transaction, and the confirming block's hash in internal byte order.\<close>

theorem buildSPVProof_sound:
  assumes "buildSPVProof i n esplora = Inr b"
  shows "\<exists>status tip.
    getTxInfo esplora i = Inr status \<and> confirmed status \<and> block_height status = Some (blockHeight b)
    \<and> getTipHeight esplora = Inr tip \<and> blockHeight b + n - 1 \<le> tip \<and> 1 \<le> n
    \<and> int (length (headers b)) = n \<and> confirmations b = n
    \<and> (\<forall>k<nat n. \<exists>hash hex. getBlockHashAtHeight esplora (blockHeight b + int k) = Inr hash
          \<and> getBlockHeader esplora (trim hash) = Inr hex \<and> headers b ! k = trim hex
          \<and> (k = 0 \<longrightarrow> toInternalByteOrder (trim hash) = Inr (blockHash b)))
    \<and> (\<exists>full. getRawTx esplora i = Inr full \<and> stripWitness full = Inr (rawTxNoWitness b))"
proof -
  from assms obtain status height tip full raw mp hashes hexes bh mproof where
    n: "1 \<le> n" and st: "getTxInfo esplora i = Inr status"
    and ch: "confirmed status" "block_height status = Some height"
    and tip: "getTipHeight esplora = Inr tip" "n \<le> tip - height + 1"
    and raw: "getRawTx esplora i = Inr full" "stripWitness full = Inr raw"
    and hs: "res_map (\<lambda>h. lift_client (getBlockHashAtHeight esplora h)) (map (\<lambda>k. height + int k) [0..<nat n]) = Inr hashes"
    and hx: "res_map (\<lambda>h. lift_client (getBlockHeader esplora (trim h))) hashes = Inr hexes"
    and bh: "toInternalByteOrder (trim (hd hashes)) = Inr bh"
    and mp: "getMerkleProof esplora i = Inr mp" "res_map toInternalByteOrder (merkle mp) = Inr mproof"
    and b: "b = \<lparr>txid = i, rawTxNoWitness = raw, blockHash = bh, txIndex = pos mp, merkleProof = mproof,
           headers = map trim hexes, blockHeight = height, confirmations = n, bitcoinTipHeight = tip\<rparr>"
    by (elim buildSPVProof_InrE)
  from hs have len: "length hashes = nat n" by (auto dest: res_map_length)
  with hx have lenx: "length hexes = nat n" by (auto dest: res_map_length)
  have hash: "getBlockHashAtHeight esplora (height + int k) = Inr (hashes ! k)" if "k < nat n" for k
    using hs that by (auto simp: res_map_Inr_iff list_all2_conv_all_nth)
  have hex: "getBlockHeader esplora (trim (hashes ! k)) = Inr (hexes ! k)" if "k < nat n" for k
    using hx that len by (auto simp: res_map_Inr_iff list_all2_conv_all_nth)
  have "hd hashes = hashes ! 0" using len n by (cases hashes) auto
  with bh hash hex lenx have "\<forall>k<nat n. \<exists>hash hex. getBlockHashAtHeight esplora (height + int k) = Inr hash
      \<and> getBlockHeader esplora (trim hash) = Inr hex \<and> map trim hexes ! k = trim hex
      \<and> (k = 0 \<longrightarrow> toInternalByteOrder (trim hash) = Inr bh)"
    by auto
  with n st ch tip raw lenx show ?thesis by (auto simp: b)
qed

definition sample_client :: esplora_client where
  "sample_client = \<lparr>getTxInfo = (\<lambda>_. Inr \<lparr>confirmed = True, block_height = Some 100\<rparr>),
     getTipHeight = Inr 101, getRawTx = (\<lambda>_. Inr ''0200''),
     getMerkleProof = (\<lambda>_. Inr \<lparr>merkle = [''0102''], pos = 3\<rparr>),
     getBlockHashAtHeight = (\<lambda>h. Inr (if h = 100 then ''aabb'' else ''ccdd'')),
     getBlockHeader = (\<lambda>h. Inr (h @ ''00''))\<rparr>"

theorem buildSPVProof_sound_witness:
  "\<exists>b. buildSPVProof ''ff'' 2 sample_client = Inr b \<and> headers b = [''aabb00'', ''ccdd00'']
     \<and> blockHash b = ''bbaa'' \<and> blockHeight b + 2 - 1 \<le> 101"
proof -
  let ?b = "\<lparr>txid = ''ff'', rawTxNoWitness = ''0200'', blockHash = ''bbaa'', txIndex = 3,
     merkleProof = [''0201''], headers = [''aabb00'', ''ccdd00''], blockHeight = 100,
     confirmations = 2, bitcoinTipHeight = 101\<rparr>"
  have b: "buildSPVProof ''ff'' 2 sample_client = Inr ?b"
    by code_simp
  from buildSPVProof_sound [OF b] have "blockHeight ?b + 2 - 1 \<le> 101"
    by (auto simp: sample_client_def)
  with b show ?thesis by auto
qed

end
