(* ===== verification/LockScript.thy ===== *)
theory LockScript
  imports JsBuffer
begin

text \<open>
  \<^verbatim>\<open>bitcoin-script/src/script.ts\<close>, \<^verbatim>\<open>address.ts\<close> and \<^verbatim>\<open>spend.ts\<close>: the script that locks a deposit, the
  transactions that spend it and their witnesses. Of \<^verbatim>\<open>bitcoinjs-lib\<close>, the encoding of a script, the
  P2WSH output and the hash are the parameter \<open>script_lib\<close>; a PSBT is the data the code puts into it.
  What the script means is stated by an interpreter of its opcodes, whose signature check is a parameter.
\<close>

section \<open>The redeem script\<close>

datatype script_op = OP_IF | OP_ELSE | OP_ENDIF | OP_CHECKSIG | OP_CHECKSIGVERIFY | OP_CLTV | OP_DROP

datatype script_item = Op script_op | Push buffer

record script_lib =
  compile :: "script_item list \<Rightarrow> buffer"
  decompile :: "buffer \<Rightarrow> script_item list option"
  number_encode :: "int \<Rightarrow> buffer"
  p2wsh :: "buffer \<Rightarrow> string option \<times> buffer option"
  sha256 :: "buffer \<Rightarrow> buffer"

datatype lock_error =
    ProtocolPubkeyLength
  | UserPubkeyLength
  | TimelockTooLow
  | DecompileFailed
  | NoAddress
  | NoPartialSigs
  | NoWitnessScript
  | NoUserSig
  | NoProtocolSig
  | VarintRange

definition MIN_TIMELOCK_HEIGHT :: int where "MIN_TIMELOCK_HEIGHT = 100000"
definition MAX_TIMELOCK_OFFSET :: int where "MAX_TIMELOCK_OFFSET = 105000"

definition redeem_items :: "script_lib \<Rightarrow> buffer \<Rightarrow> buffer \<Rightarrow> int \<Rightarrow> script_item list" where
  "redeem_items lib protocolPubkey userPubkey timelockHeight =
     [Op OP_IF, Push protocolPubkey, Op OP_CHECKSIGVERIFY, Push userPubkey, Op OP_CHECKSIG,
      Op OP_ELSE, Push (number_encode lib timelockHeight), Op OP_CLTV, Op OP_DROP,
      Push userPubkey, Op OP_CHECKSIG, Op OP_ENDIF]"

definition buildRedeemScript :: "script_lib \<Rightarrow> buffer \<Rightarrow> buffer \<Rightarrow> int \<Rightarrow> lock_error + buffer" where
  "buildRedeemScript lib protocolPubkey userPubkey timelockHeight =
     (if length protocolPubkey \<noteq> 33 then Inl ProtocolPubkeyLength
      else if length userPubkey \<noteq> 33 then Inl UserPubkeyLength
      else if timelockHeight < MIN_TIMELOCK_HEIGHT then Inl TimelockTooLow
      else Inr (compile lib (redeem_items lib protocolPubkey userPubkey timelockHeight)))"

definition decompileRedeemScript :: "script_lib \<Rightarrow> buffer \<Rightarrow> lock_error + script_item list" where
  "decompileRedeemScript lib script = (case decompile lib script of None \<Rightarrow> Inl DecompileFailed | Some items \<Rightarrow> Inr items)"

definition computeTimelock :: "int \<Rightarrow> int \<Rightarrow> int \<Rightarrow> int" where
  "computeTimelock depositBlockHeight loanDurationBlocks safetyBufferBlocks =
     depositBlockHeight + loanDurationBlocks + safetyBufferBlocks"

definition DEFAULT_SAFETY_BUFFER :: int where "DEFAULT_SAFETY_BUFFER = 1008"

record locking_params =
  lp_protocol :: buffer
  lp_user :: buffer
  lp_timelock :: int

record deposit_address =
  da_address :: string
  da_scriptPubKey :: buffer
  da_redeemScript :: buffer

definition deriveDepositAddress :: "script_lib \<Rightarrow> locking_params \<Rightarrow> lock_error + deposit_address" where
  "deriveDepositAddress lib params =
     res_bind (buildRedeemScript lib (lp_protocol params) (lp_user params) (lp_timelock params)) (\<lambda>redeemScript.
     case p2wsh lib redeemScript of
       (Some addr, Some output) \<Rightarrow>
         if addr = [] then Inl NoAddress
         else Inr \<lparr>da_address = addr, da_scriptPubKey = output, da_redeemScript = redeemScript\<rparr>
     | _ \<Rightarrow> Inl NoAddress)"

definition redeemScriptHash :: "script_lib \<Rightarrow> buffer \<Rightarrow> buffer" where
  "redeemScriptHash lib script = sha256 lib script"

section \<open>Spending transactions\<close>

definition SEQUENCE_LOCKTIME_ENABLED :: int where "SEQUENCE_LOCKTIME_ENABLED = 0xfffffffe"

record psbt_input =
  pi_hash :: string
  pi_index :: nat
  pi_script :: buffer
  pi_value :: int
  pi_witnessScript :: "buffer option"
  pi_sequence :: int
  pi_partialSig :: "(buffer \<times> buffer) list"  \<comment> \<open>public key and signature\<close>

record psbt =
  ps_locktime :: int
  ps_inputs :: "psbt_input list"
  ps_outputs :: "(string \<times> int) list"

record spend_params =
  sp_txidHex :: string
  sp_vout :: nat
  sp_amountSat :: int
  sp_scriptPubKey :: buffer
  sp_redeemScript :: buffer
  sp_recipientAddress :: string
  sp_feeSat :: int

definition spend_input :: "spend_params \<Rightarrow> int \<Rightarrow> psbt_input" where
  "spend_input p seq = \<lparr>pi_hash = sp_txidHex p, pi_index = sp_vout p, pi_script = sp_scriptPubKey p,
     pi_value = sp_amountSat p, pi_witnessScript = Some (sp_redeemScript p), pi_sequence = seq, pi_partialSig = []\<rparr>"

definition buildReleaseTransaction :: "spend_params \<Rightarrow> psbt" where
  "buildReleaseTransaction p =
     \<lparr>ps_locktime = 0, ps_inputs = [spend_input p 0xfffffffe],
      ps_outputs = [(sp_recipientAddress p, sp_amountSat p - sp_feeSat p)]\<rparr>"

definition buildEmergencyTransaction :: "spend_params \<Rightarrow> int \<Rightarrow> psbt" where
  "buildEmergencyTransaction p timelockHeight =
     \<lparr>ps_locktime = timelockHeight, ps_inputs = [spend_input p SEQUENCE_LOCKTIME_ENABLED],
      ps_outputs = [(sp_recipientAddress p, sp_amountSat p - sp_feeSat p)]\<rparr>"

section \<open>Witnesses\<close>

definition encodeVarInt16 :: "nat \<Rightarrow> lock_error + buffer" where
  "encodeVarInt16 n =
     (if n < 0xfd then Inr [word_of_nat n]
      else if n \<le> 0xffff then Inr (0xfd # le_bytes 2 n)
      else Inl VarintRange)"

definition readVarInt16 :: "buffer \<Rightarrow> nat \<Rightarrow> lock_error + nat \<times> nat" where
  "readVarInt16 buf offset =
     (case at_opt buf offset of
        None \<Rightarrow> Inl VarintRange
      | Some b \<Rightarrow>
          if unat b < 0xfd then Inr (unat b, 1)
          else if unat b = 0xfd then
            (case readLE 2 buf (offset + 1) of None \<Rightarrow> Inl VarintRange | Some v \<Rightarrow> Inr (v, 3))
          else Inl VarintRange)"

fun serialize_items :: "buffer list \<Rightarrow> lock_error + buffer" where
  "serialize_items [] = Inr []"
| "serialize_items (item # items) =
     res_bind (encodeVarInt16 (length item)) (\<lambda>len. res_bind (serialize_items items) (\<lambda>rest. Inr (len @ item @ rest)))"

definition serializeWitness :: "buffer list \<Rightarrow> lock_error + buffer" where
  "serializeWitness items =
     res_bind (encodeVarInt16 (length items)) (\<lambda>count. res_bind (serialize_items items) (\<lambda>rest. Inr (count @ rest)))"

fun deserialize_items :: "nat \<Rightarrow> buffer \<Rightarrow> nat \<Rightarrow> lock_error + buffer list" where
  "deserialize_items 0 buf offset = Inr []"
| "deserialize_items (Suc k) buf offset =
     res_bind (readVarInt16 buf offset) (\<lambda>(len, lenSize).
     res_bind (deserialize_items k buf (offset + lenSize + len)) (\<lambda>items.
     Inr (subarray buf (offset + lenSize) len # items)))"

definition deserializeWitness :: "buffer \<Rightarrow> lock_error + buffer list" where
  "deserializeWitness buf = res_bind (readVarInt16 buf 0) (\<lambda>(count, countSize). deserialize_items count buf countSize)"

definition sig_of :: "psbt_input \<Rightarrow> buffer \<Rightarrow> buffer option" where
  "sig_of input pubkey = map_option snd (find (\<lambda>ps. fst ps = pubkey) (pi_partialSig input))"

text \<open>The stack of a final witness, before its serialization.\<close>

definition finalize_A :: "psbt_input \<Rightarrow> buffer \<Rightarrow> buffer \<Rightarrow> lock_error + buffer list" where
  "finalize_A input userPubkey protocolPubkey =
     (if pi_partialSig input = [] then Inl NoPartialSigs
      else case pi_witnessScript input of None \<Rightarrow> Inl NoWitnessScript | Some script \<Rightarrow>
        (case sig_of input userPubkey of None \<Rightarrow> Inl NoUserSig | Some us \<Rightarrow>
        (case sig_of input protocolPubkey of None \<Rightarrow> Inl NoProtocolSig | Some ps \<Rightarrow>
           Inr [us, ps, [1], script])))"

definition finalize_B :: "psbt_input \<Rightarrow> buffer \<Rightarrow> lock_error + buffer list" where
  "finalize_B input userPubkey =
     (if pi_partialSig input = [] then Inl NoPartialSigs
      else case pi_witnessScript input of None \<Rightarrow> Inl NoWitnessScript | Some script \<Rightarrow>
        (case sig_of input userPubkey of None \<Rightarrow> Inl NoUserSig | Some us \<Rightarrow> Inr [us, [], script]))"

definition finalizePathA :: "psbt_input \<Rightarrow> buffer \<Rightarrow> buffer \<Rightarrow> lock_error + buffer" where
  "finalizePathA input userPubkey protocolPubkey = res_bind (finalize_A input userPubkey protocolPubkey) serializeWitness"

definition finalizePathB :: "psbt_input \<Rightarrow> buffer \<Rightarrow> lock_error + buffer" where
  "finalizePathB input userPubkey = res_bind (finalize_B input userPubkey) serializeWitness"

section \<open>What the script means\<close>

text \<open>
  The Bitcoin interpreter on the opcodes of the script. \<open>chk sig key\<close> is the signature check of the
  spending transaction, \<open>num\<close> reads a script number, \<open>locktime\<close> and \<open>sequence\<close> are those of the
  transaction. A stack is a list with its top first; \<open>conds\<close> are the open branches.
\<close>

definition truthy :: "buffer \<Rightarrow> bool" where
  "truthy v \<longleftrightarrow> (\<exists>i<length v. v ! i \<noteq> 0 \<and> \<not> (i = length v - 1 \<and> v ! i = 0x80))"

record script_env =
  chk :: "buffer \<Rightarrow> buffer \<Rightarrow> bool"
  num :: "buffer \<Rightarrow> int"
  locktime :: int
  sequence_no :: int

type_synonym machine = "buffer list \<times> bool list"

fun exec_op :: "script_env \<Rightarrow> script_op \<Rightarrow> buffer list \<Rightarrow> bool list \<Rightarrow> machine option" where
  "exec_op env OP_IF stack conds =
     (if list_all id conds then (case stack of [] \<Rightarrow> None | v # st \<Rightarrow> Some (st, truthy v # conds))
      else Some (stack, False # conds))"
| "exec_op env OP_ELSE stack [] = None"
| "exec_op env OP_ELSE stack (c # conds) = Some (stack, (\<not> c) # conds)"
| "exec_op env OP_ENDIF stack [] = None"
| "exec_op env OP_ENDIF stack (c # conds) = Some (stack, conds)"
| "exec_op env OP_CHECKSIG (key # sig # stack) conds = Some ((if chk env sig key then [1] else []) # stack, conds)"
| "exec_op env OP_CHECKSIG stack conds = None"
| "exec_op env OP_CHECKSIGVERIFY (key # sig # stack) conds = (if chk env sig key then Some (stack, conds) else None)"
| "exec_op env OP_CHECKSIGVERIFY stack conds = None"
| "exec_op env OP_CLTV [] conds = None"
| "exec_op env OP_CLTV (v # stack) conds =
     (if num env v \<le> locktime env \<and> sequence_no env < 0xffffffff then Some (v # stack, conds) else None)"
| "exec_op env OP_DROP [] conds = None"
| "exec_op env OP_DROP (v # stack) conds = Some (stack, conds)"

fun is_branch :: "script_op \<Rightarrow> bool" where
  "is_branch OP_IF = True" | "is_branch OP_ELSE = True" | "is_branch OP_ENDIF = True" | "is_branch _ = False"

fun exec_item :: "script_env \<Rightarrow> script_item \<Rightarrow> machine \<Rightarrow> machine option" where
  "exec_item env (Push b) (stack, conds) = Some (if list_all id conds then (b # stack, conds) else (stack, conds))"
| "exec_item env (Op opc) (stack, conds) =
     (if list_all id conds \<or> is_branch opc then exec_op env opc stack conds else Some (stack, conds))"

fun exec_script :: "script_env \<Rightarrow> script_item list \<Rightarrow> machine \<Rightarrow> machine option" where
  "exec_script env [] m = Some m"
| "exec_script env (i # is) m = (case exec_item env i m of None \<Rightarrow> None | Some m' \<Rightarrow> exec_script env is m')"

text \<open>A P2WSH witness: the script is its last item, the others are the stack, the last one on top.\<close>

definition spends :: "script_lib \<Rightarrow> script_env \<Rightarrow> buffer list \<Rightarrow> bool" where
  "spends lib env witness \<longleftrightarrow> witness \<noteq> [] \<and>
     (case decompile lib (last witness) of
        None \<Rightarrow> False
      | Some items \<Rightarrow>
          (case exec_script env items (rev (butlast witness), []) of
             Some ([v], []) \<Rightarrow> truthy v
           | _ \<Rightarrow> False))"

section \<open>Lemmas\<close>

lemma truthy_one [simp]: "truthy [1]" "\<not> truthy []"
  by (simp_all add: truthy_def)

text \<open>A signature check that ends the script leaves its verdict as the only item.\<close>

lemma exec_redeem:
  "(case exec_script env (redeem_items lib p u h) (v # st, []) of Some ([x], []) \<Rightarrow> truthy x | _ \<Rightarrow> False) \<longleftrightarrow>
     (if truthy v then \<exists>us ps. st = [ps, us] \<and> chk env ps p \<and> chk env us u
      else num env (number_encode lib h) \<le> locktime env \<and> sequence_no env < 0xffffffff
        \<and> (\<exists>us. st = [us] \<and> chk env us u))"
proof (cases "truthy v")
  case True
  show ?thesis
  proof (cases st)
    case Nil
    with True show ?thesis by (simp add: redeem_items_def)
  next
    case (Cons ps rest)
    then show ?thesis
      by (cases rest; cases "tl rest") (use True in \<open>auto simp: redeem_items_def\<close>)
  qed
next
  case False
  show ?thesis
    by (cases st; cases "tl st") (use False in \<open>auto simp: redeem_items_def\<close>)
qed

lemma exec_redeem_empty: "exec_script env (redeem_items lib p u h) ([], []) = None"
  by (simp add: redeem_items_def)

lemma spends_iff:
  assumes "decompile lib script = Some (redeem_items lib p u h)"
  shows "spends lib env (stack @ [script]) \<longleftrightarrow>
      (\<exists>us ps t. stack = [us, ps, t] \<and> truthy t \<and> chk env ps p \<and> chk env us u)
    \<or> (\<exists>us f. stack = [us, f] \<and> \<not> truthy f \<and> num env (number_encode lib h) \<le> locktime env
          \<and> sequence_no env < 0xffffffff \<and> chk env us u)"
proof (cases stack rule: rev_cases)
  case Nil
  then show ?thesis using assms by (simp add: spends_def exec_redeem_empty)
next
  case (snoc st v)
  have "spends lib env (stack @ [script]) \<longleftrightarrow>
      (case exec_script env (redeem_items lib p u h) (v # rev st, []) of Some ([x], []) \<Rightarrow> truthy x | _ \<Rightarrow> False)"
    using assms by (simp add: spends_def snoc butlast_append)
  also note exec_redeem
  finally show ?thesis
    by (auto simp: snoc rev_eq_Cons_iff)
qed

lemma varint16_roundtrip:
  "encodeVarInt16 n = Inr e \<Longrightarrow> readVarInt16 (pre @ e @ post) (length pre) = Inr (n, length e)"
proof -
  assume e: "encodeVarInt16 n = Inr e"
  show ?thesis
  proof (cases "n < 0xfd")
    case True
    then have "e = [word_of_nat n]" using e by (simp add: encodeVarInt16_def)
    with True show ?thesis by (simp add: readVarInt16_def)
  next
    case False
    with e have n: "n \<le> 0xffff" "e = 0xfd # le_bytes 2 n" by (auto simp: encodeVarInt16_def split: if_splits)
    have "readLE 2 ((pre @ [0xfd]) @ le_bytes 2 n @ post) (length (pre @ [0xfd])) = Some (le_val (le_bytes 2 n))"
      by (rule readLE_mid) simp
    then have "readLE 2 (pre @ 0xfd # le_bytes 2 n @ post) (Suc (length pre)) = Some n" using n by simp
    then show ?thesis using n by (simp add: readVarInt16_def)
  qed
qed

lemma deserialize_items_serialize:
  "serialize_items items = Inr body \<Longrightarrow> deserialize_items (length items) (pre @ body @ post) (length pre) = Inr items"
proof (induction items arbitrary: pre body)
  case (Cons item items)
  then obtain len rest where e: "encodeVarInt16 (length item) = Inr len" "serialize_items items = Inr rest"
    "body = len @ item @ rest" by (auto simp: res_simps)
  have "readVarInt16 (pre @ body @ post) (length pre) = Inr (length item, length len)"
    using varint16_roundtrip [OF e(1), of pre "item @ rest @ post"] e(3) by simp
  moreover have "deserialize_items (length items) (pre @ body @ post) (length pre + length len + length item) = Inr items"
    using Cons.IH [OF e(2), of "pre @ len @ item"] e(3) by (simp add: add.assoc)
  moreover have "subarray (pre @ body @ post) (length pre + length len) (length item) = item"
    using subarray_mid [of item "length item" "pre @ len" "rest @ post"] e(3) by simp
  ultimately show ?case by simp
qed simp

lemma serialize_items_ok: "(\<And>i. i \<in> set items \<Longrightarrow> length i \<le> 0xffff) \<Longrightarrow> \<exists>body. serialize_items items = Inr body"
  by (induction items) (auto simp: encodeVarInt16_def)

section \<open>Properties\<close>

text \<open>Reading back a serialized witness gives its items, and serialization only fails when the count
  or an item is longer than 65535.\<close>

theorem witness_roundtrip:
  "(\<forall>w. serializeWitness items = Inr w \<longrightarrow> deserializeWitness w = Inr items)
   \<and> (is_ok (serializeWitness items) \<longleftrightarrow> length items \<le> 0xffff \<and> (\<forall>i\<in>set items. length i \<le> 0xffff))"
proof (intro conjI allI impI)
  fix w assume "serializeWitness items = Inr w"
  then obtain count body where w: "encodeVarInt16 (length items) = Inr count" "serialize_items items = Inr body" "w = count @ body"
    by (auto simp: serializeWitness_def res_simps)
  have "readVarInt16 w 0 = Inr (length items, length count)"
    using varint16_roundtrip [OF w(1), of "[]" body] w(3) by simp
  moreover have "deserialize_items (length items) w (length count) = Inr items"
    using deserialize_items_serialize [OF w(2), of count "[]"] w(3) by simp
  ultimately show "deserializeWitness w = Inr items" by (simp add: deserializeWitness_def)
next
  have fail: "\<not> (\<exists>body. serialize_items items = Inr body)" if "\<exists>i\<in>set items. length i > 0xffff"
    using that by (induction items) (auto simp: res_simps encodeVarInt16_def)
  have "(\<exists>body. serialize_items items = Inr body) \<longleftrightarrow> (\<forall>i\<in>set items. length i \<le> 0xffff)"
    using fail serialize_items_ok [of items] by (meson not_le)
  then show "is_ok (serializeWitness items) \<longleftrightarrow> length items \<le> 0xffff \<and> (\<forall>i\<in>set items. length i \<le> 0xffff)"
    by (auto simp: is_ok_iff serializeWitness_def res_simps encodeVarInt16_def not_le split: if_splits)
qed

text \<open>C6. The lock can be spent in two ways and no other: with a signature of each key, or by the user's
  key alone in a transaction whose lock time has reached the timelock and whose input is not final. The
  witnesses that \<^verbatim>\<open>finalizePathA\<close> and \<^verbatim>\<open>finalizePathB\<close> assemble are of these two shapes, and the
  emergency transaction carries the lock time and the sequence number the second way needs.\<close>

theorem lock_two_ways:
  assumes built: "buildRedeemScript lib p u h = Inr script"
    and codec: "decompile lib (compile lib (redeem_items lib p u h)) = Some (redeem_items lib p u h)"
    and number: "num env (number_encode lib h) = h"
    and holds: "pi_witnessScript input = Some script" "\<forall>(k, s)\<in>set (pi_partialSig input). chk env s k"
  shows "(spends lib env (stack @ [script]) \<longleftrightarrow>
        (\<exists>us ps t. stack = [us, ps, t] \<and> truthy t \<and> chk env ps p \<and> chk env us u)
      \<or> (\<exists>us f. stack = [us, f] \<and> \<not> truthy f \<and> h \<le> locktime env \<and> sequence_no env < 0xffffffff \<and> chk env us u))
    \<and> (\<forall>w. finalize_A input u p = Inr w \<longrightarrow> spends lib env w)
    \<and> (\<forall>w. finalize_B input u = Inr w \<and> locktime env = ps_locktime (buildEmergencyTransaction sp h)
          \<and> sequence_no env = pi_sequence (hd (ps_inputs (buildEmergencyTransaction sp h))) \<longrightarrow> spends lib env w)"
proof -
  have script: "script = compile lib (redeem_items lib p u h)"
    using built by (auto simp: buildRedeemScript_def split: if_splits)
  have dec: "decompile lib script = Some (redeem_items lib p u h)" using codec by (simp add: script)
  have iff: "spends lib env (stack @ [script]) \<longleftrightarrow>
        (\<exists>us ps t. stack = [us, ps, t] \<and> truthy t \<and> chk env ps p \<and> chk env us u)
      \<or> (\<exists>us f. stack = [us, f] \<and> \<not> truthy f \<and> h \<le> locktime env \<and> sequence_no env < 0xffffffff \<and> chk env us u)" for stack
    using spends_iff [OF dec] number by simp
  have sig: "chk env s k" if "sig_of input k = Some s" "\<forall>(k, s)\<in>set (pi_partialSig input). chk env s k" for input k s
  proof -
    from that(1) obtain x where "find (\<lambda>ps. fst ps = k) (pi_partialSig input) = Some x" "snd x = s" by (auto simp: sig_of_def)
    then have "x \<in> set (pi_partialSig input) \<and> fst x = k" unfolding find_Some_iff by (metis nth_mem)
    with that(2) \<open>snd x = s\<close> show ?thesis by auto
  qed
  have A: "spends lib env w" if "finalize_A input u p = Inr w" for w
  proof -
    from that holds(1) obtain us ps where "sig_of input u = Some us" "sig_of input p = Some ps" "w = [us, ps, [1]] @ [script]"
      by (auto simp: finalize_A_def split: if_splits option.splits)
    then show ?thesis using sig holds(2) iff [of "[us, ps, [1]]"] by auto
  qed
  have B: "spends lib env w" if "finalize_B input u = Inr w" "locktime env = ps_locktime (buildEmergencyTransaction sp h)"
    "sequence_no env = pi_sequence (hd (ps_inputs (buildEmergencyTransaction sp h)))" for w
  proof -
    from that(1) holds(1) obtain us where "sig_of input u = Some us" "w = [us, []] @ [script]"
      by (auto simp: finalize_B_def split: if_splits option.splits)
    then show ?thesis
      using sig holds(2) that(2, 3) iff [of "[us, []]"]
      by (auto simp: buildEmergencyTransaction_def spend_input_def SEQUENCE_LOCKTIME_ENABLED_def)
  qed
  show ?thesis using iff [of stack] A B by blast
qed

text \<open>A library whose encoding is the list itself, for one script.\<close>

definition sample_script_lib :: script_lib where
  "sample_script_lib = \<lparr>compile = (\<lambda>_. [7]),
     decompile = (\<lambda>b. if b = [7] then Some [Op OP_IF, Push (replicate 33 2), Op OP_CHECKSIGVERIFY, Push (replicate 33 3), Op OP_CHECKSIG,
       Op OP_ELSE, Push [0xa0, 0x86, 0x01], Op OP_CLTV, Op OP_DROP, Push (replicate 33 3), Op OP_CHECKSIG, Op OP_ENDIF] else None),
     number_encode = (\<lambda>_. [0xa0, 0x86, 0x01]), p2wsh = (\<lambda>_. (None, None)), sha256 = (\<lambda>b. b)\<rparr>"

definition sample_script_env :: script_env where
  "sample_script_env = \<lparr>chk = (\<lambda>s k. s = k), num = (\<lambda>b. int (le_val b)), locktime = 100000, sequence_no = 0xfffffffe\<rparr>"

definition sample_psbt_input :: psbt_input where
  "sample_psbt_input = \<lparr>pi_hash = ''ab'', pi_index = 0, pi_script = [], pi_value = 5000, pi_witnessScript = Some [7], pi_sequence = 0xfffffffe,
     pi_partialSig = [(replicate 33 3, replicate 33 3), (replicate 33 2, replicate 33 2)]\<rparr>"

theorem lock_two_ways_witness:
  "spends sample_script_lib sample_script_env [replicate 33 3, replicate 33 2, [1], [7]]
   \<and> spends sample_script_lib sample_script_env [replicate 33 3, [], [7]]
   \<and> \<not> spends sample_script_lib sample_script_env [replicate 33 2, [], [7]]"
proof -
  have b: "buildRedeemScript sample_script_lib (replicate 33 2) (replicate 33 3) 100000 = Inr [7]"
    by (simp add: buildRedeemScript_def sample_script_lib_def MIN_TIMELOCK_HEIGHT_def)
  have c: "decompile sample_script_lib (compile sample_script_lib (redeem_items sample_script_lib (replicate 33 2) (replicate 33 3) 100000))
      = Some (redeem_items sample_script_lib (replicate 33 2) (replicate 33 3) 100000)"
    by (simp add: sample_script_lib_def redeem_items_def)
  have n: "num sample_script_env (number_encode sample_script_lib 100000) = 100000"
    by (simp add: sample_script_env_def sample_script_lib_def)
  have h: "pi_witnessScript sample_psbt_input = Some [7]"
    "\<forall>(k, s)\<in>set (pi_partialSig sample_psbt_input). chk sample_script_env s k"
    by (simp_all add: sample_psbt_input_def sample_script_env_def)
  note T = lock_two_ways [OF b c n h]
  have A: "finalize_A sample_psbt_input (replicate 33 3) (replicate 33 2) = Inr [replicate 33 3, replicate 33 2, [1], [7]]"
    and B: "finalize_B sample_psbt_input (replicate 33 3) = Inr [replicate 33 3, [], [7]]"
    by code_simp+
  have tx: "locktime sample_script_env = ps_locktime (buildEmergencyTransaction sp 100000)"
    "sequence_no sample_script_env = pi_sequence (hd (ps_inputs (buildEmergencyTransaction sp 100000)))" for sp
    by (simp_all add: sample_script_env_def buildEmergencyTransaction_def spend_input_def SEQUENCE_LOCKTIME_ENABLED_def)
  have "\<not> spends sample_script_lib sample_script_env ([replicate 33 2, []] @ [[7]])"
    using T [of "[replicate 33 2, []]"] by (auto simp: sample_script_env_def replicate_eq_replicate)
  with T [of "[]"] A B tx show ?thesis by simp
qed

theorem witness_roundtrip_witness:
  "deserializeWitness [3, 2, 9, 9, 0, 1, 7] = Inr [[9, 9], [], [7]] \<and> is_ok (serializeWitness [[9, 9], [], [7]])"
proof -
  have "serializeWitness [[9, 9], [], [7]] = Inr [3, 2, 9, 9, 0, 1, 7]" by code_simp
  with witness_roundtrip [of "[[9, 9], [], [7]]"] show ?thesis by simp
qed

end
