(* ===== verification/ProtocolKey.thy ===== *)
theory ProtocolKey
  imports JsBuffer
begin

text \<open>
  \<^verbatim>\<open>bitcoin-script/src/keys.ts\<close> and \<^verbatim>\<open>message.ts\<close>: the conversion of what AWS KMS returns into the
  formats Bitcoin uses, the choice of the protocol's signer, and BIP-137 messages. KMS, the elliptic
  curve library, base64 and SHA-256 are parameters.
\<close>

section \<open>Signatures of KMS\<close>

definition SECP256K1_N :: nat where
  "SECP256K1_N = 0xFFFFFFFFFFFFFFFFFFFFFFFFFFFFFFFEBAAEDCE6AF48A03BBFD25E8CD0364141"

definition SECP256K1_N_HALF :: nat where
  "SECP256K1_N_HALF = SECP256K1_N div 2"

datatype key_error =
    BadPoint | NotSequence | NotInteger | NoBigInt | TooLarge | NoPublicKey | NoSignature
  | WifOnMainnet | BadWif | NotCompressed | NoSigner | NoP2wpkh

definition spkiToCompressedPubkey :: "buffer \<Rightarrow> key_error + buffer" where
  "spkiToCompressedPubkey spki =
     (let point = subarray_from spki (int (length spki) - 65) in
      if length point \<noteq> 65 \<or> at_opt point 0 \<noteq> Some 0x04 then Inl BadPoint
      else let x = subarray point 1 32; y = subarray point 33 32;
               pre = (if and (y ! (length y - 1)) 1 = 0 then 0x02 else 0x03)
           in Inr (pre # x))"

text \<open>
  The value and the offset after it. A missing length byte is \<^verbatim>\<open>undefined\<close>, the offset after it is not
  a number (\<^const>\<open>None\<close>) and the value is empty.
\<close>

definition readInteger :: "buffer \<Rightarrow> nat option \<Rightarrow> key_error + buffer \<times> nat option" where
  "readInteger buf offset =
     (case offset of
        None \<Rightarrow> Inl NotInteger
      | Some off \<Rightarrow>
         if at_opt buf off \<noteq> Some 0x02 then Inl NotInteger
         else case at_opt buf (off + 1) of
            None \<Rightarrow> Inr ([], None)
          | Some b \<Rightarrow>
              let len = unat b; start = off + 2; value = subarray buf start len;
                  value' = (if length value > 32 \<and> at_opt value 0 = Some 0 then drop 1 value else value)
              in Inr (value', Some (start + len)))"

definition leftPad32 :: "buffer \<Rightarrow> key_error + buffer" where
  "leftPad32 buf =
     (if length buf = 32 then Inr buf
      else if length buf > 32 then Inl TooLarge
      else Inr (replicate (32 - length buf) 0 @ buf))"

text \<open>\<^verbatim>\<open>x.toString(16)\<close>.\<close>

fun hex_nat :: "nat \<Rightarrow> string" where
  "hex_nat n = (if n < 16 then [hex_digit n] else hex_nat (n div 16) @ [hex_digit (n mod 16)])"

declare hex_nat.simps [simp del]

definition hex_int :: "int \<Rightarrow> string" where
  "hex_int x = (if x < 0 then CHR ''-'' # hex_nat (nat (- x)) else hex_nat (nat x))"

definition derEcdsaSignatureToCompactLowS :: "buffer \<Rightarrow> key_error + buffer" where
  "derEcdsaSignatureToCompactLowS der =
     (if at_opt der 0 \<noteq> Some 0x30 then Inl NotSequence
      else res_bind (readInteger der (Some 2)) (\<lambda>(r, next_r).
      res_bind (readInteger der next_r) (\<lambda>(s, _).
      if s = [] then Inl NoBigInt
      else let sBig = int (be_val s);
               low = (if sBig > int SECP256K1_N_HALF then int SECP256K1_N - sBig else sBig)
      in res_bind (leftPad32 r) (\<lambda>rb.
         res_bind (leftPad32 (bytes_of_hex (padStart 64 (CHR ''0'') (hex_int low)))) (\<lambda>sb.
         Inr (rb @ sb))))))"

section \<open>The signer\<close>

text \<open>The answers of KMS: the public key in SPKI form and the DER signature of a digest.\<close>

record kms_client =
  GetPublicKey :: "string \<Rightarrow> buffer option"
  KmsSign :: "string \<Rightarrow> buffer \<Rightarrow> buffer option"

datatype protocol_signer = KmsSigner string buffer | WifSigner string

definition kms_create :: "kms_client \<Rightarrow> string \<Rightarrow> key_error + protocol_signer" where
  "kms_create client keyId =
     (case GetPublicKey client keyId of
        None \<Rightarrow> Inl NoPublicKey
      | Some spki \<Rightarrow> res_bind (spkiToCompressedPubkey spki) (\<lambda>pub. Inr (KmsSigner keyId pub)))"

definition kms_sign :: "kms_client \<Rightarrow> string \<Rightarrow> buffer \<Rightarrow> key_error + buffer" where
  "kms_sign client keyId digest =
     (case KmsSign client keyId digest of
        None \<Rightarrow> Inl NoSignature
      | Some der \<Rightarrow> derEcdsaSignatureToCompactLowS der)"

text \<open>An unset or empty option is \<^const>\<open>None\<close>. \<open>fromWIF\<close> says whether the library accepts the key for the network.\<close>

definition resolveProtocolSigner ::
    "kms_client \<Rightarrow> (string \<Rightarrow> bool) \<Rightarrow> bool \<Rightarrow> string option \<Rightarrow> string option \<Rightarrow> key_error + protocol_signer" where
  "resolveProtocolSigner client fromWIF mainnet kmsKeyId wif =
     (case kmsKeyId of
        Some k \<Rightarrow> kms_create client k
      | None \<Rightarrow>
         (case wif of
            Some w \<Rightarrow>
              if mainnet then Inl WifOnMainnet
              else if fromWIF w then Inr (WifSigner w) else Inl BadWif
          | None \<Rightarrow> Inl NoSigner))"

text \<open>\<open>parse\<close> gives the public key of a WIF of the network and whether it encodes a compressed key.\<close>

definition keyPairFromWif :: "(string \<Rightarrow> (buffer \<times> bool) option) \<Rightarrow> string \<Rightarrow> key_error + buffer" where
  "keyPairFromWif parse wif =
     (case parse (trim wif) of
        None \<Rightarrow> Inl BadWif
      | Some (pub, compressed) \<Rightarrow> if \<not> compressed then Inl NotCompressed else Inr pub)"

definition pubkeyToP2WPKHAddress :: "(buffer \<Rightarrow> string option) \<Rightarrow> buffer \<Rightarrow> key_error + string" where
  "pubkeyToP2WPKHAddress p2wpkh pubkey =
     (case p2wpkh pubkey of None \<Rightarrow> Inl NoP2wpkh | Some a \<Rightarrow> if a = [] then Inl NoP2wpkh else Inr a)"

section \<open>Signed messages\<close>

definition MAGIC :: string where "MAGIC = ''Bitcoin Signed Message:'' @ [CHR 0x0A]"

definition message_varint :: "nat \<Rightarrow> buffer" where
  "message_varint n =
     (if n < 0xfd then [word_of_nat n]
      else if n \<le> 0xffff then 0xfd # le_bytes 2 n
      else 0xfe # le_bytes 4 n)"

text \<open>UTF-8 of a string of code units below 256.\<close>

definition utf8_char :: "char \<Rightarrow> buffer" where
  "utf8_char c = (if code c < 128 then [word_of_nat (code c)]
     else [word_of_nat (192 + code c div 64), word_of_nat (128 + code c mod 64)])"

definition utf8 :: "string \<Rightarrow> buffer" where
  "utf8 s = concat (map utf8_char s)"

definition message_frame :: "string \<Rightarrow> buffer" where
  "message_frame m = message_varint (length (utf8 MAGIC)) @ utf8 MAGIC @ message_varint (length (utf8 m)) @ utf8 m"

record curve_lib =
  hash256 :: "buffer \<Rightarrow> buffer"
  signRecoverable :: "buffer \<Rightarrow> buffer \<Rightarrow> buffer \<times> nat"
  recover :: "buffer \<Rightarrow> buffer \<Rightarrow> nat \<Rightarrow> buffer option"
  toBase64 :: "buffer \<Rightarrow> string"
  fromBase64 :: "string \<Rightarrow> buffer"

definition bitcoinMessageHash :: "curve_lib \<Rightarrow> string \<Rightarrow> buffer" where
  "bitcoinMessageHash lib m = hash256 lib (message_frame m)"

definition signBitcoinMessage :: "curve_lib \<Rightarrow> string \<Rightarrow> buffer \<Rightarrow> string" where
  "signBitcoinMessage lib m privkey =
     (let (sig, recoveryId) = signRecoverable lib (bitcoinMessageHash lib m) privkey
      in toBase64 lib (word_of_nat (39 + recoveryId) # sig))"

datatype sig_arg = SigText string | SigBytes buffer

definition recoverBitcoinMessagePubkey :: "curve_lib \<Rightarrow> string \<Rightarrow> sig_arg \<Rightarrow> buffer option" where
  "recoverBitcoinMessagePubkey lib m signature =
     (let sig = (case signature of SigText t \<Rightarrow> fromBase64 lib t | SigBytes b \<Rightarrow> b) in
      if length sig \<noteq> 65 then None
      else let header = unat (sig ! 0) in
        if header < 31 \<or> header > 42 then None
        else recover lib (bitcoinMessageHash lib m) (drop 1 sig) ((header - 27) mod 4))"

definition verifyBitcoinMessage :: "curve_lib \<Rightarrow> string \<Rightarrow> sig_arg \<Rightarrow> buffer \<Rightarrow> bool" where
  "verifyBitcoinMessage lib m signature pubkey =
     (case recoverBitcoinMessagePubkey lib m signature of
        None \<Rightarrow> False
      | Some recovered \<Rightarrow> length pubkey = 33 \<and> recovered = pubkey)"

section \<open>Lemmas\<close>

fun hex_width :: "nat \<Rightarrow> nat \<Rightarrow> string" where
  "hex_width 0 n = []"
| "hex_width (Suc w) n = hex_width w (n div 16) @ [hex_digit (n mod 16)]"

lemma hex_digit_zero: "hex_digit 0 = CHR ''0''"
  by code_simp

lemma hex_width_zero: "hex_width w 0 = replicate w (CHR ''0'')"
  by (induction w) (simp_all add: hex_digit_zero replicate_append_same)

lemma padStart_hex_nat: "0 < w \<Longrightarrow> n < 16 ^ w \<Longrightarrow> padStart w (CHR ''0'') (hex_nat n) = hex_width w n \<and> length (hex_nat n) \<le> w"
proof (induction w arbitrary: n)
  case (Suc w)
  show ?case
  proof (cases "n < 16")
    case True
    then show ?thesis by (simp add: hex_nat.simps [of n] padStart_def hex_width_zero)
  next
    case False
    with Suc.prems have "0 < w" by (cases w) auto
    moreover have "n div 16 < 16 ^ w" using Suc.prems by (simp add: less_mult_imp_div_less mult.commute)
    ultimately have "padStart w (CHR ''0'') (hex_nat (n div 16)) = hex_width w (n div 16)" "length (hex_nat (n div 16)) \<le> w"
      using Suc.IH by blast+
    with False show ?thesis by (simp add: hex_nat.simps [of n] padStart_def)
  qed
qed simp

lemma be_bytes_Suc: "be_bytes (Suc k) n = be_bytes k (n div 256) @ [word_of_nat (n mod 256)]"
  by (simp add: be_bytes_def)

lemma hex_width_bytes: "hex_width (2 * k) n = hex_of_bytes (be_bytes k n)"
proof (induction k arbitrary: n)
  case (Suc k)
  have e: "n mod 256 = 16 * (n div 16 mod 16) + n mod 16" using mod_mult2_eq [of n 16 16] by simp
  have d: "n mod 256 div 16 = n div 16 mod 16" "n mod 256 mod 16 = n mod 16" by (simp add: e, simp add: mod_mod_cancel)
  have "unat (word_of_nat (n mod 256) :: byte) = n mod 256" by (rule unat_byte_of_nat) simp
  then have "hex_of_byte (word_of_nat (n mod 256)) = [hex_digit (n div 16 mod 16), hex_digit (n mod 16)]"
    unfolding hex_of_byte_def by (simp only: d)
  moreover have "n div 16 div 16 = n div 256" by (simp add: div_mult2_eq [symmetric])
  ultimately show ?case using Suc.IH [of "n div 256"]
    by (simp add: be_bytes_Suc hex_of_bytes_Cons)
qed (simp add: be_bytes_def)

lemma hex_int_bytes: "n < 256 ^ 32 \<Longrightarrow> bytes_of_hex (padStart 64 (CHR ''0'') (hex_int (int n))) = be_bytes 32 n"
  using padStart_hex_nat [of 64 n] hex_width_bytes [of 32 n] by (simp add: hex_int_def)

lemma leftPad32_val:
  assumes "length b \<le> 32"
  shows "leftPad32 b = Inr (be_bytes 32 (be_val b))"
proof -
  have zeros: "be_val (replicate k 0 @ b) = be_val b" for k
    by (induction k) (simp_all add: be_val_def)
  have "be_bytes 32 (be_val b) = replicate (32 - length b) 0 @ b"
    using be_bytes_val [of "replicate (32 - length b) 0 @ b"] assms by (simp add: zeros)
  with assms show ?thesis by (simp add: leftPad32_def)
qed

text \<open>A DER integer as KMS sends it: at most 33 bytes, a thirty-third being the zero that keeps it positive.\<close>

definition der_integer :: "buffer \<Rightarrow> bool" where
  "der_integer b \<longleftrightarrow> b \<noteq> [] \<and> (length b \<le> 32 \<or> (length b = 33 \<and> hd b = 0))"

definition der_signature :: "buffer \<Rightarrow> buffer \<Rightarrow> buffer" where
  "der_signature rb sb = 0x30 # word_of_nat (4 + length rb + length sb)
     # 0x02 # word_of_nat (length rb) # rb @ 0x02 # word_of_nat (length sb) # sb"

lemma readInteger_der:
  assumes "der_integer b" "buf = pre @ 0x02 # word_of_nat (length b) # b @ post" "off = length pre" "nxt = off + 2 + length b"
  obtains v where "readInteger buf (Some off) = Inr (v, Some nxt)" "be_val v = be_val b" "length v \<le> 32" "v \<noteq> []"
proof -
  let ?buf = "pre @ 0x02 # word_of_nat (length b) # b @ post"
  have len: "unat (word_of_nat (length b) :: byte) = length b"
    using assms(1) by (intro unat_byte_of_nat) (auto simp: der_integer_def)
  have at: "at_opt ?buf (length pre) = Some 0x02" "at_opt ?buf (Suc (length pre)) = Some (word_of_nat (length b))"
    using at_opt_mid [of "pre @ [0x02]" "word_of_nat (length b)" "b @ post"] by simp_all
  have sub: "subarray ?buf (length pre + 2) (length b) = b"
    using subarray_mid [of b "length b" "pre @ [0x02, word_of_nat (length b)]" post] by simp
  let ?v = "if length b > 32 \<and> at_opt b 0 = Some 0 then drop 1 b else b"
  have "readInteger ?buf (Some (length pre)) = Inr (?v, Some (length pre + 2 + length b))"
    using at sub len by (simp add: readInteger_def Let_def)
  moreover have "be_val ?v = be_val b \<and> length ?v \<le> 32 \<and> ?v \<noteq> []"
    using assms(1) by (cases b) (auto simp: der_integer_def at_opt_def be_val_def)
  ultimately show ?thesis using that unfolding assms(2-4) by blast
qed

lemma min_half: "min x (n - x) \<le> n div (2 :: nat)"
  unfolding min_def by (split if_split) presburger

lemma low_s_correct:
  assumes "s \<le> SECP256K1_N"
  shows "(if int s > int SECP256K1_N_HALF then int SECP256K1_N - int s else int s) = int (min s (SECP256K1_N - s))"
  using assms by (auto simp: SECP256K1_N_HALF_def SECP256K1_N_def)

section \<open>Properties\<close>

text \<open>A DER signature of KMS becomes the sixty-four bytes Bitcoin expects: \<open>r\<close> and the low form of
  \<open>s\<close>, which is at most half the curve's order, each on thirty-two bytes.\<close>

theorem kms_signature_low_s:
  assumes "der_integer rb" "der_integer sb" "be_val sb \<le> SECP256K1_N"
  shows "derEcdsaSignatureToCompactLowS (der_signature rb sb)
      = Inr (be_bytes 32 (be_val rb) @ be_bytes 32 (min (be_val sb) (SECP256K1_N - be_val sb)))
    \<and> min (be_val sb) (SECP256K1_N - be_val sb) \<le> SECP256K1_N div 2"
proof -
  let ?s = "be_val sb"
  let ?low = "min ?s (SECP256K1_N - ?s)"
  let ?der = "der_signature rb sb"
  let ?pre = "[0x30, word_of_nat (4 + length rb + length sb)] :: buffer"
  have der: "?der = ?pre @ 0x02 # word_of_nat (length rb) # rb @ (0x02 # word_of_nat (length sb) # sb)"
    by (simp add: der_signature_def)
  obtain v where v: "readInteger ?der (Some 2) = Inr (v, Some (4 + length rb))" "be_val v = be_val rb" "length v \<le> 32"
    by (rule readInteger_der [OF assms(1) der, of 2 "4 + length rb"]) simp_all
  have der2: "?der = (?pre @ 0x02 # word_of_nat (length rb) # rb) @ 0x02 # word_of_nat (length sb) # sb @ []"
    by (simp add: der_signature_def)
  obtain w where w: "readInteger ?der (Some (4 + length rb)) = Inr (w, Some (6 + length rb + length sb))" "be_val w = ?s" "w \<noteq> []"
    by (rule readInteger_der [OF assms(2) der2, of "4 + length rb" "6 + length rb + length sb"]) simp_all
  have first: "at_opt ?der 0 = Some 0x30" by (simp add: der at_opt_def)
  have "?low \<le> SECP256K1_N" by simp
  also have "SECP256K1_N < 256 ^ 32" by (simp add: SECP256K1_N_def)
  finally have small: "?low < 256 ^ 32" .
  have "leftPad32 (be_bytes 32 ?low) = Inr (be_bytes 32 ?low)" by (simp add: leftPad32_def)
  moreover have "leftPad32 v = Inr (be_bytes 32 (be_val rb))" using leftPad32_val [OF v(3)] v(2) by simp
  moreover have "bytes_of_hex (padStart 64 (CHR ''0'') (hex_int (if int ?s > int SECP256K1_N_HALF then int SECP256K1_N - int ?s else int ?s)))
      = be_bytes 32 ?low"
    unfolding low_s_correct [OF assms(3)] by (rule hex_int_bytes [OF small])
  ultimately have "derEcdsaSignatureToCompactLowS ?der = Inr (be_bytes 32 (be_val rb) @ be_bytes 32 ?low)"
    unfolding derEcdsaSignatureToCompactLowS_def Let_def using first v(1) w
    by (cases "SECP256K1_N_HALF < ?s") simp_all
  moreover have "?low \<le> SECP256K1_N div 2" by (rule min_half)
  ultimately show ?thesis by blast
qed

theorem kms_signature_low_s_witness:
  "derEcdsaSignatureToCompactLowS (der_signature [5] [9]) = Inr (be_bytes 32 5 @ be_bytes 32 9)"
proof -
  have d: "der_integer [5]" "der_integer [9]" "be_val [9] \<le> SECP256K1_N"
    by (simp_all add: der_integer_def be_val_def SECP256K1_N_def)
  have "min (be_val [9]) (SECP256K1_N - be_val [9]) = 9" "be_val [5] = 5"
    by (simp_all add: be_val_def SECP256K1_N_def)
  with kms_signature_low_s [OF d] show ?thesis by simp
qed

text \<open>A raw private key never signs on mainnet, and a configured KMS key is never replaced by one.\<close>

lemma no_wif_on_mainnet:
  "resolveProtocolSigner client fromWIF mainnet kmsKeyId wif = Inr (WifSigner w) \<Longrightarrow>
     \<not> mainnet \<and> kmsKeyId = None \<and> wif = Some w \<and> fromWIF w"
  by (auto simp: resolveProtocolSigner_def kms_create_def res_simps split: option.splits if_splits)

text \<open>A signed message verifies for the signer's key, given that recovery undoes signing.\<close>

lemma message_verifies:
  assumes "signRecoverable lib (bitcoinMessageHash lib m) priv = (sig, n)" "length sig = 64" "n < 4"
    "recover lib (bitcoinMessageHash lib m) sig n = Some pub" "length pub = 33" "\<And>b. fromBase64 lib (toBase64 lib b) = b"
  shows "verifyBitcoinMessage lib m (SigText (signBitcoinMessage lib m priv)) pub"
proof -
  have h: "unat (word_of_nat (39 + n) :: byte) = 39 + n" using assms(3) by (intro unat_byte_of_nat) simp
  have "39 + n - 27 = n + 3 * 4" by simp
  then have "(39 + n - 27) mod 4 = n" using assms(3) by (simp only: mod_mult_self1 mod_less)
  with h have "(unat (word_of_nat (39 + n) :: byte) - 27) mod 4 = n" by (simp only:)
  with h show ?thesis
    using assms by (simp add: verifyBitcoinMessage_def recoverBitcoinMessagePubkey_def signBitcoinMessage_def Let_def
      del: of_nat_add)
qed

end
