(* ===== verification/RepayHandler.thy ===== *)
theory RepayHandler
  imports Releases SpvProof LockScript ProtocolKey
begin

text \<open>
  \<^verbatim>\<open>relayer/src/repay-watcher/handler.ts\<close>: the release of one repaid position, built from the contract's
  record of the position and the funding transaction, co-signed and published; and one turn of the
  watcher's loop. The contract, Esplora, the signature of an input and the publication are parameters.
\<close>

section \<open>The handler\<close>

record position =
  po_user_pubkey :: buffer
  po_timelock :: int
  po_script :: buffer
  po_sats :: int

record handler_deps =
  hd_get_position :: "buffer \<Rightarrow> string + position option"
  hd_get_release :: "buffer \<Rightarrow> string + buffer option"
  hd_getRawTx :: "string \<Rightarrow> string + string"
  hd_signerKey :: buffer
  hd_sign :: "psbt \<Rightarrow> string + buffer"  \<comment> \<open>the signer's signature of input 0\<close>
  hd_publish :: "buffer \<Rightarrow> psbt \<Rightarrow> string + unit"
  hd_lib :: script_lib
  hd_p2wpkh :: "buffer \<Rightarrow> string option"
  hd_feeSat :: int

datatype handler_error =
    CallFailed string
  | UnknownPosition
  | LockFailed lock_error
  | ScriptMismatch
  | FundingTx tx_error
  | NoRecipient key_error

fun err_map :: "('e \<Rightarrow> 'f) \<Rightarrow> 'e + 'a \<Rightarrow> 'f + 'a" where
  "err_map f (Inl e) = Inl (f e)"
| "err_map f (Inr a) = Inr a"

lemma err_map_Inr [simp]: "err_map f r = Inr a \<longleftrightarrow> r = Inr a"
  by (cases r) auto

text \<open>\<^verbatim>\<open>psbt.signInputAsync(0, signer)\<close> adds the signature under the signer's key.\<close>

definition add_sig :: "buffer \<Rightarrow> buffer \<Rightarrow> psbt_input \<Rightarrow> psbt_input" where
  "add_sig key sig i = i\<lparr>pi_partialSig := pi_partialSig i @ [(key, sig)]\<rparr>"

definition signInput0 :: "handler_deps \<Rightarrow> psbt \<Rightarrow> handler_error + psbt" where
  "signInput0 d p = res_bind (err_map CallFailed (hd_sign d p)) (\<lambda>sig.
     Inr (p\<lparr>ps_inputs := (case ps_inputs p of [] \<Rightarrow> [] | i # is \<Rightarrow> add_sig (hd_signerKey d) sig i # is)\<rparr>))"

text \<open>The release of a position: \<^const>\<open>None\<close> when the contract already holds it.\<close>

definition release_psbt :: "handler_deps \<Rightarrow> buffer \<Rightarrow> handler_error + psbt option" where
  "release_psbt d txidInternal =
     res_bind (err_map CallFailed (hd_get_position d txidInternal)) (\<lambda>found.
     case found of None \<Rightarrow> Inl UnknownPosition | Some posn \<Rightarrow>
     res_bind (err_map CallFailed (hd_get_release d txidInternal)) (\<lambda>already.
     if already \<noteq> None then Inr None else
     let txidDisplay = reverseHex (hex_of_bytes txidInternal) in
     res_bind (err_map LockFailed (deriveDepositAddress (hd_lib d)
         \<lparr>lp_protocol = hd_signerKey d, lp_user = po_user_pubkey posn, lp_timelock = po_timelock posn\<rparr>)) (\<lambda>deposit.
     if da_scriptPubKey deposit \<noteq> po_script posn then Inl ScriptMismatch else
     res_bind (err_map CallFailed (hd_getRawTx d txidDisplay)) (\<lambda>rawTxFull.
     res_bind (err_map FundingTx (findOutputIndex rawTxFull (hex_of_bytes (po_script posn)))) (\<lambda>vout.
     res_bind (err_map NoRecipient (pubkeyToP2WPKHAddress (hd_p2wpkh d) (po_user_pubkey posn))) (\<lambda>recipient.
     res_bind (signInput0 d (buildReleaseTransaction
         \<lparr>sp_txidHex = txidDisplay, sp_vout = vout, sp_amountSat = po_sats posn, sp_scriptPubKey = da_scriptPubKey deposit,
          sp_redeemScript = da_redeemScript deposit, sp_recipientAddress = recipient, sp_feeSat = hd_feeSat d\<rparr>)) (\<lambda>psbt.
     Inr (Some psbt))))))))"

definition handleRepayFull :: "handler_deps \<Rightarrow> buffer \<Rightarrow> handler_error + unit" where
  "handleRepayFull d txidInternal = res_bind (release_psbt d txidInternal) (\<lambda>r.
     case r of None \<Rightarrow> Inr () | Some psbt \<Rightarrow> err_map CallFailed (hd_publish d txidInternal psbt))"

definition isReleasePublished :: "handler_deps \<Rightarrow> buffer \<Rightarrow> string + bool" where
  "isReleasePublished d txidInternal = res_bind (hd_get_release d txidInternal) (\<lambda>r. Inr (r \<noteq> None))"

section \<open>The loop\<close>

text \<open>
  One turn: the signer is resolved once, a failed poll is reported and skips the sweep.
\<close>

definition repay_iteration ::
    "sweep_env \<Rightarrow> string \<Rightarrow> ('ev \<Rightarrow> string option \<times> string option) \<Rightarrow> string option \<Rightarrow> (events_request \<Rightarrow> string + 'ev page)
     \<Rightarrow> nat option \<Rightarrow> int \<Rightarrow> watcher \<Rightarrow> watcher \<times> (poll_error + string) option" where
  "repay_iteration env contract decode signerError getEvents deployLedger t w =
     (case signerError of
        Some m \<Rightarrow> (w, Some (Inr m))
      | None \<Rightarrow>
         (case runPollCycle decode getEvents contract deployLedger t (w_db w) of
            (db, Inl e) \<Rightarrow> (w\<lparr>w_db := db\<rparr>, Some (Inl e))
          | (db, Inr _) \<Rightarrow> (runReleaseSweep env contract (w\<lparr>w_db := db\<rparr>), None)))"

lemma repay_iteration_steps:
  assumes "\<And>req p. getEvents req = Inr p \<Longrightarrow> serves idof chain req p" "dl = None \<or> dl = Some deploy"
  shows "(watch_step env contract decode idof chain deploy)\<^sup>*\<^sup>* w (fst (repay_iteration env contract decode signerError getEvents dl t w))"
proof (cases signerError)
  case None
  obtain db r where poll: "runPollCycle decode getEvents contract dl t (w_db w) = (db, r)" by fastforce
  have "watch_step env contract decode idof chain deploy w (w\<lparr>w_db := db\<rparr>)"
  proof -
    have "watch_step env contract decode idof chain deploy w
        (w\<lparr>w_db := fst (runPollCycle decode getEvents contract dl t (w_db w))\<rparr>)"
      by (rule watch_step.poll) (fact assms)+
    with poll show ?thesis by simp
  qed
  moreover have "watch_step env contract decode idof chain deploy (w\<lparr>w_db := db\<rparr>) (runReleaseSweep env contract (w\<lparr>w_db := db\<rparr>))"
    by (rule watch_step.sweep)
  ultimately show ?thesis
    using None poll by (cases r) (auto simp: repay_iteration_def intro: rtranclp.rtrancl_into_rtrancl)
qed (simp add: repay_iteration_def)

section \<open>What is published\<close>

lemma derived_script:
  "deriveDepositAddress lib params = Inr dep \<Longrightarrow>
   buildRedeemScript lib (lp_protocol params) (lp_user params) (lp_timelock params) = Inr (da_redeemScript dep)
   \<and> snd (p2wsh lib (da_redeemScript dep)) = Some (da_scriptPubKey dep)"
  by (cases "buildRedeemScript lib (lp_protocol params) (lp_user params) (lp_timelock params)"; cases "p2wsh lib (projr (buildRedeemScript lib (lp_protocol params) (lp_user params) (lp_timelock params)))")
    (auto simp: deriveDepositAddress_def split: option.splits if_splits)

lemma release_psbt_cases:
  assumes "release_psbt d txidInternal = Inr (Some psbt)"
  obtains posn script raw vout addr sig i where "hd_get_position d txidInternal = Inr (Some posn)" "hd_get_release d txidInternal = Inr None"
    "buildRedeemScript (hd_lib d) (hd_signerKey d) (po_user_pubkey posn) (po_timelock posn) = Inr script"
    "snd (p2wsh (hd_lib d) script) = Some (po_script posn)"
    "hd_getRawTx d (reverseHex (hex_of_bytes txidInternal)) = Inr raw" "findOutputIndex raw (hex_of_bytes (po_script posn)) = Inr vout"
    "i = spend_input \<lparr>sp_txidHex = reverseHex (hex_of_bytes txidInternal), sp_vout = vout, sp_amountSat = po_sats posn, sp_scriptPubKey = po_script posn,
          sp_redeemScript = script, sp_recipientAddress = addr, sp_feeSat = hd_feeSat d\<rparr> 0xfffffffe"
    "hd_sign d \<lparr>ps_locktime = 0, ps_inputs = [i], ps_outputs = [(addr, po_sats posn - hd_feeSat d)]\<rparr> = Inr sig"
    "hd_p2wpkh d (po_user_pubkey posn) = Some addr"
    "psbt = \<lparr>ps_locktime = 0, ps_inputs = [add_sig (hd_signerKey d) sig i], ps_outputs = [(addr, po_sats posn - hd_feeSat d)]\<rparr>"
proof -
  from assms obtain posn where posn: "hd_get_position d txidInternal = Inr (Some posn)" "hd_get_release d txidInternal = Inr None"
    by (auto simp: release_psbt_def res_simps split: option.splits if_splits)
  with assms obtain dep raw vout addr where dep:
    "deriveDepositAddress (hd_lib d) \<lparr>lp_protocol = hd_signerKey d, lp_user = po_user_pubkey posn, lp_timelock = po_timelock posn\<rparr> = Inr dep"
    "da_scriptPubKey dep = po_script posn" "hd_getRawTx d (reverseHex (hex_of_bytes txidInternal)) = Inr raw"
    "findOutputIndex raw (hex_of_bytes (po_script posn)) = Inr vout" "hd_p2wpkh d (po_user_pubkey posn) = Some addr"
    "signInput0 d (buildReleaseTransaction
         \<lparr>sp_txidHex = reverseHex (hex_of_bytes txidInternal), sp_vout = vout, sp_amountSat = po_sats posn, sp_scriptPubKey = po_script posn,
          sp_redeemScript = da_redeemScript dep, sp_recipientAddress = addr, sp_feeSat = hd_feeSat d\<rparr>) = Inr psbt"
    by (auto simp: release_psbt_def res_simps Let_def pubkeyToP2WPKHAddress_def simp del: reverseHex_hex split: option.splits if_splits)
  from dep(6) obtain sig where sig: "hd_sign d \<lparr>ps_locktime = 0, ps_inputs = [spend_input
         \<lparr>sp_txidHex = reverseHex (hex_of_bytes txidInternal), sp_vout = vout, sp_amountSat = po_sats posn, sp_scriptPubKey = po_script posn,
          sp_redeemScript = da_redeemScript dep, sp_recipientAddress = addr, sp_feeSat = hd_feeSat d\<rparr> 0xfffffffe],
         ps_outputs = [(addr, po_sats posn - hd_feeSat d)]\<rparr> = Inr sig"
    "psbt = \<lparr>ps_locktime = 0, ps_inputs = [add_sig (hd_signerKey d) sig (spend_input
         \<lparr>sp_txidHex = reverseHex (hex_of_bytes txidInternal), sp_vout = vout, sp_amountSat = po_sats posn, sp_scriptPubKey = po_script posn,
          sp_redeemScript = da_redeemScript dep, sp_recipientAddress = addr, sp_feeSat = hd_feeSat d\<rparr> 0xfffffffe)],
         ps_outputs = [(addr, po_sats posn - hd_feeSat d)]\<rparr>"
    by (auto simp: signInput0_def res_simps buildReleaseTransaction_def simp del: reverseHex_hex)
  from derived_script [OF dep(1)] dep(2) have "buildRedeemScript (hd_lib d) (hd_signerKey d) (po_user_pubkey posn) (po_timelock posn) = Inr (da_redeemScript dep)"
    "snd (p2wsh (hd_lib d) (da_redeemScript dep)) = Some (po_script posn)" by simp_all
  from that [OF posn this dep(3, 4) refl sig(1) dep(5) sig(2)] show ?thesis .
qed

text \<open>C5. The published release is one the user can finish alone. When the handler publishes a PSBT, it spends
  an output of the funding transaction whose script is the position's, for the position's amount, and pays
  all of it less the fee to the user's own address; and the witness that \<^verbatim>\<open>finalizePathA\<close> assembles once the
  user's signature is added spends that output's script, whatever the height.\<close>

theorem published_release_spendable:
  assumes psbt: "release_psbt d txidInternal = Inr (Some psbt)"
    and posn: "hd_get_position d txidInternal = Inr (Some posn)"
    and tx: "hd_getRawTx d (reverseHex (hex_of_bytes txidInternal)) \<in> {Inr (hex_of_bytes (enc_segwit t)), Inr (hex_of_bytes (enc_legacy t))}" "wf_tx t"
    and sign: "\<And>p s. hd_sign d p = Inr s \<Longrightarrow> psbt = p\<lparr>ps_inputs := map (add_sig (hd_signerKey d) s) (ps_inputs p)\<rparr> \<Longrightarrow>
        chk senv s (hd_signerKey d)"
    and codec: "items = redeem_items (hd_lib d) (hd_signerKey d) (po_user_pubkey posn) (po_timelock posn)"
      "decompile (hd_lib d) (compile (hd_lib d) items) = Some items"
    and user: "chk senv us (po_user_pubkey posn)"
  shows "\<exists>i addr w. ps_inputs psbt = [i] \<and> pi_hash i = reverseHex (hex_of_bytes txidInternal)
    \<and> pi_index i < length (tx_outs t) \<and> scriptPubKey (tx_outs t ! pi_index i) = po_script posn \<and> pi_script i = po_script posn
    \<and> pi_value i = po_sats posn
    \<and> hd_p2wpkh d (po_user_pubkey posn) = Some addr \<and> ps_outputs psbt = [(addr, po_sats posn - hd_feeSat d)]
    \<and> finalize_A (add_sig (po_user_pubkey posn) us i) (po_user_pubkey posn) (hd_signerKey d) = Inr w
    \<and> spends (hd_lib d) senv w \<and> snd (p2wsh (hd_lib d) (last w)) = Some (po_script posn)"
proof -
  from psbt posn obtain script raw vout addr sig i where r:
    "buildRedeemScript (hd_lib d) (hd_signerKey d) (po_user_pubkey posn) (po_timelock posn) = Inr script"
    "snd (p2wsh (hd_lib d) script) = Some (po_script posn)"
    "hd_getRawTx d (reverseHex (hex_of_bytes txidInternal)) = Inr raw" "findOutputIndex raw (hex_of_bytes (po_script posn)) = Inr vout"
    "i = spend_input \<lparr>sp_txidHex = reverseHex (hex_of_bytes txidInternal), sp_vout = vout, sp_amountSat = po_sats posn, sp_scriptPubKey = po_script posn,
          sp_redeemScript = script, sp_recipientAddress = addr, sp_feeSat = hd_feeSat d\<rparr> 0xfffffffe"
    "hd_sign d \<lparr>ps_locktime = 0, ps_inputs = [i], ps_outputs = [(addr, po_sats posn - hd_feeSat d)]\<rparr> = Inr sig"
    "hd_p2wpkh d (po_user_pubkey posn) = Some addr"
    "psbt = \<lparr>ps_locktime = 0, ps_inputs = [add_sig (hd_signerKey d) sig i], ps_outputs = [(addr, po_sats posn - hd_feeSat d)]\<rparr>"
    by (elim release_psbt_cases) simp
  let ?u = "po_user_pubkey posn" and ?p = "hd_signerKey d"
  have "raw \<in> {hex_of_bytes (enc_segwit t), hex_of_bytes (enc_legacy t)}" using tx(1) r(3) by auto
  from findOutputIndex_spec [OF tx(2) this, of "po_script posn"] r(4)
  have "find (\<lambda>k. scriptPubKey (tx_outs t ! k) = po_script posn) [0..<min 64 (length (tx_outs t))] = Some vout"
    by (simp split: option.splits)
  then have vout: "vout < length (tx_outs t)" "scriptPubKey (tx_outs t ! vout) = po_script posn"
    by (auto simp: find_Some_iff)
  have dec: "decompile (hd_lib d) script = Some (redeem_items (hd_lib d) ?p ?u (po_timelock posn))"
    using r(1) codec by (auto simp: buildRedeemScript_def split: if_splits)
  define i' where "i' = add_sig ?u us (add_sig ?p sig i)"
  have sigs: "pi_partialSig i' = [(?p, sig), (?u, us)]" "pi_witnessScript i' = Some script"
    by (simp_all add: i'_def add_sig_def r(5) spend_input_def)
  have sig: "chk senv sig ?p" by (rule sign [OF r(6)]) (simp add: r(8))
  obtain s where s: "sig_of i' ?u = Some s" "chk senv s ?u"
    using user sig by (cases "?p = ?u") (auto simp: sig_of_def sigs)
  have w: "finalize_A i' ?u ?p = Inr ([s, sig, [1]] @ [script])"
    using s(1) by (simp add: finalize_A_def sigs) (simp add: sig_of_def sigs)
  moreover have "spends (hd_lib d) senv ([s, sig, [1]] @ [script])"
    by (rule spends_iff [OF dec, THEN iffD2]) (use s(2) sig in simp)
  ultimately show ?thesis
    using vout r(2, 7, 8) unfolding i'_def
    by (intro exI [of _ "add_sig ?p sig i"] exI [of _ addr] exI [of _ "[s, sig, [1]] @ [script]"])
      (simp add: add_sig_def r(5) spend_input_def)
qed

text \<open>A position on the second output of the sample transaction.\<close>

definition ex_deps :: handler_deps where
  "ex_deps = \<lparr>hd_get_position = (\<lambda>_. Inr (Some \<lparr>po_user_pubkey = replicate 33 3, po_timelock = 100000, po_script = [0, 2, 9, 9], po_sats = 50000\<rparr>)),
     hd_get_release = (\<lambda>_. Inr None), hd_getRawTx = (\<lambda>_. Inr (hex_of_bytes (enc_segwit sample_tx))), hd_signerKey = replicate 33 2,
     hd_sign = (\<lambda>_. Inr (replicate 33 2)), hd_publish = (\<lambda>_ _. Inr ()),
     hd_lib = \<lparr>compile = (\<lambda>_. [7]),
       decompile = (\<lambda>b. Some [Op OP_IF, Push (replicate 33 2), Op OP_CHECKSIGVERIFY, Push (replicate 33 3), Op OP_CHECKSIG, Op OP_ELSE,
         Push [0xa0, 0x86, 0x01], Op OP_CLTV, Op OP_DROP, Push (replicate 33 3), Op OP_CHECKSIG, Op OP_ENDIF]),
       number_encode = (\<lambda>_. [0xa0, 0x86, 0x01]), p2wsh = (\<lambda>_. (Some ''tb1q'', Some [0, 2, 9, 9])), sha256 = (\<lambda>b. b)\<rparr>,
     hd_p2wpkh = (\<lambda>_. Some ''tb1quser''), hd_feeSat = 500\<rparr>"

lemma ex_release: "\<exists>psbt. release_psbt ex_deps [1, 2] = Inr (Some psbt)"
proof -
  have "findOutputIndex (hex_of_bytes (enc_segwit sample_tx)) (hex_of_bytes [0, 2, 9, 9]) = Inr 1"
    using findOutputIndex_spec [OF wf_sample_tx, of "hex_of_bytes (enc_segwit sample_tx)" "[0, 2, 9, 9]"]
    by (simp add: sample_tx_def upt_rec)
  then show ?thesis
    by (simp add: release_psbt_def ex_deps_def Let_def deriveDepositAddress_def buildRedeemScript_def MIN_TIMELOCK_HEIGHT_def
        pubkeyToP2WPKHAddress_def signInput0_def)
qed

theorem published_release_spendable_witness:
  "\<exists>psbt i w. release_psbt ex_deps [1, 2] = Inr (Some psbt) \<and> ps_inputs psbt = [i] \<and> pi_index i < 2
    \<and> finalize_A (add_sig (replicate 33 3) (replicate 33 3) i) (replicate 33 3) (replicate 33 2) = Inr w
    \<and> spends (hd_lib ex_deps) sample_script_env w"
proof -
  obtain psbt where psbt: "release_psbt ex_deps [1, 2] = Inr (Some psbt)" using ex_release by blast
  let ?posn = "\<lparr>po_user_pubkey = replicate 33 3, po_timelock = 100000, po_script = [0, 2, 9, 9], po_sats = 50000\<rparr> :: position"
  have p: "hd_get_position ex_deps [1, 2] = Inr (Some ?posn)" by (simp add: ex_deps_def)
  have "\<exists>i addr w. ps_inputs psbt = [i] \<and> pi_hash i = reverseHex (hex_of_bytes [1, 2])
    \<and> pi_index i < length (tx_outs sample_tx) \<and> scriptPubKey (tx_outs sample_tx ! pi_index i) = po_script ?posn \<and> pi_script i = po_script ?posn
    \<and> pi_value i = po_sats ?posn
    \<and> hd_p2wpkh ex_deps (po_user_pubkey ?posn) = Some addr \<and> ps_outputs psbt = [(addr, po_sats ?posn - hd_feeSat ex_deps)]
    \<and> finalize_A (add_sig (po_user_pubkey ?posn) (replicate 33 3) i) (po_user_pubkey ?posn) (hd_signerKey ex_deps) = Inr w
    \<and> spends (hd_lib ex_deps) sample_script_env w \<and> snd (p2wsh (hd_lib ex_deps) (last w)) = Some (po_script ?posn)"
  proof (rule published_release_spendable [OF psbt p _ wf_sample_tx _ refl])
    show "decompile (hd_lib ex_deps) (compile (hd_lib ex_deps) (redeem_items (hd_lib ex_deps) (hd_signerKey ex_deps) (po_user_pubkey ?posn) (po_timelock ?posn)))
        = Some (redeem_items (hd_lib ex_deps) (hd_signerKey ex_deps) (po_user_pubkey ?posn) (po_timelock ?posn))"
      by (simp add: ex_deps_def redeem_items_def)
  qed (simp_all add: ex_deps_def sample_script_env_def)
  then show ?thesis using psbt by (auto simp: ex_deps_def sample_tx_def)
qed

end
