(* ===== verification/Json.thy ===== *)
theory Json
  imports JsText
begin

text \<open>
  \<^verbatim>\<open>JSON.stringify\<close> and \<^verbatim>\<open>JSON.parse\<close>, as the components that store and exchange text use them: all
  values, numbers restricted to integers (a literal with a fraction or an exponent, and a \<^verbatim>\<open>\u\<close> escape
  past \<^verbatim>\<open>00FF\<close>, are outside the model and do not parse). Parsing a stringified value gives it back.
\<close>

datatype json =
    JNull
  | JBool bool
  | JNum int
  | JStr string
  | JArr "json list"
  | JObj "(string \<times> json) list"

section \<open>JSON.stringify\<close>

definition int_str :: "int \<Rightarrow> string" where
  "int_str i = (if i < 0 then CHR ''-'' # dec_str (nat (- i)) else dec_str (nat i))"

definition escape :: "char \<Rightarrow> string" where
  "escape c =
     (if c = CHR 0x22 \<or> c = CHR 0x5C then [CHR 0x5C, c]
      else if c = CHR 0x08 then [CHR 0x5C, CHR ''b'']
      else if c = CHR 0x09 then [CHR 0x5C, CHR ''t'']
      else if c = CHR 0x0A then [CHR 0x5C, CHR ''n'']
      else if c = CHR 0x0C then [CHR 0x5C, CHR ''f'']
      else if c = CHR 0x0D then [CHR 0x5C, CHR ''r'']
      else if code c < 32 then [CHR 0x5C, CHR ''u'', CHR ''0'', CHR ''0'', hex_digit (code c div 16), hex_digit (code c mod 16)]
      else [c])"

definition quote :: "string \<Rightarrow> string" where
  "quote s = CHR 0x22 # concat (map escape s) @ [CHR 0x22]"

fun join :: "string \<Rightarrow> string list \<Rightarrow> string" where
  "join sep [] = []"
| "join sep [x] = x"
| "join sep (x # y # xs) = x @ sep @ join sep (y # xs)"

fun stringify :: "json \<Rightarrow> string" where
  "stringify JNull = ''null''"
| "stringify (JBool b) = (if b then ''true'' else ''false'')"
| "stringify (JNum i) = int_str i"
| "stringify (JStr s) = quote s"
| "stringify (JArr xs) = ''['' @ join '','' (map stringify xs) @ '']''"
| "stringify (JObj kvs) = ''{'' @ join '','' (map (\<lambda>(k, v). quote k @ '':'' @ stringify v) kvs) @ ''}''"

section \<open>JSON.parse\<close>

definition json_ws :: "char \<Rightarrow> bool" where
  "json_ws c \<longleftrightarrow> c \<in> {CHR '' '', CHR 0x09, CHR 0x0A, CHR 0x0D}"

definition skip_ws :: "string \<Rightarrow> string" where
  "skip_ws s = dropWhile json_ws s"

definition unescape :: "char \<Rightarrow> char option" where
  "unescape e =
     (if e = CHR 0x22 \<or> e = CHR 0x5C \<or> e = CHR ''/'' then Some e
      else if e = CHR ''b'' then Some (CHR 0x08)
      else if e = CHR ''t'' then Some (CHR 0x09)
      else if e = CHR ''n'' then Some (CHR 0x0A)
      else if e = CHR ''f'' then Some (CHR 0x0C)
      else if e = CHR ''r'' then Some (CHR 0x0D)
      else None)"

definition hex4 :: "string \<Rightarrow> char option" where
  "hex4 ds = (case map hex_val ds of
     [Some a, Some b, Some c, Some d] \<Rightarrow> if a = 0 \<and> b = 0 then Some (char_of (16 * c + d)) else None
   | _ \<Rightarrow> None)"

text \<open>The body of a string, after its opening quote.\<close>

fun parse_chars :: "string \<Rightarrow> (string \<times> string) option" where
  "parse_chars [] = None"
| "parse_chars (c # s) =
     (if c = CHR 0x22 then Some ([], s)
      else if c = CHR 0x5C then
        (case s of
           [] \<Rightarrow> None
         | e # s' \<Rightarrow>
             if e = CHR ''u'' then
               (case hex4 (take 4 s') of
                  None \<Rightarrow> None
                | Some x \<Rightarrow> map_option (apfst (Cons x)) (parse_chars (drop 4 s')))
             else
               (case unescape e of None \<Rightarrow> None | Some x \<Rightarrow> map_option (apfst (Cons x)) (parse_chars s')))
      else if code c < 32 then None
      else map_option (apfst (Cons c)) (parse_chars s))"

definition is_num_char :: "char \<Rightarrow> bool" where
  "is_num_char c \<longleftrightarrow> is_digit c \<or> c \<in> {CHR ''-'', CHR ''+'', CHR ''.'', CHR ''e'', CHR ''E''}"

definition nat_literal :: "string \<Rightarrow> nat option" where
  "nat_literal s = (if s \<noteq> [] \<and> list_all is_digit s \<and> (hd s = CHR ''0'' \<longrightarrow> length s = 1) then Some (dec_val s) else None)"

definition int_literal :: "string \<Rightarrow> int option" where
  "int_literal s = (case s of
     c # t \<Rightarrow> if c = CHR ''-'' then map_option (\<lambda>n. - int n) (nat_literal t) else map_option int (nat_literal s)
   | [] \<Rightarrow> None)"

text \<open>\<open>n\<close> bounds the depth of the calls; \<open>JSON_parse\<close> gives enough of it.\<close>

fun parse_value :: "nat \<Rightarrow> string \<Rightarrow> (json \<times> string) option"
  and parse_members :: "nat \<Rightarrow> string \<Rightarrow> (string \<times> json) list \<Rightarrow> (json \<times> string) option"
  and parse_items :: "nat \<Rightarrow> string \<Rightarrow> json list \<Rightarrow> (json \<times> string) option" where
  "parse_value 0 s = None"
| "parse_value (Suc n) s =
     (case skip_ws s of
        [] \<Rightarrow> None
      | c # r \<Rightarrow>
          if c = CHR 0x22 then map_option (apfst JStr) (parse_chars r)
          else if c = CHR ''{'' then
            (if skip_ws r \<noteq> [] \<and> hd (skip_ws r) = CHR ''}'' then Some (JObj [], tl (skip_ws r)) else parse_members n r [])
          else if c = CHR ''['' then
            (if skip_ws r \<noteq> [] \<and> hd (skip_ws r) = CHR '']'' then Some (JArr [], tl (skip_ws r)) else parse_items n r [])
          else if startsWith ''null'' (c # r) then Some (JNull, drop 4 (c # r))
          else if startsWith ''true'' (c # r) then Some (JBool True, drop 4 (c # r))
          else if startsWith ''false'' (c # r) then Some (JBool False, drop 5 (c # r))
          else
            map_option (\<lambda>i. (JNum i, dropWhile is_num_char (c # r))) (int_literal (takeWhile is_num_char (c # r))))"
| "parse_members 0 s acc = None"
| "parse_members (Suc n) s acc =
     (case skip_ws s of
        [] \<Rightarrow> None
      | c # r \<Rightarrow>
          if c \<noteq> CHR 0x22 then None else
          (case parse_chars r of
             None \<Rightarrow> None
           | Some (k, r1) \<Rightarrow>
               (case skip_ws r1 of
                  [] \<Rightarrow> None
                | d # r2 \<Rightarrow>
                    if d \<noteq> CHR '':'' then None else
                    (case parse_value n r2 of
                       None \<Rightarrow> None
                     | Some (v, r3) \<Rightarrow>
                         (case skip_ws r3 of
                            [] \<Rightarrow> None
                          | e # r4 \<Rightarrow>
                              if e = CHR ''}'' then Some (JObj (js_set k v acc), r4)
                              else if e = CHR '','' then parse_members n r4 (js_set k v acc)
                              else None)))))"
| "parse_items 0 s acc = None"
| "parse_items (Suc n) s acc =
     (case parse_value n s of
        None \<Rightarrow> None
      | Some (v, r3) \<Rightarrow>
          (case skip_ws r3 of
             [] \<Rightarrow> None
           | e # r4 \<Rightarrow>
               if e = CHR '']'' then Some (JArr (acc @ [v]), r4)
               else if e = CHR '','' then parse_items n r4 (acc @ [v])
               else None))"

definition JSON_parse :: "string \<Rightarrow> json option" where
  "JSON_parse s = (case parse_value (Suc (length s)) s of
     Some (v, rest) \<Rightarrow> if skip_ws rest = [] then Some v else None
   | None \<Rightarrow> None)"

section \<open>Round trip\<close>

text \<open>No object has a key twice.\<close>

fun json_ok :: "json \<Rightarrow> bool" where
  "json_ok (JArr xs) \<longleftrightarrow> list_all json_ok xs"
| "json_ok (JObj kvs) \<longleftrightarrow> distinct (map fst kvs) \<and> list_all (\<lambda>(k, v). json_ok v) kvs"
| "json_ok _ \<longleftrightarrow> True"

lemma code_of_char [simp]: "code (CHR 0x22) = 34" "code (CHR 0x5C) = 92"
  by (simp_all add: code_def)

lemma parse_chars_quote: "parse_chars (concat (map escape s) @ CHR 0x22 # rest) = Some (s, rest)"
proof (induction s)
  case (Cons c s)
  let ?tail = "concat (map escape s) @ CHR 0x22 # rest"
  have hex: "hex4 [CHR ''0'', CHR ''0'', hex_digit (code c div 16), hex_digit (code c mod 16)] = Some c" if "code c < 32"
  proof -
    have "hex_val (CHR ''0'') = Some 0" by (simp add: hex_val_def code_def)
    moreover have "code c div 16 < 16" "code c mod 16 < 16" "16 * (code c div 16) + code c mod 16 = code c"
      using that by auto
    ultimately show ?thesis by (simp add: hex4_def)
  qed
  show ?case
  proof (cases "code c < 32 \<and> c \<notin> {CHR 0x08, CHR 0x09, CHR 0x0A, CHR 0x0C, CHR 0x0D}")
    case True
    then have low: "code c < 32" by (rule conjunct1)
    have "c \<noteq> CHR 0x22" "c \<noteq> CHR 0x5C" by (rule notI, use low in simp)+
    with True have "escape c = [CHR 0x5C, CHR ''u'', CHR ''0'', CHR ''0'', hex_digit (code c div 16), hex_digit (code c mod 16)]"
      by (simp add: escape_def)
    then show ?thesis using Cons hex [OF low] by simp
  next
    case False
    show ?thesis
    proof (cases "c \<in> {CHR 0x22, CHR 0x5C, CHR 0x08, CHR 0x09, CHR 0x0A, CHR 0x0C, CHR 0x0D}")
      case True
      with Cons show ?thesis by (auto simp: escape_def unescape_def)
    next
      case other: False
      with False have "escape c = [c]" "\<not> code c < 32" "c \<noteq> CHR 0x22" "c \<noteq> CHR 0x5C" by (simp_all add: escape_def)
      with Cons show ?thesis by simp
    qed
  qed
qed simp

lemma skip_ws_cons [simp]: "\<not> json_ws c \<Longrightarrow> skip_ws (c # s) = c # s"
  by (simp add: skip_ws_def)

lemma not_ws [simp]: "\<not> json_ws (CHR 0x22)" "\<not> json_ws (CHR ''{'')" "\<not> json_ws (CHR ''}'')" "\<not> json_ws (CHR ''['')"
    "\<not> json_ws (CHR '']'')" "\<not> json_ws (CHR '':'')" "\<not> json_ws (CHR '','')" "\<not> json_ws (CHR ''n'')"
    "\<not> json_ws (CHR ''t'')" "\<not> json_ws (CHR ''f'')" "\<not> json_ws (CHR ''-'')"
  by (simp_all add: json_ws_def)

lemma digit_props: "is_digit c \<Longrightarrow> \<not> json_ws c \<and> is_num_char c \<and> c \<notin> {CHR 0x22, CHR ''{'', CHR ''['', CHR ''n'', CHR ''t'', CHR ''f'', CHR ''-'', CHR '']'', CHR ''}''}"
  by (auto simp: is_digit_def json_ws_def is_num_char_def code_def)

lemma dec_str_nonempty: "dec_str n \<noteq> []"
  by (subst dec_str.simps) simp

lemma dec_str_hd_zero: "hd (dec_str n) = CHR ''0'' \<Longrightarrow> n = 0"
proof (induction n rule: dec_str.induct)
  case (1 n)
  show ?case
  proof (cases "n < 10")
    case True
    with 1(2) have "char_of (n + 48) = CHR ''0''" by (subst (asm) dec_str.simps) simp
    then have "code (char_of (n + 48)) = code (CHR ''0'')" by simp
    with True show ?thesis by (simp add: code_def)
  next
    case False
    have "hd (dec_str n) = hd (dec_str (n div 10))" using False dec_str_nonempty by (subst dec_str.simps) simp
    with 1 False show ?thesis by simp
  qed
qed

lemma nat_literal_str [simp]: "nat_literal (dec_str n) = Some n"
proof -
  have "hd (dec_str n) = CHR ''0'' \<Longrightarrow> length (dec_str n) = 1" using dec_str_hd_zero [of n] by (auto simp: dec_str.simps [of 0])
  then show ?thesis using dec_str_digits dec_str_nonempty by (simp add: nat_literal_def)
qed

lemma int_str_chars: "list_all is_num_char (int_str i)" "int_str i \<noteq> []"
  "\<not> json_ws (hd (int_str i))" "hd (int_str i) \<notin> {CHR 0x22, CHR ''{'', CHR ''['', CHR ''n'', CHR ''t'', CHR ''f'', CHR '']'', CHR ''}''}"
proof -
  have "is_digit (hd (dec_str n))" for n using dec_str_digits [of n] dec_str_nonempty [of n] by (cases "dec_str n") auto
  moreover have "list_all is_num_char (dec_str n)" for n using dec_str_digits [of n] digit_props by (auto simp: list_all_iff)
  ultimately show "list_all is_num_char (int_str i)" "int_str i \<noteq> []"
    "\<not> json_ws (hd (int_str i))" "hd (int_str i) \<notin> {CHR 0x22, CHR ''{'', CHR ''['', CHR ''n'', CHR ''t'', CHR ''f'', CHR '']'', CHR ''}''}"
    using dec_str_nonempty digit_props by (auto simp: int_str_def is_num_char_def)
qed

lemma int_literal_str [simp]: "int_literal (int_str i) = Some i"
proof (cases "i < 0")
  case True
  then show ?thesis by (simp add: int_literal_def int_str_def)
next
  case False
  obtain c cs where s: "dec_str (nat i) = c # cs" using dec_str_nonempty by (cases "dec_str (nat i)") auto
  then have "c \<noteq> CHR ''-''" using dec_str_digits [of "nat i"] digit_props by auto
  then have "int_literal (dec_str (nat i)) = map_option int (nat_literal (dec_str (nat i)))" by (simp add: int_literal_def s)
  with False show ?thesis by (simp add: int_str_def)
qed

text \<open>What follows a value in a longer text: nothing that could continue a number.\<close>

definition ends :: "string \<Rightarrow> bool" where
  "ends rest \<longleftrightarrow> (case rest of [] \<Rightarrow> True | c # _ \<Rightarrow> \<not> is_num_char c)"

lemma ends_simps [simp]: "ends []" "ends (CHR '','' # s)" "ends (CHR '']'' # s)" "ends (CHR ''}'' # s)"
  by (simp_all add: ends_def is_num_char_def is_digit_def code_def)

lemma number_span: "ends rest \<Longrightarrow> list_all is_num_char s \<Longrightarrow>
    takeWhile is_num_char (s @ rest) = s \<and> dropWhile is_num_char (s @ rest) = rest"
  by (induction s) (auto simp: ends_def split: list.splits)

lemma parse_number: "ends rest \<Longrightarrow> parse_value (Suc n) (int_str i @ rest) = Some (JNum i, rest)"
proof -
  assume "ends rest"
  obtain c cs where s: "int_str i = c # cs" using int_str_chars(2) [of i] by (cases "int_str i") auto
  note c = int_str_chars(3, 4) [of i, unfolded s]
  from number_span [OF \<open>ends rest\<close> int_str_chars(1) [of i]]
  have "takeWhile is_num_char (c # cs @ rest) = int_str i" "dropWhile is_num_char (c # cs @ rest) = rest" by (simp_all add: s)
  with c show ?thesis by (simp add: s startsWith_def del: takeWhile.simps dropWhile.simps) (simp add: s [symmetric])
qed

lemma parse_members_join:
  assumes "kvs \<noteq> []" "distinct (map fst kvs)" "set (map fst kvs) \<inter> set (map fst acc) = {}"
    and IH: "\<And>k v rest n. (k, v) \<in> set kvs \<Longrightarrow> ends rest \<Longrightarrow> length (stringify v) < n \<Longrightarrow> parse_value n (stringify v @ rest) = Some (v, rest)"
    and "length (join '','' (map (\<lambda>(k, v). quote k @ '':'' @ stringify v) kvs)) < n"
  shows "parse_members n (join '','' (map (\<lambda>(k, v). quote k @ '':'' @ stringify v) kvs) @ CHR ''}'' # rest) acc = Some (JObj (acc @ kvs), rest)"
  using assms
proof (induction kvs arbitrary: n acc)
  case (Cons kv kvs)
  obtain k v where kv: "kv = (k, v)" by (cases kv)
  let ?m = "map (\<lambda>(k, v). quote k @ '':'' @ stringify v)"
  obtain n' where n: "n = Suc n'" using Cons.prems(5) by (cases n) auto
  have acc: "js_set k v acc = acc @ [kv]" using Cons.prems(3) by (simp add: kv js_set_fresh)
  show ?case
  proof (cases kvs)
    case Nil
    have "length (stringify v) < n'" using Cons.prems(5) Nil by (simp add: kv n quote_def)
    then have "parse_value n' (stringify v @ CHR ''}'' # rest) = Some (v, CHR ''}'' # rest)"
      using Cons.prems(4) [of k v] by (simp add: kv)
    then show ?thesis using Nil by (simp add: kv n quote_def parse_chars_quote acc)
  next
    case (Cons x xs)
    then have split: "join '','' (?m (kv # kvs)) = quote k @ '':'' @ stringify v @ '','' @ join '','' (?m kvs)"
      by (cases x) (simp add: kv)
    have "length (stringify v) < n'" "length (join '','' (?m kvs)) < n'"
      using Cons.prems(5) unfolding split by (simp_all add: n quote_def)
    have "parse_value n' (stringify v @ CHR '','' # join '','' (?m kvs) @ CHR ''}'' # rest)
        = Some (v, CHR '','' # join '','' (?m kvs) @ CHR ''}'' # rest)"
      using Cons.prems(4) [of k v] \<open>length (stringify v) < n'\<close> by (simp add: kv)
    moreover have "parse_members n' (join '','' (?m kvs) @ CHR ''}'' # rest) (acc @ [kv]) = Some (JObj ((acc @ [kv]) @ kvs), rest)"
      using Cons.prems Cons \<open>length (join '','' (?m kvs)) < n'\<close> by (intro Cons.IH) (auto simp: kv)
    ultimately show ?thesis
      unfolding split by (simp add: n quote_def parse_chars_quote acc)
  qed
qed simp

lemma parse_items_join:
  assumes "xs \<noteq> []"
    and IH: "\<And>v rest n. v \<in> set xs \<Longrightarrow> ends rest \<Longrightarrow> length (stringify v) < n \<Longrightarrow> parse_value n (stringify v @ rest) = Some (v, rest)"
    and "Suc (length (join '','' (map stringify xs))) < n"
  shows "parse_items n (join '','' (map stringify xs) @ CHR '']'' # rest) acc = Some (JArr (acc @ xs), rest)"
  using assms
proof (induction xs arbitrary: n acc)
  case (Cons v xs)
  obtain n' where n: "n = Suc n'" using Cons.prems(3) by (cases n) auto
  show ?case
  proof (cases xs)
    case Nil
    have "length (stringify v) < n'" using Cons.prems(3) Nil by (simp add: n)
    then have "parse_value n' (stringify v @ CHR '']'' # rest) = Some (v, CHR '']'' # rest)"
      using Cons.prems(2) [of v] by simp
    then show ?thesis using Nil by (simp add: n)
  next
    case (Cons x ys)
    then have split: "join '','' (map stringify (v # xs)) = stringify v @ '','' @ join '','' (map stringify xs)" by simp
    have "length (stringify v) < n'" "Suc (length (join '','' (map stringify xs))) < n'"
      using Cons.prems(3) unfolding split by (simp_all add: n)
    have "parse_value n' (stringify v @ CHR '','' # join '','' (map stringify xs) @ CHR '']'' # rest)
        = Some (v, CHR '','' # join '','' (map stringify xs) @ CHR '']'' # rest)"
      using Cons.prems(2) [of v] \<open>length (stringify v) < n'\<close> by simp
    moreover have "parse_items n' (join '','' (map stringify xs) @ CHR '']'' # rest) (acc @ [v]) = Some (JArr ((acc @ [v]) @ xs), rest)"
      using Cons.prems Cons \<open>Suc (length (join '','' (map stringify xs))) < n'\<close> by (intro Cons.IH) auto
    ultimately show ?thesis unfolding split by (simp add: n)
  qed
qed simp

text \<open>A value never starts with a bracket that would end the array it is in.\<close>

lemma stringify_hd: "stringify v \<noteq> [] \<and> \<not> json_ws (hd (stringify v)) \<and> hd (stringify v) \<noteq> CHR '']''"
  using int_str_chars(2-4) by (cases v) (auto simp: quote_def)

lemma parse_stringify:
  "json_ok v \<Longrightarrow> ends rest \<Longrightarrow> length (stringify v) < n \<Longrightarrow> parse_value n (stringify v @ rest) = Some (v, rest)"
proof (induction v arbitrary: rest n)
  case (JNum i)
  then show ?case using parse_number [of rest "n - 1" i] by (cases n) auto
next
  case (JStr s)
  then show ?case by (cases n) (auto simp: quote_def parse_chars_quote)
next
  case (JArr xs)
  then obtain n' where n: "n = Suc n'" "length (stringify (JArr xs)) \<le> n'" by (cases n) auto
  show ?case
  proof (cases xs)
    case Nil
    then show ?thesis by (simp add: n)
  next
    case (Cons x ys)
    let ?body = "join '','' (map stringify xs)"
    have hd: "?body \<noteq> []" "\<not> json_ws (hd ?body)" "hd ?body \<noteq> CHR '']''"
      using stringify_hd [of x] Cons by (cases ys; simp)+
    have "parse_items n' (?body @ CHR '']'' # rest) [] = Some (JArr ([] @ xs), rest)"
      using JArr Cons n(2) by (intro parse_items_join) (auto simp: list_all_iff)
    with hd show ?thesis by (cases ?body) (simp_all add: n)
  qed
next
  case (JObj kvs)
  then obtain n' where n: "n = Suc n'" "length (stringify (JObj kvs)) \<le> n'" by (cases n) auto
  show ?case
  proof (cases kvs)
    case Nil
    then show ?thesis by (simp add: n)
  next
    case (Cons x ys)
    let ?body = "join '','' (map (\<lambda>(k, v). quote k @ '':'' @ stringify v) kvs)"
    have hd: "\<exists>t. ?body = CHR 0x22 # t" using Cons by (cases x; cases ys) (auto simp: quote_def)
    have IH: "parse_value m (stringify v @ r) = Some (v, r)" if "(k, v) \<in> set kvs" "ends r" "length (stringify v) < m" for k v r m
      using JObj.IH [of "(k, v)" v r m] JObj.prems(1) that by (auto simp: list_all_iff)
    have "parse_members n' (?body @ CHR ''}'' # rest) [] = Some (JObj ([] @ kvs), rest)"
      by (rule parse_members_join [OF _ _ _ IH]) (use JObj.prems Cons n(2) in auto)
    with hd show ?thesis by (auto simp: n)
  qed
next
  case JNull
  then show ?case by (cases n) (simp_all add: startsWith_def)
next
  case (JBool b)
  then show ?case by (cases n; cases b) (simp_all add: startsWith_def)
qed

lemma JSON_parse_stringify: "json_ok v \<Longrightarrow> JSON_parse (stringify v) = Some v"
  using parse_stringify [of v "[]" "Suc (length (stringify v))"] by (simp add: JSON_parse_def skip_ws_def del: parse_value.simps)

text \<open>A stringified value is one line.\<close>

lemma escape_no_newline: "CHR 0x0A \<notin> set (escape c)"
proof -
  have "hex_digit n \<noteq> CHR 0x0A" if "n < 16" for n
    using hex_digit_lower [OF that] by (auto simp: is_lower_hex_def code_def)
  moreover have "code c < 32 \<Longrightarrow> code c div 16 < 16" "code c mod 16 < 16" by simp_all
  ultimately have "code c < 32 \<Longrightarrow> CHR 0x0A \<notin> {hex_digit (code c div 16), hex_digit (code c mod 16)}" by (metis insert_iff empty_iff)
  then show ?thesis by (auto simp: escape_def)
qed

lemma join_set: "set (join sep xs) \<subseteq> set sep \<union> \<Union> (set ` set xs)"
  by (induction sep xs rule: join.induct) auto

lemma stringify_one_line: "CHR 0x0A \<notin> set (stringify v)"
proof (induction v)
  case (JNum i)
  then show ?case using int_str_chars(1) [of i] by (auto simp: list_all_iff is_num_char_def is_digit_def code_def)
next
  case (JStr s)
  then show ?case using escape_no_newline by (auto simp: quote_def)
next
  case (JArr xs)
  then show ?case using join_set [of "'',''" "map stringify xs"] by fastforce
next
  case (JObj kvs)
  have "CHR 0x0A \<notin> set (quote k @ '':'' @ stringify v)" if "(k, v) \<in> set kvs" for k v
    using JObj that escape_no_newline by (fastforce simp: quote_def)
  then show ?case using join_set [of "'',''" "map (\<lambda>(k, v). quote k @ '':'' @ stringify v) kvs"] by fastforce
qed simp_all

lemma trim_blank: "trim s = [] \<longleftrightarrow> list_all is_ws s"
proof -
  have "\<not> list_all is_ws (dropWhile is_ws s)" if "dropWhile is_ws s \<noteq> []"
    using hd_dropWhile [OF that] that by (cases "dropWhile is_ws s") auto
  then show ?thesis by (auto simp: trim_def dropWhile_eq_Nil_conv list_all_iff dest: set_dropWhileD)
qed

lemma stringify_object_not_blank: "trim (stringify (JObj kvs)) \<noteq> []"
  by (simp add: trim_blank is_ws_def code_def)

end
