(* ===== verification/LendEvents.thy ===== *)
theory LendEvents
  imports EventFeed JsBuffer Json
begin

text \<open>
  \<^verbatim>\<open>relayer/src/lend-events/decode.ts\<close>, \<^verbatim>\<open>store.ts\<close> and \<^verbatim>\<open>poller.ts\<close>: the archive of the contract's
  events. The SDK's XDR codec and the RPC server are parameters; the \<open>k\<close>-th request of a run is answered
  by \<open>getEvents k\<close>, so an answer may change between two equal requests.
\<close>

section \<open>Decoding\<close>

text \<open>What \<^verbatim>\<open>scValToNative\<close> yields.\<close>

datatype native =
    NStr string
  | NBig int
  | NNum int
  | NBool bool
  | NNull
  | NBytes buffer
  | NList "native list"
  | NMap "(string \<times> native) list"

fun plain :: "native \<Rightarrow> json" where
  "plain (NBig i) = JStr (int_str i)"
| "plain (NBytes b) = JStr (hex_of_bytes b)"
| "plain (NList xs) = JArr (map plain xs)"
| "plain (NMap kvs) = JObj (map (\<lambda>(k, v). (k, plain v)) kvs)"
| "plain (NStr s) = JStr s"
| "plain (NNum i) = JNum i"
| "plain (NBool b) = JBool b"
| "plain NNull = JNull"

record 'x sdk =
  scValToNative :: "'x \<Rightarrow> native"
  toXDR :: "'x \<Rightarrow> string"
  fromXDR :: "string \<Rightarrow> 'x option"

record 'x raw_lend_event =
  ev_id :: string
  ev_ledger :: nat
  ev_txHash :: string
  ev_topic :: "'x list"
  ev_value :: 'x

record lend_event_row =
  le_id :: string
  le_contract :: string
  le_ledger :: nat
  le_txHash :: string
  le_name :: string
  le_subject :: string
  le_data :: string
  le_rawXdr :: string

definition ARCHIVED :: "string list" where
  "ARCHIVED = [''deposit'', ''borrow'', ''repay'', ''repay_full'', ''liquidate'', ''supply'', ''withdraw'']"

datatype decode_error = NoTopics | NoSubjectTopic | UnreadableSubject | BadRawXdr

definition encodeRawXdr :: "'x sdk \<Rightarrow> 'x list \<Rightarrow> 'x \<Rightarrow> string" where
  "encodeRawXdr sdk topic v =
     stringify (JObj [(''topic'', JArr (map (\<lambda>t. JStr (toXDR sdk t)) topic)), (''value'', JStr (toXDR sdk v))])"

text \<open>The name is not checked to be a string here, so it is whatever the topic holds.\<close>

definition decodeColumns :: "'x sdk \<Rightarrow> 'x list \<Rightarrow> 'x \<Rightarrow> decode_error + (native \<times> string \<times> string)" where
  "decodeColumns sdk topic v =
     (case topic of
        [] \<Rightarrow> Inl NoTopics
      | [_] \<Rightarrow> Inl NoSubjectTopic
      | t0 # t1 # _ \<Rightarrow>
          (case plain (scValToNative sdk t1) of
             JStr subject \<Rightarrow> Inr (scValToNative sdk t0, subject, stringify (plain (scValToNative sdk v)))
           | _ \<Rightarrow> Inl UnreadableSubject))"

fun json_strings :: "json list \<Rightarrow> string list option" where
  "json_strings [] = Some []"
| "json_strings (JStr s # js) = map_option (Cons s) (json_strings js)"
| "json_strings (_ # js) = None"

fun all_some :: "'a option list \<Rightarrow> 'a list option" where
  "all_some [] = Some []"
| "all_some (None # xs) = None"
| "all_some (Some x # xs) = map_option (Cons x) (all_some xs)"

definition decodeRawXdr :: "'x sdk \<Rightarrow> string \<Rightarrow> decode_error + (native \<times> string \<times> string)" where
  "decodeRawXdr sdk rawXdr =
     (case JSON_parse rawXdr of
        Some (JObj o') \<Rightarrow>
          (case (js_get o' ''topic'', js_get o' ''value'') of
             (Some (JArr ts), Some (JStr v)) \<Rightarrow>
               (case (Option.bind (json_strings ts) (\<lambda>ss. all_some (map (fromXDR sdk) ss)), fromXDR sdk v) of
                  (Some topic, Some val) \<Rightarrow> decodeColumns sdk topic val
                | _ \<Rightarrow> Inl BadRawXdr)
           | _ \<Rightarrow> Inl BadRawXdr)
      | _ \<Rightarrow> Inl BadRawXdr)"

definition decodeLendEvent :: "'x sdk \<Rightarrow> string \<Rightarrow> 'x raw_lend_event \<Rightarrow> decode_error + lend_event_row option" where
  "decodeLendEvent sdk contractId e =
     (case ev_topic e of
        [] \<Rightarrow> Inl NoTopics
      | first # _ \<Rightarrow>
          (case scValToNative sdk first of
             NStr name \<Rightarrow>
               if name \<notin> set ARCHIVED then Inr None else
               res_bind (decodeColumns sdk (ev_topic e) (ev_value e)) (\<lambda>(_, subject, data). Inr (Some
                 \<lparr>le_id = ev_id e, le_contract = contractId, le_ledger = ev_ledger e, le_txHash = ev_txHash e,
                  le_name = name, le_subject = subject, le_data = data, le_rawXdr = encodeRawXdr sdk (ev_topic e) (ev_value e)\<rparr>))
           | _ \<Rightarrow> Inr None))"

section \<open>The store\<close>

record lend_store =
  ls_cursor :: "string option"
  ls_rows :: "lend_event_row list"

text \<open>One transaction: a malformed cursor rolls the rows back.\<close>

definition lend_commit :: "lend_event_row list \<Rightarrow> string \<Rightarrow> lend_store \<Rightarrow> cursor_error + lend_store" where
  "lend_commit rows cursor s =
     (let s1 = s\<lparr>ls_rows := fold (insert_new le_id) rows (ls_rows s)\<rparr> in
      res_bind (assertValidCursor cursor) (\<lambda>_. Inr (s1\<lparr>ls_cursor := Some cursor\<rparr>)))"

definition lend_list :: "string \<Rightarrow> lend_store \<Rightarrow> lend_event_row list" where
  "lend_list contractId s = sort_key le_id (filter (\<lambda>r. le_contract r = contractId) (ls_rows s))"

definition lend_snapshot :: "string \<Rightarrow> lend_store \<Rightarrow> lend_event_row list \<times> string option" where
  "lend_snapshot contractId s = (lend_list contractId s, ls_cursor s)"

definition lastLedger :: "string \<Rightarrow> lend_store \<Rightarrow> nat option" where
  "lastLedger contractId s =
     (let ls = map le_ledger (filter (\<lambda>r. le_contract r = contractId) (ls_rows s)) in
      if ls = [] then None else Some (Max (set ls)))"

section \<open>The poller\<close>

datatype 'd lend_error = EmptyArchive | LendRpc string | LendDecode 'd | LendCursor cursor_error

definition MAX_PAGES_PER_POLL :: nat where "MAX_PAGES_PER_POLL = 20"

definition lend_request :: "string option \<Rightarrow> nat option \<Rightarrow> 'd lend_error + events_request" where
  "lend_request cursor deployLedger =
     (case cursor of
        Some c \<Rightarrow> Inr (FromCursor c)
      | None \<Rightarrow> (case deployLedger of None \<Rightarrow> Inl EmptyArchive | Some l \<Rightarrow> Inr (FromLedger l)))"

fun decode_rows :: "('ev \<Rightarrow> 'd + 'r option) \<Rightarrow> 'ev list \<Rightarrow> 'd + 'r list" where
  "decode_rows decode [] = Inr []"
| "decode_rows decode (e # es) =
     res_bind (decode e) (\<lambda>r. res_bind (decode_rows decode es) (\<lambda>rs. Inr (case r of None \<Rightarrow> rs | Some x \<Rightarrow> x # rs)))"

text \<open>One page: the rows and the answer's cursor are committed together; \<^const>\<open>True\<close> on an empty page.\<close>

definition lend_page ::
    "('ev \<Rightarrow> 'd + lend_event_row option) \<Rightarrow> (events_request \<Rightarrow> string + 'ev page) \<Rightarrow> nat option \<Rightarrow> lend_store
     \<Rightarrow> 'd lend_error + lend_store \<times> bool" where
  "lend_page decode get deployLedger s =
     (case lend_request (ls_cursor s) deployLedger of
        Inl e \<Rightarrow> Inl e
      | Inr req \<Rightarrow>
         (case get req of
            Inl m \<Rightarrow> Inl (LendRpc m)
          | Inr p \<Rightarrow>
             (case decode_rows decode (page_events p) of
                Inl d \<Rightarrow> Inl (LendDecode d)
              | Inr rows \<Rightarrow>
                 (case lend_commit rows (page_cursor p) s of
                    Inl c \<Rightarrow> Inl (LendCursor c)
                  | Inr s' \<Rightarrow> Inr (s', page_events p = [])))))"

text \<open>The loop over pages: the requests made, the store left and how it ended.\<close>

fun lend_pages ::
    "('ev \<Rightarrow> 'd + lend_event_row option) \<Rightarrow> (nat \<Rightarrow> events_request \<Rightarrow> string + 'ev page) \<Rightarrow> nat option \<Rightarrow> nat \<Rightarrow> nat
     \<Rightarrow> lend_store \<Rightarrow> nat \<times> lend_store \<times> ('d lend_error + bool)" where
  "lend_pages decode getEvents dl 0 k s = (k, s, Inr False)"
| "lend_pages decode getEvents dl (Suc n) k s =
     (case lend_page decode (getEvents k) dl s of
        Inl e \<Rightarrow> (Suc k, s, Inl e)
      | Inr (s', tip) \<Rightarrow> if tip then (Suc k, s', Inr True) else lend_pages decode getEvents dl n (Suc k) s')"

definition runLendEventsCycle ::
    "('ev \<Rightarrow> 'd + lend_event_row option) \<Rightarrow> (nat \<Rightarrow> events_request \<Rightarrow> string + 'ev page) \<Rightarrow> nat option \<Rightarrow> nat
     \<Rightarrow> lend_store \<Rightarrow> nat \<times> lend_store \<times> ('d lend_error + bool)" where
  "runLendEventsCycle decode getEvents dl k s = lend_pages decode getEvents dl MAX_PAGES_PER_POLL k s"

section \<open>The store as an archive\<close>

interpretation lends: event_archive ls_cursor lend_commit "\<lambda>s r. le_id r \<in> le_id ` set (ls_rows s)" ls_rows le_id
proof
  show "\<exists>s'. lend_commit rs c s = Inr s' \<and> ls_cursor s' = Some c
      \<and> (\<forall>r. le_id r \<in> le_id ` set (ls_rows s) \<or> r \<in> set rs \<longrightarrow> le_id r \<in> le_id ` set (ls_rows s'))" if "isValidCursor c" for c rs s
    using that by (auto simp: lend_commit_def assertValidCursor_def fold_insert_new_keys)
qed (auto simp: lend_commit_def assertValidCursor_def split: if_splits)

definition event_row :: "('ev \<Rightarrow> 'd + 'r option) \<Rightarrow> 'ev \<Rightarrow> 'r option" where
  "event_row decode e = (case decode e of Inr r \<Rightarrow> r | Inl _ \<Rightarrow> None)"

lemma event_row_Some: "event_row decode e = Some r \<longleftrightarrow> decode e = Inr (Some r)"
  by (cases "decode e") (simp_all add: event_row_def)

lemma decode_rows_Inr:
  "decode_rows decode es = Inr rows \<Longrightarrow> rows = List.map_filter (event_row decode) es \<and> (\<forall>e\<in>set es. is_ok (decode e))"
proof (induction es arbitrary: rows)
  case (Cons e es)
  then obtain r rs where "decode e = Inr r" "decode_rows decode es = Inr rs" "rows = (case r of None \<Rightarrow> rs | Some x \<Rightarrow> x # rs)"
    by (auto simp: res_simps)
  with Cons.IH show ?case by (auto simp: event_row_def List.map_filter_simps split: option.splits)
qed (simp add: List.map_filter_simps)

lemma decode_rows_ok: "(\<And>e. e \<in> set es \<Longrightarrow> is_ok (decode e)) \<Longrightarrow> is_ok (decode_rows decode es)"
proof (induction es)
  case (Cons e es)
  then have "is_ok (decode e)" "is_ok (decode_rows decode es)" by simp_all
  then show ?case by (auto simp: is_ok_iff)
qed simp

lemma lend_request_next:
  "lend_request (ls_cursor s) dl = Inr req \<Longrightarrow> dl = None \<or> dl = Some deploy \<Longrightarrow> req = lends.next_request deploy s"
  by (auto simp: lend_request_def lends.next_request_def split: option.splits)

text \<open>Every row of an archived event is there, and no event up to the cursor failed to decode.\<close>

definition mirrors_chain :: "('ev \<Rightarrow> 'd + lend_event_row option) \<Rightarrow> ('ev \<Rightarrow> string) \<Rightarrow> 'ev list \<Rightarrow> lend_store \<Rightarrow> bool" where
  "mirrors_chain decode idof chain s \<longleftrightarrow> lends.mirrors idof (event_row decode) chain s
     \<and> (\<forall>c. ls_cursor s = Some c \<longrightarrow> (\<forall>e\<in>set chain. idof e \<le> c \<longrightarrow> is_ok (decode e)))"

definition chain_ok :: "('ev \<Rightarrow> 'd + lend_event_row option) \<Rightarrow> ('ev \<Rightarrow> string) \<Rightarrow> 'ev list \<Rightarrow> nat \<Rightarrow> bool" where
  "chain_ok decode idof chain deploy \<longleftrightarrow> sorted_wrt (<) (map idof chain) \<and> (\<forall>e\<in>set chain. deploy \<le> ledgerOfCursor (idof e))
     \<and> (\<forall>e r. decode e = Inr (Some r) \<longrightarrow> le_id r = idof e)"

lemma lend_page_mirrors:
  fixes decode :: "'ev \<Rightarrow> 'd + lend_event_row option"
  assumes chain: "chain_ok decode idof chain deploy" and s: "mirrors_chain decode idof chain s"
    and serves: "\<And>req p. get req = Inr p \<Longrightarrow> serves idof chain req p" and dl: "dl = None \<or> dl = Some deploy"
    and page: "lend_page decode get dl s = Inr (s', tip)"
  obtains p where "get (lends.next_request deploy s) = Inr p" "tip = (page_events p = [])" "ls_cursor s' = Some (page_cursor p)"
    "mirrors_chain decode idof chain s'"
proof -
  from page obtain req p rows where r: "lend_request (ls_cursor s) dl = (Inr req :: 'd lend_error + events_request)" "get req = Inr p"
      "decode_rows decode (page_events p) = Inr rows" "lend_commit rows (page_cursor p) s = Inr s'" "tip = (page_events p = [])"
    by (auto simp: lend_page_def split: sum.splits)
  have req: "req = lends.next_request deploy s" by (rule lend_request_next [OF r(1) dl])
  have rows: "rows = List.map_filter (event_row decode) (page_events p)" "\<forall>e\<in>set (page_events p). is_ok (decode e)"
    using decode_rows_Inr [OF r(3)] by auto
  have sv: "serves idof chain (lends.next_request deploy s) p" using serves [OF r(2)] req by simp
  have keys: "event_row decode e = Some x \<Longrightarrow> le_id x = idof e" for e x
    using chain by (auto simp: chain_ok_def event_row_def split: sum.splits)
  have m: "lends.mirrors idof (event_row decode) chain s'" "ls_cursor s' = Some (page_cursor p)"
    using lends.mirrors_commit [OF _ _ keys _ sv, where s' = s'] chain s r(4) rows(1) by (auto simp: chain_ok_def mirrors_chain_def)
  have "is_ok (decode e)" if e: "e \<in> set chain" "idof e \<le> page_cursor p" for e
  proof (cases "past_start req (idof e)")
    case True
    with e sv req have "e \<in> set (page_events p)" by (auto simp: serves_def)
    with rows(2) show ?thesis by blast
  next
    case False
    with chain e(1) req obtain c where "ls_cursor s = Some c" "idof e \<le> c"
      by (auto simp: lends.next_request_def chain_ok_def not_less split: option.splits)
    with s e(1) show ?thesis by (auto simp: mirrors_chain_def)
  qed
  with m have "mirrors_chain decode idof chain s'" by (auto simp: mirrors_chain_def)
  with that r(2, 5) m(2) req show ?thesis by blast
qed

lemma lend_pages_mirrors:
  assumes "chain_ok decode idof chain deploy" "\<And>k req p. getEvents k req = Inr p \<Longrightarrow> serves idof chain req p" "dl = None \<or> dl = Some deploy"
  shows "mirrors_chain decode idof chain s \<Longrightarrow> mirrors_chain decode idof chain (fst (snd (lend_pages decode getEvents dl n k s)))"
proof (induction n arbitrary: k s)
  case (Suc n)
  show ?case
  proof (cases "lend_page decode (getEvents k) dl s")
    case (Inr x)
    obtain s' tip where x: "x = (s', tip)" by (cases x)
    have "mirrors_chain decode idof chain s'"
      by (rule lend_page_mirrors [OF assms(1) Suc.prems _ assms(3) Inr [unfolded x]]) (fact assms(2))
    with Suc.IH [OF this] Inr x show ?thesis by simp
  qed (use Suc in simp)
qed simp

text \<open>The archive of a relayer that polls, fails, restarts and polls again.\<close>

inductive lend_run ::
    "('ev \<Rightarrow> 'd + lend_event_row option) \<Rightarrow> ('ev \<Rightarrow> string) \<Rightarrow> 'ev list \<Rightarrow> nat \<Rightarrow> lend_store \<Rightarrow> lend_store \<Rightarrow> bool"
  for decode idof chain deploy where
  cycle: "(\<And>k req p. getEvents k req = Inr p \<Longrightarrow> serves idof chain req p) \<Longrightarrow> dl = None \<or> dl = Some deploy \<Longrightarrow>
    lend_run decode idof chain deploy s (fst (snd (runLendEventsCycle decode getEvents dl k s)))"

inductive_cases lend_runE: "lend_run decode idof chain deploy s s'"

lemma lend_runs_mirror:
  assumes "(lend_run decode idof chain deploy)\<^sup>*\<^sup>* s s'" "chain_ok decode idof chain deploy" "mirrors_chain decode idof chain s"
  shows "mirrors_chain decode idof chain s'"
  using assms(1, 3)
proof (induction rule: rtranclp_induct)
  case (step y z)
  from step.hyps(2) obtain getEvents dl k where "\<And>k req p. getEvents k req = Inr p \<Longrightarrow> serves idof chain req p"
    "dl = None \<or> dl = Some deploy" "z = fst (snd (runLendEventsCycle decode getEvents dl k y))" by (rule lend_runE) blast
  then show ?case using lend_pages_mirrors [OF assms(2)] step.IH [OF step.prems] by (simp add: runLendEventsCycle_def)
qed

lemma row_of_event:
  "decodeLendEvent sdk contract e = Inr (Some r) \<Longrightarrow> le_id r = ev_id e \<and> le_contract r = contract \<and> le_ledger r = ev_ledger e
    \<and> le_rawXdr r = encodeRawXdr sdk (ev_topic e) (ev_value e)
    \<and> decodeColumns sdk (ev_topic e) (ev_value e) = Inr (NStr (le_name r), le_subject r, le_data r)"
  by (auto simp: decodeLendEvent_def decodeColumns_def res_simps split: list.splits native.splits if_splits json.splits)

lemma lend_chain_ok:
  "sorted_wrt (<) (map ev_id chain) \<Longrightarrow> \<forall>e\<in>set chain. deploy \<le> ledgerOfCursor (ev_id e) \<Longrightarrow>
   chain_ok (decodeLendEvent sdk contract) ev_id chain deploy"
  using row_of_event by (fastforce simp: chain_ok_def)

lemma sort_key_id: "sorted (map f xs) \<Longrightarrow> sort_key f xs = xs"
  by (rule sort_key_id_if_sorted)

lemma map_filter_ids:
  "map le_id (List.map_filter (event_row (decodeLendEvent sdk contract)) es)
     = map ev_id (filter (\<lambda>e. event_row (decodeLendEvent sdk contract) e \<noteq> None) es)"
  using row_of_event by (induction es) (auto simp: List.map_filter_simps event_row_def split: option.splits sum.splits)

lemma lend_list_mirror:
  assumes "mirrors_chain (decodeLendEvent sdk contract) ev_id chain s" "sorted_wrt (<) (map ev_id chain)" "ls_cursor s = Some c"
  shows "lend_list contract s = List.map_filter (event_row (decodeLendEvent sdk contract)) (filter (\<lambda>e. ev_id e \<le> c) chain)"
proof -
  let ?rows = "List.map_filter (event_row (decodeLendEvent sdk contract)) (filter (\<lambda>e. ev_id e \<le> c) chain)"
  have rows: "ls_rows s = ?rows" using assms(1, 3) by (simp add: mirrors_chain_def lends.mirrors_def)
  have "sorted_wrt (<) (map ev_id (filter P chain))" for P using assms(2) by (simp add: sorted_wrt_map sorted_wrt_filter)
  then have "sorted_wrt (<) (map le_id ?rows)" unfolding map_filter_ids filter_filter .
  then have "sorted (map le_id ?rows)" by (rule strict_sorted_imp_sorted)
  moreover have "filter (\<lambda>r. le_contract r = contract) ?rows = ?rows"
  proof (rule filter_True, rule ballI)
    fix r assume "r \<in> set ?rows"
    then obtain e where "event_row (decodeLendEvent sdk contract) e = Some r" by auto
    then have "decodeLendEvent sdk contract e = Inr (Some r)" by (simp add: event_row_def split: sum.splits)
    with row_of_event show "le_contract r = contract" by blast
  qed
  ultimately show ?thesis by (simp add: lend_list_def rows sort_key_id_if_sorted)
qed

section \<open>Catching up\<close>

definition remaining :: "('ev \<Rightarrow> string) \<Rightarrow> 'ev list \<Rightarrow> nat \<Rightarrow> lend_store \<Rightarrow> nat" where
  "remaining idof chain deploy s = length (filter (\<lambda>e. past_start (lends.next_request deploy s) (idof e)) chain)"

text \<open>A server that answers, and answers an empty page only when nothing is left.\<close>

definition live_server :: "('ev \<Rightarrow> string) \<Rightarrow> 'ev list \<Rightarrow> (nat \<Rightarrow> events_request \<Rightarrow> string + 'ev page) \<Rightarrow> bool" where
  "live_server idof chain getEvents \<longleftrightarrow> (\<forall>k req. (\<forall>c. req = FromCursor c \<longrightarrow> isValidCursor c) \<longrightarrow> (\<exists>p. getEvents k req = Inr p \<and> serves idof chain req p \<and> isValidCursor (page_cursor p)
     \<and> (page_events p = [] \<longrightarrow> (\<forall>e\<in>set chain. \<not> past_start req (idof e)))))"

definition cursor_ok :: "lend_store \<Rightarrow> bool" where
  "cursor_ok s \<longleftrightarrow> (\<forall>c. ls_cursor s = Some c \<longrightarrow> isValidCursor c)"

lemma live_page:
  assumes chain: "chain_ok decode idof chain deploy" "\<And>e. e \<in> set chain \<Longrightarrow> is_ok (decode e)"
    and live: "live_server idof chain getEvents" and cursor: "cursor_ok s"
  obtains s' tip where "lend_page decode (getEvents k) (Some deploy) s = Inr (s', tip)"
    "tip \<longrightarrow> remaining idof chain deploy s' = 0" "\<not> tip \<longrightarrow> remaining idof chain deploy s' < remaining idof chain deploy s"
    "cursor_ok s'"
proof -
  let ?req = "lends.next_request deploy s"
  have "\<forall>c. ?req = FromCursor c \<longrightarrow> isValidCursor c"
    using cursor by (simp add: cursor_ok_def lends.next_request_def split: option.splits)
  then obtain p where p: "getEvents k ?req = Inr p" "serves idof chain ?req p" "isValidCursor (page_cursor p)"
    "page_events p = [] \<Longrightarrow> \<forall>e\<in>set chain. \<not> past_start ?req (idof e)" using live unfolding live_server_def by meson
  have req: "lend_request (ls_cursor s) (Some deploy) = Inr ?req"
    by (simp add: lend_request_def lends.next_request_def split: option.splits)
  have "is_ok (decode_rows decode (page_events p))"
    using chain(2) p(2) by (intro decode_rows_ok) (auto simp: serves_def)
  then obtain rows where rows: "decode_rows decode (page_events p) = Inr rows" by (auto simp: is_ok_iff)
  obtain s' where s': "lend_commit rows (page_cursor p) s = Inr s'" "ls_cursor s' = Some (page_cursor p)"
    using lends.commit_valid [OF p(3), of rows s] by blast
  have page: "lend_page decode (getEvents k) (Some deploy) s = Inr (s', page_events p = [])"
    by (simp add: lend_page_def req p(1) rows s'(1))
  have later: "past_start ?req (idof e)" "\<not> idof e \<le> page_cursor p" if "e \<in> set chain" "past_start (lends.next_request deploy s') (idof e)" for e
    using that s'(2) p(2) chain(1) by (auto simp: lends.next_request_def serves_def chain_ok_def split: option.splits)
  have sub: "filter (\<lambda>e. past_start (lends.next_request deploy s') (idof e)) chain
      = filter (\<lambda>e. past_start (lends.next_request deploy s') (idof e)) (filter (\<lambda>e. past_start ?req (idof e)) chain)"
    unfolding filter_filter by (intro filter_cong) (use later(1) in auto)
  have "remaining idof chain deploy s' = 0" if "page_events p = []"
    using p(4) [OF that] later(1) by (auto simp: remaining_def filter_empty_conv)
  moreover have "remaining idof chain deploy s' < remaining idof chain deploy s" if "page_events p \<noteq> []"
  proof -
    obtain e where e: "e \<in> set (page_events p)" using \<open>page_events p \<noteq> []\<close> by (cases "page_events p") auto
    then have "e \<in> set (filter (\<lambda>e. past_start ?req (idof e)) chain)" "idof e \<le> page_cursor p" using p(2) by (auto simp: serves_def)
    with later(2) show ?thesis unfolding remaining_def sub by (intro length_filter_less) auto
  qed
  ultimately show ?thesis using that [OF page] s'(2) p(3) by (simp add: cursor_ok_def)
qed

lemma live_pages:
  assumes "chain_ok decode idof chain deploy" "\<And>e. e \<in> set chain \<Longrightarrow> is_ok (decode e)" "live_server idof chain getEvents"
  shows "cursor_ok s \<Longrightarrow> \<exists>k' s' tip. lend_pages decode getEvents (Some deploy) n k s = (k', s', Inr tip)
    \<and> cursor_ok s' \<and> (tip \<longrightarrow> remaining idof chain deploy s' = 0)
    \<and> (\<not> tip \<longrightarrow> remaining idof chain deploy s' + n \<le> remaining idof chain deploy s)"
proof (induction n arbitrary: k s)
  case 0
  then show ?case by (intro exI [of _ k] exI [of _ s] exI [of _ False]) simp
next
  case (Suc n)
  obtain s1 tip where s1: "lend_page decode (getEvents k) (Some deploy) s = Inr (s1, tip)"
    "tip \<longrightarrow> remaining idof chain deploy s1 = 0" "\<not> tip \<longrightarrow> remaining idof chain deploy s1 < remaining idof chain deploy s"
    "cursor_ok s1" using live_page [OF assms Suc.prems, of k] by blast
  show ?case
  proof (cases tip)
    case True
    with s1 show ?thesis by (intro exI [of _ "Suc k"] exI [of _ s1] exI [of _ True]) simp
  next
    case False
    obtain k' s' tip' where r: "lend_pages decode getEvents (Some deploy) n (Suc k) s1 = (k', s', Inr tip')"
      "cursor_ok s'" "tip' \<longrightarrow> remaining idof chain deploy s' = 0"
      "\<not> tip' \<longrightarrow> remaining idof chain deploy s' + n \<le> remaining idof chain deploy s1"
      using Suc.IH [OF s1(4)] by blast
    then have "\<not> tip' \<longrightarrow> remaining idof chain deploy s' + Suc n \<le> remaining idof chain deploy s" using s1(3) False by auto
    with r s1(1) False show ?thesis by simp
  qed
qed

section \<open>Properties\<close>

text \<open>C9. The archive is the chain: after any run of cycles from an empty database, with failures and
  restarts at any point and a page limit in between, what \<^verbatim>\<open>list\<close> returns is exactly the decoded rows of the
  contract's events up to the cursor, each once and in chain order, and every one of those events could
  be decoded, so there is neither a gap nor a silent hole.\<close>

theorem archive_is_chain:
  assumes "(lend_run (decodeLendEvent sdk contract) ev_id chain deploy)\<^sup>*\<^sup>* \<lparr>ls_cursor = None, ls_rows = []\<rparr> s"
    "sorted_wrt (<) (map ev_id chain)" "\<forall>e\<in>set chain. deploy \<le> ledgerOfCursor (ev_id e)" "ls_cursor s = Some c"
  shows "lend_list contract s = List.map_filter (event_row (decodeLendEvent sdk contract)) (filter (\<lambda>e. ev_id e \<le> c) chain)
    \<and> (\<forall>e\<in>set chain. ev_id e \<le> c \<longrightarrow> is_ok (decodeLendEvent sdk contract e))"
proof -
  have "mirrors_chain (decodeLendEvent sdk contract) ev_id chain \<lparr>ls_cursor = None, ls_rows = []\<rparr>"
    by (simp add: mirrors_chain_def lends.mirrors_def)
  from lend_runs_mirror [OF assms(1) lend_chain_ok [OF assms(2, 3)] this]
  have m: "mirrors_chain (decodeLendEvent sdk contract) ev_id chain s" .
  with lend_list_mirror [OF m assms(2, 4)] assms(4) show ?thesis by (simp add: mirrors_chain_def)
qed

text \<open>A deposit, archived by one cycle. In this instance XDR values are strings.\<close>

definition ex_sdk :: "string sdk" where
  "ex_sdk = \<lparr>scValToNative = NStr, toXDR = (\<lambda>x. x), fromXDR = Some\<rparr>"

definition ex_events :: "string raw_lend_event list" where
  "ex_events = [\<lparr>ev_id = ''0000000004294967296-0000000001'', ev_ledger = 1, ev_txHash = ''ff'', ev_topic = [''deposit'', ''aa''], ev_value = ''v''\<rparr>,
     \<lparr>ev_id = ''0000000004294967296-0000000002'', ev_ledger = 1, ev_txHash = ''fe'', ev_topic = [''paused''], ev_value = ''v''\<rparr>]"

definition ex_getEvents :: "nat \<Rightarrow> events_request \<Rightarrow> string + string raw_lend_event page" where
  "ex_getEvents k req =
     (if req = FromLedger 1 then Inr \<lparr>page_events = ex_events, page_cursor = ''0000000004294967296-0000000002''\<rparr>
      else if req = FromCursor ''0000000004294967296-0000000002'' then Inr \<lparr>page_events = [], page_cursor = ''0000000004294967296-0000000002''\<rparr>
      else Inl ''no such page'')"

definition ex_archive :: lend_store where
  "ex_archive = fst (snd (runLendEventsCycle (decodeLendEvent ex_sdk ''C'') ex_getEvents (Some 1) 0 \<lparr>ls_cursor = None, ls_rows = []\<rparr>))"

lemma ex_ledger: "ledgerOfCursor ''0000000004294967296-0000000001'' = 1" "ledgerOfCursor ''0000000004294967296-0000000002'' = 1"
  by (simp_all add: ledgerOfCursor_def dec_val_def code_def)

lemma ex_serves: "ex_getEvents k req = Inr p \<Longrightarrow> serves ev_id ex_events req p"
  by (auto simp: ex_getEvents_def serves_def ex_events_def ex_ledger less_char_code code_def split: if_splits)

lemma ex_run: "(lend_run (decodeLendEvent ex_sdk ''C'') ev_id ex_events 1)\<^sup>*\<^sup>* \<lparr>ls_cursor = None, ls_rows = []\<rparr> ex_archive"
  unfolding ex_archive_def by (rule r_into_rtranclp, rule lend_run.cycle) (auto simp: ex_serves)

lemma ex_chain: "sorted_wrt (<) (map ev_id ex_events)" "\<forall>e\<in>set ex_events. 1 \<le> ledgerOfCursor (ev_id e)"
  by (simp_all add: ex_events_def ex_ledger less_char_code code_def)

lemma ex_archive_cursor: "ls_cursor ex_archive = Some ''0000000004294967296-0000000002''"
  by code_simp

theorem archive_is_chain_witness:
  "map le_subject (lend_list ''C'' ex_archive) = [''aa'']"
proof -
  have "lend_list ''C'' ex_archive = List.map_filter (event_row (decodeLendEvent ex_sdk ''C'')) ex_events"
    using archive_is_chain [OF ex_run ex_chain ex_archive_cursor] by (simp add: ex_events_def less_char_code code_def)
  also have "map le_subject \<dots> = [''aa'']" by code_simp
  finally show ?thesis by simp
qed

end
