(* ===== verification/ArchiveFile.thy ===== *)
theory ArchiveFile
  imports LendEvents
begin

text \<open>
  \<^verbatim>\<open>relayer/src/lend-events/archive-file.ts\<close>: the archive as a text file, written by \<open>archiveLines\<close> and
  \<^verbatim>\<open>export-cli.ts\<close> and read, with every check and its error, by \<open>parseArchive\<close>. Decoding a stored
  \<^verbatim>\<open>rawXdr\<close> is a parameter, as in the code.
\<close>

section \<open>Writing\<close>

definition ARCHIVE_FORMAT :: string where "ARCHIVE_FORMAT = ''writz-lend-events''"
definition ARCHIVE_VERSION :: int where "ARCHIVE_VERSION = 1"

record archive_header =
  ah_network :: string
  ah_contract :: string
  ah_firstLedger :: "int option"
  ah_lastLedger :: "int option"
  ah_events :: int
  ah_cursor :: string

record archive_target =
  at_contract :: string
  at_network :: string

definition ledger_json :: "int option \<Rightarrow> json" where
  "ledger_json l = (case l of None \<Rightarrow> JNull | Some n \<Rightarrow> JNum n)"

definition header_json :: "archive_header \<Rightarrow> json" where
  "header_json h = JObj [(''format'', JStr ARCHIVE_FORMAT), (''version'', JNum ARCHIVE_VERSION),
     (''networkPassphrase'', JStr (ah_network h)), (''contractId'', JStr (ah_contract h)),
     (''firstLedger'', ledger_json (ah_firstLedger h)), (''lastLedger'', ledger_json (ah_lastLedger h)),
     (''events'', JNum (ah_events h)), (''cursor'', JStr (ah_cursor h))]"

definition row_json :: "lend_event_row \<Rightarrow> json" where
  "row_json r = JObj [(''id'', JStr (le_id r)), (''ledger'', JNum (int (le_ledger r))), (''txHash'', JStr (le_txHash r)),
     (''name'', JStr (le_name r)), (''subject'', JStr (le_subject r)), (''data'', JStr (le_data r)), (''rawXdr'', JStr (le_rawXdr r))]"

definition first_ledger :: "lend_event_row list \<Rightarrow> int option" where
  "first_ledger rows = (case rows of [] \<Rightarrow> None | r # _ \<Rightarrow> Some (int (le_ledger r)))"

definition last_ledger :: "lend_event_row list \<Rightarrow> int option" where
  "last_ledger rows = (if rows = [] then None else Some (int (le_ledger (last rows))))"

datatype archive_error =
    NothingToExport
  | EmptyFile
  | NotAnObject nat
  | NotAHeader
  | NotAString string nat
  | NotALedger string
  | OtherNetwork string
  | OtherContract string
  | HeaderCursor
  | NotAnEventId nat
  | OutOfOrder nat
  | PastCursor nat
  | LedgerMismatch nat
  | RawUndecodable nat
  | ColumnsMismatch nat
  | EventCount
  | EndLedgers

definition archiveLines :: "lend_event_row list \<times> string option \<Rightarrow> archive_target \<Rightarrow> archive_error + string list" where
  "archiveLines snapshot target =
     (case snapshot of
        (_, None) \<Rightarrow> Inl NothingToExport
      | (rows, Some cursor) \<Rightarrow> if cursor = [] then Inl NothingToExport else
          Inr (stringify (header_json \<lparr>ah_network = at_network target, ah_contract = at_contract target,
             ah_firstLedger = first_ledger rows, ah_lastLedger = last_ledger rows, ah_events = int (length rows), ah_cursor = cursor\<rparr>)
           # map (\<lambda>r. stringify (row_json r)) rows))"

text \<open>The file: each line followed by a newline.\<close>

definition archive_text :: "string list \<Rightarrow> string" where
  "archive_text lines = concat (map (\<lambda>l. l @ [CHR 0x0A]) lines)"

section \<open>Reading\<close>

fun split_lines :: "string \<Rightarrow> string list" where
  "split_lines [] = [[]]"
| "split_lines (c # s) =
     (if c = CHR 0x0A then [] # split_lines s
      else (case split_lines s of [] \<Rightarrow> [[c]] | l # ls \<Rightarrow> (c # l) # ls))"

definition parseLine :: "string \<Rightarrow> nat \<Rightarrow> archive_error + (string \<times> json) list" where
  "parseLine line n = (case JSON_parse line of Some (JObj o') \<Rightarrow> Inr o' | _ \<Rightarrow> Inl (NotAnObject n))"

definition str_field :: "(string \<times> json) list \<Rightarrow> string \<Rightarrow> nat \<Rightarrow> archive_error + string" where
  "str_field o' key n = (case js_get o' key of Some (JStr s) \<Rightarrow> Inr s | _ \<Rightarrow> Inl (NotAString key n))"

definition ledgerOrNull :: "(string \<times> json) list \<Rightarrow> string \<Rightarrow> archive_error + int option" where
  "ledgerOrNull o' key =
     (case js_get o' key of
        Some JNull \<Rightarrow> Inr None
      | Some (JNum v) \<Rightarrow> if v > 0 then Inr (Some v) else Inl (NotALedger key)
      | _ \<Rightarrow> Inl (NotALedger key))"

definition parse_header :: "archive_target \<Rightarrow> string \<Rightarrow> archive_error + archive_header" where
  "parse_header expected line =
     res_bind (parseLine line 1) (\<lambda>h.
     if js_get h ''format'' \<noteq> Some (JStr ARCHIVE_FORMAT) \<or> js_get h ''version'' \<noteq> Some (JNum ARCHIVE_VERSION) then Inl NotAHeader else
     res_bind (str_field h ''networkPassphrase'' 1) (\<lambda>net.
     res_bind (str_field h ''contractId'' 1) (\<lambda>contract.
     res_bind (ledgerOrNull h ''firstLedger'') (\<lambda>f.
     res_bind (ledgerOrNull h ''lastLedger'') (\<lambda>l.
     let ev = (case js_get h ''events'' of Some (JNum n) \<Rightarrow> n | _ \<Rightarrow> - 1) in
     res_bind (str_field h ''cursor'' 1) (\<lambda>cursor.
     if net \<noteq> at_network expected then Inl (OtherNetwork net)
     else if contract \<noteq> at_contract expected then Inl (OtherContract contract)
     else if \<not> isValidCursor cursor then Inl HeaderCursor
     else Inr \<lparr>ah_network = net, ah_contract = contract, ah_firstLedger = f, ah_lastLedger = l, ah_events = ev, ah_cursor = cursor\<rparr>))))))"

text \<open>One event line: the checks in the code's order. \<open>decode\<close> gives the columns of a \<^verbatim>\<open>rawXdr\<close>.\<close>

definition parse_row ::
    "(string \<Rightarrow> 'd + native \<times> string \<times> string) \<Rightarrow> archive_header \<Rightarrow> string \<Rightarrow> nat \<Rightarrow> string \<Rightarrow> archive_error + lend_event_row" where
  "parse_row decode h previous n line =
     res_bind (parseLine line n) (\<lambda>o'.
     res_bind (str_field o' ''id'' n) (\<lambda>id'.
     if \<not> isValidCursor id' then Inl (NotAnEventId n)
     else if id' \<le> previous then Inl (OutOfOrder n)
     else if id' > ah_cursor h then Inl (PastCursor n)
     else if js_get o' ''ledger'' \<noteq> Some (JNum (int (ledgerOfCursor id'))) then Inl (LedgerMismatch n)
     else
       res_bind (str_field o' ''txHash'' n) (\<lambda>txHash.
       res_bind (str_field o' ''name'' n) (\<lambda>name.
       res_bind (str_field o' ''subject'' n) (\<lambda>subject.
       res_bind (str_field o' ''data'' n) (\<lambda>data.
       res_bind (str_field o' ''rawXdr'' n) (\<lambda>rawXdr.
       (case decode rawXdr of
          Inl _ \<Rightarrow> Inl (RawUndecodable n)
        | Inr (dn, ds, dd) \<Rightarrow>
            if dn \<noteq> NStr name \<or> ds \<noteq> subject \<or> dd \<noteq> data then Inl (ColumnsMismatch n)
            else Inr \<lparr>le_id = id', le_contract = ah_contract h, le_ledger = ledgerOfCursor id', le_txHash = txHash,
                   le_name = name, le_subject = subject, le_data = data, le_rawXdr = rawXdr\<rparr>))))))))"

fun parse_rows ::
    "(string \<Rightarrow> 'd + native \<times> string \<times> string) \<Rightarrow> archive_header \<Rightarrow> string \<Rightarrow> nat \<Rightarrow> string list \<Rightarrow> archive_error + lend_event_row list" where
  "parse_rows decode h previous n [] = Inr []"
| "parse_rows decode h previous n (line # lines) =
     res_bind (parse_row decode h previous n line) (\<lambda>r.
     res_bind (parse_rows decode h (le_id r) (Suc n) lines) (\<lambda>rs. Inr (r # rs)))"

definition parseArchive ::
    "string \<Rightarrow> archive_target \<Rightarrow> (string \<Rightarrow> 'd + native \<times> string \<times> string) \<Rightarrow> archive_error + archive_header \<times> lend_event_row list" where
  "parseArchive text expected decode =
     (case filter (\<lambda>l. trim l \<noteq> []) (split_lines text) of
        [] \<Rightarrow> Inl EmptyFile
      | l # lines \<Rightarrow>
          res_bind (parse_header expected l) (\<lambda>h.
          res_bind (parse_rows decode h [] 2 lines) (\<lambda>rows.
          if int (length rows) \<noteq> ah_events h then Inl EventCount
          else if first_ledger rows \<noteq> ah_firstLedger h \<or> last_ledger rows \<noteq> ah_lastLedger h then Inl EndLedgers
          else Inr (h, rows))))"

section \<open>Lines\<close>

lemma split_lines_line: "CHR 0x0A \<notin> set l \<Longrightarrow> split_lines (l @ CHR 0x0A # rest) = l # split_lines rest"
  by (induction l) auto

lemma split_archive_text: "(\<And>l. l \<in> set lines \<Longrightarrow> CHR 0x0A \<notin> set l) \<Longrightarrow> split_lines (archive_text lines) = lines @ [[]]"
  by (induction lines) (simp_all add: archive_text_def split_lines_line)

lemma file_lines:
  assumes "\<And>l. l \<in> set lines \<Longrightarrow> \<exists>kvs. l = stringify (JObj kvs)"
  shows "filter (\<lambda>l. trim l \<noteq> []) (split_lines (archive_text lines)) = lines"
proof -
  have "CHR 0x0A \<notin> set l" "trim l \<noteq> []" if "l \<in> set lines" for l
    using assms [OF that] stringify_one_line stringify_object_not_blank by (auto simp del: stringify.simps)
  then show ?thesis by (subst split_archive_text) (auto simp: filter_id_conv trim_def)
qed

section \<open>Round trip\<close>

text \<open>What a row of the archive satisfies.\<close>

definition row_ok :: "(string \<Rightarrow> 'd + native \<times> string \<times> string) \<Rightarrow> string \<Rightarrow> string \<Rightarrow> lend_event_row \<Rightarrow> bool" where
  "row_ok decode contract cursor r \<longleftrightarrow> isValidCursor (le_id r) \<and> le_id r \<le> cursor \<and> le_ledger r = ledgerOfCursor (le_id r)
     \<and> 0 < le_ledger r \<and> le_contract r = contract \<and> decode (le_rawXdr r) = Inr (NStr (le_name r), le_subject r, le_data r)"

lemma parse_row_json:
  assumes "row_ok decode (ah_contract h) (ah_cursor h) r" "previous < le_id r"
  shows "parse_row decode h previous n (stringify (row_json r)) = Inr r"
proof -
  have "JSON_parse (stringify (row_json r)) = Some (row_json r)" by (rule JSON_parse_stringify) (simp add: row_json_def)
  then have line: "parseLine (stringify (row_json r)) n = Inr (case row_json r of JObj o' \<Rightarrow> o')" by (simp add: parseLine_def row_json_def)
  show ?thesis
    using assms unfolding parse_row_def line by (simp add: row_json_def str_field_def row_ok_def not_le not_less)
qed

lemma parse_rows_json:
  "(\<And>r. r \<in> set rows \<Longrightarrow> row_ok decode (ah_contract h) (ah_cursor h) r) \<Longrightarrow> sorted_wrt (<) (map le_id rows) \<Longrightarrow>
   (\<And>r. r \<in> set rows \<Longrightarrow> previous < le_id r) \<Longrightarrow> parse_rows decode h previous n (map (\<lambda>r. stringify (row_json r)) rows) = Inr rows"
proof (induction rows arbitrary: previous n)
  case (Cons r rs)
  then have "parse_row decode h previous n (stringify (row_json r)) = Inr r" by (intro parse_row_json) auto
  moreover have "parse_rows decode h (le_id r) (Suc n) (map (\<lambda>r. stringify (row_json r)) rs) = Inr rs"
    using Cons.prems by (intro Cons.IH) auto
  ultimately show ?case by simp
qed simp

lemma parse_header_json:
  assumes "isValidCursor (ah_cursor h)" "ah_network h = at_network target" "ah_contract h = at_contract target"
    "\<And>l. ah_firstLedger h = Some l \<Longrightarrow> 0 < l" "\<And>l. ah_lastLedger h = Some l \<Longrightarrow> 0 < l"
  shows "parse_header target (stringify (header_json h)) = Inr h"
proof -
  have "json_ok (header_json h)" by (simp add: header_json_def ledger_json_def split: option.splits)
  from JSON_parse_stringify [OF this]
  have line: "parseLine (stringify (header_json h)) 1 = Inr (case header_json h of JObj o' \<Rightarrow> o')" by (simp add: parseLine_def header_json_def)
  show ?thesis
    using assms unfolding parse_header_def line
    by (cases "ah_firstLedger h"; cases "ah_lastLedger h")
      (simp_all add: header_json_def str_field_def ledgerOrNull_def ledger_json_def Let_def)
qed

lemma archive_file_roundtrip:
  assumes rows: "\<And>r. r \<in> set rows \<Longrightarrow> row_ok decode (at_contract target) cursor r" "sorted_wrt (<) (map le_id rows)"
    and cursor: "isValidCursor cursor" and lines: "archiveLines (rows, Some cursor) target = Inr lines"
  shows "parseArchive (archive_text lines) target decode
    = Inr (\<lparr>ah_network = at_network target, ah_contract = at_contract target, ah_firstLedger = first_ledger rows,
        ah_lastLedger = last_ledger rows, ah_events = int (length rows), ah_cursor = cursor\<rparr>, rows)"
proof -
  let ?h = "\<lparr>ah_network = at_network target, ah_contract = at_contract target, ah_firstLedger = first_ledger rows,
        ah_lastLedger = last_ledger rows, ah_events = int (length rows), ah_cursor = cursor\<rparr>"
  have l: "lines = stringify (header_json ?h) # map (\<lambda>r. stringify (row_json r)) rows"
    using lines by (simp add: archiveLines_def split: if_splits)
  have "filter (\<lambda>l. trim l \<noteq> []) (split_lines (archive_text lines)) = lines"
    by (rule file_lines) (auto simp: l header_json_def row_json_def simp del: stringify.simps)
  moreover have pos: "0 < le_ledger r" if "r \<in> set rows" for r using rows(1) [OF that] by (simp add: row_ok_def)
  have "parse_header target (stringify (header_json ?h)) = Inr ?h"
    by (rule parse_header_json) (use pos cursor in \<open>auto simp: first_ledger_def last_ledger_def split: list.splits if_splits\<close>)
  moreover have "[] < le_id r" if "r \<in> set rows" for r
    using rows(1) [OF that] by (cases "le_id r") (auto simp: row_ok_def isValidCursor_def)
  then have "parse_rows decode ?h [] 2 (map (\<lambda>r. stringify (row_json r)) rows) = Inr rows"
    using rows by (intro parse_rows_json) auto
  ultimately show ?thesis by (simp add: parseArchive_def l)
qed

section \<open>From the chain to the file\<close>

lemma lend_page_cursor: "lend_page decode get dl s = Inr (s', tip) \<Longrightarrow> \<exists>c. ls_cursor s' = Some c \<and> isValidCursor c"
  by (auto simp: lend_page_def lend_commit_def assertValidCursor_def split: sum.splits if_splits)

lemma lend_pages_cursor:
  "(\<And>c. ls_cursor s = Some c \<Longrightarrow> isValidCursor c) \<Longrightarrow> ls_cursor (fst (snd (lend_pages decode getEvents dl n k s))) = Some c \<Longrightarrow> isValidCursor c"
proof (induction n arbitrary: k s)
  case (Suc n)
  show ?case
  proof (cases "lend_page decode (getEvents k) dl s")
    case (Inr x)
    obtain s' tip where x: "x = (s', tip)" by (cases x)
    from lend_page_cursor [OF Inr [unfolded x]] have "\<And>c. ls_cursor s' = Some c \<Longrightarrow> isValidCursor c" by auto
    from Suc.IH [OF this] Suc.prems(2) Inr x this show ?thesis by (auto split: if_splits)
  qed (use Suc.prems in simp)
qed simp

lemma lend_runs_cursor:
  assumes "(lend_run decode idof chain deploy)\<^sup>*\<^sup>* s s'" "\<And>c. ls_cursor s = Some c \<Longrightarrow> isValidCursor c" "ls_cursor s' = Some c"
  shows "isValidCursor c"
  using assms(1, 3)
proof (induction arbitrary: c rule: rtranclp_induct)
  case base
  then show ?case by (rule assms(2))
next
  case (step y z)
  from step.hyps(2) obtain getEvents dl k where "z = fst (snd (runLendEventsCycle decode getEvents dl k y))" by (rule lend_runE) blast
  with step.prems step.IH show ?case using lend_pages_cursor [of y decode getEvents dl MAX_PAGES_PER_POLL k c]
    by (simp add: runLendEventsCycle_def)
qed

lemma json_strings_map [simp]: "json_strings (map (\<lambda>t. JStr (f t)) ts) = Some (map f ts)"
  by (induction ts) simp_all

lemma all_some_map: "(\<And>x. x \<in> set xs \<Longrightarrow> f x = Some (g x)) \<Longrightarrow> all_some (map f xs) = Some (map g xs)"
  by (induction xs) simp_all

lemma decodeRawXdr_encode:
  assumes "\<And>x. fromXDR sdk (toXDR sdk x) = Some x"
  shows "decodeRawXdr sdk (encodeRawXdr sdk topic v) = decodeColumns sdk topic v"
proof -
  let ?o = "[(''topic'', JArr (map (\<lambda>t. JStr (toXDR sdk t)) topic)), (''value'', JStr (toXDR sdk v))]"
  have "JSON_parse (stringify (JObj ?o)) = Some (JObj ?o)" by (rule JSON_parse_stringify) (simp add: list_all_iff)
  moreover have "all_some (map (fromXDR sdk) (map (toXDR sdk) topic)) = Some (map id topic)"
    using all_some_map [of topic "fromXDR sdk \<circ> toXDR sdk" id] assms by simp
  ultimately show ?thesis by (simp add: decodeRawXdr_def encodeRawXdr_def assms del: stringify.simps)
qed

section \<open>Properties\<close>

text \<open>C13. The archive survives the trip through a file: whatever run of cycles filled it, the file written
  from a snapshot is accepted for the same deployment and gives back the cursor and exactly the rows of
  the archive, every string and newline in them included.\<close>

theorem archive_export_import:
  assumes "(lend_run (decodeLendEvent sdk contract) ev_id chain deploy)\<^sup>*\<^sup>* \<lparr>ls_cursor = None, ls_rows = []\<rparr> s"
    "sorted_wrt (<) (map ev_id chain)" "\<forall>e\<in>set chain. deploy \<le> ledgerOfCursor (ev_id e)"
    and ids: "\<forall>e\<in>set chain. isValidCursor (ev_id e) \<and> ev_ledger e = ledgerOfCursor (ev_id e) \<and> 0 < ev_ledger e"
    and codec: "\<And>x. fromXDR sdk (toXDR sdk x) = Some x" and read: "ls_cursor s = Some c" and target: "at_contract target = contract"
  shows "\<exists>lines h. archiveLines (lend_snapshot contract s) target = Inr lines \<and> ah_cursor h = c
    \<and> parseArchive (archive_text lines) target (decodeRawXdr sdk) = Inr (h, lend_list contract s)"
proof -
  let ?want = "event_row (decodeLendEvent sdk contract)"
  have "mirrors_chain (decodeLendEvent sdk contract) ev_id chain \<lparr>ls_cursor = None, ls_rows = []\<rparr>"
    by (simp add: mirrors_chain_def lends.mirrors_def)
  from lend_list_mirror [OF lend_runs_mirror [OF assms(1) lend_chain_ok [OF assms(2, 3)] this] assms(2) read]
  have rows: "lend_list contract s = List.map_filter ?want (filter (\<lambda>e. ev_id e \<le> c) chain)" .
  have c: "isValidCursor c" by (rule lend_runs_cursor [OF assms(1) _ read]) simp
  have sorted: "sorted_wrt (<) (map le_id (lend_list contract s))"
    unfolding rows map_filter_ids filter_filter using assms(2) by (simp add: sorted_wrt_map sorted_wrt_filter)
  have ok: "row_ok (decodeRawXdr sdk) (at_contract target) c r" if "r \<in> set (lend_list contract s)" for r
  proof -
    from that obtain e where e: "e \<in> set chain" "ev_id e \<le> c" "decodeLendEvent sdk contract e = Inr (Some r)"
      by (auto simp: rows event_row_Some)
    with row_of_event [OF e(3)] ids decodeRawXdr_encode [OF codec] target show ?thesis by (auto simp: row_ok_def)
  qed
  obtain lines where lines: "archiveLines (lend_list contract s, Some c) target = Inr lines"
    using c by (cases "c = []") (auto simp: archiveLines_def isValidCursor_def)
  from archive_file_roundtrip [OF ok sorted c lines] lines show ?thesis by (force simp: lend_snapshot_def read)
qed

lemma parse_row_ok:
  assumes "parse_row decode h previous n line = Inr r"
  shows "previous < le_id r \<and> isValidCursor (le_id r) \<and> le_id r \<le> ah_cursor h
    \<and> le_ledger r = ledgerOfCursor (le_id r) \<and> le_contract r = ah_contract h \<and> decode (le_rawXdr r) = Inr (NStr (le_name r), le_subject r, le_data r)"
proof -
  from assms obtain o' id' tx nm sj dt raw where r: "isValidCursor id'" "\<not> id' \<le> previous" "\<not> id' > ah_cursor h"
    "(case decode raw of Inl _ \<Rightarrow> Inl (RawUndecodable n)
        | Inr (dn, ds, dd) \<Rightarrow>
            if dn \<noteq> NStr nm \<or> ds \<noteq> sj \<or> dd \<noteq> dt then Inl (ColumnsMismatch n)
            else Inr \<lparr>le_id = id', le_contract = ah_contract h, le_ledger = ledgerOfCursor id', le_txHash = tx,
                   le_name = nm, le_subject = sj, le_data = dt, le_rawXdr = raw\<rparr>) = Inr r"
    by (auto simp: parse_row_def res_simps split: if_splits)
  then show ?thesis by (cases "decode raw") (auto simp: not_le not_less split: if_splits)
qed

lemma parse_rows_ok:
  "parse_rows decode h previous n lines = Inr rows \<Longrightarrow> sorted_wrt (<) (map le_id rows) \<and> length rows = length lines
    \<and> (\<forall>r\<in>set rows. previous < le_id r \<and> isValidCursor (le_id r) \<and> le_id r \<le> ah_cursor h
    \<and> le_ledger r = ledgerOfCursor (le_id r) \<and> le_contract r = ah_contract h \<and> decode (le_rawXdr r) = Inr (NStr (le_name r), le_subject r, le_data r))"
proof (induction lines arbitrary: previous n rows)
  case (Cons line lines)
  then obtain r rs where r: "parse_row decode h previous n line = Inr r" "parse_rows decode h (le_id r) (Suc n) lines = Inr rs" "rows = r # rs"
    by (auto simp: res_simps)
  from Cons.IH [OF r(2)] parse_row_ok [OF r(1)] show ?case unfolding r(3) by (auto intro: less_trans)
qed simp

text \<open>C20. What a file must be to be accepted: it is for this network and contract; every event line is one row
  whose ID is well formed, comes after the previous one and no later than the header's cursor, and names
  the row's ledger; the columns are what the row's \<^verbatim>\<open>rawXdr\<close> decodes to, so an edit of the columns alone is
  refused; and the header counts the rows and names the ledgers of the first and the last.\<close>

theorem accepted_archive_consistent:
  assumes "parseArchive file_text target decode = Inr (h, rows)"
  shows "ah_contract h = at_contract target \<and> ah_network h = at_network target \<and> isValidCursor (ah_cursor h)
    \<and> sorted_wrt (<) (map le_id rows) \<and> ah_events h = int (length rows)
    \<and> ah_firstLedger h = first_ledger rows \<and> ah_lastLedger h = last_ledger rows
    \<and> Suc (length rows) = length (filter (\<lambda>l. trim l \<noteq> []) (split_lines file_text))
    \<and> (\<forall>r\<in>set rows. isValidCursor (le_id r) \<and> le_id r \<le> ah_cursor h \<and> le_ledger r = ledgerOfCursor (le_id r)
         \<and> le_contract r = at_contract target \<and> decode (le_rawXdr r) = Inr (NStr (le_name r), le_subject r, le_data r))"
proof -
  from assms obtain l lines where r: "filter (\<lambda>l. trim l \<noteq> []) (split_lines file_text) = l # lines" "parse_header target l = Inr h"
    "parse_rows decode h [] 2 lines = Inr rows" "int (length rows) = ah_events h"
    "first_ledger rows = ah_firstLedger h" "last_ledger rows = ah_lastLedger h"
    by (auto simp: parseArchive_def res_simps split: list.splits if_splits)
  have "ah_contract h = at_contract target \<and> ah_network h = at_network target \<and> isValidCursor (ah_cursor h)"
    using r(2) by (auto simp: parse_header_def res_simps Let_def split: if_splits)
  with parse_rows_ok [OF r(3)] r show ?thesis by auto
qed

definition ex_target :: archive_target where "ex_target = \<lparr>at_contract = ''C'', at_network = ''testnet''\<rparr>"

lemma ex_ids: "\<forall>e\<in>set ex_events. isValidCursor (ev_id e) \<and> ev_ledger e = ledgerOfCursor (ev_id e) \<and> 0 < ev_ledger e"
proof -
  have "isValidCursor ''0000000004294967296-0000000001''" "isValidCursor ''0000000004294967296-0000000002''" by code_simp+
  then show ?thesis by (simp add: ex_events_def ex_ledger)
qed

theorem archive_export_import_witness:
  "\<exists>lines h. archiveLines (lend_snapshot ''C'' ex_archive) ex_target = Inr lines
    \<and> parseArchive (archive_text lines) ex_target (decodeRawXdr ex_sdk) = Inr (h, lend_list ''C'' ex_archive)"
  using archive_export_import [OF ex_run ex_chain ex_ids _ ex_archive_cursor, of ex_target]
  by (auto simp: ex_sdk_def ex_target_def)

theorem accepted_archive_consistent_witness:
  "\<exists>file_text h rows. parseArchive file_text ex_target (decodeRawXdr ex_sdk) = Inr (h, rows) \<and> rows \<noteq> []
     \<and> sorted_wrt (<) (map le_id rows) \<and> ah_events h = int (length rows)"
proof -
  let ?r = "\<lparr>le_id = ''0000000004294967296-0000000001'', le_contract = ''C'', le_ledger = 1, le_txHash = ''ff'', le_name = ''deposit'',
    le_subject = ''aa'', le_data = stringify (JStr ''v''), le_rawXdr = encodeRawXdr ex_sdk [''deposit'', ''aa''] ''v''\<rparr>"
  have cur: "isValidCursor ''0000000004294967296-0000000001''" by code_simp
  have dec: "decodeRawXdr ex_sdk (encodeRawXdr ex_sdk [''deposit'', ''aa''] ''v'') = Inr (NStr ''deposit'', ''aa'', stringify (JStr ''v''))"
    by (subst decodeRawXdr_encode) (simp_all add: ex_sdk_def decodeColumns_def)
  have "row_ok (decodeRawXdr ex_sdk) (at_contract ex_target) ''0000000004294967296-0000000001'' ?r"
    using cur dec by (simp add: row_ok_def ex_ledger ex_target_def)
  then obtain file_text h where parsed: "parseArchive file_text ex_target (decodeRawXdr ex_sdk) = Inr (h, [?r])"
    using archive_file_roundtrip [of "[?r]" "decodeRawXdr ex_sdk" ex_target "''0000000004294967296-0000000001''", OF _ _ cur]
    by (auto simp: archiveLines_def)
  from accepted_archive_consistent [OF parsed] parsed show ?thesis by blast
qed

end
