(* ===== verification/LendRebuild.thy ===== *)
theory LendRebuild
  imports ArchiveFile Releases Effect
begin

text \<open>
  \<^verbatim>\<open>relayer/src/lend-rebuild/replay.ts\<close>, \<^verbatim>\<open>verify.ts\<close> and \<^verbatim>\<open>rebuild.ts\<close>: what the archived events say the
  contract's state must be, the check against the contract's views, and the rebuild, which swaps the
  archive and queues the missing releases only when they agree. The RPC server and the contract's views
  are parameters; every call to them advances a counter and the answer may depend on it.
\<close>

section \<open>Replay\<close>

datatype expected_status = Active | Closed | Liquidated

record replayed_state =
  positions :: "(string, expected_status) jsmap"
  scaledBySupplier :: "(string, int) jsmap"
  totalScaled :: int
  repaidInFull :: "string list"

datatype replay_error = BadData | NoScaledAmount | BadInteger

text \<open>\<^verbatim>\<open>BigInt(s)\<close> of a decimal string; a literal with a radix prefix is outside the model.\<close>

definition BigInt_str :: "string \<Rightarrow> int option" where
  "BigInt_str s =
     (case trim s of
        [] \<Rightarrow> Some 0
      | c # t \<Rightarrow>
          let digits = (\<lambda>d. if d \<noteq> [] \<and> list_all is_digit d then Some (int (dec_val d)) else None) in
          if c = CHR ''-'' then map_option uminus (digits t)
          else if c = CHR ''+'' then digits t
          else digits (c # t))"

definition scaledAmount :: "lend_event_row \<Rightarrow> replay_error + int" where
  "scaledAmount row =
     (case JSON_parse (le_data row) of
        None \<Rightarrow> Inl BadData
      | Some JNull \<Rightarrow> Inl BadData
      | Some (JObj kvs) \<Rightarrow>
          (case js_get kvs ''scaled_amount'' of
             None \<Rightarrow> Inl NoScaledAmount
           | Some (JStr s) \<Rightarrow> (case BigInt_str s of None \<Rightarrow> Inl BadInteger | Some i \<Rightarrow> Inr i)
           | Some (JNum i) \<Rightarrow> Inr i
           | Some (JBool b) \<Rightarrow> Inr (if b then 1 else 0)
           | Some _ \<Rightarrow> Inl BadInteger)
      | Some _ \<Rightarrow> Inl NoScaledAmount)"

definition replay_row :: "lend_event_row \<Rightarrow> replayed_state \<Rightarrow> replay_error + replayed_state" where
  "replay_row row st =
     (let balance = (case js_get (scaledBySupplier st) (le_subject row) of None \<Rightarrow> 0 | Some b \<Rightarrow> b) in
      if le_name row = ''deposit'' then Inr (st\<lparr>positions := js_set (le_subject row) Active (positions st)\<rparr>)
      else if le_name row = ''repay_full'' then
        Inr (st\<lparr>positions := js_set (le_subject row) Closed (positions st), repaidInFull := repaidInFull st @ [le_subject row]\<rparr>)
      else if le_name row = ''liquidate'' then Inr (st\<lparr>positions := js_set (le_subject row) Liquidated (positions st)\<rparr>)
      else if le_name row = ''supply'' then
        res_bind (scaledAmount row) (\<lambda>a. Inr (st\<lparr>scaledBySupplier := js_set (le_subject row) (balance + a) (scaledBySupplier st)\<rparr>))
      else if le_name row = ''withdraw'' then
        res_bind (scaledAmount row) (\<lambda>a. Inr (st\<lparr>scaledBySupplier := js_set (le_subject row) (balance - a) (scaledBySupplier st)\<rparr>))
      else Inr st)"

fun replay_rows :: "lend_event_row list \<Rightarrow> replayed_state \<Rightarrow> replay_error + replayed_state" where
  "replay_rows [] st = Inr st"
| "replay_rows (r # rs) st = res_bind (replay_row r st) (replay_rows rs)"

definition replay :: "lend_event_row list \<Rightarrow> replay_error + replayed_state" where
  "replay rows = res_bind (replay_rows rows \<lparr>positions = [], scaledBySupplier = [], totalScaled = 0, repaidInFull = []\<rparr>)
     (\<lambda>st. Inr (st\<lparr>totalScaled := sum_list (map snd (scaledBySupplier st))\<rparr>))"

section \<open>Verification\<close>

text \<open>The contract's views: \<open>positionStatus\<close> is \<^const>\<open>None\<close> when there is no such position; a status the
  code does not expect is its tag.\<close>

datatype chain_status = Known expected_status | Other string

record chain_reader =
  positionStatus :: "nat \<Rightarrow> string \<Rightarrow> string + chain_status option"
  scaledSupply :: "nat \<Rightarrow> string \<Rightarrow> string + int"
  totalScaledSupply :: "nat \<Rightarrow> string + int"
  hasRelease :: "nat \<Rightarrow> string \<Rightarrow> string + bool"

datatype mismatch =
    PositionMismatch string expected_status "chain_status option"
  | SupplierMismatch string int int
  | TotalMismatch int int

record verify_result =
  vr_mismatch :: "mismatch option"
  vr_missing :: "string list"

definition ask :: "(nat \<Rightarrow> string + 'a) \<Rightarrow> (nat, string, 'a) eff" where
  "ask f = (\<lambda>k. (Suc k, f k))"

fun verify_positions :: "chain_reader \<Rightarrow> (string \<times> expected_status) list \<Rightarrow> (nat, string, mismatch option) eff" where
  "verify_positions chain [] = eff_return None"
| "verify_positions chain ((txid, expected) # ps) =
     eff_bind (ask (\<lambda>k. positionStatus chain k txid)) (\<lambda>status.
     if status \<noteq> Some (Known expected) then eff_return (Some (PositionMismatch txid expected status))
     else verify_positions chain ps)"

fun verify_suppliers :: "chain_reader \<Rightarrow> (string \<times> int) list \<Rightarrow> (nat, string, mismatch option) eff" where
  "verify_suppliers chain [] = eff_return None"
| "verify_suppliers chain ((supplier, expected) # ps) =
     eff_bind (ask (\<lambda>k. scaledSupply chain k supplier)) (\<lambda>scaled.
     if scaled \<noteq> expected then eff_return (Some (SupplierMismatch supplier expected scaled))
     else verify_suppliers chain ps)"

fun missing_releases :: "chain_reader \<Rightarrow> string list \<Rightarrow> (nat, string, string list) eff" where
  "missing_releases chain [] = eff_return []"
| "missing_releases chain (txid # ts) =
     eff_bind (ask (\<lambda>k. hasRelease chain k txid)) (\<lambda>there.
     eff_bind (missing_releases chain ts) (\<lambda>rest.
     eff_return (if there then rest else txid # rest)))"

definition verifyAgainstChain :: "replayed_state \<Rightarrow> chain_reader \<Rightarrow> (nat, string, verify_result) eff" where
  "verifyAgainstChain st chain =
     eff_bind (verify_positions chain (positions st)) (\<lambda>m. case m of Some x \<Rightarrow> eff_return \<lparr>vr_mismatch = Some x, vr_missing = []\<rparr> | None \<Rightarrow>
     eff_bind (verify_suppliers chain (scaledBySupplier st)) (\<lambda>m. case m of Some x \<Rightarrow> eff_return \<lparr>vr_mismatch = Some x, vr_missing = []\<rparr> | None \<Rightarrow>
     eff_bind (ask (totalScaledSupply chain)) (\<lambda>supply.
     if supply \<noteq> totalScaled st then eff_return \<lparr>vr_mismatch = Some (TotalMismatch (totalScaled st) supply), vr_missing = []\<rparr>
     else eff_bind (missing_releases chain (repaidInFull st)) (\<lambda>missing.
     eff_return \<lparr>vr_mismatch = None, vr_missing = missing\<rparr>))))"

section \<open>Rebuild\<close>

definition MAX_VERIFY_ROUNDS :: nat where "MAX_VERIFY_ROUNDS = 5"
definition MAX_CYCLES :: nat where "MAX_CYCLES = 1000"

record archive_source =
  as_rows :: "lend_event_row list"
  as_cursor :: string

record ('ev, 'd) rebuild_deps =
  rb_ledgerRange :: "nat \<Rightarrow> string + nat \<times> nat"
  rb_getEvents :: "nat \<Rightarrow> events_request \<Rightarrow> string + 'ev page"
  rb_chain :: chain_reader
  rb_contract :: string
  rb_deployLedger :: nat
  rb_decode :: "'ev \<Rightarrow> 'd + lend_event_row option"
  rb_archive :: "archive_source option"
  rb_dryRun :: bool
  rb_now :: int

datatype 'd rebuild_error =
    RangeFailed string
  | ArchiveTooOld
  | ArchivePastTip
  | OutsideRetention
  | BadArchiveCursor cursor_error
  | PollFailed "'d lend_error"
  | NoTip
  | ReplayFailed replay_error
  | ChainFailed string
  | TooBusy
  | RebuildMismatch mismatch
  | NoCursor
  | QueueFailed cursor_error

record rebuild_report =
  rp_events :: nat
  rp_positions :: nat
  rp_suppliers :: nat
  rp_totalScaled :: int
  rp_repaidInFull :: nat
  rp_missing :: "string list"
  rp_swapped :: bool

definition check_range :: "('ev, 'd) rebuild_deps \<Rightarrow> nat \<times> nat \<Rightarrow> 'd rebuild_error + unit" where
  "check_range d ledgers =
     (case ledgers of (oldest, latest) \<Rightarrow>
      case rb_archive d of
        Some a \<Rightarrow>
          (let resume = ledgerOfCursor (as_cursor a) in
           if resume < oldest then Inl ArchiveTooOld
           else if resume > latest then Inl ArchivePastTip
           else Inr ())
      | None \<Rightarrow> if rb_deployLedger d < oldest then Inl OutsideRetention else Inr ())"

text \<open>The database the replay goes into, with the file's events when there is a file.\<close>

definition temp_store :: "('ev, 'd) rebuild_deps \<Rightarrow> 'd rebuild_error + lend_store" where
  "temp_store d =
     (case rb_archive d of
        None \<Rightarrow> Inr \<lparr>ls_cursor = None, ls_rows = []\<rparr>
      | Some a \<Rightarrow>
         (case lend_commit (as_rows a) (as_cursor a) \<lparr>ls_cursor = None, ls_rows = []\<rparr> of
            Inl e \<Rightarrow> Inl (BadArchiveCursor e)
          | Inr s \<Rightarrow> Inr s))"

fun catch_up :: "('ev, 'd) rebuild_deps \<Rightarrow> nat \<Rightarrow> nat \<Rightarrow> lend_store \<Rightarrow> nat \<times> lend_store \<times> ('d rebuild_error + unit)" where
  "catch_up d 0 k s = (k, s, Inl NoTip)"
| "catch_up d (Suc n) k s =
     (case runLendEventsCycle (rb_decode d) (rb_getEvents d) (Some (rb_deployLedger d)) k s of
        (k', s', Inl e) \<Rightarrow> (k', s', Inl (PollFailed e))
      | (k', s', Inr tip) \<Rightarrow> if tip then (k', s', Inr ()) else catch_up d n k' s')"

text \<open>Replay, views, then the events again: the round counts only if none arrived in between. \<open>n\<close> is the
  number of rounds left.\<close>

fun verify_rounds ::
    "('ev, 'd) rebuild_deps \<Rightarrow> nat \<Rightarrow> nat \<Rightarrow> lend_store
     \<Rightarrow> nat \<times> ('d rebuild_error + lend_store \<times> replayed_state \<times> string list)" where
  "verify_rounds d 0 k temp = (k, Inl TooBusy)"
| "verify_rounds d (Suc n) k temp =
     (let before = length (lend_list (rb_contract d) temp) in
      case replay (lend_list (rb_contract d) temp) of
        Inl e \<Rightarrow> (k, Inl (ReplayFailed e))
      | Inr st \<Rightarrow>
         (case verifyAgainstChain st (rb_chain d) k of
            (k1, Inl m) \<Rightarrow> (k1, Inl (ChainFailed m))
          | (k1, Inr v) \<Rightarrow>
             (case catch_up d MAX_CYCLES k1 temp of
                (k2, temp', Inl e) \<Rightarrow> (k2, Inl e)
              | (k2, temp', Inr _) \<Rightarrow>
                  if length (lend_list (rb_contract d) temp') \<noteq> before then
                    (if n = 0 then (k2, Inl TooBusy) else verify_rounds d n k2 temp')
                  else (case vr_mismatch v of
                      Some m \<Rightarrow> (k2, Inl (RebuildMismatch m))
                    | None \<Rightarrow> (k2, Inr (temp', st, vr_missing v))))))"

text \<open>The relayer's files: the live archive and the watcher's database.\<close>

record data_dir =
  dd_archive :: lend_store
  dd_releases :: release_db

text \<open>After the checks: the report and, unless it is a dry run, the swap and the queue.\<close>

definition swap_in ::
    "('ev, 'd) rebuild_deps \<Rightarrow> data_dir \<Rightarrow> lend_store \<times> replayed_state \<times> string list \<Rightarrow> data_dir \<times> ('d rebuild_error + rebuild_report)" where
  "swap_in d dir checked =
     (case checked of (temp, st, missing) \<Rightarrow>
      let report = \<lparr>rp_events = length (lend_list (rb_contract d) temp), rp_positions = length (positions st),
            rp_suppliers = length (scaledBySupplier st), rp_totalScaled = totalScaled st,
            rp_repaidInFull = length (repaidInFull st), rp_missing = missing, rp_swapped = \<not> rb_dryRun d\<rparr> in
      if rb_dryRun d then (dir, Inr report)
      else (case ls_cursor temp of
          None \<Rightarrow> (dir, Inl NoCursor)
        | Some cursor \<Rightarrow>
            (case recordBatch (rb_contract d) missing cursor (rb_now d) (dd_releases dir) of
               Inl e \<Rightarrow> (dir\<lparr>dd_archive := temp\<rparr>, Inl (QueueFailed e))
             | Inr rel \<Rightarrow> (dir\<lparr>dd_archive := temp, dd_releases := rel\<rparr>, Inr report))))"

definition rebuildLendState ::
    "('ev, 'd) rebuild_deps \<Rightarrow> data_dir \<Rightarrow> data_dir \<times> ('d rebuild_error + rebuild_report)" where
  "rebuildLendState d dir =
     (case rb_ledgerRange d 0 of
        Inl m \<Rightarrow> (dir, Inl (RangeFailed m))
      | Inr ledgers \<Rightarrow>
     (case check_range d ledgers of
        Inl e \<Rightarrow> (dir, Inl e)
      | Inr _ \<Rightarrow>
     (case temp_store d of
        Inl e \<Rightarrow> (dir, Inl e)
      | Inr temp0 \<Rightarrow>
     (case catch_up d MAX_CYCLES 1 temp0 of
        (k, temp, Inl e) \<Rightarrow> (dir, Inl e)
      | (k, temp, Inr _) \<Rightarrow>
     (case verify_rounds d MAX_VERIFY_ROUNDS k temp of
        (_, Inl e) \<Rightarrow> (dir, Inl e)
      | (_, Inr checked) \<Rightarrow> swap_in d dir checked)))))"

section \<open>What a replay says\<close>

definition status_event :: "string \<Rightarrow> expected_status option" where
  "status_event name =
     (if name = ''deposit'' then Some Active else if name = ''repay_full'' then Some Closed
      else if name = ''liquidate'' then Some Liquidated else None)"

text \<open>The reference: the last status event of a position, the signed sum of a supplier's amounts.\<close>

definition last_status :: "lend_event_row list \<Rightarrow> string \<Rightarrow> expected_status option" where
  "last_status rows x = (case filter (\<lambda>r. le_subject r = x \<and> status_event (le_name r) \<noteq> None) rows of
     [] \<Rightarrow> None | rs \<Rightarrow> status_event (le_name (last rs)))"

definition signed_amount :: "lend_event_row \<Rightarrow> int" where
  "signed_amount r = (let a = (case scaledAmount r of Inr a \<Rightarrow> a | Inl _ \<Rightarrow> 0) in
     if le_name r = ''supply'' then a else if le_name r = ''withdraw'' then - a else 0)"

definition is_supply_event :: "lend_event_row \<Rightarrow> bool" where
  "is_supply_event r \<longleftrightarrow> le_name r = ''supply'' \<or> le_name r = ''withdraw''"

definition replay_spec :: "lend_event_row list \<Rightarrow> replayed_state \<Rightarrow> bool" where
  "replay_spec rows st \<longleftrightarrow> js_ok (positions st) \<and> js_ok (scaledBySupplier st)
     \<and> (\<forall>x. js_get (positions st) x = last_status rows x)
     \<and> (\<forall>x. js_get (scaledBySupplier st) x =
          (if \<exists>r\<in>set rows. is_supply_event r \<and> le_subject r = x
           then Some (sum_list (map signed_amount (filter (\<lambda>r. le_subject r = x) rows))) else None))
     \<and> sum_list (map snd (scaledBySupplier st)) = sum_list (map signed_amount rows)
     \<and> repaidInFull st = map le_subject (filter (\<lambda>r. le_name r = ''repay_full'') rows)"

lemma last_status_snoc:
  "last_status (rows @ [r]) x = (if le_subject r = x \<and> status_event (le_name r) \<noteq> None then status_event (le_name r) else last_status rows x)"
  by (auto simp: last_status_def split: list.splits)

lemma replay_rows_append: "replay_rows (xs @ ys) st = res_bind (replay_rows xs st) (replay_rows ys)"
proof (induction xs arbitrary: st)
  case (Cons x xs)
  then show ?case by (cases "replay_row x st") simp_all
qed simp

lemma sum_js_set:
  "js_ok m \<Longrightarrow> sum_list (map snd (js_set k v m)) = sum_list (map snd m) + v - (case js_get m k of None \<Rightarrow> 0 | Some b \<Rightarrow> (b :: int))"
proof (induction m)
  case (Cons kv m)
  then show ?case by (cases kv) (auto simp: js_ok_def map_of_eq_None_iff split: option.splits)
qed simp

lemma replay_row_cases:
  assumes "replay_row r st = Inr st'"
  obtains (status) e where "status_event (le_name r) = Some e" "\<not> is_supply_event r" "signed_amount r = 0"
      "st' = st\<lparr>positions := js_set (le_subject r) e (positions st),
         repaidInFull := repaidInFull st @ (if le_name r = ''repay_full'' then [le_subject r] else [])\<rparr>"
  | (amount) "status_event (le_name r) = None" "is_supply_event r" "le_name r \<noteq> ''repay_full''" "is_ok (scaledAmount r)"
      "st' = st\<lparr>scaledBySupplier := js_set (le_subject r)
         ((case js_get (scaledBySupplier st) (le_subject r) of None \<Rightarrow> 0 | Some b \<Rightarrow> b) + signed_amount r) (scaledBySupplier st)\<rparr>"
  | (other) "status_event (le_name r) = None" "\<not> is_supply_event r" "signed_amount r = 0" "le_name r \<noteq> ''repay_full''" "st' = st"
proof (cases "is_supply_event r")
  case True
  then show ?thesis using assms amount
    by (auto simp: replay_row_def is_supply_event_def status_event_def signed_amount_def Let_def res_simps)
next
  case False
  then have zero: "signed_amount r = 0" by (simp add: signed_amount_def is_supply_event_def)
  show ?thesis
  proof (cases "status_event (le_name r)")
    case None
    then show ?thesis using False zero assms other
      by (auto simp: replay_row_def is_supply_event_def status_event_def Let_def split: if_splits)
  next
    case (Some e)
    then show ?thesis using False zero assms status
      by (auto simp: replay_row_def is_supply_event_def status_event_def Let_def split: if_splits)
  qed
qed

lemma replay_step_spec:
  assumes "replay_spec rows st" "replay_row r st = Inr st'"
  shows "replay_spec (rows @ [r]) st'"
  using assms(2)
proof (cases rule: replay_row_cases)
  case (status e)
  with assms(1) show ?thesis
    by (auto simp: replay_spec_def last_status_snoc jsmap_simps status_event_def split: if_splits)
next
  case amount
  have "sum_list (map snd (scaledBySupplier st')) = sum_list (map signed_amount (rows @ [r]))"
    using assms(1) sum_js_set [of "scaledBySupplier st"] by (simp add: amount(5) replay_spec_def split: option.splits)
  moreover have "js_get (scaledBySupplier st') x = (if \<exists>q\<in>set (rows @ [r]). is_supply_event q \<and> le_subject q = x
           then Some (sum_list (map signed_amount (filter (\<lambda>r. le_subject r = x) (rows @ [r])))) else None)" for x
  proof (cases "\<exists>q\<in>set rows. is_supply_event q \<and> le_subject q = x")
    case True
    with assms(1) amount(2, 5) show ?thesis by (auto simp: replay_spec_def jsmap_simps)
  next
    case False
    then have "signed_amount q = 0" if "q \<in> set rows" "le_subject q = x" for q
      using that by (auto simp: signed_amount_def is_supply_event_def)
    then have "map signed_amount (filter (\<lambda>r. le_subject r = x) rows) = map (\<lambda>_. 0) (filter (\<lambda>r. le_subject r = x) rows)" by simp
    then have "sum_list (map signed_amount (filter (\<lambda>r. le_subject r = x) rows)) = 0" by (simp only: sum_list_0)
    with False assms(1) amount(2, 5) show ?thesis by (auto simp: replay_spec_def jsmap_simps)
  qed
  ultimately show ?thesis
    using assms(1) amount by (auto simp: replay_spec_def last_status_snoc)
next
  case other
  with assms(1) show ?thesis by (auto simp: replay_spec_def last_status_snoc)
qed

lemma replay_rows_spec:
  "replay_rows rows \<lparr>positions = [], scaledBySupplier = [], totalScaled = 0, repaidInFull = []\<rparr> = Inr st \<Longrightarrow> replay_spec rows st"
proof (induction rows arbitrary: st rule: rev_induct)
  case Nil
  then show ?case by (auto simp: replay_spec_def last_status_def)
next
  case (snoc r rows)
  then obtain st1 where "replay_rows rows \<lparr>positions = [], scaledBySupplier = [], totalScaled = 0, repaidInFull = []\<rparr> = Inr st1"
    "replay_row r st1 = Inr st" by (auto simp: replay_rows_append res_simps)
  with snoc.IH replay_step_spec show ?case by blast
qed

lemma replay_total: "replay rows = Inr st \<Longrightarrow> totalScaled st = sum_list (map signed_amount rows) \<and> replay_spec rows st"
  using replay_rows_spec by (fastforce simp: replay_def res_simps replay_spec_def)

lemma replay_fails_iff: "is_ok (replay_rows rows st) \<longleftrightarrow> (\<forall>r\<in>set rows. is_supply_event r \<longrightarrow> is_ok (scaledAmount r))"
proof (induction rows arbitrary: st)
  case (Cons r rows)
  have "is_ok (replay_row r st) \<longleftrightarrow> (is_supply_event r \<longrightarrow> is_ok (scaledAmount r))"
    by (cases "scaledAmount r") (simp_all add: replay_row_def is_supply_event_def Let_def)
  with Cons show ?case by (cases "replay_row r st") auto
qed simp

section \<open>What the verification has seen\<close>

lemma ask_Inr: "ask f k = (k', Inr a) \<longleftrightarrow> k' = Suc k \<and> f k = Inr a"
  by (auto simp: ask_def)

lemma bind_Inr: "eff_bind m f s = (s', Inr b) \<longleftrightarrow> (\<exists>s1 a. m s = (s1, Inr a) \<and> f a s1 = (s', Inr b))"
  by (auto simp: eff_bind_def split: prod.splits sum.splits)

lemma verify_positions_sound:
  "verify_positions chain ps k = (k', Inr None) \<Longrightarrow> k \<le> k' \<and> (\<forall>(x, e)\<in>set ps. \<exists>j<k'. positionStatus chain j x = Inr (Some (Known e)))"
proof (induction ps arbitrary: k)
  case (Cons p ps)
  obtain x e where p: "p = (x, e)" by (cases p)
  from Cons.prems have "positionStatus chain k x = Inr (Some (Known e))" "verify_positions chain ps (Suc k) = (k', Inr None)"
    by (auto simp: p bind_Inr ask_Inr eff_return_def split: if_splits)
  with Cons.IH [OF this(2)] show ?case by (auto simp: p Suc_le_eq)
qed (simp add: eff_return_def)

lemma verify_suppliers_sound:
  "verify_suppliers chain ps k = (k', Inr None) \<Longrightarrow> k \<le> k' \<and> (\<forall>(x, b)\<in>set ps. \<exists>j<k'. scaledSupply chain j x = Inr b)"
proof (induction ps arbitrary: k)
  case (Cons p ps)
  obtain x b where p: "p = (x, b)" by (cases p)
  from Cons.prems have "scaledSupply chain k x = Inr b" "verify_suppliers chain ps (Suc k) = (k', Inr None)"
    by (auto simp: p bind_Inr ask_Inr eff_return_def split: if_splits)
  with Cons.IH [OF this(2)] show ?case by (auto simp: p Suc_le_eq)
qed (simp add: eff_return_def)

lemma missing_releases_sound:
  "missing_releases chain ts k = (k', Inr missing) \<Longrightarrow> k \<le> k' \<and> (\<forall>x\<in>set ts. x \<in> set missing \<or> (\<exists>j<k'. hasRelease chain j x = Inr True))
    \<and> set missing \<subseteq> set ts"
proof (induction ts arbitrary: k missing)
  case (Cons x ts)
  then obtain there rest where r: "hasRelease chain k x = Inr there" "missing_releases chain ts (Suc k) = (k', Inr rest)"
    "missing = (if there then rest else x # rest)"
    by (auto simp: bind_Inr ask_Inr eff_return_def)
  from Cons.IH [OF r(2)] r(1, 3) show ?case by (cases there) (auto simp: Suc_le_eq)
qed (simp add: eff_return_def)

text \<open>The contract agreed with the replay when it was asked.\<close>

definition agrees :: "replayed_state \<Rightarrow> chain_reader \<Rightarrow> nat \<Rightarrow> bool" where
  "agrees st chain k \<longleftrightarrow> (\<forall>(x, e)\<in>set (positions st). \<exists>j<k. positionStatus chain j x = Inr (Some (Known e)))
     \<and> (\<forall>(x, b)\<in>set (scaledBySupplier st). \<exists>j<k. scaledSupply chain j x = Inr b)
     \<and> (\<exists>j<k. totalScaledSupply chain j = Inr (totalScaled st))"

lemma verify_sound:
  assumes "verifyAgainstChain st chain k = (k', Inr v)" "vr_mismatch v = None"
  shows "agrees st chain k' \<and> (\<forall>x\<in>set (repaidInFull st). x \<in> set (vr_missing v) \<or> (\<exists>j<k'. hasRelease chain j x = Inr True))
    \<and> set (vr_missing v) \<subseteq> set (repaidInFull st)"
proof -
  from assms obtain k1 k2 where r: "verify_positions chain (positions st) k = (k1, Inr None)"
    "verify_suppliers chain (scaledBySupplier st) k1 = (k2, Inr None)" "totalScaledSupply chain k2 = Inr (totalScaled st)"
    "missing_releases chain (repaidInFull st) (Suc k2) = (k', Inr (vr_missing v))"
    by (auto simp: verifyAgainstChain_def bind_Inr ask_Inr eff_return_def split: option.splits if_splits)
  from verify_positions_sound [OF r(1)] verify_suppliers_sound [OF r(2)] missing_releases_sound [OF r(4)] r(3)
  show ?thesis unfolding agrees_def by (fastforce intro: less_le_trans)
qed

section \<open>The database only grows\<close>

lemma fold_insert_new_app: "\<exists>new. fold (insert_new key) rs rows = rows @ new"
proof (induction rs arbitrary: rows)
  case (Cons r rs)
  have "\<exists>n1. insert_new key r rows = rows @ n1" by (simp add: insert_new_def)
  then obtain n1 where "insert_new key r rows = rows @ n1" ..
  moreover obtain n2 where "fold (insert_new key) rs (rows @ n1) = (rows @ n1) @ n2" using Cons by blast
  ultimately show ?case by simp
qed simp

definition grown :: "lend_store \<Rightarrow> lend_store \<Rightarrow> bool" where
  "grown s s' \<longleftrightarrow> (\<exists>new. ls_rows s' = ls_rows s @ new) \<and> ((\<forall>c. ls_cursor s = Some c \<longrightarrow> isValidCursor c) \<longrightarrow> (\<forall>c. ls_cursor s' = Some c \<longrightarrow> isValidCursor c))"

lemma grown_refl [simp]: "grown s s" by (simp add: grown_def)

lemma grown_trans: "grown s t \<Longrightarrow> grown t u \<Longrightarrow> grown s u"
  unfolding grown_def by (metis append_assoc)

lemma grown_commit: "lend_commit rows c s = Inr s' \<Longrightarrow> grown s s'"
proof -
  assume commit: "lend_commit rows c s = Inr s'"
  obtain new where new: "fold (insert_new le_id) rows (ls_rows s) = ls_rows s @ new" using fold_insert_new_app by blast
  from commit have "s' = s\<lparr>ls_rows := ls_rows s @ new, ls_cursor := Some c\<rparr>" "isValidCursor c"
    by (simp_all add: lend_commit_def new assertValidCursor_def split: if_splits)
  then show ?thesis by (simp add: grown_def)
qed

lemma grown_page: "lend_page decode get dl s = Inr (s', tip) \<Longrightarrow> grown s s'"
  by (auto simp: lend_page_def split: sum.splits dest: grown_commit)

lemma grown_pages: "grown s (fst (snd (lend_pages decode getEvents dl n k s)))"
proof (induction n arbitrary: k s)
  case (Suc n)
  show ?case
  proof (cases "lend_page decode (getEvents k) dl s")
    case (Inr x)
    obtain s' tip where x: "x = (s', tip)" by (cases x)
    from grown_page [OF Inr [unfolded x]] Suc.IH Inr x show ?thesis by (auto intro: grown_trans)
  qed simp
qed simp

lemma grown_catch_up: "catch_up d n k s = (k', s', r) \<Longrightarrow> grown s s'"
proof (induction n arbitrary: k s)
  case (Suc n)
  obtain k1 s1 r1 where c: "runLendEventsCycle (rb_decode d) (rb_getEvents d) (Some (rb_deployLedger d)) k s = (k1, s1, r1)"
    using prod_cases3 by blast
  have "grown s s1" using grown_pages [of s] c by (metis fst_conv runLendEventsCycle_def snd_conv)
  with Suc c show ?case by (auto split: sum.splits if_splits intro: grown_trans)
qed simp

lemma grown_same_list:
  assumes "grown s s'" "length (lend_list contract s') = length (lend_list contract s)"
  shows "lend_list contract s' = lend_list contract s"
proof -
  obtain new where new: "ls_rows s' = ls_rows s @ new" using assms(1) by (auto simp: grown_def)
  with assms(2) have "filter (\<lambda>r. le_contract r = contract) new = []" by (simp add: lend_list_def)
  with new show ?thesis by (simp add: lend_list_def)
qed

lemma verify_rounds_ok:
  "verify_rounds d n k temp = (k', Inr (temp', st, missing)) \<Longrightarrow>
   grown temp temp' \<and> replay (lend_list (rb_contract d) temp') = Inr st \<and> (\<exists>j. agrees st (rb_chain d) j)
   \<and> (\<forall>x\<in>set (repaidInFull st). x \<in> set missing \<or> (\<exists>j. hasRelease (rb_chain d) j x = Inr True))
   \<and> set missing \<subseteq> set (repaidInFull st)"
proof (induction n arbitrary: k temp)
  case (Suc n)
  obtain st1 where st1: "replay (lend_list (rb_contract d) temp) = Inr st1" using Suc.prems by (auto simp: Let_def split: sum.splits)
  obtain k1 v where v: "verifyAgainstChain st1 (rb_chain d) k = (k1, Inr v)"
    using Suc.prems st1 by (auto simp: Let_def split: prod.splits sum.splits)
  obtain k2 temp1 where t: "catch_up d MAX_CYCLES k1 temp = (k2, temp1, Inr ())"
    using Suc.prems st1 v by (auto simp: Let_def split: prod.splits sum.splits)
  note grown = grown_catch_up [OF t]
  show ?case
  proof (cases "length (lend_list (rb_contract d) temp1) = length (lend_list (rb_contract d) temp)")
    case True
    with Suc.prems st1 v t have "vr_mismatch v = None" "temp' = temp1" "st = st1" "missing = vr_missing v"
      by (auto simp: Let_def split: option.splits)
    with verify_sound [OF v] grown grown_same_list [OF grown True] st1 show ?thesis by auto
  next
    case False
    with Suc.prems st1 v t have "verify_rounds d n k2 temp1 = (k', Inr (temp', st, missing))"
      by (auto simp: Let_def split: if_splits)
    with Suc.IH grown show ?thesis by (blast intro: grown_trans)
  qed
qed simp

lemma temp_store_cursor: "temp_store d = Inr s \<Longrightarrow> ls_cursor s = Some c \<Longrightarrow> isValidCursor c"
  by (auto simp: temp_store_def lend_commit_def assertValidCursor_def split: option.splits sum.splits if_splits)

lemma owed_recordBatch:
  assumes "isValidCursor c"
  shows "\<exists>db'. recordBatch contract xs c t db = Inr db' \<and> rd_cursor db' = Some c
    \<and> (\<forall>x. owed contract db' x \<longleftrightarrow> owed contract db x \<or> x \<in> set xs)"
  using assms by (simp add: recordBatch_def release_writeCursor_def assertValidCursor_def owed_def owed_fold_insert)

text \<open>How a rebuild ends: with nothing changed, or with a verified archive swapped in.\<close>

lemma rebuild_cases:
  assumes "rebuildLendState d dir = (dir', r)"
  obtains (unchanged) "dir' = dir" "is_ok r \<Longrightarrow> rb_dryRun d"
  | (swapped) temp0 k temp st missing c j where "\<not> rb_dryRun d" "is_ok r" "temp_store d = Inr temp0"
      "catch_up d MAX_CYCLES 1 temp0 = (k, temp, Inr ())" "\<exists>k2. verify_rounds d MAX_VERIFY_ROUNDS k temp = (k2, Inr (dd_archive dir', st, missing))"
      "replay (lend_list (rb_contract d) (dd_archive dir')) = Inr st" "agrees st (rb_chain d) j"
      "\<And>x. x \<in> set (repaidInFull st) \<Longrightarrow> x \<in> set missing \<or> (\<exists>j. hasRelease (rb_chain d) j x = Inr True)"
      "set missing \<subseteq> set (repaidInFull st)"
      "ls_cursor (dd_archive dir') = Some c" "rd_cursor (dd_releases dir') = Some c"
      "\<And>x. owed (rb_contract d) (dd_releases dir') x \<longleftrightarrow> owed (rb_contract d) (dd_releases dir) x \<or> x \<in> set missing"
proof -
  consider (same) "dir' = dir" "\<not> is_ok r"
    | (go) temp0 k temp k2 temp' st missing where "temp_store d = Inr temp0" "catch_up d MAX_CYCLES 1 temp0 = (k, temp, Inr ())"
        "verify_rounds d MAX_VERIFY_ROUNDS k temp = (k2, Inr (temp', st, missing))" "swap_in d dir (temp', st, missing) = (dir', r)"
    using assms unfolding rebuildLendState_def by (auto split: sum.splits prod.splits)
  then show ?thesis
  proof cases
    case same
    then show ?thesis using unchanged by blast
  next
    case go
    show ?thesis
    proof (cases "rb_dryRun d \<or> ls_cursor temp' = None")
      case True
      with go(4) show ?thesis by (intro unchanged) (auto simp: swap_in_def Let_def split: if_splits)
    next
      case False
      then obtain c where c: "ls_cursor temp' = Some c" "\<not> rb_dryRun d" by blast
      note ok = verify_rounds_ok [OF go(3)]
      have "grown temp0 temp'" using grown_catch_up [OF go(2)] ok by (blast intro: grown_trans)
      with temp_store_cursor [OF go(1)] c have "isValidCursor c" by (auto simp: grown_def)
      then obtain rel where rel: "recordBatch (rb_contract d) missing c (rb_now d) (dd_releases dir) = Inr rel" "rd_cursor rel = Some c"
        "\<forall>x. owed (rb_contract d) rel x \<longleftrightarrow> owed (rb_contract d) (dd_releases dir) x \<or> x \<in> set missing"
        using owed_recordBatch [of c "rb_contract d" missing "rb_now d" "dd_releases dir"] by blast
      have "fst (swap_in d dir (temp', st, missing)) = dir\<lparr>dd_archive := temp', dd_releases := rel\<rparr> \<and> is_ok (snd (swap_in d dir (temp', st, missing)))"
        by (simp add: swap_in_def c rel(1))
      then have out: "dd_archive dir' = temp'" "dd_releases dir' = rel" "is_ok r" unfolding go(4) by simp_all
      show ?thesis
        using swapped [of temp0 k temp st missing _ c] go(1-3) ok c rel(2, 3) by (auto simp: out)
    qed
  qed
qed

section \<open>A position the source leaves out\<close>

definition about :: "string \<Rightarrow> lend_event_row \<Rightarrow> bool" where
  "about x r \<longleftrightarrow> le_subject r = x \<and> status_event (le_name r) \<noteq> None"

definition without :: "string \<Rightarrow> replayed_state \<Rightarrow> replayed_state" where
  "without x st = st\<lparr>positions := js_delete x (positions st), repaidInFull := filter (\<lambda>y. y \<noteq> x) (repaidInFull st)\<rparr>"

lemma js_delete_set: "js_delete x (js_set k v m) = (if k = x then js_delete x m else js_set k v (js_delete x m))"
  by (induction m) (auto simp: js_delete_filter)

lemma replay_row_without:
  assumes "replay_row r st = Inr st'"
  shows "(if about x r then Inr (without x st) else replay_row r (without x st)) = Inr (without x st')"
  using assms
  by (auto simp: replay_row_def without_def about_def status_event_def js_delete_set Let_def res_simps split: if_splits)

lemma replay_rows_without:
  "replay_rows rows st = Inr st' \<Longrightarrow> replay_rows (filter (\<lambda>r. \<not> about x r) rows) (without x st) = Inr (without x st')"
proof (induction rows arbitrary: st)
  case (Cons r rows)
  then obtain st1 where st1: "replay_row r st = Inr st1" "replay_rows rows st1 = Inr st'" by (auto simp: res_simps)
  from replay_row_without [OF st1(1), of x] Cons.IH [OF st1(2)] show ?case by (auto split: if_splits)
qed simp

lemma replay_without:
  assumes "replay rows = Inr st"
  shows "replay (filter (\<lambda>r. \<not> about x r) rows) = Inr (without x st)"
proof -
  let ?init = "\<lparr>positions = [], scaledBySupplier = [], totalScaled = 0, repaidInFull = []\<rparr> :: replayed_state"
  from assms obtain st1 where st1: "replay_rows rows ?init = Inr st1" "st = st1\<lparr>totalScaled := sum_list (map snd (scaledBySupplier st1))\<rparr>"
    by (auto simp: replay_def res_simps)
  have "without x ?init = ?init" by (simp add: without_def)
  with replay_rows_without [OF st1(1), of x] show ?thesis by (simp add: replay_def st1(2) without_def)
qed

lemma verify_positions_fixed:
  "(\<And>k x. positionStatus chain k x = Inr (ps x)) \<Longrightarrow>
   verify_positions chain xs k = (k', Inr None) \<longleftrightarrow> k' = k + length xs \<and> (\<forall>(x, e)\<in>set xs. ps x = Some (Known e))"
  by (induction xs arbitrary: k) (auto simp: bind_Inr ask_Inr eff_return_def split: if_splits)

lemma verify_suppliers_fixed:
  "(\<And>k x. scaledSupply chain k x = Inr (bal x)) \<Longrightarrow>
   verify_suppliers chain xs k = (k', Inr None) \<longleftrightarrow> k' = k + length xs \<and> (\<forall>(x, b)\<in>set xs. bal x = b)"
  by (induction xs arbitrary: k) (auto simp: bind_Inr ask_Inr eff_return_def split: if_splits)

lemma missing_releases_fixed:
  "(\<And>k x. hasRelease chain k x = Inr (rel x)) \<Longrightarrow>
   missing_releases chain xs k = (k', Inr missing) \<longleftrightarrow> k' = k + length xs \<and> missing = filter (\<lambda>x. \<not> rel x) xs"
  by (induction xs arbitrary: k missing) (auto simp: bind_Inr ask_Inr eff_return_def)

text \<open>A contract that does not change while it is read.\<close>

definition fixed_chain :: "chain_reader \<Rightarrow> (string \<Rightarrow> chain_status option) \<Rightarrow> (string \<Rightarrow> int) \<Rightarrow> int \<Rightarrow> (string \<Rightarrow> bool) \<Rightarrow> bool" where
  "fixed_chain chain ps bal tot rel \<longleftrightarrow> (\<forall>k x. positionStatus chain k x = Inr (ps x)) \<and> (\<forall>k x. scaledSupply chain k x = Inr (bal x))
     \<and> (\<forall>k. totalScaledSupply chain k = Inr tot) \<and> (\<forall>k x. hasRelease chain k x = Inr (rel x))"

lemma verify_fixed:
  assumes "fixed_chain chain ps bal tot rel"
  shows "(\<exists>k'. verifyAgainstChain st chain k = (k', Inr \<lparr>vr_mismatch = None, vr_missing = missing\<rparr>)) \<longleftrightarrow>
     (\<forall>(x, e)\<in>set (positions st). ps x = Some (Known e)) \<and> (\<forall>(x, b)\<in>set (scaledBySupplier st). bal x = b)
     \<and> tot = totalScaled st \<and> missing = filter (\<lambda>x. \<not> rel x) (repaidInFull st)"
proof -
  from assms have f: "\<And>k x. positionStatus chain k x = Inr (ps x)" "\<And>k x. scaledSupply chain k x = Inr (bal x)"
    "\<And>k. totalScaledSupply chain k = Inr tot" "\<And>k x. hasRelease chain k x = Inr (rel x)" by (simp_all add: fixed_chain_def)
  have "verifyAgainstChain st chain k = (k', Inr \<lparr>vr_mismatch = None, vr_missing = missing\<rparr>) \<longleftrightarrow>
      (\<exists>k1 k2 k3. verify_positions chain (positions st) k = (k1, Inr None) \<and> verify_suppliers chain (scaledBySupplier st) k1 = (k2, Inr None)
       \<and> totalScaledSupply chain k2 = Inr (totalScaled st) \<and> missing_releases chain (repaidInFull st) (Suc k2) = (k', Inr missing))" for k'
    by (auto simp: verifyAgainstChain_def bind_Inr ask_Inr eff_return_def split: option.splits if_splits)
  then show ?thesis
    unfolding verify_positions_fixed [of chain ps, OF f(1)] verify_suppliers_fixed [of chain bal, OF f(2)] missing_releases_fixed [of chain rel, OF f(4)] f(3)
    by auto
qed

section \<open>The watcher after a rebuild\<close>

text \<open>\<^verbatim>\<open>decodeRepayFullEvent\<close> of \<^verbatim>\<open>repay-watcher/poller.ts\<close>; a second topic that is not bytes is outside
  the model and reads as none.\<close>

definition decodeRepayFullEvent :: "'x sdk \<Rightarrow> 'x raw_lend_event \<Rightarrow> string option \<times> string option" where
  "decodeRepayFullEvent sdk e =
     (case ev_topic e of
        [] \<Rightarrow> (None, None)
      | t0 # ts \<Rightarrow>
          ((case scValToNative sdk t0 of NStr s \<Rightarrow> Some s | _ \<Rightarrow> None),
           (case ts of [] \<Rightarrow> None | t1 # _ \<Rightarrow> (case scValToNative sdk t1 of NBytes b \<Rightarrow> Some (hex_of_bytes b) | _ \<Rightarrow> None))))"

text \<open>The two decoders agree on a full repayment.\<close>

lemma repaid_is_archived:
  "repaid (decodeRepayFullEvent sdk) e = Some x \<Longrightarrow>
   \<exists>r. decodeLendEvent sdk contract e = Inr (Some r) \<and> le_name r = ''repay_full'' \<and> le_subject r = x"
  by (auto simp: repaid_def decodeRepayFullEvent_def decodeLendEvent_def decodeColumns_def ARCHIVED_def
      split: list.splits native.splits option.splits if_splits)

lemma catch_up_runs:
  assumes "\<forall>k req p. rb_getEvents d k req = Inr p \<longrightarrow> serves idof chain req p"
  shows "catch_up d n k s = (k', s', r) \<Longrightarrow> (lend_run (rb_decode d) idof chain (rb_deployLedger d))\<^sup>*\<^sup>* s s'"
proof (induction n arbitrary: k s)
  case (Suc n)
  obtain k1 s1 r1 where c: "runLendEventsCycle (rb_decode d) (rb_getEvents d) (Some (rb_deployLedger d)) k s = (k1, s1, r1)"
    using prod_cases3 by blast
  have "lend_run (rb_decode d) idof chain (rb_deployLedger d) s
      (fst (snd (runLendEventsCycle (rb_decode d) (rb_getEvents d) (Some (rb_deployLedger d)) k s)))"
    by (rule lend_run.cycle) (use assms in auto)
  then have "lend_run (rb_decode d) idof chain (rb_deployLedger d) s s1" by (simp add: c)
  with Suc c show ?case by (auto split: sum.splits if_splits intro: converse_rtranclp_into_rtranclp)
qed simp

lemma verify_rounds_runs:
  assumes "\<forall>k req p. rb_getEvents d k req = Inr p \<longrightarrow> serves idof chain req p"
  shows "verify_rounds d n k s = (k', Inr (s', st, missing)) \<Longrightarrow> (lend_run (rb_decode d) idof chain (rb_deployLedger d))\<^sup>*\<^sup>* s s'"
proof (induction n arbitrary: k s)
  case (Suc n)
  obtain k1 k2 s1 where t: "catch_up d MAX_CYCLES k1 s = (k2, s1, Inr ())" "s' = s1 \<or> verify_rounds d n k2 s1 = (k', Inr (s', st, missing))"
    using Suc.prems by (auto simp: Let_def split: prod.splits sum.splits if_splits option.splits)
  from catch_up_runs [OF assms t(1)] t(2) Suc.IH show ?case by (auto intro: rtranclp_trans)
qed simp

section \<open>Properties\<close>


text \<open>C17. The replay computes what it should: a position's status is that of its last status event, a supplier
  appears exactly when it has a supply or a withdrawal and its balance is the signed sum of its amounts,
  the total is the signed sum over all rows, and the repaid positions are those of the full repayments in
  order; and a replay fails only on a supply or withdrawal whose amount cannot be read.\<close>

theorem replay_equals_reference:
  "(\<forall>st. replay rows = Inr st \<longrightarrow>
      (\<forall>x. js_get (positions st) x = last_status rows x)
    \<and> (\<forall>x. js_get (scaledBySupplier st) x =
          (if \<exists>r\<in>set rows. is_supply_event r \<and> le_subject r = x
           then Some (sum_list (map signed_amount (filter (\<lambda>r. le_subject r = x) rows))) else None))
    \<and> totalScaled st = sum_list (map signed_amount rows)
    \<and> repaidInFull st = map le_subject (filter (\<lambda>r. le_name r = ''repay_full'') rows))
   \<and> (is_ok (replay rows) \<longleftrightarrow> (\<forall>r\<in>set rows. is_supply_event r \<longrightarrow> is_ok (scaledAmount r)))"
proof -
  have "is_ok (replay rows) \<longleftrightarrow> is_ok (replay_rows rows \<lparr>positions = [], scaledBySupplier = [], totalScaled = 0, repaidInFull = []\<rparr>)"
    by (cases "replay_rows rows \<lparr>positions = [], scaledBySupplier = [], totalScaled = 0, repaidInFull = []\<rparr>") (simp_all add: replay_def)
  with replay_total [of rows] replay_fails_iff show ?thesis by (auto simp: replay_spec_def)
qed

text \<open>What the checks cannot see: they ask the contract about the positions the replay found, never for
  the positions it lacks. So whenever a set of events passes against a contract, the same events without
  those of one position pass as well, and the release owed to that position is not queued.\<close>

theorem omitted_position_passes:
  assumes "fixed_chain chain ps bal tot rel" "replay rows = Inr st"
    "verifyAgainstChain st chain k = (k', Inr \<lparr>vr_mismatch = None, vr_missing = missing\<rparr>)"
  shows "\<exists>st' k''. replay (filter (\<lambda>r. \<not> about x r) rows) = Inr st' \<and> js_get (positions st') x = None
    \<and> verifyAgainstChain st' chain k = (k'', Inr \<lparr>vr_mismatch = None, vr_missing = filter (\<lambda>y. y \<noteq> x) missing\<rparr>)"
proof -
  from assms(3) have ok: "(\<forall>(x, e)\<in>set (positions st). ps x = Some (Known e)) \<and> (\<forall>(x, b)\<in>set (scaledBySupplier st). bal x = b)
     \<and> tot = totalScaled st \<and> missing = filter (\<lambda>x. \<not> rel x) (repaidInFull st)"
    unfolding verify_fixed [OF assms(1), of st k missing, symmetric] by (rule exI)
  then have "\<exists>k''. verifyAgainstChain (without x st) chain k = (k'', Inr \<lparr>vr_mismatch = None, vr_missing = filter (\<lambda>y. y \<noteq> x) missing\<rparr>)"
    unfolding verify_fixed [OF assms(1)] by (auto simp: without_def js_delete_filter conj_commute)
  moreover have "js_get (positions (without x st)) x = None" by (simp add: without_def jsmap_simps)
  ultimately show ?thesis using replay_without [OF assms(2), of x] by blast
qed



section \<open>Witnesses\<close>

text \<open>One full repayment on chain, its position closed and its release missing. XDR values are the natives.\<close>

definition ex_native_sdk :: "native sdk" where
  "ex_native_sdk = \<lparr>scValToNative = (\<lambda>x. x), toXDR = (\<lambda>x. stringify (plain x)), fromXDR = (\<lambda>_. None)\<rparr>"

definition ex_repaid :: "native raw_lend_event" where
  "ex_repaid = \<lparr>ev_id = ''0000000004294967296-0000000001'', ev_ledger = 1, ev_txHash = ''ff'',
     ev_topic = [NStr ''repay_full'', NBytes [0xaa]], ev_value = NNull\<rparr>"

definition ex_rpc :: "nat \<Rightarrow> events_request \<Rightarrow> string + native raw_lend_event page" where
  "ex_rpc k req = Inr \<lparr>page_events = filter (\<lambda>e. past_start req (ev_id e)) [ex_repaid],
     page_cursor = (case req of FromLedger _ \<Rightarrow> ev_id ex_repaid | FromCursor c \<Rightarrow> max c (ev_id ex_repaid))\<rparr>"

definition ex_chain_reader :: chain_reader where
  "ex_chain_reader = \<lparr>positionStatus = (\<lambda>k x. Inr (if x = ''aa'' then Some (Known Closed) else None)),
     scaledSupply = (\<lambda>k x. Inr 0), totalScaledSupply = (\<lambda>k. Inr 0), hasRelease = (\<lambda>k x. Inr False)\<rparr>"

definition ex_deps_rebuild :: "(native raw_lend_event, decode_error) rebuild_deps" where
  "ex_deps_rebuild = \<lparr>rb_ledgerRange = (\<lambda>k. Inr (1, 9)), rb_getEvents = ex_rpc, rb_chain = ex_chain_reader, rb_contract = ''C'',
     rb_deployLedger = 1, rb_decode = decodeLendEvent ex_native_sdk ''C'', rb_archive = None, rb_dryRun = False, rb_now = 5\<rparr>"

definition ex_row :: lend_event_row where
  "ex_row = \<lparr>le_id = ev_id ex_repaid, le_contract = ''C'', le_ledger = 1, le_txHash = ''ff'', le_name = ''repay_full'', le_subject = ''aa'',
     le_data = stringify JNull, le_rawXdr = encodeRawXdr ex_native_sdk (ev_topic ex_repaid) NNull\<rparr>"

definition ex_rebuilt :: lend_store where
  "ex_rebuilt = \<lparr>ls_cursor = Some (ev_id ex_repaid), ls_rows = [ex_row]\<rparr>"

definition ex_empty_dir :: data_dir where
  "ex_empty_dir = \<lparr>dd_archive = \<lparr>ls_cursor = None, ls_rows = []\<rparr>, dd_releases = \<lparr>rd_cursor = None, rd_pending = []\<rparr>\<rparr>"

lemma ex_repaid_valid: "isValidCursor (ev_id ex_repaid)" "ledgerOfCursor (ev_id ex_repaid) = 1"
proof -
  show "isValidCursor (ev_id ex_repaid)" by code_simp
  show "ledgerOfCursor (ev_id ex_repaid) = 1" by (simp add: ex_repaid_def ex_ledger)
qed

lemma ex_decode: "decodeLendEvent ex_native_sdk ''C'' ex_repaid = Inr (Some ex_row)"
proof -
  have "hex_of_bytes [0xaa] = ''aa''" by code_simp
  then show ?thesis
    by (simp add: decodeLendEvent_def decodeColumns_def ex_repaid_def ex_native_sdk_def ARCHIVED_def ex_row_def)
qed

lemma ex_rpc_serves: "ex_rpc k req = Inr p \<Longrightarrow> serves ev_id [ex_repaid] req p"
  by (cases req) (auto simp: ex_rpc_def serves_def max_def split: if_splits)

lemma ex_rpc_live: "live_server ev_id [ex_repaid] ex_rpc"
proof -
  have "isValidCursor (page_cursor p)" if "ex_rpc k req = Inr p" "\<forall>c. req = FromCursor c \<longrightarrow> isValidCursor c" for k req p
    using that ex_repaid_valid(1) by (cases req) (auto simp: ex_rpc_def max_def)
  moreover have "page_events p = [] \<Longrightarrow> \<forall>e\<in>set [ex_repaid]. \<not> past_start req (ev_id e)" if "ex_rpc k req = Inr p" for k req p
    using that by (auto simp: ex_rpc_def filter_empty_conv split: if_splits)
  moreover have "\<exists>p. ex_rpc k req = Inr p" for k req by (simp add: ex_rpc_def)
  ultimately show ?thesis unfolding live_server_def using ex_rpc_serves by metis
qed

lemma ex_cycle: "runLendEventsCycle (decodeLendEvent ex_native_sdk ''C'') ex_rpc (Some 1) k \<lparr>ls_cursor = None, ls_rows = []\<rparr> = (k + 2, ex_rebuilt, Inr True)"
  "runLendEventsCycle (decodeLendEvent ex_native_sdk ''C'') ex_rpc (Some 1) k ex_rebuilt = (k + 1, ex_rebuilt, Inr True)"
  using ex_repaid_valid ex_decode
  by (simp_all add: runLendEventsCycle_def MAX_PAGES_PER_POLL_def numeral_eq_Suc lend_page_def lend_request_def ex_rpc_def lend_commit_def
      assertValidCursor_def insert_new_def ex_rebuilt_def)

lemma catch_up_tip: "runLendEventsCycle (rb_decode d) (rb_getEvents d) (Some (rb_deployLedger d)) k s = (k', s', Inr True) \<Longrightarrow>
    catch_up d MAX_CYCLES k s = (k', s', Inr ())"
proof -
  assume tip: "runLendEventsCycle (rb_decode d) (rb_getEvents d) (Some (rb_deployLedger d)) k s = (k', s', Inr True)"
  have "MAX_CYCLES = Suc 999" by (simp add: MAX_CYCLES_def)
  moreover have "catch_up d (Suc 999) k s = (k', s', Inr ())" by (subst catch_up.simps(2)) (simp add: tip)
  ultimately show ?thesis by (simp only:)
qed

lemma ex_list: "lend_list ''C'' ex_rebuilt = [ex_row]"
  by (simp add: lend_list_def ex_rebuilt_def ex_row_def)

lemma ex_replay: "replay [ex_row] = Inr \<lparr>positions = [(''aa'', Closed)], scaledBySupplier = [], totalScaled = 0, repaidInFull = [''aa'']\<rparr>"
  by (simp add: replay_def replay_row_def ex_row_def)

lemma ex_verify: "\<exists>k'. verifyAgainstChain \<lparr>positions = [(''aa'', Closed)], scaledBySupplier = [], totalScaled = 0, repaidInFull = [''aa'']\<rparr> ex_chain_reader k
    = (k', Inr \<lparr>vr_mismatch = None, vr_missing = [''aa'']\<rparr>)"
  by (simp add: verifyAgainstChain_def ex_chain_reader_def eff_defs ask_def)

lemma ex_rebuild:
  "\<exists>rp. rebuildLendState ex_deps_rebuild ex_empty_dir = (\<lparr>dd_archive = ex_rebuilt, dd_releases = \<lparr>rd_cursor = Some (ev_id ex_repaid),
     rd_pending = [\<lparr>pr_contract = ''C'', pr_txid = ''aa'', firstSeenAt = 5, attempts = 0, next_attempt = 5, lastError = None\<rparr>]\<rparr>\<rparr>, Inr rp)"
proof -
  have 1: "catch_up ex_deps_rebuild MAX_CYCLES 1 \<lparr>ls_cursor = None, ls_rows = []\<rparr> = (3, ex_rebuilt, Inr ())"
    using catch_up_tip [of ex_deps_rebuild 1] ex_cycle(1) [of 1] by (simp add: ex_deps_rebuild_def)
  obtain k' where v: "verifyAgainstChain \<lparr>positions = [(''aa'', Closed)], scaledBySupplier = [], totalScaled = 0, repaidInFull = [''aa'']\<rparr> ex_chain_reader 3
    = (k', Inr \<lparr>vr_mismatch = None, vr_missing = [''aa'']\<rparr>)" using ex_verify by blast
  have 2: "catch_up ex_deps_rebuild MAX_CYCLES k' ex_rebuilt = (k' + 1, ex_rebuilt, Inr ())"
    using catch_up_tip [of ex_deps_rebuild k'] ex_cycle(2) [of k'] by (simp add: ex_deps_rebuild_def)
  have contract: "rb_contract ex_deps_rebuild = ''C''" "rb_chain ex_deps_rebuild = ex_chain_reader" by (simp_all add: ex_deps_rebuild_def)
  have "verify_rounds ex_deps_rebuild (Suc 4) 3 ex_rebuilt = (k' + 1, Inr (ex_rebuilt, \<lparr>positions = [(''aa'', Closed)], scaledBySupplier = [],
      totalScaled = 0, repaidInFull = [''aa'']\<rparr>, [''aa'']))"
    by (subst verify_rounds.simps(2)) (simp add: contract ex_list ex_replay v 2)
  then have 3: "verify_rounds ex_deps_rebuild MAX_VERIFY_ROUNDS 3 ex_rebuilt = (k' + 1, Inr (ex_rebuilt, \<lparr>positions = [(''aa'', Closed)],
      scaledBySupplier = [], totalScaled = 0, repaidInFull = [''aa'']\<rparr>, [''aa'']))" by (simp add: MAX_VERIFY_ROUNDS_def del: verify_rounds.simps)
  have start: "rb_ledgerRange ex_deps_rebuild 0 = Inr (1, 9)" "check_range ex_deps_rebuild (1, 9) = Inr ()"
    "temp_store ex_deps_rebuild = Inr \<lparr>ls_cursor = None, ls_rows = []\<rparr>"
    by (simp_all add: ex_deps_rebuild_def check_range_def temp_store_def)
  have "recordBatch ''C'' [''aa''] (ev_id ex_repaid) 5 \<lparr>rd_cursor = None, rd_pending = []\<rparr> = Inr \<lparr>rd_cursor = Some (ev_id ex_repaid),
     rd_pending = [\<lparr>pr_contract = ''C'', pr_txid = ''aa'', firstSeenAt = 5, attempts = 0, next_attempt = 5, lastError = None\<rparr>]\<rparr>"
    by (simp add: recordBatch_def release_writeCursor_def assertValidCursor_def ex_repaid_valid insert_release_def)
  then have 4: "\<exists>rp. swap_in ex_deps_rebuild ex_empty_dir (ex_rebuilt, \<lparr>positions = [(''aa'', Closed)], scaledBySupplier = [],
      totalScaled = 0, repaidInFull = [''aa'']\<rparr>, [''aa'']) = (\<lparr>dd_archive = ex_rebuilt, dd_releases = \<lparr>rd_cursor = Some (ev_id ex_repaid),
     rd_pending = [\<lparr>pr_contract = ''C'', pr_txid = ''aa'', firstSeenAt = 5, attempts = 0, next_attempt = 5, lastError = None\<rparr>]\<rparr>\<rparr>, Inr rp)"
    by (simp add: swap_in_def contract) (simp add: ex_deps_rebuild_def ex_rebuilt_def ex_empty_dir_def)
  show ?thesis unfolding rebuildLendState_def by (simp only: start sum.case prod.case 1 3 4)
qed


theorem replay_equals_reference_witness:
  "\<exists>st. replay [ex_row] = Inr st \<and> js_get (positions st) ''aa'' = last_status [ex_row] ''aa'' \<and> totalScaled st = sum_list (map signed_amount [ex_row])"
  using replay_equals_reference [of "[ex_row]"] ex_replay by blast

theorem omitted_position_passes_witness:
  "\<exists>st' k''. replay (filter (\<lambda>r. \<not> about ''aa'' r) [ex_row]) = Inr st' \<and> js_get (positions st') ''aa'' = None
    \<and> verifyAgainstChain st' ex_chain_reader 0 = (k'', Inr \<lparr>vr_mismatch = None, vr_missing = []\<rparr>)"
proof -
  have fixed: "fixed_chain ex_chain_reader (\<lambda>x. if x = ''aa'' then Some (Known Closed) else None) (\<lambda>_. 0) 0 (\<lambda>_. False)"
    by (simp add: fixed_chain_def ex_chain_reader_def)
  obtain k' where "verifyAgainstChain \<lparr>positions = [(''aa'', Closed)], scaledBySupplier = [], totalScaled = 0, repaidInFull = [''aa'']\<rparr> ex_chain_reader 0
    = (k', Inr \<lparr>vr_mismatch = None, vr_missing = [''aa'']\<rparr>)" using ex_verify by blast
  from omitted_position_passes [OF fixed ex_replay this, of "''aa''"] show ?thesis by simp
qed

lemma ex_chain_ok: "chain_ok (rb_decode ex_deps_rebuild) ev_id [ex_repaid] (rb_deployLedger ex_deps_rebuild)"
  unfolding ex_deps_rebuild_def by (simp, rule lend_chain_ok) (simp_all add: ex_repaid_valid)



end
