(* ===== verification/Onboarding.thy ===== *)
theory Onboarding
  imports Json "HOL-Library.Multiset"
begin

text \<open>
  \<^verbatim>\<open>relayer/src/onboarding/funnel.ts\<close>, \<^verbatim>\<open>store.ts\<close> and \<^verbatim>\<open>sqlite-store.ts\<close>: the onboarding funnel, its two
  stores and its summary. The HMAC that makes a subject of an address, the reader of a position and the
  clock are parameters. A UTC day is its number since the epoch; the code writes it as \<^verbatim>\<open>YYYY-MM-DD\<close>, which
  compares alike. The texts of errors and of \<^verbatim>\<open>definitions\<close> are left out.
\<close>

section \<open>Rows and their stores\<close>

record funnel_row =
  fr_subject :: string
  fr_step :: string
  fr_outcome :: string
  fr_channel :: string
  fr_verified :: bool
  fr_createdAt :: int

definition row_key :: "funnel_row \<Rightarrow> string \<times> string \<times> string" where
  "row_key r = (fr_subject r, fr_step r, fr_outcome r)"

text \<open>\<^verbatim>\<open>memoryFunnelStore\<close>: the rows and the keys seen, joined by bars.\<close>

record memory_funnel =
  mf_rows :: "funnel_row list"
  mf_keys :: "string list"

definition memory_key :: "funnel_row \<Rightarrow> string" where
  "memory_key r = fr_subject r @ ''|'' @ fr_step r @ ''|'' @ fr_outcome r"

definition memory_record :: "funnel_row \<Rightarrow> memory_funnel \<Rightarrow> memory_funnel \<times> bool" where
  "memory_record r s =
     (if memory_key r \<in> set (mf_keys s) then (s, False)
      else (s\<lparr>mf_keys := mf_keys s @ [memory_key r], mf_rows := mf_rows s @ [r]\<rparr>, True))"

definition memory_rows :: "memory_funnel \<Rightarrow> funnel_row list" where
  "memory_rows s = sort_key fr_createdAt (mf_rows s)"

text \<open>\<^verbatim>\<open>openSqliteFunnelStore\<close>: the table with its primary key.\<close>

definition sqlite_record :: "funnel_row \<Rightarrow> funnel_row list \<Rightarrow> funnel_row list \<times> bool" where
  "sqlite_record r table =
     (if list_ex (\<lambda>x. row_key x = row_key r) table then (table, False) else (table @ [r], True))"

definition sqlite_rows :: "funnel_row list \<Rightarrow> funnel_row list" where
  "sqlite_rows table = sort_key fr_createdAt table"

section \<open>Reports\<close>

definition REPORTED_STEPS :: "string list" where
  "REPORTED_STEPS = [''sign_in'', ''key_created'', ''deposit'', ''borrow'', ''repay'', ''release'']"

definition CHAIN_STEPS :: "string list" where
  "CHAIN_STEPS = [''deposit'', ''borrow'', ''repay'', ''release'']"

datatype funnel_step = Sign_in | Key_created | Faucet_paid | Deposit | Borrow | Repay | Release

datatype position_status = Active | Closed | Liquidated

record position_facts =
  pf_depositor :: string
  pf_status :: position_status
  pf_debtStroops :: int

datatype funnel_error = InvalidRequest | NotOnChain | NotOwner | StepNotReached | ChainUnavailable | NotConfigured

fun HTTP :: "funnel_error \<Rightarrow> nat" where
  "HTTP InvalidRequest = 400"
| "HTTP NotOnChain = 422"
| "HTTP NotOwner = 403"
| "HTTP StepNotReached = 422"
| "HTTP ChainUnavailable = 503"
| "HTTP NotConfigured = 503"

definition is_base32 :: "char \<Rightarrow> bool" where
  "is_base32 c \<longleftrightarrow> (65 \<le> code c \<and> code c \<le> 90) \<or> (50 \<le> code c \<and> code c \<le> 55)"

definition STELLAR_ACCOUNT_RE :: "string \<Rightarrow> bool" where
  "STELLAR_ACCOUNT_RE s \<longleftrightarrow> length s = 56 \<and> hd s = CHR ''G'' \<and> list_all is_base32 (tl s)"

definition TXID :: "string \<Rightarrow> bool" where
  "TXID s \<longleftrightarrow> length s = 64 \<and> list_all is_hex s"

record step_report =
  sr_step :: string
  sr_address :: string
  sr_channel :: string
  sr_txid :: "string option"

text \<open>The fields of the body; anything that is not an object has none. \<^verbatim>\<open>undefined\<close> is \<^const>\<open>None\<close>.\<close>

definition body_field :: "json \<Rightarrow> string \<Rightarrow> json option" where
  "body_field body k = (case body of JObj kvs \<Rightarrow> js_get kvs k | _ \<Rightarrow> None)"

definition parseStepReport :: "json \<Rightarrow> funnel_error + step_report" where
  "parseStepReport body =
     (case body_field body ''step'' of
        Some (JStr step) \<Rightarrow>
          if step \<notin> set REPORTED_STEPS then Inl InvalidRequest else
          (case body_field body ''stellarAddress'' of
             Some (JStr addr) \<Rightarrow>
               if \<not> STELLAR_ACCOUNT_RE addr then Inl InvalidRequest else
               (case (case body_field body ''channel'' of None \<Rightarrow> Some (JStr ''wallet'') | Some c \<Rightarrow> Some c) of
                  Some (JStr channel) \<Rightarrow>
                    if channel \<noteq> ''social'' \<and> channel \<noteq> ''wallet'' then Inl InvalidRequest
                    else if step \<in> set CHAIN_STEPS then
                      (case body_field body ''txid'' of
                         Some (JStr t) \<Rightarrow>
                           if TXID t then Inr \<lparr>sr_step = step, sr_address = addr, sr_channel = channel, sr_txid = Some (toLowerCase t)\<rparr>
                           else Inl InvalidRequest
                       | _ \<Rightarrow> Inl InvalidRequest)
                    else Inr \<lparr>sr_step = step, sr_address = addr, sr_channel = channel, sr_txid = None\<rparr>
                | _ \<Rightarrow> Inl InvalidRequest)
           | _ \<Rightarrow> Inl InvalidRequest)
      | _ \<Rightarrow> Inl InvalidRequest)"

definition positionReached :: "string \<Rightarrow> position_facts \<Rightarrow> bool" where
  "positionReached step p =
     (if step = ''deposit'' \<or> step = ''repay'' then True
      else if step = ''borrow'' then pf_debtStroops p > 0 \<or> pf_status p \<noteq> Active
      else if step = ''release'' then pf_status p = Closed
      else False)"

text \<open>\<open>read\<close> is \<^const>\<open>None\<close> without a contract; an answer may be a failed read.\<close>

type_synonym position_reader = "string \<Rightarrow> unit + position_facts option"

definition check_step :: "position_reader option \<Rightarrow> step_report \<Rightarrow> funnel_error + bool" where
  "check_step read r =
     (if sr_step r \<in> set CHAIN_STEPS then
        (case read of
           None \<Rightarrow> Inl NotConfigured
         | Some f \<Rightarrow>
            (case f (case sr_txid r of Some t \<Rightarrow> t | None \<Rightarrow> []) of
               Inl _ \<Rightarrow> Inl ChainUnavailable
             | Inr None \<Rightarrow> Inl NotOnChain
             | Inr (Some p) \<Rightarrow>
                 if pf_depositor p \<noteq> sr_address r then Inl NotOwner
                 else if \<not> positionReached (sr_step r) p then Inl StepNotReached
                 else Inr True))
      else Inr False)"

definition report ::
    "(funnel_row \<Rightarrow> 's \<Rightarrow> 's \<times> bool) \<Rightarrow> (string \<Rightarrow> string) \<Rightarrow> position_reader option \<Rightarrow> int \<Rightarrow> json \<Rightarrow> 's \<Rightarrow> 's \<times> (funnel_error + bool \<times> bool)" where
  "report rec subjectOf read t body s =
     (case res_bind (parseStepReport body) (\<lambda>r. res_bind (check_step read r) (\<lambda>v. Inr (r, v))) of
        Inl e \<Rightarrow> (s, Inl e)
      | Inr (r, verified) \<Rightarrow>
          (let (s', recorded) = rec \<lparr>fr_subject = subjectOf (sr_address r), fr_step = sr_step r, fr_outcome = ''ok'',
                 fr_channel = sr_channel r, fr_verified = verified, fr_createdAt = t\<rparr> s
           in (s', Inr (recorded, verified))))"

definition OUTCOME_RE :: "string \<Rightarrow> bool" where
  "OUTCOME_RE s \<longleftrightarrow> 1 \<le> length s \<and> length s \<le> 48 \<and> list_all (\<lambda>c. (97 \<le> code c \<and> code c \<le> 122) \<or> c = CHR ''_'') s"

definition recordFaucet ::
    "(funnel_row \<Rightarrow> 's \<Rightarrow> 's \<times> bool) \<Rightarrow> (string \<Rightarrow> string) \<Rightarrow> int \<Rightarrow> json \<Rightarrow> string \<Rightarrow> 's \<Rightarrow> 's" where
  "recordFaucet rec subjectOf t address outcome s =
     (case address of
        JStr a \<Rightarrow>
          if STELLAR_ACCOUNT_RE a \<and> OUTCOME_RE outcome then
            fst (rec \<lparr>fr_subject = subjectOf a, fr_step = ''faucet_claim'', fr_outcome = outcome, fr_channel = ''social'',
                   fr_verified = (outcome = ''paid''), fr_createdAt = t\<rparr> s)
          else s
      | _ \<Rightarrow> s)"

section \<open>The summary\<close>

definition stepOf :: "funnel_row \<Rightarrow> funnel_step option" where
  "stepOf row =
     (if fr_step row = ''faucet_claim'' then (if fr_outcome row = ''paid'' then Some Faucet_paid else None)
      else if fr_step row = ''sign_in'' then Some Sign_in
      else if fr_step row = ''key_created'' then Some Key_created
      else if fr_step row = ''faucet_paid'' then Some Faucet_paid
      else if fr_step row = ''deposit'' then Some Deposit
      else if fr_step row = ''borrow'' then Some Borrow
      else if fr_step row = ''repay'' then Some Repay
      else if fr_step row = ''release'' then Some Release
      else None)"

type_synonym funnel_counts = "funnel_step \<Rightarrow> nat"

record summary_acc =
  sa_totals :: funnel_counts
  sa_social :: funnel_counts
  sa_outcomes :: "(string, nat) jsmap"
  sa_days :: "(int, funnel_counts) jsmap"
  sa_reached :: "funnel_step \<Rightarrow> string list"

definition bump :: "funnel_step \<Rightarrow> funnel_counts \<Rightarrow> funnel_counts" where
  "bump s c = c(s := c s + 1)"

definition utc_day :: "int \<Rightarrow> int" where "utc_day t = t div day_ms"

text \<open>The step a row counts toward: chain steps only once the relayer checked them.\<close>

definition counted :: "funnel_row \<Rightarrow> funnel_step option" where
  "counted row = (case stepOf row of None \<Rightarrow> None
     | Some s \<Rightarrow> if s \<in> {Deposit, Borrow, Repay, Release} \<and> \<not> fr_verified row then None else Some s)"

definition summary_row :: "string list \<Rightarrow> funnel_row \<Rightarrow> summary_acc \<Rightarrow> summary_acc" where
  "summary_row socialSubjects row acc0 =
     (let acc = (if fr_step row = ''faucet_claim'' then
            acc0\<lparr>sa_outcomes := js_set (fr_outcome row)
               ((case js_get (sa_outcomes acc0) (fr_outcome row) of None \<Rightarrow> 0 | Some n \<Rightarrow> n) + 1) (sa_outcomes acc0)\<rparr> else acc0) in
      case counted row of
        None \<Rightarrow> acc
      | Some step \<Rightarrow>
          if fr_subject row \<in> set (sa_reached acc step) then acc
          else
            (let day = utc_day (fr_createdAt row);
                 d = (case js_get (sa_days acc) day of None \<Rightarrow> (\<lambda>_. 0) | Some d \<Rightarrow> d) in
             acc\<lparr>sa_reached := (sa_reached acc)(step := sa_reached acc step @ [fr_subject row]),
                 sa_totals := bump step (sa_totals acc),
                 sa_social := (if fr_subject row \<in> set socialSubjects then bump step (sa_social acc) else sa_social acc),
                 sa_days := js_set day (bump step d) (sa_days acc)\<rparr>))"

record onboarding_summary =
  os_activatedSocialUsers :: nat
  os_socialUsersWithDeposit :: nat
  os_totals :: funnel_counts
  os_social :: funnel_counts
  os_faucetOutcomes :: "(string, nat) jsmap"
  os_daily :: "(int \<times> funnel_counts) list"

definition empty_acc :: summary_acc where
  "empty_acc = \<lparr>sa_totals = (\<lambda>_. 0), sa_social = (\<lambda>_. 0), sa_outcomes = [], sa_days = [], sa_reached = (\<lambda>_. [])\<rparr>"

definition social_subjects :: "funnel_row list \<Rightarrow> string list" where
  "social_subjects rows = map fr_subject (filter (\<lambda>r. fr_channel r = ''social'') rows)"

definition summary_of :: "funnel_row list \<Rightarrow> onboarding_summary" where
  "summary_of rows =
     (let acc = fold (summary_row (social_subjects rows)) rows empty_acc;
          withDeposit = filter (\<lambda>x. x \<in> set (sa_reached acc Deposit)) (sa_reached acc Faucet_paid) in
      \<lparr>os_activatedSocialUsers = length (filter (\<lambda>x. x \<in> set (sa_reached acc Borrow)) withDeposit),
       os_socialUsersWithDeposit = length withDeposit,
       os_totals = sa_totals acc, os_social = sa_social acc, os_faucetOutcomes = sa_outcomes acc,
       os_daily = sort_key fst (sa_days acc)\<rparr>)"

section \<open>What the summary counts\<close>

definition subjects :: "funnel_row list \<Rightarrow> funnel_step \<Rightarrow> string set" where
  "subjects rows s = fr_subject ` {r \<in> set rows. counted r = Some s}"

definition first_day :: "funnel_row list \<Rightarrow> funnel_step \<Rightarrow> string \<Rightarrow> int option" where
  "first_day rows s x = map_option (\<lambda>r. utc_day (fr_createdAt r)) (find (\<lambda>r. counted r = Some s \<and> fr_subject r = x) rows)"

definition day_count :: "summary_acc \<Rightarrow> int \<Rightarrow> funnel_step \<Rightarrow> nat" where
  "day_count acc d s = (case js_get (sa_days acc) d of None \<Rightarrow> 0 | Some c \<Rightarrow> c s)"

definition acc_ok :: "string list \<Rightarrow> funnel_row list \<Rightarrow> summary_acc \<Rightarrow> bool" where
  "acc_ok soc rows acc \<longleftrightarrow> js_ok (sa_outcomes acc) \<and> js_ok (sa_days acc)
     \<and> (\<forall>s. distinct (sa_reached acc s) \<and> set (sa_reached acc s) = subjects rows s
          \<and> sa_totals acc s = length (sa_reached acc s)
          \<and> sa_social acc s = length (filter (\<lambda>x. x \<in> set soc) (sa_reached acc s))
          \<and> (\<forall>d. day_count acc d s = length (filter (\<lambda>x. first_day rows s x = Some d) (sa_reached acc s))))
     \<and> (\<forall>c. (case js_get (sa_outcomes acc) c of None \<Rightarrow> 0 | Some n \<Rightarrow> n)
          = length (filter (\<lambda>r. fr_step r = ''faucet_claim'' \<and> fr_outcome r = c) rows))"

lemma find_snoc: "find P (xs @ [x]) = (case find P xs of None \<Rightarrow> if P x then Some x else None | Some y \<Rightarrow> Some y)"
  by (induction xs) simp_all

lemma first_day_snoc:
  "first_day (rows @ [r]) s x = (case first_day rows s x of Some d \<Rightarrow> Some d
     | None \<Rightarrow> if counted r = Some s \<and> fr_subject r = x then Some (utc_day (fr_createdAt r)) else None)"
  by (auto simp: first_day_def find_snoc split: option.splits)

lemma first_day_None: "first_day rows s x = None \<longleftrightarrow> x \<notin> subjects rows s"
  by (auto simp: first_day_def find_None_iff subjects_def)

lemma subjects_snoc: "subjects (rows @ [r]) s = (if counted r = Some s then insert (fr_subject r) (subjects rows s) else subjects rows s)"
  by (auto simp: subjects_def)

lemma same_days: "x \<in> subjects rows s \<Longrightarrow> first_day (rows @ [r]) s x = first_day rows s x"
  using first_day_None [of rows s x] by (auto simp: first_day_snoc split: option.splits)

lemma acc_ok_row:
  assumes "acc_ok soc rows acc"
  shows "acc_ok soc (rows @ [r]) (summary_row soc r acc)"
proof -
  define acc1 where "acc1 = (if fr_step r = ''faucet_claim'' then
      acc\<lparr>sa_outcomes := js_set (fr_outcome r) ((case js_get (sa_outcomes acc) (fr_outcome r) of None \<Rightarrow> 0 | Some n \<Rightarrow> n) + 1) (sa_outcomes acc)\<rparr> else acc)"
  have outcomes: "js_ok (sa_outcomes acc1) \<and> (\<forall>c. (case js_get (sa_outcomes acc1) c of None \<Rightarrow> 0 | Some n \<Rightarrow> n)
      = length (filter (\<lambda>q. fr_step q = ''faucet_claim'' \<and> fr_outcome q = c) (rows @ [r])))"
    using assms by (auto simp: acc1_def acc_ok_def jsmap_simps)
  have same: "sa_reached acc1 = sa_reached acc" "sa_totals acc1 = sa_totals acc" "sa_social acc1 = sa_social acc" "sa_days acc1 = sa_days acc"
    by (simp_all add: acc1_def)
  have old: "filter (\<lambda>x. first_day (rows @ [r]) s x = Some d) (sa_reached acc s) = filter (\<lambda>x. first_day rows s x = Some d) (sa_reached acc s)" for s d
    using assms by (intro filter_cong) (auto simp: acc_ok_def same_days)
  show ?thesis
  proof (cases "\<exists>s. counted r = Some s \<and> fr_subject r \<notin> set (sa_reached acc s)")
    case False
    then have "summary_row soc r acc = acc1" by (auto simp: summary_row_def acc1_def [symmetric] same split: option.splits)
    moreover have "subjects (rows @ [r]) s = subjects rows s" for s using False assms by (auto simp: subjects_snoc acc_ok_def)
    ultimately show ?thesis using assms outcomes old by (simp add: acc_ok_def same day_count_def)
  next
    case True
    then obtain s0 where s0: "counted r = Some s0" "fr_subject r \<notin> set (sa_reached acc s0)" by blast
    let ?day = "utc_day (fr_createdAt r)"
    let ?acc = "summary_row soc r acc"
    have acc': "?acc = acc1\<lparr>sa_reached := (sa_reached acc)(s0 := sa_reached acc s0 @ [fr_subject r]), sa_totals := bump s0 (sa_totals acc),
        sa_social := (if fr_subject r \<in> set soc then bump s0 (sa_social acc) else sa_social acc),
        sa_days := js_set ?day (bump s0 (case js_get (sa_days acc) ?day of None \<Rightarrow> (\<lambda>_. 0) | Some d \<Rightarrow> d)) (sa_days acc)\<rparr>"
      using s0 by (simp add: summary_row_def acc1_def [symmetric] same Let_def)
    have fresh: "first_day rows s0 (fr_subject r) = None" using s0 assms by (simp add: first_day_None acc_ok_def)
    have days: "day_count ?acc d s = day_count acc d s + (if d = ?day \<and> s = s0 then 1 else 0)" for d s
      by (auto simp: acc' day_count_def jsmap_simps bump_def split: option.splits)
    have "day_count ?acc d s = length (filter (\<lambda>x. first_day (rows @ [r]) s x = Some d) (sa_reached ?acc s))" for d s
    proof (cases "s = s0")
      case True
      have "first_day (rows @ [r]) s0 (fr_subject r) = Some ?day" by (simp add: first_day_snoc fresh s0(1))
      then have "filter (\<lambda>x. first_day (rows @ [r]) s x = Some d) (sa_reached ?acc s)
          = filter (\<lambda>x. first_day rows s x = Some d) (sa_reached acc s) @ (if d = ?day then [fr_subject r] else [])"
        using old [of s d] by (auto simp: acc' True)
      with assms True show ?thesis unfolding days by (simp add: acc_ok_def)
    next
      case False
      then have "sa_reached ?acc s = sa_reached acc s" by (simp add: acc')
      with assms False old [of s d] show ?thesis unfolding days by (simp add: acc_ok_def)
    qed
    then show ?thesis
      using assms outcomes s0 by (auto simp: acc_ok_def acc' bump_def subjects_snoc)
  qed
qed

lemma acc_ok_fold: "acc_ok soc rows (fold (summary_row soc) rows empty_acc)"
proof (induction rows rule: rev_induct)
  case Nil
  show ?case by (simp add: acc_ok_def empty_acc_def subjects_def day_count_def)
next
  case (snoc r rows)
  from acc_ok_row [OF this, of r] show ?case by simp
qed

section \<open>The contract of a store\<close>

definition clean :: "funnel_row \<Rightarrow> bool" where
  "clean r \<longleftrightarrow> CHR ''|'' \<notin> set (fr_subject r) \<and> CHR ''|'' \<notin> set (fr_step r)"

datatype funnel_op = Report json "position_reader option" int | Claim json string int

definition run_op :: "(funnel_row \<Rightarrow> 's \<Rightarrow> 's \<times> bool) \<Rightarrow> (string \<Rightarrow> string) \<Rightarrow> funnel_op \<Rightarrow> 's \<Rightarrow> 's" where
  "run_op rec subjectOf op s = (case op of
     Report body read t \<Rightarrow> fst (report rec subjectOf read t body s)
   | Claim address outcome t \<Rightarrow> recordFaucet rec subjectOf t address outcome s)"

text \<open>Where a row comes from: a chain step from a position of that subject, read and found far enough.\<close>

definition justified :: "(string \<Rightarrow> string) \<Rightarrow> funnel_op list \<Rightarrow> funnel_row \<Rightarrow> bool" where
  "justified subjectOf ops r \<longleftrightarrow>
     (fr_step r \<in> set CHAIN_STEPS \<and> fr_verified r
        \<and> (\<exists>body f t txid p. Report body (Some f) t \<in> set ops \<and> f txid = Inr (Some p) \<and> positionReached (fr_step r) p
             \<and> fr_subject r = subjectOf (pf_depositor p)))
   \<or> (fr_step r \<in> {''sign_in'', ''key_created''} \<and> \<not> fr_verified r)
   \<or> (fr_step r = ''faucet_claim'' \<and> (fr_verified r \<longleftrightarrow> fr_outcome r = ''paid'')
        \<and> (\<exists>a t. Claim (JStr a) (fr_outcome r) t \<in> set ops \<and> fr_subject r = subjectOf a))"

lemma justified_append: "justified f ops r \<Longrightarrow> justified f (ops @ ops') r"
  and justified_last: "justified f [op] r \<Longrightarrow> justified f (ops @ [op]) r"
  unfolding justified_def set_append by fastforce+

lemma parsed_report:
  "parseStepReport body = Inr r \<Longrightarrow> sr_step r \<in> set REPORTED_STEPS \<and> STELLAR_ACCOUNT_RE (sr_address r)
    \<and> (sr_step r \<in> set CHAIN_STEPS \<longleftrightarrow> sr_txid r \<noteq> None)"
  by (auto simp: parseStepReport_def split: option.splits json.splits if_splits)

text \<open>An operation records one row with a known origin, or nothing.\<close>

lemma run_op_cases:
  obtains (nothing) "run_op rec subjectOf op s = s"
  | (row) r where "run_op rec subjectOf op s = fst (rec r s)" "justified subjectOf [op] r"
      "fr_step r \<in> insert ''faucet_claim'' (set REPORTED_STEPS)" "fr_subject r \<in> range subjectOf"
proof (cases op)
  case (Report body read t)
  show ?thesis
  proof (cases "res_bind (parseStepReport body) (\<lambda>r. res_bind (check_step read r) (\<lambda>v. Inr (r, v)))")
    case (Inl e)
    then have "run_op rec subjectOf op s = s" by (simp add: Report run_op_def report_def)
    then show ?thesis by (rule nothing)
  next
    case (Inr x)
    then obtain r v where x: "parseStepReport body = Inr r" "check_step read r = Inr v" "x = (r, v)" by (auto simp: res_simps)
    let ?row = "\<lparr>fr_subject = subjectOf (sr_address r), fr_step = sr_step r, fr_outcome = ''ok'', fr_channel = sr_channel r,
      fr_verified = v, fr_createdAt = t\<rparr>"
    have "justified subjectOf [op] ?row"
    proof (cases "sr_step r \<in> set CHAIN_STEPS")
      case True
      with x(2) obtain f txid p where "read = Some f" "f txid = Inr (Some p)" "pf_depositor p = sr_address r" "positionReached (sr_step r) p" v
        by (auto simp: check_step_def split: option.splits sum.splits if_splits)
      with True Report show ?thesis unfolding justified_def by fastforce
    next
      case False
      with x(2) parsed_report [OF x(1)] show ?thesis by (auto simp: justified_def check_step_def CHAIN_STEPS_def REPORTED_STEPS_def)
    qed
    then show ?thesis
      using row [of ?row] Report Inr x parsed_report [OF x(1)] by (simp add: run_op_def report_def case_prod_unfold Let_def)
  qed
next
  case (Claim address outcome t)
  show ?thesis
  proof (cases "\<exists>a. address = JStr a \<and> STELLAR_ACCOUNT_RE a \<and> OUTCOME_RE outcome")
    case True
    then obtain a where a: "address = JStr a" "STELLAR_ACCOUNT_RE a \<and> OUTCOME_RE outcome" by blast
    let ?row = "\<lparr>fr_subject = subjectOf a, fr_step = ''faucet_claim'', fr_outcome = outcome, fr_channel = ''social'',
      fr_verified = (outcome = ''paid''), fr_createdAt = t\<rparr>"
    have "run_op rec subjectOf op s = fst (rec ?row s)" by (simp add: Claim a run_op_def recordFaucet_def)
    moreover have "justified subjectOf [op] ?row" using Claim a by (auto simp: justified_def)
    ultimately show ?thesis by (rule row) simp_all
  next
    case False
    then have "run_op rec subjectOf op s = s" by (auto simp: Claim run_op_def recordFaucet_def split: json.splits)
    then show ?thesis by (rule nothing)
  qed
qed

locale funnel_store =
  fixes record_row :: "funnel_row \<Rightarrow> 's \<Rightarrow> 's \<times> bool" and rows :: "'s \<Rightarrow> funnel_row list" and inv :: "'s \<Rightarrow> bool"
  assumes inv_record: "inv s \<Longrightarrow> clean r \<Longrightarrow> inv (fst (record_row r s))"
    and rows_record: "inv s \<Longrightarrow> clean r \<Longrightarrow> set (rows (fst (record_row r s)))
        = (if row_key r \<in> row_key ` set (rows s) then set (rows s) else insert r (set (rows s)))"
    and rows_distinct: "inv s \<Longrightarrow> distinct (map row_key (rows s))"
    and rows_sorted: "inv s \<Longrightarrow> sorted (map fr_createdAt (rows s))"
begin

definition run :: "(string \<Rightarrow> string) \<Rightarrow> funnel_op list \<Rightarrow> 's \<Rightarrow> 's" where
  "run subjectOf ops s = fold (run_op record_row subjectOf) ops s"

lemma run_invariant:
  assumes "\<And>a. CHR ''|'' \<notin> set (subjectOf a)"
  shows "inv s \<Longrightarrow> (\<And>r. r \<in> set (rows s) \<Longrightarrow> justified subjectOf old r) \<Longrightarrow>
    inv (run subjectOf ops s) \<and> (\<forall>r\<in>set (rows (run subjectOf ops s)). justified subjectOf (old @ ops) r)"
proof (induction ops arbitrary: s old)
  case (Cons op ops)
  let ?s = "run_op record_row subjectOf op s"
  have "inv ?s \<and> (\<forall>r\<in>set (rows ?s). justified subjectOf (old @ [op]) r)"
  proof (cases rule: run_op_cases [of record_row subjectOf op s])
    case nothing
    with Cons.prems show ?thesis by (simp add: justified_append)
  next
    case (row r)
    have "clean r" using row(3, 4) assms by (auto simp: clean_def REPORTED_STEPS_def)
    with inv_record [OF Cons.prems(1) this] rows_record [OF Cons.prems(1) this] row(1, 2) Cons.prems(2)
    show ?thesis by (auto simp: justified_append justified_last split: if_splits)
  qed
  then have s: "inv ?s" "\<And>r. r \<in> set (rows ?s) \<Longrightarrow> justified subjectOf (old @ [op]) r" by auto
  from Cons.IH [OF s] show ?case by (simp add: run_def)
qed (simp add: run_def)

text \<open>The faucet's outcomes count rows; with the key of the table a row is a subject.\<close>

lemma outcome_count:
  assumes "inv s"
  shows "length (filter (\<lambda>r. fr_step r = ''faucet_claim'' \<and> fr_outcome r = c) (rows s))
    = card (fr_subject ` {r \<in> set (rows s). fr_step r = ''faucet_claim'' \<and> fr_outcome r = c})"
proof -
  let ?rs = "filter (\<lambda>r. fr_step r = ''faucet_claim'' \<and> fr_outcome r = c) (rows s)"
  have "distinct (map row_key ?rs)" using rows_distinct [OF assms] by (rule distinct_map_filter)
  moreover have "row_key x = row_key y \<longleftrightarrow> fr_subject x = fr_subject y" if "x \<in> set ?rs" "y \<in> set ?rs" for x y using that by (auto simp: row_key_def)
  ultimately have "distinct (map fr_subject ?rs)" by (auto simp: distinct_map inj_on_def)
  from distinct_card [OF this] show ?thesis by simp
qed

end

lemma row_key_seen: "list_ex (\<lambda>x. row_key x = k) table \<longleftrightarrow> k \<in> row_key ` set table"
  by (auto simp only: list_ex_iff image_iff)

interpretation sqlite: funnel_store sqlite_record sqlite_rows "\<lambda>table. distinct (map row_key table)"
proof
  show "distinct (map row_key (sqlite_rows s))" if "distinct (map row_key s)" for s
  proof -
    have "mset (map row_key (sqlite_rows s)) = mset (map row_key s)" by (simp add: sqlite_rows_def)
    with that show ?thesis by (metis mset_eq_imp_distinct_iff)
  qed
  show "distinct (map row_key (fst (sqlite_record r s)))" if "distinct (map row_key s)" for s r
    using that unfolding sqlite_record_def row_key_seen by (cases "row_key r \<in> row_key ` set s") simp_all
  show "set (sqlite_rows (fst (sqlite_record r s)))
      = (if row_key r \<in> row_key ` set (sqlite_rows s) then set (sqlite_rows s) else insert r (set (sqlite_rows s)))" for s r
    unfolding sqlite_record_def sqlite_rows_def row_key_seen by (cases "row_key r \<in> row_key ` set s") simp_all
qed (simp add: sqlite_rows_def)

lemma memory_key_inject:
  assumes "clean r" "clean q"
  shows "memory_key r = memory_key q \<longleftrightarrow> row_key r = row_key q"
proof -
  have split: "CHR ''|'' \<notin> set a \<Longrightarrow> CHR ''|'' \<notin> set c \<Longrightarrow> a @ CHR ''|'' # b = c @ CHR ''|'' # d \<longleftrightarrow> a = c \<and> b = d" for a b c d
  proof (induction a arbitrary: c)
    case Nil
    then show ?case by (cases c) auto
  next
    case (Cons x a)
    then show ?case by (cases c) auto
  qed
  show ?thesis using assms split by (auto simp: memory_key_def clean_def row_key_def)
qed

lemma memory_key_seen:
  assumes "mf_keys m = map memory_key (mf_rows m)" "list_all clean (mf_rows m)" "clean r"
  shows "memory_key r \<in> set (mf_keys m) \<longleftrightarrow> row_key r \<in> row_key ` set (mf_rows m)"
proof -
  have "memory_key r = memory_key q \<longleftrightarrow> row_key r = row_key q" if "q \<in> set (mf_rows m)" for q
    using memory_key_inject [OF assms(3)] assms(2) that by (simp add: list_all_iff)
  then show ?thesis unfolding assms(1) set_map image_iff by blast
qed

definition memory_ok :: "memory_funnel \<Rightarrow> bool" where
  "memory_ok m \<longleftrightarrow> distinct (map row_key (mf_rows m)) \<and> mf_keys m = map memory_key (mf_rows m) \<and> list_all clean (mf_rows m)"

lemma memory_record_seen:
  "memory_ok m \<Longrightarrow> clean r \<Longrightarrow> memory_record r m =
     (if row_key r \<in> row_key ` set (mf_rows m) then (m, False)
      else (m\<lparr>mf_keys := mf_keys m @ [memory_key r], mf_rows := mf_rows m @ [r]\<rparr>, True))"
  unfolding memory_record_def by (subst memory_key_seen) (simp_all only: memory_ok_def)

interpretation memory: funnel_store memory_record memory_rows memory_ok
proof
  show "distinct (map row_key (memory_rows m))" if "memory_ok m" for m
  proof -
    have "mset (map row_key (memory_rows m)) = mset (map row_key (mf_rows m))" by (simp add: memory_rows_def)
    with that show ?thesis unfolding memory_ok_def by (metis mset_eq_imp_distinct_iff)
  qed
  show "memory_ok (fst (memory_record r m))" if "memory_ok m" "clean r" for m r
    unfolding memory_record_seen [OF that] using that
    by (cases "row_key r \<in> row_key ` set (mf_rows m)") (simp_all add: memory_ok_def)
  show "set (memory_rows (fst (memory_record r m)))
      = (if row_key r \<in> row_key ` set (memory_rows m) then set (memory_rows m) else insert r (set (memory_rows m)))"
    if "memory_ok m" "clean r" for m r
    unfolding memory_record_seen [OF that] by (cases "row_key r \<in> row_key ` set (mf_rows m)") (simp_all add: memory_rows_def)
qed (simp add: memory_rows_def)

text \<open>The store of the tests and the store of the relayer answer alike.\<close>

lemma stores_agree:
  assumes "\<And>a. CHR ''|'' \<notin> set (subjectOf a)"
  shows "memory_ok m \<Longrightarrow> memory_rows (memory.run subjectOf ops m) = sqlite_rows (sqlite.run subjectOf ops (mf_rows m))"
proof (induction ops arbitrary: m)
  case (Cons op ops)
  let ?m = "run_op memory_record subjectOf op m"
  have "memory_ok ?m \<and> run_op sqlite_record subjectOf op (mf_rows m) = mf_rows ?m"
  proof (cases "run_op (\<lambda>r s. (Some r, True)) subjectOf op None")
    case None
    then have "?m = m" "run_op sqlite_record subjectOf op (mf_rows m) = mf_rows m"
      by (auto simp: run_op_def report_def recordFaucet_def case_prod_unfold Let_def split: funnel_op.splits sum.splits json.splits if_splits)
    with Cons.prems show ?thesis by simp
  next
    case (Some r)
    then have r: "?m = fst (memory_record r m)" "run_op sqlite_record subjectOf op (mf_rows m) = fst (sqlite_record r (mf_rows m))"
      by (auto simp: run_op_def report_def recordFaucet_def case_prod_unfold Let_def split: funnel_op.splits sum.splits json.splits if_splits)
    have "fr_step r \<in> insert ''faucet_claim'' (set REPORTED_STEPS)" "fr_subject r \<in> range subjectOf"
      using Some parsed_report
      by (auto simp: run_op_def report_def recordFaucet_def case_prod_unfold Let_def res_simps split: funnel_op.splits sum.splits json.splits if_splits)
    then have r': "clean r" using assms by (auto simp: clean_def REPORTED_STEPS_def)
    have "fst (sqlite_record r (mf_rows m)) = mf_rows (fst (memory_record r m))"
      unfolding memory_record_seen [OF Cons.prems r'] sqlite_record_def row_key_seen by simp
    then show ?thesis unfolding r using memory.inv_record [OF Cons.prems r'] by simp
  qed
  with Cons.IH show ?case by (simp add: memory.run_def sqlite.run_def)
qed (simp add: memory.run_def sqlite.run_def memory_rows_def sqlite_rows_def)

section \<open>Properties\<close>

definition funnel_after :: "(string \<Rightarrow> string) \<Rightarrow> funnel_op list \<Rightarrow> funnel_row list" where
  "funnel_after subjectOf ops = sqlite_rows (fold (run_op sqlite_record subjectOf) ops [])"

lemma funnel_after_run: "funnel_after subjectOf ops = sqlite_rows (sqlite.run subjectOf ops [])"
  by (simp add: funnel_after_def sqlite.run_def)

definition counted_on :: "(int \<times> funnel_counts) list \<Rightarrow> int \<Rightarrow> funnel_step \<Rightarrow> nat" where
  "counted_on daily d s = (case map_of daily d of None \<Rightarrow> 0 | Some c \<Rightarrow> c s)"

lemma counted_on_daily:
  assumes "js_ok m"
  shows "counted_on (sort_key fst m) d s = (case js_get m d of None \<Rightarrow> 0 | Some c \<Rightarrow> c s)"
proof -
  have m: "distinct (map fst m)" using assms by (simp add: js_ok_def)
  have "mset (map fst (sort_key fst m)) = mset (map fst m)" by simp
  with m have m': "distinct (map fst (sort_key fst m))" by (metis mset_eq_imp_distinct_iff)
  have "map_of (sort_key fst m) d = Some c \<longleftrightarrow> map_of m d = Some c" for c
    by (simp only: map_of_eq_Some_iff [OF m] map_of_eq_Some_iff [OF m'] set_sort)
  then have "map_of (sort_key fst m) d = map_of m d" by (metis not_None_eq)
  then show ?thesis by (simp add: counted_on_def)
qed

text \<open>One social user goes through the whole funnel; a stranger's report of the same position is refused.\<close>

definition demo_subject :: "string \<Rightarrow> string" where
  "demo_subject a = (if last a = CHR ''A'' then ''aa'' else ''bb'')"

definition demo_ops :: "funnel_op list" where
  "demo_ops =
     (let me = JStr (CHR ''G'' # replicate 55 (CHR ''A''));
          step = (\<lambda>k a. JObj [(''step'', JStr k), (''stellarAddress'', a), (''channel'', JStr ''social''), (''txid'', JStr (replicate 64 (CHR ''7'')))]);
          read = Some (\<lambda>_. Inr (Some \<lparr>pf_depositor = CHR ''G'' # replicate 55 (CHR ''A''), pf_status = Active, pf_debtStroops = 7\<rparr>)) in
      [Report (step ''sign_in'' me) None 10, Claim me ''paid'' 20, Report (step ''deposit'' me) read 30, Report (step ''borrow'' me) read (day_ms + 5),
       Report (step ''borrow'' me) read (day_ms + 9), Report (step ''release'' me) read (day_ms + 11),
       Report (step ''deposit'' (JStr (CHR ''G'' # replicate 55 (CHR ''B'')))) read 90])"

lemma demo_subject_bar: "CHR ''|'' \<notin> set (demo_subject a)"
  by (simp add: demo_subject_def)

lemma demo_rows:
  "funnel_after demo_subject demo_ops = map (\<lambda>(k, out, v, t).
     \<lparr>fr_subject = ''aa'', fr_step = k, fr_outcome = out, fr_channel = ''social'', fr_verified = v, fr_createdAt = t\<rparr>)
     [(''sign_in'', ''ok'', False, 10), (''faucet_claim'', ''paid'', True, 20), (''deposit'', ''ok'', True, 30), (''borrow'', ''ok'', True, 86400005)]"
  by code_simp

text \<open>The summary of the funnel, after any reports and faucet claims: each step counts the distinct subjects with a
  row that counts toward it, the social count those of them seen signing in socially, the headline those paid by the
  faucet that deposited and borrowed, each faucet outcome the distinct subjects that had it, and each day, in order,
  the subjects that first reached the step on it.\<close>

theorem funnel_summary_counts:
  assumes "\<And>a. CHR ''|'' \<notin> set (subjectOf a)" and "rows = funnel_after subjectOf ops" and "got = summary_of rows"
  shows "os_totals got s = card (subjects rows s)
    \<and> os_social got s = card (subjects rows s \<inter> set (social_subjects rows))
    \<and> os_socialUsersWithDeposit got = card (subjects rows Faucet_paid \<inter> subjects rows Deposit)
    \<and> os_activatedSocialUsers got = card (subjects rows Faucet_paid \<inter> subjects rows Deposit \<inter> subjects rows Borrow)
    \<and> (case js_get (os_faucetOutcomes got) c of None \<Rightarrow> 0 | Some n \<Rightarrow> n)
       = card (fr_subject ` {r \<in> set rows. fr_step r = ''faucet_claim'' \<and> fr_outcome r = c})
    \<and> sorted (map fst (os_daily got))
    \<and> counted_on (os_daily got) d s = card {x \<in> subjects rows s. first_day rows s x = Some d}"
proof -
  let ?acc = "fold (summary_row (social_subjects rows)) rows empty_acc"
  have ok: "acc_ok (social_subjects rows) rows ?acc" by (rule acc_ok_fold)
  have reached: "length (filter P (sa_reached ?acc k)) = card {x \<in> subjects rows k. P x}" for P k
    using ok distinct_card [of "filter P (sa_reached ?acc k)"] by (simp add: acc_ok_def)
  have inv: "distinct (map row_key (sqlite.run subjectOf ops []))"
    using sqlite.run_invariant [of subjectOf "[]" "[]" ops] assms(1) by (simp add: sqlite_rows_def)
  have "sa_totals ?acc s = card (subjects rows s)" using reached [of "\<lambda>_. True" s] ok by (simp add: acc_ok_def)
  moreover have "counted_on (sort_key fst (sa_days ?acc)) d s = card {x \<in> subjects rows s. first_day rows s x = Some d}"
    using ok reached [of "\<lambda>x. first_day rows s x = Some d" s] by (simp add: acc_ok_def counted_on_daily day_count_def)
  moreover have "length (filter (\<lambda>r. fr_step r = ''faucet_claim'' \<and> fr_outcome r = c) rows)
      = card (fr_subject ` {r \<in> set rows. fr_step r = ''faucet_claim'' \<and> fr_outcome r = c})"
    unfolding assms(2) funnel_after_run by (rule sqlite.outcome_count [OF inv])
  moreover have "sa_social ?acc s = card (subjects rows s \<inter> set (social_subjects rows))"
    using ok reached [of "\<lambda>x. x \<in> set (social_subjects rows)" s] by (simp add: acc_ok_def Int_def)
  moreover have "set (sa_reached ?acc k) = subjects rows k" for k using ok by (simp add: acc_ok_def)
  moreover have "(case js_get (sa_outcomes ?acc) c of None \<Rightarrow> 0 | Some n \<Rightarrow> n)
      = length (filter (\<lambda>r. fr_step r = ''faucet_claim'' \<and> fr_outcome r = c) rows)" using ok by (simp add: acc_ok_def)
  ultimately show ?thesis
    by (simp add: assms(3) summary_of_def Let_def reached Int_def conj_ac)
qed

theorem funnel_summary_counts_witness:
  "os_activatedSocialUsers (summary_of (funnel_after demo_subject demo_ops)) = 1
    \<and> os_totals (summary_of (funnel_after demo_subject demo_ops)) Borrow
      = card (subjects (funnel_after demo_subject demo_ops) Borrow)
    \<and> counted_on (os_daily (summary_of (funnel_after demo_subject demo_ops))) 1 Borrow = 1"
proof -
  have "os_activatedSocialUsers (summary_of (funnel_after demo_subject demo_ops)) = 1
    \<and> counted_on (os_daily (summary_of (funnel_after demo_subject demo_ops))) 1 Borrow = 1"
    unfolding demo_rows by code_simp
  with funnel_summary_counts [where subjectOf = demo_subject and ops = demo_ops and s = Borrow and c = "''paid''" and d = 1,
    OF demo_subject_bar refl refl] show ?thesis by blast
qed

text \<open>Nothing is stored that was not checked: every row of the funnel after any operations is a chain step of a
  position read from the contract, reached far enough and owned by an address of that subject, or a browser step
  recorded as unverified, or a faucet claim, verified exactly when it was paid; one row per subject, step and
  outcome, in order of time.\<close>

theorem funnel_rows_checked:
  assumes "\<And>a. CHR ''|'' \<notin> set (subjectOf a)" and "r \<in> set (funnel_after subjectOf ops)"
  shows "justified subjectOf ops r \<and> distinct (map row_key (funnel_after subjectOf ops))
    \<and> sorted (map fr_createdAt (funnel_after subjectOf ops))"
proof -
  have "distinct (map row_key (sqlite.run subjectOf ops []))
      \<and> (\<forall>r\<in>set (sqlite_rows (sqlite.run subjectOf ops [])). justified subjectOf ([] @ ops) r)"
    by (rule sqlite.run_invariant) (simp_all add: assms(1) sqlite_rows_def)
  then show ?thesis
    using assms(2) sqlite.rows_distinct sqlite.rows_sorted by (simp add: funnel_after_run)
qed

theorem funnel_rows_checked_witness:
  "map fr_step (funnel_after demo_subject demo_ops) = [''sign_in'', ''faucet_claim'', ''deposit'', ''borrow'']
    \<and> justified demo_subject demo_ops (last (funnel_after demo_subject demo_ops))"
proof -
  have rows: "map fr_step (funnel_after demo_subject demo_ops) = [''sign_in'', ''faucet_claim'', ''deposit'', ''borrow'']" by (simp add: demo_rows)
  then have "funnel_after demo_subject demo_ops \<noteq> []" by auto
  then have "last (funnel_after demo_subject demo_ops) \<in> set (funnel_after demo_subject demo_ops)" by (rule last_in_set)
  from funnel_rows_checked [where subjectOf = demo_subject, OF demo_subject_bar this] rows show ?thesis by blast
qed

end
