(* ===== verification/Interest.thy ===== *)
theory Interest
  imports Prelude "HOL-Library.Signed_Division"
begin

text \<open>
  \<^verbatim>\<open>frontend/app/src/lib/contracts/writzLend.ts\<close>: interest as the app projects it, beside the contract's own
  \<^verbatim>\<open>contracts/contracts/writz-lend/src/rates.rs\<close> that it says it mirrors. A \<^verbatim>\<open>bigint\<close> is an \<open>int\<close> and its division
  truncates; an \<^verbatim>\<open>i128\<close> is an \<open>int\<close> whose saturating operations clamp at the width. The two agree within
  the bounds of \<open>rates_in_range\<close>.
\<close>

section \<open>The app's projection\<close>

definition INDEX_ONE :: int where "INDEX_ONE = 10 ^ 18"
definition BP_SCALE :: int where "BP_SCALE = 10000"
definition U_OPTIMAL_BP :: int where "U_OPTIMAL_BP = 7500"
definition SLOPE1_BP :: int where "SLOPE1_BP = 800"
definition SLOPE2_BP :: int where "SLOPE2_BP = 20000"
definition LEDGERS_PER_YEAR :: int where "LEDGERS_PER_YEAR = 6311520"
definition PROTOCOL_FEE_BP :: int where "PROTOCOL_FEE_BP = 1500"

lemmas rate_constants = INDEX_ONE_def BP_SCALE_def U_OPTIMAL_BP_def SLOPE1_BP_def SLOPE2_BP_def LEDGERS_PER_YEAR_def PROTOCOL_FEE_BP_def

record rate_state =
  borrow_index :: int
  supply_index :: int
  index_ledger :: int
  total_borrowed :: int
  total_scaled_supply :: int

definition totalSupplyAssets :: "rate_state \<Rightarrow> int \<Rightarrow> int" where
  "totalSupplyAssets p supplyIndex = (total_scaled_supply p * supplyIndex) sdiv INDEX_ONE"

definition borrowRateBp :: "int \<Rightarrow> int \<Rightarrow> int" where
  "borrowRateBp totalBorrowed supplyAssets =
     (if supplyAssets = 0 \<or> totalBorrowed = 0 then 0
      else
        let u0 = (totalBorrowed * BP_SCALE) sdiv supplyAssets;
            u = (if u0 > BP_SCALE then BP_SCALE else u0) in
        if u \<le> U_OPTIMAL_BP then (u * SLOPE1_BP) sdiv U_OPTIMAL_BP
        else SLOPE1_BP + ((u - U_OPTIMAL_BP) * SLOPE2_BP) sdiv (BP_SCALE - U_OPTIMAL_BP))"

record projected_rates =
  pr_borrowIndex :: int
  pr_supplyIndex :: int
  pr_totalBorrowed :: int

definition projectRates :: "rate_state \<Rightarrow> int \<Rightarrow> projected_rates" where
  "projectRates p ledger =
     (let elapsed = max 0 (ledger - index_ledger p) in
      if elapsed = 0 then
        \<lparr>pr_borrowIndex = borrow_index p, pr_supplyIndex = supply_index p, pr_totalBorrowed = total_borrowed p\<rparr>
      else
        let rate = borrowRateBp (total_borrowed p) (totalSupplyAssets p (supply_index p));
            borrowIndex = (if rate > 0 then borrow_index p + (borrow_index p * rate * elapsed) sdiv (LEDGERS_PER_YEAR * BP_SCALE)
                           else borrow_index p) in
        if total_borrowed p > 0 \<and> borrowIndex > borrow_index p then
          let delta = (total_borrowed p * (borrowIndex - borrow_index p)) sdiv borrow_index p;
              lenders = delta - (delta * 1500) sdiv BP_SCALE in
          \<lparr>pr_borrowIndex = borrowIndex,
           pr_supplyIndex = (if total_scaled_supply p > 0 then supply_index p + (lenders * INDEX_ONE) sdiv total_scaled_supply p
                             else supply_index p),
           pr_totalBorrowed = total_borrowed p + delta\<rparr>
        else \<lparr>pr_borrowIndex = borrowIndex, pr_supplyIndex = supply_index p, pr_totalBorrowed = total_borrowed p\<rparr>)"

definition debtAt :: "int \<Rightarrow> int \<Rightarrow> int \<Rightarrow> int" where
  "debtAt usdc_debt debt_index borrowIndex =
     (if usdc_debt = 0 \<or> debt_index \<le> 0 then usdc_debt else (usdc_debt * borrowIndex) sdiv debt_index)"

record pool_state =
  ps_totalSupplied :: int
  ps_totalBorrowed :: int
  ps_available :: int

definition poolStateAt :: "rate_state \<Rightarrow> int \<Rightarrow> pool_state" where
  "poolStateAt proto ledger =
     (let r = projectRates proto ledger;
          totalSupplied = totalSupplyAssets proto (pr_supplyIndex r) in
      \<lparr>ps_totalSupplied = totalSupplied, ps_totalBorrowed = pr_totalBorrowed r,
       ps_available = (if totalSupplied > pr_totalBorrowed r then totalSupplied - pr_totalBorrowed r else 0)\<rparr>)"

section \<open>The contract's projection\<close>

definition i128 :: "int \<Rightarrow> int" where
  "i128 x = max (- (2 ^ 127)) (min (2 ^ 127 - 1) x)"

definition sat_add :: "int \<Rightarrow> int \<Rightarrow> int" where "sat_add a b = i128 (a + b)"
definition sat_mul :: "int \<Rightarrow> int \<Rightarrow> int" where "sat_mul a b = i128 (a * b)"

definition total_supply_assets :: "rate_state \<Rightarrow> int \<Rightarrow> int" where
  "total_supply_assets proto supply_idx = sat_mul (total_scaled_supply proto) supply_idx sdiv INDEX_ONE"

definition borrow_rate_bp :: "int \<Rightarrow> int \<Rightarrow> int" where
  "borrow_rate_bp borrowed assets =
     (if assets = 0 \<or> borrowed = 0 then 0
      else
        let u_bp = min (sat_mul borrowed BP_SCALE sdiv assets) BP_SCALE in
        if u_bp \<le> U_OPTIMAL_BP then sat_mul u_bp SLOPE1_BP sdiv U_OPTIMAL_BP
        else sat_add SLOPE1_BP (sat_mul (u_bp - U_OPTIMAL_BP) SLOPE2_BP sdiv (BP_SCALE - U_OPTIMAL_BP)))"

definition accrue_interest :: "int \<Rightarrow> int \<Rightarrow> int \<Rightarrow> int" where
  "accrue_interest debt rate_bp ledgers_elapsed =
     (if ledgers_elapsed = 0 \<or> debt = 0 \<or> rate_bp = 0 then debt
      else sat_add debt (sat_mul (sat_mul debt rate_bp) ledgers_elapsed sdiv sat_mul LEDGERS_PER_YEAR BP_SCALE))"

definition grow_index :: "int \<Rightarrow> int \<Rightarrow> int \<Rightarrow> int" where
  "grow_index idx rate_bp ledgers_elapsed =
     (if ledgers_elapsed \<le> 0 \<or> rate_bp \<le> 0 then idx else accrue_interest idx rate_bp ledgers_elapsed)"

text \<open>\<^verbatim>\<open>project\<close> answers borrow index, supply index, total borrowed and reserve.\<close>

definition project :: "rate_state \<Rightarrow> int \<Rightarrow> int \<Rightarrow> int \<times> int \<times> int \<times> int" where
  "project proto reserve_usdc current_ledger =
     (let elapsed = max 0 (current_ledger - index_ledger proto) in
      if elapsed > 0 then
        let assets = total_supply_assets proto (supply_index proto);
            rate = borrow_rate_bp (total_borrowed proto) assets;
            new_index = grow_index (borrow_index proto) rate elapsed in
        if total_borrowed proto > 0 \<and> new_index > borrow_index proto then
          let delta = sat_mul (total_borrowed proto) (new_index - borrow_index proto) sdiv borrow_index proto;
              fee = sat_mul delta PROTOCOL_FEE_BP sdiv BP_SCALE;
              lender_share = delta - fee in
          (new_index,
           (if total_scaled_supply proto > 0
            then sat_add (supply_index proto) (sat_mul lender_share INDEX_ONE sdiv total_scaled_supply proto)
            else supply_index proto),
           sat_add (total_borrowed proto) delta,
           sat_add reserve_usdc fee)
        else (new_index, supply_index proto, total_borrowed proto, reserve_usdc)
      else (borrow_index proto, supply_index proto, total_borrowed proto, reserve_usdc))"

text \<open>\<^verbatim>\<open>accrue_position\<close> of the contract: the debt and its index brought up to a borrow index.\<close>

definition accrue_debt :: "int \<Rightarrow> int \<Rightarrow> int \<Rightarrow> int" where
  "accrue_debt usdc_debt debt_index idx =
     (if usdc_debt > 0 \<and> debt_index > 0 then sat_mul usdc_debt idx sdiv debt_index else usdc_debt)"

section \<open>Bounds\<close>

text \<open>Indices up to a hundred times one, totals up to a billion USDC, ten years between accruals.\<close>

definition rates_in_range :: "rate_state \<Rightarrow> int \<Rightarrow> bool" where
  "rates_in_range p ledger \<longleftrightarrow>
     0 < borrow_index p \<and> borrow_index p \<le> 10 ^ 20 \<and> 0 \<le> supply_index p \<and> supply_index p \<le> 10 ^ 20
     \<and> 0 \<le> total_borrowed p \<and> total_borrowed p \<le> 10 ^ 16 \<and> 0 \<le> total_scaled_supply p \<and> total_scaled_supply p \<le> 10 ^ 16
     \<and> ledger - index_ledger p \<le> 10 * LEDGERS_PER_YEAR"

lemma i128_id: "0 \<le> x \<Longrightarrow> x < 2 ^ 127 \<Longrightarrow> i128 x = x"
  by (simp add: i128_def)

lemma sdiv_nonneg [simp]: "0 \<le> a \<Longrightarrow> 0 < b \<Longrightarrow> a sdiv b = (a :: int) div b"
  by (cases "a = 0") (simp_all add: signed_divide_int_def sgn_if)

lemma borrow_rate_range: "0 \<le> b \<Longrightarrow> 0 \<le> a \<Longrightarrow> 0 \<le> borrowRateBp b a \<and> borrowRateBp b a \<le> 20800"
proof -
  assume ab: "0 \<le> b" "0 \<le> a"
  define u where "u = (if (b * BP_SCALE) sdiv a > BP_SCALE then BP_SCALE else (b * BP_SCALE) sdiv a)"
  have "a \<noteq> 0 \<Longrightarrow> 0 \<le> (b * BP_SCALE) sdiv a" using ab by (simp add: BP_SCALE_def pos_imp_zdiv_nonneg_iff)
  then have u: "a \<noteq> 0 \<Longrightarrow> 0 \<le> u \<and> u \<le> 10000" by (simp add: u_def BP_SCALE_def)
  show ?thesis
    unfolding borrowRateBp_def Let_def u_def [symmetric] using u
    by (simp add: rate_constants sdiv_nonneg) linarith
qed

lemma i128_mul: "0 \<le> a \<Longrightarrow> a \<le> m \<Longrightarrow> 0 \<le> b \<Longrightarrow> b \<le> n \<Longrightarrow> m * n < 2 ^ 127 \<Longrightarrow> sat_mul a b = a * b"
  unfolding sat_mul_def by (rule i128_id) (simp, use mult_mono [of a m b n] in linarith)

text \<open>Growth of an index over an interval, as both sides compute it.\<close>

definition index_growth :: "int \<Rightarrow> int \<Rightarrow> int \<Rightarrow> int" where
  "index_growth idx rate elapsed = (idx * rate * elapsed) div (LEDGERS_PER_YEAR * BP_SCALE)"

lemma index_growth_bound:
  assumes "0 \<le> idx" "0 \<le> r" "r \<le> 20800" "0 \<le> e" "e \<le> 10 * LEDGERS_PER_YEAR"
  shows "0 \<le> index_growth idx r e \<and> index_growth idx r e \<le> 21 * idx"
proof -
  have "r * e \<le> 20800 * (10 * LEDGERS_PER_YEAR)" using assms by (intro mult_mono) (simp_all add: LEDGERS_PER_YEAR_def)
  then have "idx * (r * e) \<le> idx * (21 * (LEDGERS_PER_YEAR * BP_SCALE))"
    using assms(1) by (intro mult_left_mono) (simp_all add: rate_constants)
  then have "idx * r * e \<le> (21 * idx) * (LEDGERS_PER_YEAR * BP_SCALE)" by (simp add: algebra_simps)
  then have "index_growth idx r e \<le> (21 * idx) * (LEDGERS_PER_YEAR * BP_SCALE) div (LEDGERS_PER_YEAR * BP_SCALE)"
    unfolding index_growth_def by (rule zdiv_mono1) (simp add: rate_constants)
  then show ?thesis using assms by (simp add: index_growth_def rate_constants pos_imp_zdiv_nonneg_iff)
qed

lemma delta_bound:
  assumes "0 < bi" "0 \<le> g" "g \<le> 21 * bi" "0 \<le> (t :: int)"
  shows "0 \<le> t * g div bi \<and> t * g div bi \<le> 21 * t"
proof -
  have "t * g \<le> t * (21 * bi)" using assms by (intro mult_left_mono)
  then have "t * g div bi \<le> (21 * t) * bi div bi" using assms by (intro zdiv_mono1) (simp_all add: mult.assoc mult.left_commute)
  then show ?thesis using assms by (simp add: pos_imp_zdiv_nonneg_iff)
qed

text \<open>Lenders gain at most their share of the interest the borrowers owe.\<close>

lemma supply_share:
  assumes "0 < S" "0 \<le> si" "0 \<le> (L :: int)"
  shows "S * (si + L * INDEX_ONE div S) div INDEX_ONE \<le> S * si div INDEX_ONE + L"
proof -
  have "S * (L * INDEX_ONE div S) \<le> L * INDEX_ONE" using assms(1) by (simp add: minus_mod_eq_mult_div [symmetric])
  then have "S * (si + L * INDEX_ONE div S) \<le> S * si + L * INDEX_ONE" by (simp add: distrib_left)
  then have "S * (si + L * INDEX_ONE div S) div INDEX_ONE \<le> (S * si + L * INDEX_ONE) div INDEX_ONE"
    by (rule zdiv_mono1) (simp add: INDEX_ONE_def)
  then show ?thesis by (simp add: INDEX_ONE_def)
qed

text \<open>The projection of a state within range, without the truncations.\<close>

lemma projectRates_in_range:
  fixes p ledger
  defines "e \<equiv> max 0 (ledger - index_ledger p)"
  defines "r \<equiv> borrowRateBp (total_borrowed p) (total_scaled_supply p * supply_index p div INDEX_ONE)"
  defines "g \<equiv> index_growth (borrow_index p) r e"
  defines "delta \<equiv> total_borrowed p * g div borrow_index p"
  defines "share \<equiv> delta - delta * 1500 div BP_SCALE"
  assumes ok: "rates_in_range p ledger"
  shows "projectRates p ledger = \<lparr>pr_borrowIndex = borrow_index p + g,
      pr_supplyIndex = (if total_scaled_supply p > 0 then supply_index p + share * INDEX_ONE div total_scaled_supply p else supply_index p),
      pr_totalBorrowed = total_borrowed p + delta\<rparr>"
    and "0 \<le> g \<and> g \<le> 21 * borrow_index p \<and> 0 \<le> delta \<and> delta \<le> 21 * total_borrowed p \<and> 0 \<le> share \<and> share \<le> delta"
    and "0 \<le> r \<and> r \<le> 20800 \<and> 0 \<le> e \<and> e \<le> 10 * LEDGERS_PER_YEAR"
proof -
  have ranges: "0 < borrow_index p" "0 \<le> supply_index p" "0 \<le> total_borrowed p" "0 \<le> total_scaled_supply p" using ok by (simp_all add: rates_in_range_def)
  have assets: "totalSupplyAssets p (supply_index p) = total_scaled_supply p * supply_index p div INDEX_ONE"
    using ranges by (simp add: totalSupplyAssets_def INDEX_ONE_def)
  have r: "0 \<le> r \<and> r \<le> 20800" unfolding r_def by (rule borrow_rate_range) (use ranges in \<open>simp_all add: INDEX_ONE_def pos_imp_zdiv_nonneg_iff\<close>)
  have e: "0 \<le> e \<and> e \<le> 10 * LEDGERS_PER_YEAR" using ok by (simp add: e_def rates_in_range_def LEDGERS_PER_YEAR_def)
  show "0 \<le> r \<and> r \<le> 20800 \<and> 0 \<le> e \<and> e \<le> 10 * LEDGERS_PER_YEAR" using r e by simp
  have g: "0 \<le> g \<and> g \<le> 21 * borrow_index p" unfolding g_def using index_growth_bound r e ranges by simp
  have d: "0 \<le> delta \<and> delta \<le> 21 * total_borrowed p" unfolding delta_def using delta_bound g ranges by simp
  have "delta * 1500 div BP_SCALE \<le> delta" "0 \<le> delta * 1500 div BP_SCALE" using d unfolding BP_SCALE_def by linarith+
  then have sh: "0 \<le> share \<and> share \<le> delta" using d by (simp add: share_def)
  show "0 \<le> g \<and> g \<le> 21 * borrow_index p \<and> 0 \<le> delta \<and> delta \<le> 21 * total_borrowed p \<and> 0 \<le> share \<and> share \<le> delta"
    using g d sh by simp
  have bi: "(if r > 0 then borrow_index p + (borrow_index p * r * e) sdiv (LEDGERS_PER_YEAR * BP_SCALE) else borrow_index p) = borrow_index p + g"
    using r e ranges by (auto simp: g_def index_growth_def rate_constants)
  have zero: "e = 0 \<or> \<not> (total_borrowed p > 0 \<and> g > 0) \<Longrightarrow> delta = 0 \<and> share = 0" "e = 0 \<Longrightarrow> g = 0"
    using g ranges by (auto simp: delta_def share_def g_def index_growth_def BP_SCALE_def)
  have delta': "(total_borrowed p * (borrow_index p + g - borrow_index p)) sdiv borrow_index p = delta"
    using g ranges by (simp add: delta_def)
  have share': "delta - (delta * 1500) sdiv BP_SCALE = share" using d by (simp add: share_def BP_SCALE_def)
  have sup: "total_scaled_supply p > 0 \<Longrightarrow> (share * INDEX_ONE) sdiv total_scaled_supply p = share * INDEX_ONE div total_scaled_supply p"
    using sh by (simp add: INDEX_ONE_def)
  show "projectRates p ledger = \<lparr>pr_borrowIndex = borrow_index p + g,
      pr_supplyIndex = (if total_scaled_supply p > 0 then supply_index p + share * INDEX_ONE div total_scaled_supply p else supply_index p),
      pr_totalBorrowed = total_borrowed p + delta\<rparr>"
    unfolding projectRates_def Let_def e_def [symmetric] assets r_def [symmetric] bi delta' share'
    using zero sup g by auto
qed

text \<open>The contract's steps within range.\<close>

lemma borrow_rate_mirrors:
  assumes "0 \<le> b" "b \<le> 10 ^ 16" "0 \<le> a"
  shows "borrow_rate_bp b a = borrowRateBp b a"
proof -
  have m: "sat_mul b BP_SCALE = b * BP_SCALE" by (rule i128_mul [of _ "10 ^ 16" _ BP_SCALE]) (use assms in \<open>simp_all add: BP_SCALE_def\<close>)
  define u where "u = (if (b * BP_SCALE) sdiv a > BP_SCALE then BP_SCALE else (b * BP_SCALE) sdiv a)"
  have u_min: "min ((b * BP_SCALE) sdiv a) BP_SCALE = u" by (simp add: u_def)
  have "a \<noteq> 0 \<Longrightarrow> 0 \<le> (b * BP_SCALE) sdiv a" using assms by (simp add: BP_SCALE_def pos_imp_zdiv_nonneg_iff)
  then have u: "a \<noteq> 0 \<Longrightarrow> 0 \<le> u \<and> u \<le> BP_SCALE" by (simp add: u_def BP_SCALE_def)
  have "a \<noteq> 0 \<Longrightarrow> sat_mul u SLOPE1_BP = u * SLOPE1_BP"
    by (rule i128_mul [of _ BP_SCALE _ SLOPE1_BP]) (use u in \<open>simp_all add: rate_constants\<close>)
  moreover have "a \<noteq> 0 \<Longrightarrow> \<not> u \<le> U_OPTIMAL_BP \<Longrightarrow> sat_mul (u - U_OPTIMAL_BP) SLOPE2_BP = (u - U_OPTIMAL_BP) * SLOPE2_BP"
    by (rule i128_mul [of _ BP_SCALE _ SLOPE2_BP]) (use u in \<open>simp_all add: rate_constants\<close>)
  moreover have "a \<noteq> 0 \<Longrightarrow> \<not> u \<le> U_OPTIMAL_BP \<Longrightarrow> sat_add SLOPE1_BP ((u - U_OPTIMAL_BP) * SLOPE2_BP sdiv (BP_SCALE - U_OPTIMAL_BP))
      = SLOPE1_BP + (u - U_OPTIMAL_BP) * SLOPE2_BP sdiv (BP_SCALE - U_OPTIMAL_BP)"
    unfolding sat_add_def by (rule i128_id) (use u in \<open>simp_all add: rate_constants pos_imp_zdiv_nonneg_iff\<close>)
  ultimately show ?thesis
    unfolding borrow_rate_bp_def borrowRateBp_def Let_def m u_min u_def [symmetric] by auto
qed

lemma grow_mirrors:
  assumes "0 < idx" "idx \<le> 10 ^ 20" "0 \<le> r" "r \<le> 20800" "0 \<le> e" "e \<le> 10 * LEDGERS_PER_YEAR"
  shows "grow_index idx r e = idx + index_growth idx r e"
proof (cases "e = 0 \<or> r = 0")
  case True
  then show ?thesis by (auto simp: grow_index_def index_growth_def)
next
  case False
  have "idx * r \<le> 10 ^ 20 * 20800" using assms by (intro mult_mono) simp_all
  moreover have a: "sat_mul idx r = idx * r" by (rule i128_mul [of _ "10 ^ 20" _ 20800]) (use assms in simp_all)
  ultimately have b: "sat_mul (idx * r) e = idx * r * e"
    by (intro i128_mul [of _ "10 ^ 20 * 20800" _ "10 * LEDGERS_PER_YEAR"]) (use assms in \<open>simp_all add: LEDGERS_PER_YEAR_def\<close>)
  have c: "sat_mul LEDGERS_PER_YEAR BP_SCALE = LEDGERS_PER_YEAR * BP_SCALE"
    by (rule i128_mul [of _ LEDGERS_PER_YEAR _ BP_SCALE]) (simp_all add: rate_constants)
  have d: "(idx * r * e) sdiv (LEDGERS_PER_YEAR * BP_SCALE) = index_growth idx r e"
    using assms by (simp add: index_growth_def rate_constants)
  have "sat_add idx (index_growth idx r e) = idx + index_growth idx r e"
    unfolding sat_add_def by (rule i128_id) (use assms index_growth_bound [of idx r e] in simp_all)
  then show ?thesis using False assms by (simp add: grow_index_def accrue_interest_def a b c d)
qed

lemma supply_step:
  assumes "0 < S" "0 \<le> si" "si \<le> 10 ^ 20" "0 \<le> L" "L \<le> 21 * 10 ^ 16"
  shows "sat_add si (L * INDEX_ONE sdiv S) = si + L * INDEX_ONE div S"
proof -
  have a: "0 \<le> L * INDEX_ONE" "L * INDEX_ONE \<le> 21 * 10 ^ 34" using assms by (simp_all add: INDEX_ONE_def)
  then have "0 \<le> L * INDEX_ONE div S" "L * INDEX_ONE div S \<le> L * INDEX_ONE"
    using assms(1) zdiv_mono2 [of "L * INDEX_ONE" 1 S] by (simp_all add: pos_imp_zdiv_nonneg_iff)
  with a assms show ?thesis unfolding sat_add_def by (subst i128_id) simp_all
qed

section \<open>Properties\<close>

text \<open>C21. The interest the app projects is the contract's, for every ledger: within range no saturating step saturates, so
  both compute the same borrow index, supply index, total borrowed and debt of a position.\<close>

theorem projection_mirrors_contract:
  assumes ok: "rates_in_range p ledger" and debt: "0 \<le> usdc_debt" "usdc_debt \<le> 10 ^ 16" "0 < debt_index"
  shows "\<exists>res. project p reserve ledger
      = (pr_borrowIndex (projectRates p ledger), pr_supplyIndex (projectRates p ledger), pr_totalBorrowed (projectRates p ledger), res)
    \<and> accrue_debt usdc_debt debt_index (pr_borrowIndex (projectRates p ledger)) = debtAt usdc_debt debt_index (pr_borrowIndex (projectRates p ledger))"
proof -
  define e where "e = max 0 (ledger - index_ledger p)"
  define r where "r = borrowRateBp (total_borrowed p) (total_scaled_supply p * supply_index p div INDEX_ONE)"
  define g where "g = index_growth (borrow_index p) r e"
  define d where "d = total_borrowed p * g div borrow_index p"
  define l where "l = d - d * 1500 div BP_SCALE"
  note P = projectRates_in_range [OF ok, folded e_def, folded r_def, folded g_def, folded d_def, folded l_def]
  have ranges: "0 < borrow_index p" "0 \<le> supply_index p" "0 \<le> total_borrowed p" "0 \<le> total_scaled_supply p"
    "borrow_index p \<le> 10 ^ 20" "supply_index p \<le> 10 ^ 20" "total_borrowed p \<le> 10 ^ 16" "total_scaled_supply p \<le> 10 ^ 16"
    using ok by (simp_all add: rates_in_range_def)
  have gd: "0 \<le> g \<and> g \<le> 21 * borrow_index p \<and> 0 \<le> d \<and> d \<le> 21 * total_borrowed p"
    and share: "0 \<le> l" "l \<le> d" using P(2) by simp_all
  have assets: "total_supply_assets p (supply_index p) = total_scaled_supply p * supply_index p div INDEX_ONE"
    using ranges i128_mul [of "total_scaled_supply p" "10 ^ 16" "supply_index p" "10 ^ 20"] by (simp add: total_supply_assets_def INDEX_ONE_def)
  have rate: "borrow_rate_bp (total_borrowed p) (total_scaled_supply p * supply_index p div INDEX_ONE) = r" unfolding r_def
    by (rule borrow_rate_mirrors) (use ranges in \<open>simp_all add: INDEX_ONE_def pos_imp_zdiv_nonneg_iff\<close>)
  have grow: "grow_index (borrow_index p) r e = borrow_index p + g" unfolding g_def by (rule grow_mirrors) (use ranges P(3) in simp_all)
  have delta: "sat_mul (total_borrowed p) (borrow_index p + g - borrow_index p) sdiv borrow_index p = d"
    using ranges gd i128_mul [of "total_borrowed p" "10 ^ 16" g "21 * 10 ^ 20"] by (simp add: d_def)
  have fee: "sat_mul d PROTOCOL_FEE_BP sdiv BP_SCALE = d * 1500 div BP_SCALE"
    using ranges gd i128_mul [of d "21 * 10 ^ 16" 1500 1500] by (simp add: BP_SCALE_def PROTOCOL_FEE_BP_def)
  have lenders: "sat_mul l INDEX_ONE = l * INDEX_ONE"
    by (rule i128_mul [of _ "21 * 10 ^ 16" _ INDEX_ONE]) (use ranges gd share in \<open>simp_all add: INDEX_ONE_def\<close>)
  have total: "sat_add (total_borrowed p) d = total_borrowed p + d"
    unfolding sat_add_def by (rule i128_id) (use ranges gd in simp_all)
  have sup: "sat_add (supply_index p) (l * INDEX_ONE sdiv total_scaled_supply p)
      = supply_index p + l * INDEX_ONE div total_scaled_supply p" if "total_scaled_supply p > 0"
    by (rule supply_step) (use that ranges gd share in simp_all)
  have zero: "e = 0 \<Longrightarrow> g = 0" "\<not> (total_borrowed p > 0 \<and> g > 0) \<Longrightarrow> d = 0"
    using gd ranges by (auto simp: d_def g_def index_growth_def)
  have l0: "d = 0 \<Longrightarrow> l = 0" by (simp add: l_def BP_SCALE_def)
  have "\<exists>res. project p reserve ledger = (borrow_index p + g,
      if total_scaled_supply p > 0 then supply_index p + l * INDEX_ONE div total_scaled_supply p else supply_index p,
      total_borrowed p + d, res)"
    unfolding project_def Let_def e_def [symmetric] assets rate grow delta fee l_def [symmetric] lenders total
    using sup zero gd share l0 P(3) by (cases "e = 0"; cases "total_borrowed p > 0 \<and> g > 0") auto
  moreover have "accrue_debt usdc_debt debt_index x = debtAt usdc_debt debt_index x" if "0 \<le> x" "x \<le> 22 * 10 ^ 20" for x
    using debt i128_mul [of usdc_debt "10 ^ 16" x "22 * 10 ^ 20"] that by (simp add: accrue_debt_def debtAt_def)
  ultimately show ?thesis unfolding P(1) using gd ranges by simp
qed

theorem projection_mirrors_contract_witness:
  "\<exists>res. project \<lparr>borrow_index = INDEX_ONE, supply_index = INDEX_ONE, index_ledger = 5, total_borrowed = 800000, total_scaled_supply = 1000000\<rparr> 0 631157
    = (1048000000000000000, 1032640000000000000, 838400, res) \<and> accrue_debt 300 INDEX_ONE 1048000000000000000 = debtAt 300 INDEX_ONE 1048000000000000000"
proof -
  let ?p = "\<lparr>borrow_index = INDEX_ONE, supply_index = INDEX_ONE, index_ledger = 5, total_borrowed = 800000, total_scaled_supply = 1000000\<rparr>"
  have "projectRates ?p 631157 = \<lparr>pr_borrowIndex = 1048000000000000000, pr_supplyIndex = 1032640000000000000, pr_totalBorrowed = 838400\<rparr>"
    by code_simp
  moreover have "rates_in_range ?p 631157" by code_simp
  ultimately show ?thesis
    using projection_mirrors_contract [of ?p 631157 300 INDEX_ONE 0] by (simp add: INDEX_ONE_def)
qed

text \<open>Interest is conserved: within range the indices and the total borrowed never fall, no debt falls, and the claim of
  the lenders grows by at most the interest the borrowers owe more, so accrual alone never makes the pool owe USDC
  that no borrower owes.\<close>

theorem interest_conserved:
  assumes ok: "rates_in_range p ledger" and "0 \<le> usdc_debt" "0 < debt_index" "debt_index \<le> borrow_index p"
  shows "borrow_index p \<le> pr_borrowIndex (projectRates p ledger) \<and> supply_index p \<le> pr_supplyIndex (projectRates p ledger)
    \<and> usdc_debt \<le> debtAt usdc_debt debt_index (pr_borrowIndex (projectRates p ledger))
    \<and> 0 \<le> ps_totalBorrowed (poolStateAt p ledger) - total_borrowed p
    \<and> ps_totalSupplied (poolStateAt p ledger) - totalSupplyAssets p (supply_index p)
        \<le> ps_totalBorrowed (poolStateAt p ledger) - total_borrowed p"
proof -
  define e where "e = max 0 (ledger - index_ledger p)"
  define r where "r = borrowRateBp (total_borrowed p) (total_scaled_supply p * supply_index p div INDEX_ONE)"
  define g where "g = index_growth (borrow_index p) r e"
  define d where "d = total_borrowed p * g div borrow_index p"
  define l where "l = d - d * 1500 div BP_SCALE"
  note P = projectRates_in_range [OF ok, folded e_def, folded r_def, folded g_def, folded d_def, folded l_def]
  have ranges: "0 < borrow_index p" "0 \<le> supply_index p" "0 \<le> total_borrowed p" "0 \<le> total_scaled_supply p"
    using ok by (simp_all add: rates_in_range_def)
  have step: "total_scaled_supply p > 0 \<Longrightarrow> 0 \<le> l * INDEX_ONE div total_scaled_supply p"
    using P(2) by (simp add: INDEX_ONE_def pos_imp_zdiv_nonneg_iff)
  have "usdc_debt * debt_index \<le> usdc_debt * (borrow_index p + g)" using assms P(2) by (intro mult_left_mono) simp_all
  then have "usdc_debt * debt_index div debt_index \<le> usdc_debt * (borrow_index p + g) div debt_index" using assms by (intro zdiv_mono1)
  then have debt: "usdc_debt \<le> debtAt usdc_debt debt_index (borrow_index p + g)"
    using assms P(2) ranges by (auto simp: debtAt_def)
  have total: "totalSupplyAssets p x = total_scaled_supply p * x div INDEX_ONE" if "0 \<le> x" for x
    using that ranges by (simp add: totalSupplyAssets_def INDEX_ONE_def)
  have claim: "totalSupplyAssets p (supply_index p + l * INDEX_ONE div total_scaled_supply p) \<le> totalSupplyAssets p (supply_index p) + l"
    if "total_scaled_supply p > 0"
    using supply_share [of "total_scaled_supply p" "supply_index p" l] that P(2) ranges step by (simp add: total)
  show ?thesis
    using P(2) step debt claim by (auto simp: poolStateAt_def Let_def P(1))
qed

theorem interest_conserved_witness:
  "1000000 \<le> debtAt 1000000 INDEX_ONE (pr_borrowIndex (projectRates
      \<lparr>borrow_index = INDEX_ONE, supply_index = INDEX_ONE, index_ledger = 5, total_borrowed = 800000, total_scaled_supply = 1000000\<rparr> 631157))"
  by (rule interest_conserved [THEN conjunct2, THEN conjunct2, THEN conjunct1]) (simp_all add: rates_in_range_def rate_constants)

end
