(* ===== verification/AppTypes.thy ===== *)
theory AppTypes
  imports JsText
begin

text \<open>
  The data the app's flows share: a \<^verbatim>\<open>writz-lend\<close> position as the chain holds it
  (\<^verbatim>\<open>contracts/writzLend.ts\<close>), a loan as the device remembers it (\<^verbatim>\<open>position/types.ts\<close>), a deposit in progress
  (\<^verbatim>\<open>flow/pendingDeposit.ts\<close>) and a submitted Stellar transaction (\<^verbatim>\<open>flow/pendingTx.ts\<close>), all under
  \<^verbatim>\<open>frontend/app/src/lib\<close>. Amounts kept as decimal strings of a \<^verbatim>\<open>bigint\<close> are \<open>int\<close>s; a field that may be absent is
  an \<open>option\<close>.
\<close>

datatype chain_status = ChainActive | ChainClosed | ChainLiquidated

record chain_position =
  cp_txid :: string
  cp_status :: chain_status
  cp_depositor :: string
  cp_collateralSats :: int
  cp_debtStroops :: int
  cp_storedDebtStroops :: int
  cp_timelockHeight :: int
  cp_userPubkey :: string
  cp_scriptPubKey :: string
  cp_ledger :: int

datatype local_status = LActive | LClosed | LReleased | LLiquidated

record app_position =
  ap_id :: string
  ap_owner :: string
  ap_txid :: string
  ap_collateralSats :: int
  ap_debtStroops :: int
  ap_index :: int
  ap_status :: local_status
  ap_createdAt :: int
  ap_btcPubkey :: "string option"
  ap_timelockHeight :: "int option"
  ap_vout :: "nat option"
  ap_releaseTxid :: "string option"
  ap_releaseAddress :: "string option"
  ap_stellarTxHash :: "string option"

datatype deposit_step = Sent | Confirming | ReadyStep | SubmittedStep

record pending_deposit =
  pd_btcTxid :: string
  pd_sats :: int
  pd_vout :: "nat option"
  pd_p2wsh :: string
  pd_btcPubkey :: string
  pd_timelockHeight :: int
  pd_stellarAddress :: string
  pd_positionIndex :: int
  pd_step :: deposit_step
  pd_confirmations :: "nat option"
  pd_required :: "nat option"
  pd_stellarTxHash :: "string option"
  pd_stellarSubmittedAt :: "int option"
  pd_createdAt :: int
  pd_updatedAt :: int

datatype tx_kind = KDeposit | KBorrow | KRepay | KSupply | KWithdraw | KEarnDeposit | KEarnWithdraw

record pending_tx =
  px_hash :: string
  px_kind :: tx_kind
  px_createdAt :: int
  px_update :: "(string \<times> app_position) option"  \<comment> \<open>the record to remove and the one to save\<close>

datatype tx_status = SUCCESS | FAILED | NOT_FOUND

text \<open>JavaScript takes an absent or empty string for false.\<close>

definition given :: "string option \<Rightarrow> bool" where
  "given x \<longleftrightarrow> x \<noteq> None \<and> x \<noteq> Some []"

lemma given_Some [simp]: "given (Some s) \<longleftrightarrow> s \<noteq> []" "\<not> given None"
  by (simp_all add: given_def)

definition the_string :: "string option \<Rightarrow> string" where
  "the_string x = (case x of Some s \<Rightarrow> s | None \<Rightarrow> [])"

end
