(* ===== verification/LoanStatus.thy ===== *)
theory LoanStatus
  imports AppTypes
begin

text \<open>
  \<^verbatim>\<open>frontend/app/src/lib/status/types.ts\<close> and \<^verbatim>\<open>derive.ts\<close>, with the amounts of \<^verbatim>\<open>loan/model.ts\<close>: what the app
  says about a loan, derived from the local record, the reads of the chain and the relayer's index. A read
  that has not succeeded is \<^const>\<open>None\<close>; a read that found nothing is \<open>Some None\<close>.
\<close>

section \<open>Inputs and statuses\<close>

datatype btc_tx_view = Unseen | SeenAt "int option"

datatype outspend = Unspent | SpentBy string bool  \<comment> \<open>the spending transaction and whether it is confirmed\<close>

record chain_reads =
  cr_position :: "chain_position option option"
  cr_releasePsbtReady :: "bool option"
  cr_oraclePriceStroops :: "int option"
  cr_btcTipHeight :: "int option"
  cr_depositTx :: "btc_tx_view option"
  cr_lockOutspend :: "outspend option"

datatype liquidation_lookup = LFound string | LNotFound bool

record relayer_index =
  ri_minConfirmations :: "int option"
  ri_confirmations :: "int option"
  ri_liquidation :: "liquidation_lookup option"

record status_inputs =
  si_position :: "app_position option"
  si_pendingDeposit :: "pending_deposit option"
  si_chain :: chain_reads
  si_relayer :: "relayer_index option"
  si_minConfirmations :: int
  si_now :: int

datatype status_input = IPosition | IOraclePrice | IBtcTip | IDepositTx | IOutspend

datatype health_band = Healthy | Below_limit

datatype loan_status =
    Checking "status_input list"
  | Btc_sent
  | Btc_unseen
  | ConfirmingBtc int int bool
  | Ready_to_register
  | Registering
  | ActiveLoan int health_band
  | At_risk int
  | Liquidatable int
  | Repaid_locked (neverBorrowed: bool) (missingBtcDetails: bool)
  | Releasing "string option"
  | Released string
  | LiquidatedLoan "string option"

record derived_status =
  ds_status :: loan_status
  ds_reclaimable :: bool
  ds_timelock :: "(int \<times> int option) option"
  ds_syncing :: bool
  ds_onChain :: "(int \<times> int) option"

definition BORROW_LIMIT_BP :: int where "BORROW_LIMIT_BP = 15000"
definition AT_RISK_BP :: int where "AT_RISK_BP = 13000"
definition LIQUIDATION_BP :: int where "LIQUIDATION_BP = 12000"
definition BTC_UNSEEN_AFTER_MS :: int where "BTC_UNSEEN_AFTER_MS = 10 * 60000"
definition SAT :: int where "SAT = 100000000"

lemmas status_constants = BORROW_LIMIT_BP_def AT_RISK_BP_def LIQUIDATION_BP_def SAT_def

section \<open>Derivation\<close>

text \<open>Amounts are never negative on these paths, where \<^verbatim>\<open>bigint\<close> division is \<open>div\<close>.\<close>

definition collateralRatioBp :: "int \<Rightarrow> int \<Rightarrow> int \<Rightarrow> int option" where
  "collateralRatioBp collateralSats debtStroops price =
     (if debtStroops \<le> 0 then None else Some ((collateralSats * price * 10000) div SAT div debtStroops))"

definition healthStatus :: "int \<Rightarrow> loan_status" where
  "healthStatus ratioBp =
     (if ratioBp < LIQUIDATION_BP then Liquidatable ratioBp
      else if ratioBp < AT_RISK_BP then At_risk ratioBp
      else ActiveLoan ratioBp (if ratioBp \<ge> BORROW_LIMIT_BP then Healthy else Below_limit))"

definition hasBtcDetails :: "app_position \<Rightarrow> bool" where
  "hasBtcDetails p \<longleftrightarrow> ap_txid p \<noteq> [] \<and> ap_vout p \<noteq> None \<and> given (ap_btcPubkey p)
     \<and> (case ap_timelockHeight p of None \<Rightarrow> False | Some h \<Rightarrow> h \<noteq> 0)"

definition depositStatus :: "status_inputs \<Rightarrow> pending_deposit \<Rightarrow> loan_status" where
  "depositStatus inputs pd =
     (let chain = si_chain inputs; relayer = si_relayer inputs in
      case cr_position chain of
        Some (Some _) \<Rightarrow> Registering
      | _ \<Rightarrow>
        if given (pd_stellarTxHash pd) \<or> pd_step pd = SubmittedStep then
          (if cr_position chain = None then Checking [IPosition] else Registering)
        else
          let m = (case Option.bind relayer ri_minConfirmations of Some x \<Rightarrow> x | None \<Rightarrow> si_minConfirmations inputs) in
          if cr_depositTx chain = Some Unseen then
            (if si_now inputs - pd_createdAt pd \<ge> BTC_UNSEEN_AFTER_MS then Btc_unseen else Btc_sent)
          else
            let esploraN = (case cr_depositTx chain of
                    Some (SeenAt None) \<Rightarrow> Some 0
                  | Some (SeenAt (Some h)) \<Rightarrow> map_option (\<lambda>tip. max 0 (tip - h + 1)) (cr_btcTipHeight chain)
                  | _ \<Rightarrow> None);
                relayerN = Option.bind relayer ri_confirmations in
            case (case esploraN of Some x \<Rightarrow> Some x | None \<Rightarrow> relayerN) of
              None \<Rightarrow> Checking [if cr_depositTx chain = None then IDepositTx else IBtcTip]
            | Some n \<Rightarrow>
                if n = 0 then Btc_sent
                else if (case (relayerN, esploraN) of (Some rn, Some en) \<Rightarrow> rn < m \<and> en \<ge> m | _ \<Rightarrow> False)
                then ConfirmingBtc m m True
                else if n < m then ConfirmingBtc n m False
                else if cr_position chain = None then Checking [IPosition]
                else Ready_to_register)"

definition releaseFromOutspend :: "status_inputs \<Rightarrow> loan_status option" where
  "releaseFromOutspend inputs =
     (case cr_lockOutspend (si_chain inputs) of
        Some (SpentBy t confirmed) \<Rightarrow> Some (if confirmed then Released t else Releasing (Some t))
      | _ \<Rightarrow> None)"

definition openStatus :: "status_inputs \<Rightarrow> app_position \<Rightarrow> loan_status" where
  "openStatus inputs p =
     (let chain = si_chain inputs; outspend = cr_lockOutspend chain in
      if (case outspend of Some (SpentBy t _) \<Rightarrow> given (ap_releaseTxid p) \<and> ap_releaseTxid p = Some t | _ \<Rightarrow> False)
      then the (releaseFromOutspend inputs)
      else
        (case cr_position chain of
           Some (Some c) \<Rightarrow>
             if cp_status c = ChainLiquidated then
               LiquidatedLoan (case Option.bind (si_relayer inputs) ri_liquidation of Some (LFound h) \<Rightarrow> Some h | _ \<Rightarrow> None)
             else
               (case releaseFromOutspend inputs of
                  Some released \<Rightarrow> released
                | None \<Rightarrow>
                    if given (ap_releaseTxid p) then
                      (if outspend = None then Checking [IOutspend] else Releasing (ap_releaseTxid p))
                    else if cp_status c = ChainClosed \<or> cp_debtStroops c = 0 then
                      (let missing = \<not> hasBtcDetails p in
                       if \<not> missing \<and> outspend = None then Checking [IOutspend]
                       else Repaid_locked (cp_status c = ChainActive) missing)
                    else
                      (case cr_oraclePriceStroops chain of
                         None \<Rightarrow> Checking [IOraclePrice]
                       | Some price \<Rightarrow> healthStatus (the (collateralRatioBp (cp_collateralSats c) (cp_debtStroops c) price))))
         | _ \<Rightarrow> Checking [IPosition]))"

definition coreStatus :: "status_inputs \<Rightarrow> loan_status" where
  "coreStatus inputs =
     (case si_position inputs of
        Some p \<Rightarrow> openStatus inputs p
      | None \<Rightarrow> (case si_pendingDeposit inputs of Some pd \<Rightarrow> depositStatus inputs pd | None \<Rightarrow> Checking [IPosition]))"

fun reclaim_overlay :: "loan_status \<Rightarrow> bool" where
  "reclaim_overlay (ActiveLoan _ _) = True"
| "reclaim_overlay (At_risk _) = True"
| "reclaim_overlay (Repaid_locked _ _) = True"
| "reclaim_overlay _ = False"

definition timelockOf :: "status_inputs \<Rightarrow> (int \<times> int option) option" where
  "timelockOf inputs =
     (let height = (case Option.bind (si_position inputs) ap_timelockHeight of
            Some h \<Rightarrow> Some h | None \<Rightarrow> map_option pd_timelockHeight (si_pendingDeposit inputs)) in
      case height of
        None \<Rightarrow> None
      | Some h \<Rightarrow> if h = 0 then None else Some (h, map_option (\<lambda>tip. max 0 (h - tip)) (cr_btcTipHeight (si_chain inputs))))"

definition derivePositionStatus :: "status_inputs \<Rightarrow> derived_status" where
  "derivePositionStatus inputs =
     (let status = coreStatus inputs; timelock = timelockOf inputs; chain = si_chain inputs;
          c = (case cr_position chain of Some (Some c) \<Rightarrow> Some c | _ \<Rightarrow> None) in
      \<lparr>ds_status = status,
       ds_reclaimable = reclaim_overlay status \<and> Option.bind timelock snd = Some 0 \<and> cr_lockOutspend chain = Some Unspent,
       ds_timelock = timelock,
       ds_syncing = (\<exists>b m. status = Repaid_locked b m) \<and> (case c of Some x \<Rightarrow> cp_status x = ChainClosed | None \<Rightarrow> False)
                    \<and> cr_releasePsbtReady chain = Some False,
       ds_onChain = (case (c, si_position inputs) of (Some x, Some _) \<Rightarrow> Some (cp_collateralSats x, cp_debtStroops x) | _ \<Rightarrow> None)\<rparr>)"

section \<open>What a status claims\<close>

text \<open>The reads each status rests on.\<close>

fun grounded :: "status_inputs \<Rightarrow> loan_status \<Rightarrow> bool" where
  "grounded inp (ActiveLoan r b) \<longleftrightarrow> (\<exists>c price. cr_position (si_chain inp) = Some (Some c) \<and> cp_status c = ChainActive
      \<and> cr_oraclePriceStroops (si_chain inp) = Some price \<and> collateralRatioBp (cp_collateralSats c) (cp_debtStroops c) price = Some r
      \<and> AT_RISK_BP \<le> r \<and> (b = Healthy \<longleftrightarrow> BORROW_LIMIT_BP \<le> r))"
| "grounded inp (At_risk r) \<longleftrightarrow> (\<exists>c price. cr_position (si_chain inp) = Some (Some c) \<and> cp_status c = ChainActive
      \<and> cr_oraclePriceStroops (si_chain inp) = Some price \<and> collateralRatioBp (cp_collateralSats c) (cp_debtStroops c) price = Some r
      \<and> LIQUIDATION_BP \<le> r \<and> r < AT_RISK_BP)"
| "grounded inp (Liquidatable r) \<longleftrightarrow> (\<exists>c price. cr_position (si_chain inp) = Some (Some c) \<and> cp_status c = ChainActive
      \<and> cr_oraclePriceStroops (si_chain inp) = Some price \<and> collateralRatioBp (cp_collateralSats c) (cp_debtStroops c) price = Some r
      \<and> r < LIQUIDATION_BP)"
| "grounded inp (Repaid_locked nb m) \<longleftrightarrow> (\<exists>c p. cr_position (si_chain inp) = Some (Some c) \<and> si_position inp = Some p
      \<and> (cp_status c = ChainClosed \<or> cp_status c = ChainActive \<and> cp_debtStroops c = 0) \<and> (nb \<longleftrightarrow> cp_status c = ChainActive)
      \<and> (m \<or> cr_lockOutspend (si_chain inp) = Some Unspent) \<and> \<not> given (ap_releaseTxid p))"
| "grounded inp (Released t) \<longleftrightarrow> cr_lockOutspend (si_chain inp) = Some (SpentBy t True)"
| "grounded inp (Releasing t) \<longleftrightarrow> (case cr_lockOutspend (si_chain inp) of
      Some (SpentBy x c) \<Rightarrow> t = Some x \<and> \<not> c | Some Unspent \<Rightarrow> t = Option.bind (si_position inp) ap_releaseTxid \<and> given t | None \<Rightarrow> False)"
| "grounded inp (LiquidatedLoan h) \<longleftrightarrow> (\<exists>c. cr_position (si_chain inp) = Some (Some c) \<and> cp_status c = ChainLiquidated)"
| "grounded inp Ready_to_register \<longleftrightarrow> cr_position (si_chain inp) = Some None
      \<and> (\<exists>pd. si_pendingDeposit inp = Some pd \<and> \<not> given (pd_stellarTxHash pd))"
| "grounded inp _ \<longleftrightarrow> True"

lemma health_grounded:
  assumes "cr_position (si_chain inp) = Some (Some c)" "cp_status c = ChainActive" "cr_oraclePriceStroops (si_chain inp) = Some price"
    "collateralRatioBp (cp_collateralSats c) (cp_debtStroops c) price = Some r"
  shows "grounded inp (healthStatus r)"
  using assms by (auto simp: healthStatus_def AT_RISK_BP_def LIQUIDATION_BP_def)

lemma open_grounded:
  assumes p: "si_position inp = Some p" and debt: "\<And>c. cr_position (si_chain inp) = Some (Some c) \<Longrightarrow> 0 \<le> cp_debtStroops c"
  shows "grounded inp (openStatus inp p)"
proof (cases "\<exists>c. cr_position (si_chain inp) = Some (Some c)")
  case True
  then obtain c where c: "cr_position (si_chain inp) = Some (Some c)" by blast
  have "collateralRatioBp (cp_collateralSats c) (cp_debtStroops c) price
      = Some (the (collateralRatioBp (cp_collateralSats c) (cp_debtStroops c) price))" if "cp_debtStroops c \<noteq> 0" for price
    using debt [OF c] that by (simp add: collateralRatioBp_def)
  then have health: "grounded inp (healthStatus (the (collateralRatioBp (cp_collateralSats c) (cp_debtStroops c) price)))"
    if "cp_debtStroops c \<noteq> 0" "cp_status c = ChainActive" "cr_oraclePriceStroops (si_chain inp) = Some price" for price
    using health_grounded [OF c] that by blast
  show ?thesis
  proof (cases "cr_lockOutspend (si_chain inp)")
    case None
    then show ?thesis using c p health
      by (cases "cp_status c"; cases "cr_oraclePriceStroops (si_chain inp)") (auto simp: openStatus_def releaseFromOutspend_def Let_def)
  next
    case (Some sp)
    then show ?thesis using c p health
      by (cases sp; cases "cp_status c"; cases "cr_oraclePriceStroops (si_chain inp)") (auto simp: openStatus_def releaseFromOutspend_def Let_def)
  qed
next
  case False
  then have "cr_position (si_chain inp) = None \<or> cr_position (si_chain inp) = Some None" by (metis option.exhaust)
  then show ?thesis
    by (elim disjE; cases "cr_lockOutspend (si_chain inp)"; cases "the (cr_lockOutspend (si_chain inp))")
      (simp_all add: openStatus_def releaseFromOutspend_def Let_def)
qed

lemma deposit_grounded:
  assumes "si_position inp = None" "si_pendingDeposit inp = Some pd"
  shows "grounded inp (depositStatus inp pd)"
proof -
  have branch: "(c \<Longrightarrow> grounded inp a) \<Longrightarrow> (\<not> c \<Longrightarrow> grounded inp b) \<Longrightarrow> grounded inp (if c then a else b)" for c a b by simp
  have count: "(x = None \<Longrightarrow> grounded inp a) \<Longrightarrow> (\<And>y. x = Some y \<Longrightarrow> grounded inp (f y)) \<Longrightarrow>
      grounded inp (case x of None \<Rightarrow> a | Some y \<Rightarrow> f y)" for x :: "int option" and a f by (cases x) simp_all
  show ?thesis
  proof (cases "\<exists>c. cr_position (si_chain inp) = Some (Some c)")
    case True
    then show ?thesis by (auto simp: depositStatus_def Let_def)
  next
    case False
    then have "cr_position (si_chain inp) = None \<or> cr_position (si_chain inp) = Some None" by (metis option.exhaust)
    then show ?thesis
    proof
      assume "cr_position (si_chain inp) = None"
      then show ?thesis unfolding depositStatus_def Let_def by (simp only: option.case) (intro branch count; simp)
    next
      assume "cr_position (si_chain inp) = Some None"
      then show ?thesis unfolding depositStatus_def Let_def using assms by (simp only: option.case) (intro branch count; simp)
    qed
  qed
qed

section \<open>Amounts\<close>

text \<open>\<^verbatim>\<open>loan/model.ts\<close>.\<close>

definition STROOP :: int where "STROOP = 10000000"

definition ratioLimitStroops :: "int \<Rightarrow> int \<Rightarrow> int" where
  "ratioLimitStroops collateralSats price = (collateralSats * price * 10000) div SAT div BORROW_LIMIT_BP"

definition availableToBorrow :: "int \<Rightarrow> int \<Rightarrow> int \<Rightarrow> int option \<Rightarrow> int \<times> bool" where
  "availableToBorrow collateralSats debt price pool =
     (let limit = ratioLimitStroops collateralSats price;
          headroom = (if limit > debt then limit - debt else 0) in
      case pool of
        None \<Rightarrow> (headroom, False)
      | Some q \<Rightarrow> if q \<ge> headroom then (headroom, False) else (if q > 0 then q else 0, True))"

definition repayToSafeStroops :: "int \<Rightarrow> int \<Rightarrow> int \<Rightarrow> int" where
  "repayToSafeStroops collateralSats debt price =
     (let limit = ratioLimitStroops collateralSats price in
      if debt \<le> limit then 0
      else let cent = STROOP div 100; raw = debt - limit in ((raw + cent - 1) div cent) * cent)"

definition liquidationPriceFor :: "int \<Rightarrow> int \<Rightarrow> int option" where
  "liquidationPriceFor collateralSats debt =
     (if debt \<le> 0 \<or> collateralSats \<le> 0 then None
      else Some ((debt * LIQUIDATION_BP * SAT) div 10000 div collateralSats))"

definition afterState :: "int \<Rightarrow> int \<Rightarrow> int \<Rightarrow> (int \<times> int) option" where
  "afterState collateralSats newDebt price =
     (if newDebt \<le> 0 then None
      else Some (the (collateralRatioBp collateralSats newDebt price), the (liquidationPriceFor collateralSats newDebt)))"

lemma zle_div_iff:
  assumes "0 < (q :: int)"
  shows "m \<le> n div q \<longleftrightarrow> m * q \<le> n"
proof
  assume "m \<le> n div q"
  then have "m * q \<le> n div q * q" using assms by simp
  also have "... \<le> n" using assms by (simp add: minus_mod_eq_div_mult [symmetric])
  finally show "m * q \<le> n" .
next
  assume "m * q \<le> n"
  then have "m * q div q \<le> n div q" using assms by (rule zdiv_mono1)
  then show "m \<le> n div q" using assms by simp
qed

text \<open>The borrow limit is exactly the largest debt whose ratio is not below 150 percent.\<close>

lemma ratio_limit:
  assumes "0 < d"
  shows "BORROW_LIMIT_BP \<le> (collateral * price * 10000) div SAT div d \<longleftrightarrow> d \<le> ratioLimitStroops collateral price"
proof -
  have "BORROW_LIMIT_BP \<le> v div d \<longleftrightarrow> d \<le> v div BORROW_LIMIT_BP" for v :: int
    using assms by (simp add: BORROW_LIMIT_BP_def mult.commute zle_div_iff)
  then show ?thesis by (simp add: ratioLimitStroops_def)
qed

end
