(* ===== verification/LoanModel.thy ===== *)
theory LoanModel
  imports LoanStatus
begin

text \<open>
  \<^verbatim>\<open>frontend/app/src/lib/loan/model.ts\<close>: which actions a loan page offers and why the others are off, on top of the
  status and the amounts of \<^theory_text>\<open>LoanStatus\<close>. A reason is a constructor in place of its sentence.
\<close>

section \<open>Health\<close>

datatype health = HNone | HHealthy | HBelow_limit | HAt_risk | HLiquidatable

fun healthOf :: "loan_status \<Rightarrow> health option" where
  "healthOf (ActiveLoan _ Healthy) = Some HHealthy"
| "healthOf (ActiveLoan _ Below_limit) = Some HBelow_limit"
| "healthOf (At_risk _) = Some HAt_risk"
| "healthOf (Liquidatable _) = Some HLiquidatable"
| "healthOf (Repaid_locked never _) = (if never then Some HNone else None)"
| "healthOf _ = None"

definition healthOfRatio :: "int option \<Rightarrow> health" where
  "healthOfRatio ratio =
     (case ratio of
        None \<Rightarrow> HNone
      | Some r \<Rightarrow> if r \<ge> BORROW_LIMIT_BP then HHealthy else if r \<ge> AT_RISK_BP then HBelow_limit
                  else if r \<ge> LIQUIDATION_BP then HAt_risk else HLiquidatable)"

definition showsRisk :: "loan_status \<Rightarrow> bool" where
  "showsRisk s \<longleftrightarrow> healthOf s \<noteq> None \<or> (case s of Checking _ \<Rightarrow> True | _ \<Rightarrow> False)"

definition isOpen :: "loan_status \<Rightarrow> bool" where
  "isOpen s \<longleftrightarrow> healthOf s \<noteq> None \<or> (case s of Repaid_locked _ _ \<Rightarrow> True | _ \<Rightarrow> False)"

definition isClosed :: "loan_status \<Rightarrow> bool" where
  "isClosed s \<longleftrightarrow> (case s of Releasing _ \<Rightarrow> True | Released _ \<Rightarrow> True | LiquidatedLoan _ \<Rightarrow> True | _ \<Rightarrow> False)"

section \<open>Tabs\<close>

datatype loan_tab = Borrow_tab | Repay_tab | Release_tab

datatype reason =
    RChecking | RBusy | ROtherTx | RCatchingUp | RPriceUnavailable | RPriceChecking | RBelowLimit | RPoolEmpty
  | RRepaidClosed | RNothingToRepay | RRepayFirst | RMissingDetails | RClosed

datatype tab_state = On | Off reason

datatype 'a read = ReadChecking | ReadFailed | ReadOk 'a

record tab_facts =
  tf_status :: derived_status
  tf_debtStroops :: int
  tf_price :: "int read"
  tf_available :: "(int \<times> bool) option"
  tf_busy :: "loan_tab option"
  tf_otherTx :: bool
  tf_catchingUp :: bool

definition own_borrow :: "tab_facts \<Rightarrow> tab_state" where
  "own_borrow f =
     (let s = ds_status (tf_status f); health = healthOf s in
      if (case s of Repaid_locked never _ \<Rightarrow> \<not> never | _ \<Rightarrow> False) then Off RRepaidClosed
      else if health \<in> {Some HBelow_limit, Some HAt_risk, Some HLiquidatable} then Off RBelowLimit
      else if tf_price f = ReadFailed then Off RPriceUnavailable
      else if tf_price f = ReadChecking then Off RPriceChecking
      else (case tf_available f of
              Some (stroops, limitedByPool) \<Rightarrow> if stroops \<le> 0 then Off (if limitedByPool then RPoolEmpty else RBelowLimit) else On
            | None \<Rightarrow> On))"

definition own_repay :: "tab_facts \<Rightarrow> tab_state" where
  "own_repay f = (if tf_debtStroops f > 0 then On else Off RNothingToRepay)"

definition own_release :: "tab_facts \<Rightarrow> tab_state" where
  "own_release f = (case ds_status (tf_status f) of
     Repaid_locked _ missing \<Rightarrow> if missing then Off RMissingDetails else On
   | _ \<Rightarrow> Off RRepayFirst)"

definition gate :: "tab_facts \<Rightarrow> loan_tab \<Rightarrow> tab_state \<Rightarrow> tab_state" where
  "gate f tab own =
     (case tf_busy f of
        Some b \<Rightarrow> if b = tab then On else Off RBusy
      | None \<Rightarrow> if tf_otherTx f then Off ROtherTx else if tf_catchingUp f then Off RCatchingUp else own)"

definition loanTabs :: "tab_facts \<Rightarrow> loan_tab \<Rightarrow> tab_state" where
  "loanTabs f tab =
     (let s = ds_status (tf_status f) in
      if (case s of Checking _ \<Rightarrow> True | _ \<Rightarrow> False) then Off RChecking
      else if \<not> isOpen s then Off RClosed
      else case tab of
             Borrow_tab \<Rightarrow> gate f Borrow_tab (own_borrow f)
           | Repay_tab \<Rightarrow> gate f Repay_tab (own_repay f)
           | Release_tab \<Rightarrow> gate f Release_tab (own_release f))"

definition LOAN_TABS :: "loan_tab list" where "LOAN_TABS = [Borrow_tab, Repay_tab, Release_tab]"

definition defaultTab :: "(loan_tab \<Rightarrow> tab_state) \<Rightarrow> loan_status \<Rightarrow> loan_tab option \<Rightarrow> loan_tab option \<Rightarrow> loan_tab option" where
  "defaultTab tabs status requested busy =
     (if busy \<noteq> None then busy
      else if (case requested of Some t \<Rightarrow> tabs t = On | None \<Rightarrow> False) then requested
      else if (case status of At_risk _ \<Rightarrow> True | Liquidatable _ \<Rightarrow> True | _ \<Rightarrow> False) \<and> tabs Repay_tab = On then Some Repay_tab
      else if (case status of Repaid_locked never _ \<Rightarrow> \<not> never | _ \<Rightarrow> False) \<and> tabs Release_tab = On then Some Release_tab
      else find (\<lambda>t. tabs t = On) LOAN_TABS)"

definition disabledReasons :: "(loan_tab \<Rightarrow> tab_state) \<Rightarrow> reason list" where
  "disabledReasons tabs = fold (\<lambda>t out. case tabs t of Off r \<Rightarrow> if r \<in> set out then out else out @ [r] | On \<Rightarrow> out) LOAN_TABS []"

section \<open>Fields\<close>

datatype usdc_error = EnterAmount | EnterNumber | TooManyDecimals | EnterPositive

text \<open>\<^verbatim>\<open>toLocaleString("en-US")\<close> of an integer: commas every three digits from the right.\<close>

function group3 :: "string \<Rightarrow> string" where
  "group3 ds = (if length ds \<le> 3 then ds else group3 (take (length ds - 3) ds) @ '','' @ drop (length ds - 3) ds)"
  by auto
termination by (relation "measure length") auto

declare group3.simps [simp del]

definition toLocaleString :: "int \<Rightarrow> string" where
  "toLocaleString n = (if n < 0 then ''-'' @ group3 (dec_str (nat (- n))) else group3 (dec_str (nat n)))"

definition strip_zeros :: "string \<Rightarrow> string" where
  "strip_zeros s = rev (dropWhile (\<lambda>c. c = CHR ''0'') (rev s))"

definition padEnd :: "nat \<Rightarrow> char \<Rightarrow> string \<Rightarrow> string" where
  "padEnd n c s = s @ replicate (n - length s) c"

definition toFieldValue :: "int \<Rightarrow> string" where
  "toFieldValue stroops =
     (let cents = stroops div (STROOP div 100) in
      toLocaleString (cents div 100) @ ''.'' @ padStart 2 (CHR ''0'') (dec_str (nat (cents mod 100))))"

definition toExactFieldValue :: "int \<Rightarrow> string" where
  "toExactFieldValue stroops =
     (let frac = padEnd 2 (CHR ''0'') (strip_zeros (padStart 7 (CHR ''0'') (dec_str (nat (stroops mod STROOP))))) in
      toLocaleString (stroops div STROOP) @ ''.'' @ frac)"

text \<open>The groups of \<^verbatim>\<open>/^\d{1,3}(,\d{3})+(\.\d*)?$/\<close>, the comma before the dot only.\<close>

fun comma_groups :: "string \<Rightarrow> bool" where
  "comma_groups (CHR '','' # a # b # c # rest) =
     (is_digit a \<and> is_digit b \<and> is_digit c \<and> (rest = [] \<or> comma_groups rest
        \<or> (hd rest = CHR ''.'' \<and> list_all is_digit (tl rest))))"
| "comma_groups _ = False"

definition grouped :: "string \<Rightarrow> bool" where
  "grouped v \<longleftrightarrow> (\<exists>k\<in>{1, 2, 3}. list_all is_digit (take k v) \<and> k \<le> length v \<and> comma_groups (drop k v))"

fun replace_first :: "char \<Rightarrow> char \<Rightarrow> string \<Rightarrow> string" where
  "replace_first a b [] = []"
| "replace_first a b (c # cs) = (if c = a then b # cs else c # replace_first a b cs)"

text \<open>\<^verbatim>\<open>/^\d*\.?\d*$/\<close>.\<close>

definition plain_decimal :: "string \<Rightarrow> bool" where
  "plain_decimal v \<longleftrightarrow> (let rest = dropWhile is_digit v in
     list_all is_digit rest \<or> (rest \<noteq> [] \<and> hd rest = CHR ''.'' \<and> list_all is_digit (tl rest)))"

text \<open>The checks and the value of a decimal with at most \<open>decimals\<close> places, as every amount field has them.\<close>

definition parse_decimal :: "nat \<Rightarrow> int \<Rightarrow> string \<Rightarrow> usdc_error + int" where
  "parse_decimal decimals scale v =
     (if \<not> plain_decimal v \<or> v = ''.'' then Inl EnterNumber
      else
        let whole = takeWhile (\<lambda>c. c \<noteq> CHR ''.'') v;
            frac = takeWhile (\<lambda>c. c \<noteq> CHR ''.'') (drop (length whole + 1) v) in
        if length frac > decimals then Inl TooManyDecimals
        else
          let amount = int (dec_val whole) * scale + int (dec_val (padEnd decimals (CHR ''0'') frac)) in
          if amount \<le> 0 then Inl EnterPositive else Inr amount)"

definition parseUsdcAmount :: "string \<Rightarrow> usdc_error + int" where
  "parseUsdcAmount input =
     (let v0 = filter (\<lambda>c. \<not> is_ws c) (trim input) in
      if v0 = [] then Inl EnterAmount
      else parse_decimal 7 STROOP
        (if grouped v0 then filter (\<lambda>c. c \<noteq> CHR '','') v0 else replace_first (CHR '','') (CHR ''.'') v0))"

section \<open>What a field holds\<close>

lemma digit_facts: "is_digit c \<Longrightarrow> \<not> is_ws c \<and> c \<noteq> CHR '','' \<and> c \<noteq> CHR ''.''"
  by (auto simp: is_digit_def is_ws_def code_def)

lemma digit_zero [simp]: "is_digit (CHR ''0'')"
  by (simp add: is_digit_def code_def)

lemma group3_strip: "list_all is_digit ds \<Longrightarrow> filter (\<lambda>c. c \<noteq> CHR '','') (group3 ds) = ds"
proof (induction ds rule: group3.induct)
  case (1 ds)
  have same: "filter (\<lambda>c. c \<noteq> CHR '','') xs = xs" if "list_all is_digit xs" for xs
    using that digit_facts by (intro filter_True) (auto simp: list_all_iff)
  have parts: "list_all is_digit (take n ds) \<and> list_all is_digit (drop n ds)" for n
    using 1(2) by (metis append_take_drop_id list_all_append)
  show ?case
  proof (cases "length ds \<le> 3")
    case False
    then show ?thesis using 1(1) parts [of "length ds - 3"] same by (subst group3.simps) simp
  qed (use 1 same in \<open>simp add: group3.simps\<close>)
qed

lemma group3_chars: "list_all is_digit ds \<Longrightarrow> c \<in> set (group3 ds) \<Longrightarrow> is_digit c \<or> c = CHR '',''"
proof -
  assume a: "list_all is_digit ds" "c \<in> set (group3 ds)"
  then have "c \<noteq> CHR '','' \<Longrightarrow> c \<in> set (filter (\<lambda>c. c \<noteq> CHR '','') (group3 ds))" by simp
  with a show ?thesis unfolding group3_strip [OF a(1)] by (auto simp: list_all_iff)
qed

lemma comma_groups_cons:
  assumes "length g = 3" "list_all is_digit g" "comma_groups t \<or> (\<exists>f. t = CHR ''.'' # f \<and> list_all is_digit f)"
  shows "comma_groups (CHR '','' # g @ t)"
proof -
  obtain a b c where "g = [a, b, c]" using assms(1) by (auto simp: eval_nat_numeral length_Suc_conv)
  then show ?thesis using assms(2, 3) by auto
qed

lemma group3_front:
  "list_all is_digit ds \<Longrightarrow> ds \<noteq> [] \<Longrightarrow> comma_groups t \<Longrightarrow>
   \<exists>k\<in>{1, 2, 3}. k \<le> length (group3 ds) \<and> list_all is_digit (take k (group3 ds)) \<and> comma_groups (drop k (group3 ds) @ t)"
proof (induction ds arbitrary: t rule: group3.induct)
  case (1 ds)
  show ?case
  proof (cases "length ds \<le> 3")
    case True
    then have "length ds = 1 \<or> length ds = 2 \<or> length ds = 3" using 1(3) length_greater_0_conv [of ds] by linarith
    with True 1 show ?thesis by (intro bexI [of _ "length ds"]) (auto simp: group3.simps [of ds])
  next
    case False
    let ?m = "length ds - 3"
    have parts: "list_all is_digit (take ?m ds) \<and> list_all is_digit (drop ?m ds)" using 1(2) by (metis append_take_drop_id list_all_append)
    have g: "group3 ds = group3 (take ?m ds) @ CHR '','' # drop ?m ds" using False by (subst group3.simps) simp
    have "comma_groups (CHR '','' # drop ?m ds @ t)" using False parts 1(4) by (intro comma_groups_cons) simp_all
    moreover have "take ?m ds \<noteq> []" using False by auto
    ultimately obtain k where "k \<in> {1, 2, 3}" "k \<le> length (group3 (take ?m ds))" "list_all is_digit (take k (group3 (take ?m ds)))"
      "comma_groups (drop k (group3 (take ?m ds)) @ CHR '','' # drop ?m ds @ t)"
      using 1(1) [of "CHR '','' # drop ?m ds @ t"] False parts by auto
    then show ?thesis by (intro bexI [of _ k]) (simp_all add: g)
  qed
qed

lemma group3_grouped:
  assumes "list_all is_digit ds" "3 < length ds" "list_all is_digit f"
  shows "grouped (group3 ds @ CHR ''.'' # f)"
proof -
  let ?m = "length ds - 3"
  have parts: "list_all is_digit (take ?m ds) \<and> list_all is_digit (drop ?m ds)" using assms(1) by (metis append_take_drop_id list_all_append)
  have g: "group3 ds = group3 (take ?m ds) @ CHR '','' # drop ?m ds" using assms(2) by (subst group3.simps) simp
  have "comma_groups (CHR '','' # drop ?m ds @ CHR ''.'' # f)" using assms parts by (intro comma_groups_cons) simp_all
  moreover have "take ?m ds \<noteq> []" using assms(2) by auto
  ultimately obtain k where "k \<in> {1, 2, 3}" "k \<le> length (group3 (take ?m ds))" "list_all is_digit (take k (group3 (take ?m ds)))"
      "comma_groups (drop k (group3 (take ?m ds)) @ CHR '','' # drop ?m ds @ CHR ''.'' # f)"
    using group3_front [of "take ?m ds"] parts by blast
  then show ?thesis unfolding grouped_def by (intro bexI [of _ k]) (simp_all add: g)
qed

lemma no_comma_groups: "CHR '','' \<notin> set v \<Longrightarrow> \<not> comma_groups v"
  by (induction v rule: comma_groups.induct) auto

lemma no_comma: "CHR '','' \<notin> set v \<Longrightarrow> \<not> grouped v \<and> replace_first (CHR '','') x v = v"
proof -
  assume a: "CHR '','' \<notin> set v"
  then have "replace_first (CHR '','') x v = v" by (induction v) auto
  moreover have "\<not> comma_groups (drop k v)" for k using a by (intro no_comma_groups) (auto dest: in_set_dropD)
  ultimately show ?thesis by (simp add: grouped_def)
qed

lemma strip_pad: "\<exists>k. strip_zeros s @ replicate k (CHR ''0'') = s"
proof -
  have "takeWhile (\<lambda>c. c = CHR ''0'') (rev s) = replicate (length (takeWhile (\<lambda>c. c = CHR ''0'') (rev s))) (CHR ''0'')"
    by (intro replicate_eqI) (auto dest: set_takeWhileD)
  moreover have "s = rev (takeWhile (\<lambda>c. c = CHR ''0'') (rev s) @ dropWhile (\<lambda>c. c = CHR ''0'') (rev s))" by simp
  ultimately show ?thesis unfolding strip_zeros_def
    by (intro exI [of _ "length (takeWhile (\<lambda>c. c = CHR ''0'') (rev s))"]) (metis rev_append rev_replicate)
qed

lemma pad_again:
  assumes "length s = 7"
  shows "padEnd 7 (CHR ''0'') (padEnd 2 (CHR ''0'') (strip_zeros s)) = s \<and> length (padEnd 2 (CHR ''0'') (strip_zeros s)) \<le> 7"
proof -
  obtain k where k: "strip_zeros s @ replicate k (CHR ''0'') = s" using strip_pad by blast
  then have len: "length (strip_zeros s) + k = 7" using assms by (metis length_append length_replicate)
  have "padEnd 7 (CHR ''0'') (padEnd 2 (CHR ''0'') (strip_zeros s)) = strip_zeros s @ replicate k (CHR ''0'')"
  proof (cases "length (strip_zeros s) \<le> 2")
    case True
    then have "2 - length (strip_zeros s) + 5 = k" using len by simp
    with True show ?thesis by (simp add: padEnd_def replicate_add [symmetric])
  next
    case False
    with len show ?thesis by (simp add: padEnd_def)
  qed
  with k len show ?thesis by (simp add: padEnd_def)
qed

text \<open>The exact amount an input field is filled with parses back to the same number of stroops, for every positive
  amount: grouping, the dropped zeros and the strict parser lose nothing.\<close>

theorem usdc_field_roundtrip:
  assumes "0 < stroops"
  shows "parseUsdcAmount (toExactFieldValue stroops) = Inr stroops"
proof -
  define ds where "ds = dec_str (nat (stroops div STROOP))"
  define p where "p = padStart 7 (CHR ''0'') (dec_str (nat (stroops mod STROOP)))"
  define f where "f = padEnd 2 (CHR ''0'') (strip_zeros p)"
  have field: "toExactFieldValue stroops = group3 ds @ CHR ''.'' # f"
    using assms by (simp add: toExactFieldValue_def toLocaleString_def ds_def f_def p_def Let_def STROOP_def)
  have m: "0 \<le> stroops mod STROOP" "stroops mod STROOP < STROOP" by (simp_all add: STROOP_def)
  have ds: "list_all is_digit ds" "dec_val ds = nat (stroops div STROOP)" using dec_str_digits by (auto simp: ds_def list_all_iff)
  have "nat (stroops mod STROOP) < 10 ^ 7" using m by (simp add: STROOP_def)
  then have "length (dec_str (nat (stroops mod STROOP))) \<le> 7" by (intro dec_str_length_le) simp_all
  then have p: "length p = 7" "list_all is_digit p" "dec_val p = nat (stroops mod STROOP)"
    using dec_str_digits by (auto simp: p_def length_padStart list_all_iff padStart_def)
  have "set (strip_zeros p) \<subseteq> set p" unfolding strip_zeros_def using set_dropWhileD by fastforce
  then have f: "list_all is_digit f" using p(2) by (auto simp: f_def padEnd_def list_all_iff)
  have pad: "padEnd 7 (CHR ''0'') f = p" "length f \<le> 7" unfolding f_def using pad_again [OF p(1)] by simp_all
  let ?v = "group3 ds @ CHR ''.'' # f"
  have chars: "c \<in> set ?v \<Longrightarrow> is_digit c \<or> c = CHR '','' \<or> c = CHR ''.''" for c
    using group3_chars [OF ds(1)] f by (auto simp: list_all_iff)
  have no_ws: "c \<in> set ?v \<Longrightarrow> \<not> is_ws c" for c using chars [of c] digit_facts [of c] by (auto simp: is_ws_def code_def)
  have plain: "(if grouped ?v then filter (\<lambda>c. c \<noteq> CHR '','') ?v else replace_first (CHR '','') (CHR ''.'') ?v) = ds @ CHR ''.'' # f"
  proof (cases "3 < length ds")
    case True
    then have "grouped ?v" using group3_grouped [OF ds(1) _ f] by simp
    moreover have "filter (\<lambda>c. c \<noteq> CHR '','') f = f" using f digit_facts by (intro filter_True) (auto simp: list_all_iff)
    ultimately show ?thesis using group3_strip [OF ds(1)] by simp
  next
    case False
    then have g: "group3 ds = ds" by (simp add: group3.simps)
    have "CHR '','' \<notin> set (ds @ CHR ''.'' # f)" using ds(1) f digit_facts by (auto simp: list_all_iff)
    from no_comma [OF this] show ?thesis by (simp add: g)
  qed
  have dot: "takeWhile (\<lambda>c. c \<noteq> CHR ''.'') (ds @ CHR ''.'' # f) = ds" "takeWhile (\<lambda>c. c \<noteq> CHR ''.'') f = f"
    using ds(1) f digit_facts by (auto simp: list_all_iff takeWhile_append takeWhile_eq_all_conv)
  have dec: "plain_decimal (ds @ CHR ''.'' # f)" using ds(1) f by (auto simp: plain_decimal_def list_all_iff dropWhile_append Let_def is_digit_def code_def)
  have "int (dec_val ds) * STROOP + int (dec_val p) = stroops"
    using assms m ds(2) p(3) by (simp add: STROOP_def)
  moreover have "2 \<le> length f" by (simp add: f_def padEnd_def)
  then have "ds @ CHR ''.'' # f \<noteq> ''.''" by (auto simp: append_eq_Cons_conv)
  moreover have "trim ?v = ?v" using no_ws by (rule trim_no_ws)
  moreover have "filter (\<lambda>c. \<not> is_ws c) ?v = ?v" using no_ws by (intro filter_True) blast
  ultimately have "parse_decimal 7 STROOP (ds @ CHR ''.'' # f) = Inr stroops" "trim ?v = ?v" "filter (\<lambda>c. \<not> is_ws c) ?v = ?v"
    using assms by (simp_all add: parse_decimal_def Let_def dot dec pad pad(2) [THEN leD])
  then show ?thesis unfolding field parseUsdcAmount_def Let_def by (simp only: plain) simp
qed

theorem usdc_field_roundtrip_witness: "parseUsdcAmount (toExactFieldValue 14026712345600) = Inr 14026712345600"
  by (rule usdc_field_roundtrip) simp

text \<open>The limits the loan page shows are exact: with a price and collateral read, borrowing any amount up to the one
  offered keeps the ratio at 150 percent or above and one stroop past the headroom does not; repaying what it asks for
  brings the ratio back to 150 percent, paying less than a cent too much; and a price above the liquidation price it
  names is not liquidatable, one below is.\<close>

theorem loan_limits_exact:
  assumes "0 < collateral" "0 < debt" "0 < price" "0 < x"
    "collateralRatioBp collateral (debt + x) price = Some after_borrow" "collateralRatioBp collateral debt now = Some at_now"
    "liquidationPriceFor collateral debt = Some line"
  shows "(x \<le> fst (availableToBorrow collateral debt price pool) \<longrightarrow> BORROW_LIMIT_BP \<le> after_borrow)
    \<and> (fst (availableToBorrow collateral debt price None) < x \<longrightarrow> after_borrow < BORROW_LIMIT_BP)
    \<and> debt - repayToSafeStroops collateral debt price \<le> ratioLimitStroops collateral price
    \<and> (0 < repayToSafeStroops collateral debt price \<longrightarrow>
        repayToSafeStroops collateral debt price < debt - ratioLimitStroops collateral price + STROOP div 100)
    \<and> (line < now \<longrightarrow> LIQUIDATION_BP \<le> at_now) \<and> (now < line \<longrightarrow> at_now < LIQUIDATION_BP)"
proof -
  let ?limit = "ratioLimitStroops collateral price"
  have borrow: "BORROW_LIMIT_BP \<le> after_borrow \<longleftrightarrow> debt + x \<le> ?limit"
    using assms(2, 4, 5) ratio_limit [of "debt + x" collateral price] by (auto simp: collateralRatioBp_def split: if_splits)
  have offered: "x \<le> fst (availableToBorrow collateral debt price pool) \<Longrightarrow> debt + x \<le> ?limit"
    using assms(4) by (auto simp: availableToBorrow_def Let_def split: option.splits if_splits)
  have headroom: "fst (availableToBorrow collateral debt price None) < x \<Longrightarrow> ?limit < debt + x"
    by (auto simp: availableToBorrow_def Let_def split: if_splits)
  have round: "raw \<le> (raw + c - 1) div c * c \<and> (raw + c - 1) div c * c < raw + c" if "0 < c" for raw c :: int
    using pos_mod_bound [OF that, of "raw + c - 1"] pos_mod_sign [OF that, of "raw + c - 1"]
    by (simp add: minus_mod_eq_div_mult [symmetric])
  have repay: "debt - repayToSafeStroops collateral debt price \<le> ?limit"
    "0 < repayToSafeStroops collateral debt price \<Longrightarrow> repayToSafeStroops collateral debt price < debt - ?limit + STROOP div 100"
    using round [of "STROOP div 100" "debt - ?limit"] by (auto simp: repayToSafeStroops_def Let_def STROOP_def)
  have "line = debt * LIQUIDATION_BP * SAT div (10000 * collateral)"
    using assms(1, 2, 7) by (simp add: liquidationPriceFor_def zdiv_zmult2_eq)
  then have line: "m \<le> line \<longleftrightarrow> m * (10000 * collateral) \<le> debt * LIQUIDATION_BP * SAT" for m
    using zle_div_iff [of "10000 * collateral" m] assms(1) by simp
  have "at_now = collateral * now * 10000 div (SAT * debt)"
    using assms(2, 6) by (auto simp: collateralRatioBp_def zdiv_zmult2_eq split: if_splits)
  then have ratio: "LIQUIDATION_BP \<le> at_now \<longleftrightarrow> LIQUIDATION_BP * (SAT * debt) \<le> collateral * now * 10000"
    using zle_div_iff [of "SAT * debt" LIQUIDATION_BP "collateral * now * 10000"] assms(2) by (simp only: SAT_def zero_less_mult_iff) simp
  have above: "line < now \<Longrightarrow> LIQUIDATION_BP \<le> at_now"
    using line [of now] unfolding ratio by (simp add: algebra_simps not_le less_imp_le)
  have "now < line \<Longrightarrow> (now + 1) * (10000 * collateral) \<le> debt * LIQUIDATION_BP * SAT" using line [of "now + 1"] by simp
  then have below: "now < line \<Longrightarrow> \<not> LIQUIDATION_BP \<le> at_now"
    using assms(1) unfolding ratio by (simp add: algebra_simps)
  show ?thesis using borrow offered headroom repay above below by (auto simp: not_le)
qed

theorem loan_limits_exact_witness:
  "fst (availableToBorrow 5000000 10000000000 600000000000 None) = 10000000000
    \<and> 10000000000 - repayToSafeStroops 5000000 10000000000 600000000000 \<le> ratioLimitStroops 5000000 600000000000
    \<and> BORROW_LIMIT_BP \<le> (15000 :: int)"
proof -
  have "fst (availableToBorrow 5000000 10000000000 600000000000 None) = 10000000000"
    "collateralRatioBp 5000000 (10000000000 + 10000000000) 600000000000 = Some 15000"
    "collateralRatioBp 5000000 10000000000 200000000000 = Some 10000" "liquidationPriceFor 5000000 10000000000 = Some 240000000000"
    by code_simp+
  with loan_limits_exact [of 5000000 10000000000 600000000000 10000000000 15000 200000000000 10000 240000000000 None] show ?thesis by simp
qed

text \<open>C22. What the app says about a loan rests on what it has read: health, repayment, release and liquidation are only
  stated from the chain's own answers, with the price, the lock output and the thresholds they need, and a borrow,
  release or reclaim is only offered where they allow it.\<close>

theorem status_not_guessed:
  assumes "\<And>c. cr_position (si_chain inp) = Some (Some c) \<Longrightarrow> 0 \<le> cp_debtStroops c"
    and "derivePositionStatus inp = d" "tf_status f = d" "tf_busy f = None"
  shows "grounded inp (ds_status d)
    \<and> (loanTabs f Release_tab = On \<longrightarrow> (\<exists>c. cr_position (si_chain inp) = Some (Some c) \<and> cr_lockOutspend (si_chain inp) = Some Unspent
        \<and> (cp_status c = ChainClosed \<or> cp_debtStroops c = 0)))
    \<and> (loanTabs f Borrow_tab = On \<longrightarrow> (\<exists>c price. cr_position (si_chain inp) = Some (Some c) \<and> cp_status c = ChainActive
        \<and> (cp_debtStroops c = 0 \<or> (\<exists>r. ds_status d = ActiveLoan r Healthy)) \<and> tf_price f = ReadOk price))
    \<and> (ds_reclaimable d \<longrightarrow> cr_lockOutspend (si_chain inp) = Some Unspent
        \<and> (\<exists>h tip. map_option fst (ds_timelock d) = Some h \<and> cr_btcTipHeight (si_chain inp) = Some tip \<and> h \<le> tip))"
proof -
  have ground: "grounded inp (coreStatus inp)"
    using open_grounded [of inp] deposit_grounded [of inp] assms(1) by (auto simp: coreStatus_def split: option.splits)
  have status: "ds_status d = coreStatus inp" using assms(2) by (auto simp: derivePositionStatus_def Let_def)
  have "loanTabs f Release_tab = On \<Longrightarrow> \<exists>nb. coreStatus inp = Repaid_locked nb False"
    using assms(3, 4) status by (auto simp: loanTabs_def gate_def own_release_def Let_def split: loan_status.splits if_splits)
  moreover have "loanTabs f Borrow_tab = On \<Longrightarrow> (\<exists>m. coreStatus inp = Repaid_locked True m) \<or> (\<exists>r. coreStatus inp = ActiveLoan r Healthy)"
    using assms(3, 4) status by (cases "coreStatus inp" rule: healthOf.cases) (auto simp: loanTabs_def isOpen_def gate_def own_borrow_def Let_def split: if_splits health_band.splits)
  moreover have "loanTabs f Borrow_tab = On \<Longrightarrow> \<exists>price. tf_price f = ReadOk price"
    using assms(3, 4) by (cases "tf_price f") (auto simp: loanTabs_def gate_def own_borrow_def Let_def split: if_splits loan_status.splits)
  moreover have "ds_reclaimable d \<Longrightarrow> cr_lockOutspend (si_chain inp) = Some Unspent
        \<and> (\<exists>h tip. map_option fst (ds_timelock d) = Some h \<and> cr_btcTipHeight (si_chain inp) = Some tip \<and> h \<le> tip)"
    using assms(2) by (auto simp: derivePositionStatus_def timelockOf_def Let_def split: option.splits if_splits)
  ultimately show ?thesis using ground unfolding status by fastforce
qed

definition sample_reads :: status_inputs where
  "sample_reads = \<lparr>si_position = Some \<lparr>ap_id = ''t'', ap_owner = ''g'', ap_txid = ''t'', ap_collateralSats = 5, ap_debtStroops = 0,
       ap_index = 0, ap_status = LActive, ap_createdAt = 0, ap_btcPubkey = Some ''k'', ap_timelockHeight = Some 900, ap_vout = Some 1,
       ap_releaseTxid = None, ap_releaseAddress = None, ap_stellarTxHash = None\<rparr>,
     si_pendingDeposit = None,
     si_chain = \<lparr>cr_position = Some (Some \<lparr>cp_txid = ''t'', cp_status = ChainClosed, cp_depositor = ''g'', cp_collateralSats = 5,
         cp_debtStroops = 0, cp_storedDebtStroops = 0, cp_timelockHeight = 900, cp_userPubkey = ''k'', cp_scriptPubKey = ''s'', cp_ledger = 1\<rparr>),
       cr_releasePsbtReady = Some False, cr_oraclePriceStroops = None, cr_btcTipHeight = Some 950, cr_depositTx = None, cr_lockOutspend = Some Unspent\<rparr>,
     si_relayer = None, si_minConfirmations = 2, si_now = 0\<rparr>"

theorem status_not_guessed_witness:
  "ds_status (derivePositionStatus sample_reads) = Repaid_locked False False
    \<and> grounded sample_reads (ds_status (derivePositionStatus sample_reads)) \<and> ds_reclaimable (derivePositionStatus sample_reads)"
proof -
  let ?d = "derivePositionStatus sample_reads"
  let ?f = "\<lparr>tf_status = ?d, tf_debtStroops = 0, tf_price = ReadFailed, tf_available = None, tf_busy = None, tf_otherTx = False, tf_catchingUp = False\<rparr>"
  have "ds_status ?d = Repaid_locked False False \<and> ds_reclaimable ?d"
    by (simp add: derivePositionStatus_def coreStatus_def openStatus_def releaseFromOutspend_def hasBtcDetails_def timelockOf_def sample_reads_def Let_def)
  moreover have "grounded sample_reads (ds_status ?d)"
    by (rule status_not_guessed [of _ ?d ?f, THEN conjunct1]) (auto simp: sample_reads_def)
  ultimately show ?thesis by blast
qed

end
