(* ===== verification/FlowEngine.thy ===== *)
theory FlowEngine
  imports AppTypes
begin

text \<open>
  \<^verbatim>\<open>frontend/app/src/lib/flow/engine.ts\<close>: the life of a transaction on screen. A flow's state changes only by
  \<^verbatim>\<open>reduceFlow\<close>; an error is any value, and whether it is a declined signature (\<^verbatim>\<open>wallet/rejection.ts\<close>) and which
  wallet it names are parameters.
\<close>

datatype wallet = StellarWallet | BitcoinWallet

datatype prepare_step = LocatingOutput | ReadingStep | BuildingStep | CosignStep | BroadcastingStep

datatype 'e flow_state =
    Idle
  | Preparing "prepare_step option" "string option"
  | WaitingBtc nat nat bool
  | ReadyToSign
  | Proving
  | AwaitingSignature wallet "string option"
  | Submitted string
  | PostProcessing "string option"
  | Settled "string option"
  | SignatureCancelled wallet "string option" "string option"
  | TimedOut string
  | FailedFlow 'e "string option"
  | NeedsAttention "'e option" "string option"

datatype 'e flow_event =
    EStart
  | EReset
  | EPreparing "prepare_step option"
  | EBtcConfirmations nat nat
  | ERelayerUnreachable nat
  | EReady
  | EProving
  | EAwaitingSignature wallet
  | ESignatureCancelled "string option"
  | ESubmitted string
  | EPostProcessing
  | ESettled "string option"
  | ETimedOut string
  | EFailed 'e
  | ENeedsAttention "'e option" "string option"

fun isTerminal :: "'e flow_state \<Rightarrow> bool" where
  "isTerminal Idle = True"
| "isTerminal ReadyToSign = True"
| "isTerminal (Settled _) = True"
| "isTerminal (SignatureCancelled _ _ _) = True"
| "isTerminal (TimedOut _) = True"
| "isTerminal (FailedFlow _ _) = True"
| "isTerminal (NeedsAttention _ _) = True"
| "isTerminal _ = False"

fun hashOf :: "'e flow_state \<Rightarrow> string option" where
  "hashOf (Preparing _ h) = h"
| "hashOf (AwaitingSignature _ h) = h"
| "hashOf (Submitted h) = Some h"
| "hashOf (PostProcessing h) = h"
| "hashOf (Settled h) = h"
| "hashOf (SignatureCancelled _ _ h) = h"
| "hashOf (TimedOut h) = Some h"
| "hashOf (FailedFlow _ h) = h"
| "hashOf (NeedsAttention _ h) = h"
| "hashOf _ = None"

record 'e rejection =
  rj_isSignatureRejected :: "'e \<Rightarrow> bool"
  rj_walletName :: "'e \<Rightarrow> string option"

definition or_hash :: "string option \<Rightarrow> string option \<Rightarrow> string option" where
  "or_hash a b = (case a of None \<Rightarrow> b | Some _ \<Rightarrow> a)"

text \<open>The switch of \<^verbatim>\<open>reduceFlow\<close>, past its guards.\<close>

fun reduce_event :: "'e rejection \<Rightarrow> 'e flow_state \<Rightarrow> 'e flow_event \<Rightarrow> 'e flow_state" where
  "reduce_event rj s (EPreparing step) = Preparing step (hashOf s)"
| "reduce_event rj s (EBtcConfirmations n m) = WaitingBtc n m True"
| "reduce_event rj s (ERelayerUnreachable m) = WaitingBtc (case s of WaitingBtc n _ _ \<Rightarrow> n | _ \<Rightarrow> 0) m False"
| "reduce_event rj s EReady = ReadyToSign"
| "reduce_event rj s EProving = Proving"
| "reduce_event rj s (EAwaitingSignature w) = AwaitingSignature w (hashOf s)"
| "reduce_event rj s (ESignatureCancelled name) =
     (case s of AwaitingSignature w h \<Rightarrow> SignatureCancelled w name h | _ \<Rightarrow> s)"
| "reduce_event rj s (ESubmitted h) = Submitted h"
| "reduce_event rj s EPostProcessing = PostProcessing (hashOf s)"
| "reduce_event rj s (ESettled h) = Settled (or_hash h (hashOf s))"
| "reduce_event rj s (ETimedOut h) = TimedOut h"
| "reduce_event rj s (EFailed e) =
     (case s of
        AwaitingSignature w h \<Rightarrow>
          if rj_isSignatureRejected rj e then SignatureCancelled w (rj_walletName rj e) h else FailedFlow e h
      | _ \<Rightarrow> FailedFlow e (hashOf s))"
| "reduce_event rj s (ENeedsAttention e h) = NeedsAttention e (or_hash h (hashOf s))"
| "reduce_event rj s EStart = Preparing None None"
| "reduce_event rj s EReset = Idle"

definition reconciled :: "'e flow_state \<Rightarrow> 'e flow_event \<Rightarrow> bool" where
  "reconciled s ev \<longleftrightarrow> (case s of TimedOut _ \<Rightarrow> (case ev of ESettled _ \<Rightarrow> True | EFailed _ \<Rightarrow> True | _ \<Rightarrow> False) | _ \<Rightarrow> False)"

definition resumed :: "'e flow_state \<Rightarrow> 'e flow_event \<Rightarrow> bool" where
  "resumed s ev \<longleftrightarrow> (s = Idle \<or> s = ReadyToSign) \<and> (case ev of ESignatureCancelled _ \<Rightarrow> False | _ \<Rightarrow> True)"

definition reduceFlow :: "'e rejection \<Rightarrow> 'e flow_state \<Rightarrow> 'e flow_event \<Rightarrow> 'e flow_state" where
  "reduceFlow rj s ev =
     (if ev = EReset then Idle
      else if ev = EStart then Preparing None None
      else if isTerminal s \<and> \<not> reconciled s ev \<and> \<not> resumed s ev then s
      else reduce_event rj s ev)"

definition isInFlight :: "'e flow_state \<Rightarrow> bool" where
  "isInFlight s \<longleftrightarrow> \<not> isTerminal s"

fun guardsUnload :: "'e flow_state \<Rightarrow> bool" where
  "guardsUnload (AwaitingSignature _ _) = True"
| "guardsUnload (Submitted _) = True"
| "guardsUnload (PostProcessing _) = True"
| "guardsUnload _ = False"

section \<open>Runs\<close>

inductive flow_reach :: "'e rejection \<Rightarrow> 'e flow_state \<Rightarrow> 'e flow_event list \<Rightarrow> 'e flow_state \<Rightarrow> bool" for rj where
  Here: "flow_reach rj s [] s"
| Event: "flow_reach rj s evs s' \<Longrightarrow> flow_reach rj s (evs @ [ev]) (reduceFlow rj s' ev)"

lemma flow_reach_foldl: "flow_reach rj s evs (foldl (reduceFlow rj) s evs)"
  by (induction evs rule: rev_induct) (auto intro: flow_reach.intros)

text \<open>What the user looks at when a run has ended.\<close>

fun outcome :: "'e flow_state \<Rightarrow> bool" where
  "outcome Idle = False"
| "outcome ReadyToSign = False"
| "outcome s = isTerminal s"

fun is_end :: "'e flow_state \<Rightarrow> bool" where
  "is_end (Settled _) = True" | "is_end (FailedFlow _ _) = True" | "is_end _ = False"

text \<open>Events after which a submitted transaction is still on screen.\<close>

fun keeps_tx :: "'e flow_event \<Rightarrow> bool" where
  "keeps_tx (EPreparing _) = True"
| "keeps_tx (EAwaitingSignature _) = True"
| "keeps_tx (ESignatureCancelled _) = True"
| "keeps_tx (ESubmitted _) = True"
| "keeps_tx EPostProcessing = True"
| "keeps_tx (ESettled _) = True"
| "keeps_tx (ETimedOut _) = True"
| "keeps_tx (EFailed _) = True"
| "keeps_tx (ENeedsAttention _ _) = True"
| "keeps_tx _ = False"

lemma frozen: "outcome s \<Longrightarrow> ev \<noteq> EStart \<Longrightarrow> ev \<noteq> EReset \<Longrightarrow>
    reduceFlow rj s ev = s \<or> (\<exists>h. s = TimedOut h \<and> is_end (reduceFlow rj s ev) \<and> hashOf (reduceFlow rj s ev) \<noteq> None)"
  by (cases s; cases ev) (auto simp: reduceFlow_def reconciled_def resumed_def or_hash_def split: option.splits)

lemma hash_kept: "keeps_tx ev \<Longrightarrow> hashOf s \<noteq> None \<Longrightarrow> hashOf (reduceFlow rj s ev) \<noteq> None"
  by (cases s; cases ev) (auto simp: reduceFlow_def reconciled_def resumed_def or_hash_def split: option.splits)

lemma reached_frozen:
  "flow_reach rj s evs s' \<Longrightarrow> outcome s \<Longrightarrow> EStart \<notin> set evs \<Longrightarrow> EReset \<notin> set evs \<Longrightarrow>
    s' = s \<or> (\<exists>h. s = TimedOut h \<and> is_end s' \<and> hashOf s' \<noteq> None)"
proof (induction rule: flow_reach.induct)
  case (Event s evs s' ev)
  then have "s' = s \<or> (\<exists>h. s = TimedOut h \<and> is_end s' \<and> hashOf s' \<noteq> None)" by simp
  then show ?case
  proof
    assume "s' = s"
    with frozen [of s ev rj] Event.prems show ?thesis by auto
  next
    assume a: "\<exists>h. s = TimedOut h \<and> is_end s' \<and> hashOf s' \<noteq> None"
    then have "outcome s'" by (cases s') auto
    with frozen [of s' ev rj] Event.prems a show ?thesis by (auto elim: is_end.elims)
  qed
qed simp

lemma reached_hash:
  "flow_reach rj s evs s' \<Longrightarrow> hashOf s \<noteq> None \<Longrightarrow> list_all keeps_tx evs \<Longrightarrow> hashOf s' \<noteq> None"
  by (induction rule: flow_reach.induct) (auto dest: hash_kept)



end
