(* ===== verification/TxLock.thy ===== *)
theory TxLock
  imports Json
begin

text \<open>
  \<^verbatim>\<open>frontend/app/src/lib/flow/lock.ts\<close>: locks across tabs. A lock manager grants a name to one request at a time
  in order of arrival; \<^verbatim>\<open>lock_manager\<close> is that contract, met by the browser's Web Locks as documented and by the
  per-tab fallback of the source. On top of any such manager, any number of tabs run transactions and reserve or
  free position indices, step by step and in any order; a tab may close at any moment. A request is a number.
  The view of other tabs' locks over a broadcast channel only disables buttons and is left out.
\<close>

section \<open>Lock managers\<close>

datatype hold_answer = Granted | Refused | Queued

text \<open>Web Locks: each name has a queue whose head holds the lock.\<close>

type_synonym web_locks = "string \<Rightarrow> nat list"

definition web_hold :: "nat \<Rightarrow> string \<Rightarrow> bool \<Rightarrow> web_locks \<Rightarrow> web_locks \<times> hold_answer" where
  "web_hold r n ifAvailable q =
     (if q n = [] then (q(n := [r]), Granted) else if ifAvailable then (q, Refused) else (q(n := q n @ [r]), Queued))"

definition web_release :: "string \<Rightarrow> web_locks \<Rightarrow> web_locks \<times> nat option" where
  "web_release n q = (q(n := tl (q n)), case tl (q n) of [] \<Rightarrow> None | r # _ \<Rightarrow> Some r)"

definition web_abort :: "nat \<Rightarrow> string \<Rightarrow> web_locks \<Rightarrow> web_locks" where
  "web_abort r n q = (case q n of [] \<Rightarrow> q | h # t \<Rightarrow> q(n := h # filter (\<lambda>x. x \<noteq> r) t))"

text \<open>
  The fallback: \<open>localHeld\<close> and \<open>localWaiters\<close>. A waiter is the \<^verbatim>\<open>grant\<close> closure of its request; the request that
  holds a name is recorded beside the set, for the statement only.
\<close>

record local_locks =
  ll_held :: "string \<Rightarrow> nat option"
  ll_waiters :: "string \<Rightarrow> nat list"

definition hold_local :: "nat \<Rightarrow> string \<Rightarrow> bool \<Rightarrow> local_locks \<Rightarrow> local_locks \<times> hold_answer" where
  "hold_local r n ifAvailable s =
     (if ll_held s n = None then (s\<lparr>ll_held := (ll_held s)(n := Some r)\<rparr>, Granted)
      else if ifAvailable then (s, Refused)
      else (s\<lparr>ll_waiters := (ll_waiters s)(n := ll_waiters s n @ [r])\<rparr>, Queued))"

definition release_local :: "string \<Rightarrow> local_locks \<Rightarrow> local_locks \<times> nat option" where
  "release_local n s =
     (let s' = s\<lparr>ll_held := (ll_held s)(n := None)\<rparr> in
      case ll_waiters s' n of
        [] \<Rightarrow> (s', None)
      | next_grant # q \<Rightarrow>
          (s'\<lparr>ll_held := (ll_held s')(n := Some next_grant), ll_waiters := (ll_waiters s')(n := q)\<rparr>, Some next_grant))"

definition abort_local :: "nat \<Rightarrow> string \<Rightarrow> local_locks \<Rightarrow> local_locks" where
  "abort_local r n s = s\<lparr>ll_waiters := (ll_waiters s)(n := filter (\<lambda>g. g \<noteq> r) (ll_waiters s n))\<rparr>"

definition local_queue :: "local_locks \<Rightarrow> string \<Rightarrow> nat list" where
  "local_queue s n = (case ll_held s n of None \<Rightarrow> [] | Some r \<Rightarrow> r # ll_waiters s n)"

definition local_ok :: "local_locks \<Rightarrow> bool" where
  "local_ok s \<longleftrightarrow> (\<forall>n. ll_held s n = None \<longrightarrow> ll_waiters s n = [])"

section \<open>Tabs\<close>

definition txLockName :: "string \<Rightarrow> string" where "txLockName account = ''writz.tx.'' @ account"
definition indexLockName :: "string \<Rightarrow> string" where "indexLockName owner = ''writz.index.'' @ owner"

definition nextPositionIndex :: "int list \<Rightarrow> int" where
  "nextPositionIndex used = fold (\<lambda>i m. if i > m then i else m) used (-1) + 1"

definition json_ints :: "json list \<Rightarrow> int list" where
  "json_ints xs = List.map_filter (\<lambda>x. case x of JNum i \<Rightarrow> Some i | _ \<Rightarrow> None) xs"

definition readReserved :: "string option \<Rightarrow> int list" where
  "readReserved raw =
     (case raw of
        None \<Rightarrow> []
      | Some t \<Rightarrow> if t = [] then [] else (case JSON_parse t of Some (JArr xs) \<Rightarrow> json_ints xs | _ \<Rightarrow> []))"

definition writeReserved :: "int list \<Rightarrow> string" where
  "writeReserved js = stringify (JArr (map JNum js))"

text \<open>What a request is doing: an account's transaction, or one of the two operations on the reserved indices.\<close>

datatype task =
    TxRun string
  | IndexWait string "int list"
  | IndexHeld string "int list"
  | IndexRead string "int list" "int list"
  | FreeWait string int
  | FreeHeld string int
  | FreeRead string int "int list"

fun lock_of :: "task \<Rightarrow> string" where
  "lock_of (TxRun a) = txLockName a"
| "lock_of (IndexWait w _) = indexLockName w"
| "lock_of (IndexHeld w _) = indexLockName w"
| "lock_of (IndexRead w _ _) = indexLockName w"
| "lock_of (FreeWait w _) = indexLockName w"
| "lock_of (FreeHeld w _) = indexLockName w"
| "lock_of (FreeRead w _ _) = indexLockName w"

fun holding :: "task \<Rightarrow> bool" where
  "holding (IndexWait _ _) = False"
| "holding (FreeWait _ _) = False"
| "holding _ = True"

fun wake :: "task \<Rightarrow> task" where
  "wake (IndexWait w us) = IndexHeld w us"
| "wake (FreeWait w i) = FreeHeld w i"
| "wake t = t"

record 'm tabs =
  tb_locks :: 'm
  tb_tasks :: "nat \<Rightarrow> task option"
  tb_storage :: "string \<Rightarrow> string option"
  tb_given :: "(string \<times> int) list"  \<comment> \<open>indices answered and not freed since\<close>

record 'm lock_ops =
  lo_hold :: "nat \<Rightarrow> string \<Rightarrow> bool \<Rightarrow> 'm \<Rightarrow> 'm \<times> hold_answer"
  lo_release :: "string \<Rightarrow> 'm \<Rightarrow> 'm \<times> nat option"
  lo_abort :: "nat \<Rightarrow> string \<Rightarrow> 'm \<Rightarrow> 'm"

text \<open>A request that is done releases its lock, which resumes the next one waiting.\<close>

definition finish :: "'m lock_ops \<Rightarrow> nat \<Rightarrow> string \<Rightarrow> 'm tabs \<Rightarrow> 'm tabs" where
  "finish ops r n s =
     (let (m, nx) = lo_release ops n (tb_locks s); tasks = (tb_tasks s)(r := None) in
      s\<lparr>tb_locks := m,
        tb_tasks := (case nx of None \<Rightarrow> tasks | Some x \<Rightarrow> tasks(x := map_option wake (tasks x)))\<rparr>)"

inductive tab_step :: "'m lock_ops \<Rightarrow> 'm tabs \<Rightarrow> 'm tabs \<Rightarrow> bool" for ops where
  TxStart: "tb_tasks s r = None \<Longrightarrow> lo_hold ops r (txLockName a) True (tb_locks s) = (m, Granted) \<Longrightarrow>
    tab_step ops s (s\<lparr>tb_locks := m, tb_tasks := (tb_tasks s)(r \<mapsto> TxRun a)\<rparr>)"
| TxBusy: "tb_tasks s r = None \<Longrightarrow> lo_hold ops r (txLockName a) True (tb_locks s) = (m, Refused) \<Longrightarrow>
    tab_step ops s (s\<lparr>tb_locks := m\<rparr>)"
| TxEnd: "tb_tasks s r = Some (TxRun a) \<Longrightarrow> tab_step ops s (finish ops r (txLockName a) s)"
| Reserve: "tb_tasks s r = None \<Longrightarrow> lo_hold ops r (indexLockName w) False (tb_locks s) = (m, ans) \<Longrightarrow>
    tab_step ops s (s\<lparr>tb_locks := m, tb_tasks := (tb_tasks s)(r \<mapsto> (if ans = Granted then IndexHeld w us else IndexWait w us))\<rparr>)"
| ReserveRead: "tb_tasks s r = Some (IndexHeld w us) \<Longrightarrow>
    tab_step ops s (s\<lparr>tb_tasks := (tb_tasks s)(r \<mapsto> IndexRead w us (readReserved (tb_storage s w)))\<rparr>)"
| ReserveWrite: "tb_tasks s r = Some (IndexRead w us rs) \<Longrightarrow> i = nextPositionIndex (us @ rs) \<Longrightarrow>
    tab_step ops s (finish ops r (indexLockName w)
      (s\<lparr>tb_storage := (tb_storage s)(w \<mapsto> writeReserved (rs @ [i])), tb_given := tb_given s @ [(w, i)]\<rparr>))"
| Free: "tb_tasks s r = None \<Longrightarrow> lo_hold ops r (indexLockName w) False (tb_locks s) = (m, ans) \<Longrightarrow>
    tab_step ops s (s\<lparr>tb_locks := m, tb_tasks := (tb_tasks s)(r \<mapsto> (if ans = Granted then FreeHeld w i else FreeWait w i))\<rparr>)"
| FreeReadStep: "tb_tasks s r = Some (FreeHeld w i) \<Longrightarrow>
    tab_step ops s (s\<lparr>tb_tasks := (tb_tasks s)(r \<mapsto> FreeRead w i (readReserved (tb_storage s w)))\<rparr>)"
| FreeWrite: "tb_tasks s r = Some (FreeRead w i rs) \<Longrightarrow>
    tab_step ops s (finish ops r (indexLockName w)
      (s\<lparr>tb_storage := (tb_storage s)(w \<mapsto> writeReserved (filter (\<lambda>x. x \<noteq> i) rs)), tb_given := filter (\<lambda>g. g \<noteq> (w, i)) (tb_given s)\<rparr>))"
| CloseHolder: "tb_tasks s r = Some t \<Longrightarrow> holding t \<Longrightarrow> tab_step ops s (finish ops r (lock_of t) s)"
| CloseWaiter: "tb_tasks s r = Some t \<Longrightarrow> \<not> holding t \<Longrightarrow>
    tab_step ops s (s\<lparr>tb_locks := lo_abort ops r (lock_of t) (tb_locks s), tb_tasks := (tb_tasks s)(r := None)\<rparr>)"

inductive tabs_reach :: "'m lock_ops \<Rightarrow> 'm tabs \<Rightarrow> 'm tabs \<Rightarrow> bool" for ops and s where
  Start: "tabs_reach ops s s"
| Step: "tabs_reach ops s s' \<Longrightarrow> tab_step ops s' s'' \<Longrightarrow> tabs_reach ops s s''"

definition idle_tabs :: "'m \<Rightarrow> (string \<Rightarrow> string option) \<Rightarrow> 'm tabs" where
  "idle_tabs m storage = \<lparr>tb_locks = m, tb_tasks = (\<lambda>_. None), tb_storage = storage, tb_given = []\<rparr>"

lemma fold_max: "i \<in> set used \<or> i \<le> m \<Longrightarrow> i \<le> fold (\<lambda>i m. if i > m then i else m) used (m :: int)"
  by (induction used arbitrary: m) force+

lemma nextPositionIndex_fresh: "i \<in> set used \<Longrightarrow> i < nextPositionIndex used"
  using fold_max [of i used "-1"] by (simp add: nextPositionIndex_def)

lemma json_ints_map [simp]: "json_ints (map JNum js) = js"
  by (induction js) (simp_all add: json_ints_def List.map_filter_def)

lemma readReserved_write [simp]: "readReserved (Some (writeReserved js)) = js"
proof -
  have "json_ok (JArr (map JNum js))" by (simp add: list_all_iff)
  then show ?thesis using stringify_hd [of "JArr (map JNum js)"] by (simp add: readReserved_def writeReserved_def JSON_parse_stringify del: stringify.simps)
qed

section \<open>The contract of a lock manager\<close>

locale lock_manager =
  fixes ops :: "'m lock_ops" and queue :: "'m \<Rightarrow> string \<Rightarrow> nat list" and inv :: "'m \<Rightarrow> bool"
  assumes hold_inv: "inv m \<Longrightarrow> inv (fst (lo_hold ops r n av m))"
    and release_inv: "inv m \<Longrightarrow> queue m n \<noteq> [] \<Longrightarrow> inv (fst (lo_release ops n m))"
    and abort_inv: "inv m \<Longrightarrow> inv (lo_abort ops r n m)"
    and hold_queue: "inv m \<Longrightarrow> queue (fst (lo_hold ops r n av m)) =
      (if queue m n = [] then (queue m)(n := [r]) else if av then queue m else (queue m)(n := queue m n @ [r]))"
    and hold_answer: "inv m \<Longrightarrow> snd (lo_hold ops r n av m) = (if queue m n = [] then Granted else if av then Refused else Queued)"
    and release_queue: "inv m \<Longrightarrow> queue m n \<noteq> [] \<Longrightarrow> queue (fst (lo_release ops n m)) = (queue m)(n := tl (queue m n))"
    and release_next: "inv m \<Longrightarrow> queue m n \<noteq> [] \<Longrightarrow>
      snd (lo_release ops n m) = (case tl (queue m n) of [] \<Rightarrow> None | r # _ \<Rightarrow> Some r)"
    and abort_queue: "inv m \<Longrightarrow> queue m n = h # t \<Longrightarrow> queue (lo_abort ops r n m) = (queue m)(n := h # filter (\<lambda>x. x \<noteq> r) t)"
begin

text \<open>Every queue is the requests on that lock, and the ones holding are at the head.\<close>

definition lock_ok :: "'m \<Rightarrow> (nat \<Rightarrow> task option) \<Rightarrow> bool" where
  "lock_ok m tasks \<longleftrightarrow> inv m \<and> (\<forall>n. distinct (queue m n))
     \<and> (\<forall>n r. r \<in> set (queue m n) \<longleftrightarrow> (\<exists>t. tasks r = Some t \<and> lock_of t = n))
     \<and> (\<forall>r t. tasks r = Some t \<longrightarrow> (holding t \<longleftrightarrow> hd (queue m (lock_of t)) = r))"

lemma lock_ok_head: "lock_ok m tasks \<Longrightarrow> tasks r = Some t \<Longrightarrow> holding t \<longleftrightarrow> hd (queue m (lock_of t)) = r"
  unfolding lock_ok_def by blast

lemma lock_ok_mem: "lock_ok m tasks \<Longrightarrow> r \<in> set (queue m n) \<longleftrightarrow> (\<exists>t. tasks r = Some t \<and> lock_of t = n)"
  unfolding lock_ok_def by blast

lemma lock_ok_distinct: "lock_ok m tasks \<Longrightarrow> distinct (queue m n)"
  unfolding lock_ok_def by blast

lemma lock_ok_inv: "lock_ok m tasks \<Longrightarrow> inv m"
  unfolding lock_ok_def by blast

lemma lock_ok_exclusive:
  "lock_ok m tasks \<Longrightarrow> tasks r = Some t \<Longrightarrow> tasks r' = Some t' \<Longrightarrow> holding t \<Longrightarrow> holding t' \<Longrightarrow> lock_of t = lock_of t' \<Longrightarrow> r = r'"
  by (metis lock_ok_head)

lemma lock_ok_hold:
  assumes ok: "lock_ok m tasks" and r: "tasks r = None" and hold: "lo_hold ops r n av m = (m', ans)"
    and t: "lock_of t = n" "holding t \<longleftrightarrow> ans = Granted" and ans: "ans \<noteq> Refused"
  shows "lock_ok m' (tasks(r \<mapsto> t))"
proof -
  note inv = lock_ok_inv [OF ok] and mem = lock_ok_mem [OF ok]
  have new: "r \<notin> set (queue m k)" for k using mem r by simp
  have q: "queue m' = (queue m)(n := queue m n @ [r])" "ans = Granted \<longleftrightarrow> queue m n = []" "inv m'"
    using hold_queue [OF inv, of r n av] hold_answer [OF inv, of r n av] hold_inv [OF inv, of r n av] hold ans by (auto split: if_splits)
  show ?thesis
    unfolding lock_ok_def
  proof (intro conjI allI impI)
    show "distinct (queue m' k)" for k using lock_ok_distinct [OF ok] new [of n] by (simp add: q)
    show "x \<in> set (queue m' k) \<longleftrightarrow> (\<exists>u. (tasks(r \<mapsto> t)) x = Some u \<and> lock_of u = k)" for k x
      using mem [of x k] t(1) r by (cases "x = r") (auto simp: q)
    show "holding u \<longleftrightarrow> hd (queue m' (lock_of u)) = x" if "(tasks(r \<mapsto> t)) x = Some u" for x u
    proof (cases "x = r")
      case True
      then have "u = t" using that by simp
      then show ?thesis using t q(2) True new [of n] by (cases "queue m n") (auto simp: q(1))
    next
      case False
      then have u: "tasks x = Some u" using that by simp
      then have "queue m (lock_of u) \<noteq> []" using mem [of x "lock_of u"] by auto
      then have "hd (queue m' (lock_of u)) = hd (queue m (lock_of u))" by (auto simp: q(1))
      with lock_ok_head [OF ok u] show ?thesis by simp
    qed
  qed (rule q(3))
qed

lemma wake_simps [simp]: "lock_of (wake t) = lock_of t" "holding (wake t)"
  by (cases t; simp)+

lemma lock_ok_finish:
  assumes ok: "lock_ok (tb_locks s) (tb_tasks s)" and r: "tb_tasks s r = Some t" "holding t" "lock_of t = n"
  shows "lock_ok (tb_locks (finish ops r n s)) (tb_tasks (finish ops r n s))"
proof -
  let ?m = "tb_locks s"
  note inv = lock_ok_inv [OF ok] and mem = lock_ok_mem [OF ok] and head = lock_ok_head [OF ok]
  have "r \<in> set (queue ?m n)" using mem r by blast
  then obtain rest where rest: "queue ?m n = r # rest" using head [OF r(1)] r(2, 3) by (cases "queue ?m n") auto
  have ne: "queue ?m n \<noteq> []" by (simp add: rest)
  obtain m' nx where rel: "lo_release ops n ?m = (m', nx)" by fastforce
  have q: "queue m' = (queue ?m)(n := rest)" "nx = (case rest of [] \<Rightarrow> None | x # _ \<Rightarrow> Some x)" "inv m'"
    using release_queue [OF inv ne] release_next [OF inv ne] release_inv [OF inv ne] rel rest by auto
  let ?tasks = "tb_tasks (finish ops r n s)"
  have fin: "tb_locks (finish ops r n s) = m'" by (simp add: finish_def rel Let_def split: option.split)
  have d: "r \<notin> set rest" "distinct rest" using lock_ok_distinct [OF ok, of n] rest by auto
  have next_name: "\<exists>u. tb_tasks s x = Some u \<and> lock_of u = n" if "nx = Some x" for x
    using mem [of x n] that rest q(2) by (cases rest) auto
  have tasks: "?tasks x = (if x = r then None else if nx = Some x then map_option wake (tb_tasks s x) else tb_tasks s x)" for x
    using d q(2) by (auto simp: finish_def rel Let_def split: option.splits list.splits)
  have names: "map_option lock_of (?tasks x) = (if x = r then None else map_option lock_of (tb_tasks s x))" for x
    by (simp add: tasks option.map_comp comp_def)
  show ?thesis
    unfolding lock_ok_def fin
  proof (intro conjI allI impI)
    show "distinct (queue m' k)" for k using lock_ok_distinct [OF ok] d by (simp add: q)
    show "x \<in> set (queue m' k) \<longleftrightarrow> (\<exists>u. ?tasks x = Some u \<and> lock_of u = k)" for k x
    proof -
      have "(\<exists>u. ?tasks x = Some u \<and> lock_of u = k) \<longleftrightarrow> map_option lock_of (?tasks x) = Some k" by (cases "?tasks x") auto
      also have "... \<longleftrightarrow> x \<noteq> r \<and> map_option lock_of (tb_tasks s x) = Some k" by (simp add: names)
      also have "... \<longleftrightarrow> x \<noteq> r \<and> x \<in> set (queue ?m k)" unfolding mem by (cases "tb_tasks s x") auto
      also have "... \<longleftrightarrow> x \<in> set (queue m' k)"
      proof (cases "k = n")
        case False
        then have "r \<notin> set (queue ?m k)" using mem [of r k] r by auto
        with False show ?thesis by (auto simp: q)
      qed (use rest d in \<open>auto simp: q\<close>)
      finally show ?thesis by simp
    qed
    show "holding u \<longleftrightarrow> hd (queue m' (lock_of u)) = x" if u: "?tasks x = Some u" for x u
    proof (cases "nx = Some x")
      case True
      then obtain v where v: "tb_tasks s x = Some v" "lock_of v = n" using next_name by blast
      with u True have "u = wake v" by (simp add: tasks split: if_splits)
      then show ?thesis using v True q by (cases rest) auto
    next
      case False
      then have v: "tb_tasks s x = Some u" "x \<noteq> r" using u by (auto simp: tasks split: if_splits)
      show ?thesis
      proof (cases "lock_of u = n")
        case True
        then have "x \<in> set rest" using mem [of x n] v rest by auto
        then have "hd rest \<noteq> x" using False q(2) by (cases rest) auto
        moreover have "\<not> holding u" using head [OF v(1)] True rest v(2) by simp
        ultimately show ?thesis using True by (simp add: q)
      next
        case False
        then show ?thesis using head [OF v(1)] by (simp add: q)
      qed
    qed
  qed (rule q(3))
qed

lemma lock_ok_retask:
  assumes "lock_ok m tasks" "tasks r = Some t" "lock_of t' = lock_of t" "holding t' = holding t"
  shows "lock_ok m (tasks(r \<mapsto> t'))"
  using assms unfolding lock_ok_def by (auto; metis)

lemma lock_ok_abort:
  assumes ok: "lock_ok m tasks" and r: "tasks r = Some t" "\<not> holding t"
  shows "lock_ok (lo_abort ops r (lock_of t) m) (tasks(r := None))"
proof -
  let ?n = "lock_of t"
  note inv = lock_ok_inv [OF ok] and mem = lock_ok_mem [OF ok] and head = lock_ok_head [OF ok]
  have "r \<in> set (queue m ?n)" using mem r by blast
  then obtain h rest where q: "queue m ?n = h # rest" "h \<noteq> r" using head [OF r(1)] r(2) by (cases "queue m ?n") auto
  have q': "queue (lo_abort ops r ?n m) = (queue m)(?n := h # filter (\<lambda>x. x \<noteq> r) rest)" using abort_queue [OF inv q(1)] .
  have other: "k \<noteq> ?n \<Longrightarrow> r \<notin> set (queue m k)" for k using mem [of r k] r by auto
  have d: "distinct (h # rest)" using lock_ok_distinct [OF ok, of ?n] q by simp
  show ?thesis
    unfolding lock_ok_def
  proof (intro conjI allI impI)
    show "inv (lo_abort ops r ?n m)" by (rule abort_inv [OF inv])
    show "distinct (queue (lo_abort ops r ?n m) k)" for k using lock_ok_distinct [OF ok, of k] d by (simp add: q')
    show "x \<in> set (queue (lo_abort ops r ?n m) k) \<longleftrightarrow> (\<exists>u. (tasks(r := None)) x = Some u \<and> lock_of u = k)" for k x
      using mem [of x k] other [of k] q r by (cases "k = ?n") (auto simp: q')
    show "holding u \<longleftrightarrow> hd (queue (lo_abort ops r ?n m) (lock_of u)) = x" if "(tasks(r := None)) x = Some u" for x u
      using head [of x u] that q by (auto simp: q' split: if_splits)
  qed
qed

text \<open>What a request read of the reserved indices is still there when it writes, and every index answered is reserved.\<close>

definition index_ok :: "'m tabs \<Rightarrow> bool" where
  "index_ok s \<longleftrightarrow> distinct (tb_given s)
     \<and> (\<forall>w i. (w, i) \<in> set (tb_given s) \<longrightarrow> i \<in> set (readReserved (tb_storage s w)))
     \<and> (\<forall>r w us rs. tb_tasks s r = Some (IndexRead w us rs) \<longrightarrow> rs = readReserved (tb_storage s w))
     \<and> (\<forall>r w i rs. tb_tasks s r = Some (FreeRead w i rs) \<longrightarrow> rs = readReserved (tb_storage s w))"

definition tabs_ok :: "'m tabs \<Rightarrow> bool" where
  "tabs_ok s \<longleftrightarrow> lock_ok (tb_locks s) (tb_tasks s) \<and> index_ok s"

lemma index_ok_tasks:
  assumes "index_ok s" "tb_given s' = tb_given s" "tb_storage s' = tb_storage s"
    and "\<And>x t. tb_tasks s' x = Some t \<Longrightarrow> (\<exists>w us. t = IndexRead w us (readReserved (tb_storage s w))) \<or> (\<exists>w i. t = FreeRead w i (readReserved (tb_storage s w)))
      \<or> tb_tasks s x = Some t \<or> (\<forall>w us rs i. t \<noteq> IndexRead w us rs \<and> t \<noteq> FreeRead w i rs)"
  shows "index_ok s'"
  unfolding index_ok_def assms(2, 3)
proof (intro conjI allI impI)
  fix r w us rs assume "tb_tasks s' r = Some (IndexRead w us rs)"
  from assms(4) [OF this] show "rs = readReserved (tb_storage s w)" using assms(1) by (auto simp: index_ok_def)
next
  fix r w i rs assume "tb_tasks s' r = Some (FreeRead w i rs)"
  from assms(4) [OF this] show "rs = readReserved (tb_storage s w)" using assms(1) by (auto simp: index_ok_def)
qed (use assms(1) in \<open>auto simp: index_ok_def\<close>)

lemma index_ok_task:
  assumes "index_ok s" "\<And>w us rs. x = Some (IndexRead w us rs) \<Longrightarrow> rs = readReserved (tb_storage s w)"
    and "\<And>w i rs. x = Some (FreeRead w i rs) \<Longrightarrow> rs = readReserved (tb_storage s w)"
  shows "index_ok (s\<lparr>tb_locks := m, tb_tasks := (tb_tasks s)(r := x)\<rparr>)" "index_ok (s\<lparr>tb_tasks := (tb_tasks s)(r := x)\<rparr>)"
  by (rule index_ok_tasks [OF assms(1)]; use assms(2, 3) in \<open>auto split: if_splits\<close>)+

lemma finish_fields [simp]: "tb_given (finish ops r n s) = tb_given s" "tb_storage (finish ops r n s) = tb_storage s"
  by (simp_all add: finish_def Let_def split: prod.split)

lemma finish_tasks:
  "tb_tasks (finish ops r n s) x = Some t \<Longrightarrow> x \<noteq> r \<and> (\<exists>u. tb_tasks s x = Some u \<and> (t = u \<or> t = wake u))"
  by (auto simp: finish_def Let_def split: prod.splits option.splits if_splits)

lemma wake_reads: "wake u = IndexRead w us rs \<longleftrightarrow> u = IndexRead w us rs" "wake u = FreeRead w i rs \<longleftrightarrow> u = FreeRead w i rs"
  by (cases u; auto)+

lemma index_ok_finish:
  assumes ok: "index_ok s" and wr: "tb_storage s' = (tb_storage s)(w \<mapsto> writeReserved js)" "tb_tasks s' = tb_tasks s"
    and given: "distinct (tb_given s')" "\<And>v i. (v, i) \<in> set (tb_given s') \<Longrightarrow> (v, i) \<in> set (tb_given s) \<and> v \<noteq> w \<or> v = w \<and> i \<in> set js"
    and alone: "\<And>x t. tb_tasks s x = Some t \<Longrightarrow> holding t \<Longrightarrow> lock_of t = indexLockName w \<Longrightarrow> x = r"
  shows "index_ok (finish ops r (indexLockName w) s')"
  unfolding index_ok_def finish_fields
proof (intro conjI allI impI)
  show "distinct (tb_given s')" by (rule given)
  show "i \<in> set (readReserved (tb_storage s' v))" if "(v, i) \<in> set (tb_given s')" for v i
    using given(2) [OF that] ok by (auto simp: wr readReserved_write index_ok_def)
next
  fix x v us rs assume "tb_tasks (finish ops r (indexLockName w) s') x = Some (IndexRead v us rs)"
  then have x: "x \<noteq> r" "tb_tasks s x = Some (IndexRead v us rs)" using finish_tasks wake_reads by (metis wr(2))+
  then have "v \<noteq> w" using alone by fastforce
  with x ok show "rs = readReserved (tb_storage s' v)" by (auto simp: wr index_ok_def)
next
  fix x v i rs assume "tb_tasks (finish ops r (indexLockName w) s') x = Some (FreeRead v i rs)"
  then have x: "x \<noteq> r" "tb_tasks s x = Some (FreeRead v i rs)" using finish_tasks wake_reads by (metis wr(2))+
  then have "v \<noteq> w" using alone by fastforce
  with x ok show "rs = readReserved (tb_storage s' v)" by (auto simp: wr index_ok_def)
qed

lemma index_ok_release: "index_ok s \<Longrightarrow> index_ok (finish ops r n s)"
proof (rule index_ok_tasks)
  fix x t assume "tb_tasks (finish ops r n s) x = Some t"
  then obtain u where "tb_tasks s x = Some u" "t = u \<or> t = wake u" using finish_tasks by blast
  then show "(\<exists>w us. t = IndexRead w us (readReserved (tb_storage s w))) \<or> (\<exists>w i. t = FreeRead w i (readReserved (tb_storage s w)))
      \<or> tb_tasks s x = Some t \<or> (\<forall>w us rs i. t \<noteq> IndexRead w us rs \<and> t \<noteq> FreeRead w i rs)"
    by (cases u) auto
qed simp_all

lemma tabs_ok_step:
  assumes "tab_step ops s s'" "tabs_ok s"
  shows "tabs_ok s'"
proof -
  have lock: "lock_ok (tb_locks s) (tb_tasks s)" and idx: "index_ok s" using assms(2) by (simp_all add: tabs_ok_def)
  have alone: "x = r" if "tb_tasks s r = Some t" "holding t" "tb_tasks s x = Some u" "holding u" "lock_of u = lock_of t" for r t x u
    using lock_ok_exclusive [OF lock that(3, 1, 4, 2, 5)] .
  from assms(1) show ?thesis
  proof cases
    case (TxStart r a m)
    then show ?thesis
      using lock_ok_hold [OF lock TxStart(2, 3), of "TxRun a"] index_ok_task(1) [OF idx, of "Some (TxRun a)" r m] by (simp add: tabs_ok_def)
  next
    case (TxBusy r a m)
    have "queue (fst (lo_hold ops r (txLockName a) True (tb_locks s))) = queue (tb_locks s)"
      using hold_queue [OF lock_ok_inv [OF lock], of r "txLockName a" True] hold_answer [OF lock_ok_inv [OF lock], of r "txLockName a" True] TxBusy(3)
      by (auto split: if_splits)
    then have "lock_ok m (tb_tasks s)" using lock hold_inv [OF lock_ok_inv [OF lock], of r "txLockName a" True] TxBusy(3) by (simp add: lock_ok_def)
    moreover have "index_ok (s\<lparr>tb_locks := m\<rparr>)" using idx by (simp add: index_ok_def)
    ultimately show ?thesis by (simp add: tabs_ok_def TxBusy(1))
  next
    case (TxEnd r a)
    then show ?thesis using lock_ok_finish [OF lock TxEnd(2)] index_ok_release [OF idx] by (simp add: tabs_ok_def)
  next
    case (Reserve r w m ans us)
    have "ans \<noteq> Refused" using hold_answer [OF lock_ok_inv [OF lock], of r "indexLockName w" False] Reserve(3) by (auto split: if_splits)
    then show ?thesis
      using lock_ok_hold [OF lock Reserve(2, 3), of "if ans = Granted then IndexHeld w us else IndexWait w us"]
        index_ok_task(1) [OF idx, of "Some (if ans = Granted then IndexHeld w us else IndexWait w us)" r m] Reserve(1)
      by (simp add: tabs_ok_def split: if_splits)
  next
    case (ReserveRead r w us)
    let ?t = "IndexRead w us (readReserved (tb_storage s w))"
    have "lock_ok (tb_locks s) ((tb_tasks s)(r \<mapsto> ?t))" by (rule lock_ok_retask [OF lock ReserveRead(2)]) simp_all
    moreover have "index_ok (s\<lparr>tb_tasks := (tb_tasks s)(r \<mapsto> ?t)\<rparr>)" by (rule index_ok_task(2) [OF idx]) simp_all
    ultimately show ?thesis unfolding ReserveRead(1) tabs_ok_def by simp
  next
    case (ReserveWrite r w us rs i)
    let ?s = "s\<lparr>tb_storage := (tb_storage s)(w \<mapsto> writeReserved (rs @ [i])), tb_given := tb_given s @ [(w, i)]\<rparr>"
    have rs: "rs = readReserved (tb_storage s w)" using idx ReserveWrite(2) by (auto simp: index_ok_def)
    have "i \<notin> set rs" using nextPositionIndex_fresh [of i "us @ rs"] ReserveWrite(3) by force
    then have new: "(w, i) \<notin> set (tb_given s)" using idx rs by (auto simp: index_ok_def)
    have "index_ok (finish ops r (indexLockName w) ?s)"
    proof (rule index_ok_finish [OF idx])
      show "distinct (tb_given ?s)" using idx new by (simp add: index_ok_def)
      show "(v, j) \<in> set (tb_given ?s) \<Longrightarrow> (v, j) \<in> set (tb_given s) \<and> v \<noteq> w \<or> v = w \<and> j \<in> set (rs @ [i])" for v j
        using idx rs by (auto simp: index_ok_def)
      show "tb_tasks s x = Some t \<Longrightarrow> holding t \<Longrightarrow> lock_of t = indexLockName w \<Longrightarrow> x = r" for x t
        using alone [OF ReserveWrite(2)] by simp
    qed simp_all
    then show ?thesis using lock_ok_finish [of ?s r "IndexRead w us rs"] lock ReserveWrite by (simp add: tabs_ok_def)
  next
    case (Free r w m ans i)
    have "ans \<noteq> Refused" using hold_answer [OF lock_ok_inv [OF lock], of r "indexLockName w" False] Free(3) by (auto split: if_splits)
    then show ?thesis
      using lock_ok_hold [OF lock Free(2, 3), of "if ans = Granted then FreeHeld w i else FreeWait w i"]
        index_ok_task(1) [OF idx, of "Some (if ans = Granted then FreeHeld w i else FreeWait w i)" r m] Free(1)
      by (simp add: tabs_ok_def split: if_splits)
  next
    case (FreeReadStep r w i)
    let ?t = "FreeRead w i (readReserved (tb_storage s w))"
    have "lock_ok (tb_locks s) ((tb_tasks s)(r \<mapsto> ?t))" by (rule lock_ok_retask [OF lock FreeReadStep(2)]) simp_all
    moreover have "index_ok (s\<lparr>tb_tasks := (tb_tasks s)(r \<mapsto> ?t)\<rparr>)" by (rule index_ok_task(2) [OF idx]) simp_all
    ultimately show ?thesis unfolding FreeReadStep(1) tabs_ok_def by simp
  next
    case (FreeWrite r w i rs)
    let ?s = "s\<lparr>tb_storage := (tb_storage s)(w \<mapsto> writeReserved (filter (\<lambda>x. x \<noteq> i) rs)), tb_given := filter (\<lambda>g. g \<noteq> (w, i)) (tb_given s)\<rparr>"
    have rs: "rs = readReserved (tb_storage s w)" using idx FreeWrite(2) by (auto simp: index_ok_def)
    have "index_ok (finish ops r (indexLockName w) ?s)"
    proof (rule index_ok_finish [OF idx])
      show "distinct (tb_given ?s)" using idx by (simp add: index_ok_def)
      show "(v, j) \<in> set (tb_given ?s) \<Longrightarrow> (v, j) \<in> set (tb_given s) \<and> v \<noteq> w \<or> v = w \<and> j \<in> set (filter (\<lambda>x. x \<noteq> i) rs)" for v j
        using idx rs by (auto simp: index_ok_def)
      show "tb_tasks s x = Some t \<Longrightarrow> holding t \<Longrightarrow> lock_of t = indexLockName w \<Longrightarrow> x = r" for x t
        using alone [OF FreeWrite(2)] by simp
    qed simp_all
    then show ?thesis using lock_ok_finish [of ?s r "FreeRead w i rs"] lock FreeWrite by (simp add: tabs_ok_def)
  next
    case (CloseHolder r t)
    then show ?thesis using lock_ok_finish [OF lock CloseHolder(2, 3)] index_ok_release [OF idx] by (simp add: tabs_ok_def)
  next
    case (CloseWaiter r t)
    then show ?thesis using lock_ok_abort [OF lock CloseWaiter(2, 3)] index_ok_task(1) [OF idx, of None r] by (simp add: tabs_ok_def)
  qed
qed

lemma tabs_reach_ok: "tabs_reach ops s s' \<Longrightarrow> tabs_ok s \<Longrightarrow> tabs_ok s'"
  by (induction rule: tabs_reach.induct) (auto intro: tabs_ok_step)

lemma idle_ok: "inv m \<Longrightarrow> (\<And>n. queue m n = []) \<Longrightarrow> tabs_ok (idle_tabs m storage)"
  by (simp add: tabs_ok_def lock_ok_def index_ok_def idle_tabs_def)

text \<open>The laws a client of the locks relies on.\<close>

lemma tabs_exclusive:
  "tabs_ok s \<Longrightarrow> tb_tasks s r = Some t \<Longrightarrow> tb_tasks s r' = Some t' \<Longrightarrow> holding t \<Longrightarrow> holding t' \<Longrightarrow> lock_of t = lock_of t' \<Longrightarrow> r = r'"
  using lock_ok_exclusive by (auto simp: tabs_ok_def)

lemma tabs_indices: "tabs_ok s \<Longrightarrow> distinct (tb_given s)"
  by (simp add: tabs_ok_def index_ok_def)

lemma waiter_has_holder:
  assumes "tabs_ok s" "tb_tasks s r = Some t" "\<not> holding t"
  shows "\<exists>x u. tb_tasks s x = Some u \<and> holding u \<and> lock_of u = lock_of t"
proof -
  have ok: "lock_ok (tb_locks s) (tb_tasks s)" using assms(1) by (simp add: tabs_ok_def)
  have "r \<in> set (queue (tb_locks s) (lock_of t))" using lock_ok_mem [OF ok] assms(2) by blast
  then obtain x where x: "x \<in> set (queue (tb_locks s) (lock_of t))" "hd (queue (tb_locks s) (lock_of t)) = x"
    by (cases "queue (tb_locks s) (lock_of t)") auto
  then obtain u where "tb_tasks s x = Some u" "lock_of u = lock_of t" using lock_ok_mem [OF ok] by blast
  with x lock_ok_head [OF ok, of x u] show ?thesis by auto
qed

end

section \<open>The two managers\<close>

definition web_ops :: "web_locks lock_ops" where
  "web_ops = \<lparr>lo_hold = web_hold, lo_release = web_release, lo_abort = web_abort\<rparr>"

definition local_ops :: "local_locks lock_ops" where
  "local_ops = \<lparr>lo_hold = hold_local, lo_release = release_local, lo_abort = abort_local\<rparr>"

interpretation web: lock_manager web_ops "\<lambda>q. q" "\<lambda>_. True"
  by unfold_locales (auto simp: web_ops_def web_hold_def web_release_def web_abort_def split: list.splits)

text \<open>One equation per operation: the fallback does to its queues what Web Locks do.\<close>

lemma local_hold_queue: "local_ok s \<Longrightarrow> web_hold r n av (local_queue s) = (local_queue (fst (hold_local r n av s)), snd (hold_local r n av s))"
  by (cases "ll_held s n") (auto simp: web_hold_def hold_local_def local_queue_def local_ok_def fun_eq_iff split: option.splits)

lemma local_release_queue:
  "local_ok s \<Longrightarrow> local_queue s n \<noteq> [] \<Longrightarrow> web_release n (local_queue s) = (local_queue (fst (release_local n s)), snd (release_local n s))"
  by (cases "ll_waiters s n") (auto simp: web_release_def release_local_def local_queue_def local_ok_def fun_eq_iff Let_def split: option.splits)

lemma local_abort_queue: "local_ok s \<Longrightarrow> web_abort r n (local_queue s) = local_queue (abort_local r n s)"
  by (cases "ll_held s n") (auto simp: web_abort_def abort_local_def local_queue_def local_ok_def fun_eq_iff split: option.splits)

lemma local_ok_ops:
  "local_ok s \<Longrightarrow> local_ok (fst (hold_local r n av s))" "local_ok s \<Longrightarrow> local_ok (fst (release_local n s))" "local_ok s \<Longrightarrow> local_ok (abort_local r n s)"
  by (auto simp: local_ok_def hold_local_def release_local_def abort_local_def Let_def split: list.splits)

interpretation fallback: lock_manager local_ops local_queue local_ok
proof
  fix m r n av h t
  assume ok: "local_ok m"
  note hold = local_hold_queue [OF ok, of r n av]
  show "local_ok (fst (lo_hold local_ops r n av m))" "local_ok (lo_abort local_ops r n m)" using local_ok_ops ok by (simp_all add: local_ops_def)
  show "local_queue (fst (lo_hold local_ops r n av m)) = (if local_queue m n = [] then (local_queue m)(n := [r])
      else if av then local_queue m else (local_queue m)(n := local_queue m n @ [r]))"
    using hold by (auto simp: local_ops_def web_hold_def split: if_splits)
  show "snd (lo_hold local_ops r n av m) = (if local_queue m n = [] then Granted else if av then Refused else Queued)"
    using hold by (auto simp: local_ops_def web_hold_def split: if_splits)
  show "local_queue (lo_abort local_ops r n m) = (local_queue m)(n := h # filter (\<lambda>x. x \<noteq> r) t)" if "local_queue m n = h # t"
    using local_abort_queue [OF ok, of r n] that by (simp add: local_ops_def web_abort_def)
  assume ne: "local_queue m n \<noteq> []"
  note rel = local_release_queue [OF ok ne]
  show "local_ok (fst (lo_release local_ops n m))" using local_ok_ops ok by (simp add: local_ops_def)
  show "local_queue (fst (lo_release local_ops n m)) = (local_queue m)(n := tl (local_queue m n))"
    using rel by (simp add: local_ops_def web_release_def)
  show "snd (lo_release local_ops n m) = (case tl (local_queue m n) of [] \<Rightarrow> None | r # _ \<Rightarrow> Some r)"
    using rel by (simp add: local_ops_def web_release_def)
qed

section \<open>Properties\<close>

text \<open>C23. Across any number of tabs and whatever closes when, an account has at most one transaction running, no two
  reservations answer the same position index unless it was freed in between, and a request only waits while another
  one holds its lock.\<close>

theorem tabs_exclude:
  assumes "tabs_reach web_ops (idle_tabs (\<lambda>_. []) storage) s"
  shows "(tb_tasks s r = Some (TxRun a) \<and> tb_tasks s r' = Some (TxRun a) \<longrightarrow> r = r')
    \<and> distinct (tb_given s)
    \<and> (tb_tasks s r = Some t \<and> \<not> holding t \<longrightarrow> (\<exists>x u. tb_tasks s x = Some u \<and> holding u \<and> lock_of u = lock_of t))"
proof -
  have ok: "web.tabs_ok s" by (rule web.tabs_reach_ok [OF assms web.idle_ok]) simp_all
  show ?thesis using web.tabs_exclusive [OF ok] web.tabs_indices [OF ok] web.waiter_has_holder [OF ok] by fastforce
qed

text \<open>Two tabs reserve for the same owner; the second waits for the first and answers the next index.\<close>

lemma demo_tabs:
  "\<exists>s. tabs_reach web_ops (idle_tabs (\<lambda>_. []) (\<lambda>_. None)) s \<and> tb_tasks s 1 = Some (IndexHeld ''o'' [0]) \<and> tb_given s = [(''o'', 3)]"
proof -
  let ?n = "indexLockName ''o''"
  define s0 :: "web_locks tabs" where "s0 = idle_tabs (\<lambda>_. []) (\<lambda>_. None :: string option)"
  define s1 where "s1 = s0\<lparr>tb_locks := (\<lambda>_. [])(?n := [0]), tb_tasks := (\<lambda>_. None)(0 \<mapsto> IndexHeld ''o'' [2])\<rparr>"
  define s2 where "s2 = s1\<lparr>tb_locks := (\<lambda>_. [])(?n := [0, 1]), tb_tasks := (tb_tasks s1)(1 \<mapsto> IndexWait ''o'' [0])\<rparr>"
  define s3 where "s3 = s2\<lparr>tb_tasks := (tb_tasks s2)(0 \<mapsto> IndexRead ''o'' [2] (readReserved (tb_storage s2 ''o'')))\<rparr>"
  have 1: "tab_step web_ops s0 s1"
    using Reserve [of s0 0 web_ops "''o''" _ Granted "[2]"] by (simp add: s1_def s0_def idle_tabs_def web_ops_def web_hold_def)
  have 2: "tab_step web_ops s1 s2"
    using Reserve [of s1 1 web_ops "''o''" _ Queued "[0]"] by (simp add: s2_def s1_def s0_def idle_tabs_def web_ops_def web_hold_def)
  have 3: "tab_step web_ops s2 s3" unfolding s3_def by (rule ReserveRead) (simp add: s2_def s1_def)
  have t3: "tb_tasks s3 0 = Some (IndexRead ''o'' [2] [])" by (simp add: s3_def s2_def s1_def s0_def idle_tabs_def readReserved_def)
  note 4 = ReserveWrite [OF t3 refl, of web_ops]
  have "tabs_reach web_ops s0 s3" using tabs_reach.intros 1 2 3 by metis
  from tabs_reach.Step [OF this 4] show ?thesis
    unfolding s0_def [symmetric]
    by (rule_tac exI, intro conjI, assumption)
      (simp_all add: finish_def s3_def s2_def s1_def s0_def idle_tabs_def web_ops_def web_release_def nextPositionIndex_def)
qed

theorem tabs_exclude_witness:
  "\<exists>s. tabs_reach web_ops (idle_tabs (\<lambda>_. []) (\<lambda>_. None)) s \<and> tb_given s = [(''o'', 3)] \<and> distinct (tb_given s)"
  using demo_tabs tabs_exclude by blast

text \<open>C24. Where Web Locks are missing, the per-tab lock behaves like them within the tab: seen through its queues, every
  request, release and abort answers and leaves what Web Locks would, and the invariant that nobody waits for a free
  lock stays.\<close>

theorem fallback_refines_web_locks:
  assumes "local_ok s" "local_queue s held \<noteq> []"
  shows "web_hold r n av (local_queue s) = (local_queue (fst (hold_local r n av s)), snd (hold_local r n av s))
    \<and> web_release held (local_queue s) = (local_queue (fst (release_local held s)), snd (release_local held s))
    \<and> web_abort r n (local_queue s) = local_queue (abort_local r n s)
    \<and> local_ok (fst (hold_local r n av s)) \<and> local_ok (fst (release_local held s)) \<and> local_ok (abort_local r n s)"
  using assms by (simp add: local_hold_queue local_release_queue local_abort_queue local_ok_ops)

theorem fallback_refines_web_locks_witness:
  "web_release ''a'' (local_queue \<lparr>ll_held = [''a'' \<mapsto> 1], ll_waiters = (\<lambda>_. [])(''a'' := [2, 3])\<rparr>)
    = (local_queue \<lparr>ll_held = [''a'' \<mapsto> 2], ll_waiters = (\<lambda>_. [])(''a'' := [3])\<rparr>, Some 2)"
proof -
  let ?s = "\<lparr>ll_held = [''a'' \<mapsto> 1], ll_waiters = (\<lambda>_. [])(''a'' := [2, 3])\<rparr>"
  have "local_ok ?s \<and> local_queue ?s ''a'' \<noteq> []" by (simp add: local_ok_def local_queue_def)
  moreover have "release_local ''a'' ?s = (\<lparr>ll_held = [''a'' \<mapsto> 2], ll_waiters = (\<lambda>_. [])(''a'' := [3])\<rparr>, Some 2)"
    by (simp add: release_local_def Let_def)
  ultimately show ?thesis using fallback_refines_web_locks [of ?s "''a''" 0 "''b''" True] by simp
qed

end
