(* ===== verification/AppLock.thy ===== *)
theory AppLock
  imports Complex_Main LockScript ProtocolKey BtcTx
begin

text \<open>
  The app's side of the lock, \<^verbatim>\<open>frontend/app/src/lib/bitcoin\<close>: the deposit address and the final witness of a release
  (\<^verbatim>\<open>address.ts\<close>), the timelock a deposit is made under and its recovery from the transaction alone
  (\<^verbatim>\<open>timelock.ts\<close>), and the text the deposit's key signs (\<^verbatim>\<open>keyProof.ts\<close>). \<^verbatim>\<open>bitcoinjs-lib\<close> is the parameter
  \<^typ>\<open>script_lib\<close> of \<^verbatim>\<open>LockScript\<close>; the outputs of a transaction are what its parser returns.
\<close>

section \<open>The address\<close>

definition app_buildRedeemScript :: "script_lib \<Rightarrow> buffer \<Rightarrow> buffer \<Rightarrow> int \<Rightarrow> lock_error + buffer" where
  "app_buildRedeemScript lib protocolPubkey userPubkey timelockHeight =
     (if length protocolPubkey \<noteq> 33 then Inl ProtocolPubkeyLength
      else if length userPubkey \<noteq> 33 then Inl UserPubkeyLength
      else if timelockHeight < 100000 then Inl TimelockTooLow
      else Inr (compile lib
        [Op OP_IF, Push protocolPubkey, Op OP_CHECKSIGVERIFY, Push userPubkey, Op OP_CHECKSIG,
         Op OP_ELSE, Push (number_encode lib timelockHeight), Op OP_CLTV, Op OP_DROP, Push userPubkey, Op OP_CHECKSIG,
         Op OP_ENDIF]))"

record p2wsh_address =
  pw_address :: string
  pw_scriptPubKey :: buffer
  pw_redeemScript :: buffer

definition deriveP2WSH :: "script_lib \<Rightarrow> string \<Rightarrow> string \<Rightarrow> int \<Rightarrow> lock_error + p2wsh_address" where
  "deriveP2WSH lib protocolPubkeyHex userPubkeyHex timelockHeight =
     res_bind (app_buildRedeemScript lib (bytes_of_hex protocolPubkeyHex) (bytes_of_hex userPubkeyHex) timelockHeight) (\<lambda>redeemScript.
     case p2wsh lib redeemScript of
       (Some addr, Some output) \<Rightarrow>
         if addr = [] then Inl NoAddress
         else Inr \<lparr>pw_address = addr, pw_scriptPubKey = output, pw_redeemScript = redeemScript\<rparr>
     | _ \<Rightarrow> Inl NoAddress)"

text \<open>
  The witness of a co-signed release: the protocol's signatures first, then the user's, each found by its key.
\<close>

definition find_sig :: "(buffer \<times> buffer) list \<Rightarrow> buffer \<Rightarrow> buffer option" where
  "find_sig sigs key = map_option snd (find (\<lambda>ps. fst ps = key) sigs)"

definition app_finalizePathA ::
    "(buffer \<times> buffer) list \<Rightarrow> buffer option \<Rightarrow> (buffer \<times> buffer) list \<Rightarrow> string \<Rightarrow> string \<Rightarrow> lock_error + buffer list" where
  "app_finalizePathA protocolSigs witnessScript userSigs protocolPubkeyHex userPubkeyHex =
     (let merged = protocolSigs @ userSigs in
      case find_sig merged (bytes_of_hex protocolPubkeyHex) of None \<Rightarrow> Inl NoProtocolSig | Some ps \<Rightarrow>
      (case find_sig merged (bytes_of_hex userPubkeyHex) of None \<Rightarrow> Inl NoUserSig | Some us \<Rightarrow>
      (case witnessScript of None \<Rightarrow> Inl NoWitnessScript | Some script \<Rightarrow> Inr [us, ps, [0x01], script])))"

definition app_serializeWitness :: "buffer list \<Rightarrow> lock_error + buffer" where
  "app_serializeWitness items = res_bind (encodeVarInt16 (length items)) (\<lambda>n.
     res_bind (res_map (\<lambda>i. res_bind (encodeVarInt16 (length i)) (\<lambda>l. Inr (l @ i))) items) (\<lambda>parts. Inr (n @ concat parts)))"

section \<open>The fee of a release\<close>

text \<open>
  The estimate for three blocks, else for six; \<^const>\<open>None\<close> is an answer that cannot be read. A rate is a positive
  rational number of satoshis per virtual byte.
\<close>

definition estimateReleaseFee :: "(string \<Rightarrow> rat option) option \<Rightarrow> int" where
  "estimateReleaseFee answer =
     (case answer of
        None \<Rightarrow> 300
      | Some estimates \<Rightarrow>
          let rate = (case estimates ''3'' of Some r \<Rightarrow> r | None \<Rightarrow> (case estimates ''6'' of Some r \<Rightarrow> r | None \<Rightarrow> 2));
              capped = min rate 2
          in max (ceiling (capped * 150)) 300)"

section \<open>The timelock\<close>

definition TIMELOCK_TARGET_MARGIN :: int where "TIMELOCK_TARGET_MARGIN = 52560"
definition TIMELOCK_STEP :: int where "TIMELOCK_STEP = 1000"
definition MAX_TIMELOCK_MARGIN :: int where "MAX_TIMELOCK_MARGIN = 105000"

definition chooseDepositTimelock :: "int \<Rightarrow> int" where
  "chooseDepositTimelock tipHeight = - (- (tipHeight + TIMELOCK_TARGET_MARGIN) div TIMELOCK_STEP) * TIMELOCK_STEP"

function heights_down :: "int \<Rightarrow> int \<Rightarrow> int list" where
  "heights_down h oldest = (if h \<ge> oldest then h # heights_down (h - TIMELOCK_STEP) oldest else [])"
  by auto
termination by (relation "measure (\<lambda>(h, oldest). nat (h - oldest + 1))") (auto simp: TIMELOCK_STEP_def)

declare heights_down.simps [simp del]

definition timelock_candidates :: "int \<Rightarrow> int option \<Rightarrow> int list" where
  "timelock_candidates tipHeight hintTimelock =
     (let hint = (case hintTimelock of Some h \<Rightarrow> if h \<noteq> 0 then [h] else [] | None \<Rightarrow> []);
          newest = chooseDepositTimelock tipHeight;
          oldest = chooseDepositTimelock (max 0 (tipHeight - MAX_TIMELOCK_MARGIN))
      in hint @ filter (\<lambda>h. Some h \<noteq> hintTimelock) (heights_down newest oldest))"

record deposit_output =
  do_timelockHeight :: int
  do_vout :: nat
  do_valueSats :: int

text \<open>\<^verbatim>\<open>findIndex\<close> of an array.\<close>

definition findIndex :: "('a \<Rightarrow> bool) \<Rightarrow> 'a list \<Rightarrow> nat option" where
  "findIndex p xs = find (\<lambda>i. p (xs ! i)) [0..<length xs]"

fun try_candidates :: "script_lib \<Rightarrow> string \<Rightarrow> string \<Rightarrow> tx_out list \<Rightarrow> int list \<Rightarrow> lock_error + deposit_output option" where
  "try_candidates lib p u outs [] = Inr None"
| "try_candidates lib p u outs (h # hs) =
     res_bind (deriveP2WSH lib p u h) (\<lambda>lock.
     case findIndex (\<lambda>x. scriptPubKey x = pw_scriptPubKey lock) outs of
       Some i \<Rightarrow> Inr (Some \<lparr>do_timelockHeight = h, do_vout = i, do_valueSats = int (value_sat (outs ! i))\<rparr>)
     | None \<Rightarrow> try_candidates lib p u outs hs)"

definition findDepositOutput :: "script_lib \<Rightarrow> string \<Rightarrow> string \<Rightarrow> tx_out list \<Rightarrow> int \<Rightarrow> int option \<Rightarrow> lock_error + deposit_output option" where
  "findDepositOutput lib protocolPubkeyHex userPubkeyHex outs tipHeight hintTimelock =
     try_candidates lib protocolPubkeyHex userPubkeyHex outs (timelock_candidates tipHeight hintTimelock)"

section \<open>The proof of the deposit key\<close>

definition depositKeyMessage :: "string \<Rightarrow> string \<Rightarrow> string \<Rightarrow> string" where
  "depositKeyMessage contractId depositor txidDisplayHex =
     ''Writz deposit'' @ [CHR 0x0A] @ ''contract:'' @ contractId @ [CHR 0x0A] @ ''depositor:'' @ depositor @ [CHR 0x0A]
       @ ''txid:'' @ toLowerCase txidDisplayHex"

text \<open>\<^const>\<open>None\<close> where \<^verbatim>\<open>writeUInt16LE\<close> raises.\<close>

definition key_varint :: "nat \<Rightarrow> buffer option" where
  "key_varint n = (if n < 0xfd then Some [word_of_nat n] else if n \<le> 0xffff then Some (0xfd # le_bytes 2 n) else None)"

definition signedMessageFrame :: "string \<Rightarrow> buffer option" where
  "signedMessageFrame message =
     (case (key_varint (length MAGIC), key_varint (length (utf8 message))) of
        (Some a, Some b) \<Rightarrow> Some (a @ utf8 MAGIC @ b @ utf8 message)
      | _ \<Rightarrow> None)"

datatype key_proof_error = NotEcdsa | UncompressedKey

definition parseMessageSignature :: "(string \<Rightarrow> buffer) \<Rightarrow> string \<Rightarrow> key_proof_error + buffer" where
  "parseMessageSignature base64 text =
     (let sig = base64 text in
      if length sig \<noteq> 65 then Inl NotEcdsa
      else if unat (sig ! 0) < 31 \<or> unat (sig ! 0) > 42 then Inl UncompressedKey
      else Inr sig)"

section \<open>Lemmas\<close>

lemma frame_agrees: "signedMessageFrame m = Some f \<Longrightarrow> f = message_frame m"
proof -
  have "key_varint n = Some b \<Longrightarrow> b = message_varint n" for n b
    by (auto simp: key_varint_def message_varint_def split: if_splits)
  moreover have "length (utf8 MAGIC) = length MAGIC" by (simp add: utf8_def utf8_char_def MAGIC_def code_def)
  ultimately show "signedMessageFrame m = Some f \<Longrightarrow> f = message_frame m"
    by (auto simp: signedMessageFrame_def message_frame_def split: option.splits)
qed

text \<open>What the app lets through the contract's own parser accepts.\<close>

lemma parsed_recovers:
  "parseMessageSignature (fromBase64 lib) text = Inr sig \<Longrightarrow>
    recoverBitcoinMessagePubkey lib m (SigBytes sig) = recover lib (bitcoinMessageHash lib m) (drop 1 sig) ((unat (sig ! 0) - 27) mod 4)"
  by (auto simp: parseMessageSignature_def recoverBitcoinMessagePubkey_def Let_def split: if_splits)

lemma estimateReleaseFee_300: "estimateReleaseFee answer = 300"
proof (cases answer)
  case (Some f)
  have "ceiling (min r 2 * 150) \<le> (300 :: int)" for r :: rat by (simp add: ceiling_le_iff min_def)
  then show ?thesis by (simp add: estimateReleaseFee_def Some Let_def max_def)
qed (simp add: estimateReleaseFee_def)

lemma choose_bounds:
  "tip + TIMELOCK_TARGET_MARGIN \<le> chooseDepositTimelock tip"
  "chooseDepositTimelock tip < tip + TIMELOCK_TARGET_MARGIN + TIMELOCK_STEP"
  by (simp_all add: chooseDepositTimelock_def TIMELOCK_STEP_def)

text \<open>The chosen height stays within the contract's bounds for a confirmation up to 51,552 blocks later.\<close>

lemma timelock_in_bounds:
  assumes "tip \<le> confirmed" "confirmed \<le> tip + 51552"
  shows "confirmed + 1008 \<le> chooseDepositTimelock tip" "chooseDepositTimelock tip \<le> confirmed + MAX_TIMELOCK_MARGIN"
  using assms choose_bounds [of tip] by (simp_all add: TIMELOCK_TARGET_MARGIN_def TIMELOCK_STEP_def MAX_TIMELOCK_MARGIN_def)

lemma choose_mono: "t \<le> t' \<Longrightarrow> chooseDepositTimelock t \<le> chooseDepositTimelock t'"
  by (simp add: chooseDepositTimelock_def TIMELOCK_STEP_def zdiv_mono1)

lemma choose_step: "\<exists>k. chooseDepositTimelock t = k * TIMELOCK_STEP"
  by (simp add: chooseDepositTimelock_def) (metis mult_minus_left)

lemma heights_down_iff: "x \<in> set (heights_down h oldest) \<longleftrightarrow> oldest \<le> x \<and> x \<le> h \<and> TIMELOCK_STEP dvd (h - x)"
proof (induction h oldest rule: heights_down.induct)
  case (1 h oldest)
  have "x \<le> h - TIMELOCK_STEP \<or> x = h" if "x \<le> h" "TIMELOCK_STEP dvd (h - x)"
    using that zdvd_imp_le [of TIMELOCK_STEP "h - x"] by fastforce
  moreover have "TIMELOCK_STEP dvd (h - TIMELOCK_STEP - x) \<longleftrightarrow> TIMELOCK_STEP dvd (h - x)"
    by (metis diff_right_commute dvd_minus_iff minus_diff_eq dvd_diff_right_iff dvd_refl)
  moreover have "0 < TIMELOCK_STEP" by (simp add: TIMELOCK_STEP_def)
  ultimately show ?case
    using 1 by (subst heights_down.simps) (auto split: if_splits)
qed

lemma findIndex_Some: "findIndex p xs = Some i \<Longrightarrow> i < length xs \<and> p (xs ! i)"
  by (auto simp: findIndex_def find_Some_iff)

lemma findIndex_None: "findIndex p xs = None \<longleftrightarrow> (\<forall>x\<in>set xs. \<not> p x)"
  by (auto simp: findIndex_def find_None_iff set_conv_nth)

lemma serializeWitness_agrees: "app_serializeWitness items = serializeWitness items"
proof -
  have "serialize_items items = res_bind (res_map (\<lambda>i. res_bind (encodeVarInt16 (length i)) (\<lambda>l. Inr (l @ i))) items) (\<lambda>parts. Inr (concat parts))" for items
  proof (induction items)
    case (Cons i items)
    then show ?case
      by (cases "encodeVarInt16 (length i)"; cases "res_map (\<lambda>i. res_bind (encodeVarInt16 (length i)) (\<lambda>l. Inr (l @ i))) items") simp_all
  qed simp
  then show ?thesis
    by (cases "encodeVarInt16 (length items)"; cases "res_map (\<lambda>i. res_bind (encodeVarInt16 (length i)) (\<lambda>l. Inr (l @ i))) items")
      (simp_all add: app_serializeWitness_def serializeWitness_def)
qed

lemma deriveP2WSH_agrees:
  "deriveP2WSH lib p u h =
     (case deriveDepositAddress lib \<lparr>lp_protocol = bytes_of_hex p, lp_user = bytes_of_hex u, lp_timelock = h\<rparr> of
        Inl e \<Rightarrow> Inl e
      | Inr a \<Rightarrow> Inr \<lparr>pw_address = da_address a, pw_scriptPubKey = da_scriptPubKey a, pw_redeemScript = da_redeemScript a\<rparr>)"
proof -
  have "app_buildRedeemScript lib p u h = buildRedeemScript lib p u h" for p u
    by (simp add: app_buildRedeemScript_def buildRedeemScript_def redeem_items_def MIN_TIMELOCK_HEIGHT_def)
  then show ?thesis
    by (cases "buildRedeemScript lib (bytes_of_hex p) (bytes_of_hex u) h")
      (auto simp: deriveP2WSH_def deriveDepositAddress_def split: prod.split option.split)
qed

text \<open>The libraries' \<^verbatim>\<open>p2wsh\<close> gives every script an address and an output.\<close>

definition p2wsh_total :: "script_lib \<Rightarrow> bool" where
  "p2wsh_total lib \<longleftrightarrow> (\<forall>s. \<exists>a out. p2wsh lib s = (Some a, Some out) \<and> a \<noteq> [])"

lemma deriveP2WSH_total:
  assumes "p2wsh_total lib" "deriveP2WSH lib p u h = Inr lock" "100000 \<le> h'"
  shows "\<exists>lock'. deriveP2WSH lib p u h' = Inr lock'"
proof -
  have "length (bytes_of_hex p) = 33" "length (bytes_of_hex u) = 33"
    using assms(2) by (auto simp: deriveP2WSH_def app_buildRedeemScript_def split: if_splits)
  moreover obtain a out where "p2wsh lib (projr (app_buildRedeemScript lib (bytes_of_hex p) (bytes_of_hex u) h')) = (Some a, Some out)" "a \<noteq> []"
    using assms(1) unfolding p2wsh_total_def by blast
  ultimately show ?thesis using assms(3) by (simp add: deriveP2WSH_def app_buildRedeemScript_def)
qed

lemma try_candidates_found:
  assumes "\<And>h. h \<in> set hs1 \<Longrightarrow> \<exists>lock. deriveP2WSH lib p u h = Inr lock"
    and "deriveP2WSH lib p u t = Inr lock" "pw_scriptPubKey lock \<in> scriptPubKey ` set outs"
  shows "\<exists>r lock'. try_candidates lib p u outs (hs1 @ t # hs2) = Inr (Some r)
    \<and> deriveP2WSH lib p u (do_timelockHeight r) = Inr lock' \<and> do_vout r < length outs
    \<and> scriptPubKey (outs ! do_vout r) = pw_scriptPubKey lock' \<and> do_valueSats r = int (value_sat (outs ! do_vout r))"
  using assms(1)
proof (induction hs1)
  case Nil
  have "findIndex (\<lambda>x. scriptPubKey x = pw_scriptPubKey lock) outs \<noteq> None"
    using assms(3) by (auto simp: findIndex_None)
  then show ?case using assms(2) by (auto dest: findIndex_Some)
next
  case (Cons h hs1)
  obtain l where l: "deriveP2WSH lib p u h = Inr l" using Cons.prems [of h] by auto
  from Cons show ?case by (auto simp: l split: option.split dest: findIndex_Some)
qed

section \<open>Properties\<close>

text \<open>The app and the relayer's library derive the same lock: for the same keys and height \<^verbatim>\<open>deriveP2WSH\<close> and
  \<^verbatim>\<open>deriveDepositAddress\<close> give the same address, output script and redeem script, and fail on the same inputs; and once the
  user's signature is added the app assembles the witness the library would.\<close>

theorem app_lock_agrees:
  "deriveP2WSH lib p u h =
     (case deriveDepositAddress lib \<lparr>lp_protocol = bytes_of_hex p, lp_user = bytes_of_hex u, lp_timelock = h\<rparr> of
        Inl e \<Rightarrow> Inl e
      | Inr a \<Rightarrow> Inr \<lparr>pw_address = da_address a, pw_scriptPubKey = da_scriptPubKey a, pw_redeemScript = da_redeemScript a\<rparr>)
   \<and> app_serializeWitness items = serializeWitness items
   \<and> (case app_finalizePathA (pi_partialSig i) (pi_witnessScript i) sigs p u of
        Inl _ \<Rightarrow> True
      | Inr w \<Rightarrow> finalize_A (i\<lparr>pi_partialSig := pi_partialSig i @ sigs\<rparr>) (bytes_of_hex u) (bytes_of_hex p) = Inr w)"
proof (intro conjI)
  show "deriveP2WSH lib p u h =
     (case deriveDepositAddress lib \<lparr>lp_protocol = bytes_of_hex p, lp_user = bytes_of_hex u, lp_timelock = h\<rparr> of
        Inl e \<Rightarrow> Inl e
      | Inr a \<Rightarrow> Inr \<lparr>pw_address = da_address a, pw_scriptPubKey = da_scriptPubKey a, pw_redeemScript = da_redeemScript a\<rparr>)"
    by (rule deriveP2WSH_agrees)
  show "app_serializeWitness items = serializeWitness items" by (rule serializeWitness_agrees)
  show "case app_finalizePathA (pi_partialSig i) (pi_witnessScript i) sigs p u of
        Inl _ \<Rightarrow> True
      | Inr w \<Rightarrow> finalize_A (i\<lparr>pi_partialSig := pi_partialSig i @ sigs\<rparr>) (bytes_of_hex u) (bytes_of_hex p) = Inr w"
    by (auto simp: app_finalizePathA_def finalize_A_def sig_of_def find_sig_def Let_def split: sum.split option.splits)
qed

text \<open>A deposit can be found again from its transaction alone: whatever hint the device still holds, the lock a deposit
  was made under at some tip is found for the next 105,000 blocks, with the output that pays it and its value; and it is
  that lock itself unless the transaction also pays another of this key's locks.\<close>

theorem deposit_output_found:
  assumes lock: "deriveP2WSH lib p u (chooseDepositTimelock made) = Inr lock" "p2wsh_total lib"
    and tip: "0 \<le> made" "made \<le> tip" "tip \<le> made + MAX_TIMELOCK_MARGIN" and hint: "hint = None \<or> (\<exists>h\<ge>100000. hint = Some h)"
    and pays: "pw_scriptPubKey lock \<in> scriptPubKey ` set outs"
  shows "\<exists>r lock'. findDepositOutput lib p u outs tip hint = Inr (Some r)
    \<and> deriveP2WSH lib p u (do_timelockHeight r) = Inr lock' \<and> do_vout r < length outs
    \<and> scriptPubKey (outs ! do_vout r) = pw_scriptPubKey lock' \<and> do_valueSats r = int (value_sat (outs ! do_vout r))
    \<and> ((\<forall>h l. deriveP2WSH lib p u h = Inr l \<and> pw_scriptPubKey l \<in> scriptPubKey ` set outs \<longrightarrow> h = chooseDepositTimelock made)
        \<longrightarrow> do_timelockHeight r = chooseDepositTimelock made)"
proof -
  let ?t = "chooseDepositTimelock made"
  let ?hs = "timelock_candidates tip hint"
  have low: "100000 \<le> ?t" using lock(1) by (auto simp: deriveP2WSH_def app_buildRedeemScript_def split: if_splits)
  let ?newest = "chooseDepositTimelock tip" and ?oldest = "chooseDepositTimelock (max 0 (tip - MAX_TIMELOCK_MARGIN))"
  have "TIMELOCK_STEP dvd (?newest - ?t)" using choose_step [of tip] choose_step [of made] by (metis dvd_diff dvd_triv_right)
  moreover have "?oldest \<le> ?t" "?t \<le> ?newest" using tip by (auto intro!: choose_mono)
  ultimately have t: "?t \<in> set (heights_down ?newest ?oldest)" by (simp add: heights_down_iff)
  then have "?t \<in> set ?hs" using low by (auto simp: timelock_candidates_def Let_def split: option.split)
  then obtain hs1 hs2 where split: "?hs = hs1 @ ?t # hs2" by (meson split_list)
  have sorted: "sorted_wrt (\<lambda>x y. y < x) (heights_down h oldest)" for h oldest
  proof (induction h oldest rule: heights_down.induct)
    case (1 h oldest)
    then show ?case by (subst heights_down.simps) (auto simp: heights_down_iff TIMELOCK_STEP_def)
  qed
  have "\<exists>hint' rest. ?hs = hint' @ rest \<and> (\<forall>h\<in>set hint'. 100000 \<le> h) \<and> sorted_wrt (\<lambda>x y. y < x) rest"
    using hint sorted by (intro exI [of _ "case hint of Some h \<Rightarrow> [h] | None \<Rightarrow> []"] exI [of _ "filter (\<lambda>h. Some h \<noteq> hint) (heights_down ?newest ?oldest)"])
      (auto simp: timelock_candidates_def Let_def sorted_wrt_filter)
  then have high: "100000 \<le> h" if "h \<in> set hs1" for h
    using that low split by (auto simp: append_eq_append_conv2 sorted_wrt_append append_eq_Cons_conv Cons_eq_append_conv) (metis order.trans order_less_imp_le)
  obtain r lock' where r: "findDepositOutput lib p u outs tip hint = Inr (Some r)"
    "deriveP2WSH lib p u (do_timelockHeight r) = Inr lock'" "do_vout r < length outs"
    "scriptPubKey (outs ! do_vout r) = pw_scriptPubKey lock'" "do_valueSats r = int (value_sat (outs ! do_vout r))"
    using try_candidates_found [of hs1 lib p u ?t lock outs hs2] deriveP2WSH_total [OF lock(2, 1) high] lock(1) pays
    unfolding findDepositOutput_def split by blast
  moreover from this have "pw_scriptPubKey lock' \<in> scriptPubKey ` set outs" by (metis image_eqI nth_mem)
  ultimately show ?thesis by blast
qed

definition heights_lib :: script_lib where
  "heights_lib = \<lparr>compile = (\<lambda>items. concat (map (\<lambda>i. case i of Push b \<Rightarrow> b | Op _ \<Rightarrow> []) items)), decompile = (\<lambda>_. None),
     number_encode = (\<lambda>h. le_bytes 4 (nat h)), p2wsh = (\<lambda>s. (Some ''tb1q'', Some s)), sha256 = (\<lambda>b. b)\<rparr>"

lemma deposit_output_found_witness:
  "\<exists>r. findDepositOutput heights_lib (concat (replicate 33 ''02'')) (concat (replicate 33 ''03''))
     [\<lparr>value_sat = 5, scriptPubKey = [1]\<rparr>, \<lparr>value_sat = 70000, scriptPubKey = replicate 33 2 @ replicate 33 3 @ le_bytes 4 153000 @ replicate 33 3\<rparr>]
     150000 None = Inr (Some r) \<and> do_vout r < 2"
proof -
  let ?p = "concat (replicate 33 ''02'')" and ?u = "concat (replicate 33 ''03'')"
  let ?s = "replicate 33 2 @ replicate 33 3 @ le_bytes 4 153000 @ replicate 33 3"
  have keys: "bytes_of_hex ?p = replicate 33 2" "bytes_of_hex ?u = replicate 33 3" by code_simp+
  have choose: "chooseDepositTimelock 100000 = 153000"
    by (simp add: chooseDepositTimelock_def TIMELOCK_TARGET_MARGIN_def TIMELOCK_STEP_def)
  have lock: "deriveP2WSH heights_lib ?p ?u (chooseDepositTimelock 100000) = Inr \<lparr>pw_address = ''tb1q'', pw_scriptPubKey = ?s, pw_redeemScript = ?s\<rparr>"
    unfolding choose by (simp only: deriveP2WSH_def keys) (simp add: app_buildRedeemScript_def heights_lib_def)
  have "p2wsh_total heights_lib" by (simp add: p2wsh_total_def heights_lib_def)
  from deposit_output_found [OF lock this, of 150000 None "[\<lparr>value_sat = 5, scriptPubKey = [1]\<rparr>, \<lparr>value_sat = 70000, scriptPubKey = ?s\<rparr>]"]
  show ?thesis by (auto simp: MAX_TIMELOCK_MARGIN_def)
qed

end
