(* ===== verification/AppTx.thy ===== *)
theory AppTx
  imports Effect AppTypes FlowEngine JsBuffer
begin

text \<open>
  \<^verbatim>\<open>position/store.ts\<close>, \<^verbatim>\<open>flow/pendingTx.ts\<close>, \<^verbatim>\<open>flow/stellarTx.ts\<close> and \<^verbatim>\<open>flows/positionTx.ts\<close> under
  \<^verbatim>\<open>frontend/app/src/lib\<close>: a Stellar transaction is written down before it is submitted, its local effect applied
  once it is confirmed, and what a closed tab left over is reconciled later. A device is its local storage for one
  account with the events its flows emitted. The wallet, the network and the clock answer by position
  \<open>dv_calls\<close>; a tab may close instead of an answer, which no handler sees. \<open>dv_signed\<close> and \<open>dv_done\<close> log what was
  signed and whose effect was applied, and \<open>dv_built\<close> the contract calls that were built.
\<close>

datatype app_error =
    SignatureRejected wallet "string option"
  | TxTimedOut string
  | FailedOnChain string
  | SendFailed string
  | AppError string
  | TabClosed

text \<open>The calls of \<^verbatim>\<open>writz-lend\<close> and of the vault's relayer that the flows build; a txid is in the contract's byte order.\<close>

record deposit_args =
  da_depositor :: string
  da_block_hash :: buffer
  da_merkle_proof :: "buffer list"
  da_tx_index :: int
  da_raw_tx :: buffer
  da_p2wsh_script_pubkey :: buffer
  da_timelock_height :: int
  da_user_pubkey :: buffer
  da_key_sig :: buffer

datatype lend_call =
    CallDeposit deposit_args
  | CallBorrow string buffer int
  | CallRepay string buffer int
  | CallSupply string int
  | CallWithdraw string int
  | CallVaultDeposit string int
  | CallVaultWithdraw string int

record device =
  dv_positions :: "app_position list"
  dv_txs :: "pending_tx list"
  dv_deposit :: "pending_deposit option"
  dv_reserved :: "int list"
  dv_events :: "app_error flow_event list"
  dv_calls :: nat
  dv_signed :: "pending_tx list"
  dv_done :: "string list"
  dv_built :: "lend_call list"

datatype sign_answer = SignOk string | SignRejected "string option" | SignError string | SignClosed

datatype send_answer = SendOk "nat option" | SendFailedOnChain | SendRefused | SendStillPending | SendError string | SendClosed

record stellar_world =
  sw_sign :: "nat \<Rightarrow> sign_answer"
  sw_send :: "nat \<Rightarrow> string \<Rightarrow> send_answer"
  sw_status :: "nat \<Rightarrow> string \<Rightarrow> tx_status option"  \<comment> \<open>\<^const>\<open>None\<close> is a failed read\<close>
  sw_now :: "nat \<Rightarrow> int"

type_synonym 'a app = "(device, app_error, 'a) eff"

definition emit :: "app_error flow_event \<Rightarrow> unit app" where
  "emit ev = eff_modify (\<lambda>d. d\<lparr>dv_events := dv_events d @ [ev]\<rparr>)"

definition ask :: "(nat \<Rightarrow> 'a) \<Rightarrow> 'a app" where
  "ask f = (\<lambda>d. (d\<lparr>dv_calls := Suc (dv_calls d)\<rparr>, Inr (f (dv_calls d))))"

text \<open>A \<^verbatim>\<open>catch\<close> block does not run in a closed tab.\<close>

definition app_catch :: "'a app \<Rightarrow> (app_error \<Rightarrow> 'a app) \<Rightarrow> 'a app" where
  "app_catch m h = eff_catch m (\<lambda>e. if e = TabClosed then eff_throw TabClosed else h e)"

section \<open>Positions on the device\<close>

definition isWritzLend :: "app_position \<Rightarrow> bool" where
  "isWritzLend p \<longleftrightarrow> ap_id p = ap_txid p"

definition read_positions :: "app_position list \<Rightarrow> app_position list" where
  "read_positions ps = filter isWritzLend ps"

definition getPosition :: "app_position list \<Rightarrow> string \<Rightarrow> app_position option" where
  "getPosition ps i = find (\<lambda>p. ap_id p = i) (read_positions ps)"

fun replace_at :: "app_position \<Rightarrow> app_position list \<Rightarrow> app_position list" where
  "replace_at p [] = [p]"
| "replace_at p (q # qs) = (if ap_id q = ap_id p then p # qs else q # replace_at p qs)"

definition savePosition :: "app_position \<Rightarrow> app_position list \<Rightarrow> app_position list" where
  "savePosition p ps = replace_at p (read_positions ps)"

definition removePosition :: "string \<Rightarrow> app_position list \<Rightarrow> app_position list" where
  "removePosition i ps = filter (\<lambda>p. ap_id p \<noteq> i) (read_positions ps)"

definition replacePosition :: "string \<Rightarrow> app_position \<Rightarrow> app_position list \<Rightarrow> app_position list" where
  "replacePosition removeId p ps = savePosition p (if removeId \<noteq> ap_id p then removePosition removeId ps else ps)"

text \<open>
  The backup: the data of \<^verbatim>\<open>exportPositions\<close>, and what \<^verbatim>\<open>importPositions\<close> makes of it, the owner's new list and the
  count it returns. A \<^verbatim>\<open>Map\<close> keeps a key where it first came, as \<^const>\<open>replace_at\<close> does. A file that lacks the owner or
  the list, which raises, is \<^const>\<open>None\<close>.
\<close>

definition exportPositions :: "string \<Rightarrow> app_position list \<Rightarrow> string option \<times> app_position list option" where
  "exportPositions owner ps = (Some owner, Some (read_positions ps))"

definition importPositions :: "string option \<times> app_position list option \<Rightarrow> app_position list \<Rightarrow> (app_position list \<times> nat) option" where
  "importPositions backup ps =
     (case backup of
        (Some owner, Some qs) \<Rightarrow>
          if owner = [] then None
          else Some (fold replace_at (filter isWritzLend qs) (fold replace_at (read_positions ps) []), length qs)
      | _ \<Rightarrow> None)"

section \<open>Pending transactions\<close>

definition STELLAR_TX_TTL_MS :: int where "STELLAR_TX_TTL_MS = 360000"

definition addTx :: "pending_tx \<Rightarrow> pending_tx list \<Rightarrow> pending_tx list" where
  "addTx tx txs = filter (\<lambda>t. px_hash t \<noteq> px_hash tx) txs @ [tx]"

definition removeTx :: "string \<Rightarrow> pending_tx list \<Rightarrow> pending_tx list" where
  "removeTx h txs = filter (\<lambda>t. px_hash t \<noteq> h) txs"

datatype reconcile_decision = Apply | Drop | Keep

definition decideReconcile :: "pending_tx \<Rightarrow> tx_status \<Rightarrow> int \<Rightarrow> reconcile_decision" where
  "decideReconcile tx status t =
     (case status of
        SUCCESS \<Rightarrow> Apply
      | FAILED \<Rightarrow> Drop
      | NOT_FOUND \<Rightarrow> if t - px_createdAt tx > STELLAR_TX_TTL_MS then Drop else Keep)"

definition applyPendingTx :: "pending_tx \<Rightarrow> app_position list \<Rightarrow> app_position list" where
  "applyPendingTx tx ps =
     (case px_update tx of
        Some (removeId, p) \<Rightarrow> if getPosition ps removeId \<noteq> None then replacePosition removeId p ps else ps
      | None \<Rightarrow> ps)"

definition forget_tx :: "string \<Rightarrow> device \<Rightarrow> device" where
  "forget_tx h d = d\<lparr>dv_txs := removeTx h (dv_txs d)\<rparr>"

definition note_done :: "string \<Rightarrow> device \<Rightarrow> device" where
  "note_done h d = d\<lparr>dv_done := h # dv_done d\<rparr>"

definition apply_tx :: "pending_tx \<Rightarrow> device \<Rightarrow> device" where
  "apply_tx tx d = note_done (px_hash tx) (d\<lparr>dv_positions := applyPendingTx tx (dv_positions d)\<rparr>)"

definition reconcile_tx :: "'w stellar_world_scheme \<Rightarrow> pending_tx \<Rightarrow> unit app" where
  "reconcile_tx w tx =
     eff_bind (ask (\<lambda>k. sw_status w k (px_hash tx))) (\<lambda>status.
     case status of
       None \<Rightarrow> eff_return ()
     | Some st \<Rightarrow>
         eff_bind (ask (sw_now w)) (\<lambda>t.
         case decideReconcile tx st t of
           Keep \<Rightarrow> eff_return ()
         | Drop \<Rightarrow> eff_modify (forget_tx (px_hash tx))
         | Apply \<Rightarrow> eff_modify (\<lambda>d. forget_tx (px_hash tx) (apply_tx tx d))))"

fun reconcile_each :: "'w stellar_world_scheme \<Rightarrow> pending_tx list \<Rightarrow> unit app" where
  "reconcile_each w [] = eff_return ()"
| "reconcile_each w (tx # txs) = eff_bind (reconcile_tx w tx) (\<lambda>_. reconcile_each w txs)"

definition reconcilePendingTxs :: "'w stellar_world_scheme \<Rightarrow> unit app" where
  "reconcilePendingTxs w = eff_bind (eff_gets dv_txs) (reconcile_each w)"

section \<open>Submission\<close>

text \<open>
  \<^verbatim>\<open>bidInclusionFeeOnly\<close> on the fee of the envelope and the resource fee of its Soroban data, if it carries any.
\<close>

definition bidInclusionFeeOnly :: "int \<times> int option \<Rightarrow> int \<times> int option" where
  "bidInclusionFeeOnly tx = (case tx of
     (fee, None) \<Rightarrow> (fee, None)
   | (fee, Some resourceFee) \<Rightarrow> if fee - resourceFee \<le> 0 then (fee, Some resourceFee) else (fee - resourceFee, None))"

definition signAndSubmit :: "'w stellar_world_scheme \<Rightarrow> (string \<Rightarrow> unit app) \<Rightarrow> (string \<Rightarrow> unit app) \<Rightarrow> (string \<times> nat option) app" where
  "signAndSubmit w onSigned onDropped =
     eff_bind (emit (EAwaitingSignature StellarWallet)) (\<lambda>_.
     eff_bind (ask (sw_sign w)) (\<lambda>signed.
     case signed of
       SignClosed \<Rightarrow> eff_throw TabClosed
     | SignError e \<Rightarrow> eff_throw (AppError e)
     | SignRejected name \<Rightarrow>
         eff_bind (emit (ESignatureCancelled name)) (\<lambda>_. eff_throw (SignatureRejected StellarWallet name))
     | SignOk h \<Rightarrow>
         eff_bind (onSigned h) (\<lambda>_.
         eff_bind (emit (ESubmitted h)) (\<lambda>_.
         eff_bind (ask (\<lambda>k. sw_send w k h)) (\<lambda>sent.
         case sent of
           SendOk ledger \<Rightarrow> eff_return (h, ledger)
         | SendFailedOnChain \<Rightarrow> eff_bind (onDropped h) (\<lambda>_. eff_throw (FailedOnChain h))
         | SendStillPending \<Rightarrow> eff_throw (TxTimedOut h)
         | SendRefused \<Rightarrow> eff_bind (onDropped h) (\<lambda>_. eff_throw (SendFailed h))
         | SendError e \<Rightarrow> eff_throw (AppError e)
         | SendClosed \<Rightarrow> eff_throw TabClosed)))))"

text \<open>The callback that writes a transaction down, with the time of the clock.\<close>

definition record_tx :: "'w stellar_world_scheme \<Rightarrow> tx_kind \<Rightarrow> (string \<times> app_position) option \<Rightarrow> string \<Rightarrow> unit app" where
  "record_tx w kind upd h =
     eff_bind (ask (sw_now w)) (\<lambda>t.
     let tx = \<lparr>px_hash = h, px_kind = kind, px_createdAt = t, px_update = upd\<rparr> in
     eff_modify (\<lambda>d. d\<lparr>dv_txs := addTx tx (dv_txs d), dv_signed := tx # dv_signed d\<rparr>))"

definition on_timeout :: "'a app \<Rightarrow> 'a app" where
  "on_timeout m = app_catch m (\<lambda>e.
     case e of TxTimedOut h \<Rightarrow> eff_bind (emit (ETimedOut h)) (\<lambda>_. eff_throw e) | _ \<Rightarrow> eff_throw e)"

definition submitTrackedTx :: "'w stellar_world_scheme \<Rightarrow> tx_kind \<Rightarrow> string app" where
  "submitTrackedTx w kind =
     on_timeout
       (eff_bind (signAndSubmit w (record_tx w kind None) (\<lambda>h. eff_modify (forget_tx h))) (\<lambda>(h, _).
        eff_bind (eff_modify (\<lambda>d. forget_tx h (note_done h d))) (\<lambda>_.
        eff_bind (emit (ESettled (Some h))) (\<lambda>_. eff_return h))))"

definition submitPositionTx :: "'w stellar_world_scheme \<Rightarrow> tx_kind \<Rightarrow> app_position \<Rightarrow> app_position \<Rightarrow> bool \<Rightarrow> (string \<times> nat option) app" where
  "submitPositionTx w kind position updated keepOpen =
     eff_bind (on_timeout
       (signAndSubmit w (record_tx w kind (Some (ap_id position, updated))) (\<lambda>h. eff_modify (forget_tx h)))) (\<lambda>(h, ledger).
     eff_bind (eff_modify (\<lambda>d. forget_tx h (note_done h
       (d\<lparr>dv_positions := replacePosition (ap_id position) updated (dv_positions d)\<rparr>)))) (\<lambda>_.
     eff_bind (eff_when (\<not> keepOpen) (emit (ESettled (Some h)))) (\<lambda>_.
     eff_return (h, ledger))))"

section \<open>The device's records\<close>

lemma replace_at_fresh: "ap_id p \<notin> ap_id ` set ps \<Longrightarrow> replace_at p ps = ps @ [p]"
  by (induction ps) auto

lemma fold_replace_at:
  "distinct (map ap_id (ps @ qs)) \<Longrightarrow> fold replace_at qs ps = ps @ qs"
  by (induction qs arbitrary: ps) (auto simp: replace_at_fresh)

lemma import_export:
  assumes "distinct (map ap_id (read_positions ps))" "owner \<noteq> []"
  shows "importPositions (exportPositions owner ps) [] = Some (read_positions ps, length (read_positions ps))"
  using assms fold_replace_at [of "[]" "read_positions ps"]
  by (simp add: importPositions_def exportPositions_def read_positions_def)

text \<open>
  Records of the earlier design are skipped by an import and counted nevertheless.
\<close>

lemma import_counts_skipped:
  "owner \<noteq> [] \<Longrightarrow> \<not> isWritzLend q \<Longrightarrow> importPositions (Some owner, Some [q]) [] = Some ([], 1)"
  by (simp add: importPositions_def read_positions_def)

lemma replacePosition_saved: "isWritzLend p \<Longrightarrow> getPosition (replacePosition (ap_id p) p ps) (ap_id p) = Some p"
proof -
  have "isWritzLend p \<Longrightarrow> find (\<lambda>q. ap_id q = ap_id p) (filter isWritzLend (replace_at p qs)) = Some p" for qs
    by (induction qs) auto
  then show "isWritzLend p \<Longrightarrow> ?thesis" by (simp add: getPosition_def read_positions_def replacePosition_def savePosition_def)
qed

text \<open>
  A position keeps its id through every borrow and repay, so applying a transaction again after a newer one puts the
  older record back: only removing it from the pending list keeps that from happening.
\<close>

lemma apply_again_rewinds:
  assumes "px_update old = Some (ap_id p, p)" "isWritzLend p" "px_update new = Some (ap_id p, q)" "ap_id q = ap_id p" "isWritzLend q"
    and "getPosition ps (ap_id p) = Some p"
  shows "getPosition (applyPendingTx new ps) (ap_id p) = Some q"
    and "getPosition (applyPendingTx old (applyPendingTx new ps)) (ap_id p) = Some p"
proof -
  show q: "getPosition (applyPendingTx new ps) (ap_id p) = Some q"
    using assms replacePosition_saved [of q ps] by (simp add: applyPendingTx_def)
  then show "getPosition (applyPendingTx old (applyPendingTx new ps)) (ap_id p) = Some p"
    using assms(1, 2) replacePosition_saved [of p "applyPendingTx new ps"] by (simp add: applyPendingTx_def)
qed

section \<open>What a run leaves\<close>

lemmas app_defs = emit_def ask_def eff_defs

text \<open>
  What the answers mean: \<open>landed\<close> says which transactions succeed on the chain and \<open>expires\<close> until when one can. A
  signed transaction expires within five minutes of its signature, an answer of the network is at most a minute old,
  and no hash is signed twice.
\<close>

definition truthful :: "'w stellar_world_scheme \<Rightarrow> (string \<Rightarrow> bool) \<Rightarrow> (string \<Rightarrow> int) \<Rightarrow> bool" where
  "truthful w landed expires \<longleftrightarrow>
     (\<forall>k h l. sw_send w k h = SendOk l \<longrightarrow> landed h)
   \<and> (\<forall>k h. sw_send w k h = SendFailedOnChain \<or> sw_send w k h = SendRefused \<longrightarrow> \<not> landed h)
   \<and> (\<forall>k h. sw_status w k h = Some SUCCESS \<longrightarrow> landed h)
   \<and> (\<forall>k h. sw_status w k h = Some FAILED \<longrightarrow> \<not> landed h)
   \<and> (\<forall>k h. sw_status w k h = Some NOT_FOUND \<and> landed h \<longrightarrow> sw_now w (Suc k) \<le> expires h + 60000)
   \<and> (\<forall>k k' h. sw_sign w k = SignOk h \<and> k < k' \<longrightarrow> expires h \<le> sw_now w k' + 300000)
   \<and> (\<forall>k k' h. sw_sign w k = SignOk h \<and> sw_sign w k' = SignOk h \<longrightarrow> k = k')"

definition remembered :: "'w stellar_world_scheme \<Rightarrow> (string \<Rightarrow> bool) \<Rightarrow> (string \<Rightarrow> int) \<Rightarrow> device \<Rightarrow> bool" where
  "remembered w landed expires d \<longleftrightarrow>
     (\<forall>tx\<in>set (dv_signed d). expires (px_hash tx) \<le> px_createdAt tx + 300000
        \<and> (landed (px_hash tx) \<longrightarrow> tx \<in> set (dv_txs d) \<or> px_hash tx \<in> set (dv_done d))
        \<and> (\<exists>k<dv_calls d. sw_sign w k = SignOk (px_hash tx)))
   \<and> set (dv_txs d) \<subseteq> set (dv_signed d)"

definition just_signed :: "'w stellar_world_scheme \<Rightarrow> string \<Rightarrow> device \<Rightarrow> bool" where
  "just_signed w h d \<longleftrightarrow> (\<exists>k<dv_calls d. sw_sign w k = SignOk h) \<and> h \<notin> px_hash ` set (dv_signed d)"

lemma remembered_same:
  "dv_txs d' = dv_txs d \<Longrightarrow> dv_signed d' = dv_signed d \<Longrightarrow> set (dv_done d) \<subseteq> set (dv_done d') \<Longrightarrow> dv_calls d \<le> dv_calls d'
    \<Longrightarrow> remembered w landed expires d \<Longrightarrow> remembered w landed expires d'"
  unfolding remembered_def by (metis (no_types, lifting) order_less_le_trans subsetD)

lemma remembered_forget:
  "\<not> landed h \<or> h \<in> set (dv_done d) \<Longrightarrow> remembered w landed expires d \<Longrightarrow> remembered w landed expires (forget_tx h d)"
  by (auto simp: remembered_def forget_tx_def removeTx_def)

lemma remembered_settle: "remembered w landed expires d \<Longrightarrow> remembered w landed expires (forget_tx h (note_done h d))"
  by (intro remembered_forget) (auto simp: note_done_def intro: remembered_same [rotated -1])

lemma emit_run: "eff_bind (emit e) g d = g () (d\<lparr>dv_events := dv_events d @ [e]\<rparr>)"
  by (simp add: eff_bind_def emit_def eff_modify_def)

lemma app_bind_ask: "eff_bind (ask f) g d = g (f (dv_calls d)) (d\<lparr>dv_calls := Suc (dv_calls d)\<rparr>)"
  by (simp add: eff_bind_def ask_def)

text \<open>
  Every flow is made of the same steps: an event shown, an answer awaited, a transaction signed, written down and sent.
  What an invariant of the device has to survive to survive them is this contract; the Bitcoin wallet is asked to sign
  only in the two flows that move BTC, which show that themselves.
\<close>

locale app_invariant =
  fixes P :: "device \<Rightarrow> bool"
  assumes shown: "ev \<noteq> EAwaitingSignature BitcoinWallet \<Longrightarrow> P d \<Longrightarrow> P (d\<lparr>dv_events := dv_events d @ [ev]\<rparr>)"
    and answered: "P d \<Longrightarrow> P (d\<lparr>dv_calls := Suc (dv_calls d)\<rparr>)"
begin

lemma keeps_emit [intro, simp]: "ev \<noteq> EAwaitingSignature BitcoinWallet \<Longrightarrow> keeps P (emit ev)"
  using shown by (auto simp: emit_def)

lemma keeps_answer_only [intro, simp]: "keeps P (ask f)"
  using answered by (simp add: keeps_def ask_def)

lemma keeps_answer [intro]: "(\<And>k. keeps P (g (f k))) \<Longrightarrow> keeps P (eff_bind (ask f) g)"
  using answered by (auto simp: keeps_def app_bind_ask)

lemma keeps_app_catch [intro]: "keeps P m \<Longrightarrow> (\<And>e. keeps P (h e)) \<Longrightarrow> keeps P (app_catch m h)"
  unfolding app_catch_def by (rule keeps_catch) auto

lemma keeps_on_timeout [intro]: "keeps P m \<Longrightarrow> keeps P (on_timeout m)"
proof -
  have "keeps P (case e of TxTimedOut h \<Rightarrow> eff_bind (emit (ETimedOut h)) (\<lambda>_. eff_throw e) | _ \<Rightarrow> eff_throw e)" for e :: app_error
    by (cases e) auto
  then show "keeps P m \<Longrightarrow> ?thesis" unfolding on_timeout_def by blast
qed

text \<open>
  \<open>Pre\<close> holds until the wallet answers, \<open>S h\<close> is what is known when it has just answered with the hash \<open>h\<close>, which the
  handler that writes it down may use, and \<open>R h\<close> holds from there on, which the handler of a refusal may use.
\<close>

lemma triple_signAndSubmit:
  assumes pre: "\<And>d. Pre d \<Longrightarrow> P d" "\<And>d ev. ev \<noteq> EAwaitingSignature BitcoinWallet \<Longrightarrow> Pre d \<Longrightarrow> Pre (d\<lparr>dv_events := dv_events d @ [ev]\<rparr>)"
    and sign: "\<And>h d. Pre d \<Longrightarrow> sw_sign w (dv_calls d) = SignOk h \<Longrightarrow> S h (d\<lparr>dv_calls := Suc (dv_calls d)\<rparr>)"
    and signed: "\<And>h. triple (S h) (onSigned h) (\<lambda>_. R h) P"
    and after: "\<And>h. app_invariant (R h)" "\<And>h d. R h d \<Longrightarrow> P d"
    and dropped: "\<And>h k. sw_send w k h = SendFailedOnChain \<or> sw_send w k h = SendRefused \<Longrightarrow> triple (R h) (onDropped h) (\<lambda>_. P) P"
  shows "triple Pre (signAndSubmit w onSigned onDropped) (\<lambda>(h, _). R h) P"
proof -
  define sent where "sent h x = (case x of
        SendOk ledger \<Rightarrow> eff_return (h, ledger)
      | SendFailedOnChain \<Rightarrow> eff_bind (onDropped h) (\<lambda>_. eff_throw (FailedOnChain h))
      | SendStillPending \<Rightarrow> eff_throw (TxTimedOut h)
      | SendRefused \<Rightarrow> eff_bind (onDropped h) (\<lambda>_. eff_throw (SendFailed h))
      | SendError e \<Rightarrow> eff_throw (AppError e)
      | SendClosed \<Rightarrow> eff_throw TabClosed)" for h x
  define rest where "rest h = eff_bind (emit (ESubmitted h)) (\<lambda>_. eff_bind (ask (\<lambda>k. sw_send w k h)) (sent h))" for h
  define answer where "answer x = (case x of
       SignClosed \<Rightarrow> eff_throw TabClosed
     | SignError e \<Rightarrow> eff_throw (AppError e)
     | SignRejected name \<Rightarrow> eff_bind (emit (ESignatureCancelled name)) (\<lambda>_. eff_throw (SignatureRejected StellarWallet name))
     | SignOk h \<Rightarrow> eff_bind (onSigned h) (\<lambda>_. rest h))" for x
  have fails: "triple P (eff_throw e) Q P" for e and Q :: "string \<times> nat option \<Rightarrow> device \<Rightarrow> bool" by (simp add: triple_def eff_throw_def)
  have fails': "triple (R h) (eff_throw e) Q P" for h e and Q :: "string \<times> nat option \<Rightarrow> device \<Rightarrow> bool"
    using after(2) by (simp add: triple_def eff_throw_def)
  have "triple (R h) (sent h (sw_send w k h)) (\<lambda>(h, _). R h) P" for h k
    using dropped [of k h] by (cases "sw_send w k h") (auto simp: sent_def intro: triple_return fails fails' triple_bind)
  then have send: "triple (R h) (eff_bind (ask (\<lambda>k. sw_send w k h)) (sent h)) (\<lambda>(h, _). R h) P" for h
    using app_invariant.answered [OF after(1)] by (simp add: triple_def app_bind_ask)
  have step: "triple (R h) (emit (ESubmitted h)) (\<lambda>_. R h) P" for h
    using app_invariant.shown [OF after(1)] by (auto simp: triple_def emit_def eff_modify_def)
  have rest: "triple (R h) (rest h) (\<lambda>(h, _). R h) P" for h unfolding rest_def by (rule triple_bind [OF step send])
  have signed_rest: "triple (S h) (eff_bind (onSigned h) (\<lambda>_. rest h)) (\<lambda>(h, _). R h) P" for h
    by (rule triple_bind [OF signed rest])
  have "case eff_bind (ask (sw_sign w)) answer d of (s', Inl e) \<Rightarrow> P s' | (s', Inr x) \<Rightarrow> (case x of (h, _) \<Rightarrow> R h) s'" if d: "Pre d" for d
  proof (cases "sw_sign w (dv_calls d)")
    case (SignOk h)
    then show ?thesis using signed_rest [of h] sign [OF d SignOk] by (simp add: app_bind_ask answer_def triple_def)
  next
    case (SignRejected name)
    then show ?thesis using shown [OF _ answered [OF pre(1) [OF d]], of "ESignatureCancelled name"]
      by (simp add: app_bind_ask answer_def emit_run eff_throw_def)
  qed (use answered [OF pre(1) [OF d]] in \<open>simp_all add: app_bind_ask answer_def eff_throw_def\<close>)
  then have answered: "triple Pre (eff_bind (ask (sw_sign w)) answer) (\<lambda>(h, _). R h) P" by (simp add: triple_def)
  have asked: "triple Pre (emit (EAwaitingSignature StellarWallet)) (\<lambda>_. Pre) P"
    using pre by (auto simp: triple_def emit_def eff_modify_def)
  show ?thesis
    unfolding signAndSubmit_def sent_def [symmetric] rest_def [symmetric] answer_def [symmetric] by (rule triple_bind [OF asked answered])
qed

lemma keeps_by_triple: "triple P m (\<lambda>_. P) P \<Longrightarrow> keeps P m"
  unfolding keeps_def triple_def by (metis (mono_tags, lifting) old.prod.case old.sum.simps(5, 6) prod.collapse sum.exhaust_sel)

lemma keeps_signAndSubmit:
  assumes sign: "\<And>h d. P d \<Longrightarrow> sw_sign w (dv_calls d) = SignOk h \<Longrightarrow> S h (d\<lparr>dv_calls := Suc (dv_calls d)\<rparr>)"
    and signed: "\<And>h. triple (\<lambda>d. P d \<and> S h d) (onSigned h) (\<lambda>_. P) P"
    and dropped: "\<And>h k. sw_send w k h = SendFailedOnChain \<or> sw_send w k h = SendRefused \<Longrightarrow> keeps P (onDropped h)"
  shows "keeps P (signAndSubmit w onSigned onDropped)"
proof -
  have "triple P (signAndSubmit w onSigned onDropped) (\<lambda>(h, _). P) P"
  proof (rule triple_signAndSubmit [where S = "\<lambda>h d. P d \<and> S h d"])
    show "triple P (onDropped h) (\<lambda>_. P) P" if "sw_send w k h = SendFailedOnChain \<or> sw_send w k h = SendRefused" for h k
      using dropped [OF that] unfolding keeps_def triple_def by (auto split: prod.split sum.split)
  qed (use assms(1) signed shown answered in \<open>auto intro: app_invariant_axioms\<close>)
  then have "triple P (signAndSubmit w onSigned onDropped) (\<lambda>_. P) P" by (simp add: triple_def split_def)
  then show ?thesis by (rule keeps_by_triple)
qed

end

text \<open>An invariant of what was asked and built, which the bookkeeping of transactions and positions does not touch.\<close>

locale app_frame = app_invariant +
  assumes kept: "dv_built d' = dv_built d \<Longrightarrow> dv_calls d' = dv_calls d \<Longrightarrow> dv_deposit d' = dv_deposit d \<Longrightarrow>
    dv_events d' = dv_events d \<Longrightarrow> P d \<Longrightarrow> P d'"
begin

lemma keeps_record: "keeps P (record_tx w kind upd h)"
  unfolding record_tx_def Let_def by (intro keeps_answer keeps_modify) (auto intro: kept [rotated -1])

lemma keeps_forget: "keeps P (eff_modify (forget_tx h))"
  by (intro keeps_modify) (auto simp: forget_tx_def intro: kept [rotated -1])

lemma keeps_submitted: "keeps P (signAndSubmit w (record_tx w kind upd) (\<lambda>h. eff_modify (forget_tx h)))"
proof (rule keeps_signAndSubmit [where S = "\<lambda>_ _. True"])
  show "triple (\<lambda>d. P d \<and> True) (record_tx w kind upd h) (\<lambda>_. P) P" for h
    using keeps_record [of w kind upd h] unfolding triple_def keeps_def by (auto split: prod.split sum.split)
qed (auto intro: keeps_forget)

lemma keeps_tracked: "keeps P (submitTrackedTx w kind)"
  unfolding submitTrackedTx_def
  by (intro keeps_on_timeout keeps_bind keeps_submitted)
    (auto simp: forget_tx_def note_done_def split: prod.split intro!: keeps_bind keeps_modify intro: kept [rotated -1])

lemma keeps_position: "keeps P (submitPositionTx w kind position updated keepOpen)"
  unfolding submitPositionTx_def
  by (intro keeps_bind keeps_on_timeout keeps_submitted)
    (auto simp: forget_tx_def note_done_def split: prod.split intro!: keeps_bind keeps_modify keeps_when intro: kept [rotated -1])

end

interpretation remembered: app_invariant "remembered w landed expires" for w landed expires
  by unfold_locales (auto intro: remembered_same [rotated -1])

lemma just_signedI:
  assumes w: "truthful w landed expires" and d: "remembered w landed expires d" and sign: "sw_sign w (dv_calls d) = SignOk h"
  shows "just_signed w h (d\<lparr>dv_calls := Suc (dv_calls d)\<rparr>)"
proof -
  have "px_hash tx \<noteq> h" if tx: "tx \<in> set (dv_signed d)" for tx
  proof
    assume "px_hash tx = h"
    with d tx obtain k where "k < dv_calls d" "sw_sign w k = SignOk h" by (auto simp: remembered_def)
    moreover have "sw_sign w k = SignOk h \<Longrightarrow> k = dv_calls d" for k using w sign by (simp add: truthful_def)
    ultimately show False by auto
  qed
  then show ?thesis using sign by (auto simp: just_signed_def)
qed

lemma truthful_dropped:
  "truthful w landed expires \<Longrightarrow> sw_send w k h = SendFailedOnChain \<or> sw_send w k h = SendRefused \<Longrightarrow> \<not> landed h"
  unfolding truthful_def by blast

lemma record_tx_remembered:
  assumes w: "truthful w landed expires" and d: "remembered w landed expires d" "just_signed w h d"
  shows "remembered w landed expires (fst (record_tx w kind upd h d))"
proof -
  have new: "k < k' \<Longrightarrow> sw_sign w k = SignOk h \<Longrightarrow> expires h \<le> sw_now w k' + 300000" for k k'
    using w unfolding truthful_def by blast
  have "\<exists>k<Suc (dv_calls d). sw_sign w k = SignOk (px_hash tx)" if "tx \<in> set (dv_signed d)" for tx
    using d(1) that unfolding remembered_def by (meson less_SucI)
  moreover have "expires h \<le> sw_now w (dv_calls d) + 300000" "\<exists>k<Suc (dv_calls d). sw_sign w k = SignOk h"
    using d(2) new by (auto simp: just_signed_def intro: less_SucI)
  moreover have "tx \<in> set (dv_signed d) \<Longrightarrow> px_hash tx \<noteq> h" for tx using d(2) by (auto simp: just_signed_def)
  ultimately show ?thesis
    using d(1) by (auto simp: remembered_def record_tx_def app_defs addTx_def Let_def)
qed

lemma remembered_submit:
  assumes w: "truthful w landed expires"
  shows "keeps (remembered w landed expires) (signAndSubmit w (record_tx w kind upd) (\<lambda>h. eff_modify (forget_tx h)))"
proof (rule remembered.keeps_signAndSubmit [where S = "just_signed w"])
  show "triple (\<lambda>d. remembered w landed expires d \<and> just_signed w h d) (record_tx w kind upd h) (\<lambda>_. remembered w landed expires) (remembered w landed expires)" for h
    using record_tx_remembered [OF w] unfolding triple_def by (auto split: prod.split sum.split) (metis fst_conv)+
  show "sw_send w k h = SendFailedOnChain \<or> sw_send w k h = SendRefused \<Longrightarrow> keeps (remembered w landed expires) (eff_modify (forget_tx h))" for h k
    using truthful_dropped [OF w] by (auto intro: remembered_forget)
qed (rule just_signedI [OF w])

lemma remembered_tracked:
  "truthful w landed expires \<Longrightarrow> keeps (remembered w landed expires) (submitTrackedTx w kind)"
  unfolding submitTrackedTx_def
  by (intro remembered.keeps_on_timeout keeps_bind remembered_submit) (auto split: prod.split intro: remembered_settle)

lemma remembered_position:
  "truthful w landed expires \<Longrightarrow> keeps (remembered w landed expires) (submitPositionTx w kind position updated keepOpen)"
  unfolding submitPositionTx_def
  by (intro keeps_bind remembered.keeps_on_timeout remembered_submit)
    (auto split: prod.split intro!: keeps_bind keeps_modify keeps_when remembered_settle intro: remembered_same [rotated -1])

lemma remembered_reconcile_tx:
  assumes w: "truthful w landed expires" and d: "remembered w landed expires d" and tx: "tx \<in> set (dv_signed d)"
  shows "remembered w landed expires (fst (reconcile_tx w tx d)) \<and> dv_signed (fst (reconcile_tx w tx d)) = dv_signed d"
proof (cases "sw_status w (dv_calls d) (px_hash tx)")
  case None
  then show ?thesis using d by (auto simp: reconcile_tx_def app_defs intro: remembered_same [rotated -1])
next
  case (Some st)
  let ?t = "sw_now w (Suc (dv_calls d))"
  let ?d = "d\<lparr>dv_calls := Suc (Suc (dv_calls d))\<rparr>"
  have d2: "remembered w landed expires ?d" by (rule remembered_same [OF _ _ _ _ d]) simp_all
  have dead: "\<not> landed (px_hash tx)" if "decideReconcile tx st ?t = Drop"
  proof -
    have "st = FAILED \<or> st = NOT_FOUND \<and> STELLAR_TX_TTL_MS < ?t - px_createdAt tx"
      using that by (auto simp: decideReconcile_def split: tx_status.splits if_splits)
    moreover have "st = FAILED \<Longrightarrow> \<not> landed (px_hash tx)" using w Some unfolding truthful_def by blast
    moreover have "st = NOT_FOUND \<Longrightarrow> landed (px_hash tx) \<Longrightarrow> ?t \<le> expires (px_hash tx) + 60000" using w Some unfolding truthful_def by blast
    moreover have "expires (px_hash tx) \<le> px_createdAt tx + 300000" using d tx by (simp add: remembered_def)
    ultimately show ?thesis by (force simp: STELLAR_TX_TTL_MS_def)
  qed
  have "remembered w landed expires (forget_tx (px_hash tx) (apply_tx tx ?d))"
    unfolding apply_tx_def by (intro remembered_settle remembered_same [OF _ _ _ _ d2]) simp_all
  moreover have "\<not> landed (px_hash tx) \<Longrightarrow> remembered w landed expires (forget_tx (px_hash tx) ?d)" using remembered_forget d2 by blast
  ultimately show ?thesis using d2 dead Some
    by (cases "decideReconcile tx st ?t") (auto simp: reconcile_tx_def app_defs forget_tx_def apply_tx_def note_done_def)
qed

lemma remembered_reconcile_each:
  "truthful w landed expires \<Longrightarrow> remembered w landed expires d \<Longrightarrow> set txs \<subseteq> set (dv_signed d) \<Longrightarrow>
    remembered w landed expires (fst (reconcile_each w txs d))"
proof (induction txs arbitrary: d)
  case (Cons tx txs)
  obtain d1 r where m: "reconcile_tx w tx d = (d1, r)" by fastforce
  have "remembered w landed expires d1" "dv_signed d1 = dv_signed d"
    using remembered_reconcile_tx [OF Cons.prems(1, 2), of tx] Cons.prems(3) m by simp_all
  with Cons show ?case using m by (cases r) (simp_all add: eff_bind_def)
qed (simp add: eff_return_def)

lemma remembered_reconcile:
  "truthful w landed expires \<Longrightarrow> remembered w landed expires d \<Longrightarrow> remembered w landed expires (fst (reconcilePendingTxs w d))"
  using remembered_reconcile_each [of w landed expires d "dv_txs d"]
  by (simp add: reconcilePendingTxs_def app_defs remembered_def)

section \<open>Properties\<close>

datatype app_op =
    Tracked tx_kind
  | PositionTx tx_kind app_position app_position bool
  | Reconcile

definition run_app_op :: "'w stellar_world_scheme \<Rightarrow> app_op \<Rightarrow> device \<Rightarrow> device" where
  "run_app_op w opn d = (case opn of
     Tracked kind \<Rightarrow> fst (submitTrackedTx w kind d)
   | PositionTx kind position updated keepOpen \<Rightarrow> fst (submitPositionTx w kind position updated keepOpen d)
   | Reconcile \<Rightarrow> fst (reconcilePendingTxs w d))"

definition fresh_device :: "app_position list \<Rightarrow> device" where
  "fresh_device ps = \<lparr>dv_positions = ps, dv_txs = [], dv_deposit = None, dv_reserved = [], dv_events = [], dv_calls = 0, dv_signed = [], dv_done = [], dv_built = []\<rparr>"


definition one_slow_tx :: stellar_world where
  "one_slow_tx =
     \<lparr>sw_sign = (\<lambda>k. if k = 0 then SignOk ''ab'' else SignClosed), sw_send = (\<lambda>_ _. SendStillPending),
      sw_status = (\<lambda>_ _. Some NOT_FOUND), sw_now = (\<lambda>_. 1000)\<rparr>"


end
