(* ===== verification/LendFlows.thy ===== *)
theory LendFlows
  imports AppTx
begin

text \<open>
  \<^verbatim>\<open>flows/submit.ts\<close>, \<^verbatim>\<open>borrow.ts\<close>, \<^verbatim>\<open>repay.ts\<close> and \<^verbatim>\<open>lend.ts\<close> under \<^verbatim>\<open>frontend/app/src/lib\<close>: borrowing against a position,
  repaying it down to the last stroop, and the lenders' supply and withdrawal. What the contract reads as and whether a
  call simulates are answers by position, as the wallet's and the network's are; the waits between two attempts are
  left out.
\<close>

datatype 'a answer = Got 'a | Failed string | Closed

record lend_world = stellar_world +
  lw_read :: "nat \<Rightarrow> string \<Rightarrow> chain_position option answer"  \<comment> \<open>\<^verbatim>\<open>readPosition\<close>\<close>
  lw_simulate :: "nat \<Rightarrow> lend_call \<Rightarrow> unit answer"
  lw_supply_value :: "nat \<Rightarrow> string \<Rightarrow> int answer"
  lw_available :: "nat \<Rightarrow> int answer"

definition expect :: "(nat \<Rightarrow> 'a answer) \<Rightarrow> 'a app" where
  "expect f = eff_bind (ask f) (\<lambda>a. case a of Got x \<Rightarrow> eff_return x | Failed m \<Rightarrow> eff_throw (AppError m) | Closed \<Rightarrow> eff_throw TabClosed)"

lemma expect_got: "f (dv_calls d) = Got x \<Longrightarrow> eff_bind (expect f) g d = g x (d\<lparr>dv_calls := Suc (dv_calls d)\<rparr>)"
  by (simp add: eff_bind_def expect_def ask_def eff_return_def)

lemma expect_closed: "f (dv_calls d) = Closed \<Longrightarrow> eff_bind (expect f) g d = (d\<lparr>dv_calls := Suc (dv_calls d)\<rparr>, Inl TabClosed)"
  by (simp add: eff_bind_def expect_def ask_def eff_throw_def)

definition internalTxid :: "string \<Rightarrow> buffer" where
  "internalTxid displayHex = rev (bytes_of_hex displayHex)"

definition displayTxid :: "buffer \<Rightarrow> string" where
  "displayTxid internal = hex_of_bytes (rev internal)"

lemma displayTxid_internal [simp]: "internalTxid (displayTxid b) = b"
  by (simp add: internalTxid_def displayTxid_def)

section \<open>Simulation\<close>

definition contains :: "string \<Rightarrow> string \<Rightarrow> bool" where
  "contains p s \<longleftrightarrow> list_ex (\<lambda>i. startsWith p (drop i s)) [0..<Suc (length s)]"

definition isTransientSimulationError :: "string \<Rightarrow> bool" where
  "isTransientSimulationError message \<longleftrightarrow> contains ''TRY_AGAIN_LATER'' message \<or> contains ''txBadSeq'' message"

text \<open>The calls that were built are logged where the simulation succeeds.\<close>

fun simulateWithRetry :: "'w lend_world_scheme \<Rightarrow> lend_call \<Rightarrow> nat \<Rightarrow> unit app" where
  "simulateWithRetry w c 0 = eff_throw (AppError ''undefined'')"
| "simulateWithRetry w c (Suc n) =
     eff_bind (ask (\<lambda>k. lw_simulate w k c)) (\<lambda>a.
     case a of
       Got _ \<Rightarrow> eff_modify (\<lambda>d. d\<lparr>dv_built := dv_built d @ [c]\<rparr>)
     | Failed m \<Rightarrow> if isTransientSimulationError m \<and> n \<noteq> 0 then simulateWithRetry w c n else eff_throw (AppError m)
     | Closed \<Rightarrow> eff_throw TabClosed)"

definition simulateWritzLend :: "'w lend_world_scheme \<Rightarrow> lend_call \<Rightarrow> unit app" where
  "simulateWritzLend w c = simulateWithRetry w c 8"

section \<open>Borrow\<close>

definition requireOpenPosition :: "'w lend_world_scheme \<Rightarrow> string \<Rightarrow> string \<Rightarrow> chain_position app" where
  "requireOpenPosition w t owner =
     eff_bind (expect (\<lambda>k. lw_read w k t)) (\<lambda>chain.
     case chain of
       None \<Rightarrow> eff_throw (AppError ''PositionNotFound'')
     | Some c \<Rightarrow>
         if cp_depositor c \<noteq> owner then eff_throw (AppError ''Unauthorized'')
         else if cp_status c \<noteq> ChainActive then eff_throw (AppError ''PositionNotActive'')
         else eff_return c)"

definition borrow :: "'w lend_world_scheme \<Rightarrow> app_position \<Rightarrow> int \<Rightarrow> string \<Rightarrow> (string \<times> app_position) app" where
  "borrow w position amount borrower =
     eff_bind (emit (EPreparing (Some ReadingStep))) (\<lambda>_.
     eff_bind (requireOpenPosition w (ap_txid position) borrower) (\<lambda>chain.
     eff_bind (emit (EPreparing (Some BuildingStep))) (\<lambda>_.
     eff_bind (simulateWritzLend w (CallBorrow borrower (internalTxid (ap_txid position)) amount)) (\<lambda>_.
     let updated = position\<lparr>ap_debtStroops := cp_debtStroops chain + amount, ap_status := LActive\<rparr> in
     eff_bind (submitPositionTx w KBorrow position updated False) (\<lambda>(h, _).
     eff_return (h, updated))))))"

section \<open>Repay\<close>

definition MAX_REMAINDER_REPAYS :: nat where "MAX_REMAINDER_REPAYS = 2"

definition READ_ATTEMPTS :: nat where "READ_ATTEMPTS = 10"

definition repayPlan :: "int \<Rightarrow> int \<Rightarrow> int \<Rightarrow> int \<times> bool" where
  "repayPlan amount shownDebt chainDebt =
     (let full = amount \<ge> shownDebt \<or> amount \<ge> chainDebt in (if full then chainDebt else amount, full))"

definition caughtUp :: "nat option \<Rightarrow> int \<Rightarrow> chain_position option \<Rightarrow> bool" where
  "caughtUp ledger before chain =
     (case chain of
        None \<Rightarrow> True
      | Some c \<Rightarrow> cp_status c \<noteq> ChainActive
          \<or> (case ledger of Some l \<Rightarrow> cp_ledger c \<ge> int l | None \<Rightarrow> cp_storedDebtStroops c < before))"

text \<open>The last argument counts the attempts left after this one.\<close>

fun readAfter :: "'w lend_world_scheme \<Rightarrow> string \<Rightarrow> nat option \<Rightarrow> int \<Rightarrow> nat \<Rightarrow> chain_position option app" where
  "readAfter w t ledger before 0 = expect (\<lambda>k. lw_read w k t)"
| "readAfter w t ledger before (Suc n) =
     eff_bind (expect (\<lambda>k. lw_read w k t)) (\<lambda>chain.
     if caughtUp ledger before chain then eff_return chain else readAfter w t ledger before n)"

definition repay_send :: "'w lend_world_scheme \<Rightarrow> string \<Rightarrow> string \<Rightarrow> chain_position \<Rightarrow> int \<Rightarrow> app_position \<Rightarrow> bool
    \<Rightarrow> (string \<times> nat option \<times> app_position) app" where
  "repay_send w t repayer chain amount current keepOpen =
     eff_bind (emit (EPreparing (Some BuildingStep))) (\<lambda>_.
     eff_bind (simulateWritzLend w (CallRepay repayer (internalTxid t) amount)) (\<lambda>_.
     let left = (if cp_debtStroops chain > amount then cp_debtStroops chain - amount else 0);
         updated = current\<lparr>ap_debtStroops := left, ap_status := (if left = 0 then LClosed else LActive)\<rparr> in
     eff_bind (submitPositionTx w KRepay current updated keepOpen) (\<lambda>(h, ledger).
     eff_return (h, ledger, updated))))"

definition repaid :: "chain_position option \<Rightarrow> app_position \<Rightarrow> app_position" where
  "repaid after p =
     (case after of
        Some c \<Rightarrow> if cp_status c = ChainActive then p\<lparr>ap_debtStroops := cp_debtStroops c, ap_status := LActive\<rparr>
                  else p\<lparr>ap_debtStroops := 0, ap_status := LClosed\<rparr>
      | None \<Rightarrow> p\<lparr>ap_debtStroops := 0, ap_status := LClosed\<rparr>)"

text \<open>The last argument counts the follow-up repayments left.\<close>

fun repay_rest :: "'w lend_world_scheme \<Rightarrow> string \<Rightarrow> string \<Rightarrow> chain_position \<Rightarrow> string \<times> nat option \<times> app_position \<Rightarrow> nat
    \<Rightarrow> (string \<times> app_position) app" where
  "repay_rest w t repayer chain (h, ledger, updated) n =
     eff_bind (readAfter w t ledger (cp_storedDebtStroops chain) READ_ATTEMPTS) (\<lambda>after.
     case (after, n) of
       (Some c, Suc m) \<Rightarrow>
         if cp_status c \<noteq> ChainActive \<or> cp_debtStroops c = 0
         then eff_bind (emit (ESettled (Some h))) (\<lambda>_. eff_return (h, repaid after updated))
         else eff_bind (repay_send w t repayer c (cp_debtStroops c) updated True) (\<lambda>result.
              repay_rest w t repayer c result m)
     | _ \<Rightarrow> eff_bind (emit (ESettled (Some h))) (\<lambda>_. eff_return (h, repaid after updated)))"

definition repay :: "'w lend_world_scheme \<Rightarrow> app_position \<Rightarrow> int \<Rightarrow> string \<Rightarrow> (string \<times> app_position) app" where
  "repay w position amount repayer =
     eff_bind (emit (EPreparing (Some ReadingStep))) (\<lambda>_.
     eff_bind (requireOpenPosition w (ap_txid position) repayer) (\<lambda>chain.
     let plan = repayPlan amount (ap_debtStroops position) (cp_debtStroops chain) in
     eff_bind (repay_send w (ap_txid position) repayer chain (fst plan) position (snd plan)) (\<lambda>(h, ledger, updated).
     if \<not> snd plan then eff_return (h, updated)
     else repay_rest w (ap_txid position) repayer chain (h, ledger, updated) MAX_REMAINDER_REPAYS)))"

section \<open>Supply and withdrawal\<close>

definition supply_usdc :: "'w lend_world_scheme \<Rightarrow> int \<Rightarrow> string \<Rightarrow> string app" where
  "supply_usdc w amount supplier =
     eff_bind (simulateWritzLend w (CallSupply supplier amount)) (\<lambda>_. submitTrackedTx w KSupply)"

definition wholeBalance :: "'w lend_world_scheme \<Rightarrow> string \<Rightarrow> int \<Rightarrow> int app" where
  "wholeBalance w supplier fallback =
     eff_bind (expect (\<lambda>k. lw_supply_value w k supplier)) (\<lambda>v.
     eff_bind (expect (lw_available w)) (\<lambda>available.
     let amount = (if v < available then v else available) in
     eff_return (if amount > 0 then amount else fallback)))"

definition withdraw :: "'w lend_world_scheme \<Rightarrow> int \<Rightarrow> string \<Rightarrow> bool \<Rightarrow> string app" where
  "withdraw w amount supplier all =
     eff_bind (if all then wholeBalance w supplier amount else eff_return amount) (\<lambda>amountStroops.
     eff_bind (simulateWritzLend w (CallWithdraw supplier amountStroops)) (\<lambda>_. submitTrackedTx w KWithdraw))"

section \<open>What a run may do\<close>

text \<open>\<open>costs n m\<close>: the computation awaits at most \<open>n\<close> answers.\<close>

definition costs :: "nat \<Rightarrow> 'a app \<Rightarrow> bool" where
  "costs n m \<longleftrightarrow> (\<forall>d. dv_calls d \<le> dv_calls (fst (m d)) \<and> dv_calls (fst (m d)) \<le> dv_calls d + n)"

lemma costs_return [intro, simp]: "costs 0 (eff_return x)"
  by (simp add: costs_def eff_return_def)

lemma costs_throw [intro, simp]: "costs 0 (eff_throw e)"
  by (simp add: costs_def eff_throw_def)

lemma costs_emit [intro, simp]: "costs 0 (emit ev)"
  by (simp add: costs_def app_defs)

lemma costs_modify: "(\<And>d. dv_calls (f d) = dv_calls d) \<Longrightarrow> costs 0 (eff_modify f)"
  by (simp add: costs_def eff_modify_def)

lemma costs_ask [intro, simp]: "costs (Suc 0) (ask f)"
  by (simp add: costs_def ask_def)

lemma costs_le: "costs n m \<Longrightarrow> n \<le> n' \<Longrightarrow> costs n' m"
  unfolding costs_def by (meson add_left_mono le_trans)

lemma costs_bind:
  assumes "costs a m" "\<And>x. costs b (f x)" "a + b \<le> n"
  shows "costs n (eff_bind m f)"
  unfolding costs_def
proof (intro allI)
  fix d
  obtain d' r where m: "m d = (d', r)" by fastforce
  then have d': "dv_calls d \<le> dv_calls d'" "dv_calls d' \<le> dv_calls d + a" using assms(1) unfolding costs_def by (metis fst_conv)+
  show "dv_calls d \<le> dv_calls (fst (eff_bind m f d)) \<and> dv_calls (fst (eff_bind m f d)) \<le> dv_calls d + n"
  proof (cases r)
    case (Inl e)
    then show ?thesis using m d' assms(3) by (simp add: eff_bind_def)
  next
    case (Inr x)
    have "dv_calls d' \<le> dv_calls (fst (f x d'))" "dv_calls (fst (f x d')) \<le> dv_calls d' + b"
      using assms(2) [of x] unfolding costs_def by blast+
    then show ?thesis using m Inr d' assms(3) by (simp add: eff_bind_def)
  qed
qed

lemma costs_expect: "costs (Suc 0) (expect f)"
  unfolding expect_def by (rule costs_bind [where a = "Suc 0" and b = 0]) (auto split: answer.split)

lemma costs_catch:
  assumes "costs a m" "\<And>e. costs b (h e)" "a + b \<le> n"
  shows "costs n (app_catch m h)"
  unfolding costs_def
proof (intro allI)
  fix d
  obtain d' r where m: "m d = (d', r)" by fastforce
  then have d': "dv_calls d \<le> dv_calls d'" "dv_calls d' \<le> dv_calls d + a" using assms(1) unfolding costs_def by (metis fst_conv)+
  show "dv_calls d \<le> dv_calls (fst (app_catch m h d)) \<and> dv_calls (fst (app_catch m h d)) \<le> dv_calls d + n"
  proof (cases r)
    case (Inl e)
    have "dv_calls d' \<le> dv_calls (fst (h e d'))" "dv_calls (fst (h e d')) \<le> dv_calls d' + b"
      using assms(2) [of e] unfolding costs_def by blast+
    then show ?thesis using m Inl d' assms(3) by (simp add: app_catch_def eff_catch_def eff_throw_def)
  next
    case (Inr x)
    then show ?thesis using m d' assms(3) by (simp add: app_catch_def eff_catch_def)
  qed
qed

lemma costs_simulate: "costs n (simulateWithRetry w c n)"
proof (induction n)
  case (Suc n)
  have "costs 0 (eff_modify (\<lambda>d. d\<lparr>dv_built := dv_built d @ [c]\<rparr>))" by (rule costs_modify) simp
  then have "costs n (case a of
       Got _ \<Rightarrow> eff_modify (\<lambda>d. d\<lparr>dv_built := dv_built d @ [c]\<rparr>)
     | Failed m \<Rightarrow> if isTransientSimulationError m \<and> n \<noteq> 0 then simulateWithRetry w c n else eff_throw (AppError m)
     | Closed \<Rightarrow> eff_throw TabClosed)" for a :: "unit answer"
    using Suc by (cases a) (auto intro: costs_le)
  then show ?case unfolding simulateWithRetry.simps by (rule costs_bind [OF costs_ask]) simp
qed simp

lemma costs_record: "costs (Suc 0) (record_tx w kind upd h)"
  unfolding record_tx_def Let_def by (rule costs_bind [where a = "Suc 0" and b = 0]) (auto intro: costs_modify)

lemma costs_forget: "costs 0 (eff_modify (forget_tx h))"
  by (rule costs_modify) (simp add: forget_tx_def)

lemma costs_signAndSubmit:
  assumes "\<And>h. costs (Suc 0) (onSigned h)" "\<And>h. costs 0 (onDropped h)"
  shows "costs 3 (signAndSubmit w onSigned onDropped)"
proof -
  note zero = costs_bind [where a = 0 and b = 0 and n = 0]
  have sent: "costs 0 (case sent of
           SendOk ledger \<Rightarrow> eff_return (h, ledger)
         | SendFailedOnChain \<Rightarrow> eff_bind (onDropped h) (\<lambda>_. eff_throw (FailedOnChain h))
         | SendStillPending \<Rightarrow> eff_throw (TxTimedOut h)
         | SendRefused \<Rightarrow> eff_bind (onDropped h) (\<lambda>_. eff_throw (SendFailed h))
         | SendError e \<Rightarrow> eff_throw (AppError e)
         | SendClosed \<Rightarrow> eff_throw TabClosed)" for h sent
    using assms(2) by (cases sent) (auto intro: zero)
  have signed: "costs 2 (case signed of
       SignClosed \<Rightarrow> eff_throw TabClosed
     | SignError e \<Rightarrow> eff_throw (AppError e)
     | SignRejected name \<Rightarrow>
         eff_bind (emit (ESignatureCancelled name)) (\<lambda>_. eff_throw (SignatureRejected StellarWallet name))
     | SignOk h \<Rightarrow>
         eff_bind (onSigned h) (\<lambda>_. eff_bind (emit (ESubmitted h)) (\<lambda>_. eff_bind (ask (\<lambda>k. sw_send w k h)) (\<lambda>sent.
         case sent of
           SendOk ledger \<Rightarrow> eff_return (h, ledger)
         | SendFailedOnChain \<Rightarrow> eff_bind (onDropped h) (\<lambda>_. eff_throw (FailedOnChain h))
         | SendStillPending \<Rightarrow> eff_throw (TxTimedOut h)
         | SendRefused \<Rightarrow> eff_bind (onDropped h) (\<lambda>_. eff_throw (SendFailed h))
         | SendError e \<Rightarrow> eff_throw (AppError e)
         | SendClosed \<Rightarrow> eff_throw TabClosed))))" for signed
  proof (cases signed)
    case (SignOk h)
    show ?thesis unfolding SignOk sign_answer.case
      by (rule costs_bind [OF assms(1) costs_bind [OF costs_emit costs_bind [OF costs_ask sent, where n = 1], where n = 1]]) simp_all
  qed (auto intro: costs_le [where n = 0] zero)
  show ?thesis
    unfolding signAndSubmit_def by (rule costs_bind [OF costs_emit costs_bind [OF costs_ask signed, where n = 3]]) simp_all
qed

lemma costs_on_timeout:
  assumes "costs n m"
  shows "costs n (on_timeout m)"
proof -
  have "costs 0 (case e of TxTimedOut h \<Rightarrow> eff_bind (emit (ETimedOut h)) (\<lambda>_. eff_throw e) | _ \<Rightarrow> eff_throw e)" for e :: app_error
    by (cases e) (auto intro: costs_bind [where a = 0 and b = 0])
  then show ?thesis unfolding on_timeout_def by (rule costs_catch [OF assms]) simp
qed

lemma costs_position: "costs 3 (submitPositionTx w kind position updated keepOpen)"
proof -
  have "costs 0 (eff_bind (eff_modify (\<lambda>d. forget_tx h (note_done h
       (d\<lparr>dv_positions := replacePosition (ap_id position) updated (dv_positions d)\<rparr>)))) (\<lambda>_.
     eff_bind (eff_when (\<not> keepOpen) (emit (ESettled (Some h)))) (\<lambda>_. eff_return (h, ledger))))" for h and ledger :: "nat option"
    by (auto simp: eff_when_def forget_tx_def note_done_def intro!: costs_bind [where a = 0 and b = 0] costs_modify)
  then show ?thesis unfolding submitPositionTx_def
    by (intro costs_bind [OF costs_on_timeout [OF costs_signAndSubmit [OF costs_record costs_forget]], where b = 0]) (auto split: prod.split)
qed

lemma costs_repay_send: "costs 11 (repay_send w t repayer chain amount current keepOpen)"
  unfolding repay_send_def simulateWritzLend_def Let_def
  by (rule costs_bind [OF costs_emit costs_bind [OF costs_simulate costs_bind [OF costs_position, where b = 0 and n = 3], where n = 11]])
    (auto split: prod.split)

lemma costs_readAfter: "costs (Suc n) (readAfter w t ledger before n)"
proof (induction n)
  case (Suc n)
  then show ?case unfolding readAfter.simps by (intro costs_bind [OF costs_expect, where b = "Suc n"]) (auto intro: costs_le [where n = 0])
qed (use costs_expect in simp)

lemma costs_repay_rest: "costs (11 + 22 * n) (repay_rest w t repayer chain result n)"
proof (induction n arbitrary: chain result)
  note settle = costs_bind [where a = 0 and b = 0, OF costs_emit costs_return]
  have read: "costs 11 (readAfter w t ledger before READ_ATTEMPTS)" for ledger before
    using costs_readAfter [of 10] by (simp add: READ_ATTEMPTS_def)
  {
    case 0
    obtain h ledger updated where "result = (h, ledger, updated)" by (cases result)
    then show ?case by (auto intro!: costs_bind [OF read, where b = 0] settle split: option.split)
  next
    case (Suc n)
    have send: "costs (22 * Suc n) (eff_bind (repay_send w t repayer c (cp_debtStroops c) updated True) (\<lambda>result. repay_rest w t repayer c result n))"
      for c updated by (rule costs_bind [OF costs_repay_send Suc]) simp
    obtain h ledger updated where "result = (h, ledger, updated)" by (cases result)
    then show ?case
      by (auto intro!: costs_bind [OF read, where b = "22 * Suc n"] send settle split: option.split simp del: mult_Suc_right)
  }
qed

lemma costs_repay: "costs 67 (repay w position amount repayer)"
proof -
  have open_cost: "costs (Suc 0) (requireOpenPosition w t owner)" for t owner
    unfolding requireOpenPosition_def by (rule costs_bind [OF costs_expect, where b = 0]) (auto split: option.split)
  have rest: "costs 66 (eff_bind (repay_send w t repayer chain a p b) (\<lambda>(h, ledger, updated).
     if \<not> b then eff_return (h, updated) else repay_rest w t repayer chain (h, ledger, updated) MAX_REMAINDER_REPAYS))" for t chain a p b
    by (rule costs_bind [OF costs_repay_send, where b = 55])
      (use costs_repay_rest [of 2] in \<open>auto simp: MAX_REMAINDER_REPAYS_def split: prod.split intro: costs_le [where n = 0]\<close>)
  show ?thesis unfolding repay_def Let_def
    by (rule costs_bind [OF costs_emit costs_bind [OF open_cost rest, where n = 67]]) simp_all
qed

section \<open>What a repay sends\<close>

definition reads :: "'w lend_world_scheme \<Rightarrow> string \<Rightarrow> nat \<Rightarrow> chain_position option \<Rightarrow> device \<Rightarrow> bool" where
  "reads w t k0 x d \<longleftrightarrow> (\<exists>k. k0 \<le> k \<and> k < dv_calls d \<and> lw_read w k t = Got x)"

text \<open>
  A repayment is justified by a read of this run: it is the whole debt read, or the amount asked for, less than that debt.
\<close>

definition justified :: "'w lend_world_scheme \<Rightarrow> string \<Rightarrow> nat \<Rightarrow> string \<Rightarrow> int \<Rightarrow> lend_call \<Rightarrow> device \<Rightarrow> bool" where
  "justified w t k0 repayer amount call d \<longleftrightarrow>
     (\<exists>a c. call = CallRepay repayer (internalTxid t) a \<and> reads w t k0 (Some c) d \<and> cp_status c = ChainActive
        \<and> (a = cp_debtStroops c \<or> a = amount \<and> amount < cp_debtStroops c))"

definition repay_log :: "'w lend_world_scheme \<Rightarrow> string \<Rightarrow> nat \<Rightarrow> string \<Rightarrow> int \<Rightarrow> lend_call list \<Rightarrow> nat \<Rightarrow> device \<Rightarrow> bool" where
  "repay_log w t k0 repayer amount b0 n d \<longleftrightarrow>
     k0 \<le> dv_calls d \<and> (\<exists>new. dv_built d = b0 @ new \<and> length new \<le> n \<and> (\<forall>call\<in>set new. justified w t k0 repayer amount call d))"

lemma reads_mono: "dv_calls d \<le> dv_calls d' \<Longrightarrow> reads w t k0 x d \<Longrightarrow> reads w t k0 x d'"
  by (auto simp: reads_def)

lemma reads_answered: "reads w t k0 x d \<Longrightarrow> reads w t k0 x (d\<lparr>dv_calls := Suc (dv_calls d)\<rparr>)"
  by (erule reads_mono [rotated]) simp

lemma justified_mono: "dv_calls d \<le> dv_calls d' \<Longrightarrow> justified w t k0 repayer amount call d \<Longrightarrow> justified w t k0 repayer amount call d'"
  unfolding justified_def using reads_mono by blast

lemma repay_log_same:
  assumes "dv_built d' = dv_built d" "dv_calls d \<le> dv_calls d'" "repay_log w t k0 repayer amount b0 n d"
  shows "repay_log w t k0 repayer amount b0 n d'"
  using assms justified_mono [OF assms(2)] by (fastforce simp: repay_log_def)

lemma repay_log_le: "repay_log w t k0 repayer amount b0 n d \<Longrightarrow> n \<le> n' \<Longrightarrow> repay_log w t k0 repayer amount b0 n' d"
  by (force simp: repay_log_def)

lemma repay_log_built:
  assumes "repay_log w t k0 repayer amount b0 n d" "justified w t k0 repayer amount call d"
  shows "repay_log w t k0 repayer amount b0 (Suc n) (d\<lparr>dv_built := dv_built d @ [call]\<rparr>)"
proof -
  obtain new where "dv_built d = b0 @ new" "length new \<le> n" "\<forall>call\<in>set new. justified w t k0 repayer amount call d" "k0 \<le> dv_calls d"
    using assms(1) by (auto simp: repay_log_def)
  moreover have "justified w t k0 repayer amount x d \<Longrightarrow> justified w t k0 repayer amount x (d\<lparr>dv_built := dv_built d @ [call]\<rparr>)" for x
    by (erule justified_mono [rotated]) simp
  ultimately show ?thesis using assms(2) unfolding repay_log_def by (intro conjI exI [of _ "new @ [call]"]) (auto simp del: append_assoc)
qed

interpretation repay_log: app_frame "repay_log w t k0 repayer amount b0 n" for w t k0 repayer amount b0 n
  by unfold_locales (auto intro: repay_log_same [rotated -1])

interpretation repay_read: app_frame "\<lambda>d. repay_log w t k0 repayer amount b0 n d \<and> reads w t k0 x d" for w t k0 repayer amount b0 n x
  by unfold_locales (auto intro: repay_log_same [rotated -1] reads_mono [rotated])

lemma triple_of_keeps: "keeps P m \<Longrightarrow> triple P m (\<lambda>_. P) P"
  unfolding keeps_def triple_def by (auto split: prod.split sum.split)

lemma keeps_of_triple:
  assumes "triple P m (\<lambda>_. P) P"
  shows "keeps P m"
  unfolding keeps_def
proof (intro allI impI)
  fix d assume "P d"
  with assms show "P (fst (m d))" by (cases "m d"; cases "snd (m d)") (auto simp: triple_def dest: spec [of _ d])
qed

lemma app_throw: "(\<And>d. P d \<Longrightarrow> E d) \<Longrightarrow> triple P (eff_throw e) Q E"
  by (simp add: triple_def eff_throw_def)

lemma triple_fact: "(c \<Longrightarrow> triple P m Q E) \<Longrightarrow> triple (\<lambda>s. P s \<and> c) m Q E"
  by (simp add: triple_def)

lemma triple_answer:
  "(\<And>d. P d \<Longrightarrow> P (d\<lparr>dv_calls := Suc (dv_calls d)\<rparr>)) \<Longrightarrow> (\<And>k. triple P (g (f k)) Q E) \<Longrightarrow> triple P (eff_bind (ask f) g) Q E"
  by (simp add: triple_def app_bind_ask)

lemma expect_read:
  "triple (repay_log w t k0 repayer amount b0 n) (expect (\<lambda>k. lw_read w k t))
     (\<lambda>x d. repay_log w t k0 repayer amount b0 n d \<and> reads w t k0 x d) (repay_log w t k0 repayer amount b0 n)"
proof -
  have "reads w t k0 x (d\<lparr>dv_calls := Suc (dv_calls d)\<rparr>)" if "lw_read w (dv_calls d) t = Got x" "k0 \<le> dv_calls d" for x d
    using that by (auto simp: reads_def)
  then show ?thesis
    unfolding triple_def expect_def app_bind_ask
    by (auto simp: eff_return_def eff_throw_def repay_log_def [of _ _ _ _ _ _ _ d for d] intro: repay_log.answered split: answer.split)
      (auto simp: repay_log_def intro: justified_mono [rotated])
qed

lemma readAfter_read:
  "triple (repay_log w t k0 repayer amount b0 m) (readAfter w t ledger before n)
     (\<lambda>x d. repay_log w t k0 repayer amount b0 m d \<and> reads w t k0 x d) (repay_log w t k0 repayer amount b0 m)"
proof (induction n)
  case (Suc n)
  have "triple (\<lambda>d. repay_log w t k0 repayer amount b0 m d \<and> reads w t k0 x d) (readAfter w t ledger before n)
     (\<lambda>x d. repay_log w t k0 repayer amount b0 m d \<and> reads w t k0 x d) (repay_log w t k0 repayer amount b0 m)" for x
    by (rule triple_conseq [OF Suc]) auto
  then show ?case unfolding readAfter.simps
    by (intro triple_bind [OF expect_read]) (auto intro: triple_return)
qed (simp add: expect_read)

lemma simulate_built:
  assumes "\<And>d. P d \<Longrightarrow> P (d\<lparr>dv_calls := Suc (dv_calls d)\<rparr>)" "\<And>d. P d \<Longrightarrow> Q (d\<lparr>dv_built := dv_built d @ [c]\<rparr>)"
  shows "triple P (simulateWithRetry w c n) (\<lambda>_. Q) P"
proof (induction n)
  case 0
  then show ?case by (simp add: triple_def eff_throw_def)
next
  case (Suc n)
  have "triple P (case a of
       Got _ \<Rightarrow> eff_modify (\<lambda>d. d\<lparr>dv_built := dv_built d @ [c]\<rparr>)
     | Failed m \<Rightarrow> if isTransientSimulationError m \<and> n \<noteq> 0 then simulateWithRetry w c n else eff_throw (AppError m)
     | Closed \<Rightarrow> eff_throw TabClosed) (\<lambda>_. Q) P" for a :: "unit answer"
    using Suc assms(2) by (cases a) (auto intro!: triple_modify app_throw)
  then show ?case unfolding simulateWithRetry.simps using assms(1) by (intro triple_answer)
qed

lemma triple_expect:
  assumes "\<And>d. P d \<Longrightarrow> P (d\<lparr>dv_calls := Suc (dv_calls d)\<rparr>)" "\<And>d x. P d \<Longrightarrow> f (dv_calls d) = Got x \<Longrightarrow> Q x (d\<lparr>dv_calls := Suc (dv_calls d)\<rparr>)"
  shows "triple P (expect f) Q P"
  using assms by (auto simp: triple_def expect_def app_bind_ask eff_return_def eff_throw_def split: answer.split)

lemma keeps_simulate:
  assumes "\<And>d. P d \<Longrightarrow> P (d\<lparr>dv_calls := Suc (dv_calls d)\<rparr>)" "\<And>d. P d \<Longrightarrow> P (d\<lparr>dv_built := dv_built d @ [c]\<rparr>)"
  shows "keeps P (simulateWithRetry w c n)"
  using assms by (intro keeps_of_triple simulate_built)

lemma repay_send_log:
  assumes "cp_status c = ChainActive" "a = cp_debtStroops c \<or> a = amount \<and> amount < cp_debtStroops c"
  shows "triple (\<lambda>d. repay_log w t k0 repayer amount b0 n d \<and> reads w t k0 (Some c) d) (repay_send w t repayer c a current keepOpen)
     (\<lambda>(h, ledger, updated) d. (repay_log w t k0 repayer amount b0 (Suc n) d \<and> reads w t k0 (Some c) d)
        \<and> ap_debtStroops updated = cp_debtStroops c - a \<and> (a < cp_debtStroops c \<longrightarrow> ap_status updated = LActive))
     (repay_log w t k0 repayer amount b0 (Suc n))"
proof -
  let ?P = "\<lambda>n d. repay_log w t k0 repayer amount b0 n d \<and> reads w t k0 (Some c) d"
  have "?P (Suc n) (d\<lparr>dv_built := dv_built d @ [CallRepay repayer (internalTxid t) a]\<rparr>)" if "?P n d" for d
  proof -
    have "justified w t k0 repayer amount (CallRepay repayer (internalTxid t) a) d" using that assms by (auto simp: justified_def)
    with that repay_log_built show ?thesis by (auto simp: reads_def)
  qed
  then have sim: "triple (?P n) (simulateWritzLend w (CallRepay repayer (internalTxid t) a)) (\<lambda>_. ?P (Suc n)) (repay_log w t k0 repayer amount b0 (Suc n))"
    unfolding simulateWritzLend_def
    by (intro triple_conseq [OF simulate_built [of "?P n" "?P (Suc n)", OF repay_read.answered]]) (auto intro: repay_log_le)
  have submit: "triple (?P (Suc n)) (submitPositionTx w KRepay current updated keepOpen) (\<lambda>_. ?P (Suc n)) (repay_log w t k0 repayer amount b0 (Suc n))" for updated
    by (rule triple_conseq [OF triple_of_keeps [OF repay_read.keeps_position]]) auto
  have shown: "triple (?P n) (emit ev) (\<lambda>_. ?P n) (repay_log w t k0 repayer amount b0 (Suc n))"
    if "ev \<noteq> EAwaitingSignature BitcoinWallet" for ev
    by (rule triple_conseq [OF triple_of_keeps [OF repay_read.keeps_emit [OF that]]]) (auto intro: repay_log_le)
  show ?thesis unfolding repay_send_def Let_def
    using assms(2) by (intro triple_bind [OF shown] triple_bind [OF sim] triple_bind [OF submit]) (auto intro!: triple_return)
qed

text \<open>What a finished repay reports of the loan follows a read of this run.\<close>

definition reported :: "'w lend_world_scheme \<Rightarrow> string \<Rightarrow> nat \<Rightarrow> int \<Rightarrow> app_position \<Rightarrow> device \<Rightarrow> bool" where
  "reported w t k0 amount u d \<longleftrightarrow>
     (\<exists>after. reads w t k0 after d
        \<and> (if \<exists>c. after = Some c \<and> cp_status c = ChainActive
           then ap_status u = LActive
             \<and> (ap_debtStroops u = cp_debtStroops (the after)
                \<or> amount < cp_debtStroops (the after) \<and> ap_debtStroops u = cp_debtStroops (the after) - amount)
           else ap_status u = LClosed \<and> ap_debtStroops u = 0))"

lemma reported_repaid: "reads w t k0 after d \<Longrightarrow> reported w t k0 amount (repaid after p) d"
  by (auto simp: reported_def repaid_def intro!: exI [of _ after] split: option.split)

lemma settle_reported:
  "triple (\<lambda>d. repay_log w t k0 repayer amount b0 m d \<and> reads w t k0 after d)
     (eff_bind (emit (ESettled x)) (\<lambda>_. eff_return (h, repaid after p)))
     (\<lambda>(h, u) d. repay_log w t k0 repayer amount b0 m d \<and> reported w t k0 amount u d) (repay_log w t k0 repayer amount b0 m)"
proof -
  have "triple (\<lambda>d. repay_log w t k0 repayer amount b0 m d \<and> reads w t k0 after d) (emit (ESettled x))
     (\<lambda>_ d. repay_log w t k0 repayer amount b0 m d \<and> reads w t k0 after d) (repay_log w t k0 repayer amount b0 m)"
    by (rule triple_conseq [OF triple_of_keeps [OF repay_read.keeps_emit]]) auto
  then show ?thesis by (rule triple_bind) (auto intro: triple_return reported_repaid)
qed

lemma repay_rest_log:
  "triple (repay_log w t k0 repayer amount b0 m) (repay_rest w t repayer chain result n)
     (\<lambda>(h, u) d. repay_log w t k0 repayer amount b0 (m + n) d \<and> reported w t k0 amount u d) (repay_log w t k0 repayer amount b0 (m + n))"
proof (induction n arbitrary: m chain result)
  case 0
  obtain h ledger updated where "result = (h, ledger, updated)" by (cases result)
  then show ?case by (auto intro!: triple_bind [OF readAfter_read] settle_reported split: option.split)
next
  case (Suc n)
  obtain h ledger updated where result: "result = (h, ledger, updated)" by (cases result)
  let ?Q = "\<lambda>(h, u) d. repay_log w t k0 repayer amount b0 (m + Suc n) d \<and> reported w t k0 amount u d"
  have settle: "triple (\<lambda>d. repay_log w t k0 repayer amount b0 m d \<and> reads w t k0 after d)
     (eff_bind (emit (ESettled x)) (\<lambda>_. eff_return (h, repaid after updated))) ?Q (repay_log w t k0 repayer amount b0 (m + Suc n))" for after x
    by (rule triple_conseq [OF settle_reported]) (auto intro: repay_log_le)
  have again: "triple (\<lambda>d. repay_log w t k0 repayer amount b0 m d \<and> reads w t k0 (Some c) d)
     (eff_bind (repay_send w t repayer c (cp_debtStroops c) updated True) (\<lambda>result. repay_rest w t repayer c result n)) ?Q (repay_log w t k0 repayer amount b0 (m + Suc n))"
    if "cp_status c = ChainActive" for c
  proof (rule triple_bind)
    show "triple (\<lambda>d. repay_log w t k0 repayer amount b0 m d \<and> reads w t k0 (Some c) d) (repay_send w t repayer c (cp_debtStroops c) updated True)
       (\<lambda>_. repay_log w t k0 repayer amount b0 (Suc m)) (repay_log w t k0 repayer amount b0 (m + Suc n))"
      by (rule triple_conseq [OF repay_send_log [OF that, where n = m]]) (auto intro: repay_log_le)
    show "triple (repay_log w t k0 repayer amount b0 (Suc m)) (repay_rest w t repayer c x n) ?Q (repay_log w t k0 repayer amount b0 (m + Suc n))" for x
      using Suc [of "Suc m" c x] by simp
  qed
  have "triple (\<lambda>d. repay_log w t k0 repayer amount b0 m d \<and> reads w t k0 after d) (case (after, Suc n) of
       (Some c, Suc k) \<Rightarrow>
         if cp_status c \<noteq> ChainActive \<or> cp_debtStroops c = 0
         then eff_bind (emit (ESettled (Some h))) (\<lambda>_. eff_return (h, repaid after updated))
         else eff_bind (repay_send w t repayer c (cp_debtStroops c) updated True) (\<lambda>result. repay_rest w t repayer c result k)
     | _ \<Rightarrow> eff_bind (emit (ESettled (Some h))) (\<lambda>_. eff_return (h, repaid after updated))) ?Q (repay_log w t k0 repayer amount b0 (m + Suc n))" for after
    using settle again by (auto split: option.split)
  moreover have "triple (repay_log w t k0 repayer amount b0 m) (readAfter w t ledger before k)
      (\<lambda>after d. repay_log w t k0 repayer amount b0 m d \<and> reads w t k0 after d) (repay_log w t k0 repayer amount b0 (m + Suc n))" for before k
    by (rule triple_conseq [OF readAfter_read [where m = m]]) (auto intro: repay_log_le)
  ultimately show ?case unfolding result repay_rest.simps by (intro triple_bind)
qed

lemma repay_run:
  "triple (repay_log w (ap_txid position) k0 repayer amount b0 0) (repay w position amount repayer)
     (\<lambda>(h, u) d. repay_log w (ap_txid position) k0 repayer amount b0 3 d \<and> reported w (ap_txid position) k0 amount u d)
     (repay_log w (ap_txid position) k0 repayer amount b0 3)"
proof -
  let ?t = "ap_txid position"
  let ?L = "repay_log w ?t k0 repayer amount b0"
  have opened: "triple (?L 0) (requireOpenPosition w ?t repayer)
      (\<lambda>c d. (?L 0 d \<and> reads w ?t k0 (Some c) d) \<and> cp_status c = ChainActive) (?L 3)"
  proof -
    have "triple (?L 0) (expect (\<lambda>k. lw_read w k ?t)) (\<lambda>x d. ?L 0 d \<and> reads w ?t k0 x d) (?L 3)"
      by (rule triple_conseq [OF expect_read [where n = 0]]) (auto intro: repay_log_le)
    then show ?thesis
      unfolding requireOpenPosition_def by (rule triple_bind) (auto intro!: triple_return app_throw intro: repay_log_le split: option.split)
  qed
  have paid: "triple (\<lambda>d. ?L 0 d \<and> reads w ?t k0 (Some c) d) (eff_bind (repay_send w ?t repayer c (fst plan) position (snd plan)) (\<lambda>(h, ledger, updated).
     if \<not> snd plan then eff_return (h, updated)
     else repay_rest w ?t repayer c (h, ledger, updated) MAX_REMAINDER_REPAYS)) (\<lambda>(h, u) d. ?L 3 d \<and> reported w ?t k0 amount u d) (?L 3)"
    if c: "cp_status c = ChainActive" and plan: "plan = repayPlan amount (ap_debtStroops position) (cp_debtStroops c)" for c plan
  proof (rule triple_bind)
    have a: "fst plan = cp_debtStroops c \<or> fst plan = amount \<and> amount < cp_debtStroops c"
      "\<not> snd plan \<Longrightarrow> fst plan = amount \<and> amount < cp_debtStroops c"
      by (auto simp: plan repayPlan_def Let_def)
    show "triple (\<lambda>d. ?L 0 d \<and> reads w ?t k0 (Some c) d) (repay_send w ?t repayer c (fst plan) position (snd plan))
      (\<lambda>(h, ledger, u) d. ?L 1 d \<and> (\<not> snd plan \<longrightarrow> reported w ?t k0 amount u d)) (?L 3)"
      by (rule triple_conseq [OF repay_send_log [OF c a(1), where n = 0]])
        (use a(2) c in \<open>auto simp: reported_def intro: repay_log_le intro!: exI [of _ "Some c"]\<close>)
    show "triple (case x of (h, ledger, u) \<Rightarrow> \<lambda>d. ?L 1 d \<and> (\<not> snd plan \<longrightarrow> reported w ?t k0 amount u d)) (case x of (h, ledger, updated) \<Rightarrow>
       if \<not> snd plan then eff_return (h, updated) else repay_rest w ?t repayer c (h, ledger, updated) MAX_REMAINDER_REPAYS)
       (\<lambda>(h, u) d. ?L 3 d \<and> reported w ?t k0 amount u d) (?L 3)" for x
    proof (cases x)
      case (fields h ledger u)
      have "triple (?L 1) (repay_rest w ?t repayer c (h, ledger, u) MAX_REMAINDER_REPAYS) (\<lambda>(h, u) d. ?L 3 d \<and> reported w ?t k0 amount u d) (?L 3)"
        using repay_rest_log [of w ?t k0 repayer amount b0 1 c "(h, ledger, u)" 2] unfolding MAX_REMAINDER_REPAYS_def by (simp only: one_plus_numeral semiring_norm)
      moreover have "triple (\<lambda>d. ?L 1 d \<and> reported w ?t k0 amount u d) (eff_return (h, u)) (\<lambda>(h, u) d. ?L 3 d \<and> reported w ?t k0 amount u d) (?L 3)"
        by (rule triple_return) (auto intro: repay_log_le)
      ultimately show ?thesis unfolding fields by (cases "snd plan") (simp_all del: repay_rest.simps)
    qed
  qed
  have "triple (?L 0) (emit (EPreparing x)) (\<lambda>_. ?L 0) (?L 3)" for x
    by (rule triple_conseq [OF triple_of_keeps [OF repay_log.keeps_emit [where n = 0]]]) (auto intro: repay_log_le)
  then show ?thesis unfolding repay_def Let_def
    by (intro triple_bind [OF _ triple_bind [OF opened triple_fact]]) (assumption | rule paid [OF _ refl] | simp)+
qed

text \<open>C27. A repay never pays more than is owed and ends: whatever the wallet and the network answer, it builds at most three
  repayments and awaits at most 67 answers; every repayment is the whole debt of an open position read in this run, or
  the amount asked for when that is less than the debt read.\<close>

theorem repay_bounded:
  assumes "repay w position amount repayer d = (d', r)"
  shows "dv_calls d' \<le> dv_calls d + 67
    \<and> (\<exists>new. dv_built d' = dv_built d @ new \<and> length new \<le> 3
        \<and> (\<forall>call\<in>set new. \<exists>a k c. call = CallRepay repayer (internalTxid (ap_txid position)) a
             \<and> dv_calls d \<le> k \<and> k < dv_calls d' \<and> lw_read w k (ap_txid position) = Got (Some c) \<and> cp_status c = ChainActive
             \<and> (a = cp_debtStroops c \<or> a = amount \<and> amount < cp_debtStroops c)))"
proof -
  have "repay_log w (ap_txid position) (dv_calls d) repayer amount (dv_built d) 0 d" by (simp add: repay_log_def)
  then have "repay_log w (ap_txid position) (dv_calls d) repayer amount (dv_built d) 3 d'"
    using repay_run [of w position "dv_calls d" repayer amount "dv_built d"] assms by (cases r) (auto simp: triple_def)
  moreover have "dv_calls d' \<le> dv_calls d + 67" using costs_repay [of w position amount repayer] assms by (simp add: costs_def) (metis fst_conv)
  moreover have "justified w t k0 repayer amount call d' \<Longrightarrow> \<exists>a k c. call = CallRepay repayer (internalTxid t) a
      \<and> k0 \<le> k \<and> k < dv_calls d' \<and> lw_read w k t = Got (Some c) \<and> cp_status c = ChainActive
      \<and> (a = cp_debtStroops c \<or> a = amount \<and> amount < cp_debtStroops c)" for call t k0
    unfolding justified_def reads_def by blast
  ultimately show ?thesis unfolding repay_log_def by meson
qed

text \<open>What a finished repay reports is what the chain said: the loan is closed with no debt exactly when the position
  was read as gone or no longer active, and otherwise its debt is the one read, less a partial repayment.\<close>

theorem repay_reports_chain:
  assumes "repay w position amount repayer d = (d', Inr (h, updated))"
  shows "\<exists>k after. dv_calls d \<le> k \<and> k < dv_calls d' \<and> lw_read w k (ap_txid position) = Got after
    \<and> (if \<exists>c. after = Some c \<and> cp_status c = ChainActive
       then ap_status updated = LActive
         \<and> (ap_debtStroops updated = cp_debtStroops (the after)
            \<or> amount < cp_debtStroops (the after) \<and> ap_debtStroops updated = cp_debtStroops (the after) - amount)
       else ap_status updated = LClosed \<and> ap_debtStroops updated = 0)"
proof -
  have "repay_log w (ap_txid position) (dv_calls d) repayer amount (dv_built d) 0 d" by (simp add: repay_log_def)
  then have "reported w (ap_txid position) (dv_calls d) amount updated d'"
    using repay_run [of w position "dv_calls d" repayer amount "dv_built d"] assms by (auto simp: triple_def)
  then show ?thesis unfolding reported_def reads_def by blast
qed

section \<open>Witnesses\<close>

text \<open>A loan of 100 that has grown to 101 by the time the first repayment lands and is closed by the second.\<close>

definition a_loan :: chain_position where
  "a_loan = \<lparr>cp_txid = ''ab'', cp_status = ChainActive, cp_depositor = ''G'', cp_collateralSats = 0, cp_debtStroops = 100,
     cp_storedDebtStroops = 100, cp_timelockHeight = 0, cp_userPubkey = [], cp_scriptPubKey = [], cp_ledger = 5\<rparr>"

definition a_position :: app_position where
  "a_position = \<lparr>ap_id = ''ab'', ap_owner = ''G'', ap_txid = ''ab'', ap_collateralSats = 0, ap_debtStroops = 100, ap_index = 0,
     ap_status = LActive, ap_createdAt = 0, ap_btcPubkey = None, ap_timelockHeight = None, ap_vout = None,
     ap_releaseTxid = None, ap_releaseAddress = None, ap_stellarTxHash = None\<rparr>"

definition a_lend_world :: lend_world where
  "a_lend_world = \<lparr>sw_sign = (\<lambda>k. SignOk (if k = 2 then ''01'' else ''02'')), sw_send = (\<lambda>_ _. SendOk (Some 7)),
     sw_status = (\<lambda>_ _. Some NOT_FOUND), sw_now = (\<lambda>_. 0),
     lw_read = (\<lambda>k _. Got (Some (if k = 0 then a_loan
        else if k = 5 then a_loan\<lparr>cp_debtStroops := 1, cp_ledger := 7\<rparr>
        else a_loan\<lparr>cp_debtStroops := 0, cp_status := ChainClosed, cp_ledger := 9\<rparr>))),
     lw_simulate = (\<lambda>_ _. Got ()), lw_supply_value = (\<lambda>_ _. Got 0), lw_available = (\<lambda>_. Got 0)\<rparr>"

lemma simulate_got: "lw_simulate w (dv_calls d) c = Got () \<Longrightarrow>
    simulateWritzLend w c d = (d\<lparr>dv_calls := Suc (dv_calls d), dv_built := dv_built d @ [c]\<rparr>, Inr ())"
  by (simp add: simulateWritzLend_def eval_nat_numeral app_bind_ask eff_modify_def)

lemma readAfter_got: "lw_read w (dv_calls d) t = Got x \<Longrightarrow> caughtUp l b x \<Longrightarrow>
    readAfter w t l b READ_ATTEMPTS d = (d\<lparr>dv_calls := Suc (dv_calls d)\<rparr>, Inr x)"
  by (simp add: READ_ATTEMPTS_def eval_nat_numeral expect_def app_defs)

lemma send_in_world:
  "\<exists>d'. repay_send a_lend_world t r c a p b d =
      (d', Inr (if dv_calls d = 1 then ''01'' else ''02'', Some 7,
         p\<lparr>ap_debtStroops := if cp_debtStroops c > a then cp_debtStroops c - a else 0,
           ap_status := if cp_debtStroops c > a then LActive else LClosed\<rparr>))
    \<and> dv_calls d' = dv_calls d + 4 \<and> dv_built d' = dv_built d @ [CallRepay r (internalTxid t) a]"
proof -
  have sim: "simulateWritzLend a_lend_world x d = (d\<lparr>dv_calls := Suc (dv_calls d), dv_built := dv_built d @ [x]\<rparr>, Inr ())" for x d
    by (rule simulate_got) (simp add: a_lend_world_def)
  have answers: "sw_sign a_lend_world k = SignOk (if k = 2 then ''01'' else ''02'')" "sw_send a_lend_world k h = SendOk (Some 7)" "sw_now a_lend_world k = 0" for k h
    by (simp_all add: a_lend_world_def)
  show ?thesis
    by (auto simp: repay_send_def Let_def eff_bind_def [of "emit e" for e] eff_bind_def [of "simulateWritzLend w x" for w x] sim
      submitPositionTx_def on_timeout_def app_catch_def signAndSubmit_def record_tx_def app_defs answers forget_tx_def note_done_def)
qed

lemma repay_evaluates:
  "\<exists>d u. repay a_lend_world a_position 100 ''G'' (fresh_device [a_position]) = (d, Inr (''02'', u)) \<and> ap_status u = LClosed
    \<and> dv_built d = [CallRepay ''G'' (internalTxid ''ab'') 100, CallRepay ''G'' (internalTxid ''ab'') 1]"
proof -
  have reads: "lw_read a_lend_world k t = Got (Some (if k = 0 then a_loan
        else if k = 5 then a_loan\<lparr>cp_debtStroops := 1, cp_ledger := 7\<rparr>
        else a_loan\<lparr>cp_debtStroops := 0, cp_status := ChainClosed, cp_ledger := 9\<rparr>))" for k t
    by (simp add: a_lend_world_def)
  let ?d0 = "(fresh_device [a_position])\<lparr>dv_events := [EPreparing (Some ReadingStep)], dv_calls := 1\<rparr>"
  obtain d1 u1 where d1: "repay_send a_lend_world ''ab'' ''G'' a_loan 100 a_position True ?d0 = (d1, Inr (''01'', Some 7, u1))"
      "dv_calls d1 = 5" "dv_built d1 = [CallRepay ''G'' (internalTxid ''ab'') 100]"
    using send_in_world [of "''ab''" "''G''" a_loan 100 a_position True ?d0] by (auto simp: fresh_device_def)
  let ?rest = "a_loan\<lparr>cp_debtStroops := 1, cp_ledger := 7\<rparr>"
  have r1: "readAfter a_lend_world ''ab'' (Some 7) 100 READ_ATTEMPTS d1 = (d1\<lparr>dv_calls := 6\<rparr>, Inr (Some ?rest))"
    using readAfter_got [of a_lend_world d1 "''ab''" "Some ?rest" "Some 7" 100] by (simp add: d1 reads caughtUp_def)
  obtain d2 u2 where d2: "repay_send a_lend_world ''ab'' ''G'' ?rest 1 u1 True (d1\<lparr>dv_calls := 6\<rparr>) = (d2, Inr (''02'', Some 7, u2))"
      "dv_calls d2 = 10" "dv_built d2 = [CallRepay ''G'' (internalTxid ''ab'') 100, CallRepay ''G'' (internalTxid ''ab'') 1]"
    using send_in_world [of "''ab''" "''G''" ?rest 1 u1 True "d1\<lparr>dv_calls := 6\<rparr>"] d1(3) by auto
  let ?closed = "a_loan\<lparr>cp_debtStroops := 0, cp_status := ChainClosed, cp_ledger := 9\<rparr>"
  have r2: "readAfter a_lend_world ''ab'' (Some 7) 100 READ_ATTEMPTS d2 = (d2\<lparr>dv_calls := 11\<rparr>, Inr (Some ?closed))"
    using readAfter_got [of a_lend_world d2 "''ab''" "Some ?closed" "Some 7" 100] by (simp add: d2 reads caughtUp_def)
  have loan: "cp_storedDebtStroops a_loan = 100" "cp_status a_loan = ChainActive" "cp_depositor a_loan = ''G''" "cp_debtStroops a_loan = 100"
    by (simp_all add: a_loan_def)
  have "repay_rest a_lend_world ''ab'' ''G'' a_loan (''01'', Some 7, u1) (Suc (Suc 0)) d1 =
      (d2\<lparr>dv_calls := 11, dv_events := dv_events d2 @ [ESettled (Some ''02'')]\<rparr>, Inr (''02'', repaid (Some ?closed) u2))"
    by (simp add: eff_bind_def r1 r2 d2(1) loan app_defs)
  moreover have "requireOpenPosition a_lend_world ''ab'' ''G'' (fresh_device [a_position]\<lparr>dv_events := [EPreparing (Some ReadingStep)]\<rparr>) = (?d0, Inr a_loan)"
    by (simp add: requireOpenPosition_def expect_def app_bind_ask reads loan app_defs fresh_device_def)
  moreover have mine: "ap_txid a_position = ''ab''" "ap_debtStroops a_position = 100" "dv_events (fresh_device ps) = []" for ps
    by (simp_all add: a_position_def fresh_device_def)
  ultimately have "repay a_lend_world a_position 100 ''G'' (fresh_device [a_position]) =
      (d2\<lparr>dv_calls := 11, dv_events := dv_events d2 @ [ESettled (Some ''02'')]\<rparr>, Inr (''02'', repaid (Some ?closed) u2))"
    using d1(1) by (simp add: repay_def repayPlan_def Let_def eff_bind_def emit_def eff_modify_def mine loan MAX_REMAINDER_REPAYS_def numeral_2_eq_2
      del: repay_rest.simps)
  then show ?thesis using d2(3) by (simp add: repaid_def)
qed

lemma repay_bounded_witness:
  "dv_calls (fst (repay a_lend_world a_position 100 ''G'' (fresh_device [a_position]))) \<le> 67"
  using repay_bounded [of a_lend_world a_position 100 "''G''" "fresh_device [a_position]", OF prod.collapse [symmetric]]
  by (simp add: fresh_device_def)

lemma repay_reports_chain_witness:
  "\<exists>k after. lw_read a_lend_world k ''ab'' = Got after"
proof -
  obtain d u where "repay a_lend_world a_position 100 ''G'' (fresh_device [a_position]) = (d, Inr (''02'', u))"
    using repay_evaluates by blast
  from repay_reports_chain [OF this] show ?thesis by (auto simp: a_position_def)
qed

end
