(* ===== verification/ReleaseFlow.thy ===== *)
theory ReleaseFlow
  imports RepayHandler AppLock LendFlows
begin

text \<open>
  \<^verbatim>\<open>frontend/app/src/lib/flows/release.ts\<close>: getting the BTC of a repaid loan back. The app waits for the release the
  relayer co-signed and published, checks it, has the user sign it and broadcasts it. A PSBT is its unsigned
  transaction with the data of its inputs, as the app's parser reads it; parsing, the addresses and the scripts they
  stand for are the parameter \<open>app_btc\<close>.
\<close>

record app_input =
  ai_hash :: buffer  \<comment> \<open>the spent transaction, in hashing order\<close>
  ai_index :: nat
  ai_utxo :: "(buffer \<times> int) option"
  ai_script :: "buffer option"
  ai_sigs :: "(buffer \<times> buffer) list"

record app_psbt =
  aq_inputs :: "app_input list"
  aq_outputs :: "(buffer \<times> int) list"

record app_btc =
  ab_lib :: script_lib
  ab_p2wpkh :: "buffer \<Rightarrow> string option"
  ab_to_script :: "string \<Rightarrow> buffer option"
  ab_parse :: "buffer \<Rightarrow> app_psbt option"

section \<open>Before a release\<close>

datatype release_blocker = MissingDetails | NoWallet | WrongAccount | WrongNetwork

definition releaseBlocker :: "app_position \<Rightarrow> string option \<times> string option \<Rightarrow> (string \<Rightarrow> bool) \<Rightarrow> release_blocker option" where
  "releaseBlocker position wal onNetwork =
     (if \<not> given (ap_btcPubkey position) \<or> ap_timelockHeight position \<in> {None, Some 0} \<or> ap_txid position = [] then Some MissingDetails
      else if \<not> given (fst wal) then Some NoWallet
      else if given (snd wal) \<and> toLowerCase (the_string (snd wal)) \<noteq> toLowerCase (the_string (ap_btcPubkey position)) then Some WrongAccount
      else if \<not> onNetwork (the_string (fst wal)) then Some WrongNetwork
      else None)"

section \<open>The check\<close>

datatype release_error =
    MismatchShape
  | MismatchInput
  | MismatchLock
  | MismatchScript
  | MismatchProtocolSig
  | MismatchRecipient
  | MismatchAmount
  | LockUnderivable lock_error
  | NoReleaseAddress

definition releaseAddressOf :: "app_btc \<Rightarrow> string \<Rightarrow> release_error + string" where
  "releaseAddressOf env btcPubkeyHex =
     (case ab_p2wpkh env (bytes_of_hex btcPubkeyHex) of
        Some a \<Rightarrow> if a = [] then Inl NoReleaseAddress else Inr a
      | None \<Rightarrow> Inl NoReleaseAddress)"

record release_quote =
  rq_vout :: nat
  rq_amountSat :: int
  rq_feeSat :: int
  rq_recipient :: string

definition checkReleasePsbt :: "app_btc \<Rightarrow> app_psbt \<Rightarrow> string \<Rightarrow> string \<Rightarrow> string \<Rightarrow> int \<Rightarrow> release_error + release_quote" where
  "checkReleasePsbt env psbt expectedTxid protocolPubkey userPubkey timelockHeight =
     res_bind (err_map LockUnderivable (deriveP2WSH (ab_lib env) protocolPubkey userPubkey timelockHeight)) (\<lambda>lock.
     res_bind (releaseAddressOf env userPubkey) (\<lambda>recipient.
     case (aq_inputs psbt, aq_outputs psbt) of
       ([i], [(outScript, outValue)]) \<Rightarrow>
         if hex_of_bytes (rev (ai_hash i)) \<noteq> toLowerCase expectedTxid then Inl MismatchInput
         else (case ai_utxo i of None \<Rightarrow> Inl MismatchLock | Some (utxoScript, utxoValue) \<Rightarrow>
           if utxoScript \<noteq> pw_scriptPubKey lock then Inl MismatchLock
           else if ai_script i \<noteq> Some (pw_redeemScript lock) then Inl MismatchScript
           else if \<not> list_ex (\<lambda>s. fst s = bytes_of_hex protocolPubkey) (ai_sigs i) then Inl MismatchProtocolSig
           else (case ab_to_script env recipient of None \<Rightarrow> Inl MismatchRecipient | Some own \<Rightarrow>
             if outScript \<noteq> own then Inl MismatchRecipient
             else if utxoValue - outValue < 0 then Inl MismatchAmount
             else Inr \<lparr>rq_vout = ai_index i, rq_amountSat = utxoValue, rq_feeSat = utxoValue - outValue, rq_recipient = recipient\<rparr>))
     | _ \<Rightarrow> Inl MismatchShape))"

section \<open>The flow\<close>

record release_world = lend_world +
  rw_release :: "nat \<Rightarrow> string \<Rightarrow> buffer option answer"
  rw_signPsbt :: "nat \<Rightarrow> app_psbt \<Rightarrow> app_psbt answer"
  rw_broadcast :: "nat \<Rightarrow> app_psbt \<Rightarrow> buffer \<Rightarrow> string answer"

definition release_fails :: "release_error \<Rightarrow> 'a app" where
  "release_fails e = eff_throw (AppError (case e of
       MismatchShape \<Rightarrow> ''ReleaseMismatch: shape''
     | MismatchInput \<Rightarrow> ''ReleaseMismatch: input''
     | MismatchLock \<Rightarrow> ''ReleaseMismatch: lock''
     | MismatchScript \<Rightarrow> ''ReleaseMismatch: script''
     | MismatchProtocolSig \<Rightarrow> ''ReleaseMismatch: protocol signature''
     | MismatchRecipient \<Rightarrow> ''ReleaseMismatch: recipient''
     | MismatchAmount \<Rightarrow> ''ReleaseMismatch: amount''
     | LockUnderivable _ \<Rightarrow> ''Failed to derive P2WSH address''
     | NoReleaseAddress \<Rightarrow> ''Could not derive the release address.''))"

text \<open>A flow whose \<^verbatim>\<open>settled\<close> events are kept from the screen.\<close>

fun is_settled :: "app_error flow_event \<Rightarrow> bool" where
  "is_settled (ESettled _) = True"
| "is_settled _ = False"

definition without_settled :: "'a app \<Rightarrow> 'a app" where
  "without_settled m = (\<lambda>d. case m d of (d', r) \<Rightarrow>
     (d'\<lparr>dv_events := dv_events d @ filter (\<lambda>e. \<not> is_settled e) (drop (length (dv_events d)) (dv_events d'))\<rparr>, r))"

definition closeUnborrowed :: "'w lend_world_scheme \<Rightarrow> string \<Rightarrow> string \<Rightarrow> unit app" where
  "closeUnborrowed w t owner =
     eff_bind (simulateWritzLend w (CallRepay owner (internalTxid t) 0)) (\<lambda>_.
     eff_bind (without_settled (submitTrackedTx w KRepay)) (\<lambda>_. eff_return ()))"

definition COSIGN_POLL_MS :: nat where "COSIGN_POLL_MS = 5000"
definition COSIGN_WAIT_MS :: nat where "COSIGN_WAIT_MS = 600000"
definition COSIGN_POLLS :: nat where "COSIGN_POLLS = COSIGN_WAIT_MS div COSIGN_POLL_MS"

text \<open>The last argument counts the polls left after this one.\<close>

fun await_release :: "'w release_world_scheme \<Rightarrow> string \<Rightarrow> nat \<Rightarrow> buffer app" where
  "await_release w t n =
     eff_bind (expect (\<lambda>k. rw_release w k t)) (\<lambda>raw.
     case raw of
       Some b \<Rightarrow> eff_return b
     | None \<Rightarrow> (case n of 0 \<Rightarrow> eff_throw (AppError ''ReleaseNotCosigned'') | Suc m \<Rightarrow> await_release w t m))"

declare await_release.simps [simp del]

definition input_sigs :: "app_psbt \<Rightarrow> (buffer \<times> buffer) list" where
  "input_sigs p = (case aq_inputs p of [] \<Rightarrow> [] | i # _ \<Rightarrow> ai_sigs i)"

text \<open>Sign, assemble and broadcast a release that has passed the check.\<close>

definition finish_release :: "'w release_world_scheme \<Rightarrow> app_position \<Rightarrow> string \<Rightarrow> string \<Rightarrow> app_psbt \<Rightarrow> release_quote \<Rightarrow> (string \<times> string) app" where
  "finish_release w position protocolPubkey userPubkey psbt quote =
     eff_bind (emit (EAwaitingSignature BitcoinWallet)) (\<lambda>_.
     eff_bind (expect (\<lambda>k. rw_signPsbt w k psbt)) (\<lambda>userSigned.
     eff_bind (emit (EPreparing (Some BroadcastingStep))) (\<lambda>_.
     case res_bind (app_finalizePathA (input_sigs psbt) (ai_script (hd (aq_inputs psbt))) (input_sigs userSigned) protocolPubkey userPubkey)
            app_serializeWitness of
       Inl _ \<Rightarrow> eff_throw (AppError ''signature not found'')
     | Inr witness \<Rightarrow>
         eff_bind (expect (\<lambda>k. rw_broadcast w k psbt witness)) (\<lambda>btcTxid.
         eff_bind (eff_modify (\<lambda>d. d\<lparr>dv_positions := savePosition
           (position\<lparr>ap_status := LReleased, ap_vout := Some (rq_vout quote), ap_releaseTxid := Some btcTxid,
              ap_releaseAddress := Some (rq_recipient quote)\<rparr>) (dv_positions d)\<rparr>)) (\<lambda>_.
         eff_bind (emit (ESettled None)) (\<lambda>_.
         eff_return (btcTxid, rq_recipient quote)))))))"

definition releaseBtc :: "'w release_world_scheme \<Rightarrow> app_btc \<Rightarrow> app_position \<Rightarrow> string option \<Rightarrow> string \<Rightarrow> (string \<times> string) app" where
  "releaseBtc w env position protocol stellarAddress =
     (if \<not> given protocol then eff_throw (AppError ''NEXT_PUBLIC_PROTOCOL_BTC_PUBKEY not configured'')
      else let protocolPubkey = the_string protocol; t = ap_txid position in
      eff_bind (emit (EPreparing (Some ReadingStep))) (\<lambda>_.
      eff_bind (expect (\<lambda>k. lw_read w k t)) (\<lambda>chain.
      case chain of None \<Rightarrow> eff_throw (AppError ''PositionNotFound'') | Some c \<Rightarrow>
      if cp_depositor c \<noteq> stellarAddress then eff_throw (AppError ''Unauthorized'')
      else if cp_status c = ChainLiquidated then eff_throw (AppError ''PositionNotActive'')
      else if cp_status c = ChainActive \<and> cp_debtStroops c > 0 then eff_throw (AppError ''LoanNotRepaid'')
      else
      eff_bind (eff_when (cp_status c = ChainActive) (closeUnborrowed w t stellarAddress)) (\<lambda>_.
      eff_bind (emit (EPreparing (Some CosignStep))) (\<lambda>_.
      eff_bind (await_release w t COSIGN_POLLS) (\<lambda>raw.
      case ab_parse env raw of None \<Rightarrow> eff_throw (AppError ''Invalid PSBT'') | Some psbt \<Rightarrow>
      (case checkReleasePsbt env psbt t protocolPubkey (cp_userPubkey c) (cp_timelockHeight c) of
         Inl e \<Rightarrow> release_fails e
       | Inr quote \<Rightarrow> finish_release w position protocolPubkey (cp_userPubkey c) psbt quote)))))))"

section \<open>What the check means\<close>

lemma checkReleasePsbt_sound:
  assumes "checkReleasePsbt env psbt t p u h = Inr q"
  shows "\<exists>i lock own. aq_inputs psbt = [i] \<and> aq_outputs psbt = [(own, rq_amountSat q - rq_feeSat q)] \<and> 0 \<le> rq_feeSat q
    \<and> deriveP2WSH (ab_lib env) p u h = Inr lock \<and> hex_of_bytes (rev (ai_hash i)) = toLowerCase t \<and> ai_index i = rq_vout q
    \<and> ai_utxo i = Some (pw_scriptPubKey lock, rq_amountSat q) \<and> ai_script i = Some (pw_redeemScript lock)
    \<and> bytes_of_hex p \<in> fst ` set (ai_sigs i)
    \<and> ab_p2wpkh env (bytes_of_hex u) = Some (rq_recipient q) \<and> ab_to_script env (rq_recipient q) = Some own"
proof -
  obtain lock r where l: "deriveP2WSH (ab_lib env) p u h = Inr lock" "releaseAddressOf env u = Inr r"
    using assms by (auto simp: checkReleasePsbt_def res_simps)
  have r: "ab_p2wpkh env (bytes_of_hex u) = Some r" using l(2) by (auto simp: releaseAddressOf_def split: option.splits if_splits)
  show ?thesis
    using assms by (auto simp: checkReleasePsbt_def l r list_ex_iff intro: rev_image_eqI split: list.splits option.splits if_splits prod.splits)
qed

section \<open>What the wallet is asked\<close>

definition unasked :: "app_error flow_event list \<Rightarrow> nat \<Rightarrow> device \<Rightarrow> bool" where
  "unasked e0 k0 d \<longleftrightarrow> k0 \<le> dv_calls d \<and> (\<exists>evs. dv_events d = e0 @ evs \<and> EAwaitingSignature BitcoinWallet \<notin> set evs)"

interpretation unasked: app_frame "\<lambda>d. unasked e0 k0 d \<and> reads w t k0 x d" for e0 k0 w t x
  by unfold_locales (auto simp: unasked_def intro: reads_mono [rotated])

text \<open>What has been read when the wallet is asked: the position, the release, and that the release passes the check.\<close>

definition checked :: "'w release_world_scheme \<Rightarrow> app_btc \<Rightarrow> string \<Rightarrow> string \<Rightarrow> string \<Rightarrow> nat \<Rightarrow> device \<Rightarrow> bool" where
  "checked w env t p owner k0 d \<longleftrightarrow>
     (\<exists>c j raw psbt q. reads w t k0 (Some c) d \<and> cp_depositor c = owner \<and> k0 \<le> j \<and> j < dv_calls d \<and> rw_release w j t = Got (Some raw)
        \<and> ab_parse env raw = Some psbt \<and> checkReleasePsbt env psbt t p (cp_userPubkey c) (cp_timelockHeight c) = Inr q)"

lemma checked_mono: "dv_calls d \<le> dv_calls d' \<Longrightarrow> checked w env t p owner k0 d \<Longrightarrow> checked w env t p owner k0 d'"
  unfolding checked_def using reads_mono by fastforce

lemma keeps_without_settled:
  assumes "keeps (\<lambda>d. unasked e0 k0 d \<and> reads w t k0 x d) m"
  shows "keeps (\<lambda>d. unasked e0 k0 d \<and> reads w t k0 x d) (without_settled m)"
  unfolding keeps_def
proof (intro allI impI)
  fix d assume d: "unasked e0 k0 d \<and> reads w t k0 x d"
  obtain d' r where m: "m d = (d', r)" by fastforce
  then have d': "unasked e0 k0 d'" "reads w t k0 x d'" using assms d unfolding keeps_def by (metis fst_conv)+
  from d obtain e1 where e1: "dv_events d = e0 @ e1" "EAwaitingSignature BitcoinWallet \<notin> set e1" by (auto simp: unasked_def)
  from d' obtain e2 where e2: "dv_events d' = e0 @ e2" "EAwaitingSignature BitcoinWallet \<notin> set e2" "k0 \<le> dv_calls d'" by (auto simp: unasked_def)
  have "EAwaitingSignature BitcoinWallet \<notin> set (e1 @ filter (\<lambda>e. \<not> is_settled e) (drop (length e1) e2))"
    using e1(2) e2(2) by (auto dest: in_set_dropD)
  then show "unasked e0 k0 (fst (without_settled m d)) \<and> reads w t k0 x (fst (without_settled m d))"
    using d'(2) e1(1) e2(1, 3) by (auto simp: without_settled_def m unasked_def reads_def)
qed

lemma keeps_close: "keeps (\<lambda>d. unasked e0 k0 d \<and> reads w' t' k0 x d) (closeUnborrowed w t owner)"
  unfolding closeUnborrowed_def simulateWritzLend_def
  by (intro keeps_bind keeps_simulate keeps_without_settled unasked.keeps_tracked keeps_return unasked.answered)
    (auto simp: unasked_def reads_def)

lemma await_read:
  "triple (\<lambda>d. unasked e0 k0 d \<and> reads w t k0 x d) (await_release w t n)
     (\<lambda>raw d. (unasked e0 k0 d \<and> reads w t k0 x d) \<and> (\<exists>j. k0 \<le> j \<and> j < dv_calls d \<and> rw_release w j t = Got (Some raw)))
     (\<lambda>d. unasked e0 k0 d \<and> reads w t k0 x d)"
proof (induction n)
  let ?P = "\<lambda>d. unasked e0 k0 d \<and> reads w t k0 x d"
  let ?R = "\<lambda>raw d. ?P d \<and> (\<forall>b. raw = Some b \<longrightarrow> (\<exists>j. k0 \<le> j \<and> j < dv_calls d \<and> rw_release w j t = Got (Some b)))"
  have read: "triple ?P (expect (\<lambda>k. rw_release w k t)) ?R ?P"
    by (rule triple_expect) (auto simp: unasked_def intro: reads_answered)
  {
    case 0
    show ?case by (subst await_release.simps) (auto intro!: triple_bind [OF read] triple_return app_throw split: option.split)
  next
    case (Suc n)
    have "triple (?R None) (await_release w t n) (\<lambda>raw d. ?P d \<and> (\<exists>j. k0 \<le> j \<and> j < dv_calls d \<and> rw_release w j t = Got (Some raw))) ?P"
      by (rule triple_conseq [OF Suc]) auto
    then show ?case by (subst await_release.simps) (auto intro!: triple_bind [OF read] triple_return split: option.split)
  }
qed

lemma keeps_finish: "keeps (checked w' env t p' owner k0) (finish_release w position p u psbt q)"
proof -
  have mono: "dv_calls (fst (m d)) \<ge> dv_calls d \<Longrightarrow> checked w' env t p' owner k0 d \<Longrightarrow> checked w' env t p' owner k0 (fst (m d))" for m :: "'x app" and d
    by (rule checked_mono)
  have emit: "keeps (checked w' env t p' owner k0) (emit ev)" for ev by (auto simp: keeps_def app_defs intro: checked_mono [rotated])
  have exp: "keeps (checked w' env t p' owner k0) (expect f)" for f :: "nat \<Rightarrow> 'x answer"
    using costs_expect [of f] unfolding keeps_def costs_def by (blast intro: checked_mono)
  have exp': "keeps (checked w' env t p' owner k0) (expect f)" for f :: "nat \<Rightarrow> string answer"
    using costs_expect [of f] unfolding keeps_def costs_def by (blast intro: checked_mono)
  have exp2: "keeps (checked w' env t p' owner k0) (expect f)" for f :: "nat \<Rightarrow> app_psbt answer"
    using costs_expect [of f] unfolding keeps_def costs_def by (blast intro: checked_mono)
  show ?thesis unfolding finish_release_def
    by (intro keeps_bind emit exp' exp2 keeps_sum keeps_throw keeps_return keeps_modify) (auto intro: checked_mono [rotated])
qed

lemma release_run:
  "triple (unasked e0 k0) (releaseBtc w env position protocol owner)
     (\<lambda>_. checked w env (ap_txid position) (the_string protocol) owner k0)
     (\<lambda>d. unasked e0 k0 d \<or> checked w env (ap_txid position) (the_string protocol) owner k0 d)"
proof (cases "given protocol")
  case True
  let ?t = "ap_txid position" and ?p = "the_string protocol"
  let ?C = "checked w env ?t ?p owner k0"
  let ?E = "\<lambda>d. unasked e0 k0 d \<or> ?C d"
  let ?U = "\<lambda>c d. unasked e0 k0 d \<and> reads w ?t k0 (Some c) d"
  have nonempty: "\<not> \<not> given protocol" using True by simp
  have start: "triple (unasked e0 k0) (emit (EPreparing x)) (\<lambda>_. unasked e0 k0) ?E" for x
    by (auto simp: triple_def app_defs unasked_def)
  have read: "triple (unasked e0 k0) (expect (\<lambda>k. lw_read w k ?t)) (\<lambda>x d. unasked e0 k0 d \<and> reads w ?t k0 x d) ?E"
    by (rule triple_conseq [OF triple_expect [of "unasked e0 k0"]]) (auto simp: unasked_def reads_def)
  have shown: "triple (?U c) (emit (EPreparing x)) (\<lambda>_. ?U c) ?E" for c x
    by (rule triple_conseq [OF triple_of_keeps [OF unasked.keeps_emit]]) auto
  have close: "triple (?U c) (eff_when b (closeUnborrowed w ?t owner)) (\<lambda>_. ?U c) ?E" for b c
    by (rule triple_conseq [OF triple_of_keeps [OF keeps_when [OF keeps_close]]]) auto
  have await: "triple (?U c) (await_release w ?t COSIGN_POLLS)
      (\<lambda>raw d. ?U c d \<and> (\<exists>j. k0 \<le> j \<and> j < dv_calls d \<and> rw_release w j ?t = Got (Some raw))) ?E" for c
    by (rule triple_conseq [OF await_read]) auto
  have finish: "triple (\<lambda>d. ?U c d \<and> (\<exists>j. k0 \<le> j \<and> j < dv_calls d \<and> rw_release w j ?t = Got (Some raw)))
      (finish_release w position ?p (cp_userPubkey c) psbt q) (\<lambda>_. ?C) ?E"
    if "cp_depositor c = owner" "ab_parse env raw = Some psbt" "checkReleasePsbt env psbt ?t ?p (cp_userPubkey c) (cp_timelockHeight c) = Inr q" for c raw psbt q
    by (rule triple_conseq [OF triple_of_keeps [OF keeps_finish [of w env ?t ?p owner k0]]]) (use that in \<open>unfold checked_def, blast+\<close>)
  have signed: "triple (\<lambda>d. ?U c d \<and> (\<exists>j. k0 \<le> j \<and> j < dv_calls d \<and> rw_release w j ?t = Got (Some raw)))
      (case ab_parse env raw of None \<Rightarrow> eff_throw (AppError ''Invalid PSBT'') | Some psbt \<Rightarrow>
      (case checkReleasePsbt env psbt ?t ?p (cp_userPubkey c) (cp_timelockHeight c) of
         Inl e \<Rightarrow> release_fails e
       | Inr quote \<Rightarrow> finish_release w position ?p (cp_userPubkey c) psbt quote)) (\<lambda>_. ?C) ?E" if "cp_depositor c = owner" for c raw
    using finish [OF that] by (auto intro: app_throw split: option.split sum.split simp: release_fails_def)
  have cosign: "triple (?U c) (eff_bind (eff_when b (closeUnborrowed w ?t owner)) (\<lambda>_.
      eff_bind (emit (EPreparing (Some CosignStep))) (\<lambda>_.
      eff_bind (await_release w ?t COSIGN_POLLS) (\<lambda>raw.
      case ab_parse env raw of None \<Rightarrow> eff_throw (AppError ''Invalid PSBT'') | Some psbt \<Rightarrow>
      (case checkReleasePsbt env psbt ?t ?p (cp_userPubkey c) (cp_timelockHeight c) of
         Inl e \<Rightarrow> release_fails e
       | Inr quote \<Rightarrow> finish_release w position ?p (cp_userPubkey c) psbt quote))))) (\<lambda>_. ?C) ?E" if "cp_depositor c = owner" for b c
    by (intro triple_bind [OF close] triple_bind [OF shown] triple_bind [OF await] signed that)
  show ?thesis
    unfolding releaseBtc_def Let_def if_not_P [OF nonempty]
    by (rule triple_bind [OF start], rule triple_bind [OF read], rule triple_option) (intro triple_if app_throw cosign; simp)+
qed (simp add: releaseBtc_def app_throw)

section \<open>Properties\<close>


text \<open>The relayer's PSBT as the app's parser reads it back.\<close>

definition parsed :: "app_btc \<Rightarrow> psbt \<Rightarrow> app_psbt option" where
  "parsed env p =
     (if \<exists>x\<in>set (ps_outputs p). ab_to_script env (fst x) = None then None
      else Some \<lparr>aq_inputs = map (\<lambda>i. \<lparr>ai_hash = rev (bytes_of_hex (pi_hash i)), ai_index = pi_index i,
             ai_utxo = Some (pi_script i, pi_value i), ai_script = pi_witnessScript i, ai_sigs = pi_partialSig i\<rparr>) (ps_inputs p),
           aq_outputs = map (\<lambda>x. (the (ab_to_script env (fst x)), snd x)) (ps_outputs p)\<rparr>)"

text \<open>What the relayer publishes the app accepts: the release the repay watcher builds and co-signs for a position passes
  the app's check against that same position, and the quote shown names the position's amount, the relayer's fee and the
  address of the depositor's own key.\<close>

theorem published_release_accepted:
  assumes psbt: "release_psbt dp b = Inr (Some psbt)" and posn: "hd_get_position dp b = Inr (Some posn)"
    and same: "ab_lib env = hd_lib dp" "ab_p2wpkh env = hd_p2wpkh dp" "bytes_of_hex p = hd_signerKey dp"
    and scripts: "\<And>k a. ab_p2wpkh env k = Some a \<Longrightarrow> a \<noteq> [] \<and> ab_to_script env a \<noteq> None"
    and fee: "0 \<le> hd_feeSat dp"
  shows "\<exists>q vout. parsed env psbt \<noteq> None
    \<and> checkReleasePsbt env (the (parsed env psbt)) (reverseHex (hex_of_bytes b)) p (hex_of_bytes (po_user_pubkey posn)) (po_timelock posn) = Inr q
    \<and> q = \<lparr>rq_vout = vout, rq_amountSat = po_sats posn, rq_feeSat = hd_feeSat dp, rq_recipient = the (hd_p2wpkh dp (po_user_pubkey posn))\<rparr>"
proof -
  from psbt posn obtain script raw vout addr sig i where r:
    "buildRedeemScript (hd_lib dp) (hd_signerKey dp) (po_user_pubkey posn) (po_timelock posn) = Inr script"
    "snd (p2wsh (hd_lib dp) script) = Some (po_script posn)"
    "i = spend_input \<lparr>sp_txidHex = reverseHex (hex_of_bytes b), sp_vout = vout, sp_amountSat = po_sats posn, sp_scriptPubKey = po_script posn,
          sp_redeemScript = script, sp_recipientAddress = addr, sp_feeSat = hd_feeSat dp\<rparr> 0xfffffffe"
    "hd_p2wpkh dp (po_user_pubkey posn) = Some addr"
    "psbt = \<lparr>ps_locktime = 0, ps_inputs = [add_sig (hd_signerKey dp) sig i], ps_outputs = [(addr, po_sats posn - hd_feeSat dp)]\<rparr>"
    by (elim release_psbt_cases) simp
  obtain dep where dep: "deriveDepositAddress (hd_lib dp) \<lparr>lp_protocol = hd_signerKey dp, lp_user = po_user_pubkey posn, lp_timelock = po_timelock posn\<rparr> = Inr dep"
    using psbt posn by (auto simp: release_psbt_def res_simps Let_def simp del: reverseHex_hex split: option.splits if_splits)
  with derived_script [OF dep] r(1, 2) have lock: "da_redeemScript dep = script" "da_scriptPubKey dep = po_script posn" by auto
  have derived: "deriveP2WSH (hd_lib dp) p (hex_of_bytes (po_user_pubkey posn)) (po_timelock posn)
      = Inr \<lparr>pw_address = da_address dep, pw_scriptPubKey = po_script posn, pw_redeemScript = script\<rparr>"
    using dep lock by (simp add: deriveP2WSH_agrees same)
  obtain own where own: "ab_to_script env addr = Some own" "addr \<noteq> []" using scripts [of "po_user_pubkey posn" addr] r(4) same by auto
  have view: "parsed env psbt = Some \<lparr>aq_inputs = [\<lparr>ai_hash = b, ai_index = vout, ai_utxo = Some (po_script posn, po_sats posn),
        ai_script = Some script, ai_sigs = [(hd_signerKey dp, sig)]\<rparr>], aq_outputs = [(own, po_sats posn - hd_feeSat dp)]\<rparr>"
    by (simp add: parsed_def r(3, 5) own add_sig_def spend_input_def)
  show ?thesis
    using fee by (simp add: view checkReleasePsbt_def same derived releaseAddressOf_def r(4) own)
qed

section \<open>Witnesses\<close>

definition ex_btc :: app_btc where
  "ex_btc = \<lparr>ab_lib = hd_lib ex_deps, ab_p2wpkh = hd_p2wpkh ex_deps, ab_to_script = (\<lambda>_. Some [0]),
     ab_parse = (\<lambda>_. Some \<lparr>aq_inputs = [\<lparr>ai_hash = [0xAB], ai_index = 1, ai_utxo = Some ([0, 2, 9, 9], 50000), ai_script = Some [7],
       ai_sigs = [(replicate 33 2, [1])]\<rparr>], aq_outputs = [([0], 49500)]\<rparr>)\<rparr>"

definition ex_release_world :: release_world where
  "ex_release_world = \<lparr>sw_sign = (\<lambda>_. SignClosed), sw_send = (\<lambda>_ _. SendClosed), sw_status = (\<lambda>_ _. None), sw_now = (\<lambda>_. 0),
     lw_read = (\<lambda>_ _. Got (Some (a_loan\<lparr>cp_status := ChainClosed, cp_debtStroops := 0, cp_userPubkey := concat (replicate 33 ''03''),
       cp_timelockHeight := 100000\<rparr>))),
     lw_simulate = (\<lambda>_ _. Closed), lw_supply_value = (\<lambda>_ _. Closed), lw_available = (\<lambda>_. Closed),
     rw_release = (\<lambda>_ _. Got (Some [1])), rw_signPsbt = (\<lambda>_ _. Closed), rw_broadcast = (\<lambda>_ _ _. Closed)\<rparr>"

lemma await_got: "rw_release w (dv_calls d) t = Got (Some b) \<Longrightarrow> eff_bind (await_release w t n) g d = g b (d\<lparr>dv_calls := Suc (dv_calls d)\<rparr>)"
  by (subst await_release.simps) (simp add: expect_def eff_bind_def ask_def eff_return_def)

lemma keys_of_hex:
  "bytes_of_hex (concat (replicate 33 ''02'')) = replicate 33 2" "bytes_of_hex (concat (replicate 33 ''03'')) = replicate 33 3"
  by code_simp+

lemma ex_check:
  "\<exists>psbt q. ab_parse ex_btc [1] = Some psbt
    \<and> checkReleasePsbt ex_btc psbt ''ab'' (concat (replicate 33 ''02'')) (concat (replicate 33 ''03'')) 100000 = Inr q"
proof -
  have "hex_of_bytes [0xAB] = ''ab''" "toLowerCase ''ab'' = ''ab''" by code_simp+
  then show ?thesis
    by (simp add: ex_btc_def checkReleasePsbt_def deriveP2WSH_def app_buildRedeemScript_def keys_of_hex releaseAddressOf_def ex_deps_def
      del: replicate.simps)
qed


lemma published_release_accepted_witness:
  "\<exists>psbt q. release_psbt ex_deps [1, 2] = Inr (Some psbt)
    \<and> checkReleasePsbt ex_btc (the (parsed ex_btc psbt)) (reverseHex (hex_of_bytes [1, 2])) (concat (replicate 33 ''02'')) (hex_of_bytes (replicate 33 3)) 100000 = Inr q"
proof -
  obtain psbt where psbt: "release_psbt ex_deps [1, 2] = Inr (Some psbt)" using ex_release by blast
  have "hd_get_position ex_deps [1, 2] = Inr (Some \<lparr>po_user_pubkey = replicate 33 3, po_timelock = 100000, po_script = [0, 2, 9, 9], po_sats = 50000\<rparr>)"
    by (simp add: ex_deps_def)
  from published_release_accepted [OF psbt this, of ex_btc "concat (replicate 33 ''02'')"] psbt show ?thesis
    by (auto simp: ex_btc_def ex_deps_def keys_of_hex)
qed

end
