(* ===== verification/Discover.thy ===== *)
theory Discover
  imports LendFlows
begin

text \<open>
  \<^verbatim>\<open>frontend/app/src/lib/flows/discover.ts\<close>: a wallet's loans found again from the chain. The contract has no owner index,
  so the deposits come from the account's history at Horizon; each is confirmed with \<^verbatim>\<open>get_position\<close> and saved, and the
  loans already on the device are refreshed the same way. Decoding XDR, dates and the hash are parameters.
\<close>

section \<open>Deposits in the account's history\<close>

record deposit_call =
  dc_txid :: string
  dc_stellarTxHash :: string
  dc_at :: int

datatype native_value = NativeString string | NativeBytes buffer | NativeOther

record horizon_op =
  ho_type :: string
  ho_successful :: "bool option"
  ho_hash :: string
  ho_created_at :: string
  ho_parameters :: "string list option"  \<comment> \<open>base64 XDR values\<close>

record history_lib =
  hl_native :: "string \<Rightarrow> native_value option"  \<comment> \<open>\<^const>\<open>None\<close> where decoding raises\<close>
  hl_sha256 :: "buffer \<Rightarrow> buffer"
  hl_date :: "string \<Rightarrow> int"

definition DEPOSITOR_ARG :: nat where "DEPOSITOR_ARG = 0"
definition RAW_TX_ARG :: nat where "RAW_TX_ARG = 4"
definition MAX_PAGES :: nat where "MAX_PAGES = 25"

definition txidOfRawTx :: "history_lib \<Rightarrow> buffer \<Rightarrow> string" where
  "txidOfRawTx lib raw = hex_of_bytes (rev (hl_sha256 lib (hl_sha256 lib raw)))"

definition depositCallOf :: "history_lib \<Rightarrow> horizon_op \<Rightarrow> string \<Rightarrow> string \<Rightarrow> deposit_call option" where
  "depositCallOf lib op contractId owner =
     (if ho_type op \<noteq> ''invoke_host_function'' \<or> ho_successful op = Some False then None
      else let params = (case ho_parameters op of Some ps \<Rightarrow> ps | None \<Rightarrow> []) in
      if length params < 2 + RAW_TX_ARG + 1 then None
      else if hl_native lib (params ! 0) \<noteq> Some (NativeString contractId) \<or> hl_native lib (params ! 1) \<noteq> Some (NativeString ''deposit'') then None
      else let args = drop 2 params in
      if hl_native lib (args ! DEPOSITOR_ARG) \<noteq> Some (NativeString owner) then None
      else (case hl_native lib (args ! RAW_TX_ARG) of
              Some (NativeBytes raw) \<Rightarrow>
                Some \<lparr>dc_txid = txidOfRawTx lib raw, dc_stellarTxHash = ho_hash op, dc_at = hl_date lib (ho_created_at op)\<rparr>
            | _ \<Rightarrow> None))"

datatype history_page = PageMissing | PageError nat | Page "horizon_op list" "string option"

record history_world = lend_world +
  hw_page :: "nat \<Rightarrow> string \<Rightarrow> history_page answer"
  hw_findVout :: "nat \<Rightarrow> string \<Rightarrow> string \<Rightarrow> nat option answer"
  hw_lib :: history_lib

text \<open>The pages from a link on, newest first; the last argument counts the pages left.\<close>

fun deposit_pages :: "'w history_world_scheme \<Rightarrow> string \<Rightarrow> string \<Rightarrow> string option \<Rightarrow> nat \<Rightarrow> deposit_call list app" where
  "deposit_pages w owner contractId url 0 = eff_return []"
| "deposit_pages w owner contractId url (Suc n) =
     (case url of
        None \<Rightarrow> eff_return []
      | Some u \<Rightarrow>
          if u = [] then eff_return [] else
          eff_bind (expect (\<lambda>k. hw_page w k u)) (\<lambda>page.
          case page of
            PageMissing \<Rightarrow> eff_return []
          | PageError s \<Rightarrow> eff_throw (AppError (''Horizon error '' @ dec_str s))
          | Page records link \<Rightarrow>
              eff_bind (deposit_pages w owner contractId (if length records = 200 then link else None) n) (\<lambda>rest.
              eff_return (List.map_filter (\<lambda>op. depositCallOf (hw_lib w) op contractId owner) records @ rest))))"

definition horizonDepositCalls :: "'w history_world_scheme \<Rightarrow> string \<Rightarrow> string \<Rightarrow> string \<Rightarrow> deposit_call list app" where
  "horizonDepositCalls w owner horizonUrl contractId =
     eff_bind (deposit_pages w owner contractId (Some (horizonUrl @ ''/accounts/'' @ owner @ ''/operations?order=desc&limit=200'')) MAX_PAGES)
       (\<lambda>calls. eff_return (rev calls))"

section \<open>One loan\<close>

definition localStatus :: "chain_position \<Rightarrow> app_position option \<Rightarrow> local_status" where
  "localStatus chain prior =
     (if cp_status chain = ChainLiquidated then LLiquidated
      else if map_option ap_status prior = Some LReleased then LReleased
      else case cp_status chain of ChainActive \<Rightarrow> LActive | ChainClosed \<Rightarrow> LClosed | ChainLiquidated \<Rightarrow> LLiquidated)"

definition or_else :: "'a option \<Rightarrow> 'a option \<Rightarrow> 'a option" where
  "or_else x y = (case x of Some a \<Rightarrow> Some a | None \<Rightarrow> y)"

definition mergeChainPosition :: "chain_position \<Rightarrow> app_position option \<Rightarrow> string \<Rightarrow> int \<Rightarrow> int \<Rightarrow> string option \<Rightarrow> nat option \<Rightarrow> app_position" where
  "mergeChainPosition chain prior owner index createdAt stellarTxHash vout =
     \<lparr>ap_id = cp_txid chain, ap_owner = owner, ap_txid = cp_txid chain, ap_collateralSats = cp_collateralSats chain,
      ap_debtStroops = cp_debtStroops chain, ap_index = (case prior of Some p \<Rightarrow> ap_index p | None \<Rightarrow> index),
      ap_status = localStatus chain prior, ap_createdAt = (case prior of Some p \<Rightarrow> ap_createdAt p | None \<Rightarrow> createdAt),
      ap_btcPubkey = Some (cp_userPubkey chain), ap_timelockHeight = Some (cp_timelockHeight chain),
      ap_vout = or_else (Option.bind prior ap_vout) vout,
      ap_releaseTxid = Option.bind prior ap_releaseTxid, ap_releaseAddress = Option.bind prior ap_releaseAddress,
      ap_stellarTxHash = or_else (Option.bind prior ap_stellarTxHash) stellarTxHash\<rparr>"

function next_from :: "int \<Rightarrow> int list \<Rightarrow> int" where
  "next_from i taken = (if i \<in> set taken then next_from (i + 1) taken else i)"
  by auto
termination
proof (relation "measure (\<lambda>(i, taken). length (filter (\<lambda>j. j \<ge> i) taken))")
  fix i :: int and taken assume i: "i \<in> set taken"
  have "length (filter (\<lambda>j. j \<ge> i + 1) taken) < length (filter (\<lambda>j. j \<ge> i) taken)"
    using i
  proof (induction taken)
    case (Cons a xs)
    have "length (filter (\<lambda>j. j \<ge> i + 1) xs) \<le> length (filter (\<lambda>j. j \<ge> i) xs)" by (rule length_filter_mono) simp
    with Cons show ?case by auto
  qed simp
  then show "((i + 1, taken), i, taken) \<in> measure (\<lambda>(i, taken). length (filter (\<lambda>j. j \<ge> i) taken))" by simp
qed simp

declare next_from.simps [simp del]

definition nextIndex :: "int list \<Rightarrow> int" where
  "nextIndex used = next_from 0 used"

definition sync_index :: "string \<Rightarrow> app_position list \<Rightarrow> pending_deposit option \<Rightarrow> int option \<Rightarrow> int" where
  "sync_index t here pending given_index =
     (case find (\<lambda>p. ap_id p = t) here of
        Some p \<Rightarrow> ap_index p
      | None \<Rightarrow> (case given_index of Some i \<Rightarrow> i | None \<Rightarrow>
         (case pending of
            Some pd \<Rightarrow> if pd_btcTxid pd = t then pd_positionIndex pd else nextIndex (map ap_index here @ [pd_positionIndex pd])
          | None \<Rightarrow> nextIndex (map ap_index here))))"

definition syncPosition :: "'w history_world_scheme \<Rightarrow> string \<Rightarrow> string \<Rightarrow> string option \<Rightarrow> int option \<Rightarrow> int option \<Rightarrow> app_position option app" where
  "syncPosition w owner t stellarTxHash createdAt index =
     eff_bind (expect (\<lambda>k. lw_read w k t)) (\<lambda>chain.
     case chain of None \<Rightarrow> eff_return None | Some c \<Rightarrow>
     if cp_depositor c \<noteq> owner then eff_return None else
     eff_bind (eff_gets (\<lambda>d. read_positions (dv_positions d))) (\<lambda>here.
     let prior = find (\<lambda>p. ap_id p = t) here in
     eff_bind (case Option.bind prior ap_vout of
                 Some v \<Rightarrow> eff_return (Some v)
               | None \<Rightarrow> app_catch (expect (\<lambda>k. hw_findVout w k t (cp_scriptPubKey c))) (\<lambda>_. eff_return None)) (\<lambda>vout.
     eff_bind (eff_gets dv_deposit) (\<lambda>pending.
     eff_bind (case createdAt of Some x \<Rightarrow> eff_return x | None \<Rightarrow> ask (sw_now w)) (\<lambda>created.
     let position = mergeChainPosition c prior owner (sync_index t here pending index) created stellarTxHash vout in
     eff_bind (eff_modify (\<lambda>d. d\<lparr>dv_positions := savePosition position (dv_positions d)\<rparr>)) (\<lambda>_.
     eff_return (Some position)))))))"

section \<open>All loans\<close>

definition js_unique :: "'a list \<Rightarrow> 'a list" where
  "js_unique xs = rev (remdups (rev xs))"

fun sync_each :: "'w history_world_scheme \<Rightarrow> string \<Rightarrow> deposit_call list \<Rightarrow> string list \<Rightarrow> string list \<Rightarrow> nat app" where
  "sync_each w owner calls known [] = eff_return 0"
| "sync_each w owner calls known (t # ts) =
     eff_bind (let call = find (\<lambda>c. dc_txid c = t) calls in
        syncPosition w owner t (map_option dc_stellarTxHash call) (map_option dc_at call) None) (\<lambda>position.
     eff_bind (sync_each w owner calls known ts) (\<lambda>found.
     eff_return ((if position \<noteq> None \<or> t \<in> set known then 1 else 0) + found)))"

definition discoverPositions :: "'w history_world_scheme \<Rightarrow> string \<Rightarrow> string \<Rightarrow> string \<Rightarrow> (nat \<times> nat) app" where
  "discoverPositions w owner horizonUrl contractId =
     eff_bind (horizonDepositCalls w owner horizonUrl contractId) (\<lambda>calls.
     eff_bind (eff_gets (\<lambda>d. js_unique (map ap_id (read_positions (dv_positions d))))) (\<lambda>known.
     eff_bind (sync_each w owner calls known (js_unique (known @ map dc_txid calls))) (\<lambda>found.
     eff_return (found, length calls))))"

section \<open>Loans keep their numbers\<close>

definition loans :: "device \<Rightarrow> app_position list" where
  "loans d = read_positions (dv_positions d)"

text \<open>
  Loans are numbered apart, and no other loan has the number the deposit in progress reserved.
\<close>

definition numbered :: "app_position list \<Rightarrow> pending_deposit option \<Rightarrow> bool" where
  "numbered ps pending \<longleftrightarrow> distinct (map ap_id ps) \<and> distinct (map ap_index ps)
     \<and> (\<forall>pd\<in>set_option pending. \<forall>p\<in>set ps. ap_id p \<noteq> pd_btcTxid pd \<longrightarrow> ap_index p \<noteq> pd_positionIndex pd)"

definition kept_in :: "app_position list \<Rightarrow> app_position list \<Rightarrow> bool" where
  "kept_in ps qs \<longleftrightarrow> (\<forall>p\<in>set ps. \<exists>q\<in>set qs. ap_id q = ap_id p \<and> ap_index q = ap_index p \<and> ap_createdAt q = ap_createdAt p)"

lemma kept_in_refl [simp]: "kept_in ps ps"
  by (auto simp: kept_in_def)

lemma kept_in_trans: "kept_in ps qs \<Longrightarrow> kept_in qs rs \<Longrightarrow> kept_in ps rs"
  unfolding kept_in_def by metis

lemma next_from_fresh: "next_from i taken \<notin> set taken"
proof (induction i taken rule: next_from.induct)
  case (1 i taken)
  then show ?case by (subst next_from.simps) auto
qed

lemma set_replace_at: "distinct (map ap_id ps) \<Longrightarrow> set (replace_at p ps) = insert p {q \<in> set ps. ap_id q \<noteq> ap_id p}"
  by (induction ps) (auto simp: image_iff)

lemma distinct_replace_at: "distinct (map ap_id ps) \<Longrightarrow> distinct (map ap_id (replace_at p ps))"
proof (induction ps)
  case (Cons q ps)
  then have "set (replace_at p ps) = insert p {q \<in> set ps. ap_id q \<noteq> ap_id p}" by (simp add: set_replace_at)
  with Cons show ?case by auto
qed simp

lemma index_replace_at:
  "distinct (map ap_id ps) \<Longrightarrow> distinct (map ap_index ps) \<Longrightarrow> (\<And>q. q \<in> set ps \<Longrightarrow> ap_id q \<noteq> ap_id p \<Longrightarrow> ap_index q \<noteq> ap_index p) \<Longrightarrow>
    distinct (map ap_index (replace_at p ps))"
proof (induction ps)
  case (Cons q ps)
  then have set: "set (replace_at p ps) = insert p {q \<in> set ps. ap_id q \<noteq> ap_id p}" by (simp add: set_replace_at)
  show ?case
  proof (cases "ap_id q = ap_id p")
    case True
    then have "x \<in> set ps \<Longrightarrow> ap_index x \<noteq> ap_index p" for x using Cons.prems(1, 3) by (metis image_eqI distinct.simps(2) list.set_intros(2) list.simps(9) set_map)
    then show ?thesis using True Cons.prems(2) by force
  next
    case False
    then have "ap_index q \<noteq> ap_index p" using Cons.prems(3) by simp
    then show ?thesis using False Cons.IH Cons.prems set by auto
  qed
qed simp

lemma read_save: "isWritzLend p \<Longrightarrow> read_positions (savePosition p ps) = replace_at p (read_positions ps)"
proof -
  have "\<forall>q\<in>set qs. isWritzLend q \<Longrightarrow> isWritzLend p \<Longrightarrow> filter isWritzLend (replace_at p qs) = replace_at p qs" for qs
    by (induction qs) auto
  then show "isWritzLend p \<Longrightarrow> ?thesis" by (simp add: savePosition_def read_positions_def)
qed

lemma merged_numbered:
  assumes here: "numbered here pending" and txid: "cp_txid c = t"
    and index: "\<And>i. given_index = Some i \<Longrightarrow> (\<forall>q\<in>set here. ap_id q \<noteq> t \<longrightarrow> ap_index q \<noteq> i)
        \<and> (\<forall>pd\<in>set_option pending. t \<noteq> pd_btcTxid pd \<longrightarrow> i \<noteq> pd_positionIndex pd)"
  shows "numbered (replace_at (mergeChainPosition c (find (\<lambda>p. ap_id p = t) here) owner (sync_index t here pending given_index) created h v) here) pending
    \<and> kept_in here (replace_at (mergeChainPosition c (find (\<lambda>p. ap_id p = t) here) owner (sync_index t here pending given_index) created h v) here)"
proof -
  let ?prior = "find (\<lambda>p. ap_id p = t) here"
  let ?p = "mergeChainPosition c ?prior owner (sync_index t here pending given_index) created h v"
  have p: "ap_id ?p = t" "ap_index ?p = sync_index t here pending given_index"
    by (simp_all add: mergeChainPosition_def txid sync_index_def split: option.split)
  have d: "distinct (map ap_id here)" "distinct (map ap_index here)" using here by (simp_all add: numbered_def)
  have prior: "q \<in> set here \<Longrightarrow> ap_id q = t \<Longrightarrow> ?prior = Some q" for q
    using d(1) by (induction here) (auto simp: image_iff split: if_splits)
  have some: "q \<in> set here \<and> ap_id q = t" if "?prior = Some q" for q
    using that by (auto simp: find_Some_iff)
  have fresh: "nextIndex (map ap_index here @ xs) \<notin> ap_index ` set here \<union> set xs" for xs
    using next_from_fresh [of 0 "map ap_index here @ xs"] by (simp add: nextIndex_def)
  have apart: "ap_index q \<noteq> sync_index t here pending given_index" if q: "q \<in> set here" "ap_id q \<noteq> t" for q
  proof (cases ?prior)
    case (Some p')
    with some [OF Some] d(2) q show ?thesis by (auto simp: sync_index_def distinct_map inj_on_def)
  next
    case None
    show ?thesis
    proof (cases given_index)
      case (Some i)
      with None index q show ?thesis by (auto simp: sync_index_def)
    next
      case None2: None
      have "ap_index q \<noteq> pd_positionIndex pd" if "pending = Some pd" "pd_btcTxid pd = t" for pd
        using here q that by (auto simp: numbered_def)
      moreover have "ap_index q \<noteq> nextIndex (map ap_index here @ xs)" for xs using fresh [of xs] q(1) by (metis UnI1 image_eqI)
      moreover have "ap_index q \<noteq> nextIndex (map ap_index here)" using fresh [of "[]"] q(1) by (metis UnI1 append_Nil2 image_eqI)
      ultimately show ?thesis using None None2 by (auto simp: sync_index_def split: option.split)
    qed
  qed
  have reserved: "sync_index t here pending given_index \<noteq> pd_positionIndex pd" if pd: "pending = Some pd" "t \<noteq> pd_btcTxid pd" for pd
  proof (cases ?prior)
    case (Some p')
    with some [OF Some] here pd show ?thesis by (auto simp: sync_index_def numbered_def)
  next
    case None
    have "nextIndex (map ap_index here @ [pd_positionIndex pd]) \<noteq> pd_positionIndex pd" using fresh [of "[pd_positionIndex pd]"] by auto
    with None pd index show ?thesis by (cases given_index) (auto simp: sync_index_def)
  qed
  have set: "set (replace_at ?p here) = insert ?p {q \<in> set here. ap_id q \<noteq> t}" using set_replace_at [OF d(1), of ?p] p(1) by simp
  have "ap_index q \<noteq> pd_positionIndex pd" if "pending = Some pd" "q \<in> set (replace_at ?p here)" "ap_id q \<noteq> pd_btcTxid pd" for pd q
  proof (cases "q = ?p")
    case True
    with that(1, 3) p reserved [of pd] show ?thesis by metis
  next
    case False
    with that set here show ?thesis by (auto simp: numbered_def)
  qed
  moreover have "distinct (map ap_index (replace_at ?p here))" using index_replace_at [OF d, of ?p] apart p by metis
  ultimately have "numbered (replace_at ?p here) pending"
    using distinct_replace_at [OF d(1), of ?p] by (auto simp: numbered_def)
  moreover have "kept_in here (replace_at ?p here)"
    unfolding kept_in_def
  proof
    fix q assume q: "q \<in> set here"
    show "\<exists>q'\<in>set (replace_at ?p here). ap_id q' = ap_id q \<and> ap_index q' = ap_index q \<and> ap_createdAt q' = ap_createdAt q"
    proof (cases "ap_id q = t")
      case True
      have "ap_index ?p = ap_index q" "ap_createdAt ?p = ap_createdAt q"
        using prior [OF q True] by (simp_all add: mergeChainPosition_def)
      moreover have "?p \<in> set (replace_at ?p here)" using set by simp
      ultimately show ?thesis using True p(1) by metis
    qed (use q set in auto)
  qed
  ultimately show ?thesis by simp
qed

definition loans_kept :: "app_position list \<Rightarrow> pending_deposit option \<Rightarrow> device \<Rightarrow> bool" where
  "loans_kept ps pending d \<longleftrightarrow> dv_deposit d = pending \<and> numbered (loans d) pending \<and> kept_in ps (loans d)"

interpretation loans_kept: app_invariant "\<lambda>d. loans_kept ps pending d \<and> loans d = here" for ps pending here
  by unfold_locales (auto simp: loans_kept_def loans_def)

interpretation loans_stay: app_invariant "loans_kept ps pending" for ps pending
  by unfold_locales (simp_all add: loans_kept_def loans_def)

context app_invariant
begin

lemma keeps_expect [intro, simp]: "keeps P (expect f)"
proof -
  have "keeps P (case a of Got x \<Rightarrow> eff_return x | Failed m \<Rightarrow> eff_throw (AppError m) | Closed \<Rightarrow> eff_throw TabClosed)" for a :: "'a answer"
    by (cases a) auto
  then show ?thesis unfolding expect_def by (rule keeps_answer)
qed

end

lemma sync_keeps:
  assumes named: "\<And>k c. lw_read w k t = Got (Some c) \<Longrightarrow> cp_txid c = t"
    and index: "\<And>i here. given_index = Some i \<Longrightarrow> numbered here pending \<Longrightarrow> (\<forall>q\<in>set here. ap_id q \<noteq> t \<longrightarrow> ap_index q \<noteq> i)
        \<and> (\<forall>pd\<in>set_option pending. t \<noteq> pd_btcTxid pd \<longrightarrow> i \<noteq> pd_positionIndex pd)"
  shows "keeps (loans_kept ps pending) (syncPosition w owner t h created given_index)"
proof -
  let ?J = "loans_kept ps pending"
  have read: "triple ?J (expect (\<lambda>k. lw_read w k t)) (\<lambda>x d. ?J d \<and> (\<forall>c. x = Some c \<longrightarrow> cp_txid c = t)) ?J"
    unfolding triple_def expect_def app_bind_ask
    by (auto simp: eff_return_def eff_throw_def dest: named intro: loans_stay.answered split: answer.split)
  have saved: "triple (\<lambda>d. ?J d \<and> loans d = here) (eff_modify (\<lambda>d. d\<lparr>dv_positions := savePosition p (dv_positions d)\<rparr>)) (\<lambda>_. ?J) ?J"
    if "p = mergeChainPosition c (find (\<lambda>p. ap_id p = t) here) owner (sync_index t here pending given_index) x h v" "cp_txid c = t" for p c x v here
  proof (rule triple_modify)
    fix d assume d: "?J d \<and> loans d = here"
    then have n: "numbered here pending" by (auto simp: loans_kept_def)
    have "isWritzLend p" by (simp add: that isWritzLend_def mergeChainPosition_def)
    then have "loans (d\<lparr>dv_positions := savePosition p (dv_positions d)\<rparr>) = replace_at p here"
      using d by (auto simp: loans_def read_save)
    moreover have "numbered (replace_at p here) pending \<and> kept_in here (replace_at p here)"
      unfolding that(1) by (rule merged_numbered [OF n that(2)]) (use index n in blast)
    ultimately show "?J (d\<lparr>dv_positions := savePosition p (dv_positions d)\<rparr>)"
      using d by (auto simp: loans_kept_def intro: kept_in_trans)
  qed
  have vout: "triple (\<lambda>d. ?J d \<and> loans d = here) (case o' of
                 Some v \<Rightarrow> eff_return (Some v)
               | None \<Rightarrow> app_catch (expect f) (\<lambda>_. eff_return None)) (\<lambda>_ d. ?J d \<and> loans d = here) ?J" for o' f here
    by (rule triple_conseq [OF triple_of_keeps [of "\<lambda>d. ?J d \<and> loans d = here"]])
      (auto intro!: loans_kept.keeps_app_catch loans_kept.keeps_expect split: option.split)
  have clock: "triple (\<lambda>d. ?J d \<and> loans d = here) (case created of Some x \<Rightarrow> eff_return x | None \<Rightarrow> ask (sw_now w)) (\<lambda>_ d. ?J d \<and> loans d = here) ?J" for here
    by (rule triple_conseq [OF triple_of_keeps [of "\<lambda>d. ?J d \<and> loans d = here"]])
      (auto intro!: loans_kept.keeps_answer_only split: option.split)
  have deposit: "triple (\<lambda>d. ?J d \<and> loans d = here) (eff_gets dv_deposit) (\<lambda>x d. (?J d \<and> loans d = here) \<and> x = pending) ?J" for here
    by (rule triple_gets) (auto simp: loans_kept_def)
  have "triple ?J (case chain of None \<Rightarrow> eff_return None | Some c \<Rightarrow>
     if cp_depositor c \<noteq> owner then eff_return None else
     eff_bind (eff_gets (\<lambda>d. read_positions (dv_positions d))) (\<lambda>here.
     let prior = find (\<lambda>p. ap_id p = t) here in
     eff_bind (case Option.bind prior ap_vout of
                 Some v \<Rightarrow> eff_return (Some v)
               | None \<Rightarrow> app_catch (expect (\<lambda>k. hw_findVout w k t (cp_scriptPubKey c))) (\<lambda>_. eff_return None)) (\<lambda>vout.
     eff_bind (eff_gets dv_deposit) (\<lambda>pending.
     eff_bind (case created of Some x \<Rightarrow> eff_return x | None \<Rightarrow> ask (sw_now w)) (\<lambda>created.
     let position = mergeChainPosition c prior owner (sync_index t here pending given_index) created h vout in
     eff_bind (eff_modify (\<lambda>d. d\<lparr>dv_positions := savePosition position (dv_positions d)\<rparr>)) (\<lambda>_.
     eff_return (Some position))))))) (\<lambda>_. ?J) ?J" if "\<And>c. chain = Some c \<Longrightarrow> cp_txid c = t" for chain
  proof (cases chain)
    case (Some c)
    have gets: "triple ?J (eff_gets (\<lambda>d. read_positions (dv_positions d))) (\<lambda>here d. ?J d \<and> loans d = here) ?J"
      by (rule triple_gets) (simp add: loans_def)
    have rest: "triple (\<lambda>d. ?J d \<and> loans d = here) (eff_bind (case created of Some x \<Rightarrow> eff_return x | None \<Rightarrow> ask (sw_now w)) (\<lambda>created.
     eff_bind (eff_modify (\<lambda>d. d\<lparr>dv_positions := savePosition (mergeChainPosition c (find (\<lambda>p. ap_id p = t) here) owner
        (sync_index t here pend given_index) created h vout) (dv_positions d)\<rparr>)) (\<lambda>_.
     eff_return (Some (mergeChainPosition c (find (\<lambda>p. ap_id p = t) here) owner (sync_index t here pend given_index) created h vout))))) (\<lambda>_. ?J) ?J"
      if "pend = pending" for pend vout here
      unfolding that by (rule triple_bind [OF clock], rule triple_bind [OF saved [OF refl \<open>\<And>c. chain = Some c \<Longrightarrow> cp_txid c = t\<close> [OF Some]]], rule triple_return)
    show ?thesis unfolding Some option.case Let_def
      by (intro triple_if triple_return triple_bind [OF gets] triple_bind [OF vout] triple_bind [OF deposit] triple_fact rest; assumption)
  qed (auto intro: triple_return)
  then have "triple ?J (syncPosition w owner t h created given_index) (\<lambda>_. ?J) ?J"
    unfolding syncPosition_def by (intro triple_bind [OF read] triple_fact) blast
  then show ?thesis by (rule keeps_of_triple)
qed

lemma sync_each_keeps:
  assumes named: "\<And>k t c. lw_read w k t = Got (Some c) \<Longrightarrow> cp_txid c = t"
  shows "keeps (loans_kept ps pending) (sync_each w owner calls known ts)"
  by (induction ts) (auto simp: Let_def intro!: keeps_bind sync_keeps named)

lemma deposit_pages_keeps: "keeps (loans_kept ps pending) (deposit_pages w owner c url n)"
proof (induction n arbitrary: url)
  case (Suc n)
  have "keeps (loans_kept ps pending) (case page of
            PageMissing \<Rightarrow> eff_return []
          | PageError s \<Rightarrow> eff_throw (AppError (''Horizon error '' @ dec_str s))
          | Page records link \<Rightarrow>
              eff_bind (deposit_pages w owner c (if length records = 200 then link else None) n) (\<lambda>rest.
              eff_return (List.map_filter (\<lambda>op. depositCallOf (hw_lib w) op c owner) records @ rest)))" for page
    using Suc by (cases page) auto
  then have "keeps (loans_kept ps pending) (eff_bind (expect (\<lambda>k. hw_page w k u)) (\<lambda>page. case page of
            PageMissing \<Rightarrow> eff_return []
          | PageError s \<Rightarrow> eff_throw (AppError (''Horizon error '' @ dec_str s))
          | Page records link \<Rightarrow>
              eff_bind (deposit_pages w owner c (if length records = 200 then link else None) n) (\<lambda>rest.
              eff_return (List.map_filter (\<lambda>op. depositCallOf (hw_lib w) op c owner) records @ rest))))" for u
    by (intro keeps_bind loans_stay.keeps_expect)
  then show ?case unfolding deposit_pages.simps by (intro keeps_option keeps_if keeps_return)
qed (simp add: keeps_return)

text \<open>C29. Rediscovering a wallet's loans loses and renumbers nothing: whatever Horizon and the contract answer, every loan
  on the device stays there under its number and with its date, loans found have numbers of their own, and none takes the
  number the deposit in progress reserved, even where the scan stops with an error.\<close>

theorem discovery_keeps_loans:
  assumes named: "\<And>k t c. lw_read w k t = Got (Some c) \<Longrightarrow> cp_txid c = t"
    and start: "numbered (loans d) (dv_deposit d)"
    and run: "discoverPositions w owner url c d = (d', r)"
  shows "numbered (loans d') (dv_deposit d') \<and> dv_deposit d' = dv_deposit d
    \<and> (\<forall>p\<in>set (loans d). \<exists>q\<in>set (loans d'). ap_id q = ap_id p \<and> ap_index q = ap_index p \<and> ap_createdAt q = ap_createdAt p)"
proof -
  have "keeps (loans_kept (loans d) (dv_deposit d)) (discoverPositions w owner url c)"
    unfolding discoverPositions_def horizonDepositCalls_def
    by (intro keeps_bind deposit_pages_keeps keeps_return keeps_gets sync_each_keeps named)
  moreover have "loans_kept (loans d) (dv_deposit d) d" using start by (simp add: loans_kept_def)
  ultimately show ?thesis using run by (auto simp: keeps_def loans_kept_def kept_in_def dest: spec [of _ d])
qed

definition ex_history_world :: history_world where
  "ex_history_world = \<lparr>sw_sign = (\<lambda>_. SignClosed), sw_send = (\<lambda>_ _. SendClosed), sw_status = (\<lambda>_ _. None), sw_now = (\<lambda>_. 5),
     lw_read = (\<lambda>_ t. Got (Some (a_loan\<lparr>cp_txid := t\<rparr>))), lw_simulate = (\<lambda>_ _. Closed), lw_supply_value = (\<lambda>_ _. Closed), lw_available = (\<lambda>_. Closed),
     hw_page = (\<lambda>_ _. Got (Page [\<lparr>ho_type = ''invoke_host_function'', ho_successful = None, ho_hash = ''h'', ho_created_at = ''7'',
       ho_parameters = Some [''C'', ''deposit'', ''G'', ''x'', ''x'', ''x'', ''raw'']\<rparr>] None)),
     hw_findVout = (\<lambda>_ _ _. Failed ''503''),
     hw_lib = \<lparr>hl_native = (\<lambda>s. Some (if s = ''raw'' then NativeBytes [0xCD] else NativeString s)), hl_sha256 = (\<lambda>b. b), hl_date = (\<lambda>_. 7)\<rparr>\<rparr>"

lemma discovery_keeps_loans_witness:
  "\<exists>d r. discoverPositions ex_history_world ''G'' ''u'' ''C'' (fresh_device [a_position]) = (d, r)
    \<and> numbered (loans d) None \<and> (\<exists>q\<in>set (loans d). ap_id q = ''ab'' \<and> ap_index q = 0)"
proof -
  let ?d = "fresh_device [a_position]"
  obtain d r where run: "discoverPositions ex_history_world ''G'' ''u'' ''C'' ?d = (d, r)" by fastforce
  have "numbered (loans ?d) (dv_deposit ?d)" "dv_deposit ?d = None" "a_position \<in> set (loans ?d)" "ap_id a_position = ''ab''" "ap_index a_position = 0"
    by (simp_all add: numbered_def fresh_device_def loans_def read_positions_def isWritzLend_def a_position_def)
  moreover have "lw_read ex_history_world k t = Got (Some c) \<Longrightarrow> cp_txid c = t" for k t c by (auto simp: ex_history_world_def)
  ultimately show ?thesis using discovery_keeps_loans [OF _ _ run] run by (metis (no_types, lifting))
qed

end
