(* ===== verification/DepositFlow.thy ===== *)
theory DepositFlow
  imports AppLock Discover TxLock
begin

text \<open>
  \<^verbatim>\<open>flow/pendingDeposit.ts\<close> and \<^verbatim>\<open>flows/deposit.ts\<close> under \<^verbatim>\<open>frontend/app/src/lib\<close>: a deposit from the wallet's payment of
  BTC to the registered position. What was sent is remembered before anything else, and every start of the flow reads
  the chain first and goes on from there. The loops that wait run until the tab closes or the flow is aborted; their
  fuel counts the turns a tab lives to make, and running out of it is a closed tab.
\<close>

section \<open>The pending deposit\<close>

datatype resume_action =
    LocateOutput
  | WaitConfirmations
  | AwaitStellar string
  | Finalize
  | Conflict string

definition planResume :: "pending_deposit \<Rightarrow> string option \<Rightarrow> tx_status option \<Rightarrow> int \<Rightarrow> resume_action" where
  "planResume pd depositorForTxid stellarTx t =
     (if given depositorForTxid
      then if the_string depositorForTxid = pd_stellarAddress pd then Finalize else Conflict (the_string depositorForTxid)
      else
        let young = t - (case pd_stellarSubmittedAt pd of Some s \<Rightarrow> s | None \<Rightarrow> pd_updatedAt pd) < STELLAR_TX_TTL_MS in
        if given (pd_stellarTxHash pd) \<and> stellarTx \<noteq> Some FAILED \<and> (stellarTx = Some SUCCESS \<or> young)
        then AwaitStellar (the_string (pd_stellarTxHash pd))
        else if pd_vout pd = None then LocateOutput
        else WaitConfirmations)"

definition pd_save :: "(nat \<Rightarrow> int) \<Rightarrow> pending_deposit \<Rightarrow> pending_deposit app" where
  "pd_save clock pd =
     eff_bind (ask clock) (\<lambda>t.
     eff_bind (eff_modify (\<lambda>d. d\<lparr>dv_deposit := Some (pd\<lparr>pd_updatedAt := t\<rparr>)\<rparr>)) (\<lambda>_.
     eff_return (pd\<lparr>pd_updatedAt := t\<rparr>)))"

definition pd_update :: "(nat \<Rightarrow> int) \<Rightarrow> (pending_deposit \<Rightarrow> pending_deposit) \<Rightarrow> pending_deposit option app" where
  "pd_update clock patch =
     eff_bind (ask clock) (\<lambda>t.
     eff_bind (eff_gets dv_deposit) (\<lambda>current.
     case current of
       None \<Rightarrow> eff_return None
     | Some pd \<Rightarrow>
         eff_bind (eff_modify (\<lambda>d. d\<lparr>dv_deposit := Some ((patch pd)\<lparr>pd_updatedAt := t\<rparr>)\<rparr>)) (\<lambda>_.
         eff_return (Some ((patch pd)\<lparr>pd_updatedAt := t\<rparr>)))))"

definition pd_clear :: "unit app" where
  "pd_clear = eff_modify (\<lambda>d. d\<lparr>dv_deposit := None\<rparr>)"

text \<open>An update whose result the code uses at once: it fails where there is none.\<close>

definition pd_updated :: "(nat \<Rightarrow> int) \<Rightarrow> (pending_deposit \<Rightarrow> pending_deposit) \<Rightarrow> pending_deposit app" where
  "pd_updated clock patch = eff_bind (pd_update clock patch) (\<lambda>r.
     case r of Some pd \<Rightarrow> eff_return pd | None \<Rightarrow> eff_throw (AppError ''null''))"

section \<open>The world of a deposit\<close>

record spv_bundle =
  sb_rawTxNoWitness :: string
  sb_block_hash :: string
  sb_merkle_proof :: "string list"
  sb_tx_index :: int
  sb_raw_tx :: string

datatype spv_poll = SpvReady spv_bundle | SpvWaiting nat "nat option"

datatype output_lookup = OutputAt nat int | OutputUnseen | OutputMissing

record deposit_lock =
  dl_p2wsh :: string
  dl_timelockHeight :: int

datatype deposit_lookup = DepositAt deposit_lock nat int | DepositUnseen | DepositMissing

record deposit_world = history_world +
  dw_pollSpv :: "nat \<Rightarrow> string \<Rightarrow> spv_poll answer"
  dw_findOutput :: "nat \<Rightarrow> string \<Rightarrow> string \<Rightarrow> output_lookup answer"
  dw_rawTx :: "nat \<Rightarrow> string \<Rightarrow> string option answer"  \<comment> \<open>Esplora's transaction, or that it has none\<close>
  dw_tip :: "nat \<Rightarrow> int answer"
  dw_outs :: "string \<Rightarrow> tx_out list option"  \<comment> \<open>\<^verbatim>\<open>Transaction.fromHex\<close>\<close>
  dw_keySig :: "nat \<Rightarrow> string \<Rightarrow> string answer"
  dw_base64 :: "string \<Rightarrow> buffer"
  dw_sendBtc :: "nat \<Rightarrow> string \<Rightarrow> int \<Rightarrow> string answer"
  dw_sleep :: "nat \<Rightarrow> unit answer"  \<comment> \<open>fails when the flow is aborted\<close>
  dw_aborted :: "nat \<Rightarrow> bool"
  dw_lib :: script_lib
  dw_protocolPubkey :: "string option"
  dw_contractId :: string
  dw_minConfirmations :: nat
  dw_minDepositSats :: int

definition requireProtocolPubkey :: "'w deposit_world_scheme \<Rightarrow> string app" where
  "requireProtocolPubkey w = (if given (dw_protocolPubkey w) then eff_return (the_string (dw_protocolPubkey w))
     else eff_throw (AppError ''NEXT_PUBLIC_PROTOCOL_BTC_PUBKEY is not configured.''))"

definition spvProofUrl :: "'w deposit_world_scheme \<Rightarrow> string \<Rightarrow> string \<Rightarrow> string" where
  "spvProofUrl w base t = base @ ''/spv-proof/'' @ t @ ''?confirmations='' @ dec_str (min 20 (max 1 (dw_minConfirmations w)))"

section \<open>Starting\<close>

definition reservePositionIndex :: "int list \<Rightarrow> int app" where
  "reservePositionIndex used =
     eff_bind (eff_gets (\<lambda>d. nextPositionIndex (used @ dv_reserved d))) (\<lambda>index.
     eff_bind (eff_modify (\<lambda>d. d\<lparr>dv_reserved := dv_reserved d @ [index]\<rparr>)) (\<lambda>_. eff_return index))"

definition releasePositionIndex :: "int \<Rightarrow> unit app" where
  "releasePositionIndex index = eff_modify (\<lambda>d. d\<lparr>dv_reserved := filter (\<lambda>i. i \<noteq> index) (dv_reserved d)\<rparr>)"

definition newPending :: "string \<Rightarrow> string \<Rightarrow> deposit_lock \<Rightarrow> string \<Rightarrow> int \<Rightarrow> int \<Rightarrow> nat option \<Rightarrow> int \<Rightarrow> pending_deposit" where
  "newPending owner btcPubkey lock btcTxid sats positionIndex vout t =
     \<lparr>pd_btcTxid = btcTxid, pd_sats = sats, pd_vout = vout, pd_p2wsh = dl_p2wsh lock, pd_btcPubkey = btcPubkey,
      pd_timelockHeight = dl_timelockHeight lock, pd_stellarAddress = owner, pd_positionIndex = positionIndex,
      pd_step = (if vout = None then Sent else Confirming), pd_confirmations = None, pd_required = None,
      pd_stellarTxHash = None, pd_stellarSubmittedAt = None, pd_createdAt = t, pd_updatedAt = t\<rparr>"

definition startDepositBySending ::
    "'w deposit_world_scheme \<Rightarrow> string \<Rightarrow> string \<Rightarrow> int list \<Rightarrow> deposit_lock \<Rightarrow> int \<Rightarrow> pending_deposit app" where
  "startDepositBySending w owner btcPubkey usedIndices lock sats =
     eff_bind (reservePositionIndex usedIndices) (\<lambda>index.
     eff_bind (emit (EAwaitingSignature BitcoinWallet)) (\<lambda>_.
     eff_bind (app_catch (expect (\<lambda>k. dw_sendBtc w k (dl_p2wsh lock) sats))
        (\<lambda>e. eff_bind (releasePositionIndex index) (\<lambda>_. eff_throw e))) (\<lambda>t.
     eff_bind (ask (sw_now w)) (\<lambda>now.
     pd_save (sw_now w) (newPending owner btcPubkey lock (toLowerCase t) sats index None now)))))"

definition locateDeposit :: "'w deposit_world_scheme \<Rightarrow> string \<Rightarrow> string \<Rightarrow> deposit_lookup app" where
  "locateDeposit w t btcPubkey =
     eff_bind (app_catch (expect (\<lambda>k. dw_rawTx w k t)) (\<lambda>_. eff_return None)) (\<lambda>raw.
     case raw of
       None \<Rightarrow> eff_return DepositUnseen
     | Some text \<Rightarrow>
         eff_bind (requireProtocolPubkey w) (\<lambda>protocolPubkey.
         eff_bind (expect (dw_tip w)) (\<lambda>tip.
         case dw_outs w (trim text) of
           None \<Rightarrow> eff_throw (AppError ''Invalid transaction'')
         | Some outs \<Rightarrow>
             (case findDepositOutput (dw_lib w) protocolPubkey btcPubkey outs tip None of
                Inl _ \<Rightarrow> eff_throw (AppError ''Failed to derive P2WSH address'')
              | Inr None \<Rightarrow> eff_return DepositMissing
              | Inr (Some out) \<Rightarrow>
                  (case deriveP2WSH (dw_lib w) protocolPubkey btcPubkey (do_timelockHeight out) of
                     Inl _ \<Rightarrow> eff_throw (AppError ''Failed to derive P2WSH address'')
                   | Inr addr \<Rightarrow> eff_return (DepositAt \<lparr>dl_p2wsh = pw_address addr, dl_timelockHeight = do_timelockHeight out\<rparr>
                       (do_vout out) (do_valueSats out)))))))"

definition startDepositFromTxid :: "'w deposit_world_scheme \<Rightarrow> string \<Rightarrow> string \<Rightarrow> int list \<Rightarrow> string \<Rightarrow> pending_deposit app" where
  "startDepositFromTxid w owner btcPubkey usedIndices pasted =
     (let t = toLowerCase (trim pasted) in
      eff_bind (emit (EPreparing (Some LocatingOutput))) (\<lambda>_.
      eff_bind (locateDeposit w t btcPubkey) (\<lambda>out.
      case out of
        DepositUnseen \<Rightarrow> eff_throw (AppError ''Bitcoin hasn't seen this transaction yet.'')
      | DepositMissing \<Rightarrow> eff_throw (AppError ''This transaction does not pay your deposit address.'')
      | DepositAt lock vout sats \<Rightarrow>
          eff_bind (reservePositionIndex usedIndices) (\<lambda>index.
          eff_bind (ask (sw_now w)) (\<lambda>now.
          pd_save (sw_now w) (newPending owner btcPubkey lock t sats index (Some vout) now))))))"

section \<open>Following a deposit\<close>

text \<open>Three attempts, the last argument counting those left after this one.\<close>

fun withRetry :: "'w deposit_world_scheme \<Rightarrow> 'a app \<Rightarrow> nat \<Rightarrow> 'a app" where
  "withRetry w run 0 = run"
| "withRetry w run (Suc n) =
     app_catch run (\<lambda>e.
     eff_bind (ask (dw_aborted w)) (\<lambda>aborted.
     if aborted then eff_throw e
     else eff_bind (expect (dw_sleep w)) (\<lambda>_. withRetry w run n)))"

fun locateOutput :: "'w deposit_world_scheme \<Rightarrow> pending_deposit \<Rightarrow> nat \<Rightarrow> pending_deposit option app" where
  "locateOutput w pd 0 = eff_throw TabClosed"
| "locateOutput w pd (Suc n) =
     eff_bind (expect (\<lambda>k. dw_findOutput w k (pd_btcTxid pd) (pd_p2wsh pd))) (\<lambda>out.
     case out of
       OutputMissing \<Rightarrow> eff_throw (AppError ''This transaction does not pay your deposit address.'')
     | OutputAt vout sats \<Rightarrow> pd_update (sw_now w) (\<lambda>p. p\<lparr>pd_vout := Some vout, pd_sats := sats, pd_step := Confirming\<rparr>)
     | OutputUnseen \<Rightarrow> eff_bind (expect (dw_sleep w)) (\<lambda>_. locateOutput w pd n))"

text \<open>
  One turn of the wait fails when the poll does, or the sleep after it; either way an aborted flow stops with that error
  and any other turn is made again after a longer sleep.
\<close>

fun waitForConfirmations :: "'w deposit_world_scheme \<Rightarrow> pending_deposit \<Rightarrow> nat \<Rightarrow> nat \<Rightarrow> spv_bundle app" where
  "waitForConfirmations w pd required 0 = eff_throw TabClosed"
| "waitForConfirmations w pd required (Suc n) =
     (let again = (\<lambda>e p req.
        eff_bind (ask (dw_aborted w)) (\<lambda>aborted.
        if aborted then eff_throw (AppError e) else
        eff_bind (emit (ERelayerUnreachable req)) (\<lambda>_.
        eff_bind (expect (dw_sleep w)) (\<lambda>_. waitForConfirmations w p req n)))) in
      eff_bind (ask (\<lambda>k. dw_pollSpv w k (pd_btcTxid pd))) (\<lambda>poll.
      case poll of
        Closed \<Rightarrow> eff_throw TabClosed
      | Failed e \<Rightarrow> again e pd required
      | Got (SpvReady bundle) \<Rightarrow> eff_return bundle
      | Got (SpvWaiting confirmations required') \<Rightarrow>
          let req = (case required' of Some r \<Rightarrow> r | None \<Rightarrow> required) in
          eff_bind (emit (EBtcConfirmations confirmations req)) (\<lambda>_.
          eff_bind (if Some confirmations \<noteq> pd_confirmations pd \<or> Some req \<noteq> pd_required pd
             then eff_bind (pd_update (sw_now w) (\<lambda>p. p\<lparr>pd_confirmations := Some confirmations, pd_required := Some req, pd_step := Confirming\<rparr>))
                (\<lambda>r. eff_return (case r of Some p \<Rightarrow> p | None \<Rightarrow> pd))
             else eff_return pd) (\<lambda>p.
          eff_bind (ask (dw_sleep w)) (\<lambda>slept.
          case slept of
            Closed \<Rightarrow> eff_throw TabClosed
          | Failed e \<Rightarrow> again e p req
          | Got _ \<Rightarrow> waitForConfirmations w p req n)))))"

text \<open>The wait starts from the number of confirmations last asked for.\<close>

definition wait_confirmations :: "'w deposit_world_scheme \<Rightarrow> pending_deposit \<Rightarrow> nat \<Rightarrow> spv_bundle app" where
  "wait_confirmations w pd n =
     waitForConfirmations w pd (case pd_required pd of Some r \<Rightarrow> r | None \<Rightarrow> dw_minConfirmations w) n"

definition realFinalize :: "'w deposit_world_scheme \<Rightarrow> pending_deposit \<Rightarrow> app_position app" where
  "realFinalize w pd =
     eff_bind (syncPosition w (pd_stellarAddress pd) (pd_btcTxid pd) (pd_stellarTxHash pd) (Some (pd_createdAt pd)) (Some (pd_positionIndex pd))) (\<lambda>r.
     case r of Some p \<Rightarrow> eff_return p | None \<Rightarrow> eff_throw (AppError ''PositionNotFound''))"

definition finalizeDeposit :: "'w deposit_world_scheme \<Rightarrow> pending_deposit \<Rightarrow> app_position app" where
  "finalizeDeposit w pd =
     eff_bind (realFinalize w pd) (\<lambda>position.
     eff_bind pd_clear (\<lambda>_.
     eff_bind (releasePositionIndex (pd_positionIndex pd)) (\<lambda>_. eff_return position)))"

datatype track_result = TrackReady pending_deposit | TrackActive app_position

definition getDepositor :: "'w deposit_world_scheme \<Rightarrow> string \<Rightarrow> string option app" where
  "getDepositor w t = eff_bind (expect (\<lambda>k. lw_read w k t)) (\<lambda>c. eff_return (map_option cp_depositor c))"

fun trackDeposit :: "'w deposit_world_scheme \<Rightarrow> nat \<Rightarrow> nat \<Rightarrow> track_result app" where
  "trackDeposit w polls 0 = eff_throw TabClosed"
| "trackDeposit w polls (Suc n) =
     eff_bind (eff_gets dv_deposit) (\<lambda>loaded.
     case loaded of None \<Rightarrow> eff_throw (AppError ''No deposit in progress.'') | Some pd \<Rightarrow>
     eff_bind (withRetry w (getDepositor w (pd_btcTxid pd)) 2) (\<lambda>depositorForTxid.
     eff_bind (if given (pd_stellarTxHash pd) \<and> \<not> given depositorForTxid
        then eff_bind (ask (\<lambda>k. sw_status w k (the_string (pd_stellarTxHash pd))))
          (\<lambda>st. eff_return (Some (case st of Some s \<Rightarrow> s | None \<Rightarrow> NOT_FOUND)))
        else eff_return None) (\<lambda>stellarTx.
     eff_bind (ask (sw_now w)) (\<lambda>t.
     case planResume pd depositorForTxid stellarTx t of
       Finalize \<Rightarrow> eff_bind (finalizeDeposit w pd) (\<lambda>p. eff_return (TrackActive p))
     | Conflict _ \<Rightarrow> eff_throw (AppError ''PositionAlreadyExists'')
     | AwaitStellar h \<Rightarrow>
         eff_bind (emit (ESubmitted h)) (\<lambda>_. eff_bind (expect (dw_sleep w)) (\<lambda>_. trackDeposit w polls n))
     | LocateOutput \<Rightarrow>
         eff_bind (emit (EPreparing (Some LocatingOutput))) (\<lambda>_.
         eff_bind (locateOutput w pd polls) (\<lambda>_. trackDeposit w polls n))
     | WaitConfirmations \<Rightarrow>
         eff_bind (if given (pd_stellarTxHash pd)
            then eff_bind (eff_modify (forget_tx (the_string (pd_stellarTxHash pd)))) (\<lambda>_.
              pd_updated (sw_now w) (\<lambda>p. p\<lparr>pd_stellarTxHash := None, pd_stellarSubmittedAt := None\<rparr>))
            else eff_return pd) (\<lambda>pd.
         eff_bind (wait_confirmations w pd polls) (\<lambda>_.
         eff_bind (pd_updated (sw_now w) (\<lambda>p. p\<lparr>pd_step := ReadyStep\<rparr>)) (\<lambda>pd.
         eff_bind (emit EReady) (\<lambda>_. eff_return (TrackReady pd)))))))))"

section \<open>Registering\<close>

text \<open>
  The local \<^verbatim>\<open>pd\<close> of \<^verbatim>\<open>registerDeposit\<close> is what its last update returned, so the handlers read the stored record.
\<close>

definition depositArgs :: "pending_deposit \<Rightarrow> spv_bundle \<Rightarrow> buffer \<Rightarrow> int \<Rightarrow> buffer \<Rightarrow> deposit_args" where
  "depositArgs pd bundle script timelockHeight keySig =
     \<lparr>da_depositor = pd_stellarAddress pd, da_block_hash = bytes_of_hex (sb_block_hash bundle),
      da_merkle_proof = map bytes_of_hex (sb_merkle_proof bundle), da_tx_index = sb_tx_index bundle,
      da_raw_tx = bytes_of_hex (sb_raw_tx bundle), da_p2wsh_script_pubkey = script, da_timelock_height = timelockHeight,
      da_user_pubkey = bytes_of_hex (pd_btcPubkey pd), da_key_sig = keySig\<rparr>"

definition deposit_signed :: "'w deposit_world_scheme \<Rightarrow> string \<Rightarrow> unit app" where
  "deposit_signed w h =
     eff_bind (ask (sw_now w)) (\<lambda>t.
     eff_bind (pd_update (sw_now w) (\<lambda>p. p\<lparr>pd_stellarTxHash := Some h, pd_stellarSubmittedAt := Some t, pd_step := SubmittedStep\<rparr>)) (\<lambda>_.
     record_tx w KDeposit None h))"

definition deposit_dropped :: "'w deposit_world_scheme \<Rightarrow> string \<Rightarrow> unit app" where
  "deposit_dropped w h =
     eff_bind (eff_gets dv_deposit) (\<lambda>loaded.
     case loaded of None \<Rightarrow> eff_throw (AppError ''null'') | Some pd \<Rightarrow>
     eff_bind (eff_when (given (pd_stellarTxHash pd)) (eff_modify (forget_tx (the_string (pd_stellarTxHash pd))))) (\<lambda>_.
     eff_bind (pd_update (sw_now w) (\<lambda>p. p\<lparr>pd_stellarTxHash := None, pd_stellarSubmittedAt := None, pd_step := ReadyStep\<rparr>)) (\<lambda>_.
     eff_return ())))"

definition realRegister :: "'w deposit_world_scheme \<Rightarrow> pending_deposit \<Rightarrow> spv_bundle \<Rightarrow> string app" where
  "realRegister w pd bundle =
     eff_bind (requireProtocolPubkey w) (\<lambda>protocolPubkey.
     eff_bind (expect (dw_tip w)) (\<lambda>tip.
     case dw_outs w (sb_rawTxNoWitness bundle) of None \<Rightarrow> eff_throw (AppError ''Invalid transaction'') | Some outs \<Rightarrow>
     (case findDepositOutput (dw_lib w) protocolPubkey (pd_btcPubkey pd) outs tip (Some (pd_timelockHeight pd)) of
        Inl _ \<Rightarrow> eff_throw (AppError ''Failed to derive P2WSH address'')
      | Inr None \<Rightarrow> eff_throw (AppError ''This transaction does not pay your deposit address.'')
      | Inr (Some out) \<Rightarrow>
          if do_valueSats out < dw_minDepositSats w then eff_throw (AppError ''This deposit pays less than the minimum.'') else
          eff_bind (pd_update (sw_now w) (\<lambda>p. p\<lparr>pd_timelockHeight := do_timelockHeight out\<rparr>)) (\<lambda>_.
          case deriveP2WSH (dw_lib w) protocolPubkey (pd_btcPubkey pd) (do_timelockHeight out) of
            Inl _ \<Rightarrow> eff_throw (AppError ''Failed to derive P2WSH address'')
          | Inr lock \<Rightarrow>
              eff_bind (emit (EAwaitingSignature BitcoinWallet)) (\<lambda>_.
              eff_bind (expect (\<lambda>k. dw_keySig w k (depositKeyMessage (dw_contractId w) (pd_stellarAddress pd) (pd_btcTxid pd)))) (\<lambda>text.
              case parseMessageSignature (dw_base64 w) text of
                Inl _ \<Rightarrow> eff_throw (AppError ''unsupported signature'')
              | Inr keySig \<Rightarrow>
                  eff_bind (emit (EPreparing (Some BuildingStep))) (\<lambda>_.
                  eff_bind (simulateWritzLend w (CallDeposit (depositArgs pd bundle (pw_scriptPubKey lock) (do_timelockHeight out) keySig))) (\<lambda>_.
                  eff_bind (signAndSubmit w (deposit_signed w) (deposit_dropped w)) (\<lambda>(h, _).
                  eff_return h)))))))))"

text \<open>The position is read until it is there; the last argument counts the attempts left after this one.\<close>

fun finish_deposit :: "'w deposit_world_scheme \<Rightarrow> pending_deposit \<Rightarrow> string \<Rightarrow> nat \<Rightarrow> app_position app" where
  "finish_deposit w pd h 0 =
     app_catch (finalizeDeposit w pd) (\<lambda>e. eff_bind (emit (ENeedsAttention (Some e) (Some h))) (\<lambda>_. eff_throw e))"
| "finish_deposit w pd h (Suc n) =
     app_catch (finalizeDeposit w pd) (\<lambda>_. eff_bind (expect (dw_sleep w)) (\<lambda>_. finish_deposit w pd h n))"

definition registerDeposit :: "'w deposit_world_scheme \<Rightarrow> nat \<Rightarrow> nat \<Rightarrow> app_position app" where
  "registerDeposit w polls turns =
     eff_bind (trackDeposit w polls turns) (\<lambda>tracked.
     case tracked of
       TrackActive position \<Rightarrow>
         eff_bind (emit (ESettled (ap_stellarTxHash position))) (\<lambda>_. eff_return position)
     | TrackReady pd \<Rightarrow>
         eff_bind (emit (EPreparing (Some ReadingStep))) (\<lambda>_.
         eff_bind (wait_confirmations w pd polls) (\<lambda>bundle.
         eff_bind (on_timeout (realRegister w pd bundle)) (\<lambda>h.
         eff_bind (eff_modify (\<lambda>d. forget_tx h (note_done h d))) (\<lambda>_.
         eff_bind (emit EPostProcessing) (\<lambda>_.
         eff_bind (eff_gets dv_deposit) (\<lambda>current.
         eff_bind (finish_deposit w (case current of Some p \<Rightarrow> p | None \<Rightarrow> pd) h 4) (\<lambda>position.
         eff_bind (emit (ESettled (Some h))) (\<lambda>_. eff_return position)))))))))"

end
