(* ===== verification/DepositProps.thy ===== *)
theory DepositProps
  imports DepositFlow
begin

text \<open>
  What a run of the deposit flow keeps, whatever is answered and wherever the tab closes: the BTC that was sent stays
  known to the device until its position is, and a deposit is signed again only when no earlier signature for it can
  still succeed. \<open>T\<close> is the Bitcoin transaction, \<open>dep\<close> says which Stellar transactions deposit it.
\<close>

section \<open>The invariant\<close>

text \<open>
  What the contract's answers mean: a position is returned under its own transaction and names its depositor, and one
  that is not there was not there a minute before the clock is next read.
\<close>

definition honest_reads :: "'w deposit_world_scheme \<Rightarrow> (string \<Rightarrow> bool) \<Rightarrow> (string \<Rightarrow> int) \<Rightarrow> string \<Rightarrow> (string \<Rightarrow> bool) \<Rightarrow> bool" where
  "honest_reads w landed expires T dep \<longleftrightarrow>
     truthful w landed expires
   \<and> (\<forall>k t c. lw_read w k t = Got (Some c) \<longrightarrow> cp_txid c = t \<and> cp_depositor c \<noteq> [])
   \<and> (\<forall>k h k'. lw_read w k T = Got None \<and> dep h \<and> landed h \<and> k' \<in> {Suc k, Suc (Suc k)} \<longrightarrow> sw_now w k' < expires h + 60000)
   \<and> (\<forall>k h. sw_sign w k = SignOk h \<longrightarrow> h \<noteq> [])"

definition dead :: "(string \<Rightarrow> bool) \<Rightarrow> (string \<Rightarrow> bool) \<Rightarrow> pending_tx \<Rightarrow> bool" where
  "dead dep landed tx \<longleftrightarrow> px_kind tx \<noteq> KDeposit \<or> \<not> (dep (px_hash tx) \<and> landed (px_hash tx))"

text \<open>The signed transactions, newest first: every deposit older than another is dead.\<close>

fun in_order :: "(string \<Rightarrow> bool) \<Rightarrow> (string \<Rightarrow> bool) \<Rightarrow> pending_tx list \<Rightarrow> bool" where
  "in_order dep landed [] = True"
| "in_order dep landed (tx # txs) = ((px_kind tx = KDeposit \<longrightarrow> list_all (dead dep landed) txs) \<and> in_order dep landed txs)"

definition quiet :: "(string \<Rightarrow> bool) \<Rightarrow> (string \<Rightarrow> bool) \<Rightarrow> device \<Rightarrow> bool" where
  "quiet dep landed d \<longleftrightarrow> (\<forall>tx\<in>set (dv_signed d). dead dep landed tx)"

definition current :: "(string \<Rightarrow> int) \<Rightarrow> pending_deposit \<Rightarrow> pending_tx \<Rightarrow> bool" where
  "current expires pd tx \<longleftrightarrow> pd_stellarTxHash pd = Some (px_hash tx) \<and> px_hash tx \<noteq> []
     \<and> (\<exists>s. pd_stellarSubmittedAt pd = Some s \<and> expires (px_hash tx) \<le> s + 300000)"

definition update_ok :: "pending_tx \<Rightarrow> bool" where
  "update_ok tx \<longleftrightarrow> (\<forall>r p. px_update tx = Some (r, p) \<longrightarrow> isWritzLend p \<and> r = ap_id p)"

definition known :: "string \<Rightarrow> device \<Rightarrow> bool" where
  "known T d \<longleftrightarrow> dv_deposit d \<noteq> None \<or> (\<exists>p\<in>set (loans d). ap_txid p = T)"

record deposit_case =
  dcs_T :: string
  dcs_dep :: "string \<Rightarrow> bool"
  dcs_landed :: "string \<Rightarrow> bool"
  dcs_expires :: "string \<Rightarrow> int"

definition deposit_ok :: "deposit_case \<Rightarrow> device \<Rightarrow> bool" where
  "deposit_ok x d \<longleftrightarrow>
     known (dcs_T x) d
   \<and> (\<forall>tx\<in>set (dv_txs d). update_ok tx)
   \<and> in_order (dcs_dep x) (dcs_landed x) (dv_signed d)
   \<and> (\<forall>pd. dv_deposit d = Some pd \<longrightarrow> pd_btcTxid pd = dcs_T x
        \<and> (\<forall>tx\<in>set (dv_signed d). dead (dcs_dep x) (dcs_landed x) tx \<or> current (dcs_expires x) pd tx))"

abbreviation honest :: "deposit_case \<Rightarrow> 'w deposit_world_scheme \<Rightarrow> bool" where
  "honest x w \<equiv> honest_reads w (dcs_landed x) (dcs_expires x) (dcs_T x) (dcs_dep x)"

abbreviation calm :: "deposit_case \<Rightarrow> device \<Rightarrow> bool" where
  "calm x d \<equiv> deposit_ok x d \<and> quiet (dcs_dep x) (dcs_landed x) d"

lemma deposit_ok_same:
  "loans d' = loans d \<Longrightarrow> dv_txs d' = dv_txs d \<Longrightarrow> dv_signed d' = dv_signed d \<Longrightarrow> dv_deposit d' = dv_deposit d \<Longrightarrow> deposit_ok x d \<Longrightarrow> deposit_ok x d'"
  by (simp add: deposit_ok_def known_def)

lemma quiet_same: "dv_signed d' = dv_signed d \<Longrightarrow> quiet dep landed d \<Longrightarrow> quiet dep landed d'"
  by (simp add: quiet_def)

interpretation deposit_ok: app_invariant "deposit_ok x" for x
  by unfold_locales (auto simp: loans_def intro: deposit_ok_same [rotated -1])

interpretation calm: app_invariant "calm x" for x
  by unfold_locales (auto simp: loans_def intro: deposit_ok_same [rotated -1] quiet_same)

section \<open>Updates of the pending deposit\<close>

definition harmless :: "(pending_deposit \<Rightarrow> pending_deposit) \<Rightarrow> bool" where
  "harmless patch \<longleftrightarrow> (\<forall>p. pd_btcTxid (patch p) = pd_btcTxid p \<and> pd_stellarTxHash (patch p) = pd_stellarTxHash p
     \<and> pd_stellarSubmittedAt (patch p) = pd_stellarSubmittedAt p)"

definition patched :: "(pending_deposit \<Rightarrow> pending_deposit) \<Rightarrow> int \<Rightarrow> device \<Rightarrow> device" where
  "patched patch t d = d\<lparr>dv_deposit := map_option (\<lambda>p. (patch p)\<lparr>pd_updatedAt := t\<rparr>) (dv_deposit d), dv_calls := Suc (dv_calls d)\<rparr>"

lemma pd_update_result:
  "pd_update clock patch d = (patched patch (clock (dv_calls d)) d, Inr (dv_deposit (patched patch (clock (dv_calls d)) d)))"
  by (cases "dv_deposit d") (simp_all add: pd_update_def app_bind_ask app_defs patched_def)

lemma pd_updated_result:
  "pd_updated clock patch d = (patched patch (clock (dv_calls d)) d,
     case dv_deposit (patched patch (clock (dv_calls d)) d) of Some p \<Rightarrow> Inr p | None \<Rightarrow> Inl (AppError ''null''))"
  by (simp add: pd_updated_def eff_bind_def pd_update_result eff_return_def eff_throw_def split: option.split)

lemma patched_harmless:
  assumes "harmless patch" "deposit_ok x d"
  shows "deposit_ok x (patched patch t d)"
  using assms by (auto simp: deposit_ok_def known_def patched_def harmless_def current_def loans_def)

lemma patched_calm: "calm x d \<Longrightarrow> (\<And>p. pd_btcTxid (patch p) = pd_btcTxid p) \<Longrightarrow> calm x (patched patch t d)"
  by (auto simp: deposit_ok_def known_def patched_def quiet_def loans_def)

lemma keeps_pd_update:
  assumes "harmless patch"
  shows "keeps (deposit_ok x) (pd_update clock patch)" "keeps (deposit_ok x) (pd_updated clock patch)"
    "keeps (calm x) (pd_update clock patch)" "keeps (calm x) (pd_updated clock patch)"
  using patched_harmless [OF assms] patched_calm [of x _ patch] assms
  by (auto simp: keeps_def pd_update_result pd_updated_result harmless_def)

lemma harmless_patches [simp]:
  "harmless (\<lambda>p. p\<lparr>pd_vout := v, pd_sats := s, pd_step := st\<rparr>)"
  "harmless (\<lambda>p. p\<lparr>pd_confirmations := c, pd_required := q, pd_step := st\<rparr>)"
  "harmless (\<lambda>p. p\<lparr>pd_step := st\<rparr>)"
  "harmless (\<lambda>p. p\<lparr>pd_timelockHeight := h\<rparr>)"
  by (simp_all add: harmless_def)

section \<open>Following\<close>

lemma keeps_locateOutput: "keeps (deposit_ok x) (locateOutput w pd n)"
proof (induction n)
  case (Suc n)
  have "keeps (deposit_ok x) (case out of
       OutputMissing \<Rightarrow> eff_throw (AppError ''This transaction does not pay your deposit address.'')
     | OutputAt vout sats \<Rightarrow> pd_update (sw_now w) (\<lambda>p. p\<lparr>pd_vout := Some vout, pd_sats := sats, pd_step := Confirming\<rparr>)
     | OutputUnseen \<Rightarrow> eff_bind (expect (dw_sleep w)) (\<lambda>_. locateOutput w pd n))" for out
    using Suc by (cases out) (auto intro!: keeps_pd_update keeps_bind)
  then show ?case unfolding locateOutput.simps by (intro keeps_bind deposit_ok.keeps_expect)
qed simp

context app_invariant
begin

lemma keeps_waitForConfirmations:
  assumes "\<And>c r. keeps P (pd_update (sw_now w) (\<lambda>p. p\<lparr>pd_confirmations := c, pd_required := r, pd_step := Confirming\<rparr>))"
  shows "keeps P (waitForConfirmations w pd required n)"
proof (induction n arbitrary: pd required)
  case (Suc n)
  define again where "again e p req = (eff_bind (ask (dw_aborted w)) (\<lambda>aborted.
        if aborted then eff_throw (AppError e) else
        eff_bind (emit (ERelayerUnreachable req)) (\<lambda>_.
        eff_bind (expect (dw_sleep w)) (\<lambda>_. waitForConfirmations w p req n))))" for e p req
  have again: "keeps P (again e p req)" for e p req
    unfolding again_def using Suc by (auto intro!: keeps_bind keeps_if)
  define turn where "turn p req slept = (case slept of
            Closed \<Rightarrow> eff_throw TabClosed
          | Failed e \<Rightarrow> again e p req
          | Got (_::unit) \<Rightarrow> waitForConfirmations w p req n)" for p req slept
  have turn: "keeps P (turn p req slept)" for p req slept
    unfolding turn_def using Suc again by (cases slept) auto
  have "keeps P (case poll of
        Closed \<Rightarrow> eff_throw TabClosed
      | Failed e \<Rightarrow> again e pd required
      | Got (SpvReady bundle) \<Rightarrow> eff_return bundle
      | Got (SpvWaiting confirmations required') \<Rightarrow>
          let req = (case required' of Some r \<Rightarrow> r | None \<Rightarrow> required) in
          eff_bind (emit (EBtcConfirmations confirmations req)) (\<lambda>_.
          eff_bind (if Some confirmations \<noteq> pd_confirmations pd \<or> Some req \<noteq> pd_required pd
             then eff_bind (pd_update (sw_now w) (\<lambda>p. p\<lparr>pd_confirmations := Some confirmations, pd_required := Some req, pd_step := Confirming\<rparr>))
                (\<lambda>r. eff_return (case r of Some p \<Rightarrow> p | None \<Rightarrow> pd))
             else eff_return pd) (\<lambda>p. eff_bind (ask (dw_sleep w)) (turn p req))))" for poll
    using assms again turn
    by (cases poll) (auto simp: Let_def split: spv_poll.split intro!: keeps_bind keeps_if)
  then show ?case
    unfolding waitForConfirmations.simps Let_def again_def [symmetric] turn_def [symmetric] by (intro keeps_answer)
qed simp

end

lemma keeps_wait:
  "keeps (deposit_ok x) (wait_confirmations w pd n)" "keeps (calm x) (wait_confirmations w pd n)"
  unfolding wait_confirmations_def
  by (intro deposit_ok.keeps_waitForConfirmations calm.keeps_waitForConfirmations keeps_pd_update harmless_patches)+

lemma triple_app_catch:
  assumes "triple P m Q R" "\<And>e. triple R (h e) Q E" "\<And>d. R d \<Longrightarrow> E d"
  shows "triple P (app_catch m h) Q E"
  unfolding app_catch_def
  by (rule triple_catch [OF assms(1)], rule triple_if) (auto intro!: app_throw assms)

context app_invariant
begin

lemma asked_depositor:
  assumes named: "\<And>k t c. lw_read w k t = Got (Some c) \<Longrightarrow> cp_depositor c \<noteq> []"
  shows "triple P (withRetry w (getDepositor w t) n)
     (\<lambda>r d. P d \<and> (\<not> given r \<longrightarrow> (\<exists>k. dv_calls d = Suc k \<and> lw_read w k t = Got None))) P"
proof (induction n)
  let ?Q = "\<lambda>r d. P d \<and> (\<not> given r \<longrightarrow> (\<exists>k. dv_calls d = Suc k \<and> lw_read w k t = Got None))"
  have get: "triple P (getDepositor w t) ?Q P"
    unfolding getDepositor_def
    by (rule triple_bind [OF triple_expect [of _ _ "\<lambda>c d. P d \<and> (\<exists>k. dv_calls d = Suc k \<and> lw_read w k t = Got c)"]])
      (auto intro!: triple_return intro: answered dest: named simp: given_def split: option.split)
  {
    case 0
    show ?case using get by simp
  next
    case (Suc n)
    have "triple P (eff_bind (ask (dw_aborted w)) (\<lambda>aborted.
       if aborted then eff_throw e else eff_bind (expect (dw_sleep w)) (\<lambda>_. withRetry w (getDepositor w t) n))) ?Q P" for e
      by (intro triple_answer triple_if triple_bind [OF triple_of_keeps [OF keeps_expect]] Suc app_throw) (auto intro: answered)
    then show ?case unfolding withRetry.simps by (intro triple_app_catch [OF get]) simp_all
  }
qed

end

lemma plan_quiet:
  assumes ok: "deposit_ok x d" "dv_deposit d = Some pd" and plan: "planResume pd r st t \<in> {WaitConfirmations, LocateOutput}"
    and answers: "given (pd_stellarTxHash pd) \<Longrightarrow> \<not> given r \<Longrightarrow>
      (st = Some FAILED \<longrightarrow> \<not> dcs_landed x (the_string (pd_stellarTxHash pd)))
      \<and> (\<forall>g. dcs_dep x g \<and> dcs_landed x g \<longrightarrow> t < dcs_expires x g + 60000)"
  shows "quiet (dcs_dep x) (dcs_landed x) d"
  unfolding quiet_def
proof
  fix tx assume tx: "tx \<in> set (dv_signed d)"
  have r: "\<not> given r" using plan by (auto simp: planResume_def split: if_splits)
  show "dead (dcs_dep x) (dcs_landed x) tx"
  proof (cases "current (dcs_expires x) pd tx")
    case True
    then obtain s where s: "pd_stellarTxHash pd = Some (px_hash tx)" "px_hash tx \<noteq> []" "pd_stellarSubmittedAt pd = Some s"
        "dcs_expires x (px_hash tx) \<le> s + 300000" by (auto simp: current_def)
    have "st = Some FAILED \<or> \<not> t - s < STELLAR_TX_TTL_MS"
      using plan r s by (auto simp: planResume_def Let_def split: if_splits)
    then show ?thesis
      using answers r s by (force simp: dead_def the_string_def STELLAR_TX_TTL_MS_def)
  next
    case False
    with ok tx show ?thesis by (auto simp: deposit_ok_def)
  qed
qed

lemma keeps_forget_ok: "keeps (deposit_ok x) (eff_modify (forget_tx h))" "keeps (calm x) (eff_modify (forget_tx h))"
  by (auto simp: keeps_def eff_modify_def forget_tx_def removeTx_def deposit_ok_def known_def quiet_def loans_def)

lemma keeps_settle_ok: "keeps (deposit_ok x) (eff_modify (\<lambda>d. forget_tx h (note_done h d)))"
  by (auto simp: keeps_def eff_modify_def note_done_def forget_tx_def removeTx_def deposit_ok_def known_def loans_def)

section \<open>Positions saved\<close>

lemma known_loans_save:
  assumes "isWritzLend p" "\<exists>q\<in>set (loans d). ap_txid q = T"
  shows "\<exists>q\<in>set (read_positions (savePosition p (dv_positions d))). ap_txid q = T"
proof -
  obtain q where q: "q \<in> set (loans d)" "ap_txid q = T" using assms(2) by blast
  have "q \<in> set qs \<Longrightarrow> q \<in> set (replace_at p qs) \<or> ap_id q = ap_id p" "p \<in> set (replace_at p qs)" for qs
    by (induction qs) auto
  moreover have "isWritzLend q" using q(1) by (simp add: loans_def read_positions_def)
  ultimately show ?thesis using q assms(1) by (metis isWritzLend_def loans_def read_save)
qed

lemma deposit_ok_save: "isWritzLend p \<Longrightarrow> deposit_ok x d \<Longrightarrow> deposit_ok x (d\<lparr>dv_positions := savePosition p (dv_positions d)\<rparr>)"
  using known_loans_save [of p d "dcs_T x"] by (auto simp: deposit_ok_def known_def loans_def)

lemma saved_known: "isWritzLend p \<Longrightarrow> \<exists>q\<in>set (read_positions (savePosition p ps)). ap_txid q = ap_txid p"
proof -
  have "p \<in> set (replace_at p qs)" for qs by (induction qs) auto
  then show "isWritzLend p \<Longrightarrow> ?thesis" by (auto simp: read_save)
qed

lemma sync_ok:
  assumes "honest x w"
  shows "triple (deposit_ok x) (syncPosition w owner t h created i)
     (\<lambda>r d. deposit_ok x d \<and> (r \<noteq> None \<longrightarrow> (\<exists>p\<in>set (loans d). ap_txid p = t))) (deposit_ok x)"
proof -
  let ?P = "deposit_ok x"
  let ?Q = "\<lambda>r d. deposit_ok x d \<and> (r \<noteq> (None :: app_position option) \<longrightarrow> (\<exists>p\<in>set (loans d). ap_txid p = t))"
  have named: "cp_txid c = t" if "lw_read w k t = Got (Some c)" for k c using assms that unfolding honest_reads_def by blast
  have read: "triple ?P (expect (\<lambda>k. lw_read w k t)) (\<lambda>c d. ?P d \<and> (\<forall>c'. c = Some c' \<longrightarrow> cp_txid c' = t)) ?P"
    by (rule triple_expect) (auto intro: deposit_ok.answered dest: named)
  have saved: "triple ?P (eff_bind (eff_modify (\<lambda>d. d\<lparr>dv_positions := savePosition p (dv_positions d)\<rparr>)) (\<lambda>_. eff_return (Some p))) ?Q ?P"
    if "isWritzLend p" "ap_txid p = t" for p
    using deposit_ok_save [OF that(1)] saved_known [OF that(1)] that(2) by (auto simp: triple_def app_defs loans_def)
  have merged: "isWritzLend (mergeChainPosition c pr owner j y h v) \<and> ap_txid (mergeChainPosition c pr owner j y h v) = t" if "cp_txid c = t" for c pr j y v
    using that by (simp add: isWritzLend_def mergeChainPosition_def)
  have vout: "keeps ?P (case v of Some v \<Rightarrow> eff_return (Some v) | None \<Rightarrow> app_catch (expect f) (\<lambda>_. eff_return None))" for v and f :: "nat \<Rightarrow> nat option answer"
    by (auto intro!: deposit_ok.keeps_app_catch split: option.split)
  have clock: "keeps ?P (case created of Some y \<Rightarrow> eff_return y | None \<Rightarrow> ask (sw_now w))" by (auto split: option.split)
  have "triple ?P (case c of None \<Rightarrow> eff_return None | Some c \<Rightarrow>
     if cp_depositor c \<noteq> owner then eff_return None else
     eff_bind (eff_gets (\<lambda>d. read_positions (dv_positions d))) (\<lambda>here.
     let prior = find (\<lambda>p. ap_id p = t) here in
     eff_bind (case Option.bind prior ap_vout of
                 Some v \<Rightarrow> eff_return (Some v)
               | None \<Rightarrow> app_catch (expect (\<lambda>k. hw_findVout w k t (cp_scriptPubKey c))) (\<lambda>_. eff_return None)) (\<lambda>vout.
     eff_bind (eff_gets dv_deposit) (\<lambda>pending.
     eff_bind (case created of Some x \<Rightarrow> eff_return x | None \<Rightarrow> ask (sw_now w)) (\<lambda>created.
     let position = mergeChainPosition c prior owner (sync_index t here pending i) created h vout in
     eff_bind (eff_modify (\<lambda>d. d\<lparr>dv_positions := savePosition position (dv_positions d)\<rparr>)) (\<lambda>_.
     eff_return (Some position))))))) ?Q ?P" if "\<And>c'. c = Some c' \<Longrightarrow> cp_txid c' = t" for c
  proof (cases c)
    case (Some c')
    show ?thesis unfolding Some option.case Let_def
      by (intro triple_if triple_bind [OF triple_of_keeps [OF keeps_gets]] triple_bind [OF triple_of_keeps [OF vout]] triple_bind [OF triple_of_keeps [OF clock]]
          saved merged [THEN conjunct1] merged [THEN conjunct2] that [OF Some]) (auto intro: triple_return)
  qed (auto intro: triple_return)
  then show ?thesis unfolding syncPosition_def by (intro triple_bind [OF read] triple_fact) blast
qed

lemma keeps_finalize:
  assumes "honest x w" "pd_btcTxid pd = dcs_T x"
  shows "keeps (deposit_ok x) (finalizeDeposit w pd)"
proof -
  have real: "triple (deposit_ok x) (realFinalize w pd) (\<lambda>_ d. deposit_ok x d \<and> (\<exists>p\<in>set (loans d). ap_txid p = dcs_T x)) (deposit_ok x)"
    unfolding realFinalize_def assms(2)
    by (rule triple_bind [OF sync_ok [OF assms(1)]]) (auto intro: triple_return app_throw split: option.split)
  have cleared: "triple (\<lambda>d. deposit_ok x d \<and> (\<exists>p\<in>set (loans d). ap_txid p = dcs_T x))
      (eff_bind pd_clear (\<lambda>_. eff_bind (releasePositionIndex i) (\<lambda>_. eff_return p))) (\<lambda>_. deposit_ok x) (deposit_ok x)" for i and p :: app_position
    by (auto simp: triple_def app_defs pd_clear_def releasePositionIndex_def deposit_ok_def known_def loans_def)
  have "triple (deposit_ok x) (finalizeDeposit w pd) (\<lambda>_. deposit_ok x) (deposit_ok x)"
    unfolding finalizeDeposit_def by (rule triple_bind [OF real cleared])
  then show ?thesis by (rule keeps_of_triple)
qed

section \<open>Tracking\<close>

definition loaded :: "deposit_case \<Rightarrow> pending_deposit \<Rightarrow> device \<Rightarrow> bool" where
  "loaded x pd d \<longleftrightarrow> deposit_ok x d \<and> dv_deposit d = Some pd"

interpretation loaded: app_invariant "loaded x pd" for x pd
  by unfold_locales (auto simp: loaded_def loans_def intro: deposit_ok_same [rotated -1])

definition answers :: "deposit_case \<Rightarrow> pending_deposit \<Rightarrow> string option \<Rightarrow> tx_status option \<Rightarrow> int \<Rightarrow> bool" where
  "answers x pd r st t \<longleftrightarrow> (given (pd_stellarTxHash pd) \<and> \<not> given r \<longrightarrow>
      (st = Some FAILED \<longrightarrow> \<not> dcs_landed x (the_string (pd_stellarTxHash pd)))
      \<and> (\<forall>g. dcs_dep x g \<and> dcs_landed x g \<longrightarrow> t < dcs_expires x g + 60000))"

text \<open>The three answers the plan is made from: the contract's, the network's and the clock's.\<close>

lemma ask_for_plan:
  assumes w: "honest x w" and pd: "pd_btcTxid pd = dcs_T x"
    and f: "\<And>r st t. triple (\<lambda>d. loaded x pd d \<and> answers x pd r st t) (f r st t) Q (deposit_ok x)"
  shows "triple (loaded x pd) (eff_bind (withRetry w (getDepositor w (pd_btcTxid pd)) n) (\<lambda>r.
      eff_bind (if given (pd_stellarTxHash pd) \<and> \<not> given r
        then eff_bind (ask (\<lambda>k. sw_status w k (the_string (pd_stellarTxHash pd))))
          (\<lambda>st. eff_return (Some (case st of Some s \<Rightarrow> s | None \<Rightarrow> NOT_FOUND)))
        else eff_return None) (\<lambda>st.
      eff_bind (ask (sw_now w)) (f r st)))) Q (deposit_ok x)"
proof -
  let ?h = "the_string (pd_stellarTxHash pd)"
  let ?absent = "\<lambda>r m d. given (pd_stellarTxHash pd) \<and> \<not> given r \<longrightarrow> (\<exists>k. dv_calls d = k + m \<and> lw_read w k (dcs_T x) = Got None)"
  have truthful: "truthful w (dcs_landed x) (dcs_expires x)" using w unfolding honest_reads_def by blast
  have named: "lw_read w k t = Got (Some c) \<Longrightarrow> cp_depositor c \<noteq> []" for k t c using w unfolding honest_reads_def by blast
  have early: "lw_read w k (dcs_T x) = Got None \<Longrightarrow> dcs_dep x g \<Longrightarrow> dcs_landed x g \<Longrightarrow> sw_now w (k + 2) < dcs_expires x g + 60000" for k g
    using w [unfolded honest_reads_def, THEN conjunct2, THEN conjunct2, THEN conjunct1, rule_format, of k g "Suc (Suc k)"] by simp
  have failed: "sw_status w k g = Some FAILED \<Longrightarrow> \<not> dcs_landed x g" for k g using truthful unfolding truthful_def by blast
  have tick: "loaded x pd (d\<lparr>dv_calls := Suc (dv_calls d)\<rparr>)" if "loaded x pd d" for d using that by (rule loaded.answered)
  have depositor: "triple (loaded x pd) (withRetry w (getDepositor w (pd_btcTxid pd)) n) (\<lambda>r d. loaded x pd d \<and> ?absent r 1 d) (deposit_ok x)"
    unfolding pd by (rule triple_conseq [OF loaded.asked_depositor [OF named]]) (auto simp: loaded_def)
  have status: "triple (\<lambda>d. loaded x pd d \<and> ?absent r 1 d) (if given (pd_stellarTxHash pd) \<and> \<not> given r
        then eff_bind (ask (\<lambda>k. sw_status w k ?h)) (\<lambda>st. eff_return (Some (case st of Some s \<Rightarrow> s | None \<Rightarrow> NOT_FOUND)))
        else eff_return None) (\<lambda>st d. loaded x pd d \<and> ?absent r 2 d \<and> (st = Some FAILED \<longrightarrow> \<not> dcs_landed x ?h)) (deposit_ok x)" for r
    by (rule triple_if) (auto simp: triple_def app_bind_ask eff_return_def failed intro: tick split: option.splits)
  have clock: "triple (\<lambda>d. loaded x pd d \<and> ?absent r 2 d \<and> (st = Some FAILED \<longrightarrow> \<not> dcs_landed x ?h)) (ask (sw_now w))
      (\<lambda>t d. loaded x pd d \<and> answers x pd r st t) (deposit_ok x)" for r st
    unfolding triple_def ask_def answers_def using tick by (auto dest: early)
  show ?thesis by (rule triple_bind [OF depositor triple_bind [OF status triple_bind [OF clock f]]])
qed

lemma updated_calm:
  assumes "\<And>p. pd_btcTxid (patch p) = pd_btcTxid p"
  shows "triple (calm x) (pd_updated clock patch) (\<lambda>pd d. calm x d \<and> pd_btcTxid pd = dcs_T x) (calm x)"
proof -
  have "pd_btcTxid pd = dcs_T x" if "calm x d" "dv_deposit d = Some pd" for d pd using that by (simp add: deposit_ok_def)
  then show ?thesis
    using patched_calm [of x _ patch] assms
    by (fastforce simp: triple_def pd_updated_result patched_def split: option.split)
qed

definition tracked :: "deposit_case \<Rightarrow> track_result \<Rightarrow> device \<Rightarrow> bool" where
  "tracked x r d \<longleftrightarrow> deposit_ok x d
     \<and> (case r of TrackReady pd \<Rightarrow> quiet (dcs_dep x) (dcs_landed x) d \<and> pd_btcTxid pd = dcs_T x | TrackActive _ \<Rightarrow> True)"

lemma track_ok:
  assumes w: "honest x w"
  shows "triple (deposit_ok x) (trackDeposit w polls n) (tracked x) (deposit_ok x)"
proof (induction n)
  case 0
  show ?case by (auto intro: app_throw)
next
  case (Suc n)
  let ?P = "deposit_ok x"
  have plan: "triple (\<lambda>d. loaded x pd d \<and> answers x pd r st t) (case planResume pd r st t of
       Finalize \<Rightarrow> eff_bind (finalizeDeposit w pd) (\<lambda>p. eff_return (TrackActive p))
     | Conflict _ \<Rightarrow> eff_throw (AppError ''PositionAlreadyExists'')
     | AwaitStellar h \<Rightarrow>
         eff_bind (emit (ESubmitted h)) (\<lambda>_. eff_bind (expect (dw_sleep w)) (\<lambda>_. trackDeposit w polls n))
     | LocateOutput \<Rightarrow>
         eff_bind (emit (EPreparing (Some LocatingOutput))) (\<lambda>_.
         eff_bind (locateOutput w pd polls) (\<lambda>_. trackDeposit w polls n))
     | WaitConfirmations \<Rightarrow>
         eff_bind (if given (pd_stellarTxHash pd)
            then eff_bind (eff_modify (forget_tx (the_string (pd_stellarTxHash pd)))) (\<lambda>_.
              pd_updated (sw_now w) (\<lambda>p. p\<lparr>pd_stellarTxHash := None, pd_stellarSubmittedAt := None\<rparr>))
            else eff_return pd) (\<lambda>pd.
         eff_bind (wait_confirmations w pd polls) (\<lambda>_.
         eff_bind (pd_updated (sw_now w) (\<lambda>p. p\<lparr>pd_step := ReadyStep\<rparr>)) (\<lambda>pd.
         eff_bind (emit EReady) (\<lambda>_. eff_return (TrackReady pd)))))) (tracked x) ?P" (is "triple ?L ?m _ _")
    if pd: "pd_btcTxid pd = dcs_T x" for pd r st t
  proof (cases "planResume pd r st t")
    case LocateOutput
    have "triple ?P ?m (tracked x) ?P" unfolding LocateOutput resume_action.case
      by (intro triple_seq [OF triple_of_keeps] deposit_ok.keeps_emit keeps_locateOutput Suc) simp
    then show ?thesis by (rule triple_conseq) (auto simp: loaded_def)
  next
    case WaitConfirmations
    have calm: "calm x d" if "?L d" for d
      using that plan_quiet [of x d pd r st t] WaitConfirmations by (simp add: loaded_def answers_def)
    have start: "triple (calm x) (if given (pd_stellarTxHash pd)
            then eff_bind (eff_modify (forget_tx (the_string (pd_stellarTxHash pd)))) (\<lambda>_.
              pd_updated (sw_now w) (\<lambda>p. p\<lparr>pd_stellarTxHash := None, pd_stellarSubmittedAt := None\<rparr>))
            else eff_return pd) (\<lambda>_. calm x) (calm x)"
      by (intro triple_if triple_seq [OF triple_of_keeps] keeps_forget_ok triple_conseq [OF updated_calm] triple_return) auto
    have finished: "triple (\<lambda>d. calm x d \<and> pd_btcTxid p = dcs_T x) (eff_bind (emit EReady) (\<lambda>_. eff_return (TrackReady p))) (tracked x) (calm x)" for p
      by (intro triple_fact triple_seq [OF triple_of_keeps] calm.keeps_emit triple_return) (simp_all add: tracked_def)
    have ready: "triple (calm x) (eff_bind (pd_updated (sw_now w) (\<lambda>p. p\<lparr>pd_step := ReadyStep\<rparr>)) (\<lambda>pd.
         eff_bind (emit EReady) (\<lambda>_. eff_return (TrackReady pd)))) (tracked x) (calm x)"
      by (rule triple_bind [OF updated_calm finished]) simp
    have "triple (calm x) ?m (tracked x) (calm x)" unfolding WaitConfirmations resume_action.case
      by (intro triple_seq [OF start] triple_seq [OF triple_of_keeps] keeps_wait ready)
    then show ?thesis using calm by (rule triple_conseq) auto
  next
    case (AwaitStellar h)
    have "triple ?P ?m (tracked x) ?P" unfolding AwaitStellar resume_action.case
      by (intro triple_seq [OF triple_of_keeps] deposit_ok.keeps_emit deposit_ok.keeps_expect Suc) simp
    then show ?thesis by (rule triple_conseq) (auto simp: loaded_def)
  next
    case Finalize
    have "triple ?P ?m (tracked x) ?P" unfolding Finalize resume_action.case
      by (intro triple_seq [OF triple_of_keeps] keeps_finalize [OF w pd] triple_return) (simp add: tracked_def)
    then show ?thesis by (rule triple_conseq) (auto simp: loaded_def)
  qed (auto intro: app_throw simp: loaded_def)
  have loaded: "triple (\<lambda>d. ?P d \<and> dv_deposit d = l) (case l of None \<Rightarrow> eff_throw (AppError ''No deposit in progress.'') | Some pd \<Rightarrow> f pd) Q ?P"
    if "\<And>pd. pd_btcTxid pd = dcs_T x \<Longrightarrow> triple (loaded x pd) (f pd) Q ?P" for l f and Q :: "track_result \<Rightarrow> device \<Rightarrow> bool"
    using that by (cases l) (auto simp: triple_def eff_throw_def loaded_def deposit_ok_def)
  show ?case
    unfolding trackDeposit.simps
    by (rule triple_bind, rule triple_gets [of _ "\<lambda>l d. ?P d \<and> dv_deposit d = l"], simp, rule loaded, rule ask_for_plan [OF w], assumption, rule plan)
qed

section \<open>Registering\<close>

definition signed_now :: "deposit_case \<Rightarrow> string \<Rightarrow> device \<Rightarrow> bool" where
  "signed_now x h d \<longleftrightarrow> deposit_ok x d \<and> (\<forall>pd. dv_deposit d = Some pd \<longrightarrow> pd_stellarTxHash pd = Some h)"

lemma signed_now_ok: "signed_now x h d \<Longrightarrow> deposit_ok x d"
  by (simp add: signed_now_def)

interpretation signed_now: app_invariant "signed_now x h" for x h
  by unfold_locales (auto simp: signed_now_def loans_def intro: deposit_ok_same [rotated -1])

lemma deposit_signed_ok:
  assumes w: "honest x w"
  shows "triple (\<lambda>d. calm x d \<and> (\<exists>k<dv_calls d. sw_sign w k = SignOk h)) (deposit_signed w h) (\<lambda>_. signed_now x h) (deposit_ok x)"
proof -
  have truthful: "truthful w (dcs_landed x) (dcs_expires x)" and named: "sw_sign w k = SignOk h \<Longrightarrow> h \<noteq> []" for k
    using w unfolding honest_reads_def by blast+
  have fresh: "sw_sign w k = SignOk h \<Longrightarrow> k < k' \<Longrightarrow> dcs_expires x h \<le> sw_now w k' + 300000" for k k'
    using truthful unfolding truthful_def by blast
  show ?thesis
    unfolding triple_def
  proof (intro allI impI)
    fix d assume d: "calm x d \<and> (\<exists>k<dv_calls d. sw_sign w k = SignOk h)"
    then have h: "h \<noteq> []" "dcs_expires x h \<le> sw_now w (dv_calls d) + 300000" using fresh named by blast+
    have "update_ok \<lparr>px_hash = h, px_kind = KDeposit, px_createdAt = t, px_update = None\<rparr>" for t by (simp add: update_ok_def)
    with d h show "case deposit_signed w h d of (d', Inl _) \<Rightarrow> deposit_ok x d' | (d', Inr _) \<Rightarrow> signed_now x h d'"
      by (auto simp: deposit_signed_def eff_bind_def pd_update_result patched_def record_tx_def Let_def ask_def eff_modify_def
          addTx_def signed_now_def deposit_ok_def known_def loans_def current_def quiet_def list_all_iff)
  qed
qed

text \<open>Every signature for the deposit but the last is dead, and so is the last when it is dropped.\<close>

lemma deposit_dropped_ok:
  assumes "\<not> dcs_landed x h"
  shows "triple (signed_now x h) (deposit_dropped w h) (\<lambda>_. deposit_ok x) (deposit_ok x)"
proof -
  have quiet: "calm x d" if "signed_now x h d" "dv_deposit d = Some pd" for d pd
    using assms that by (auto simp: signed_now_def deposit_ok_def quiet_def current_def dead_def)
  have forgotten: "keeps (calm x) (eff_when c (eff_modify (forget_tx g)))" for c g
    by (intro keeps_when keeps_forget_ok)
  have cleared: "keeps (calm x) (pd_update (sw_now w) (\<lambda>p. p\<lparr>pd_stellarTxHash := None, pd_stellarSubmittedAt := None, pd_step := ReadyStep\<rparr>))"
    using patched_calm [of x] by (auto simp: keeps_def pd_update_result)
  have dropped: "keeps (calm x) (eff_bind (eff_when c (eff_modify (forget_tx g))) (\<lambda>_.
     eff_bind (pd_update (sw_now w) (\<lambda>p. p\<lparr>pd_stellarTxHash := None, pd_stellarSubmittedAt := None, pd_step := ReadyStep\<rparr>)) (\<lambda>_.
     eff_return ())))" for c g
    by (intro keeps_bind forgotten cleared keeps_return)
  have "triple (\<lambda>d. signed_now x h d \<and> dv_deposit d = p) (case p of None \<Rightarrow> eff_throw (AppError ''null'') | Some pd \<Rightarrow>
     eff_bind (eff_when (given (pd_stellarTxHash pd)) (eff_modify (forget_tx (the_string (pd_stellarTxHash pd))))) (\<lambda>_.
     eff_bind (pd_update (sw_now w) (\<lambda>p. p\<lparr>pd_stellarTxHash := None, pd_stellarSubmittedAt := None, pd_step := ReadyStep\<rparr>)) (\<lambda>_.
     eff_return ()))) (\<lambda>_. deposit_ok x) (deposit_ok x)" for p
    using quiet by (cases p) (auto intro: app_throw signed_now_ok triple_conseq [OF triple_of_keeps [OF dropped]])
  then show ?thesis
    unfolding deposit_dropped_def
    by (intro triple_bind [OF triple_gets [of _ "\<lambda>p d. signed_now x h d \<and> dv_deposit d = p"]]) simp_all
qed

lemma keeps_any_emit: "keeps (deposit_ok x) (emit ev)" "keeps (calm x) (emit ev)"
  by (auto simp: keeps_def emit_def eff_modify_def loans_def intro: deposit_ok_same [rotated -1] quiet_same)

lemma keeps_simulate_ok: "keeps (calm x) (simulateWritzLend w c)" "keeps (deposit_ok x) (simulateWritzLend w c)"
  unfolding simulateWritzLend_def
  by (intro keeps_simulate; auto simp: loans_def intro: deposit_ok_same [rotated -1] quiet_same)+

lemma calm_seq:
  assumes "keeps (calm x) m" "\<And>y. triple (calm x) (f y) Q (deposit_ok x)"
  shows "triple (calm x) (eff_bind m f) Q (deposit_ok x)"
proof (rule triple_bind)
  show "triple (calm x) m (\<lambda>_. calm x) (deposit_ok x)"
    using triple_of_keeps [OF assms(1)] by (rule triple_conseq) auto
qed (rule assms(2))

lemma triple_sum:
  "(\<And>y. r = Inl y \<Longrightarrow> triple P (f y) Q E) \<Longrightarrow> (\<And>y. r = Inr y \<Longrightarrow> triple P (g y) Q E) \<Longrightarrow>
   triple P (case r of Inl y \<Rightarrow> f y | Inr y \<Rightarrow> g y) Q E"
  by (cases r) auto

lemma calm_throw: "triple (calm x) (eff_throw e) Q (deposit_ok x)"
  by (rule app_throw) simp

lemma sign_deposit:
  assumes w: "honest x w"
  shows "triple (calm x) (signAndSubmit w (deposit_signed w) (deposit_dropped w)) (\<lambda>(h, _). signed_now x h) (deposit_ok x)"
proof (rule deposit_ok.triple_signAndSubmit [where S = "\<lambda>h d. calm x d \<and> (\<exists>k<dv_calls d. sw_sign w k = SignOk h)"])
  fix h
  show "triple (\<lambda>d. calm x d \<and> (\<exists>k<dv_calls d. sw_sign w k = SignOk h)) (deposit_signed w h) (\<lambda>_. signed_now x h) (deposit_ok x)"
    by (rule deposit_signed_ok [OF w])
  show "app_invariant (signed_now x h)" ..
  fix k assume sent: "sw_send w k h = SendFailedOnChain \<or> sw_send w k h = SendRefused"
  have "truthful w (dcs_landed x) (dcs_expires x)" using w unfolding honest_reads_def by blast
  from truthful_dropped [OF this sent] show "triple (signed_now x h) (deposit_dropped w h) (\<lambda>_. deposit_ok x) (deposit_ok x)"
    by (rule deposit_dropped_ok)
qed (use calm.shown calm.answered in \<open>auto simp: signed_now_def\<close>)

lemma register_ok:
  assumes w: "honest x w"
  shows "triple (calm x) (realRegister w pd bundle) (signed_now x) (deposit_ok x)"
proof -
  have signing: "triple (calm x) (eff_bind (signAndSubmit w (deposit_signed w) (deposit_dropped w)) (\<lambda>(h, _). eff_return h)) (signed_now x) (deposit_ok x)"
    by (rule triple_bind [OF sign_deposit [OF w]]) (auto intro: triple_return)
  have timelock: "keeps (calm x) (pd_update (sw_now w) (\<lambda>p. p\<lparr>pd_timelockHeight := h\<rparr>))" for h by (simp add: keeps_pd_update)
  have pubkey: "keeps (calm x) (requireProtocolPubkey w)" by (simp add: requireProtocolPubkey_def)
  show ?thesis
    unfolding realRegister_def
    by (intro calm_seq pubkey triple_option triple_sum triple_if calm_throw timelock keeps_any_emit keeps_simulate_ok calm.keeps_expect signing)
qed

text \<open>From the chain's answer to the position.\<close>

lemma keeps_finish_deposit:
  assumes w: "honest x w" and pd: "pd_btcTxid pd = dcs_T x"
  shows "keeps (deposit_ok x) (finish_deposit w pd h n)"
  by (induction n) (auto intro!: deposit_ok.keeps_app_catch keeps_finalize [OF w pd] keeps_bind)

lemma keeps_registerDeposit:
  assumes w: "honest x w"
  shows "keeps (deposit_ok x) (registerDeposit w polls turns)"
proof -
  let ?P = "deposit_ok x"
  have timed: "triple (calm x) (on_timeout (realRegister w pd b)) (\<lambda>_. ?P) ?P" for pd b
  proof -
    have "keeps ?P (case e of TxTimedOut h \<Rightarrow> eff_bind (emit (ETimedOut h)) (\<lambda>_. eff_throw e) | _ \<Rightarrow> eff_throw e)" for e :: app_error
      by (cases e) auto
    moreover have "triple (calm x) (realRegister w pd b) (\<lambda>_. ?P) ?P"
      using register_ok [OF w] by (rule triple_conseq) (auto simp: signed_now_def)
    ultimately show ?thesis
      unfolding on_timeout_def
      by (intro triple_app_catch [of "calm x" _ _ ?P]) (auto intro: triple_conseq [OF triple_of_keeps])
  qed
  define settled where "settled pd h current = eff_bind (finish_deposit w (case current of Some p \<Rightarrow> p | None \<Rightarrow> pd) h 4) (\<lambda>position.
         eff_bind (emit (ESettled (Some h))) (\<lambda>_. eff_return position))" for pd h current
  define rest where "rest pd = eff_bind (emit (EPreparing (Some ReadingStep))) (\<lambda>_.
         eff_bind (wait_confirmations w pd polls) (\<lambda>bundle.
         eff_bind (on_timeout (realRegister w pd bundle)) (\<lambda>h.
         eff_bind (eff_modify (\<lambda>d. forget_tx h (note_done h d))) (\<lambda>_.
         eff_bind (emit EPostProcessing) (\<lambda>_.
         eff_bind (eff_gets dv_deposit) (settled pd h))))))" for pd
  have settled: "triple (\<lambda>d. ?P d \<and> dv_deposit d = current) (settled pd h current) (\<lambda>_. ?P) ?P"
    if "pd_btcTxid pd = dcs_T x" for pd h current
  proof (cases "\<forall>p. current = Some p \<longrightarrow> pd_btcTxid p = dcs_T x")
    case True
    with that have "pd_btcTxid (case current of Some p \<Rightarrow> p | None \<Rightarrow> pd) = dcs_T x" by (cases current) auto
    then have "keeps ?P (settled pd h current)"
      unfolding settled_def by (intro keeps_bind keeps_finish_deposit [OF w]) auto
    from triple_of_keeps [OF this] show ?thesis by (rule triple_conseq) auto
  next
    case False
    then show ?thesis by (auto simp: triple_def deposit_ok_def)
  qed
  have after: "triple ?P (eff_bind (eff_gets dv_deposit) (settled pd h)) (\<lambda>_. ?P) ?P" if "pd_btcTxid pd = dcs_T x" for pd h
    by (rule triple_bind [OF triple_gets [of _ "\<lambda>l d. ?P d \<and> dv_deposit d = l"] settled [OF that]]) simp
  have rest: "triple (calm x) (rest pd) (\<lambda>_. ?P) ?P" if "pd_btcTxid pd = dcs_T x" for pd
    unfolding rest_def
    by (intro calm_seq keeps_any_emit keeps_wait triple_bind [OF timed] triple_seq [OF triple_of_keeps] keeps_settle_ok after [OF that])
  have "triple (tracked x r) (case r of
       TrackActive position \<Rightarrow> eff_bind (emit (ESettled (ap_stellarTxHash position))) (\<lambda>_. eff_return position)
     | TrackReady pd \<Rightarrow> rest pd) (\<lambda>_. ?P) ?P" for r
  proof (cases r)
    case (TrackActive p)
    then show ?thesis
      by (auto intro!: triple_conseq [OF triple_of_keeps [of ?P]] keeps_bind simp: tracked_def)
  next
    case (TrackReady pd)
    have "triple (\<lambda>d. calm x d \<and> pd_btcTxid pd = dcs_T x) (rest pd) (\<lambda>_. ?P) ?P"
      by (rule triple_fact, rule rest)
    then show ?thesis unfolding TrackReady track_result.case by (rule triple_conseq) (auto simp: tracked_def)
  qed
  from triple_bind [OF track_ok [OF w] this] show ?thesis
    unfolding registerDeposit_def rest_def settled_def [symmetric] by (rule keeps_of_triple)
qed

section \<open>The other flows\<close>

lemma deposit_ok_settled: "deposit_ok x d \<Longrightarrow> deposit_ok x (forget_tx h (note_done h d))"
  using keeps_settle_ok [of x h] by (simp add: keeps_def eff_modify_def)

lemma record_ok:
  assumes "kind \<noteq> KDeposit" "\<And>r p. upd = Some (r, p) \<Longrightarrow> isWritzLend p \<and> r = ap_id p"
  shows "keeps (deposit_ok x) (record_tx w kind upd h)"
proof -
  have ok: "update_ok \<lparr>px_hash = h, px_kind = kind, px_createdAt = t, px_update = upd\<rparr>" for t
    using assms(2) by (simp add: update_ok_def)
  have "dead dep landed \<lparr>px_hash = h, px_kind = kind, px_createdAt = t, px_update = upd\<rparr>" for dep landed t
    using assms(1) by (simp add: dead_def)
  with ok assms(1) show ?thesis
    by (auto simp: keeps_def record_tx_def Let_def app_bind_ask eff_modify_def deposit_ok_def known_def loans_def addTx_def)
qed

lemma keeps_submit_ok:
  assumes "kind \<noteq> KDeposit" "\<And>r p. upd = Some (r, p) \<Longrightarrow> isWritzLend p \<and> r = ap_id p"
  shows "keeps (deposit_ok x) (signAndSubmit w (record_tx w kind upd) (\<lambda>h. eff_modify (forget_tx h)))"
proof (rule deposit_ok.keeps_signAndSubmit [where S = "\<lambda>_ _. True"])
  show "triple (\<lambda>d. deposit_ok x d \<and> True) (record_tx w kind upd h) (\<lambda>_. deposit_ok x) (deposit_ok x)" for h
    using triple_of_keeps [OF record_ok [OF assms]] unfolding simp_thms by blast
qed (auto intro: keeps_forget_ok)

lemma keeps_tracked_ok: "kind \<noteq> KDeposit \<Longrightarrow> keeps (deposit_ok x) (submitTrackedTx w kind)"
  unfolding submitTrackedTx_def
  by (intro deposit_ok.keeps_on_timeout keeps_bind keeps_submit_ok) (auto split: prod.split intro!: keeps_bind keeps_settle_ok)

lemma keeps_position_ok:
  assumes "kind \<noteq> KDeposit" "isWritzLend updated" "ap_id position = ap_id updated"
  shows "keeps (deposit_ok x) (submitPositionTx w kind position updated keepOpen)"
proof -
  have save: "keeps (deposit_ok x) (eff_modify (\<lambda>d. forget_tx h (note_done h
       (d\<lparr>dv_positions := replacePosition (ap_id position) updated (dv_positions d)\<rparr>))))" for h
    using deposit_ok_save [OF assms(2)] deposit_ok_settled assms(3) by (intro keeps_modify) (simp add: replacePosition_def)
  show ?thesis
    unfolding submitPositionTx_def
    by (intro keeps_bind deposit_ok.keeps_on_timeout keeps_submit_ok) (use assms save in \<open>auto split: prod.split intro!: keeps_bind keeps_when\<close>)
qed

lemma deposit_ok_apply: "update_ok tx \<Longrightarrow> deposit_ok x d \<Longrightarrow> deposit_ok x (forget_tx (px_hash tx) (apply_tx tx d))"
  unfolding apply_tx_def
  by (intro deposit_ok_settled) (auto simp: applyPendingTx_def update_ok_def replacePosition_def intro: deposit_ok_save split: option.split)

lemma keeps_reconcile_ok: "keeps (deposit_ok x) (reconcilePendingTxs w)"
proof -
  have each: "keeps (deposit_ok x) (reconcile_tx w tx)" if "update_ok tx" for tx
  proof -
    have "keeps (deposit_ok x) (eff_modify (\<lambda>d. forget_tx (px_hash tx) (apply_tx tx d)))"
      using deposit_ok_apply [OF that] by (intro keeps_modify)
    then show ?thesis
      unfolding reconcile_tx_def by (auto intro!: deposit_ok.keeps_answer keeps_forget_ok split: option.split reconcile_decision.split)
  qed
  have all: "\<forall>tx\<in>set txs. update_ok tx \<Longrightarrow> keeps (deposit_ok x) (reconcile_each w txs)" for txs
    by (induction txs) (auto intro!: keeps_bind each)
  have "deposit_ok x (fst (reconcile_each w (dv_txs d) d))" if "deposit_ok x d" for d
  proof -
    have "\<forall>tx\<in>set (dv_txs d). update_ok tx" using that unfolding deposit_ok_def by blast
    from all [OF this] that show ?thesis unfolding keeps_def by blast
  qed
  then show ?thesis by (simp add: keeps_def reconcilePendingTxs_def eff_bind_def eff_gets_def)
qed

section \<open>Properties\<close>

text \<open>
  What the device may do while BTC is on its way: follow the deposit, register it, reconcile, and the transactions of the
  other flows, whose updates replace a position by a newer record of it.
\<close>

datatype deposit_op = Follow nat nat | Register nat nat | Other app_op

fun deposit_op_ok :: "deposit_op \<Rightarrow> bool" where
  "deposit_op_ok (Other (Tracked kind)) = (kind \<noteq> KDeposit)"
| "deposit_op_ok (Other (PositionTx kind position updated keepOpen)) =
     (kind \<noteq> KDeposit \<and> isWritzLend updated \<and> ap_id position = ap_id updated)"
| "deposit_op_ok _ = True"

fun run_deposit_op :: "'w deposit_world_scheme \<Rightarrow> deposit_op \<Rightarrow> device \<Rightarrow> device" where
  "run_deposit_op w (Follow polls turns) d = fst (trackDeposit w polls turns d)"
| "run_deposit_op w (Register polls turns) d = fst (registerDeposit w polls turns d)"
| "run_deposit_op w (Other opn) d = run_app_op w opn d"

lemma deposit_ok_run:
  assumes w: "honest x w" and ok: "list_all deposit_op_ok ops" and d: "deposit_ok x d"
  shows "deposit_ok x (fold (run_deposit_op w) ops d)"
proof -
  have follow: "keeps (deposit_ok x) (trackDeposit w polls turns)" for polls turns
    by (rule keeps_of_triple, rule triple_conseq [OF track_ok [OF w]]) (simp_all add: tracked_def)
  have other: "deposit_ok x (run_app_op w a d)" if "deposit_op_ok (Other a)" "deposit_ok x d" for a d
  proof (cases a)
    case (Tracked kind)
    then show ?thesis using that keeps_tracked_ok [of kind x w] by (simp add: run_app_op_def keeps_def)
  next
    case (PositionTx kind position updated keepOpen)
    then show ?thesis using that keeps_position_ok [of kind updated position x w keepOpen] by (simp add: run_app_op_def keeps_def)
  next
    case Reconcile
    then show ?thesis using that keeps_reconcile_ok [of x w] by (simp add: run_app_op_def keeps_def)
  qed
  have step: "deposit_ok x (run_deposit_op w opn d)" if "deposit_op_ok opn" "deposit_ok x d" for opn d
    using that follow keeps_registerDeposit [OF w] other by (cases opn) (simp_all add: keeps_def)
  show ?thesis using ok d by (induction ops arbitrary: d) (simp_all add: step)
qed

lemma started_ok:
  assumes "startDepositBySending w owner btcPubkey used lock sats (fresh_device ps) = (d, Inr pd)"
  shows "deposit_ok \<lparr>dcs_T = pd_btcTxid pd, dcs_dep = dep, dcs_landed = landed, dcs_expires = expires\<rparr> d"
    and "dv_deposit d = Some pd"
proof -
  let ?fresh = "fresh_device ps"
  obtain t n where "d = (fst (reservePositionIndex used ?fresh))\<lparr>dv_events := [EAwaitingSignature BitcoinWallet], dv_calls := 3, dv_deposit := Some pd\<rparr>"
    using assms
    by (auto simp: startDepositBySending_def reservePositionIndex_def fresh_device_def eff_bind_def emit_def expect_def app_catch_def ask_def
        pd_save_def eff_catch_def eff_gets_def eff_modify_def eff_return_def eff_throw_def releasePositionIndex_def split: answer.splits if_splits)
  then show "dv_deposit d = Some pd" "deposit_ok \<lparr>dcs_T = pd_btcTxid pd, dcs_dep = dep, dcs_landed = landed, dcs_expires = expires\<rparr> d"
    by (simp_all add: deposit_ok_def known_def reservePositionIndex_def eff_bind_def eff_gets_def eff_modify_def eff_return_def fresh_device_def)
qed

lemma in_order_split:
  "in_order dep landed (later @ tx # earlier) \<Longrightarrow> px_kind tx = KDeposit \<Longrightarrow> old \<in> set earlier \<Longrightarrow> dead dep landed old"
  by (induction later) (auto simp: list_all_iff)


text \<open>C31. BTC that was sent is never orphaned: from the moment the wallet answered with its transaction, whatever happens
  afterwards, the device either still follows that transaction or holds the position it became.\<close>

theorem sent_btc_never_orphaned:
  assumes "startDepositBySending w owner btcPubkey used lock sats (fresh_device ps) = (d0, Inr pd)"
    and "honest_reads w landed expires (pd_btcTxid pd) dep" and "list_all deposit_op_ok ops"
    and "d = fold (run_deposit_op w) ops d0"
  shows "(\<exists>pd'. dv_deposit d = Some pd' \<and> pd_btcTxid pd' = pd_btcTxid pd) \<or> (\<exists>p\<in>set (loans d). ap_txid p = pd_btcTxid pd)"
proof -
  let ?x = "\<lparr>dcs_T = pd_btcTxid pd, dcs_dep = dep, dcs_landed = landed, dcs_expires = expires\<rparr>"
  have "deposit_ok ?x d"
    unfolding assms(4) using started_ok(1) [OF assms(1)] assms(2, 3) by (intro deposit_ok_run) simp_all
  then show ?thesis by (auto simp: deposit_ok_def known_def)
qed

definition slow_deposit :: deposit_world where
  "slow_deposit =
     \<lparr>sw_sign = (\<lambda>k. SignOk (replicate (Suc k) CHR ''a'')),
      sw_send = (\<lambda>_ h. if length h < 30 then SendRefused else SendClosed),
      sw_status = (\<lambda>_ _. Some NOT_FOUND), sw_now = (\<lambda>_. 0),
      lw_read = (\<lambda>_ _. Got None), lw_simulate = (\<lambda>_ _. Got ()), lw_supply_value = (\<lambda>_ _. Got 0), lw_available = (\<lambda>_. Got 0),
      hw_page = (\<lambda>_ _. Closed), hw_findVout = (\<lambda>_ _ _. Closed), hw_lib = hw_lib ex_history_world,
      dw_pollSpv = (\<lambda>_ _. Got (SpvReady \<lparr>sb_rawTxNoWitness = [], sb_block_hash = [], sb_merkle_proof = [], sb_tx_index = 0, sb_raw_tx = []\<rparr>)),
      dw_findOutput = (\<lambda>_ _ _. Got (OutputAt 0 70000)), dw_rawTx = (\<lambda>_ _. Closed), dw_tip = (\<lambda>_. Got 100000),
      dw_outs = (\<lambda>_. Some [\<lparr>value_sat = 70000, scriptPubKey = [9]\<rparr>]),
      dw_keySig = (\<lambda>_ _. Got []), dw_base64 = (\<lambda>_. replicate 65 31), dw_sendBtc = (\<lambda>_ _ _. Got ''ab''),
      dw_sleep = (\<lambda>_. Got ()), dw_aborted = (\<lambda>_. False),
      dw_lib = sample_script_lib\<lparr>p2wsh := (\<lambda>_. (Some ''tb1q'', Some [9]))\<rparr>,
      dw_protocolPubkey = Some (concat (replicate 33 ''02'')), dw_contractId = ''C'', dw_minConfirmations = 1, dw_minDepositSats = 50000\<rparr>"

definition slow_lock :: deposit_lock where "slow_lock = \<lparr>dl_p2wsh = ''tb1q'', dl_timelockHeight = 153000\<rparr>"

abbreviation tick :: "device \<Rightarrow> device" where "tick d \<equiv> d\<lparr>dv_calls := Suc (dv_calls d)\<rparr>"

lemma bind_run: "m d = (d', Inr y) \<Longrightarrow> eff_bind m f d = f y d'"
  by (simp add: eff_bind_def)

lemma return_run: "eff_return y d = (d, Inr y)"
  by (simp add: eff_return_def)

lemma gets_run: "eff_bind (eff_gets f) g d = g (f d) d"
  by (simp add: eff_bind_def eff_gets_def)

lemma slow_answers:
  "sw_sign slow_deposit k = SignOk (replicate (Suc k) CHR ''a'')"
  "sw_send slow_deposit k h = (if length h < 30 then SendRefused else SendClosed)"
  "sw_status slow_deposit k h = Some NOT_FOUND" "sw_now slow_deposit k = 0" "lw_read slow_deposit k t = Got None" "lw_simulate slow_deposit k c = Got ()"
  "dw_pollSpv slow_deposit k t = Got (SpvReady \<lparr>sb_rawTxNoWitness = [], sb_block_hash = [], sb_merkle_proof = [], sb_tx_index = 0, sb_raw_tx = []\<rparr>)"
  "dw_findOutput slow_deposit k t p = Got (OutputAt 0 70000)" "dw_tip slow_deposit k = Got 100000"
  "dw_outs slow_deposit r = Some [\<lparr>value_sat = 70000, scriptPubKey = [9]\<rparr>]"
  "dw_keySig slow_deposit k m = Got []" "dw_base64 slow_deposit m = replicate 65 31" "dw_sendBtc slow_deposit k a s = Got ''ab''"
  "dw_minDepositSats slow_deposit = 50000"
  by (simp_all add: slow_deposit_def)

lemma slow_depositor: "withRetry slow_deposit (getDepositor slow_deposit t) 2 d = (tick d, Inr None)"
  by (simp add: eval_nat_numeral app_catch_def eff_catch_def getDepositor_def expect_def app_bind_ask eff_bind_assoc slow_answers)
    (simp add: eff_return_def)

definition slow_bundle :: spv_bundle where
  "slow_bundle = \<lparr>sb_rawTxNoWitness = [], sb_block_hash = [], sb_merkle_proof = [], sb_tx_index = 0, sb_raw_tx = []\<rparr>"

lemma slow_wait: "wait_confirmations slow_deposit pd 1 d = (tick d, Inr slow_bundle)"
  by (simp add: wait_confirmations_def app_bind_ask slow_answers eff_return_def Let_def slow_bundle_def)

lemma first_candidate: "h \<noteq> 0 \<Longrightarrow> \<exists>hs. timelock_candidates tip (Some h) = h # hs"
  by (simp add: timelock_candidates_def Let_def)

definition user_key :: string where "user_key = concat (replicate 33 ''03'')"
definition protocol_key :: string where "protocol_key = concat (replicate 33 ''02'')"

lemma slow_derives: "deriveP2WSH (dw_lib slow_deposit) protocol_key user_key 153000 = Inr \<lparr>pw_address = ''tb1q'', pw_scriptPubKey = [9], pw_redeemScript = [7]\<rparr>"
proof -
  have keys: "bytes_of_hex protocol_key = replicate 33 2" "bytes_of_hex user_key = replicate 33 3" by code_simp+
  show ?thesis unfolding deriveP2WSH_def keys
    by (simp add: app_buildRedeemScript_def slow_deposit_def sample_script_lib_def)
qed

lemma slow_output:
  "findDepositOutput (dw_lib slow_deposit) protocol_key user_key [\<lparr>value_sat = 70000, scriptPubKey = [9]\<rparr>] 100000 (Some 153000)
   = Inr (Some \<lparr>do_timelockHeight = 153000, do_vout = 0, do_valueSats = 70000\<rparr>)"
proof -
  obtain hs where hs: "timelock_candidates 100000 (Some 153000) = 153000 # hs" using first_candidate [of 153000 100000] by auto
  show ?thesis unfolding findDepositOutput_def hs by (simp add: slow_derives findIndex_def)
qed

lemma slow_pubkey: "requireProtocolPubkey slow_deposit d = (d, Inr protocol_key)"
proof -
  have "dw_protocolPubkey slow_deposit = Some protocol_key" by (simp only: slow_deposit_def deposit_world.select_convs protocol_key_def)
  moreover have "protocol_key \<noteq> []" by code_simp
  ultimately show ?thesis by (simp add: requireProtocolPubkey_def given_def the_string_def eff_return_def)
qed

lemma slow_sig: "parseMessageSignature (dw_base64 slow_deposit) m = Inr (replicate 65 31)"
  by (simp add: parseMessageSignature_def slow_answers)

definition awaiting :: "device \<Rightarrow> bool" where
  "awaiting d \<longleftrightarrow> (\<exists>pd. dv_deposit d = Some pd \<and> pd_vout pd \<noteq> None \<and> pd_stellarTxHash pd = None \<and> pd_btcPubkey pd = user_key \<and> pd_timelockHeight pd = 153000)"

lemma slow_track:
  assumes "awaiting d"
  shows "\<exists>pd d'. trackDeposit slow_deposit 1 (Suc n) d = (d', Inr (TrackReady pd)) \<and> awaiting d' \<and> dv_deposit d' = Some pd
    \<and> dv_signed d' = dv_signed d \<and> dv_calls d' = dv_calls d + 4"
proof -
  obtain pd where pd: "dv_deposit d = Some pd" "pd_vout pd \<noteq> None" "pd_stellarTxHash pd = None" "pd_btcPubkey pd = user_key" "pd_timelockHeight pd = 153000"
    using assms unfolding awaiting_def by blast
  have plan: "planResume pd None None 0 = WaitConfirmations" using pd by (simp add: planResume_def given_def)
  have *: "trackDeposit slow_deposit 1 (Suc n) d =
     (let d' = patched (\<lambda>p. p\<lparr>pd_step := ReadyStep\<rparr>) 0 (d\<lparr>dv_calls := dv_calls d + 3\<rparr>) in
       (d'\<lparr>dv_events := dv_events d' @ [EReady]\<rparr>, Inr (TrackReady (the (dv_deposit d')))))"
    using pd(1,3) by (simp add: bind_run [OF slow_depositor] gets_run given_def app_bind_ask slow_answers
      plan bind_run [OF slow_wait [simplified]] eff_bind_def [of "pd_updated a b" for a b] pd_updated_result eff_bind_def [of "pd_update a b" for a b] pd_update_result emit_run patched_def Let_def return_run)
  show ?thesis unfolding * using pd by (auto simp: Let_def patched_def awaiting_def)
qed

lemma slow_locate:
  assumes "dv_deposit d = Some pd" "pd_vout pd = None" "pd_stellarTxHash pd = None" "pd_btcPubkey pd = user_key" "pd_timelockHeight pd = 153000"
  shows "\<exists>d'. trackDeposit slow_deposit 1 (Suc n) d = trackDeposit slow_deposit 1 n d' \<and> awaiting d' \<and> dv_signed d' = dv_signed d \<and> dv_calls d' = dv_calls d + 4"
proof -
  have plan: "planResume pd None None 0 = LocateOutput" using assms by (simp add: planResume_def given_def)
  let ?d = "d\<lparr>dv_calls := Suc (Suc (Suc (dv_calls d))), dv_events := dv_events d @ [EPreparing (Some LocatingOutput)]\<rparr>"
  let ?d' = "patched (\<lambda>p. p\<lparr>pd_vout := Some 0, pd_sats := 70000, pd_step := Confirming\<rparr>) 0 ?d"
  have "trackDeposit slow_deposit 1 (Suc n) d = trackDeposit slow_deposit 1 n ?d'"
    using assms(1, 3)
    by (simp add: bind_run [OF slow_depositor] gets_run given_def app_bind_ask slow_answers
      plan emit_run eff_bind_assoc expect_got eff_bind_def [of "pd_updated a b" for a b] pd_updated_result eff_bind_def [of "pd_update a b" for a b] pd_update_result patched_def)
  moreover have "awaiting ?d'" "dv_signed ?d' = dv_signed d" "dv_calls ?d' = dv_calls d + 4" using assms by (simp_all add: awaiting_def patched_def)
  ultimately show ?thesis by blast
qed


lemma slow_simulate: "simulateWritzLend slow_deposit c d = (d\<lparr>dv_calls := Suc (dv_calls d), dv_built := dv_built d @ [c]\<rparr>, Inr ())"
  by (rule simulate_got) (simp add: slow_answers)

definition signed_one :: "device \<Rightarrow> nat \<Rightarrow> device \<times> (app_error + 'a) \<Rightarrow> bool" where
  "signed_one d n r \<longleftrightarrow> (\<exists>d' e tx. r = (d', Inl e) \<and> dv_signed d' = tx # dv_signed d \<and> px_kind tx = KDeposit \<and> px_hash tx = replicate n CHR ''a''
     \<and> n \<le> dv_calls d' \<and> (n < 30 \<longrightarrow> awaiting d'))"

lemma signed_one_bind: "signed_one d n (m d1) \<Longrightarrow> signed_one d n (eff_bind m f d1)"
  by (auto simp: signed_one_def eff_bind_def)

lemma slow_sign:
  assumes "awaiting d"
  shows "signed_one d (Suc (dv_calls d)) (signAndSubmit slow_deposit (deposit_signed slow_deposit) (deposit_dropped slow_deposit) d)"
  using assms
  by (auto simp: awaiting_def signed_one_def signAndSubmit_def emit_run app_bind_ask slow_answers deposit_signed_def deposit_dropped_def gets_run given_def
    eff_bind_def pd_update_result eff_when_def patched_def record_tx_def Let_def ask_def eff_modify_def eff_return_def eff_throw_def eff_gets_def emit_def forget_tx_def)

lemma slow_real:
  assumes "awaiting d" "dv_deposit d = Some pd"
  shows "signed_one d (dv_calls d + 5) (realRegister slow_deposit pd slow_bundle d)"
proof -
  have pd: "pd_vout pd \<noteq> None" "pd_stellarTxHash pd = None" "pd_btcPubkey pd = user_key" "pd_timelockHeight pd = 153000" using assms by (auto simp: awaiting_def)
  have "\<exists>d1. realRegister slow_deposit pd slow_bundle d = eff_bind (signAndSubmit slow_deposit (deposit_signed slow_deposit) (deposit_dropped slow_deposit)) (\<lambda>(h, _). eff_return h) d1
     \<and> awaiting d1 \<and> dv_signed d1 = dv_signed d \<and> dv_calls d1 = dv_calls d + 4"
    using pd assms(2)
    by (simp add: realRegister_def bind_run [OF slow_pubkey] expect_got slow_answers slow_output slow_derives
       eff_bind_def [of "pd_updated a b" for a b] pd_updated_result eff_bind_def [of "pd_update a b" for a b] pd_update_result patched_def emit_run slow_sig bind_run [OF slow_simulate])
      (rule exI, rule conjI, rule refl, simp add: awaiting_def)
  then show ?thesis using slow_sign by (fastforce simp: signed_one_def eff_bind_def)
qed

lemma slow_register:
  assumes "awaiting d"
  shows "signed_one d (dv_calls d + 10) (registerDeposit slow_deposit 1 (Suc n) d)"
proof -
  obtain pd d' where t: "trackDeposit slow_deposit 1 (Suc n) d = (d', Inr (TrackReady pd))" "awaiting d'" "dv_deposit d' = Some pd" "dv_signed d' = dv_signed d"
    "dv_calls d' = dv_calls d + 4" using slow_track [OF assms] by blast
  let ?d = "tick (d'\<lparr>dv_events := dv_events d' @ [EPreparing (Some ReadingStep)]\<rparr>)"
  have "awaiting ?d" "dv_deposit ?d = Some pd" using t by (simp_all add: awaiting_def)
  from slow_real [OF this] have "signed_one d (dv_calls d + 10) (on_timeout (realRegister slow_deposit pd slow_bundle) ?d)"
    using t(4, 5) 
    by (auto simp: signed_one_def on_timeout_def app_catch_def eff_catch_def awaiting_def eff_throw_def emit_run split: app_error.split)
  then show ?thesis
    unfolding registerDeposit_def bind_run [of "trackDeposit slow_deposit 1 (Suc n)", OF t(1)] track_result.case emit_run
      bind_run [of "wait_confirmations slow_deposit pd 1", OF slow_wait] device.simps
    by (rule signed_one_bind)
qed

lemma slow_started:
  "\<exists>d pd. startDepositBySending slow_deposit ''G'' user_key [] slow_lock 70000 (fresh_device []) = (d, Inr pd)
     \<and> dv_deposit d = Some pd \<and> pd_btcTxid pd = ''ab'' \<and> pd_vout pd = None \<and> pd_stellarTxHash pd = None \<and> pd_btcPubkey pd = user_key
     \<and> pd_timelockHeight pd = 153000 \<and> dv_signed d = [] \<and> dv_calls d = 3"
proof -
  have "toLowerCase ''ab'' = ''ab''" by code_simp
  then show ?thesis
    by (simp add: startDepositBySending_def reservePositionIndex_def app_catch_def app_defs slow_answers expect_def
      pd_save_def newPending_def fresh_device_def slow_lock_def)
qed

lemma slow_honest: "honest_reads slow_deposit (\<lambda>h. 30 \<le> length h) (\<lambda>_. 0) T (\<lambda>_. True)"
  by (auto simp: honest_reads_def truthful_def slow_answers)


lemma slow_twice:
  assumes "startDepositBySending slow_deposit ''G'' user_key [] slow_lock 70000 (fresh_device []) = (d, Inr pd)"
  shows "\<exists>tx old. dv_signed (fold (run_deposit_op slow_deposit) [Follow 1 2, Register 1 1, Register 1 1] d) = [tx, old]
    \<and> px_kind tx = KDeposit \<and> px_kind old = KDeposit \<and> 30 \<le> length (px_hash tx)"
proof -
  have d: "dv_deposit d = Some pd" "pd_vout pd = None" "pd_stellarTxHash pd = None" "pd_btcPubkey pd = user_key" "pd_timelockHeight pd = 153000"
    "dv_signed d = []" "dv_calls d = 3" using slow_started assms by auto
  define d1 where "d1 = fst (trackDeposit slow_deposit 1 2 d)"
  obtain d' where "trackDeposit slow_deposit 1 2 d = trackDeposit slow_deposit 1 1 d'" "awaiting d'" "dv_signed d' = []" "dv_calls d' = 7"
    using slow_locate [OF d(1-5), of 1] d(6, 7) by (auto simp: numeral_2_eq_2)
  then have d1: "awaiting d1" "dv_signed d1 = []" "dv_calls d1 = 11" 
    using slow_track [of d' 0] by (auto simp: d1_def)
  define d2 where "d2 = fst (registerDeposit slow_deposit 1 1 d1)"
  obtain old where d2: "awaiting d2" "dv_signed d2 = [old]" "px_kind old = KDeposit" "21 \<le> dv_calls d2"
    using slow_register [OF d1(1), of 0] d1(2, 3) by (auto simp: signed_one_def d2_def)
  obtain tx where "dv_signed (fst (registerDeposit slow_deposit 1 1 d2)) = [tx, old]" "px_kind tx = KDeposit" "px_hash tx = replicate (dv_calls d2 + 10) CHR ''a''"
    using slow_register [OF d2(1), of 0] d2(2) by (auto simp: signed_one_def)
  then show ?thesis using d2 by (auto simp: d1_def d2_def)
qed


lemma sent_btc_never_orphaned_witness:
  "\<exists>d0 pd d. startDepositBySending slow_deposit ''G'' user_key [] slow_lock 70000 (fresh_device []) = (d0, Inr pd)
     \<and> d = fold (run_deposit_op slow_deposit) [Follow 1 2, Register 1 1, Register 1 1] d0
     \<and> ((\<exists>pd'. dv_deposit d = Some pd' \<and> pd_btcTxid pd' = ''ab'') \<or> (\<exists>p. p \<in> set (loans d) \<and> ap_txid p = ''ab''))"
proof -
  let ?ops = "[Follow 1 2, Register 1 1, Register 1 1]"
  obtain d0 pd where start: "startDepositBySending slow_deposit ''G'' user_key [] slow_lock 70000 (fresh_device []) = (d0, Inr pd)" "pd_btcTxid pd = ''ab''"
    using slow_started by blast
  have "list_all deposit_op_ok ?ops" by simp
  from sent_btc_never_orphaned [OF start(1) slow_honest this refl] start show ?thesis by auto
qed

end
