(* ===== verification/RateLimit.thy ===== *)
theory RateLimit
  imports AppTypes JsText
begin

text \<open>
  \<^verbatim>\<open>relayer/src/rate-limit.ts\<close> and \<^verbatim>\<open>frontend/app/src/lib/rateLimit.ts\<close>: a fixed window counter per client. A \<^verbatim>\<open>Map\<close> is an
  association list in insertion order; times and the window are milliseconds.
\<close>

record rate_window =
  rw_count :: int
  rw_resetAt :: int

type_synonym rate_windows = "(string, rate_window) jsmap"

datatype rate_answer = Admitted | TooMany int

text \<open>The address Express resolved, else the socket's, else one bucket for all; an empty string counts as absent.\<close>

definition clientKey :: "string option \<Rightarrow> string option \<Rightarrow> string" where
  "clientKey ip remoteAddress =
     (if given ip then the_string ip else if given remoteAddress then the_string remoteAddress else ''unknown'')"

definition prune_windows :: "int \<Rightarrow> rate_windows \<Rightarrow> rate_windows" where
  "prune_windows t ws = js_prune (\<lambda>w. \<not> rw_resetAt w \<le> t) ws"

definition rateLimit :: "int \<Rightarrow> int \<Rightarrow> string \<Rightarrow> int \<Rightarrow> rate_windows \<Rightarrow> rate_answer \<times> rate_windows" where
  "rateLimit limit windowMs key t windows =
     (let ws = (if length windows > 10000 then prune_windows t windows else windows);
          fresh = (Admitted, js_set key \<lparr>rw_count = 1, rw_resetAt = t + windowMs\<rparr> ws)
      in case js_get ws key of
           None \<Rightarrow> fresh
         | Some existing \<Rightarrow>
             if rw_resetAt existing \<le> t then fresh
             else if rw_count existing \<ge> limit
             then (TooMany (max 1 (- (- (rw_resetAt existing - t) div 1000))), ws)
             else (Admitted, js_set key (existing\<lparr>rw_count := rw_count existing + 1\<rparr>) ws))"

text \<open>The app's limiter answers with the milliseconds left.\<close>

definition checkRateLimit :: "string \<Rightarrow> int \<Rightarrow> int \<Rightarrow> int \<Rightarrow> rate_windows \<Rightarrow> rate_answer \<times> rate_windows" where
  "checkRateLimit key limit windowMs now windows =
     (let ws = (if length windows > 10000 then prune_windows now windows else windows)
      in case js_get ws key of
           None \<Rightarrow> (Admitted, js_set key \<lparr>rw_count = 1, rw_resetAt = now + windowMs\<rparr> ws)
         | Some existing \<Rightarrow>
             if rw_resetAt existing \<le> now then (Admitted, js_set key \<lparr>rw_count = 1, rw_resetAt = now + windowMs\<rparr> ws)
             else if rw_count existing \<ge> limit then (TooMany (rw_resetAt existing - now), ws)
             else (Admitted, js_set key (existing\<lparr>rw_count := rw_count existing + 1\<rparr>) ws))"

definition clientKeyFromHeaders :: "string option \<Rightarrow> string option \<Rightarrow> string" where
  "clientKeyFromHeaders forwarded realIp =
     (if given forwarded then trim (takeWhile (\<lambda>c. c \<noteq> CHR '','') (the_string forwarded))
      else if given realIp then trim (the_string realIp) else ''unknown'')"

text \<open>A run of requests, each by a client at a time.\<close>

fun rate_run :: "int \<Rightarrow> int \<Rightarrow> (string \<times> int) list \<Rightarrow> rate_windows \<Rightarrow> (string \<times> int \<times> rate_answer) list \<times> rate_windows" where
  "rate_run limit windowMs [] ws = ([], ws)"
| "rate_run limit windowMs ((k, t) # reqs) ws =
     (case rateLimit limit windowMs k t ws of (a, ws') \<Rightarrow>
      case rate_run limit windowMs reqs ws' of (as, ws'') \<Rightarrow> ((k, t, a) # as, ws''))"

section \<open>What a request sees and leaves\<close>

text \<open>Pruning removes only windows that are over, so a request sees what it would without it.\<close>

definition window_at :: "string \<Rightarrow> int \<Rightarrow> rate_windows \<Rightarrow> rate_window option" where
  "window_at k t ws = (case js_get ws k of Some w \<Rightarrow> if rw_resetAt w \<le> t then None else Some w | None \<Rightarrow> None)"

lemma get_prune: "js_ok ws \<Longrightarrow> js_get (prune_windows t ws) k = window_at k t ws"
  by (simp add: prune_windows_def window_at_def js_get_prune split: option.split)

lemma ok_prune: "js_ok ws \<Longrightarrow> js_ok (prune_windows t ws)"
  by (simp add: prune_windows_def js_ok_prune)

lemma rateLimit_ok: "js_ok ws \<Longrightarrow> js_ok (snd (rateLimit limit win k t ws))"
  by (auto simp: rateLimit_def Let_def ok_prune split: option.splits)

lemma rateLimit_own:
  assumes "js_ok ws" "rateLimit limit win k t ws = (a, ws')"
  shows "case window_at k t ws of
      None \<Rightarrow> a = Admitted \<and> js_get ws' k = Some \<lparr>rw_count = 1, rw_resetAt = t + win\<rparr>
    | Some w \<Rightarrow> if rw_count w \<ge> limit then a \<noteq> Admitted \<and> js_get ws' k = Some w
        else a = Admitted \<and> js_get ws' k = Some (w\<lparr>rw_count := rw_count w + 1\<rparr>)"
proof -
  have "js_get (if length ws > 10000 then prune_windows t ws else ws) k = (if length ws > 10000 then window_at k t ws else js_get ws k)"
    using get_prune [OF assms(1)] by simp
  then show ?thesis
    using assms(2) by (auto simp: rateLimit_def Let_def window_at_def js_get_set split: option.splits if_splits)
qed

lemma rateLimit_other:
  assumes "js_ok ws" "rateLimit limit win k t ws = (a, ws')" "j \<noteq> k"
  shows "js_get ws' j = js_get ws j \<or> js_get ws' j = None \<and> window_at j t ws = None"
proof -
  have "js_get ws' j = js_get (if length ws > 10000 then prune_windows t ws else ws) j"
    using assms(2, 3) by (auto simp: rateLimit_def Let_def js_get_set split: option.splits if_splits)
  then show ?thesis using get_prune [OF assms(1)] by (auto simp: window_at_def split: option.splits)
qed

section \<open>The bound\<close>

text \<open>
  \<open>n\<close> requests of the client were admitted in the span from \<open>from\<close> on, the last request was at \<open>T\<close>. A window open in the
  span began before it, and then holds all of them, or in it, and then the window before began before it.
\<close>

definition span_ok :: "int \<Rightarrow> int \<Rightarrow> string \<Rightarrow> int \<Rightarrow> int \<Rightarrow> int \<Rightarrow> rate_windows \<Rightarrow> bool" where
  "span_ok L win c from T n ws \<longleftrightarrow>
     js_ok ws \<and> (0 < n \<longrightarrow> from \<le> T) \<and> n \<le> 2 * L
   \<and> (case js_get ws c of
        None \<Rightarrow> n \<le> L \<or> from + win \<le> T
      | Some w \<Rightarrow> rw_count w \<le> L \<and> rw_resetAt w \<le> T + win
          \<and> (rw_resetAt w < from + win \<and> n \<le> rw_count w \<or> from + win \<le> rw_resetAt w \<and> rw_resetAt w < from + 2 * win \<and> n \<le> L + rw_count w
             \<or> from + 2 * win \<le> rw_resetAt w))"

definition counted :: "string \<Rightarrow> int \<Rightarrow> int \<Rightarrow> string \<times> int \<times> rate_answer \<Rightarrow> bool" where
  "counted c from win x = (case x of (k, t, a) \<Rightarrow> k = c \<and> a = Admitted \<and> from \<le> t \<and> t < from + win)"

lemma span_step:
  assumes ok: "span_ok L win c from T n ws" and t: "T \<le> t" "0 < win" "1 \<le> L" "limit \<le> L"
    and step: "rateLimit limit win k t ws = (a, ws')"
  shows "span_ok L win c from t (n + of_bool (counted c from win (k, t, a))) ws'"
proof -
  have d: "js_ok ws" "js_ok ws'" using ok rateLimit_ok [of ws limit win k t] step by (auto simp: span_ok_def)
  show ?thesis
  proof (cases "k = c")
    case True
    show ?thesis
    proof (cases "window_at c t ws")
      case None
      then have a: "a = Admitted" "js_get ws' c = Some \<lparr>rw_count = 1, rw_resetAt = t + win\<rparr>"
        using rateLimit_own [OF d(1) step] True by auto
      show ?thesis
      proof (cases "js_get ws c")
        case none: None
        show ?thesis using ok t d(2) a none True by (auto simp: span_ok_def counted_def)
      next
        case (Some w)
        then have "rw_resetAt w \<le> t" using None by (auto simp: window_at_def split: if_splits)
        then show ?thesis using ok t d(2) a Some True by (auto simp: span_ok_def counted_def)
      qed
    next
      case (Some w)
      then have w: "js_get ws c = Some w" "t < rw_resetAt w" by (auto simp: window_at_def split: option.splits if_splits)
      show ?thesis
      proof (cases "limit \<le> rw_count w")
        case full: True
        then have "a \<noteq> Admitted" "js_get ws' c = Some w" using rateLimit_own [OF d(1) step] True Some by auto
        then show ?thesis using ok t d(2) w by (auto simp: span_ok_def counted_def)
      next
        case False
        then have "a = Admitted" "js_get ws' c = Some (w\<lparr>rw_count := rw_count w + 1\<rparr>)" using rateLimit_own [OF d(1) step] True Some by auto
        then show ?thesis using ok t d(2) w True False by (auto simp: span_ok_def counted_def)
      qed
    qed
  next
    case False
    then have "\<not> counted c from win (k, t, a)" by (simp add: counted_def)
    moreover have "span_ok L win c from t n ws'"
      using rateLimit_other [OF d(1) step, of c] False ok t d(2)
      by (cases "js_get ws c") (auto simp: span_ok_def window_at_def split: if_splits)
    ultimately show ?thesis by simp
  qed
qed

lemma span_run:
  "span_ok L win c from T n ws \<Longrightarrow> sorted (T # map snd reqs) \<Longrightarrow> 0 < win \<Longrightarrow> 1 \<le> L \<Longrightarrow> limit \<le> L \<Longrightarrow>
   n + int (length (filter (counted c from win) (fst (rate_run limit win reqs ws)))) \<le> 2 * L"
proof (induction reqs arbitrary: T n ws)
  case (Cons r reqs)
  obtain k t where r: "r = (k, t)" by fastforce
  obtain a ws' where step: "rateLimit limit win k t ws = (a, ws')" by fastforce
  have "span_ok L win c from t (n + of_bool (counted c from win (k, t, a))) ws'"
    using span_step [OF Cons.prems(1) _ _ _ _ step] Cons.prems r by simp
  from Cons.IH [OF this] Cons.prems r step show ?case by (auto split: prod.split)
qed (simp add: span_ok_def)

lemma rate_limit_facts:
  assumes "sorted (map snd reqs)" "0 < windowMs"
  shows "length (filter (\<lambda>(k, t, a). k = client \<and> a = Admitted \<and> from \<le> t \<and> t < from + windowMs) (fst (rate_run limit windowMs reqs [])))
       \<le> nat (2 * max 1 limit)"
    and "(fst (checkRateLimit key limit windowMs now ws) = Admitted) = (fst (rateLimit limit windowMs key now ws) = Admitted)"
    and "snd (checkRateLimit key limit windowMs now ws) = snd (rateLimit limit windowMs key now ws)"
proof -
  have "(\<lambda>(k, t, a). k = client \<and> a = Admitted \<and> from \<le> t \<and> t < from + windowMs) = counted client from windowMs"
    by (auto simp: counted_def)
  moreover define T where "T = (case reqs of [] \<Rightarrow> 0 | r # _ \<Rightarrow> snd r)"
  moreover have "sorted (T # map snd reqs)" using assms(1) by (cases reqs) (auto simp: T_def)
  ultimately show "length (filter (\<lambda>(k, t, a). k = client \<and> a = Admitted \<and> from \<le> t \<and> t < from + windowMs) (fst (rate_run limit windowMs reqs [])))
       \<le> nat (2 * max 1 limit)"
    using span_run [of "max 1 limit" windowMs client "from" T 0 "[]" reqs limit] assms(2) by (simp add: span_ok_def)
qed (auto simp: checkRateLimit_def rateLimit_def Let_def split: option.split)

text \<open>C32. No client gets more than twice the limit through in any span as long as the window, wherever the span
  starts and whatever other clients do; the limiter of the app gives the same answers.\<close>

theorem rate_limit_bound:
  assumes "sorted (map snd reqs)" "0 < windowMs"
  shows "length (filter (\<lambda>(k, t, a). k = client \<and> a = Admitted \<and> from \<le> t \<and> t < from + windowMs) (fst (rate_run limit windowMs reqs [])))
       \<le> nat (2 * max 1 limit)
    \<and> (fst (checkRateLimit key limit windowMs now ws) = Admitted) = (fst (rateLimit limit windowMs key now ws) = Admitted)
    \<and> snd (checkRateLimit key limit windowMs now ws) = snd (rateLimit limit windowMs key now ws)"
  using rate_limit_facts [OF assms] by blast

text \<open>
  A refused client that waits as long as it was told, and not as long as the window, is let through, whoever else
  sends requests meanwhile.
\<close>

lemma retry_hint_admits:
  assumes "js_ok ws" "rateLimit limit win c t ws = (TooMany s, ws1)"
    and "rate_run limit win reqs ws1 = (as, ws2)" "c \<notin> fst ` set reqs" "t + 1000 * s \<le> t'"
  shows "fst (rateLimit limit win c t' ws2) = Admitted" "1 \<le> s"
proof -
  let ?over = "\<lambda>ws. js_ok ws \<and> (\<forall>w. js_get ws c = Some w \<longrightarrow> rw_resetAt w \<le> t')"
  have ws1: "js_ok ws1" using rateLimit_ok [OF assms(1), of limit win c t] assms(2) by simp
  obtain w where w: "js_get ws1 c = Some w" "s = max 1 (- (- (rw_resetAt w - t) div 1000))"
    using assms(2) get_prune [OF assms(1)] by (auto simp: rateLimit_def Let_def window_at_def split: option.splits if_splits)
  then show "1 \<le> s" by simp
  have "rw_resetAt w \<le> t + 1000 * s" unfolding w(2) by linarith
  then have over: "?over ws1" using ws1 w(1) assms(5) by simp
  have "?over ws1 \<Longrightarrow> rate_run limit win reqs ws1 = (as, ws2) \<Longrightarrow> c \<notin> fst ` set reqs \<Longrightarrow> ?over ws2"
  proof (induction reqs arbitrary: ws1 as)
    case (Cons r reqs)
    obtain k u a ws' where r: "r = (k, u)" and step: "rateLimit limit win k u ws1 = (a, ws')" by (metis surj_pair)
    have "?over ws'"
      using rateLimit_other [of ws1 limit win k u a ws' c] rateLimit_ok [of ws1 limit win k u] step Cons.prems r by auto
    with Cons r step show ?case by (auto split: prod.splits)
  qed simp
  with over assms(3, 4) have "?over ws2" by blast
  then show "fst (rateLimit limit win c t' ws2) = Admitted"
    using rateLimit_own [of ws2 limit win c t' "fst (rateLimit limit win c t' ws2)" "snd (rateLimit limit win c t' ws2)"]
    by (auto simp: window_at_def split: option.splits)
qed

text \<open>
  The relayer takes the address its proxy wrote; the app takes the first entry of the header, which the caller
  writes, so a caller chooses its own bucket.
\<close>

lemma forwarded_bucket_chosen:
  assumes "CHR '','' \<notin> set chosen" "chosen \<noteq> []" "\<And>ch. ch \<in> set chosen \<Longrightarrow> \<not> is_ws ch"
  shows "clientKeyFromHeaders (Some (chosen @ CHR '','' # proxies)) realIp = chosen"
  using assms by (simp add: clientKeyFromHeaders_def given_def the_string_def takeWhile_append trim_no_ws)

lemma rate_limit_bound_witness:
  "length (filter (\<lambda>(k, t, a). k = ''a'' \<and> a = Admitted \<and> 0 \<le> t \<and> t < 0 + 10) (fst (rate_run 1 10 [(''a'', 0), (''a'', 1), (''b'', 2), (''a'', 9)] []))) \<le> nat (2 * max 1 1)"
  using rate_limit_bound [of "[(''a'', 0), (''a'', 1), (''b'', 2), (''a'', 9)]" 10 "''a''" 0 1] by simp

end
