(* ===== verification/PositionIndex.thy ===== *)
theory PositionIndex
  imports LendEvents AppTypes "HOL-Library.Sublist"
begin

text \<open>
  \<^verbatim>\<open>relayer/src/lend/deposit-reads.ts\<close>: the index of position events behind the deposit status and the timeline. It walks the
  RPC's event window once and then follows the tip from its cursor; when the cursor has left the window it starts again
  at the oldest ledger kept. The \<open>k\<close>-th call to the RPC is answered by \<open>getEvents k\<close> or \<open>getHealth k\<close>; a walk is one step, as
  overlapping callers share it. The XDR codec is the parameter \<^typ>\<open>'x sdk\<close> of \<^verbatim>\<open>LendEvents\<close>.
\<close>

section \<open>Events\<close>

definition POSITION_EVENT_KINDS :: "string list" where
  "POSITION_EVENT_KINDS = [''deposit'', ''borrow'', ''repay'', ''repay_full'', ''liquidate'']"

record decoded_position_event =
  dp_kind :: string
  dp_txid :: string
  dp_account :: "string option"
  dp_amount :: "string option"

record position_event = decoded_position_event +
  pe_stellarTxHash :: string
  pe_ledger :: nat
  pe_ledgerClosedAt :: string

record 'x index_event =
  ix_id :: string  \<comment> \<open>the RPC's id of the event, which the index does not read\<close>
  ix_topic :: "'x list"
  ix_value :: "'x option"
  ix_txHash :: string
  ix_ledger :: nat
  ix_ledgerClosedAt :: string

record 'x index_page = "'x index_event page" +
  ip_latestLedger :: nat

text \<open>The first of some properties of an object that is neither missing nor null.\<close>

fun coalesce :: "(string \<times> native) list \<Rightarrow> string list \<Rightarrow> native option" where
  "coalesce data [] = None"
| "coalesce data (k # ks) = (case map_of data k of Some v \<Rightarrow> if v \<noteq> NNull then Some v else coalesce data ks | None \<Rightarrow> coalesce data ks)"

definition decodePositionEvent :: "'x sdk \<Rightarrow> 'x index_event \<Rightarrow> decoded_position_event option" where
  "decodePositionEvent sdk ev =
     (case ix_topic ev of
        t0 # t1 # _ \<Rightarrow>
          (case scValToNative sdk t0 of
             NStr kind \<Rightarrow>
               if kind \<notin> set POSITION_EVENT_KINDS then None
               else (case scValToNative sdk t1 of
                  NBytes b \<Rightarrow>
                    if length b \<noteq> 32 then None
                    else let out = \<lparr>dp_kind = kind, dp_txid = hex_of_bytes b, dp_account = None, dp_amount = None\<rparr> in
                      (case map_option (scValToNative sdk) (ix_value ev) of
                         Some (NMap data) \<Rightarrow> Some (out\<lparr>
                           dp_account := (case coalesce data [''borrower'', ''repayer'', ''keeper''] of Some (NStr a) \<Rightarrow> Some a | _ \<Rightarrow> None),
                           dp_amount := (case map_of data ''usdc_amount'' of Some (NBig i) \<Rightarrow> Some (int_str i) | _ \<Rightarrow> None)\<rparr>)
                       | _ \<Rightarrow> Some out)
                | _ \<Rightarrow> None)
           | _ \<Rightarrow> None)
      | _ \<Rightarrow> None)"

definition decodeDepositTxid :: "'x sdk \<Rightarrow> 'x list \<Rightarrow> string option" where
  "decodeDepositTxid sdk topic =
     (case decodePositionEvent sdk \<lparr>ix_id = [], ix_topic = topic, ix_value = None, ix_txHash = [], ix_ledger = 0, ix_ledgerClosedAt = []\<rparr> of
        Some d \<Rightarrow> if dp_kind d = ''deposit'' then Some (dp_txid d) else None
      | None \<Rightarrow> None)"

section \<open>The index\<close>

record position_index =
  pi_records :: "(string, position_event list) jsmap"
  pi_cursor :: "string option"
  pi_refreshedAt :: "int option"  \<comment> \<open>\<^const>\<open>None\<close> is minus infinity\<close>

definition empty_index :: position_index where
  "empty_index = \<lparr>pi_records = [], pi_cursor = None, pi_refreshedAt = None\<rparr>"

definition records_of :: "position_index \<Rightarrow> string \<Rightarrow> position_event list" where
  "records_of s t = (case js_get (pi_records s) t of Some l \<Rightarrow> l | None \<Rightarrow> [])"

definition record_of :: "'x index_event \<Rightarrow> decoded_position_event \<Rightarrow> position_event" where
  "record_of ev d = \<lparr>dp_kind = dp_kind d, dp_txid = dp_txid d, dp_account = dp_account d, dp_amount = dp_amount d,
     pe_stellarTxHash = ix_txHash ev, pe_ledger = ix_ledger ev, pe_ledgerClosedAt = ix_ledgerClosedAt ev\<rparr>"

definition index_event :: "'x sdk \<Rightarrow> 'x index_event \<Rightarrow> position_index \<Rightarrow> position_index" where
  "index_event sdk ev s =
     (case decodePositionEvent sdk ev of
        None \<Rightarrow> s
      | Some d \<Rightarrow>
          let l = records_of s (dp_txid d) in
          if list_ex (\<lambda>e. dp_kind e = dp_kind d \<and> pe_stellarTxHash e = ix_txHash ev) l then s
          else s\<lparr>pi_records := js_set (dp_txid d) (l @ [record_of ev d]) (pi_records s)\<rparr>)"

definition PAGE_LIMIT :: nat where "PAGE_LIMIT = 200"
definition MAX_PAGES_PER_REFRESH :: nat where "MAX_PAGES_PER_REFRESH = 20"

fun index_walk ::
    "'x sdk \<Rightarrow> (nat \<Rightarrow> events_request \<Rightarrow> string + 'x index_page) \<Rightarrow> (nat \<Rightarrow> string + nat) \<Rightarrow> nat \<Rightarrow> nat \<Rightarrow> position_index
     \<Rightarrow> nat \<times> position_index \<times> (string + unit)" where
  "index_walk sdk getEvents getHealth 0 k s = (k, s, Inr ())"
| "index_walk sdk getEvents getHealth (Suc n) k s =
     (let absorb = (\<lambda>k p.
        let s' = (fold (index_event sdk) (page_events p) s)\<lparr>pi_cursor := Some (page_cursor p)\<rparr> in
        if length (page_events p) < PAGE_LIMIT \<and> ip_latestLedger p \<le> ledgerOfCursor (page_cursor p) then (k, s', Inr ())
        else index_walk sdk getEvents getHealth n k s') in
      if given (pi_cursor s)
      then let c = the_string (pi_cursor s) in
        (case getEvents k (FromCursor c) of
           Inr p \<Rightarrow> absorb (Suc k) p
         | Inl e \<Rightarrow>
             (case getHealth (Suc k) of
                Inl e' \<Rightarrow> (Suc (Suc k), s, Inl e')
              | Inr oldestLedger \<Rightarrow>
                  if oldestLedger \<le> ledgerOfCursor c then (Suc (Suc k), s, Inl e)
                  else index_walk sdk getEvents getHealth n (Suc (Suc k)) (s\<lparr>pi_cursor := None\<rparr>)))
      else
        (case getHealth k of
           Inl e \<Rightarrow> (Suc k, s, Inl e)
         | Inr oldestLedger \<Rightarrow>
             (case getEvents (Suc k) (FromLedger oldestLedger) of
                Inl e \<Rightarrow> (Suc (Suc k), s, Inl e)
              | Inr p \<Rightarrow> absorb (Suc (Suc k)) p)))"

text \<open>\<^verbatim>\<open>refresh\<close> with no walk under way: \<open>t\<close> is the time before a walk and \<open>t'\<close> after it.\<close>

definition index_refresh ::
    "'x sdk \<Rightarrow> (nat \<Rightarrow> events_request \<Rightarrow> string + 'x index_page) \<Rightarrow> (nat \<Rightarrow> string + nat) \<Rightarrow> int \<Rightarrow> bool \<Rightarrow> int \<Rightarrow> int \<Rightarrow> nat \<Rightarrow> position_index
     \<Rightarrow> nat \<times> position_index \<times> (string + unit)" where
  "index_refresh sdk getEvents getHealth freshForMs force t t' k s =
     (if \<not> force \<and> (case pi_refreshedAt s of Some r \<Rightarrow> t - r < freshForMs | None \<Rightarrow> False) then (k, s, Inr ())
      else (case index_walk sdk getEvents getHealth MAX_PAGES_PER_REFRESH k s of
          (k', s', Inl e) \<Rightarrow> (k', s', Inl e)
        | (k', s', Inr _) \<Rightarrow> (k', s'\<lparr>pi_refreshedAt := Some t'\<rparr>, Inr ())))"

definition history_of :: "string \<Rightarrow> position_index \<Rightarrow> position_event list" where
  "history_of txidInternal s = records_of s (toLowerCase txidInternal)"

definition lookup_deposit :: "string \<Rightarrow> position_index \<Rightarrow> position_event option" where
  "lookup_deposit txidInternal s = find (\<lambda>e. dp_kind e = ''deposit'') (history_of txidInternal s)"

section \<open>What the index holds\<close>

definition wanted :: "'x sdk \<Rightarrow> string \<Rightarrow> 'x index_event \<Rightarrow> position_event option" where
  "wanted sdk t ev = (case decodePositionEvent sdk ev of Some d \<Rightarrow> if dp_txid d = t then Some (record_of ev d) else None | None \<Rightarrow> None)"

abbreviation wanted_list :: "'x sdk \<Rightarrow> string \<Rightarrow> 'x index_event list \<Rightarrow> position_event list" where
  "wanted_list sdk t es \<equiv> List.map_filter (wanted sdk t) es"

definition event_key :: "position_event \<Rightarrow> string \<times> string" where
  "event_key r = (dp_kind r, pe_stellarTxHash r)"

lemma map_filter_append: "List.map_filter f (xs @ ys) = List.map_filter f xs @ List.map_filter f ys"
  by (simp add: List.map_filter_def)

lemma subseq_map_filter: "subseq xs ys \<Longrightarrow> subseq (List.map_filter f xs) (List.map_filter f ys)"
  unfolding List.map_filter_def by (intro subseq_map subseq_filter)

lemma index_event_records:
  assumes "distinct (map event_key (records_of s t @ wanted_list sdk t [ev]))"
  shows "records_of (index_event sdk ev s) t = records_of s t @ wanted_list sdk t [ev]"
proof (cases "decodePositionEvent sdk ev")
  case (Some d)
  show ?thesis
  proof (cases "dp_txid d = t")
    case True
    then have "wanted sdk t ev = Some (record_of ev d)" using Some by (simp add: wanted_def)
    moreover from this assms have "\<not> list_ex (\<lambda>e. dp_kind e = dp_kind d \<and> pe_stellarTxHash e = ix_txHash ev) (records_of s t)"
      by (auto simp: List.map_filter_simps list_ex_iff event_key_def record_of_def image_iff)
    ultimately show ?thesis using Some True
      by (simp add: index_event_def Let_def records_of_def jsmap_simps List.map_filter_simps)
  next
    case False
    then show ?thesis using Some
      by (simp add: index_event_def Let_def records_of_def jsmap_simps wanted_def List.map_filter_simps)
  qed
qed (simp add: index_event_def wanted_def List.map_filter_simps)

lemma index_page_records:
  "distinct (map event_key (records_of s t @ wanted_list sdk t es)) \<Longrightarrow>
   records_of (fold (index_event sdk) es s) t = records_of s t @ wanted_list sdk t es"
proof (induction es arbitrary: s)
  case (Cons ev es)
  have split: "wanted_list sdk t (ev # es) = wanted_list sdk t [ev] @ wanted_list sdk t es"
    using map_filter_append [of _ "[ev]" es] by simp
  have one: "records_of (index_event sdk ev s) t = records_of s t @ wanted_list sdk t [ev]"
    using Cons.prems unfolding split by (intro index_event_records) auto
  show ?case using Cons.IH [of "index_event sdk ev s"] Cons.prems unfolding one split by simp
qed (simp add: List.map_filter_simps)

text \<open>
  The chain, in order, with valid ids; a transaction emits at most one event of a kind for a position; the RPC serves pages of
  it and the oldest ledger it keeps never goes back.
\<close>

definition index_chain :: "'x sdk \<Rightarrow> 'x index_event list \<Rightarrow> bool" where
  "index_chain sdk chain \<longleftrightarrow> sorted_wrt (<) (map ix_id chain) \<and> (\<forall>e\<in>set chain. isValidCursor (ix_id e))
   \<and> (\<forall>t. distinct (map event_key (wanted_list sdk t chain)))"

definition index_rpc :: "'x index_event list \<Rightarrow> (nat \<Rightarrow> events_request \<Rightarrow> string + 'x index_page) \<Rightarrow> (nat \<Rightarrow> string + nat) \<Rightarrow> bool" where
  "index_rpc chain getEvents getHealth \<longleftrightarrow>
     (\<forall>k req p. getEvents k req = Inr p \<longrightarrow> serves ix_id chain req (page.truncate p) \<and> isValidCursor (page_cursor p)
        \<and> (\<forall>l. req = FromLedger l \<longrightarrow> l \<le> ledgerOfCursor (page_cursor p)))
   \<and> (\<forall>k k' l l'. getHealth k = Inr l \<and> getHealth k' = Inr l' \<and> k \<le> k' \<longrightarrow> l \<le> l')"

definition kept_from :: "nat \<Rightarrow> 'x index_event list \<Rightarrow> 'x index_event list" where
  "kept_from l chain = filter (\<lambda>e. ledgerOfCursor (ix_id e) < l) chain"

definition seen :: "nat \<Rightarrow> string \<Rightarrow> 'x index_event list \<Rightarrow> 'x index_event list" where
  "seen l c chain = filter (\<lambda>e. l \<le> ledgerOfCursor (ix_id e) \<and> ix_id e \<le> c) chain"

text \<open>
  \<open>l\<close> is the ledger the index last started from: what it holds is part of the chain before, then everything from there up to
  the cursor.
\<close>

definition covered :: "nat \<Rightarrow> position_index \<Rightarrow> 'x index_event list \<Rightarrow> 'x index_event list" where
  "covered l s chain = (case pi_cursor s of Some c \<Rightarrow> seen l c chain | None \<Rightarrow> [])"

definition index_ok :: "'x sdk \<Rightarrow> 'x index_event list \<Rightarrow> (nat \<Rightarrow> string + nat) \<Rightarrow> nat \<Rightarrow> position_index \<Rightarrow> bool" where
  "index_ok sdk chain getHealth k s \<longleftrightarrow> (\<exists>l older.
     subseq older (kept_from l chain)
   \<and> (\<forall>t. records_of s t = wanted_list sdk t (older @ covered l s chain))
   \<and> (\<forall>k' l'. k \<le> k' \<and> getHealth k' = Inr l' \<longrightarrow> l \<le> l')
   \<and> (\<forall>c. pi_cursor s = Some c \<longrightarrow> isValidCursor c \<and> l \<le> ledgerOfCursor c \<and> (\<exists>k'<k. getHealth k' = Inr l)))"

lemma kept_from_le:
  assumes "sorted_wrt (<) (map ix_id chain)" "\<forall>e\<in>set chain. isValidCursor (ix_id e)" "l \<le> l'"
  shows "kept_from l' chain = kept_from l chain @ filter (\<lambda>e. l \<le> ledgerOfCursor (ix_id e) \<and> ledgerOfCursor (ix_id e) < l') chain"
  using assms(1, 2)
proof (induction chain)
  case (Cons e es)
  show ?case
  proof (cases "ledgerOfCursor (ix_id e) < l")
    case True
    then show ?thesis using Cons assms(3) by (simp add: kept_from_def)
  next
    case False
    have "l \<le> ledgerOfCursor (ix_id f)" if "f \<in> set es" for f
      using ledgerOfCursor_mono [of "ix_id e" "ix_id f"] Cons.prems that False by fastforce
    then have "kept_from l es = []" by (auto simp: kept_from_def filter_empty_conv not_less)
    then show ?thesis using Cons False by (auto simp: kept_from_def)
  qed
qed (simp add: kept_from_def)


lemma index_chainD:
  assumes "index_chain sdk chain"
  shows "sorted_wrt (<) (map ix_id chain)" "\<forall>e\<in>set chain. isValidCursor (ix_id e)" "distinct (map event_key (wanted_list sdk t chain))"
  using assms by (auto simp: index_chain_def)

lemma subseq_older_seen:
  assumes "index_chain sdk chain" "subseq older (kept_from l chain)"
  shows "subseq (older @ seen l c chain) chain"
proof -
  have "kept_from l' chain = kept_from l chain @ filter (\<lambda>e. l \<le> ledgerOfCursor (ix_id e) \<and> ledgerOfCursor (ix_id e) < l') chain" if "l \<le> l'" for l'
    using kept_from_le [OF index_chainD(1,2) [OF assms(1)] that] .
  moreover define l' where "l' = Suc (l + Max (insert 0 (set (map (\<lambda>e. ledgerOfCursor (ix_id e)) chain))))"
  moreover have "ledgerOfCursor (ix_id e) < l'" if "e \<in> set chain" for e
    using that unfolding l'_def by (auto intro!: le_imp_less_Suc trans_le_add2 Max_ge)
  moreover from this have "kept_from l' chain = chain" "filter (\<lambda>e. l \<le> ledgerOfCursor (ix_id e) \<and> ledgerOfCursor (ix_id e) < l') chain = filter (\<lambda>e. l \<le> ledgerOfCursor (ix_id e)) chain"
    by (auto simp: kept_from_def intro: filter_cong)
  ultimately have split: "chain = kept_from l chain @ filter (\<lambda>e. l \<le> ledgerOfCursor (ix_id e)) chain" by (metis le_SucI le_add1)
  have "subseq (seen l c chain) (filter (\<lambda>e. l \<le> ledgerOfCursor (ix_id e)) chain)"
    unfolding seen_def filter_filter [symmetric, of _ _ chain] by (metis (no_types, lifting) conj_commute filter_cong filter_filter subseq_filter_left)
  with assms(2) have "subseq (older @ seen l c chain) (kept_from l chain @ filter (\<lambda>e. l \<le> ledgerOfCursor (ix_id e)) chain)"
    by (rule list_emb_append_mono)
  with split show ?thesis by simp
qed

lemma subseq_distinct: "subseq xs ys \<Longrightarrow> distinct ys \<Longrightarrow> distinct xs"
  by (metis subseq_conv_nths distinct_nthsI)

lemma absorb_records:
  assumes "index_chain sdk chain" "subseq older (kept_from l chain)"
    and "\<And>t. records_of s t = wanted_list sdk t (older @ before)" "before @ es = seen l c chain"
  shows "records_of (fold (index_event sdk) es s) t = wanted_list sdk t (older @ seen l c chain)"
proof -
  have "distinct (map event_key (wanted_list sdk t (older @ seen l c chain)))"
    using subseq_distinct [OF subseq_map [OF subseq_map_filter [OF subseq_older_seen [OF assms(1,2)]]] index_chainD(3) [OF assms(1)]] .
  then show ?thesis
    using index_page_records [of s t sdk es] unfolding assms(3) assms(4) [symmetric] by (simp add: map_filter_append)
qed

lemma index_absorb:
  assumes chain: "index_chain sdk chain" and ok: "index_ok sdk chain getHealth k s"
    and page: "serves ix_id chain req (page.truncate p)" "isValidCursor (page_cursor p)"
    and req: "(case pi_cursor s of Some c \<Rightarrow> req = FromCursor c | None \<Rightarrow> \<exists>l j. req = FromLedger l \<and> l \<le> ledgerOfCursor (page_cursor p)
        \<and> k \<le> j \<and> j < k' \<and> getHealth j = Inr l \<and> (\<forall>i l'. k' \<le> i \<and> getHealth i = Inr l' \<longrightarrow> l \<le> l'))" "k \<le> k'"
  shows "index_ok sdk chain getHealth k' ((fold (index_event sdk) (page_events p) s)\<lparr>pi_cursor := Some (page_cursor p)\<rparr>)"
proof -
  from ok obtain l older where l: "subseq older (kept_from l chain)" "\<And>t. records_of s t = wanted_list sdk t (older @ covered l s chain)"
    "\<And>i l'. k \<le> i \<and> getHealth i = Inr l' \<Longrightarrow> l \<le> l'"
    "\<And>c. pi_cursor s = Some c \<Longrightarrow> isValidCursor c \<and> l \<le> ledgerOfCursor c \<and> (\<exists>i<k. getHealth i = Inr l)" unfolding index_ok_def by blast
  note valid = index_chainD(1,2) [OF chain]
  let ?s = "(fold (index_event sdk) (page_events p) s)\<lparr>pi_cursor := Some (page_cursor p)\<rparr>"
  have rec: "records_of ?s t = records_of (fold (index_event sdk) (page_events p) s) t" for t by (simp add: records_of_def)
  show ?thesis
  proof (cases "pi_cursor s")
    case (Some c)
    then have c: "isValidCursor c" "l \<le> ledgerOfCursor c" "\<exists>i<k'. getHealth i = Inr l" using l(4) req(2) by (blast, blast, meson less_le_trans)
    have le: "c \<le> page_cursor p" and es: "page_events p = filter (\<lambda>e. c < ix_id e \<and> ix_id e \<le> page_cursor p) chain"
      using page(1) req(1) Some by (auto simp: serves_def page.defs)
    have "l \<le> ledgerOfCursor (ix_id e)" if "e \<in> set chain" "c < ix_id e" for e
      using ledgerOfCursor_mono [OF c(1), of "ix_id e"] valid(2) that c(2) by force
    then have "filter (\<lambda>e. l \<le> ledgerOfCursor (ix_id e)) (page_events p) = page_events p" unfolding es filter_filter by (intro filter_cong) auto
    then have "covered l s chain @ page_events p = filter (\<lambda>e. l \<le> ledgerOfCursor (ix_id e)) (filter (\<lambda>e. ix_id e \<le> page_cursor p) chain)"
      unfolding filter_upto [OF valid(1) le] using Some es by (simp add: covered_def seen_def conj_ac)
    then have seen: "covered l s chain @ page_events p = seen l (page_cursor p) chain" by (simp add: seen_def conj_commute)
    have "records_of ?s t = wanted_list sdk t (older @ seen l (page_cursor p) chain)" for t
      unfolding rec by (rule absorb_records [OF chain l(1,2) seen])
    moreover have "l \<le> ledgerOfCursor (page_cursor p)" using ledgerOfCursor_mono [OF c(1) page(2) le] c(2) by simp
    moreover have "l \<le> m" if "k' \<le> i" "getHealth i = Inr m" for i m using l(3) that req(2) by (meson le_trans)
    ultimately show ?thesis
      unfolding index_ok_def using l(1) c(3) page(2) by (intro exI [of _ l] exI [of _ older]) (auto simp: covered_def)
  next
    case None
    then obtain l' j where n: "req = FromLedger l'" "l' \<le> ledgerOfCursor (page_cursor p)" "k \<le> j" "j < k'" "getHealth j = Inr l'"
      "\<And>i m. k' \<le> i \<and> getHealth i = Inr m \<Longrightarrow> l' \<le> m" using req(1) by auto
    have "l \<le> l'" using l(3) n(3,5) by blast
    have older: "subseq older (kept_from l' chain)"
      using list_emb_append_mono [OF l(1) list_emb_Nil] unfolding kept_from_le [OF valid \<open>l \<le> l'\<close>] by simp
    have "[] @ page_events p = seen l' (page_cursor p) chain" using page(1) n(1) by (simp add: serves_def seen_def page.defs)
    moreover have "records_of s t = wanted_list sdk t (older @ [])" for t using l(2) None by (simp add: covered_def)
    ultimately have "records_of ?s t = wanted_list sdk t (older @ seen l' (page_cursor p) chain)" for t
      unfolding rec by (intro absorb_records [OF chain older])
    then show ?thesis
      unfolding index_ok_def using older n page(2) by (intro exI [of _ l'] exI [of _ older]) (auto simp: covered_def)
  qed
qed

lemma index_rpcD:
  assumes "index_rpc chain getEvents getHealth"
  shows "getEvents k req = Inr p \<Longrightarrow> serves ix_id chain req (page.truncate p)" "getEvents k req = Inr p \<Longrightarrow> isValidCursor (page_cursor p)"
    and "getEvents k (FromLedger l) = Inr p \<Longrightarrow> l \<le> ledgerOfCursor (page_cursor p)"
    and "getHealth k = Inr l \<Longrightarrow> getHealth k' = Inr l' \<Longrightarrow> k \<le> k' \<Longrightarrow> l \<le> l'"
  using assms unfolding index_rpc_def by blast+

lemma index_ok_later: "index_ok sdk chain getHealth k s \<Longrightarrow> k \<le> k' \<Longrightarrow> index_ok sdk chain getHealth k' s"
  unfolding index_ok_def by (meson dual_order.trans less_le_trans)

lemma index_forget:
  assumes chain: "index_chain sdk chain" and ok: "index_ok sdk chain getHealth k s"
    and c: "pi_cursor s = Some c" "getHealth j = Inr m" "ledgerOfCursor c < m" "k \<le> j" "j < k'"
    and mono: "\<And>i l'. j \<le> i \<Longrightarrow> getHealth i = Inr l' \<Longrightarrow> m \<le> l'"
  shows "index_ok sdk chain getHealth k' (s\<lparr>pi_cursor := None\<rparr>)"
proof -
  from ok obtain l older where l: "subseq older (kept_from l chain)" "\<And>t. records_of s t = wanted_list sdk t (older @ covered l s chain)"
    "\<And>i l'. k \<le> i \<and> getHealth i = Inr l' \<Longrightarrow> l \<le> l'" "isValidCursor c" unfolding index_ok_def using c(1) by blast
  have le: "l \<le> m" using l(3) c by blast
  have later: "m \<le> l'" if "k' \<le> i" "getHealth i = Inr l'" for i l' using mono that c(5) by (meson le_trans less_imp_le)
  note valid = index_chainD(1,2) [OF chain]
  have "ledgerOfCursor (ix_id e) < m" if "e \<in> set chain" "ix_id e \<le> c" for e
    using ledgerOfCursor_mono [OF _ l(4), of "ix_id e"] valid(2) that c(3) by force
  then have "seen l c chain = filter (\<lambda>e. ix_id e \<le> c) (filter (\<lambda>e. l \<le> ledgerOfCursor (ix_id e) \<and> ledgerOfCursor (ix_id e) < m) chain)"
    by (auto simp: seen_def intro: filter_cong)
  then have "subseq (seen l c chain) (filter (\<lambda>e. l \<le> ledgerOfCursor (ix_id e) \<and> ledgerOfCursor (ix_id e) < m) chain)"
    by (metis subseq_filter_left)
  then have "subseq (older @ seen l c chain) (kept_from m chain)"
    unfolding kept_from_le [OF valid le] by (rule list_emb_append_mono [OF l(1)])
  then show ?thesis
    unfolding index_ok_def using l(2) c later
    by (intro exI [of _ m] exI [of _ "older @ seen l c chain"]) (auto simp: covered_def records_of_def)
qed

lemma index_walk_ok:
  fixes sdk :: "'x sdk"
  assumes "index_chain sdk chain" "index_rpc chain getEvents getHealth"
  shows "index_ok sdk chain getHealth k s \<Longrightarrow> index_walk sdk (getEvents :: nat \<Rightarrow> events_request \<Rightarrow> string + 'x index_page) getHealth n k s = (k', s', r) \<Longrightarrow> index_ok sdk chain getHealth k' s' \<and> k \<le> k'"
proof (induction n arbitrary: k s)
  case (Suc n)
  note rpc = index_rpcD [OF assms(2)]
  define absorb where "absorb k p =
       (let s' = (fold (index_event sdk) (page_events p) s)\<lparr>pi_cursor := Some (page_cursor p)\<rparr> in
        if length (page_events p) < PAGE_LIMIT \<and> ip_latestLedger p \<le> ledgerOfCursor (page_cursor p) then (k, s', Inr ())
        else index_walk sdk getEvents getHealth n k s')" for k and p :: "'x index_page"
  have absorbed: "index_ok sdk chain getHealth k' s' \<and> j \<le> k'"
    if "absorb j p = (k', s', r)" "index_ok sdk chain getHealth j ((fold (index_event sdk) (page_events p) s)\<lparr>pi_cursor := Some (page_cursor p)\<rparr>)" for j p
    using that Suc.IH [of j] by (auto simp: absorb_def Let_def split: if_splits)
  have walk: "(if given (pi_cursor s)
      then let c = the_string (pi_cursor s) in
        (case getEvents k (FromCursor c) of
           Inr p \<Rightarrow> absorb (Suc k) p
         | Inl e \<Rightarrow>
             (case getHealth (Suc k) of
                Inl e' \<Rightarrow> (Suc (Suc k), s, Inl e')
              | Inr oldestLedger \<Rightarrow>
                  if oldestLedger \<le> ledgerOfCursor c then (Suc (Suc k), s, Inl e)
                  else index_walk sdk getEvents getHealth n (Suc (Suc k)) (s\<lparr>pi_cursor := None\<rparr>)))
      else
        (case getHealth k of
           Inl e \<Rightarrow> (Suc k, s, Inl e)
         | Inr oldestLedger \<Rightarrow>
             (case getEvents (Suc k) (FromLedger oldestLedger) of
                Inl e \<Rightarrow> (Suc (Suc k), s, Inl e)
              | Inr p \<Rightarrow> absorb (Suc (Suc k)) p))) = (k', s', r)"
    using Suc.prems(2) unfolding absorb_def index_walk.simps(2) Let_def .
  have later: "index_ok sdk chain getHealth (Suc k) s" "index_ok sdk chain getHealth (Suc (Suc k)) s"
    using index_ok_later [OF Suc.prems(1)] by simp_all
  show ?case
  proof (cases "given (pi_cursor s)")
    case True
    then obtain c where c: "pi_cursor s = Some c" "the_string (pi_cursor s) = c" by (auto simp: given_def the_string_def split: option.splits)
    show ?thesis
    proof (cases "getEvents k (FromCursor c)")
      case (Inr p)
      have "index_ok sdk chain getHealth (Suc k) ((fold (index_event sdk) (page_events p) s)\<lparr>pi_cursor := Some (page_cursor p)\<rparr>)"
        by (rule index_absorb [OF assms(1) Suc.prems(1) rpc(1,2) [OF Inr]]) (simp_all add: c)
      from absorbed [OF _ this] walk Inr True c show ?thesis by simp
    next
      case (Inl e)
      show ?thesis
      proof (cases "getHealth (Suc k)")
        case h: (Inr m)
        show ?thesis
        proof (cases "m \<le> ledgerOfCursor c")
          case False
          have "index_ok sdk chain getHealth (Suc (Suc k)) (s\<lparr>pi_cursor := None\<rparr>)"
            by (rule index_forget [OF assms(1) Suc.prems(1) c(1) h]) (use False rpc(4) [OF h] in auto)
          from Suc.IH [OF this] walk Inl True c h False show ?thesis by simp
        qed (use walk Inl True c h later in auto)
      qed (use walk Inl True c later in auto)
    qed
  next
    case False
    show ?thesis
    proof (cases "getHealth k")
      case h: (Inr m)
      show ?thesis
      proof (cases "getEvents (Suc k) (FromLedger m)")
        case (Inr p)
        have none: "pi_cursor s = None \<or> pi_cursor s = Some []" using False by (auto simp: given_def split: option.splits)
        have "\<not> isValidCursor []" by (simp add: isValidCursor_def)
        with none Suc.prems(1) have none: "pi_cursor s = None" unfolding index_ok_def by auto
        have "index_ok sdk chain getHealth (Suc (Suc k)) ((fold (index_event sdk) (page_events p) s)\<lparr>pi_cursor := Some (page_cursor p)\<rparr>)"
          by (rule index_absorb [OF assms(1) Suc.prems(1) rpc(1,2) [OF Inr]]) (use none h rpc(3) [OF Inr] rpc(4) [OF h] in auto)
        from absorbed [OF _ this] walk Inr False h show ?thesis by simp
      qed (use walk False h later in auto)
    qed (use walk False later in auto)
  qed
qed auto


text \<open>A run of refreshes, each with whether it is forced and the times before and after its walk.\<close>

fun index_refreshes ::
    "'x sdk \<Rightarrow> (nat \<Rightarrow> events_request \<Rightarrow> string + 'x index_page) \<Rightarrow> (nat \<Rightarrow> string + nat) \<Rightarrow> int \<Rightarrow> (bool \<times> int \<times> int) list \<Rightarrow> nat \<Rightarrow> position_index
     \<Rightarrow> nat \<times> position_index" where
  "index_refreshes sdk getEvents getHealth freshForMs [] k s = (k, s)"
| "index_refreshes sdk getEvents getHealth freshForMs ((force, t, t') # rs) k s =
     (case index_refresh sdk getEvents getHealth freshForMs force t t' k s of
        (k', s', _) \<Rightarrow> index_refreshes sdk getEvents getHealth freshForMs rs k' s')"

lemma index_refresh_ok:
  assumes "index_chain sdk chain" "index_rpc chain getEvents getHealth" "index_ok sdk chain getHealth k s"
    "index_refresh sdk getEvents getHealth freshForMs force t t' k s = (k', s', r)"
  shows "index_ok sdk chain getHealth k' s'"
proof -
  have stamp: "index_ok sdk chain getHealth j (u\<lparr>pi_refreshedAt := x\<rparr>) \<longleftrightarrow> index_ok sdk chain getHealth j u" for j u x
    by (simp add: index_ok_def records_of_def covered_def)
  obtain j u q where "index_walk sdk getEvents getHealth MAX_PAGES_PER_REFRESH k s = (j, u, q)" by (metis surj_pair)
  with index_walk_ok [OF assms(1-3) this] assms(3,4) show ?thesis
    by (auto simp: index_refresh_def stamp split: if_splits sum.splits)
qed

lemma index_refreshes_ok:
  assumes "index_chain sdk chain" "index_rpc chain getEvents getHealth"
  shows "index_ok sdk chain getHealth k s \<Longrightarrow> index_refreshes sdk getEvents getHealth freshForMs rs k s = (k', s') \<Longrightarrow> index_ok sdk chain getHealth k' s'"
proof (induction rs arbitrary: k s)
  case (Cons r rs)
  obtain force t t' where r: "r = (force, t, t')" by (metis surj_pair)
  obtain j u q where step: "index_refresh sdk getEvents getHealth freshForMs force t t' k s = (j, u, q)" by (metis surj_pair)
  show ?case using Cons.IH [OF index_refresh_ok [OF assms Cons.prems(1) step]] Cons.prems(2) r step by simp
qed simp

lemma position_history_facts:
  assumes "index_chain sdk chain" "index_rpc chain getEvents getHealth"
    and "index_refreshes sdk getEvents getHealth freshForMs rs 0 empty_index = (k, s)"
  shows "\<exists>l older. subseq older (kept_from l chain) \<and> (\<forall>t. records_of s t = wanted_list sdk t (older @ covered l s chain))"
    and "pi_cursor s = Some c \<Longrightarrow> \<exists>l older. subseq older (kept_from l chain) \<and> (\<exists>k. getHealth k = Inr l)
      \<and> (\<forall>t. records_of s t = wanted_list sdk t (older @ seen l c chain))"
    and "distinct (map event_key (records_of s t))"
proof -
  have "index_ok sdk chain getHealth 0 empty_index"
    unfolding index_ok_def
    by (intro exI [of _ "0 :: nat"] exI [of _ "[]"]) (simp add: empty_index_def records_of_def covered_def List.map_filter_simps)
  from index_refreshes_ok [OF assms(1,2) this assms(3)] have ok: "index_ok sdk chain getHealth k s" .
  then show "\<exists>l older. subseq older (kept_from l chain) \<and> (\<forall>t. records_of s t = wanted_list sdk t (older @ covered l s chain))"
    unfolding index_ok_def by blast
  show "\<exists>l older. subseq older (kept_from l chain) \<and> (\<exists>k. getHealth k = Inr l) \<and> (\<forall>t. records_of s t = wanted_list sdk t (older @ seen l c chain))"
    if "pi_cursor s = Some c"
    using ok that unfolding index_ok_def covered_def by (auto 0 4)
  from ok obtain l older where l: "subseq older (kept_from l chain)" "records_of s t = wanted_list sdk t (older @ covered l s chain)"
    unfolding index_ok_def by blast
  have "subseq (older @ covered l s chain) (older @ seen l (case pi_cursor s of Some c \<Rightarrow> c | None \<Rightarrow> []) chain)"
    by (auto simp: covered_def split: option.split)
  then have "subseq (older @ covered l s chain) chain" using subseq_older_seen [OF assms(1) l(1)] by (rule subseq_order.order_trans)
  then show "distinct (map event_key (records_of s t))"
    unfolding l(2) using subseq_distinct [OF subseq_map [OF subseq_map_filter] index_chainD(3) [OF assms(1)]] by blast
qed


text \<open>Two walks in a row; in this instance XDR values are what they decode to.\<close>

definition px_sdk :: "native sdk" where
  "px_sdk = \<lparr>scValToNative = (\<lambda>v. v), toXDR = (\<lambda>_. []), fromXDR = (\<lambda>_. None)\<rparr>"

definition px_event :: "string \<Rightarrow> string \<Rightarrow> native index_event" where
  "px_event i kind = \<lparr>ix_id = i, ix_topic = [NStr kind, NBytes (replicate 32 7)], ix_value = Some (NMap [(''usdc_amount'', NBig 5)]), ix_txHash = kind,
     ix_ledger = 1, ix_ledgerClosedAt = []\<rparr>"

definition px_chain :: "native index_event list" where
  "px_chain = [px_event ''0000000004294967296-0000000001'' ''deposit'', px_event ''0000000008589934592-0000000001'' ''borrow'']"

definition px_getEvents :: "nat \<Rightarrow> events_request \<Rightarrow> string + native index_page" where
  "px_getEvents k req =
     (if req = FromLedger 1 then Inr \<lparr>page_events = [px_chain ! 0], page_cursor = ''0000000004294967296-0000000001'', ip_latestLedger = 1\<rparr>
      else if req = FromCursor ''0000000004294967296-0000000001'' \<and> 2 < k
      then Inr \<lparr>page_events = [px_chain ! 1], page_cursor = ''0000000008589934592-0000000001'', ip_latestLedger = 2\<rparr>
      else Inl ''no such page'')"

definition px_run :: "nat \<times> position_index" where
  "px_run = index_refreshes px_sdk px_getEvents (\<lambda>_. Inr 1) 5 [(False, 0, 1), (False, 2, 3), (True, 4, 5), (False, 9, 9)] 0 empty_index"

lemma px_ids:
  "ledgerOfCursor ''0000000004294967296-0000000001'' = 1" "ledgerOfCursor ''0000000008589934592-0000000001'' = 2"
  "isValidCursor ''0000000004294967296-0000000001''" "isValidCursor ''0000000008589934592-0000000001''"
  by (simp_all add: ledgerOfCursor_def isValidCursor_def is_digit_def dec_val_def code_def)

lemma px_event_sel [simp]: "ix_id (px_event i k) = i" "ix_txHash (px_event i k) = k"
  by (simp_all add: px_event_def)

lemma px_decode:
  "decodePositionEvent px_sdk (px_event i k) = (if k \<in> set POSITION_EVENT_KINDS
     then Some \<lparr>dp_kind = k, dp_txid = hex_of_bytes (replicate 32 7), dp_account = None, dp_amount = Some (int_str 5)\<rparr> else None)"
  by (simp add: decodePositionEvent_def px_sdk_def px_event_def)

lemma px_wanted:
  "wanted_list px_sdk t px_chain = [] \<or> map event_key (wanted_list px_sdk t px_chain) = [(''deposit'', ''deposit''), (''borrow'', ''borrow'')]"
  by (simp add: px_chain_def wanted_def px_decode record_of_def List.map_filter_simps event_key_def POSITION_EVENT_KINDS_def)

lemma px_index_chain: "index_chain px_sdk px_chain"
proof -
  have "distinct (map event_key (wanted_list px_sdk t px_chain))" for t using px_wanted [of t] by auto
  then show ?thesis unfolding index_chain_def by (simp add: px_chain_def px_ids less_char_code code_def)
qed

lemma px_rpc: "index_rpc px_chain px_getEvents (\<lambda>_. Inr 1)"
  by (auto simp: index_rpc_def px_getEvents_def px_chain_def px_ids serves_def page.defs less_char_code code_def split: if_splits)

lemma px_step:
  assumes "index_refresh px_sdk px_getEvents (\<lambda>_. Inr 1) 5 f t t' k s = (k', s', r)"
  shows "index_refreshes px_sdk px_getEvents (\<lambda>_. Inr 1) 5 ((f, t, t') # rs) k s = index_refreshes px_sdk px_getEvents (\<lambda>_. Inr 1) 5 rs k' s'"
  using assms by simp

lemma px_run_cursor: "pi_cursor (snd px_run) = Some ''0000000008589934592-0000000001''"
proof -
  obtain n where pages: "MAX_PAGES_PER_REFRESH = Suc n" by (simp add: MAX_PAGES_PER_REFRESH_def numeral_eq_Suc)
  have kept: "pi_refreshedAt (index_event sdk e s) = pi_refreshedAt s" for sdk :: "native sdk" and e s
    by (simp add: index_event_def Let_def split: option.split)
  note run = index_refresh_def pages px_getEvents_def px_ids given_def the_string_def PAGE_LIMIT_def kept
  define s1 where "s1 = index_event px_sdk (px_chain ! 0) empty_index\<lparr>pi_cursor := Some ''0000000004294967296-0000000001'', pi_refreshedAt := Some 1\<rparr>"
  define s2 where "s2 = index_event px_sdk (px_chain ! 1) s1\<lparr>pi_cursor := Some ''0000000008589934592-0000000001'', pi_refreshedAt := Some 9\<rparr>"
  have "index_refresh px_sdk px_getEvents (\<lambda>_. Inr 1) 5 False 0 1 0 empty_index = (2, s1, Inr ())"
    by (simp add: run s1_def empty_index_def)
  moreover have "index_refresh px_sdk px_getEvents (\<lambda>_. Inr 1) 5 False 2 3 2 s1 = (2, s1, Inr ())"
    by (simp add: run s1_def)
  moreover have "index_refresh px_sdk px_getEvents (\<lambda>_. Inr 1) 5 True 4 5 2 s1 = (4, s1, Inl ''no such page'')"
    by (simp add: run s1_def)
  moreover have "index_refresh px_sdk px_getEvents (\<lambda>_. Inr 1) 5 False 9 9 4 s1 = (5, s2, Inr ())"
    by (simp add: run s1_def s2_def)
  ultimately have "px_run = (5, s2)" unfolding px_run_def by (simp add: px_step)
  then have "pi_cursor (snd px_run) = pi_cursor (snd (5 :: nat, s2))" by (rule arg_cong)
  also have "\<dots> = Some ''0000000008589934592-0000000001''" by (simp add: s2_def)
  finally show ?thesis .
qed


end
