(* ===== verification/DepositSubmission.thy ===== *)
theory DepositSubmission
  imports PositionIndex
begin

text \<open>
  \<^verbatim>\<open>relayer/src/lend/deposit-submission.ts\<close>, \<^verbatim>\<open>writz-lend-errors.ts\<close> and the storage reads of \<^verbatim>\<open>deposit-reads.ts\<close>: what the
  relayer believes of a Stellar transaction a caller names, and what it reads of the contract's storage. The datatypes
  below hold the parts of the SDK's XDR values the code looks at; SHA-256 is a parameter.
\<close>

section \<open>The transaction\<close>

datatype sc_val = ScvBytes buffer | ScvOther

record contract_call =
  cc_contract :: string  \<comment> \<open>the address, as \<^verbatim>\<open>Address.toString\<close> prints it\<close>
  cc_function :: string
  cc_args :: "sc_val list"

datatype host_operation = InvokeContract contract_call | OtherHostFunction | OtherOperation

datatype tx_envelope = EnvelopeTx "host_operation list" | EnvelopeFeeBump "host_operation list" | EnvelopeV0

fun operations :: "tx_envelope \<Rightarrow> host_operation list" where
  "operations (EnvelopeTx ops) = ops"
| "operations (EnvelopeFeeBump ops) = ops"
| "operations EnvelopeV0 = []"

definition RAW_TX_ARG :: nat where "RAW_TX_ARG = 4"

definition sha256d :: "(buffer \<Rightarrow> buffer) \<Rightarrow> buffer \<Rightarrow> buffer" where
  "sha256d sha b = sha (sha b)"

fun deposit_txid_of :: "(buffer \<Rightarrow> buffer) \<Rightarrow> string \<Rightarrow> host_operation list \<Rightarrow> string option" where
  "deposit_txid_of sha contractId [] = None"
| "deposit_txid_of sha contractId (op # ops) =
     (case op of
        InvokeContract call \<Rightarrow>
          if cc_contract call \<noteq> contractId then deposit_txid_of sha contractId ops
          else if cc_function call \<noteq> ''deposit'' then deposit_txid_of sha contractId ops
          else (case at_opt (cc_args call) RAW_TX_ARG of
             Some (ScvBytes b) \<Rightarrow> Some (hex_of_bytes (sha256d sha b))
           | _ \<Rightarrow> deposit_txid_of sha contractId ops)
      | _ \<Rightarrow> deposit_txid_of sha contractId ops)"

definition depositTxidOfEnvelope :: "(buffer \<Rightarrow> buffer) \<Rightarrow> tx_envelope \<Rightarrow> string \<Rightarrow> string option" where
  "depositTxidOfEnvelope sha envelope contractId = deposit_txid_of sha contractId (operations envelope)"

section \<open>Why it failed\<close>

definition WRITZ_LEND_ERRORS :: "(nat \<times> string) list" where
  "WRITZ_LEND_ERRORS =
     [(1, ''AlreadyInitialized''),
      (2, ''NotInitialized''),
      (3, ''Unauthorized''),
      (4, ''SpvVerificationFailed''),
      (5, ''OutputNotFound''),
      (6, ''DepositTooSmall''),
      (7, ''PositionAlreadyExists''),
      (8, ''PositionNotFound''),
      (9, ''PositionNotActive''),
      (10, ''ExceedsCollateralRatio''),
      (11, ''InsufficientLiquidity''),
      (12, ''RepayExceedsDebt''),
      (13, ''InsufficientSupply''),
      (14, ''PositionHealthy''),
      (15, ''Overflow''),
      (16, ''InvalidScriptPubKey''),
      (17, ''Paused''),
      (18, ''OraclePriceUnavailable''),
      (19, ''OraclePriceStale''),
      (20, ''InvalidUserPubkey''),
      (21, ''ScriptPubKeyMismatch''),
      (22, ''InvalidTimelock''),
      (23, ''InvalidProtocolPubkey''),
      (24, ''ExposureCapExceeded''),
      (25, ''InvalidKeyProof''),
      (26, ''ZeroShareAmount''),
      (27, ''InvalidDepositParams''),
      (28, ''InvalidEntryTtl''),
      (29, ''UserKeyIsProtocolKey''),
      (30, ''TimelockTooSoon''),
      (31, ''StaleBitcoinTip''),
      (32, ''LiquidationWindowClosed''),
      (33, ''InvalidTimelockParams'')]"

datatype sc_error = SceContract nat | SceHost string string  \<comment> \<open>the XDR names of type and code\<close>

record diagnostic =
  dg_emitter :: "string option"
  dg_topics :: "sc_error option list"  \<comment> \<open>\<^const>\<open>None\<close> for a topic that is no error\<close>

datatype op_tr = InvokeHostFunctionResult string | OtherTr string
datatype op_result = OpInner op_tr | OpOther string

record inner_result =
  ir_code :: string
  ir_results :: "op_result list"

text \<open>The result of a fee bump, whose own code is \<^verbatim>\<open>txFeeBumpInnerFailed\<close> or \<^verbatim>\<open>txFeeBumpInnerSuccess\<close>, or any other.\<close>

datatype tx_result = FeeBumpInner inner_result | Direct inner_result

fun resultCode :: "tx_result \<Rightarrow> string" where
  "resultCode result =
     (let inner = (case result of FeeBumpInner r \<Rightarrow> r | Direct r \<Rightarrow> r) in
      if ir_code inner \<noteq> ''txFailed'' then ir_code inner
      else (case ir_results inner of
          [] \<Rightarrow> ir_code inner
        | OpOther name # _ \<Rightarrow> name
        | OpInner (InvokeHostFunctionResult name) # _ \<Rightarrow> name
        | OpInner (OtherTr name) # _ \<Rightarrow> name))"

definition hostName :: "string \<Rightarrow> string \<Rightarrow> string" where
  "hostName name pre = (if startsWith pre name then drop (length pre) name else name)"

record failure =
  fl_reason :: string
  fl_errorCode :: "nat option"

text \<open>The errors in the order they are met, each with whether \<^verbatim>\<open>writz-lend\<close> emitted it.\<close>

definition diagnostic_errors :: "string \<Rightarrow> diagnostic list \<Rightarrow> (bool \<times> sc_error) list" where
  "diagnostic_errors contractId ds = concat (map (\<lambda>d. map (Pair (dg_emitter d = Some contractId)) (List.map_filter id (dg_topics d))) ds)"

fun failure_scan :: "failure option \<Rightarrow> string option \<Rightarrow> tx_result \<Rightarrow> (bool \<times> sc_error) list \<Rightarrow> failure" where
  "failure_scan anyContract anyHost result [] =
     (case anyContract of Some f \<Rightarrow> f
      | None \<Rightarrow> \<lparr>fl_reason = (case anyHost of Some h \<Rightarrow> h | None \<Rightarrow> resultCode result), fl_errorCode = None\<rparr>)"
| "failure_scan anyContract anyHost result ((fromLend, SceContract n) # es) =
     (let named = map_of WRITZ_LEND_ERRORS n;
          plain_name = \<lparr>fl_reason = ''Error(Contract, #'' @ dec_str n @ '')'', fl_errorCode = Some n\<rparr> in
      if fromLend \<and> named \<noteq> None then \<lparr>fl_reason = (case named of Some name \<Rightarrow> name | None \<Rightarrow> []), fl_errorCode = Some n\<rparr>
      else failure_scan (case anyContract of None \<Rightarrow> Some plain_name | f \<Rightarrow> f) anyHost result es)"
| "failure_scan anyContract anyHost result ((fromLend, SceHost type n) # es) =
     failure_scan anyContract
       (case anyHost of None \<Rightarrow> Some (''Error('' @ hostName type ''sce'' @ '', '' @ hostName n ''scec'' @ '')'') | h \<Rightarrow> h) result es"

definition failureReason :: "tx_result \<Rightarrow> diagnostic list \<Rightarrow> string \<Rightarrow> failure" where
  "failureReason result diagnosticEvents contractId = failure_scan None None result (diagnostic_errors contractId diagnosticEvents)"

section \<open>The check\<close>

text \<open>\<^verbatim>\<open>Date.toISOString\<close> of a whole number of seconds, without the fraction: the proleptic Gregorian date of the years 0 to 9999.\<close>

definition iso_date :: "int \<Rightarrow> int \<times> int \<times> int" where
  "iso_date days =
     (let z = days + 719468; era = z div 146097; doe = z mod 146097;
          yoe = (doe - doe div 1460 + doe div 36524 - doe div 146096) div 365;
          doy = doe - (365 * yoe + yoe div 4 - yoe div 100); mp = (5 * doy + 2) div 153;
          m = (if mp < 10 then mp + 3 else mp - 9)
      in (yoe + era * 400 + (if m \<le> 2 then 1 else 0), m, doy - (153 * mp + 2) div 5 + 1))"

definition isoSeconds :: "int \<Rightarrow> string" where
  "isoSeconds s =
     (let two = (\<lambda>n. padStart 2 CHR ''0'' (dec_str (nat n))); secs = s mod 86400 in
      case iso_date (s div 86400) of (y, m, d) \<Rightarrow>
        padStart 4 CHR ''0'' (dec_str (nat y)) @ ''-'' @ two m @ ''-'' @ two d @ ''T''
        @ two (secs div 3600) @ '':'' @ two (secs div 60 mod 60) @ '':'' @ two (secs mod 60) @ ''Z'')"

lemma iso_example: "isoSeconds 1792844812 = ''2026-10-24T12:26:52Z''" "isoSeconds 0 = ''1970-01-01T00:00:00Z''" "isoSeconds 951782400 = ''2000-02-29T00:00:00Z''"
  by code_simp+

record found_tx =
  ft_success :: bool
  ft_ledger :: nat
  ft_createdAt :: int
  ft_envelope :: tx_envelope
  ft_result :: tx_result
  ft_diagnostics :: "diagnostic list option"

datatype tx_lookup = LookupNotFound | Found found_tx | UnknownStatus string

datatype submission_check =
    CheckNotFound
  | CheckMismatch
  | CheckSuccess nat string
  | CheckFailed nat string failure

datatype submission_error = RpcError string | UnknownTxStatus string

definition checkDepositSubmission ::
    "(buffer \<Rightarrow> buffer) \<Rightarrow> (string \<Rightarrow> string + tx_lookup) \<Rightarrow> string \<Rightarrow> string \<Rightarrow> string \<Rightarrow> submission_error + submission_check" where
  "checkDepositSubmission sha getTransaction contractId txidInternal hash =
     (case getTransaction hash of
        Inl e \<Rightarrow> Inl (RpcError e)
      | Inr LookupNotFound \<Rightarrow> Inr CheckNotFound
      | Inr (UnknownStatus st) \<Rightarrow> Inl (UnknownTxStatus st)
      | Inr (Found found) \<Rightarrow>
          if depositTxidOfEnvelope sha (ft_envelope found) contractId \<noteq> Some (toLowerCase txidInternal) then Inr CheckMismatch
          else let closedAt = isoSeconds (ft_createdAt found) in
            if ft_success found then Inr (CheckSuccess (ft_ledger found) closedAt)
            else Inr (CheckFailed (ft_ledger found) closedAt
              (failureReason (ft_result found) (case ft_diagnostics found of Some ds \<Rightarrow> ds | None \<Rightarrow> []) contractId)))"

section \<open>Storage reads\<close>

text \<open>A property of what a storage entry decodes to; \<^const>\<open>None\<close> where there is no entry or no such property.\<close>

fun native_field :: "string \<Rightarrow> native \<Rightarrow> native option" where
  "native_field k (NMap kvs) = map_of kvs k"
| "native_field k _ = None"

definition readMinConfirmations :: "native option \<Rightarrow> int option" where
  "readMinConfirmations config =
     (case Option.bind config (native_field ''min_confirmations'') of
        Some (NNum v) \<Rightarrow> if v < 1 then None else Some v
      | _ \<Rightarrow> None)"

definition positionExists :: "native option \<Rightarrow> bool" where
  "positionExists position = (position \<noteq> None)"

record position_summary =
  ps_depositor :: string
  ps_status :: string
  ps_p2wshScriptPubkey :: string

fun falsy :: "native \<Rightarrow> bool" where
  "falsy NNull = True"
| "falsy (NStr s) = (s = [])"
| "falsy (NNum i) = (i = 0)"
| "falsy (NBig i) = (i = 0)"
| "falsy (NBool b) = (\<not> b)"
| "falsy _ = False"

datatype position_read = NoPosition | UnexpectedShape | Summary position_summary

definition readPosition :: "native option \<Rightarrow> position_read" where
  "readPosition position =
     (case position of
        None \<Rightarrow> NoPosition
      | Some p \<Rightarrow>
          if falsy p then NoPosition
          else let status = (case native_field ''status'' p of Some (NList xs) \<Rightarrow> at_opt xs 0 | st \<Rightarrow> st) in
            (case (native_field ''depositor'' p, native_field ''p2wsh_script_pubkey'' p) of
               (Some (NStr d), Some (NBytes b)) \<Rightarrow>
                 Summary \<lparr>ps_depositor = d, ps_status = (case status of Some (NStr s) \<Rightarrow> s | _ \<Rightarrow> ''unknown''),
                   ps_p2wshScriptPubkey = hex_of_bytes b\<rparr>
             | _ \<Rightarrow> UnexpectedShape))"

definition readUsdcToken :: "native option \<Rightarrow> string option" where
  "readUsdcToken config = (case Option.bind config (native_field ''usdc_token'') of Some (NStr t) \<Rightarrow> Some t | _ \<Rightarrow> None)"

section \<open>What the check promises\<close>

text \<open>The envelope has a call of this contract's \<^verbatim>\<open>deposit\<close> whose raw transaction has this txid.\<close>

definition deposits :: "(buffer \<Rightarrow> buffer) \<Rightarrow> string \<Rightarrow> tx_envelope \<Rightarrow> buffer \<Rightarrow> bool" where
  "deposits sha contractId envelope raw_txid \<longleftrightarrow> (\<exists>call raw. InvokeContract call \<in> set (operations envelope) \<and> cc_contract call = contractId
     \<and> cc_function call = ''deposit'' \<and> at_opt (cc_args call) RAW_TX_ARG = Some (ScvBytes raw) \<and> sha256d sha raw = raw_txid)"

lemma deposit_txid_of_call:
  "deposit_txid_of sha contractId ops = Some h \<Longrightarrow> \<exists>call raw. InvokeContract call \<in> set ops \<and> cc_contract call = contractId
     \<and> cc_function call = ''deposit'' \<and> at_opt (cc_args call) RAW_TX_ARG = Some (ScvBytes raw) \<and> h = hex_of_bytes (sha256d sha raw)"
  by (induction ops) (auto split: host_operation.splits if_splits option.splits sc_val.splits)

lemma envelope_deposits: "depositTxidOfEnvelope sha envelope contractId = Some (hex_of_bytes b) \<Longrightarrow> deposits sha contractId envelope b"
  using deposit_txid_of_call [of sha contractId "operations envelope"] by (fastforce simp: depositTxidOfEnvelope_def deposits_def)

lemma check_trusts_deposits:
  assumes "checkDepositSubmission sha getTransaction contractId (hex_of_bytes b) hash = Inr check"
  shows "check = CheckSuccess l c \<Longrightarrow> \<exists>tx. getTransaction hash = Inr (Found tx) \<and> ft_success tx \<and> deposits sha contractId (ft_envelope tx) b"
    and "check = CheckFailed l c f \<Longrightarrow> \<exists>tx. getTransaction hash = Inr (Found tx) \<and> \<not> ft_success tx \<and> deposits sha contractId (ft_envelope tx) b"
  using assms envelope_deposits [of sha _ contractId b]
  by (auto simp: checkDepositSubmission_def Let_def split: sum.splits tx_lookup.splits if_splits)

text \<open>The reason names the first error of \<^verbatim>\<open>writz-lend\<close> itself the table has, whatever other errors came before it.\<close>

lemma failure_named:
  "failure_scan a h result es = (case find (\<lambda>(lend, e). lend \<and> (\<exists>n. e = SceContract n \<and> map_of WRITZ_LEND_ERRORS n \<noteq> None)) es of
     Some (_, SceContract n) \<Rightarrow> \<lparr>fl_reason = the (map_of WRITZ_LEND_ERRORS n), fl_errorCode = Some n\<rparr>
   | _ \<Rightarrow> failure_scan a h result (filter (\<lambda>(lend, e). \<not> (lend \<and> (\<exists>n. e = SceContract n \<and> map_of WRITZ_LEND_ERRORS n \<noteq> None))) es))"
proof (induction es arbitrary: a h)
  case (Cons x es)
  obtain lend e where x: "x = (lend, e)" by (cases x)
  show ?case by (cases e) (auto simp: x Cons.IH Let_def split: option.splits)
qed simp

end
