(* ===== verification/ReceiveLegs.thy ===== *)
theory ReceiveLegs
  imports DepositSubmission
begin

text \<open>
  \<^verbatim>\<open>relayer/src/lend/receive-legs.ts\<close>: which swaps and burns of a borrower belong to which loan. Horizon and the SDK's XDR
  decoder are parameters; the \<open>k\<close>-th page is asked for with the cursor it is given.
\<close>

section \<open>Operations\<close>

datatype operation_kind = BorrowCall | RepayCall | SwapLeg | BurnLeg

record owner_operation =
  oo_kind :: operation_kind
  oo_txHash :: string
  oo_at :: int
  oo_asset :: "string option"

record receive_context =
  rc_owner :: string
  rc_writzLend :: string
  rc_soroswapRouter :: string
  rc_tokenMessengerMinter :: string
  rc_usdcToken :: string
  rc_swapTokens :: "(string \<times> string) list"
  rc_baseDomain :: int

record horizon_operation =
  hz_paging_token :: string
  hz_type :: string
  hz_source_account :: string
  hz_transaction_hash :: string
  hz_transaction_successful :: "bool option"
  hz_created_at :: string
  hz_function :: "string option"
  hz_parameters :: "string list option"  \<comment> \<open>base64 XDR values\<close>

record receive_lib =
  rl_native :: "string \<Rightarrow> native option"  \<comment> \<open>\<^const>\<open>None\<close> where decoding raises\<close>
  rl_date :: "string \<Rightarrow> int"  \<comment> \<open>\<^verbatim>\<open>Date.parse\<close>\<close>

text \<open>\<^verbatim>\<open>Number(v)\<close> of the values a \<^verbatim>\<open>u32\<close> argument decodes to; a call with another argument there cannot have succeeded.\<close>

fun domain_number :: "native \<Rightarrow> int option" where
  "domain_number (NNum n) = Some n"
| "domain_number (NBig n) = Some n"
| "domain_number _ = None"

text \<open>The ticker of a path that starts at the pool's USDC and ends at a known asset.\<close>

definition swap_asset :: "receive_context \<Rightarrow> native option \<Rightarrow> string option" where
  "swap_asset ctx path =
     (case path of
        Some (NList xs) \<Rightarrow>
          if 2 \<le> length xs \<and> xs ! 0 = NStr (rc_usdcToken ctx)
          then (case last xs of NStr end_token \<Rightarrow> map_of (rc_swapTokens ctx) end_token | _ \<Rightarrow> None)
          else None
      | _ \<Rightarrow> None)"

fun decode_params :: "receive_lib \<Rightarrow> string list \<Rightarrow> native list option" where
  "decode_params lib [] = Some []"
| "decode_params lib (p # ps) = (case rl_native lib p of None \<Rightarrow> None | Some v \<Rightarrow> map_option (Cons v) (decode_params lib ps))"

definition classifyOperation :: "receive_lib \<Rightarrow> receive_context \<Rightarrow> horizon_operation \<Rightarrow> owner_operation option" where
  "classifyOperation lib ctx op =
     (if hz_type op \<noteq> ''invoke_host_function'' \<or> hz_transaction_successful op = Some False then None
      else if hz_source_account op \<noteq> rc_owner ctx then None
      else if hz_function op \<noteq> Some ''HostFunctionTypeHostFunctionTypeInvokeContract'' then None
      else
        let params = (case hz_parameters op of Some ps \<Rightarrow> ps | None \<Rightarrow> []) in
        if length params < 2 then None
        else (case decode_params lib params of
          None \<Rightarrow> None
        | Some values \<Rightarrow>
            let contract = values ! 0; method = values ! 1; args = drop 2 values;
                leg = (\<lambda>kind asset. \<lparr>oo_kind = kind, oo_txHash = hz_transaction_hash op, oo_at = rl_date lib (hz_created_at op), oo_asset = asset\<rparr>)
            in
            if contract = NStr (rc_writzLend ctx)
            then (if method = NStr ''borrow'' then Some (leg BorrowCall None) else if method = NStr ''repay'' then Some (leg RepayCall None) else None)
            else if contract = NStr (rc_soroswapRouter ctx) \<and> method = NStr ''swap_exact_tokens_for_tokens''
            then (case swap_asset ctx (at_opt args 2) of Some a \<Rightarrow> if a = [] then None else Some (leg SwapLeg (Some a)) | None \<Rightarrow> None)
            else if contract = NStr (rc_tokenMessengerMinter ctx) \<and> method = NStr ''deposit_for_burn''
              \<and> at_opt args 0 = Some (NStr (rc_owner ctx)) \<and> Option.bind (at_opt args 2) domain_number = Some (rc_baseDomain ctx)
              \<and> at_opt args 4 = Some (NStr (rc_usdcToken ctx))
            then Some (leg BurnLeg None) else None))"

section \<open>Attribution\<close>

fun receive_legs :: "string set \<Rightarrow> bool \<Rightarrow> owner_operation list \<Rightarrow> owner_operation list" where
  "receive_legs borrowHashes opened [] = []"
| "receive_legs borrowHashes opened (op # ops) =
     (case oo_kind op of
        BorrowCall \<Rightarrow> receive_legs borrowHashes (oo_txHash op \<in> borrowHashes) ops
      | RepayCall \<Rightarrow> receive_legs borrowHashes False ops
      | _ \<Rightarrow> if opened then op # receive_legs borrowHashes opened ops else receive_legs borrowHashes opened ops)"

definition attributeReceiveLegs :: "owner_operation list \<Rightarrow> string set \<Rightarrow> owner_operation list" where
  "attributeReceiveLegs ops borrowHashes = receive_legs borrowHashes False ops"

section \<open>Reading the owner's operations\<close>

definition HORIZON_PAGE :: nat where "HORIZON_PAGE = 200"

datatype horizon_answer = AccountUnknown | HorizonError nat | HorizonThrows string | Records "horizon_operation list"

fun fetch_operations ::
    "(nat \<Rightarrow> string \<Rightarrow> horizon_answer) \<Rightarrow> nat \<Rightarrow> nat \<Rightarrow> string \<Rightarrow> horizon_operation list \<Rightarrow> string + horizon_operation list \<times> bool" where
  "fetch_operations horizon 0 k cursor acc = Inr (acc, True)"
| "fetch_operations horizon (Suc n) k cursor acc =
     (case horizon k cursor of
        AccountUnknown \<Rightarrow> Inr (acc, False)
      | HorizonError status \<Rightarrow> Inl (''Horizon '' @ dec_str status)
      | HorizonThrows e \<Rightarrow> Inl e
      | Records rs \<Rightarrow>
          if length rs < HORIZON_PAGE then Inr (acc @ rs, False)
          else fetch_operations horizon n (Suc k) (hz_paging_token (last rs)) (acc @ rs))"

definition fetchOwnerOperations :: "(nat \<Rightarrow> string \<Rightarrow> horizon_answer) \<Rightarrow> nat \<Rightarrow> nat \<Rightarrow> string + horizon_operation list \<times> bool" where
  "fetchOwnerOperations horizon fromLedger maxPages = fetch_operations horizon maxPages 0 (dec_str (fromLedger * 2 ^ 32)) []"

definition OWNER_OPERATION_PAGES :: nat where "OWNER_OPERATION_PAGES = 5"

definition ownerOperations ::
    "receive_lib \<Rightarrow> receive_context \<Rightarrow> (nat \<Rightarrow> string \<Rightarrow> horizon_answer) \<Rightarrow> nat \<Rightarrow> string + owner_operation list \<times> bool" where
  "ownerOperations lib ctx horizon fromLedger =
     res_bind (fetchOwnerOperations horizon fromLedger OWNER_OPERATION_PAGES) (\<lambda>(ops, truncated).
     Inr (List.map_filter (classifyOperation lib ctx) ops, truncated))"

section \<open>The rule\<close>

text \<open>A position's legs by the rule the module states: the last borrow or repay call before the leg is a borrow on it.\<close>

definition is_leg :: "owner_operation \<Rightarrow> bool" where
  "is_leg op \<longleftrightarrow> oo_kind op \<in> {SwapLeg, BurnLeg}"

definition belongs :: "string set \<Rightarrow> owner_operation list \<Rightarrow> nat \<Rightarrow> bool" where
  "belongs borrowHashes ops j \<longleftrightarrow> is_leg (ops ! j) \<and> (\<exists>i<j. oo_kind (ops ! i) = BorrowCall \<and> oo_txHash (ops ! i) \<in> borrowHashes
     \<and> (\<forall>m. i < m \<and> m < j \<longrightarrow> is_leg (ops ! m)))"

definition belongs_after :: "bool \<Rightarrow> string set \<Rightarrow> owner_operation list \<Rightarrow> nat \<Rightarrow> bool" where
  "belongs_after opened borrowHashes ops j \<longleftrightarrow> is_leg (ops ! j) \<and> (opened \<and> (\<forall>m<j. is_leg (ops ! m)) \<or> belongs borrowHashes ops j)"

lemma belongs_Cons:
  "belongs_after opened hs (op # ops) 0 \<longleftrightarrow> is_leg op \<and> opened"
  "belongs_after opened hs (op # ops) (Suc j) \<longleftrightarrow>
     belongs_after (case oo_kind op of BorrowCall \<Rightarrow> oo_txHash op \<in> hs | RepayCall \<Rightarrow> False | _ \<Rightarrow> opened) hs ops j"
proof -
  show "belongs_after opened hs (op # ops) 0 \<longleftrightarrow> is_leg op \<and> opened" by (auto simp: belongs_after_def belongs_def)
  have all: "(\<forall>m<Suc j. P ((op # ops) ! m)) \<longleftrightarrow> P op \<and> (\<forall>m<j. P (ops ! m))" for P by (auto simp: less_Suc_eq_0_disj)
  have ex: "(\<exists>i<Suc j. Q i) \<longleftrightarrow> Q 0 \<or> (\<exists>i<j. Q (Suc i))" for Q :: "nat \<Rightarrow> bool" by (auto simp: less_Suc_eq_0_disj)
  have between: "(\<forall>m. 0 < m \<and> m < Suc j \<longrightarrow> is_leg ((op # ops) ! m)) \<longleftrightarrow> (\<forall>m<j. is_leg (ops ! m))"
    "(\<forall>m. Suc i < m \<and> m < Suc j \<longrightarrow> is_leg ((op # ops) ! m)) \<longleftrightarrow> (\<forall>m. i < m \<and> m < j \<longrightarrow> is_leg (ops ! m))" for i
    by (auto simp: gr0_conv_Suc Suc_less_eq2)
  show "belongs_after opened hs (op # ops) (Suc j) \<longleftrightarrow>
     belongs_after (case oo_kind op of BorrowCall \<Rightarrow> oo_txHash op \<in> hs | RepayCall \<Rightarrow> False | _ \<Rightarrow> opened) hs ops j"
    unfolding belongs_after_def belongs_def all ex between by (cases "oo_kind op") (auto simp: is_leg_def between)
qed

lemma receive_legs_nths: "receive_legs hs opened ops = nths ops {j. belongs_after opened hs ops j}"
proof (induction ops arbitrary: opened)
  case (Cons op ops)
  show ?case
    unfolding nths_Cons mem_Collect_eq belongs_Cons by (cases "oo_kind op") (simp_all add: is_leg_def Cons.IH)
qed simp

lemma attribute_rule: "attributeReceiveLegs ops hs = nths ops {j. belongs hs ops j}"
  by (simp add: attributeReceiveLegs_def receive_legs_nths belongs_after_def belongs_def)

section \<open>From the owner's whole history\<close>

definition token :: "horizon_operation \<Rightarrow> nat" where
  "token op = dec_val (hz_paging_token op)"

text \<open>Horizon's documented paging: the account's operations after the cursor, in ascending order, at most a page of them.\<close>

definition horizon_pages :: "horizon_operation list \<Rightarrow> (nat \<Rightarrow> string \<Rightarrow> horizon_answer) \<Rightarrow> bool" where
  "horizon_pages account horizon \<longleftrightarrow> sorted_wrt (<) (map token account)
   \<and> (\<forall>k c rs. horizon k c = Records rs \<longrightarrow> rs = take HORIZON_PAGE (filter (\<lambda>op. dec_val c < token op) account))
   \<and> (\<forall>k c. horizon k c = AccountUnknown \<longrightarrow> account = [])"

lemma sorted_le_last: "sorted ys \<Longrightarrow> y \<in> set ys \<Longrightarrow> y \<le> last ys"
  by (induction ys) auto

lemma filter_after_last:
  assumes "sorted_wrt (<) (map f xs)" "0 < n" "n \<le> length xs"
  shows "filter (\<lambda>x. f (last (take n xs)) < (f x :: nat)) xs = drop n xs"
proof -
  have split: "sorted_wrt (<) (map f (take n xs @ drop n xs))" using assms(1) by simp
  have cross: "f x < f y" if "x \<in> set (take n xs)" "y \<in> set (drop n xs)" for x y
    using split that by (auto simp: sorted_wrt_append simp del: append_take_drop_id)
  have ne: "take n xs \<noteq> []" using assms(2,3) by auto
  have "f x \<le> f (last (take n xs))" if "x \<in> set (take n xs)" for x
  proof -
    have "sorted (map f (take n xs))" using assms(1) by (metis strict_sorted_imp_sorted sorted_wrt_take take_map)
    then have "f x \<le> last (map f (take n xs))" using that by (intro sorted_le_last) auto
    then show ?thesis using ne by (simp add: last_map)
  qed
  then have "filter (\<lambda>x. f (last (take n xs)) < f x) (take n xs) = []" by (auto simp: filter_empty_conv not_less)
  moreover have "filter (\<lambda>x. f (last (take n xs)) < f x) (drop n xs) = drop n xs"
    using cross [OF last_in_set [OF ne]] by (auto intro!: filter_True)
  ultimately show ?thesis by (metis append_Nil append_take_drop_id filter_append)
qed

lemma fetch_rest:
  assumes "horizon_pages account horizon" "fetch_operations horizon n k cursor acc = Inr (ops, truncated)"
  shows "\<exists>rest. ops = acc @ rest \<and> prefix rest (filter (\<lambda>op. dec_val cursor < token op) account)
    \<and> (\<not> truncated \<longrightarrow> rest = filter (\<lambda>op. dec_val cursor < token op) account)"
  using assms(2)
proof (induction n arbitrary: k cursor acc)
  case (Suc n)
  let ?all = "filter (\<lambda>op. dec_val cursor < token op) account"
  show ?case
  proof (cases "horizon k cursor")
    case AccountUnknown
    with assms(1) have "account = []" unfolding horizon_pages_def by blast
    with Suc.prems AccountUnknown show ?thesis by simp
  next
    case (Records rs)
    with assms(1) have rs: "rs = take HORIZON_PAGE ?all" unfolding horizon_pages_def by blast
    show ?thesis
    proof (cases "length rs < HORIZON_PAGE")
      case True
      with rs have "rs = ?all" by simp
      with True Records Suc.prems show ?thesis by simp
    next
      case False
      with rs have full: "0 < HORIZON_PAGE" "HORIZON_PAGE \<le> length ?all" by (simp_all add: HORIZON_PAGE_def)
      have sorted: "sorted_wrt (<) (map token ?all)" using assms(1) by (simp add: horizon_pages_def sorted_wrt_map sorted_wrt_filter)
      let ?c = "hz_paging_token (last rs)"
      have "rs \<noteq> []" using False full(1) by auto
      then have "last rs \<in> set ?all" unfolding rs by (rule in_set_takeD [OF last_in_set])
      then have "filter (\<lambda>op. dec_val ?c < token op) account = filter (\<lambda>op. token (last rs) < token op) ?all"
        by (auto simp: token_def intro!: filter_cong)
      also have "\<dots> = drop HORIZON_PAGE ?all" unfolding rs by (rule filter_after_last [OF sorted full])
      finally have next_page: "filter (\<lambda>op. dec_val ?c < token op) account = drop HORIZON_PAGE ?all" .
      from False Records Suc.prems have "fetch_operations horizon n (Suc k) ?c (acc @ rs) = Inr (ops, truncated)" by simp
      from Suc.IH [OF this] obtain rest where rest: "ops = acc @ rs @ rest" "prefix rest (drop HORIZON_PAGE ?all)" "\<not> truncated \<longrightarrow> rest = drop HORIZON_PAGE ?all"
        unfolding next_page by auto
      have "prefix (rs @ rest) (rs @ drop HORIZON_PAGE ?all)" using rest(2) by simp
      with rest rs show ?thesis by (intro exI [of _ "rs @ rest"]) simp
    qed
  qed (use Suc.prems in simp_all)
qed simp

lemma receive_legs_append_closed:
  assumes "\<And>op. op \<in> set pre \<Longrightarrow> oo_kind op = BorrowCall \<Longrightarrow> oo_txHash op \<notin> hs"
  shows "receive_legs hs False (pre @ ops) = receive_legs hs False ops"
  using assms by (induction pre) (auto split: operation_kind.split)

lemma filter_split_sorted:
  "sorted_wrt (<) (map f xs) \<Longrightarrow> xs = filter (\<lambda>x. f x \<le> (c :: nat)) xs @ filter (\<lambda>x. c < f x) xs"
proof (induction xs)
  case (Cons a xs)
  show ?case
  proof (cases "f a \<le> c")
    case False
    then have "\<not> f x \<le> c" if "x \<in> set xs" for x using Cons.prems that by fastforce
    then have "filter (\<lambda>x. f x \<le> c) xs = []" "filter (\<lambda>x. c < f x) xs = xs" by (auto simp: filter_empty_conv not_le intro!: filter_True)
    with False show ?thesis by simp
  qed (use Cons in simp)
qed simp


text \<open>A swap after this position's borrow, then a repay, then a swap that belongs to none.\<close>

definition lx_lib :: receive_lib where
  "lx_lib = \<lparr>rl_native = (\<lambda>s. Some (if s = ''path'' then NList [NStr ''USDC'', NStr ''EURC''] else NStr s)), rl_date = (\<lambda>_. 0)\<rparr>"

definition lx_ctx :: receive_context where
  "lx_ctx = \<lparr>rc_owner = ''G'', rc_writzLend = ''L'', rc_soroswapRouter = ''R'', rc_tokenMessengerMinter = ''T'', rc_usdcToken = ''USDC'',
     rc_swapTokens = [(''EURC'', ''EURC'')], rc_baseDomain = 6\<rparr>"

definition lx_op :: "nat \<Rightarrow> string \<Rightarrow> string list \<Rightarrow> horizon_operation" where
  "lx_op n h ps = \<lparr>hz_paging_token = dec_str n, hz_type = ''invoke_host_function'', hz_source_account = ''G'', hz_transaction_hash = h,
     hz_transaction_successful = Some True, hz_created_at = [], hz_function = Some ''HostFunctionTypeHostFunctionTypeInvokeContract'', hz_parameters = Some ps\<rparr>"

definition lx_account :: "horizon_operation list" where
  "lx_account = [lx_op 1 ''old'' [''L'', ''borrow''], lx_op 5000000000 ''b'' [''L'', ''borrow''],
     lx_op 5000000001 ''s1'' [''R'', ''swap_exact_tokens_for_tokens'', ''1'', ''1'', ''path''], lx_op 5000000002 ''r'' [''L'', ''repay''],
     lx_op 5000000003 ''s2'' [''R'', ''swap_exact_tokens_for_tokens'', ''1'', ''1'', ''path'']]"

definition lx_horizon :: "nat \<Rightarrow> string \<Rightarrow> horizon_answer" where
  "lx_horizon k c = Records (take HORIZON_PAGE (filter (\<lambda>op. dec_val c < token op) lx_account))"

lemma lx_class:
  "classifyOperation lx_lib lx_ctx (lx_op n h [''L'', ''borrow'']) = Some \<lparr>oo_kind = BorrowCall, oo_txHash = h, oo_at = 0, oo_asset = None\<rparr>"
  "classifyOperation lx_lib lx_ctx (lx_op n h [''L'', ''repay'']) = Some \<lparr>oo_kind = RepayCall, oo_txHash = h, oo_at = 0, oo_asset = None\<rparr>"
  "classifyOperation lx_lib lx_ctx (lx_op n h [''R'', ''swap_exact_tokens_for_tokens'', ''1'', ''1'', ''path''])
     = Some \<lparr>oo_kind = SwapLeg, oo_txHash = h, oo_at = 0, oo_asset = Some ''EURC''\<rparr>"
  by (simp_all add: classifyOperation_def lx_op_def lx_lib_def lx_ctx_def Let_def swap_asset_def at_opt_def)


end
