(* ===== verification/ProofCache.thy ===== *)
theory ProofCache
  imports Prelude JsText
begin

text \<open>
  \<^verbatim>\<open>relayer/src/proof-cache.ts\<close>: a bounded cache whose entries expire, shared by the read routes, with one computation at a
  time per key. A \<^verbatim>\<open>Map\<close> is an association list, the entry used longest ago first. Between a call of \<^verbatim>\<open>getOrCompute\<close> and the
  end of the computation it waits for, other calls and ends may happen: those are the steps of \<open>cache_step\<close>. A computation
  is known by a number; \<open>tc_asked\<close>, \<open>tc_answers\<close> and \<open>tc_started\<close> log the calls waiting on one, the answers given and the
  computations begun.
\<close>

section \<open>Entries\<close>

record 'v cache_entry =
  ce_value :: 'v
  ce_expiresAt :: int

type_synonym 'v entries = "(string, 'v cache_entry) jsmap"

definition ttl_get :: "string \<Rightarrow> int \<Rightarrow> 'v entries \<Rightarrow> 'v option \<times> 'v entries" where
  "ttl_get key t es =
     (case js_get es key of
        None \<Rightarrow> (None, es)
      | Some entry \<Rightarrow>
          if ce_expiresAt entry \<le> t then (None, js_delete key es)
          else (Some (ce_value entry), js_delete key es @ [(key, entry)]))"

text \<open>The loop that drops the oldest entries while there are too many.\<close>

fun evict :: "nat \<Rightarrow> 'v entries \<Rightarrow> 'v entries" where
  "evict n [] = []"
| "evict n (e # es) = (if length (e # es) > n then evict n es else e # es)"

definition ttl_set :: "nat \<Rightarrow> string \<Rightarrow> 'v \<Rightarrow> int \<Rightarrow> int \<Rightarrow> 'v entries \<Rightarrow> 'v entries" where
  "ttl_set maxEntries key v ttlMs t es =
     (if ttlMs \<le> 0 \<or> maxEntries \<le> 0 then es
      else evict maxEntries (js_delete key es @ [(key, \<lparr>ce_value = v, ce_expiresAt = t + ttlMs\<rparr>)]))"

section \<open>Calls and computations\<close>

record 'v cache_state =
  tc_entries :: "'v entries"
  tc_inflight :: "(string, nat) jsmap"
  tc_running :: "(nat, string) jsmap"
  tc_next :: nat
  tc_clock :: int
  tc_asked :: "(nat \<times> nat \<times> string \<times> int) list"  \<comment> \<open>caller, computation, key, when it asked\<close>
  tc_answers :: "(nat \<times> string \<times> 'v \<times> int) list"  \<comment> \<open>caller, key, value, when it was answered\<close>
  tc_computed :: "(string \<times> 'v \<times> int \<times> int) list"  \<comment> \<open>key, value, when it was ready, how long it keeps\<close>

definition empty_cache :: "'v cache_state" where
  "empty_cache = \<lparr>tc_entries = [], tc_inflight = [], tc_running = [], tc_next = 0, tc_clock = 0, tc_asked = [], tc_answers = [], tc_computed = []\<rparr>"

text \<open>A call of \<^verbatim>\<open>getOrCompute\<close> at time \<open>t\<close>: a hit is answered, another call's computation is shared, or one starts.\<close>

definition getOrCompute :: "nat \<Rightarrow> string \<Rightarrow> int \<Rightarrow> 'v cache_state \<Rightarrow> 'v cache_state" where
  "getOrCompute caller key t s =
     (case ttl_get key t (tc_entries s) of
        (Some v, es) \<Rightarrow> s\<lparr>tc_entries := es, tc_answers := (caller, key, v, t) # tc_answers s\<rparr>
      | (None, es) \<Rightarrow>
          (case js_get (tc_inflight s) key of
             Some i \<Rightarrow> s\<lparr>tc_entries := es, tc_asked := (caller, i, key, t) # tc_asked s\<rparr>
           | None \<Rightarrow> s\<lparr>tc_entries := es, tc_inflight := js_delete key (tc_inflight s) @ [(key, tc_next s)],
               tc_running := (tc_next s, key) # tc_running s, tc_next := Suc (tc_next s),
               tc_asked := (caller, tc_next s, key, t) # tc_asked s\<rparr>))"

text \<open>
  A computation ends, with a value and how long to keep it or with an error, at time \<open>t\<close>: the value is cached and given to
  every call that waits for it, an error to none.
\<close>

definition settle :: "nat \<Rightarrow> nat \<Rightarrow> ('v \<times> int) option \<Rightarrow> int \<Rightarrow> 'v cache_state \<Rightarrow> 'v cache_state" where
  "settle maxEntries i result t s =
     (case js_get (tc_running s) i of
        None \<Rightarrow> s
      | Some key \<Rightarrow>
          let waiting = filter (\<lambda>(c, j, k, u). j = i) (tc_asked s);
              ended = s\<lparr>tc_inflight := js_delete key (tc_inflight s), tc_running := filter (\<lambda>(j, k). j \<noteq> i) (tc_running s),
                tc_asked := filter (\<lambda>(c, j, k, u). j \<noteq> i) (tc_asked s)\<rparr>
          in case result of
               None \<Rightarrow> ended
             | Some (v, ttlMs) \<Rightarrow> ended\<lparr>tc_entries := ttl_set maxEntries key v ttlMs t (tc_entries s),
                 tc_answers := map (\<lambda>(c, j, k, u). (c, k, v, t)) waiting @ tc_answers s,
                 tc_computed := (key, v, t, ttlMs) # tc_computed s\<rparr>)"

inductive cache_step :: "nat \<Rightarrow> 'v cache_state \<Rightarrow> 'v cache_state \<Rightarrow> bool" for maxEntries where
  Ask: "tc_clock s \<le> t \<Longrightarrow> cache_step maxEntries s ((getOrCompute caller key t s)\<lparr>tc_clock := t\<rparr>)"
| Settle: "tc_clock s \<le> t \<Longrightarrow> cache_step maxEntries s ((settle maxEntries i result t s)\<lparr>tc_clock := t\<rparr>)"

text \<open>\<^verbatim>\<open>clear\<close>, which only tests call: a computation still running then ends in a cache that forgot it.\<close>

definition ttl_clear :: "'v cache_state \<Rightarrow> 'v cache_state" where
  "ttl_clear s = s\<lparr>tc_entries := [], tc_inflight := []\<rparr>"

section \<open>The entries stay few and true\<close>

lemma evict_length: "length (evict n es) \<le> n"
  by (induction es) auto

lemma evict_set: "set (evict n es) \<subseteq> set es"
  by (induction es) auto

lemma evict_distinct: "js_ok es \<Longrightarrow> js_ok (evict n es)"
  by (induction es) (auto simp: js_ok_def)

lemma js_ok_requeue: "js_ok es \<Longrightarrow> js_ok (js_delete key es @ [(key, e)])"
  by (auto simp: js_ok_def js_delete_filter distinct_map_filter)

lemma js_delete_length: "length (js_delete key es) \<le> length es"
  by (simp add: js_delete_filter)

definition entries_ok :: "nat \<Rightarrow> 'v cache_state \<Rightarrow> bool" where
  "entries_ok maxEntries s \<longleftrightarrow> js_ok (tc_entries s) \<and> length (tc_entries s) \<le> maxEntries
   \<and> (\<forall>key e. (key, e) \<in> set (tc_entries s) \<longrightarrow> (\<exists>t ttl. (key, ce_value e, t, ttl) \<in> set (tc_computed s) \<and> ce_expiresAt e = t + ttl))
   \<and> (\<forall>key v t ttl. (key, v, t, ttl) \<in> set (tc_computed s) \<longrightarrow> t \<le> tc_clock s)"

text \<open>Computations running, the calls that wait for one, and the keys being computed.\<close>

definition inflight_ok :: "'v cache_state \<Rightarrow> bool" where
  "inflight_ok s \<longleftrightarrow> js_ok (tc_running s) \<and> distinct (map snd (tc_running s)) \<and> js_ok (tc_inflight s)
   \<and> (\<forall>i key. (i, key) \<in> set (tc_running s) \<longleftrightarrow> (key, i) \<in> set (tc_inflight s))
   \<and> (\<forall>i key. (i, key) \<in> set (tc_running s) \<longrightarrow> i < tc_next s)
   \<and> (\<forall>c i key t. (c, i, key, t) \<in> set (tc_asked s) \<longrightarrow> (i, key) \<in> set (tc_running s) \<and> t \<le> tc_clock s)"

definition answers_ok :: "'v cache_state \<Rightarrow> bool" where
  "answers_ok s \<longleftrightarrow> (\<forall>c key v t. (c, key, v, t) \<in> set (tc_answers s) \<longrightarrow> (\<exists>u ttl. (key, v, u, ttl) \<in> set (tc_computed s) \<and> u \<le> t \<and> (t < u + ttl \<or> t = u)))"

lemma ttl_get_hit:
  assumes "ttl_get key t es = (Some v, es')" "js_ok es"
  shows "\<exists>e. (key, e) \<in> set es \<and> ce_value e = v \<and> t < ce_expiresAt e" "set es' = set es" "length es' = length es" "js_ok es'"
proof -
  obtain e where e: "js_get es key = Some e" "ce_value e = v" "t < ce_expiresAt e" and es': "es' = js_delete key es @ [(key, e)]"
    using assms(1) by (auto simp: ttl_get_def split: option.splits if_splits)
  have in_es: "(key, e) \<in> set es" using e(1) by (rule map_of_SomeD)
  with e show "\<exists>e. (key, e) \<in> set es \<and> ce_value e = v \<and> t < ce_expiresAt e" by blast
  have only: "x = (key, e)" if in_es: "x \<in> set es" and k: "fst x = key" for x
  proof -
    obtain a where x: "x = (key, a)" using k by (cases x) simp
    from js_ok_get [OF assms(2) in_es [unfolded x]] e(1) x show ?thesis by simp
  qed
  have "set es' = insert (key, e) {x \<in> set es. fst x \<noteq> key}" by (simp add: es' js_delete_filter)
  also have "\<dots> = set es" using in_es by (auto dest: only)
  finally show same: "set es' = set es" .
  show d: "js_ok es'" unfolding es' by (rule js_ok_requeue [OF assms(2)])
  have "card (set es') = length es'" "card (set es) = length es"
    using d assms(2) unfolding js_ok_def distinct_map by (blast intro: distinct_card)+
  then show "length es' = length es" by (simp add: same)
qed

lemma ttl_get_miss:
  assumes "ttl_get key t es = (None, es')"
  shows "set es' \<subseteq> set es" "length es' \<le> length es" "js_ok es \<Longrightarrow> js_ok es'"
  using assms js_delete_length [of key es] js_ok_delete [of es key]
  by (auto simp: ttl_get_def js_delete_filter split: option.splits if_splits)

lemma ttl_set_entries:
  assumes "length es \<le> n"
  shows "length (ttl_set n key v ttl t es) \<le> n"
    "e \<in> set (ttl_set n key v ttl t es) \<Longrightarrow> e \<in> set es \<or> e = (key, \<lparr>ce_value = v, ce_expiresAt = t + ttl\<rparr>)"
    "js_ok es \<Longrightarrow> js_ok (ttl_set n key v ttl t es)"
proof -
  let ?es = "js_delete key es @ [(key, \<lparr>ce_value = v, ce_expiresAt = t + ttl\<rparr>)]"
  show "length (ttl_set n key v ttl t es) \<le> n" using assms evict_length [of n ?es] by (simp add: ttl_set_def)
  show "e \<in> set (ttl_set n key v ttl t es) \<Longrightarrow> e \<in> set es \<or> e = (key, \<lparr>ce_value = v, ce_expiresAt = t + ttl\<rparr>)"
    using evict_set [of n ?es] by (auto simp: ttl_set_def js_delete_filter split: if_splits)
  show "js_ok es \<Longrightarrow> js_ok (ttl_set n key v ttl t es)"
    unfolding ttl_set_def by (auto intro!: evict_distinct js_ok_requeue simp del: evict.simps)
qed

section \<open>Every step\<close>

lemma entries_ok_sub:
  assumes "entries_ok n s" "js_ok es" "length es \<le> n" "set es \<subseteq> set (tc_entries s)" "tc_clock s \<le> t"
    and "tc_entries s' = es" "tc_computed s' = tc_computed s" "tc_clock s' = t"
  shows "entries_ok n s'"
  unfolding entries_ok_def assms(6-8)
proof (intro conjI allI impI)
  show "\<exists>u ttl. (key, ce_value e, u, ttl) \<in> set (tc_computed s) \<and> ce_expiresAt e = u + ttl" if "(key, e) \<in> set es" for key e
    using assms(1, 4) that unfolding entries_ok_def by blast
  show "u \<le> t" if "(key, v, u, ttl) \<in> set (tc_computed s)" for key v u ttl
    using assms(1, 5) that unfolding entries_ok_def by (meson order_trans)
qed (use assms in simp_all)

lemma ask_entries:
  assumes "entries_ok n s" "tc_clock s \<le> t"
  shows "entries_ok n ((getOrCompute caller key t s)\<lparr>tc_clock := t\<rparr>)"
proof -
  obtain r es where get: "ttl_get key t (tc_entries s) = (r, es)" by fastforce
  have s: "js_ok (tc_entries s)" "length (tc_entries s) \<le> n" using assms(1) by (simp_all add: entries_ok_def)
  have es: "js_ok es" "length es \<le> n" "set es \<subseteq> set (tc_entries s)"
    using get s ttl_get_hit [of key t "tc_entries s" _ es] ttl_get_miss [of key t "tc_entries s" es]
    by (cases r; simp)+
  show ?thesis
    by (rule entries_ok_sub [OF assms(1) es assms(2)])
      (simp_all add: getOrCompute_def get split: option.split)
qed

lemma ask_answers:
  assumes "answers_ok s" "entries_ok n s" "tc_clock s \<le> t"
  shows "answers_ok ((getOrCompute caller key t s)\<lparr>tc_clock := t\<rparr>)"
proof -
  obtain r es where get: "ttl_get key t (tc_entries s) = (r, es)" by fastforce
  show ?thesis
  proof (cases r)
    case None
    then show ?thesis using assms(1) get by (simp add: answers_ok_def getOrCompute_def split: option.split)
  next
    case (Some v)
    then obtain e where e: "(key, e) \<in> set (tc_entries s)" "ce_value e = v" "t < ce_expiresAt e"
      using ttl_get_hit(1) [of key t "tc_entries s" v es] get assms(2) by (auto simp: entries_ok_def)
    with assms(2) obtain u ttl where u: "(key, v, u, ttl) \<in> set (tc_computed s)" "ce_expiresAt e = u + ttl"
      unfolding entries_ok_def by metis
    moreover have "u \<le> tc_clock s" using assms(2) u(1) unfolding entries_ok_def by metis
    ultimately have "\<exists>u ttl. (key, v, u, ttl) \<in> set (tc_computed s) \<and> u \<le> t \<and> (t < u + ttl \<or> t = u)"
      using e(3) assms(3) by (intro exI [of _ u] exI [of _ ttl]) simp
    with assms(1) get Some show ?thesis by (simp add: answers_ok_def getOrCompute_def)
  qed
qed

lemma settle_entries:
  assumes "entries_ok n s" "tc_clock s \<le> t"
  shows "entries_ok n ((settle n i result t s)\<lparr>tc_clock := t\<rparr>)"
proof (cases "js_get (tc_running s) i = None \<or> result = None")
  case True
  then show ?thesis using assms
    by (intro entries_ok_sub [OF assms(1) _ _ _ assms(2)]) (auto simp: settle_def entries_ok_def Let_def split: option.split)
next
  case False
  then obtain key v ttl where r: "js_get (tc_running s) i = Some key" "result = Some (v, ttl)" by fastforce
  have s: "js_ok (tc_entries s)" "length (tc_entries s) \<le> n" using assms(1) by (simp_all add: entries_ok_def)
  have from_set: "\<exists>u ttl'. (k, ce_value e, u, ttl') \<in> insert (key, v, t, ttl) (set (tc_computed s)) \<and> ce_expiresAt e = u + ttl'"
    if "(k, e) \<in> set (ttl_set n key v ttl t (tc_entries s))" for k e
    using ttl_set_entries(2) [OF s(2) that]
  proof
    assume "(k, e) \<in> set (tc_entries s)"
    then show ?thesis using assms(1) unfolding entries_ok_def by blast
  next
    assume "(k, e) = (key, \<lparr>ce_value = v, ce_expiresAt = t + ttl\<rparr>)"
    then show ?thesis by (intro exI [of _ t] exI [of _ ttl]) simp
  qed
  have "\<forall>k w u ttl'. (k, w, u, ttl') \<in> insert (key, v, t, ttl) (set (tc_computed s)) \<longrightarrow> u \<le> t"
    using assms unfolding entries_ok_def by (metis (no_types, lifting) Pair_inject insert_iff order_refl order_trans)
  then show ?thesis
    using ttl_set_entries(1, 3) [OF s(2)] s(1) from_set by (simp add: entries_ok_def settle_def r Let_def)
qed

lemma settle_answers:
  assumes "answers_ok s" "inflight_ok s"
  shows "answers_ok ((settle n i result t s)\<lparr>tc_clock := t\<rparr>)"
proof (cases "js_get (tc_running s) i = None \<or> result = None")
  case True
  then show ?thesis using assms by (auto simp: settle_def answers_ok_def Let_def split: option.split)
next
  case False
  then obtain key v ttl where r: "js_get (tc_running s) i = Some key" "result = Some (v, ttl)" by fastforce
  have "k = key" if "(c, i, k, u) \<in> set (tc_asked s)" for c k u
  proof -
    have "(i, k) \<in> set (tc_running s)" "js_ok (tc_running s)" using assms(2) that unfolding inflight_ok_def by blast+
    from js_ok_get [OF this(2, 1)] r(1) show ?thesis by simp
  qed
  then have "\<exists>u ttl'. (k, w, u, ttl') \<in> insert (key, v, t, ttl) (set (tc_computed s)) \<and> u \<le> t' \<and> (t' < u + ttl' \<or> t' = u)"
    if "(c, k, w, t') \<in> set (map (\<lambda>(c, j, k, u). (c, k, v, t)) (filter (\<lambda>(c, j, k, u). j = i) (tc_asked s)) @ tc_answers s)" for c k w t'
  proof (cases "(c, k, w, t') \<in> set (tc_answers s)")
    case True
    then show ?thesis using assms(1) unfolding answers_ok_def by blast
  next
    case False
    with that have "k = key" "w = v" "t' = t" using \<open>\<And>c k u. (c, i, k, u) \<in> set (tc_asked s) \<Longrightarrow> k = key\<close> by auto
    then show ?thesis by (intro exI [of _ t] exI [of _ ttl]) simp
  qed
  then show ?thesis by (simp add: answers_ok_def settle_def r Let_def)
qed

lemma inflight_okD:
  assumes "inflight_ok s"
  shows "js_ok (tc_running s)" "distinct (map snd (tc_running s))" "js_ok (tc_inflight s)"
    "(i, key) \<in> set (tc_running s) \<longleftrightarrow> (key, i) \<in> set (tc_inflight s)" "(i, key) \<in> set (tc_running s) \<Longrightarrow> i < tc_next s"
    "(c, i, key, u) \<in> set (tc_asked s) \<Longrightarrow> (i, key) \<in> set (tc_running s)" "(c, i, key, u) \<in> set (tc_asked s) \<Longrightarrow> u \<le> tc_clock s"
  using assms unfolding inflight_ok_def by blast+

lemma ask_inflight:
  assumes ok: "inflight_ok s" and t: "tc_clock s \<le> t"
  shows "inflight_ok ((getOrCompute caller key t s)\<lparr>tc_clock := t\<rparr>)"
proof -
  obtain r es where get: "ttl_get key t (tc_entries s) = (r, es)" by fastforce
  have later: "u \<le> t" if "(c, i, k, u) \<in> set (tc_asked s)" for c i k u
    using inflight_okD(7) [OF ok that] t by simp
  show ?thesis
  proof (cases "r = None \<and> js_get (tc_inflight s) key = None")
    case True
    then have fresh: "key \<notin> fst ` set (tc_inflight s)" by (simp add: map_of_eq_None_iff)
    then have same: "js_delete key (tc_inflight s) = tc_inflight s" by (auto simp: js_delete_filter filter_id_conv)
    have "key \<notin> snd ` set (tc_running s)" using fresh inflight_okD(4) [OF ok] by force
    moreover have "tc_next s \<notin> fst ` set (tc_running s)" using inflight_okD(5) [OF ok] by force
    moreover define s' where "s' = s\<lparr>tc_entries := es, tc_inflight := tc_inflight s @ [(key, tc_next s)], tc_running := (tc_next s, key) # tc_running s,
        tc_next := Suc (tc_next s), tc_asked := (caller, tc_next s, key, t) # tc_asked s, tc_clock := t\<rparr>"
    ultimately have "inflight_ok s'"
      unfolding inflight_ok_def
    proof (intro conjI allI impI)
      show "i < tc_next s'" if "(i, k) \<in> set (tc_running s')" for i k
        using that inflight_okD(5) [OF ok, of i k] by (auto simp: s'_def)
      show "(i, k) \<in> set (tc_running s')" "u \<le> tc_clock s'" if "(c, i, k, u) \<in> set (tc_asked s')" for c i k u
        using that inflight_okD(6) [OF ok, of c i k u] later [of c i k u] by (auto simp: s'_def)
      show "(i, k) \<in> set (tc_running s') \<longleftrightarrow> (k, i) \<in> set (tc_inflight s')" for i k
        using inflight_okD(4) [OF ok, of i k] by (auto simp: s'_def)
    qed (use inflight_okD(1-3) [OF ok] fresh in \<open>auto simp: js_ok_def s'_def\<close>)
    with True same show ?thesis by (simp add: getOrCompute_def get s'_def)
  next
    case False
    then have shared: "(i, key) \<in> set (tc_running s)" if "r = None" "js_get (tc_inflight s) key = Some i" for i
      using inflight_okD(4) [OF ok, of i key] that by (auto dest: map_of_SomeD)
    define s' where "s' = (getOrCompute caller key t s)\<lparr>tc_clock := t\<rparr>"
    have s': "tc_running s' = tc_running s" "tc_inflight s' = tc_inflight s" "tc_next s' = tc_next s" "tc_clock s' = t"
      "tc_asked s' = (case js_get (tc_inflight s) key of Some i \<Rightarrow> if r = None then (caller, i, key, t) # tc_asked s else tc_asked s | None \<Rightarrow> tc_asked s)"
      using False by (cases r; cases "js_get (tc_inflight s) key"; simp add: getOrCompute_def get s'_def)+
    have "inflight_ok s'"
      unfolding inflight_ok_def
    proof (intro conjI allI impI)
      show "(i, k) \<in> set (tc_running s')" "u \<le> tc_clock s'" if "(c, i, k, u) \<in> set (tc_asked s')" for c i k u
        using that inflight_okD(6) [OF ok, of c i k u] later [of c i k u] shared unfolding s' by (auto split: option.splits if_splits)
    qed (use inflight_okD(1-5) [OF ok] in \<open>auto simp: s'\<close>)
    then show ?thesis by (simp add: s'_def)
  qed
qed

lemma settle_inflight:
  assumes ok: "inflight_ok s" and t: "tc_clock s \<le> t"
  shows "inflight_ok ((settle n i result t s)\<lparr>tc_clock := t\<rparr>)"
proof -
  have later: "u \<le> t" if "(c, j, k, u) \<in> set (tc_asked s)" for c j k u
    using inflight_okD(7) [OF ok that] t by simp
  define s' where "s' = (settle n i result t s)\<lparr>tc_clock := t\<rparr>"
  have "inflight_ok s'"
  proof (cases "js_get (tc_running s) i")
    case None
    then have s': "tc_running s' = tc_running s" "tc_inflight s' = tc_inflight s" "tc_next s' = tc_next s" "tc_clock s' = t" "tc_asked s' = tc_asked s"
      by (simp_all add: s'_def settle_def)
    show ?thesis unfolding inflight_ok_def s' using inflight_okD [OF ok] later by blast
  next
    case (Some key)
    then have run: "(i, key) \<in> set (tc_running s)" by (rule map_of_SomeD)
    have both: "k \<noteq> key \<longleftrightarrow> j \<noteq> i" if "(j, k) \<in> set (tc_running s)" for j k
    proof -
      have "inj_on fst (set (tc_running s))" "inj_on snd (set (tc_running s))"
        using inflight_okD(1, 2) [OF ok] unfolding js_ok_def distinct_map by blast+
      with run that show ?thesis by (metis fst_conv inj_onD snd_conv)
    qed
    have s': "tc_running s' = filter (\<lambda>(j, k). j \<noteq> i) (tc_running s)" "tc_inflight s' = js_delete key (tc_inflight s)" "tc_next s' = tc_next s"
      "tc_clock s' = t" "tc_asked s' = filter (\<lambda>(c, j, k, u). j \<noteq> i) (tc_asked s)"
      using Some by (cases result; simp add: s'_def settle_def Let_def split: prod.split)+
    show ?thesis
      unfolding inflight_ok_def
    proof (intro conjI allI impI)
      show "(j, k) \<in> set (tc_running s') \<longleftrightarrow> (k, j) \<in> set (tc_inflight s')" for j k
        using inflight_okD(4) [OF ok, of j k] both [of j k] by (auto simp: s' js_delete_filter)
      show "(j, k) \<in> set (tc_running s')" "u \<le> tc_clock s'" if "(c, j, k, u) \<in> set (tc_asked s')" for c j k u
        using that inflight_okD(6) [OF ok, of c j k u] later [of c j k u] by (auto simp: s')
      show "j < tc_next s'" if "(j, k) \<in> set (tc_running s')" for j k
        using that inflight_okD(5) [OF ok, of j k] by (simp add: s')
    qed (use inflight_okD(1-3) [OF ok] in \<open>auto simp: s' js_ok_def intro: distinct_map_filter distinct_delete\<close>)
  qed
  then show ?thesis by (simp add: s'_def)
qed

definition cache_ok :: "nat \<Rightarrow> 'v cache_state \<Rightarrow> bool" where
  "cache_ok n s \<longleftrightarrow> entries_ok n s \<and> inflight_ok s \<and> answers_ok s"

lemma cache_ok_step: "cache_step n s s' \<Longrightarrow> cache_ok n s \<Longrightarrow> cache_ok n s'"
  by (induction rule: cache_step.induct)
    (auto simp: cache_ok_def intro: ask_entries ask_inflight ask_answers settle_entries settle_inflight settle_answers)

lemma cache_ok_reachable: "(cache_step n)\<^sup>*\<^sup>* empty_cache s \<Longrightarrow> cache_ok n s"
proof (induction rule: rtranclp_induct)
  case base
  show ?case by (simp add: cache_ok_def entries_ok_def inflight_ok_def answers_ok_def empty_cache_def)
next
  case (step s s')
  then show ?case by (blast intro: cache_ok_step)
qed

text \<open>C33. Whatever calls and computations overlap, the cache never holds more than its bound, no key is being computed twice
  at a time, every waiting call waits for a computation of its own key, and every answer is a value computed for the
  key that was asked, given when it was ready or before it expired.\<close>

theorem cache_serves_fresh:
  assumes "(cache_step maxEntries)\<^sup>*\<^sup>* empty_cache s"
  shows "length (tc_entries s) \<le> maxEntries \<and> distinct (map snd (tc_running s))
    \<and> (\<forall>caller i key t. (caller, i, key, t) \<in> set (tc_asked s) \<longrightarrow> (i, key) \<in> set (tc_running s))
    \<and> (\<forall>caller key v t. (caller, key, v, t) \<in> set (tc_answers s) \<longrightarrow>
        (\<exists>u ttl. (key, v, u, ttl) \<in> set (tc_computed s) \<and> u \<le> t \<and> (t < u + ttl \<or> t = u)))"
  using cache_ok_reachable [OF assms] by (auto simp: cache_ok_def entries_ok_def inflight_ok_def answers_ok_def)

definition shared_run :: "nat cache_state" where
  "shared_run =
     (getOrCompute 3 ''tx'' 5 ((settle 1 0 (Some (7, 10)) 2 ((getOrCompute 2 ''tx'' 1 ((getOrCompute 1 ''tx'' 0 empty_cache)\<lparr>tc_clock := 0\<rparr>))
       \<lparr>tc_clock := 1\<rparr>))\<lparr>tc_clock := 2\<rparr>))\<lparr>tc_clock := 5\<rparr>"

lemma cache_serves_fresh_witness:
  "length (tc_entries shared_run) \<le> 1 \<and> tc_next shared_run = 1
   \<and> tc_answers shared_run = [(3, ''tx'', 7, 5), (2, ''tx'', 7, 2), (1, ''tx'', 7, 2)]
   \<and> (\<exists>u ttl. (''tx'', 7, u, ttl) \<in> set (tc_computed shared_run) \<and> u \<le> 5 \<and> (5 < u + ttl \<or> 5 = u))"
proof -
  define s1 :: "nat cache_state" where "s1 = (getOrCompute 1 ''tx'' 0 empty_cache)\<lparr>tc_clock := 0\<rparr>"
  define s2 where "s2 = (getOrCompute 2 ''tx'' 1 s1)\<lparr>tc_clock := 1\<rparr>"
  define s3 where "s3 = (settle 1 0 (Some (7, 10)) 2 s2)\<lparr>tc_clock := 2\<rparr>"
  have last: "shared_run = (getOrCompute 3 ''tx'' 5 s3)\<lparr>tc_clock := 5\<rparr>" by (simp only: shared_run_def s3_def s2_def s1_def)
  have "cache_step 1 empty_cache s1" unfolding s1_def by (rule Ask) (simp add: empty_cache_def)
  moreover have "cache_step 1 s1 s2" unfolding s2_def by (rule Ask) (simp add: s1_def)
  moreover have "cache_step 1 s2 s3" unfolding s3_def by (rule Settle) (simp add: s2_def)
  moreover have "cache_step 1 s3 shared_run" unfolding last by (rule Ask) (simp add: s3_def)
  ultimately have run: "(cache_step 1)\<^sup>*\<^sup>* empty_cache shared_run"
    by (meson rtranclp.rtrancl_into_rtrancl rtranclp.rtrancl_refl)
  have "tc_answers shared_run = [(3, ''tx'', 7, 5), (2, ''tx'', 7, 2), (1, ''tx'', 7, 2)] \<and> tc_next shared_run = 1" by code_simp
  moreover from this have "(3, ''tx'', 7, 5) \<in> set (tc_answers shared_run)" by simp
  ultimately show ?thesis using cache_serves_fresh [OF run] by blast
qed

end
