(* ===== verification/DepositStatus.thy ===== *)
theory DepositStatus
  imports DepositSubmission ProofCache SpvProof
begin

text \<open>
  \<^verbatim>\<open>relayer/src/routes/deposit-status.ts\<close> and \<^verbatim>\<open>cachedTipReader\<close> of \<^verbatim>\<open>bitcoin/light-client.ts\<close>: where a deposit is. What one
  request reads of Stellar and Bitcoin is a record of answers, as the two chains are read at the same time; the router's
  state is its cache of answers and the times at which hashes were first named.
\<close>

section \<open>What a request reads\<close>

definition toInternalTxid :: "string \<Rightarrow> string" where
  "toInternalTxid display = hex_of_bytes (rev (bytes_of_hex display))"

definition isTxid :: "string \<Rightarrow> bool" where
  "isTxid s \<longleftrightarrow> length s = 64 \<and> list_all is_hex s"

datatype registration = Unregistered | Registered "position_event option"

text \<open>
  \<^verbatim>\<open>registration\<close> of the default dependencies: the index is asked, then the contract's storage, then the index once more after a
  forced refresh. Each answer may be an error.
\<close>

definition read_registration ::
    "string + position_event option \<Rightarrow> string + bool \<Rightarrow> string + unit \<Rightarrow> string + position_event option \<Rightarrow> string + registration" where
  "read_registration lookup exists refreshed lookup_again =
     res_bind lookup (\<lambda>record.
     case record of
       Some r \<Rightarrow> Inr (Registered (Some r))
     | None \<Rightarrow>
         res_bind exists (\<lambda>there.
         if \<not> there then Inr Unregistered
         else res_bind refreshed (\<lambda>_. res_bind lookup_again (\<lambda>again. Inr (Registered again)))))"

text \<open>Esplora's answer for the transaction; only its 404 for this very transaction means it has never seen it.\<close>

definition read_bitcoinTx :: "fetch_error + SpvProof.tx_status \<Rightarrow> fetch_error + SpvProof.tx_status option" where
  "read_bitcoinTx r = (case r of
       Inr s \<Rightarrow> Inr (Some s)
     | Inl (EsploraStatus c body) \<Rightarrow> if c = 404 then Inr None else Inl (EsploraStatus c body)
     | Inl e \<Rightarrow> Inl e)"

text \<open>The tip reader keeps the last answer, unknown included, and shares it for a while.\<close>

record tip_reader =
  tr_value :: "int option"
  tr_fetchedAt :: "int option"

definition cachedTipReader :: "int \<Rightarrow> int \<Rightarrow> int \<Rightarrow> string + int option \<Rightarrow> tip_reader \<Rightarrow> int option \<times> tip_reader" where
  "cachedTipReader ttlMs t t' answer s =
     (if (case tr_fetchedAt s of Some f \<Rightarrow> t - f < ttlMs | None \<Rightarrow> False) then (tr_value s, s)
      else let v = (case answer of Inl e \<Rightarrow> None | Inr v \<Rightarrow> v) in (v, \<lparr>tr_value = v, tr_fetchedAt = Some t'\<rparr>))"

record status_reads =
  sr_required :: "string + int"
  sr_registration :: "string + registration"
  sr_submission :: "string \<Rightarrow> submission_error + submission_check"  \<comment> \<open>of a named hash\<close>
  sr_bitcoinTx :: "fetch_error + SpvProof.tx_status option"
  sr_bitcoinTip :: "fetch_error + int"
  sr_lightClientTip :: "int option"

section \<open>The status\<close>

datatype stage = Unseen | Mempool | InBlock | Ready | Submitted | Verified | Failed

datatype submission_status = NotFound | Success | FailedTx

record submission =
  sb_stellarTxHash :: string
  sb_status :: submission_status
  sb_ledger :: "nat option"
  sb_closedAt :: "string option"
  sb_reason :: "string option"
  sb_errorCode :: "nat option"

record deposit_status =
  ds_txid :: string
  ds_stage :: stage
  ds_confirmations :: "int option"
  ds_required :: int
  ds_blockHeight :: "int option"
  ds_proofReady :: "bool option"
  ds_lightClientTipHeight :: "int option"
  ds_stellarTxHash :: "string option"
  ds_ledger :: "nat option"
  ds_verifiedAt :: "string option"
  ds_submission :: "submission option"

datatype status_error = StellarTxMismatch | StellarUnavailable | BitcoinError fetch_error

definition SUBMISSION_WINDOW_MS :: int where "SUBMISSION_WINDOW_MS = 360000"
definition FIRST_SEEN_TTL_MS :: int where "FIRST_SEEN_TTL_MS = 24 * 60 * 60 * 1000"
definition STATUS_TTL_MS :: int where "STATUS_TTL_MS = 5000"

text \<open>A named hash, and the milliseconds since it was first named.\<close>

record submission_query =
  sq_hash :: string
  sq_elapsedMs :: int

fun submissionView :: "string \<Rightarrow> submission_check \<Rightarrow> submission" where
  "submissionView hash (CheckSuccess l c) =
     \<lparr>sb_stellarTxHash = hash, sb_status = Success, sb_ledger = Some l, sb_closedAt = Some c, sb_reason = None, sb_errorCode = None\<rparr>"
| "submissionView hash (CheckFailed l c f) =
     \<lparr>sb_stellarTxHash = hash, sb_status = FailedTx, sb_ledger = Some l, sb_closedAt = Some c, sb_reason = Some (fl_reason f), sb_errorCode = fl_errorCode f\<rparr>"
| "submissionView hash _ =
     \<lparr>sb_stellarTxHash = hash, sb_status = NotFound, sb_ledger = None, sb_closedAt = None, sb_reason = None, sb_errorCode = None\<rparr>"

text \<open>The three reads of Stellar; the first to fail makes Stellar unavailable.\<close>

definition stellar_reads :: "status_reads \<Rightarrow> submission_query option \<Rightarrow> status_error + int \<times> registration \<times> submission_check option" where
  "stellar_reads r query =
     (case (sr_required r, sr_registration r, case query of None \<Rightarrow> Inr None | Some q \<Rightarrow> (case sr_submission r (sq_hash q) of Inl e \<Rightarrow> Inl e | Inr c \<Rightarrow> Inr (Some c))) of
        (Inr required, Inr registration, Inr check) \<Rightarrow> Inr (required, registration, check)
      | _ \<Rightarrow> Inl StellarUnavailable)"

definition bitcoin_reads :: "status_reads \<Rightarrow> fetch_error + SpvProof.tx_status option \<times> int option" where
  "bitcoin_reads r =
     res_bind (sr_bitcoinTx r) (\<lambda>tx.
       case tx of
         Some s \<Rightarrow> if confirmed s then res_bind (sr_bitcoinTip r) (\<lambda>tip. Inr (tx, Some tip)) else Inr (tx, None)
       | None \<Rightarrow> Inr (tx, None))"

text \<open>The transaction that registered the deposit: the event's, or the one the caller named when the event is not indexed.\<close>

definition verified_fields :: "registration \<Rightarrow> submission_check option \<Rightarrow> submission_query option \<Rightarrow> string option \<times> nat option \<times> string option" where
  "verified_fields registration check query =
     (case (registration, check, query) of
        (Registered None, Some (CheckSuccess l c), Some q) \<Rightarrow> (Some (sq_hash q), Some l, Some c)
      | (Registered (Some e), _, _) \<Rightarrow> (Some (pe_stellarTxHash e), Some (pe_ledger e), Some (pe_ledgerClosedAt e))
      | _ \<Rightarrow> (None, None, None))"

definition confirmations_of :: "int option \<Rightarrow> int option \<Rightarrow> int" where
  "confirmations_of height tip = (case (height, tip) of (Some b, Some t) \<Rightarrow> max 1 (t - b + 1) | _ \<Rightarrow> 0)"

definition proof_ready :: "int \<Rightarrow> int option \<Rightarrow> int \<Rightarrow> int option \<Rightarrow> bool" where
  "proof_ready required height confs lcTip =
     (case height of
        Some b \<Rightarrow> required \<le> confs \<and> (case lcTip of None \<Rightarrow> True | Some l \<Rightarrow> b + required - 1 \<le> l)
      | None \<Rightarrow> False)"

definition deposit_stage ::
    "registration \<Rightarrow> submission_check option \<Rightarrow> int option \<Rightarrow> submission_query option \<Rightarrow> SpvProof.tx_status option \<Rightarrow> bool \<Rightarrow> stage" where
  "deposit_stage registration check height query tx proofReady =
     (if registration \<noteq> Unregistered then Verified
      else if (case check of Some (CheckFailed l c f) \<Rightarrow> True | _ \<Rightarrow> False) then Failed
      else if (case check of Some (CheckSuccess l c) \<Rightarrow> True | _ \<Rightarrow> False) then Submitted
      else if check = Some CheckNotFound \<and> height \<noteq> None
        \<and> (case query of Some q \<Rightarrow> sq_elapsedMs q < SUBMISSION_WINDOW_MS | None \<Rightarrow> False) then Submitted
      else (case tx of
          None \<Rightarrow> Unseen
        | Some s \<Rightarrow> if \<not> confirmed s then Mempool else if proofReady then Ready else InBlock))"

definition computeStatus :: "status_reads \<Rightarrow> string \<Rightarrow> submission_query option \<Rightarrow> status_error + deposit_status" where
  "computeStatus r display query =
     res_bind (stellar_reads r query) (\<lambda>(required, registration, check).
     if check = Some CheckMismatch then Inl StellarTxMismatch
     else
       let base = \<lparr>ds_txid = display, ds_stage = Verified, ds_confirmations = None, ds_required = required, ds_blockHeight = None, ds_proofReady = None,
             ds_lightClientTipHeight = None, ds_stellarTxHash = fst (verified_fields registration check query),
             ds_ledger = fst (snd (verified_fields registration check query)), ds_verifiedAt = snd (snd (verified_fields registration check query)),
             ds_submission = (case (query, check) of (Some q, Some c) \<Rightarrow> Some (submissionView (sq_hash q) c) | _ \<Rightarrow> None)\<rparr>
       in (case bitcoin_reads r of
          Inl e \<Rightarrow> if registration = Unregistered then Inl (BitcoinError e) else Inr base
        | Inr (tx, tip) \<Rightarrow>
            let height = (case tx of Some s \<Rightarrow> if confirmed s then block_height s else None | None \<Rightarrow> None);
                confs = confirmations_of height tip;
                lcTip = (if height \<noteq> None \<and> required \<le> confs then sr_lightClientTip r else None);
                proofReady = proof_ready required height confs lcTip
            in Inr (base\<lparr>ds_stage := deposit_stage registration check height query tx proofReady, ds_confirmations := Some confs,
              ds_blockHeight := height, ds_proofReady := Some proofReady, ds_lightClientTipHeight := lcTip\<rparr>)))"

section \<open>The route\<close>

record status_state =
  rs_cache :: "deposit_status entries"
  rs_firstSeen :: "int entries"

definition empty_status :: status_state where
  "empty_status = \<lparr>rs_cache = [], rs_firstSeen = []\<rparr>"

text \<open>\<^verbatim>\<open>req.query.stellarTx\<close>: absent, one string, or something else (a repeated or nested parameter).\<close>

datatype query_param = Absent | Param string | Malformed

datatype status_answer =
    Status deposit_status
  | InvalidTxid | InvalidStellarTx | LendingNotConfigured
  | StellarTxMismatch400 | StellarUnavailable503 | UpstreamUnavailable503 | UpstreamError502

definition status_key :: "string \<Rightarrow> string option \<Rightarrow> string" where
  "status_key normalized hash = (case hash of Some h \<Rightarrow> normalized @ '':'' @ h | None \<Rightarrow> normalized)"

text \<open>The first time a hash was named for a deposit, at time \<open>t\<close>.\<close>

definition first_seen :: "string \<Rightarrow> int \<Rightarrow> int entries \<Rightarrow> int \<times> int entries" where
  "first_seen key t fs =
     (case ttl_get key t fs of
        (Some since, fs') \<Rightarrow> (since, fs')
      | (None, fs') \<Rightarrow> (t, ttl_set 10000 key t FIRST_SEEN_TTL_MS t fs'))"

definition status_query :: "string \<Rightarrow> string option \<Rightarrow> int \<Rightarrow> int entries \<Rightarrow> submission_query option \<times> int entries" where
  "status_query normalized hash t fs =
     (case hash of
        None \<Rightarrow> (None, fs)
      | Some h \<Rightarrow> (case first_seen (status_key normalized hash) t fs of
          (since, fs') \<Rightarrow> (Some \<lparr>sq_hash = h, sq_elapsedMs = t - since\<rparr>, fs')))"

fun status_failure :: "status_error \<Rightarrow> status_answer" where
  "status_failure StellarTxMismatch = StellarTxMismatch400"
| "status_failure StellarUnavailable = StellarUnavailable503"
| "status_failure (BitcoinError e) = (if isUpstreamUnavailable e then UpstreamUnavailable503 else UpstreamError502)"

text \<open>
  A request at time \<open>t\<close> whose computation, if it needs one, ends at \<open>t'\<close>; \<open>r\<close> is what it reads. Requests that share a
  computation are the business of \<^verbatim>\<open>ProofCache\<close>.
\<close>

definition depositStatus :: "bool \<Rightarrow> status_reads \<Rightarrow> string \<Rightarrow> query_param \<Rightarrow> int \<Rightarrow> int \<Rightarrow> status_state \<Rightarrow> status_answer \<times> status_state" where
  "depositStatus configured r display stellarTx t t' s =
     (if \<not> isTxid display then (InvalidTxid, s)
      else if (case stellarTx of Absent \<Rightarrow> False | Param h \<Rightarrow> \<not> isTxid h | Malformed \<Rightarrow> True) then (InvalidStellarTx, s)
      else if \<not> configured then (LendingNotConfigured, s)
      else
        let normalized = toLowerCase display;
            hash = (case stellarTx of Param h \<Rightarrow> Some (toLowerCase h) | _ \<Rightarrow> None);
            key = status_key normalized hash
        in (case ttl_get key t (rs_cache s) of
          (Some st, c) \<Rightarrow> (Status st, s\<lparr>rs_cache := c\<rparr>)
        | (None, c) \<Rightarrow>
            (case status_query normalized hash t (rs_firstSeen s) of (query, fs) \<Rightarrow>
             (case computeStatus r normalized query of
                Inl e \<Rightarrow> (status_failure e, s\<lparr>rs_cache := c, rs_firstSeen := fs\<rparr>)
              | Inr st \<Rightarrow> (Status st, s\<lparr>rs_cache := ttl_set 1000 key st STATUS_TTL_MS t' c, rs_firstSeen := fs\<rparr>)))))"


section \<open>What a stage means\<close>

text \<open>How the fields of an answer come from what was read.\<close>

definition status_parts :: "status_reads \<Rightarrow> submission_query option \<Rightarrow> deposit_status \<Rightarrow> registration \<Rightarrow> submission_check option \<Rightarrow> bool" where
  "status_parts r query st registration check \<longleftrightarrow>
    sr_registration r = Inr registration \<and> check \<noteq> Some CheckMismatch \<and> sr_required r = Inr (ds_required st)
    \<and> (case query of None \<Rightarrow> check = None | Some q \<Rightarrow> \<exists>c. check = Some c \<and> sr_submission r (sq_hash q) = Inr c)
    \<and> ds_submission st = (case (query, check) of (Some q, Some c) \<Rightarrow> Some (submissionView (sq_hash q) c) | _ \<Rightarrow> None)
    \<and> ds_stellarTxHash st = fst (verified_fields registration check query)
    \<and> (registration \<noteq> Unregistered \<and> ds_stage st = Verified \<or> (\<exists>tx tip. bitcoin_reads r = Inr (tx, tip)
      \<and> ds_blockHeight st = (case tx of Some s \<Rightarrow> if confirmed s then block_height s else None | None \<Rightarrow> None)
      \<and> ds_stage st = deposit_stage registration check (ds_blockHeight st) query tx
          (proof_ready (ds_required st) (ds_blockHeight st) (confirmations_of (ds_blockHeight st) tip)
            (if ds_blockHeight st \<noteq> None \<and> ds_required st \<le> confirmations_of (ds_blockHeight st) tip then sr_lightClientTip r else None))))"

lemma compute_parts:
  assumes "computeStatus r display query = Inr st"
  shows "\<exists>registration check. status_parts r query st registration check"
proof -
  obtain required registration check where stellar: "stellar_reads r query = Inr (required, registration, check)" and no: "check \<noteq> Some CheckMismatch"
    using assms by (cases "stellar_reads r query") (auto simp: computeStatus_def split: if_splits)
  have reads: "sr_registration r = Inr registration" "sr_required r = Inr required"
    "case query of None \<Rightarrow> check = None | Some q \<Rightarrow> \<exists>c. check = Some c \<and> sr_submission r (sq_hash q) = Inr c"
    using stellar by (auto simp: stellar_reads_def split: sum.splits option.splits)
  have "status_parts r query st registration check"
  proof (cases "bitcoin_reads r")
    case (Inl e)
    with assms stellar no reads show ?thesis by (auto simp: status_parts_def computeStatus_def Let_def split: if_splits)
  next
    case (Inr x)
    obtain tx tip where "x = (tx, tip)" by (cases x)
    with assms stellar no reads Inr show ?thesis by (auto simp: status_parts_def computeStatus_def Let_def)
  qed
  then show ?thesis by blast
qed

lemma stage_iff:
  "deposit_stage registration check height query tx proofReady = Verified \<longleftrightarrow> registration \<noteq> Unregistered"
  "deposit_stage registration check height query tx proofReady = Ready \<Longrightarrow> proofReady \<and> (\<exists>s. tx = Some s \<and> confirmed s)"
  "deposit_stage registration check height query tx proofReady = Failed \<Longrightarrow> \<exists>l c f. check = Some (CheckFailed l c f)"
  "deposit_stage registration check height query tx proofReady = Submitted \<Longrightarrow> (\<exists>l c. check = Some (CheckSuccess l c))
     \<or> check = Some CheckNotFound \<and> height \<noteq> None \<and> (\<exists>q. query = Some q \<and> sq_elapsedMs q < SUBMISSION_WINDOW_MS)"
  by (simp_all add: deposit_stage_def split: option.splits if_splits submission_check.splits)

lemma bitcoin_confirmed:
  "bitcoin_reads r = Inr (Some s, tip) \<Longrightarrow> sr_bitcoinTx r = Inr (Some s) \<and> (confirmed s \<longrightarrow> (\<exists>t. tip = Some t \<and> sr_bitcoinTip r = Inr t))"
  by (cases "sr_bitcoinTx r"; cases "sr_bitcoinTip r") (auto simp: bitcoin_reads_def split: option.splits if_splits)

lemma deposit_stage_facts:
  assumes status: "computeStatus r (hex_of_bytes btc) query = Inr st"
    and reads: "sr_submission r = checkDepositSubmission sha getTransaction contractId (toInternalTxid (hex_of_bytes btc))"
  shows "(ds_stage st = Verified) = (\<exists>record. sr_registration r = Inr (Registered record))"
    and "ds_stage st = Ready \<Longrightarrow> \<exists>tx tip b. sr_bitcoinTx r = Inr (Some tx) \<and> confirmed tx \<and> block_height tx = Some b \<and> sr_bitcoinTip r = Inr tip
      \<and> ds_required st \<le> max 1 (tip - b + 1) \<and> (\<forall>l. sr_lightClientTip r = Some l \<longrightarrow> b + ds_required st - 1 \<le> l)"
    and "ds_submission st = Some sb \<Longrightarrow> sb_status sb \<noteq> NotFound \<Longrightarrow>
      \<exists>tx. getTransaction (sb_stellarTxHash sb) = Inr (Found tx) \<and> deposits sha contractId (ft_envelope tx) (rev btc) \<and> ft_success tx = (sb_status sb = Success)"
    and "ds_stage st = Failed \<Longrightarrow> \<exists>sb. ds_submission st = Some sb \<and> sb_status sb = FailedTx"
    and "ds_stellarTxHash st = Some h \<Longrightarrow> (\<exists>e. sr_registration r = Inr (Registered (Some e)) \<and> h = pe_stellarTxHash e)
      \<or> (\<exists>tx. getTransaction h = Inr (Found tx) \<and> ft_success tx \<and> deposits sha contractId (ft_envelope tx) (rev btc))"
proof -
  from compute_parts [OF status] obtain registration check where all: "status_parts r query st registration check" by blast
  note parts = all [unfolded status_parts_def, THEN conjunct1] all [unfolded status_parts_def, THEN conjunct2, THEN conjunct2, THEN conjunct2, THEN conjunct1]
    all [unfolded status_parts_def, THEN conjunct2, THEN conjunct2, THEN conjunct2, THEN conjunct2, THEN conjunct1]
    all [unfolded status_parts_def, THEN conjunct2, THEN conjunct2, THEN conjunct2, THEN conjunct2, THEN conjunct2, THEN conjunct1]
  note stage = all [unfolded status_parts_def, THEN conjunct2, THEN conjunct2, THEN conjunct2, THEN conjunct2, THEN conjunct2, THEN conjunct2]
  have internal: "toInternalTxid (hex_of_bytes btc) = hex_of_bytes (rev btc)" by (simp add: toInternalTxid_def)
  note trust = check_trusts_deposits [of sha getTransaction contractId "rev btc"]
  have success: "\<exists>tx. getTransaction (sq_hash q) = Inr (Found tx) \<and> ft_success tx \<and> deposits sha contractId (ft_envelope tx) (rev btc)"
    if "query = Some q" "check = Some (CheckSuccess l c)" for q l c
    using trust(1) [of "sq_hash q" "CheckSuccess l c" l c] parts(2) that by (simp add: reads internal)
  have failed: "\<exists>tx. getTransaction (sq_hash q) = Inr (Found tx) \<and> \<not> ft_success tx \<and> deposits sha contractId (ft_envelope tx) (rev btc)"
    if "query = Some q" "check = Some (CheckFailed l c f)" for q l c f
    using trust(2) [of "sq_hash q" "CheckFailed l c f" l c f] parts(2) that by (simp add: reads internal)
  show "(ds_stage st = Verified) = (\<exists>record. sr_registration r = Inr (Registered record))"
  proof -
    have "(ds_stage st = Verified) = (registration \<noteq> Unregistered)" using stage stage_iff(1) by metis
    then show ?thesis using parts(1) by (cases registration) simp_all
  qed
  show "\<exists>tx tip b. sr_bitcoinTx r = Inr (Some tx) \<and> confirmed tx \<and> block_height tx = Some b \<and> sr_bitcoinTip r = Inr tip
      \<and> ds_required st \<le> max 1 (tip - b + 1) \<and> (\<forall>l. sr_lightClientTip r = Some l \<longrightarrow> b + ds_required st - 1 \<le> l)" if "ds_stage st = Ready"
  proof -
    define ready where "ready tip \<longleftrightarrow> proof_ready (ds_required st) (ds_blockHeight st) (confirmations_of (ds_blockHeight st) tip)
            (if ds_blockHeight st \<noteq> None \<and> ds_required st \<le> confirmations_of (ds_blockHeight st) tip then sr_lightClientTip r else None)" for tip
    have "ds_stage st \<noteq> Verified" using that by simp
    with stage obtain tx tip where x: "bitcoin_reads r = Inr (tx, tip)"
      "ds_blockHeight st = (case tx of Some s \<Rightarrow> if confirmed s then block_height s else None | None \<Rightarrow> None)"
      and st: "ds_stage st = deposit_stage registration check (ds_blockHeight st) query tx (ready tip)"
      unfolding ready_def by blast
    from stage_iff(2) [OF trans [OF st [symmetric] that]] have ready: "proof_ready (ds_required st) (ds_blockHeight st) (confirmations_of (ds_blockHeight st) tip)
            (if ds_blockHeight st \<noteq> None \<and> ds_required st \<le> confirmations_of (ds_blockHeight st) tip then sr_lightClientTip r else None)"
      unfolding ready_def by blast
    from ready obtain b where b: "ds_blockHeight st = Some b" by (auto simp: proof_ready_def split: option.splits)
    with x(2) obtain s where s: "tx = Some s" "confirmed s" "block_height s = Some b" by (auto split: option.splits if_splits)
    from bitcoin_confirmed x(1) s obtain t where t: "tip = Some t" "sr_bitcoinTip r = Inr t" "sr_bitcoinTx r = Inr (Some s)" by blast
    from ready show ?thesis using s t b by (auto simp: proof_ready_def confirmations_of_def split: option.splits)
  qed
  show "\<exists>tx. getTransaction (sb_stellarTxHash sb) = Inr (Found tx) \<and> deposits sha contractId (ft_envelope tx) (rev btc) \<and> ft_success tx = (sb_status sb = Success)"
    if "ds_submission st = Some sb" "sb_status sb \<noteq> NotFound"
  proof -
    from that(1) parts(3) obtain q c where q: "query = Some q" "check = Some c" "sb = submissionView (sq_hash q) c" by (auto split: option.splits)
    show ?thesis
    proof (cases c)
      case (CheckSuccess l t)
      then show ?thesis using success [OF q(1), of l t] q(2,3) by auto
    next
      case (CheckFailed l t f)
      then show ?thesis using failed [OF q(1), of l t f] q(2,3) by auto
    qed (use that(2) q(3) in auto)
  qed
  show "\<exists>sb. ds_submission st = Some sb \<and> sb_status sb = FailedTx" if "ds_stage st = Failed"
  proof -
    have "\<exists>l c f. check = Some (CheckFailed l c f)"
      using stage that by (metis stage.distinct stage_iff(3))
    with parts(2,3) show ?thesis by (auto split: option.splits)
  qed
  show "(\<exists>e. sr_registration r = Inr (Registered (Some e)) \<and> h = pe_stellarTxHash e)
      \<or> (\<exists>tx. getTransaction h = Inr (Found tx) \<and> ft_success tx \<and> deposits sha contractId (ft_envelope tx) (rev btc))" if "ds_stellarTxHash st = Some h"
    using that parts(1,4) success
    by (cases registration) (auto simp: verified_fields_def split: option.splits submission_check.splits)
qed


text \<open>A failed deposit call, read back by the hash the caller gives; in this instance hashing does nothing.\<close>

definition sx_tx :: found_tx where
  "sx_tx = \<lparr>ft_success = False, ft_ledger = 9, ft_createdAt = 0,
     ft_envelope = EnvelopeFeeBump [OtherOperation, InvokeContract \<lparr>cc_contract = ''C'', cc_function = ''deposit'',
       cc_args = [ScvOther, ScvOther, ScvOther, ScvOther, ScvBytes [1, 2]]\<rparr>],
     ft_result = Direct \<lparr>ir_code = ''txFailed'', ir_results = []\<rparr>,
     ft_diagnostics = Some [\<lparr>dg_emitter = Some ''D'', dg_topics = [Some (SceContract 4)]\<rparr>, \<lparr>dg_emitter = Some ''C'', dg_topics = [None, Some (SceContract 21)]\<rparr>]\<rparr>"

definition sx_reads :: "registration \<Rightarrow> status_reads" where
  "sx_reads reg = \<lparr>sr_required = Inr 2, sr_registration = Inr reg,
     sr_submission = checkDepositSubmission (\<lambda>b. b) (\<lambda>h. Inr (if h = ''ab'' then Found sx_tx else LookupNotFound)) ''C'' (toInternalTxid (hex_of_bytes [2, 1])),
     sr_bitcoinTx = Inr (Some \<lparr>confirmed = True, block_height = Some 100\<rparr>), sr_bitcoinTip = Inr 101, sr_lightClientTip = Some 101\<rparr>"


section \<open>How long a hash is believed\<close>

lemma ttl_get_same:
  assumes "ttl_get key t es = (Some v, es')" "js_ok es"
  shows "js_get es' k = js_get es k" "\<exists>e. js_get es key = Some e \<and> ce_value e = v \<and> t < ce_expiresAt e"
  using assms by (auto simp: ttl_get_def js_get_delete map_add_def split: option.splits if_splits)

lemma ttl_get_none:
  assumes "ttl_get key t es = (None, es')" "js_ok es"
  shows "js_get es' k = (if k = key then None else js_get es k)" "js_get es key = None \<or> (\<exists>e. js_get es key = Some e \<and> ce_expiresAt e \<le> t)"
  using assms by (auto simp: ttl_get_def js_get_delete split: option.splits if_splits)

lemma evict_few: "length es \<le> n \<Longrightarrow> evict n es = es"
  by (cases es) auto

lemma ttl_set_room:
  assumes "js_ok es" "set (js_keys es) \<subseteq> K" "key \<in> K" "finite K" "card K \<le> n" "0 < ttl"
  shows "js_get (ttl_set n key v ttl t es) k = (if k = key then Some \<lparr>ce_value = v, ce_expiresAt = t + ttl\<rparr> else js_get es k)"
    "set (js_keys (ttl_set n key v ttl t es)) \<subseteq> K" "js_ok (ttl_set n key v ttl t es)"
proof -
  let ?es = "js_delete key es @ [(key, \<lparr>ce_value = v, ce_expiresAt = t + ttl\<rparr>)]"
  have ok: "js_ok ?es" by (rule js_ok_requeue [OF assms(1)])
  have sub: "set (js_keys ?es) \<subseteq> K" using assms(2,3) by (auto simp: js_delete_filter)
  have "length ?es = card (set (js_keys ?es))" using ok unfolding js_ok_def by (metis distinct_card length_map)
  also have "\<dots> \<le> n" using card_mono [OF assms(4) sub] assms(5) by simp
  finally have "evict n ?es = ?es" by (rule evict_few)
  moreover have "0 < n" using assms(3-5) by (metis card_gt_0_iff empty_iff gr0I le_zero_eq)
  ultimately have set: "ttl_set n key v ttl t es = ?es" using assms(6) by (simp add: ttl_set_def)
  show "js_get (ttl_set n key v ttl t es) k = (if k = key then Some \<lparr>ce_value = v, ce_expiresAt = t + ttl\<rparr> else js_get es k)"
    unfolding set by (simp add: js_get_delete map_add_def split: option.split)
  show "set (js_keys (ttl_set n key v ttl t es)) \<subseteq> K" "js_ok (ttl_set n key v ttl t es)" unfolding set by (fact sub, fact ok)
qed

record status_request =
  rq_display :: string
  rq_stellarTx :: query_param
  rq_start :: int
  rq_end :: int
  rq_reads :: status_reads

fun status_run :: "status_request list \<Rightarrow> status_state \<Rightarrow> status_answer list" where
  "status_run [] s = []"
| "status_run (q # qs) s =
     (case depositStatus True (rq_reads q) (rq_display q) (rq_stellarTx q) (rq_start q) (rq_end q) s of (a, s') \<Rightarrow> a # status_run qs s')"

text \<open>The key a well-formed request names a hash under.\<close>

definition named :: "status_request \<Rightarrow> string option" where
  "named q = (case rq_stellarTx q of
     Param h \<Rightarrow> if isTxid (rq_display q) \<and> isTxid h then Some (status_key (toLowerCase (rq_display q)) (Some (toLowerCase h))) else None
   | _ \<Rightarrow> None)"

definition named_keys :: "status_request list \<Rightarrow> string set" where
  "named_keys qs = set (List.map_filter named qs)"

text \<open>The answer is \<^verbatim>\<open>submitted\<close> only because the caller says so: the RPC does not hold the transaction.\<close>

definition on_trust :: "deposit_status \<Rightarrow> bool" where
  "on_trust st \<longleftrightarrow> ds_stage st = Submitted \<and> (case ds_submission st of Some sb \<Rightarrow> sb_status sb = NotFound | None \<Rightarrow> False)"

lemma on_trust_compute:
  assumes "computeStatus r display query = Inr st" "on_trust st"
  shows "\<exists>q. query = Some q \<and> sq_elapsedMs q < SUBMISSION_WINDOW_MS"
proof -
  from compute_parts [OF assms(1)] obtain registration check where all: "status_parts r query st registration check" by blast
  note parts = all [unfolded status_parts_def, THEN conjunct2, THEN conjunct2, THEN conjunct2, THEN conjunct2, THEN conjunct1]
  note stage = all [unfolded status_parts_def, THEN conjunct2, THEN conjunct2, THEN conjunct2, THEN conjunct2, THEN conjunct2, THEN conjunct2]
  from assms(2) parts have "\<not> (\<exists>l c. check = Some (CheckSuccess l c))" by (auto simp: on_trust_def split: option.splits)
  moreover from assms(2) stage obtain tx x where "ds_stage st = deposit_stage registration check (ds_blockHeight st) query tx x"
    by (auto simp: on_trust_def)
  ultimately show ?thesis using stage_iff(4) [of registration check "ds_blockHeight st" query tx x] assms(2) by (auto simp: on_trust_def)
qed

lemma ttl_set_get:
  assumes "js_ok es"
  shows "js_get (ttl_set n key v ttl t es) k = Some e \<Longrightarrow> js_get es k = Some e \<or> k = key \<and> e = \<lparr>ce_value = v, ce_expiresAt = t + ttl\<rparr>"
    "js_ok (ttl_set n key v ttl t es)"
proof -
  let ?es = "js_delete key es @ [(key, \<lparr>ce_value = v, ce_expiresAt = t + ttl\<rparr>)]"
  have ok: "js_ok ?es" by (rule js_ok_requeue [OF assms])
  show "js_ok (ttl_set n key v ttl t es)" using assms evict_distinct [OF ok] by (simp add: ttl_set_def)
  show "js_get es k = Some e \<or> k = key \<and> e = \<lparr>ce_value = v, ce_expiresAt = t + ttl\<rparr>" if "js_get (ttl_set n key v ttl t es) k = Some e"
  proof -
    from map_of_SomeD [OF that] have "(k, e) \<in> set es \<or> (k, e) \<in> set ?es"
      using evict_set [of n ?es] by (auto simp: ttl_set_def simp del: evict.simps split: if_splits)
    then have "(k, e) \<in> set es \<or> k = key \<and> e = \<lparr>ce_value = v, ce_expiresAt = t + ttl\<rparr>" by (auto simp: js_delete_filter)
    then show ?thesis using js_ok_get [OF assms] by blast
  qed
qed

lemma js_keys_dom: "set (js_keys m) = {k. js_get m k \<noteq> None}"
  by (auto simp: map_of_eq_None_iff)

lemma ttl_get_ok: "js_ok es \<Longrightarrow> js_ok (snd (ttl_get key t es))"
  using js_ok_requeue [of es key] js_ok_delete [of es key] by (auto simp: ttl_get_def split: option.split)

lemma ttl_get_sub: "js_ok es \<Longrightarrow> js_get (snd (ttl_get key t es)) k = Some e \<Longrightarrow> js_get es k = Some e"
  by (auto simp: ttl_get_def js_get_delete map_add_def split: option.splits if_splits)

lemma first_seen_step:
  assumes fs: "js_ok fs" "set (js_keys fs) \<subseteq> K" and K: "key \<in> K" "finite K" "card K \<le> 10000"
    and young: "\<And>f. js_get fs key = Some f \<Longrightarrow> t < ce_expiresAt f"
    and step: "first_seen key t fs = (since, fs')"
  shows "js_ok fs'" "set (js_keys fs') \<subseteq> K"
    "\<exists>f. js_get fs' key = Some f \<and> ce_value f = since"
    "js_get fs k = Some f \<Longrightarrow> js_get fs' k = Some f"
    "js_get fs' k = Some f \<Longrightarrow> js_get fs k = Some f \<or> k = key \<and> f = \<lparr>ce_value = t, ce_expiresAt = t + FIRST_SEEN_TTL_MS\<rparr>"
proof -
  obtain v fs1 where get: "ttl_get key t fs = (v, fs1)" by fastforce
  have ok1: "js_ok fs1" using ttl_get_ok [OF fs(1), of key t] get by simp
  have "js_ok fs' \<and> set (js_keys fs') \<subseteq> K \<and> (\<exists>f. js_get fs' key = Some f \<and> ce_value f = since)
    \<and> (\<forall>k f. js_get fs k = Some f \<longrightarrow> js_get fs' k = Some f)
    \<and> (\<forall>k f. js_get fs' k = Some f \<longrightarrow> js_get fs k = Some f \<or> k = key \<and> f = \<lparr>ce_value = t, ce_expiresAt = t + FIRST_SEEN_TTL_MS\<rparr>)"
  proof (cases v)
    case (Some x)
    with get step have x: "since = x" "fs' = fs1" by (simp_all add: first_seen_def)
    note same = ttl_get_same [OF get [unfolded Some] fs(1)]
    have "set (js_keys fs1) = set (js_keys fs)" unfolding js_keys_dom same(1) ..
    with x same ok1 fs(2) show ?thesis by auto
  next
    case None
    with get step have x: "since = t" "fs' = ttl_set 10000 key t FIRST_SEEN_TTL_MS t fs1" by (auto simp: first_seen_def)
    note gone = ttl_get_none [OF get [unfolded None] fs(1)]
    have none: "js_get fs key = None" using gone(2) young by fastforce
    have "set (js_keys fs1) \<subseteq> set (js_keys fs)" unfolding js_keys_dom gone(1) by auto
    with fs(2) have "set (js_keys fs1) \<subseteq> K" by blast
    note room = ttl_set_room [OF ok1 this K, of FIRST_SEEN_TTL_MS t t]
    show ?thesis unfolding x using room none by (auto simp: FIRST_SEEN_TTL_MS_def gone(1))
  qed
  then show "js_ok fs'" "set (js_keys fs') \<subseteq> K" "\<exists>f. js_get fs' key = Some f \<and> ce_value f = since"
    "js_get fs k = Some f \<Longrightarrow> js_get fs' k = Some f"
    "js_get fs' k = Some f \<Longrightarrow> js_get fs k = Some f \<or> k = key \<and> f = \<lparr>ce_value = t, ce_expiresAt = t + FIRST_SEEN_TTL_MS\<rparr>" by blast+
qed


definition seen_ok :: "int \<Rightarrow> int \<Rightarrow> string set \<Rightarrow> int entries \<Rightarrow> bool" where
  "seen_ok T now K fs \<longleftrightarrow> js_ok fs \<and> set (js_keys fs) \<subseteq> K
   \<and> (\<forall>key f. js_get fs key = Some f \<longrightarrow> T + FIRST_SEEN_TTL_MS \<le> ce_expiresAt f \<and> ce_value f \<le> now)"

lemma status_query_step:
  assumes old: "seen_ok T now K fs" and K: "hash \<noteq> None \<Longrightarrow> status_key display hash \<in> K" "finite K" "card K \<le> 10000"
    and time: "T \<le> t" "now \<le> t" "t < T + FIRST_SEEN_TTL_MS" and step: "status_query display hash t fs = (query, fs')"
  shows "seen_ok T t K fs'" "js_get fs k = Some f \<Longrightarrow> js_get fs' k = Some f" "hash = None \<Longrightarrow> query = None"
    "hash = Some h \<Longrightarrow> \<exists>f. js_get fs' (status_key display hash) = Some f \<and> query = Some \<lparr>sq_hash = h, sq_elapsedMs = t - ce_value f\<rparr>"
proof -
  have "seen_ok T t K fs' \<and> (\<forall>k f. js_get fs k = Some f \<longrightarrow> js_get fs' k = Some f) \<and> (hash = None \<longrightarrow> query = None)
    \<and> (\<forall>h. hash = Some h \<longrightarrow> (\<exists>f. js_get fs' (status_key display hash) = Some f \<and> query = Some \<lparr>sq_hash = h, sq_elapsedMs = t - ce_value f\<rparr>))"
  proof (cases hash)
    case None
    with step have "fs' = fs" "query = None" by (simp_all add: status_query_def)
    with None old time(2) show ?thesis unfolding seen_ok_def by (metis option.distinct(1) order_trans)
  next
    case (Some h)
    obtain since fs'' where seen: "first_seen (status_key display hash) t fs = (since, fs'')" by fastforce
    with step Some have q: "query = Some \<lparr>sq_hash = h, sq_elapsedMs = t - since\<rparr>" "fs' = fs''" by (simp_all add: status_query_def)
    have ok: "js_ok fs" "set (js_keys fs) \<subseteq> K" "\<And>key f. js_get fs key = Some f \<Longrightarrow> T + FIRST_SEEN_TTL_MS \<le> ce_expiresAt f \<and> ce_value f \<le> now"
      using old unfolding seen_ok_def by blast+
    have young: "t < ce_expiresAt f" if "js_get fs (status_key display hash) = Some f" for f using ok(3) [OF that] time(3) by linarith
    have "status_key display hash \<in> K" using K(1) Some by blast
    note new = first_seen_step [OF ok(1,2) this K(2,3) young seen]
    have "T + FIRST_SEEN_TTL_MS \<le> ce_expiresAt f \<and> ce_value f \<le> t" if "js_get fs'' k = Some f" for k f
    proof -
      have "js_get fs k = Some f \<or> k = status_key display hash \<and> f = \<lparr>ce_value = t, ce_expiresAt = t + FIRST_SEEN_TTL_MS\<rparr>" by (rule new(5)) (fact that | simp)+
      then show ?thesis using ok(3) [of k f] time(1,2) by auto
    qed
    moreover have "js_ok fs''" "set (js_keys fs'') \<subseteq> K" by (rule new(1), simp, rule new(2), simp)
    ultimately have "seen_ok T t K fs''" unfolding seen_ok_def by blast
    moreover have "js_get fs'' k = Some f" if "js_get fs k = Some f" for k f by (rule new(4)) (fact that | simp)+
    moreover obtain f where "js_get fs'' (status_key display hash) = Some f" "ce_value f = since" using new(3) by blast
    ultimately show ?thesis using q Some by blast
  qed
  then show "seen_ok T t K fs'" "js_get fs k = Some f \<Longrightarrow> js_get fs' k = Some f" "hash = None \<Longrightarrow> query = None"
    "hash = Some h \<Longrightarrow> \<exists>f. js_get fs' (status_key display hash) = Some f \<and> query = Some \<lparr>sq_hash = h, sq_elapsedMs = t - ce_value f\<rparr>" by blast+
qed

text \<open>
  While at most 10000 hashes were named, all since \<open>T\<close>: every hash's first naming is remembered, and an answer given on trust
  is not kept past the window.
\<close>

definition cache_kept :: "int \<Rightarrow> deposit_status entries \<Rightarrow> int entries \<Rightarrow> bool" where
  "cache_kept d c fs \<longleftrightarrow> js_ok c \<and> (\<forall>key e. js_get c key = Some e \<and> length key \<noteq> 64 \<longrightarrow> (\<exists>f. js_get fs key = Some f
     \<and> (on_trust (ce_value e) \<longrightarrow> ce_expiresAt e \<le> ce_value f + SUBMISSION_WINDOW_MS + STATUS_TTL_MS + d)))"

definition status_inv :: "int \<Rightarrow> int \<Rightarrow> string set \<Rightarrow> int \<Rightarrow> (string \<times> int) set \<Rightarrow> status_state \<Rightarrow> bool" where
  "status_inv T d K now past s \<longleftrightarrow> seen_ok T now K (rs_firstSeen s) \<and> cache_kept d (rs_cache s) (rs_firstSeen s)
   \<and> (\<forall>key t. (key, t) \<in> past \<longrightarrow> (\<exists>f. js_get (rs_firstSeen s) key = Some f \<and> ce_value f \<le> t))"

lemma cache_kept_grow:
  "cache_kept d c fs \<Longrightarrow> (\<And>k f. js_get fs k = Some f \<Longrightarrow> js_get fs' k = Some f) \<Longrightarrow> cache_kept d c fs'"
  unfolding cache_kept_def by blast

lemma cache_kept_get: "cache_kept d c fs \<Longrightarrow> cache_kept d (snd (ttl_get key t c)) fs"
  unfolding cache_kept_def using ttl_get_ok ttl_get_sub by metis

lemma cache_kept_set:
  assumes "cache_kept d c fs" "length key \<noteq> 64 \<Longrightarrow> \<exists>f. js_get fs key = Some f \<and> (on_trust st \<longrightarrow> t + ttl \<le> ce_value f + SUBMISSION_WINDOW_MS + STATUS_TTL_MS + d)"
  shows "cache_kept d (ttl_set n key st ttl t c) fs"
proof -
  have ok: "js_ok c" using assms(1) by (simp add: cache_kept_def)
  show ?thesis
    unfolding cache_kept_def
  proof (intro conjI allI impI)
    fix k e assume e: "js_get (ttl_set n key st ttl t c) k = Some e \<and> length k \<noteq> 64"
    from ttl_set_get(1) [OF ok conjunct1 [OF e]]
    show "\<exists>f. js_get fs k = Some f \<and> (on_trust (ce_value e) \<longrightarrow> ce_expiresAt e \<le> ce_value f + SUBMISSION_WINDOW_MS + STATUS_TTL_MS + d)"
    proof
      assume "js_get c k = Some e"
      then show ?thesis using assms(1) e unfolding cache_kept_def by blast
    next
      assume "k = key \<and> e = \<lparr>ce_value = st, ce_expiresAt = t + ttl\<rparr>"
      then show ?thesis using assms(2) e by simp
    qed
  qed (rule ttl_set_get(2) [OF ok])
qed

lemma length_key:
  "isTxid display \<Longrightarrow> length (status_key (toLowerCase display) None) = 64"
  "isTxid display \<Longrightarrow> length (status_key (toLowerCase display) (Some h)) \<noteq> 64"
  by (simp_all add: status_key_def isTxid_def toLowerCase_def)

text \<open>The hash a request names.\<close>

definition named_hash :: "query_param \<Rightarrow> string option" where
  "named_hash p = (case p of Param h \<Rightarrow> Some (toLowerCase h) | _ \<Rightarrow> None)"

definition well_formed :: "status_request \<Rightarrow> bool" where
  "well_formed q \<longleftrightarrow> isTxid (rq_display q) \<and> (case rq_stellarTx q of Absent \<Rightarrow> True | Param h \<Rightarrow> isTxid h | Malformed \<Rightarrow> False)"

abbreviation key_of :: "status_request \<Rightarrow> string" where
  "key_of q \<equiv> status_key (toLowerCase (rq_display q)) (named_hash (rq_stellarTx q))"

lemma named_key: "named q = Some k \<longleftrightarrow> well_formed q \<and> named_hash (rq_stellarTx q) \<noteq> None \<and> k = key_of q"
  by (auto simp: named_def well_formed_def named_hash_def split: query_param.splits)

lemma key_length: "well_formed q \<Longrightarrow> length (key_of q) \<noteq> 64 \<longleftrightarrow> named_hash (rq_stellarTx q) \<noteq> None"
  using length_key [of "rq_display q"] by (cases "named_hash (rq_stellarTx q)") (auto simp: well_formed_def)

text \<open>A well-formed request is answered from the cache, or by a computation.\<close>

lemma depositStatus_cases:
  assumes "depositStatus True r (rq_display q) (rq_stellarTx q) t t' s = (a, s')" "well_formed q"
  obtains (Hit) st where "ttl_get (key_of q) t (rs_cache s) = (Some st, rs_cache s')" "a = Status st" "rs_firstSeen s' = rs_firstSeen s"
  | (Fail) query e where "status_query (toLowerCase (rq_display q)) (named_hash (rq_stellarTx q)) t (rs_firstSeen s) = (query, rs_firstSeen s')"
      "rs_cache s' = snd (ttl_get (key_of q) t (rs_cache s))" "a = status_failure e"
  | (Compute) query st where "status_query (toLowerCase (rq_display q)) (named_hash (rq_stellarTx q)) t (rs_firstSeen s) = (query, rs_firstSeen s')"
      "computeStatus r (toLowerCase (rq_display q)) query = Inr st" "a = Status st"
      "rs_cache s' = ttl_set 1000 (key_of q) st STATUS_TTL_MS t' (snd (ttl_get (key_of q) t (rs_cache s)))"
proof -
  obtain v c where get: "ttl_get (key_of q) t (rs_cache s) = (v, c)" by fastforce
  obtain query fs where q: "status_query (toLowerCase (rq_display q)) (named_hash (rq_stellarTx q)) t (rs_firstSeen s) = (query, fs)" by fastforce
  have step: "(case (v, c) of
          (Some st, c) \<Rightarrow> (Status st, s\<lparr>rs_cache := c\<rparr>)
        | (None, c) \<Rightarrow>
            (case (query, fs) of (query, fs) \<Rightarrow>
             (case computeStatus r (toLowerCase (rq_display q)) query of
                Inl e \<Rightarrow> (status_failure e, s\<lparr>rs_cache := c, rs_firstSeen := fs\<rparr>)
              | Inr st \<Rightarrow> (Status st, s\<lparr>rs_cache := ttl_set 1000 (key_of q) st STATUS_TTL_MS t' c, rs_firstSeen := fs\<rparr>)))) = (a, s')"
    using assms unfolding depositStatus_def Let_def named_hash_def [symmetric] get q by (simp add: well_formed_def split: query_param.splits)
  show ?thesis
  proof (cases v)
    case (Some st)
    then show ?thesis using step get by (intro Hit [of st]) auto
  next
    case None
    show ?thesis
    proof (cases "computeStatus r (toLowerCase (rq_display q)) query")
      case (Inl e)
      then show ?thesis using step get q None by (intro Fail [of query e]) auto
    next
      case (Inr st)
      then show ?thesis using step get q None by (intro Compute [of query st]) auto
    qed
  qed
qed

lemma status_step:
  assumes inv: "status_inv T d K now past s" and K: "finite K" "card K \<le> 10000" "\<And>k. named q = Some k \<Longrightarrow> k \<in> K"
    and time: "T \<le> rq_start q" "rq_start q < T + FIRST_SEEN_TTL_MS" "rq_end q \<le> rq_start q + d" "now \<le> rq_start q" "rq_start q \<le> rq_end q"
    and step: "depositStatus True (rq_reads q) (rq_display q) (rq_stellarTx q) (rq_start q) (rq_end q) s = (a, s')" and wf: "well_formed q"
  shows "status_inv T d K (rq_start q) (past \<union> {(k, rq_start q) | k. named q = Some k}) s'
    \<and> (\<forall>st k. a = Status st \<and> on_trust st \<and> named q = Some k \<longrightarrow>
      (\<exists>f. js_get (rs_firstSeen s') k = Some f \<and> rq_start q < ce_value f + SUBMISSION_WINDOW_MS + STATUS_TTL_MS + d))"
proof -
  let ?t = "rq_start q" let ?K = "key_of q" let ?new = "{(k, ?t) | k. named q = Some k}"
  have seen: "seen_ok T now K (rs_firstSeen s)" and cache: "cache_kept d (rs_cache s) (rs_firstSeen s)"
    and past: "\<And>k u. (k, u) \<in> past \<Longrightarrow> \<exists>f. js_get (rs_firstSeen s) k = Some f \<and> ce_value f \<le> u"
    using inv unfolding status_inv_def by blast+
  have new: "named q = Some k \<longleftrightarrow> named_hash (rq_stellarTx q) \<noteq> None \<and> k = ?K" for k using named_key wf by blast
  have long: "length ?K \<noteq> 64 \<longleftrightarrow> named_hash (rq_stellarTx q) \<noteq> None" by (rule key_length [OF wf])
  have inK: "named_hash (rq_stellarTx q) \<noteq> None \<Longrightarrow> ?K \<in> K" using new K(3) by blast
  have d: "0 \<le> d + STATUS_TTL_MS" using time(3,5) by (simp add: STATUS_TTL_MS_def)
  have add_past: "\<exists>f. js_get (rs_firstSeen s') k = Some f \<and> ce_value f \<le> u"
    if "(k, u) \<in> past \<union> ?new" "\<And>k f. js_get (rs_firstSeen s) k = Some f \<Longrightarrow> js_get (rs_firstSeen s') k = Some f"
      "named_hash (rq_stellarTx q) \<noteq> None \<Longrightarrow> \<exists>f. js_get (rs_firstSeen s') ?K = Some f \<and> ce_value f \<le> ?t" for k u
  proof (cases "(k, u) \<in> past")
    case True
    from past [OF this] that(2) show ?thesis by blast
  next
    case False
    with that(1) have "u = ?t" "named q = Some k" by blast+
    from this(2) have k: "named_hash (rq_stellarTx q) \<noteq> None" "k = ?K" using new by blast+
    from that(3) [OF k(1)] show ?thesis unfolding k(2) \<open>u = ?t\<close> .
  qed
  from step wf show ?thesis
  proof (cases rule: depositStatus_cases)
    case (Hit st)
    have f: "\<exists>f. js_get (rs_firstSeen s) ?K = Some f \<and> ce_value f \<le> ?t \<and> (on_trust st \<longrightarrow> ?t < ce_value f + SUBMISSION_WINDOW_MS + STATUS_TTL_MS + d)"
      if "named_hash (rq_stellarTx q) \<noteq> None"
    proof -
      obtain e where e: "js_get (rs_cache s) ?K = Some e" "ce_value e = st" "?t < ce_expiresAt e"
        using ttl_get_same(2) [OF Hit(1)] cache by (auto simp: cache_kept_def)
      with cache that long obtain f where f: "js_get (rs_firstSeen s) ?K = Some f"
        "on_trust st \<longrightarrow> ce_expiresAt e \<le> ce_value f + SUBMISSION_WINDOW_MS + STATUS_TTL_MS + d" unfolding cache_kept_def by blast
      with seen time(4) have "ce_value f \<le> ?t" unfolding seen_ok_def by fastforce
      with f e(3) show ?thesis by (intro exI [of _ f]) auto
    qed
    have "seen_ok T ?t K (rs_firstSeen s')" using seen time(4) unfolding Hit(3) seen_ok_def by (meson order_trans)
    moreover have "cache_kept d (rs_cache s') (rs_firstSeen s')" using cache_kept_get [OF cache, of ?K ?t] by (simp add: Hit)
    moreover have "\<exists>f. js_get (rs_firstSeen s') k = Some f \<and> ce_value f \<le> u" if "(k, u) \<in> past \<union> ?new" for k u
      using add_past [OF that] f by (auto simp: Hit(3))
    ultimately show ?thesis unfolding status_inv_def using f Hit(2,3) new by auto
  next
    case (Fail query e)
    note grow = status_query_step [OF seen inK K(1,2) time(1,4,2) Fail(1)]
    have "cache_kept d (rs_cache s') (rs_firstSeen s')" unfolding Fail(2) by (rule cache_kept_grow [OF cache_kept_get [OF cache] grow(2)])
    moreover have "\<exists>f. js_get (rs_firstSeen s') k = Some f \<and> ce_value f \<le> u" if "(k, u) \<in> past \<union> ?new" for k u
      using add_past [OF that grow(2)] grow(1,4) unfolding seen_ok_def by blast
    moreover have "a \<noteq> Status st" for st unfolding Fail(3) by (cases e) auto
    ultimately show ?thesis unfolding status_inv_def using grow(1) by blast
  next
    case (Compute query st)
    note grow = status_query_step [OF seen inK K(1,2) time(1,4,2) Compute(1)]
    have f: "\<exists>f. js_get (rs_firstSeen s') ?K = Some f \<and> ce_value f \<le> ?t \<and> (on_trust st \<longrightarrow> ?t < ce_value f + SUBMISSION_WINDOW_MS)"
      if hash: "named_hash (rq_stellarTx q) \<noteq> None"
    proof -
      from hash grow(4) obtain f h where f: "js_get (rs_firstSeen s') ?K = Some f" "query = Some \<lparr>sq_hash = h, sq_elapsedMs = ?t - ce_value f\<rparr>" by blast
      then have "ce_value f \<le> ?t" using grow(1) unfolding seen_ok_def by blast
      moreover have "?t < ce_value f + SUBMISSION_WINDOW_MS" if "on_trust st" using on_trust_compute [OF Compute(2) that] f(2) by auto
      ultimately show ?thesis using f(1) by blast
    qed
    have "cache_kept d (rs_cache s') (rs_firstSeen s')" unfolding Compute(4)
    proof (rule cache_kept_set [OF cache_kept_grow [OF cache_kept_get [OF cache] grow(2)]])
      assume "length ?K \<noteq> 64"
      with long f obtain f where f: "js_get (rs_firstSeen s') ?K = Some f" "on_trust st \<longrightarrow> ?t < ce_value f + SUBMISSION_WINDOW_MS" by blast
      with time(3) show "\<exists>f. js_get (rs_firstSeen s') ?K = Some f \<and> (on_trust st \<longrightarrow> rq_end q + STATUS_TTL_MS \<le> ce_value f + SUBMISSION_WINDOW_MS + STATUS_TTL_MS + d)"
        by (intro exI [of _ f]) auto
    qed
    moreover have "\<exists>f. js_get (rs_firstSeen s') k = Some f \<and> ce_value f \<le> u" if "(k, u) \<in> past \<union> ?new" for k u
      using add_past [OF that grow(2)] f by blast
    moreover have "\<exists>f. js_get (rs_firstSeen s') k = Some f \<and> ?t < ce_value f + SUBMISSION_WINDOW_MS + STATUS_TTL_MS + d"
      if "a = Status st' \<and> on_trust st' \<and> named q = Some k" for st' k
    proof -
      have "st' = st" "k = ?K" "named_hash (rq_stellarTx q) \<noteq> None" "on_trust st" using that new Compute(3) by auto
      with f obtain g where "js_get (rs_firstSeen s') ?K = Some g" "?t < ce_value g + SUBMISSION_WINDOW_MS" by blast
      with d \<open>k = ?K\<close> show ?thesis by (intro exI [of _ g]) auto
    qed
    ultimately show ?thesis unfolding status_inv_def using grow(1) by blast
  qed
qed

lemma depositStatus_rejected:
  "\<not> well_formed q \<Longrightarrow> depositStatus True r (rq_display q) (rq_stellarTx q) t t' s = (a, s') \<Longrightarrow> s' = s \<and> named q = None \<and> (\<forall>st. a \<noteq> Status st)"
  by (auto simp: depositStatus_def well_formed_def named_def split: query_param.splits if_splits)

lemma status_inv_later: "status_inv T d K now past s \<Longrightarrow> now \<le> now' \<Longrightarrow> status_inv T d K now' past s"
  unfolding status_inv_def seen_ok_def by (meson order_trans)

lemma status_step_any:
  assumes "status_inv T d K now past s" "finite K" "card K \<le> 10000" "\<And>k. named q = Some k \<Longrightarrow> k \<in> K"
    and "T \<le> rq_start q" "rq_start q < T + FIRST_SEEN_TTL_MS" "rq_end q \<le> rq_start q + d" "now \<le> rq_start q" "rq_start q \<le> rq_end q"
    and step: "depositStatus True (rq_reads q) (rq_display q) (rq_stellarTx q) (rq_start q) (rq_end q) s = (a, s')"
  shows "status_inv T d K (rq_start q) (past \<union> {(k, rq_start q) | k. named q = Some k}) s'"
    and "a = Status st \<Longrightarrow> on_trust st \<Longrightarrow> named q = Some k \<Longrightarrow> (k, u) \<in> past \<union> {(k, rq_start q) | k. named q = Some k} \<Longrightarrow>
      rq_start q < u + SUBMISSION_WINDOW_MS + STATUS_TTL_MS + d"
proof -
  have both: "status_inv T d K (rq_start q) (past \<union> {(k, rq_start q) | k. named q = Some k}) s'
    \<and> (\<forall>st k. a = Status st \<and> on_trust st \<and> named q = Some k \<longrightarrow>
      (\<exists>f. js_get (rs_firstSeen s') k = Some f \<and> rq_start q < ce_value f + SUBMISSION_WINDOW_MS + STATUS_TTL_MS + d))"
  proof (cases "well_formed q")
    case True
    show ?thesis by (rule status_step [OF assms True])
  next
    case False
    from depositStatus_rejected [OF this step] have "s' = s" "named q = None" by blast+
    then show ?thesis using status_inv_later [OF assms(1,8)] by simp
  qed
  then show inv: "status_inv T d K (rq_start q) (past \<union> {(k, rq_start q) | k. named q = Some k}) s'" by blast
  show "rq_start q < u + SUBMISSION_WINDOW_MS + STATUS_TTL_MS + d"
    if st: "a = Status st" "on_trust st" "named q = Some k" and u: "(k, u) \<in> past \<union> {(k, rq_start q) | k. named q = Some k}"
  proof -
    from both st obtain f where f: "js_get (rs_firstSeen s') k = Some f" "rq_start q < ce_value f + SUBMISSION_WINDOW_MS + STATUS_TTL_MS + d" by blast
    from inv u obtain g where "js_get (rs_firstSeen s') k = Some g" "ce_value g \<le> u" unfolding status_inv_def by blast
    with f show ?thesis by simp
  qed
qed

lemma status_run_trust:
  assumes "finite K" "card K \<le> 10000"
  shows "status_inv T d K now past s \<Longrightarrow> sorted (now # map rq_start qs) \<Longrightarrow> T \<le> now
    \<Longrightarrow> (\<And>q. q \<in> set qs \<Longrightarrow> rq_start q \<le> rq_end q \<and> rq_end q \<le> rq_start q + d \<and> rq_start q < T + FIRST_SEEN_TTL_MS \<and> (\<forall>k. named q = Some k \<longrightarrow> k \<in> K))
    \<Longrightarrow> j < length qs \<Longrightarrow> status_run qs s ! j = Status st \<Longrightarrow> on_trust st \<Longrightarrow> named (qs ! j) = Some k
    \<Longrightarrow> (k, u) \<in> past \<or> (\<exists>i\<le>j. named (qs ! i) = Some k \<and> u = rq_start (qs ! i))
    \<Longrightarrow> rq_start (qs ! j) < u + SUBMISSION_WINDOW_MS + STATUS_TTL_MS + d"
proof (induction qs arbitrary: now past s j)
  case (Cons q qs)
  obtain a s' where step: "depositStatus True (rq_reads q) (rq_display q) (rq_stellarTx q) (rq_start q) (rq_end q) s = (a, s')" by fastforce
  have q: "rq_start q \<le> rq_end q" "rq_end q \<le> rq_start q + d" "rq_start q < T + FIRST_SEEN_TTL_MS" "\<And>k. named q = Some k \<Longrightarrow> k \<in> K"
    using Cons.prems(4) [of q] by simp_all
  have times: "now \<le> rq_start q" "T \<le> rq_start q" "sorted (rq_start q # map rq_start qs)" using Cons.prems(2,3) by auto
  note new = status_step_any [OF Cons.prems(1) assms q(4) times(2) q(3,2) times(1) q(1) step]
  show ?case
  proof (cases j)
    case 0
    with Cons.prems(6-9) step show ?thesis using new(2) [of st k u] by auto
  next
    case (Suc i)
    have "(k, u) \<in> past \<union> {(k, rq_start q) | k. named q = Some k} \<or> (\<exists>i'\<le>i. named (qs ! i') = Some k \<and> u = rq_start (qs ! i'))"
    proof (cases "(k, u) \<in> past")
      case False
      with Cons.prems(9) obtain i0 where i0: "i0 \<le> j" "named ((q # qs) ! i0) = Some k" "u = rq_start ((q # qs) ! i0)" by blast
      with Suc show ?thesis by (cases i0) auto
    qed simp
    moreover have rest: "rq_start p \<le> rq_end p \<and> rq_end p \<le> rq_start p + d \<and> rq_start p < T + FIRST_SEEN_TTL_MS \<and> (\<forall>k. named p = Some k \<longrightarrow> k \<in> K)"
      if "p \<in> set qs" for p using Cons.prems(4) [of p] that by simp
    have "rq_start (qs ! i) < u + SUBMISSION_WINDOW_MS + STATUS_TTL_MS + d"
      by (rule Cons.IH [OF new(1) times(3,2) rest]) (use Cons.prems(5-8) step Suc calculation in simp_all)
    then show ?thesis using Suc by simp
  qed
qed simp

text \<open>A hash the RPC does not hold is reported as submitted for at most the submission window, and the time one answer is
  shared and computed, after the first request that named it for this deposit, however often it is named again: within a
  day of the first request and while at most 10000 hashes are named.
\<close>

theorem submission_believed_briefly:
  assumes "sorted (map rq_start qs)" "card (named_keys qs) \<le> 10000"
    and "\<And>q. q \<in> set qs \<Longrightarrow> rq_start q \<le> rq_end q \<and> rq_end q \<le> rq_start q + d \<and> rq_start q < rq_start (hd qs) + FIRST_SEEN_TTL_MS"
    and "i \<le> j" "j < length qs" "named (qs ! i) = Some key" "named (qs ! j) = Some key"
    and "status_run qs empty_status ! j = Status st" "on_trust st"
  shows "rq_start (qs ! j) < rq_start (qs ! i) + SUBMISSION_WINDOW_MS + STATUS_TTL_MS + d"
proof -
  let ?T = "rq_start (hd qs)"
  have inv: "status_inv ?T d (named_keys qs) ?T {} empty_status"
    by (simp add: status_inv_def seen_ok_def cache_kept_def empty_status_def)
  have "qs \<noteq> []" using assms(5) by auto
  then have sorted: "sorted (?T # map rq_start qs)" using assms(1) by (cases qs) auto
  have "k \<in> named_keys qs" if "q \<in> set qs" "named q = Some k" for q k using that by (auto simp: named_keys_def)
  then show ?thesis
    using status_run_trust [OF _ assms(2) inv sorted order_refl _ assms(5,8,9,7), of "rq_start (qs ! i)"] assms(3,4,6)
    by (auto simp: named_keys_def)
qed

text \<open>A transaction the network never sees, asked about again and again.\<close>

definition sx_request :: "int \<Rightarrow> status_request" where
  "sx_request t = \<lparr>rq_display = replicate 64 CHR ''a'', rq_stellarTx = Param (replicate 64 CHR ''b''), rq_start = t, rq_end = t,
     rq_reads = \<lparr>sr_required = Inr 2, sr_registration = Inr Unregistered, sr_submission = (\<lambda>h. Inr CheckNotFound),
       sr_bitcoinTx = Inr (Some \<lparr>confirmed = True, block_height = Some 100\<rparr>), sr_bitcoinTip = Inr 100, sr_lightClientTip = None\<rparr>\<rparr>"

lemma sx_hex:
  "isTxid (replicate 64 CHR ''a'')" "isTxid (replicate 64 CHR ''b'')"
  "toLowerCase (replicate 64 CHR ''a'') = replicate 64 CHR ''a''" "toLowerCase (replicate 64 CHR ''b'') = replicate 64 CHR ''b''"
  by (simp_all add: isTxid_def list_all_iff is_hex_def hex_val_def toLowerCase_def lower_char_def code_def Let_def)

lemma sx_named: "named (sx_request t) = Some (status_key (replicate 64 CHR ''a'') (Some (replicate 64 CHR ''b'')))"
  by (simp add: named_def sx_request_def sx_hex)

lemma sx_trust: "case status_run [sx_request 0, sx_request 100000] empty_status ! 1 of Status st \<Rightarrow> on_trust st | _ \<Rightarrow> False"
  by (simp add: sx_request_def depositStatus_def sx_hex empty_status_def ttl_get_def status_query_def first_seen_def ttl_set_def FIRST_SEEN_TTL_MS_def
      computeStatus_def stellar_reads_def bitcoin_reads_def confirmations_of_def proof_ready_def deposit_stage_def SUBMISSION_WINDOW_MS_def
      STATUS_TTL_MS_def Let_def on_trust_def verified_fields_def)

text \<open>A day later the first naming is forgotten, and the same hash is believed again.\<close>

lemma believed_again_next_day: "case status_run [sx_request 0, sx_request 86400000] empty_status ! 1 of Status st \<Rightarrow> on_trust st | _ \<Rightarrow> False"
  by (simp add: sx_request_def depositStatus_def sx_hex empty_status_def ttl_get_def status_query_def first_seen_def ttl_set_def FIRST_SEEN_TTL_MS_def
      computeStatus_def stellar_reads_def bitcoin_reads_def confirmations_of_def proof_ready_def deposit_stage_def SUBMISSION_WINDOW_MS_def
      STATUS_TTL_MS_def Let_def on_trust_def verified_fields_def)

lemma submission_believed_briefly_witness:
  "(case status_run [sx_request 0, sx_request 100000] empty_status ! 1 of Status st \<Rightarrow> on_trust st | _ \<Rightarrow> False)
   \<and> rq_start (sx_request 100000) < rq_start (sx_request 0) + SUBMISSION_WINDOW_MS + STATUS_TTL_MS + 0"
proof
  let ?qs = "[sx_request 0, sx_request 100000]"
  from sx_trust obtain st where st: "status_run ?qs empty_status ! 1 = Status st" "on_trust st" by (auto split: status_answer.splits)
  have start: "rq_start (sx_request t) = t" "rq_end (sx_request t) = t" for t by (simp_all add: sx_request_def)
  have "rq_start (?qs ! 1) < rq_start (?qs ! 0) + SUBMISSION_WINDOW_MS + STATUS_TTL_MS + 0"
    by (rule submission_believed_briefly [OF _ _ _ _ _ _ _ st]) (auto simp: start sx_named named_keys_def List.map_filter_simps FIRST_SEEN_TTL_MS_def)
  then show "rq_start (sx_request 100000) < rq_start (sx_request 0) + SUBMISSION_WINDOW_MS + STATUS_TTL_MS + 0" by simp
qed (rule sx_trust)

end
