(* ===== verification/Timeline.thy ===== *)
theory Timeline
  imports ReceiveLegs DepositStatus CctpStore "HOL-Library.Product_Lexorder" "HOL-Library.Multiset"
begin

text \<open>
  \<^verbatim>\<open>relayer/src/routes/timeline.ts\<close> and \<^verbatim>\<open>frontend/app/src/lib/receive/timeline.ts\<close>: the cycle of one loan, one event per
  transaction. What a request reads is a record of answers; the texts of the gaps are constructors.
\<close>

section \<open>Events and their order\<close>

datatype timeline_kind = BtcLock | VerifiedOnStellar | Borrowed | Received | Repaid | Released
datatype timeline_chain = Bitcoin | Stellar | BaseSepolia

record timeline_event =
  te_kind :: timeline_kind
  te_chain :: timeline_chain
  te_hash :: string
  te_at :: "int option"
  te_detail :: "string option"

fun RANK :: "timeline_kind \<Rightarrow> nat" where
  "RANK BtcLock = 0"
| "RANK VerifiedOnStellar = 1"
| "RANK Borrowed = 2"
| "RANK Received = 3"
| "RANK Repaid = 4"
| "RANK Released = 5"

fun PHASE :: "timeline_kind \<Rightarrow> nat" where
  "PHASE BtcLock = 0"
| "PHASE VerifiedOnStellar = 1"
| "PHASE Borrowed = 2"
| "PHASE Received = 2"
| "PHASE Repaid = 2"
| "PHASE Released = 3"

text \<open>The first of several events with the same kind and hash.\<close>

fun unique_events :: "(timeline_kind \<times> string) list \<Rightarrow> timeline_event list \<Rightarrow> timeline_event list" where
  "unique_events met [] = []"
| "unique_events met (e # es) =
     (if (te_kind e, te_hash e) \<in> set met then unique_events met es
      else e # unique_events ((te_kind e, te_hash e) # met) es)"

text \<open>The comparison of two times, an unknown one after all others, and of two events with their positions.\<close>

definition at_less :: "int option \<Rightarrow> int option \<Rightarrow> bool" where
  "at_less a b \<longleftrightarrow> (case (a, b) of (Some x, Some y) \<Rightarrow> x < y | (Some x, None) \<Rightarrow> True | _ \<Rightarrow> False)"

definition timeline_compare :: "timeline_event \<times> nat \<Rightarrow> timeline_event \<times> nat \<Rightarrow> int" where
  "timeline_compare a b =
     (case (a, b) of ((e, i), (f, j)) \<Rightarrow>
       let p = int (PHASE (te_kind e)) - int (PHASE (te_kind f)) in
       if p \<noteq> 0 then p
       else if te_at e \<noteq> te_at f then (if at_less (te_at e) (te_at f) then - 1 else 1)
       else let r = int (RANK (te_kind e)) - int (RANK (te_kind f)) in
         if r \<noteq> 0 then r else int i - int j)"

text \<open>\<^verbatim>\<open>Array.prototype.sort\<close> with a comparison function.\<close>

fun sort_into :: "('a \<Rightarrow> 'a \<Rightarrow> int) \<Rightarrow> 'a \<Rightarrow> 'a list \<Rightarrow> 'a list" where
  "sort_into cmp x [] = [x]"
| "sort_into cmp x (y # ys) = (if cmp x y \<le> 0 then x # y # ys else y # sort_into cmp x ys)"

definition js_sort :: "('a \<Rightarrow> 'a \<Rightarrow> int) \<Rightarrow> 'a list \<Rightarrow> 'a list" where
  "js_sort cmp xs = foldr (sort_into cmp) xs []"

definition orderTimeline :: "timeline_event list \<Rightarrow> timeline_event list" where
  "orderTimeline events = (let unique = unique_events [] events in map fst (js_sort timeline_compare (zip unique [0..<length unique])))"

section \<open>What a timeline is made of\<close>

record block_status =
  bs_confirmed :: bool
  bs_block_time :: "int option"

record tx_outputs =
  to_status :: block_status
  to_scripts :: "string list"

record outspend =
  os_spent :: bool
  os_txid :: "string option"
  os_status :: "block_status option"

record mint_record =
  mr_mintHash :: string
  mr_at :: int

definition mintFromRelayView :: "relay_view option \<Rightarrow> mint_record option" where
  "mintFromRelayView view =
     (case view of
        None \<Rightarrow> None
      | Some v \<Rightarrow>
          if v_kind v \<noteq> VArrived then None
          else (case v_mintHash v of
             Some m \<Rightarrow> if given m then Some \<lparr>mr_mintHash = the_string m, mr_at = v_updatedAt v\<rparr> else None
           | None \<Rightarrow> None))"

datatype gap = OlderThanWindow | NoScriptOutput | BitcoinUnreadable string | OwnerTruncated | OwnerUnreadable string

record timeline_reads =
  tm_history :: "string \<Rightarrow> string + position_event list"
  tm_position :: "string \<Rightarrow> string + position_summary option"
  tm_bitcoinTx :: "string \<Rightarrow> string + tx_outputs option"
  tm_outspends :: "string \<Rightarrow> string + outspend list"
  tm_ownerOperations :: "string \<Rightarrow> nat \<Rightarrow> string + owner_operation list \<times> bool"
  tm_mint :: "string \<Rightarrow> mint_record option"
  tm_date :: "string \<Rightarrow> int"  \<comment> \<open>\<^verbatim>\<open>Date.parse\<close>\<close>

record explorers =
  ex_bitcoinTx :: "string \<Rightarrow> string"
  ex_stellarTx :: "string \<Rightarrow> string"
  ex_baseSepoliaTx :: "string \<Rightarrow> string"

record timeline =
  tl_btcTxid :: string
  tl_positionId :: string
  tl_owner :: "string option"
  tl_status :: "string option"
  tl_complete :: bool
  tl_gaps :: "gap list"
  tl_events :: "(timeline_event \<times> string) list"  \<comment> \<open>each with its explorer page\<close>

datatype timeline_error = TimelineStellarUnavailable string | PositionNotFound

definition blockTimeMs :: "block_status option \<Rightarrow> int option" where
  "blockTimeMs status =
     (case status of
        Some s \<Rightarrow> if bs_confirmed s then (case bs_block_time s of Some t \<Rightarrow> if t \<noteq> 0 then Some (t * 1000) else None | None \<Rightarrow> None) else None
      | None \<Rightarrow> None)"

definition findIndex :: "('a \<Rightarrow> bool) \<Rightarrow> 'a list \<Rightarrow> nat option" where
  "findIndex P xs = (let n = length (takeWhile (\<lambda>x. \<not> P x) xs) in if n < length xs then Some n else None)"

definition lock_event :: "string \<Rightarrow> int option \<Rightarrow> timeline_event" where
  "lock_event btcTxid t = \<lparr>te_kind = BtcLock, te_chain = Bitcoin, te_hash = btcTxid, te_at = t, te_detail = None\<rparr>"

text \<open>The lock, and the transaction that spent the locked output; an answer may be an error at either read.\<close>

definition bitcoin_steps :: "timeline_reads \<Rightarrow> string \<Rightarrow> position_summary option \<Rightarrow> timeline_event list \<times> gap list" where
  "bitcoin_steps r btcTxid position =
     (case tm_bitcoinTx r btcTxid of
        Inl e \<Rightarrow> ([lock_event btcTxid None], [BitcoinUnreadable e])
      | Inr tx \<Rightarrow>
          let lock = lock_event btcTxid (blockTimeMs (map_option to_status tx)) in
          (case (tx, position) of
             (Some t, Some p) \<Rightarrow>
               (case findIndex (\<lambda>s. s = ps_p2wshScriptPubkey p) (to_scripts t) of
                  None \<Rightarrow> ([lock], [NoScriptOutput])
                | Some vout \<Rightarrow>
                    (case tm_outspends r btcTxid of
                       Inl e \<Rightarrow> ([lock], [BitcoinUnreadable e])
                     | Inr spends \<Rightarrow>
                         (case at_opt spends vout of
                            Some spend \<Rightarrow>
                              if os_spent spend \<and> given (os_txid spend)
                              then ([lock, \<lparr>te_kind = Released, te_chain = Bitcoin, te_hash = the_string (os_txid spend),
                                te_at = blockTimeMs (os_status spend), te_detail = None\<rparr>], [])
                              else ([lock], [])
                          | None \<Rightarrow> ([lock], []))))
           | _ \<Rightarrow> ([lock], [])))"

definition history_step :: "timeline_reads \<Rightarrow> position_event \<Rightarrow> timeline_event option" where
  "history_step r e =
     (let ev = (\<lambda>kind detail. Some \<lparr>te_kind = kind, te_chain = Stellar, te_hash = pe_stellarTxHash e, te_at = Some (tm_date r (pe_ledgerClosedAt e)), te_detail = detail\<rparr>) in
      if dp_kind e = ''deposit'' then ev VerifiedOnStellar None
      else if dp_kind e = ''borrow'' then ev Borrowed None
      else if dp_kind e = ''repay'' \<or> dp_kind e = ''repay_full'' then ev Repaid None
      else if dp_kind e = ''liquidate'' then ev Repaid (Some ''by liquidation'')
      else None)"

definition leg_steps :: "timeline_reads \<Rightarrow> owner_operation \<Rightarrow> timeline_event list" where
  "leg_steps r leg =
     (let ev = (\<lambda>chain hash t detail. \<lparr>te_kind = Received, te_chain = chain, te_hash = hash, te_at = Some t, te_detail = Some detail\<rparr>) in
      case oo_kind leg of
        SwapLeg \<Rightarrow> [ev Stellar (oo_txHash leg) (oo_at leg) (''as '' @ (case oo_asset leg of Some a \<Rightarrow> a | None \<Rightarrow> ''another asset''))]
      | BurnLeg \<Rightarrow> ev Stellar (oo_txHash leg) (oo_at leg) ''sent to Base Sepolia''
          # (case tm_mint r (oo_txHash leg) of Some m \<Rightarrow> [ev BaseSepolia (mr_mintHash m) (mr_at m) ''on Base Sepolia''] | None \<Rightarrow> [])
      | _ \<Rightarrow> [])"

definition receive_steps :: "timeline_reads \<Rightarrow> string option \<Rightarrow> position_event list \<Rightarrow> timeline_event list \<times> gap list" where
  "receive_steps r owner borrows =
     (if given owner \<and> borrows \<noteq> []
      then (case tm_ownerOperations r (the_string owner) (Min (set (map pe_ledger borrows))) of
          Inl e \<Rightarrow> ([], [OwnerUnreadable e])
        | Inr (ops, truncated) \<Rightarrow>
            (concat (map (leg_steps r) (attributeReceiveLegs ops (set (map pe_stellarTxHash borrows)))), if truncated then [OwnerTruncated] else []))
      else ([], []))"

definition timeline_url :: "explorers \<Rightarrow> timeline_event \<Rightarrow> string" where
  "timeline_url ex e =
     (case te_chain e of Bitcoin \<Rightarrow> ex_bitcoinTx ex (te_hash e) | Stellar \<Rightarrow> ex_stellarTx ex (te_hash e) | BaseSepolia \<Rightarrow> ex_baseSepoliaTx ex (te_hash e))"

text \<open>The owner: the position's depositor, or else the account of the first borrow.\<close>

definition timeline_owner :: "position_summary option \<Rightarrow> position_event list \<Rightarrow> string option" where
  "timeline_owner position borrows =
     (case position of Some p \<Rightarrow> Some (ps_depositor p) | None \<Rightarrow> (case borrows of b # _ \<Rightarrow> dp_account b | [] \<Rightarrow> None))"

definition computeTimeline :: "timeline_reads \<Rightarrow> explorers \<Rightarrow> string \<Rightarrow> timeline_error + timeline" where
  "computeTimeline r ex btcTxid =
     (let positionId = toInternalTxid btcTxid in
      case (tm_history r positionId, tm_position r positionId) of
        (Inl e, _) \<Rightarrow> Inl (TimelineStellarUnavailable e)
      | (Inr _, Inl e) \<Rightarrow> Inl (TimelineStellarUnavailable e)
      | (Inr history, Inr position) \<Rightarrow>
          if history = [] \<and> position = None then Inl PositionNotFound
          else
            let borrows = filter (\<lambda>e. dp_kind e = ''borrow'') history;
                owner = timeline_owner position borrows;
                old = (if list_ex (\<lambda>e. dp_kind e = ''deposit'') history then [] else [OlderThanWindow]);
                (btc, btc_gaps) = bitcoin_steps r btcTxid position;
                (legs, leg_gaps) = receive_steps r owner borrows;
                gaps = old @ btc_gaps @ leg_gaps
            in Inr \<lparr>tl_btcTxid = btcTxid, tl_positionId = positionId, tl_owner = owner, tl_status = map_option ps_status position,
                 tl_complete = (gaps = []), tl_gaps = gaps,
                 tl_events = map (\<lambda>e. (e, timeline_url ex e)) (orderTimeline (btc @ List.map_filter (history_step r) history @ legs))\<rparr>)"

section \<open>The route\<close>

datatype timeline_answer = TimelineOk timeline | TimelineBadTxid | TimelineNotConfigured | Timeline404 | Timeline503

definition TIMELINE_TTL_MS :: int where "TIMELINE_TTL_MS = 10000"

text \<open>A request at time \<open>t\<close> whose computation, if it needs one, ends at \<open>t'\<close>.\<close>

definition timeline_get :: "bool \<Rightarrow> timeline_reads \<Rightarrow> explorers \<Rightarrow> string \<Rightarrow> int \<Rightarrow> int \<Rightarrow> timeline entries \<Rightarrow> timeline_answer \<times> timeline entries" where
  "timeline_get configured r ex btcTxid t t' es =
     (if \<not> isTxid btcTxid then (TimelineBadTxid, es)
      else if \<not> configured then (TimelineNotConfigured, es)
      else let key = toLowerCase btcTxid in
        (case ttl_get key t es of
           (Some tline, es1) \<Rightarrow> (TimelineOk tline, es1)
         | (None, es1) \<Rightarrow>
             (case computeTimeline r ex key of
                Inr tline \<Rightarrow> (TimelineOk tline, ttl_set 1000 key tline TIMELINE_TTL_MS t' es1)
              | Inl PositionNotFound \<Rightarrow> (Timeline404, es1)
              | Inl (TimelineStellarUnavailable e) \<Rightarrow> (Timeline503, es1))))"

section \<open>The app's rows\<close>

record timeline_row =
  tw_kind :: timeline_kind
  tw_event :: "timeline_event option"
  tw_passed :: bool

definition TIMELINE_KINDS :: "timeline_kind list" where
  "TIMELINE_KINDS = [BtcLock, VerifiedOnStellar, Borrowed, Received, Repaid, Released]"

definition add_row :: "timeline_event list \<Rightarrow> timeline_kind \<Rightarrow> timeline_row list \<Rightarrow> timeline_row list" where
  "add_row ordered kind rows =
     (let has = (\<lambda>k. list_ex (\<lambda>e. te_kind e = k) ordered) in
      if has kind then rows
      else if kind = Received \<and> has Borrowed then rows
      else (case findIndex (\<lambda>row. RANK kind < RANK (tw_kind row)) rows of
         None \<Rightarrow> rows @ [\<lparr>tw_kind = kind, tw_event = None, tw_passed = False\<rparr>]
       | Some n \<Rightarrow> take n rows @ \<lparr>tw_kind = kind, tw_event = None, tw_passed = True\<rparr> # drop n rows))"

definition timelineRows :: "timeline_event list \<Rightarrow> timeline_row list" where
  "timelineRows events =
     (let ordered = orderTimeline events in
      fold (add_row ordered) TIMELINE_KINDS (map (\<lambda>e. \<lparr>tw_kind = te_kind e, tw_event = Some e, tw_passed = False\<rparr>) ordered))"

section \<open>The order\<close>

definition timeline_key :: "timeline_event \<times> nat \<Rightarrow> nat \<times> (bool \<times> int) \<times> nat \<times> nat" where
  "timeline_key x = (PHASE (te_kind (fst x)), (case te_at (fst x) of None \<Rightarrow> (True, 0) | Some t \<Rightarrow> (False, t)), RANK (te_kind (fst x)), snd x)"

lemma compare_key: "timeline_compare a b \<le> 0 \<longleftrightarrow> timeline_key a \<le> timeline_key b"
  by (cases a; cases b; cases "te_at (fst a)"; cases "te_at (fst b)")
    (auto simp: timeline_compare_def timeline_key_def at_less_def Let_def)

lemma sort_into_insort: "(\<And>a b. cmp a b \<le> 0 \<longleftrightarrow> f a \<le> f b) \<Longrightarrow> sort_into cmp x ys = insort_key f x ys"
  by (induction ys) auto

lemma js_sort_key: "(\<And>a b. cmp a b \<le> 0 \<longleftrightarrow> f a \<le> f b) \<Longrightarrow> js_sort cmp xs = sort_key f xs"
  unfolding js_sort_def sort_key_def using sort_into_insort [of cmp f] by (metis (no_types, lifting) foldr_cong)

lemma order_sort_key:
  "orderTimeline events = (let u = unique_events [] events in map fst (sort_key timeline_key (zip u [0..<length u])))"
  by (simp add: orderTimeline_def js_sort_key [OF compare_key])

lemma mset_orderTimeline: "mset (orderTimeline events) = mset (unique_events [] events)"
proof -
  define u where "u = unique_events [] events"
  have "mset (map fst (sort_key timeline_key (zip u [0..<length u]))) = image_mset fst (mset (zip u [0..<length u]))" by simp
  also have "\<dots> = mset u" by (simp flip: mset_map)
  finally show ?thesis by (simp add: order_sort_key u_def Let_def)
qed

lemma unique_events_keys:
  "distinct (map (\<lambda>e. (te_kind e, te_hash e)) (unique_events met es)) \<and>
   (\<lambda>e. (te_kind e, te_hash e)) ` set (unique_events met es) = (\<lambda>e. (te_kind e, te_hash e)) ` set es - set met"
  by (induction met es rule: unique_events.induct) auto

lemma unique_events_sub: "set (unique_events met es) \<subseteq> set es"
  by (induction met es rule: unique_events.induct) auto

text \<open>Phase by phase, and within a phase by time.\<close>

definition chain_order :: "timeline_event \<Rightarrow> timeline_event \<Rightarrow> bool" where
  "chain_order e f \<longleftrightarrow> PHASE (te_kind e) < PHASE (te_kind f)
     \<or> PHASE (te_kind e) = PHASE (te_kind f) \<and> (at_less (te_at e) (te_at f) \<or> te_at e = te_at f \<and> RANK (te_kind e) \<le> RANK (te_kind f))"

lemma key_chain_order: "timeline_key a \<le> timeline_key b \<Longrightarrow> chain_order (fst a) (fst b)"
  by (cases "te_at (fst a)"; cases "te_at (fst b)") (auto simp: timeline_key_def chain_order_def at_less_def)

lemma orderTimeline_sorted: "sorted_wrt chain_order (orderTimeline events)"
proof -
  define u where "u = unique_events [] events"
  have "sorted_wrt (\<lambda>a b. timeline_key a \<le> timeline_key b) (sort_key timeline_key (zip u [0..<length u]))"
    using sorted_sort_key [of timeline_key] by (simp add: sorted_map)
  then have "sorted_wrt (\<lambda>a b. chain_order (fst a) (fst b)) (sort_key timeline_key (zip u [0..<length u]))"
    by (rule sorted_wrt_mono_rel [rotated]) (rule key_chain_order)
  then show ?thesis by (simp add: order_sort_key u_def sorted_wrt_map Let_def)
qed


section \<open>What a timeline says\<close>

text \<open>A step's place in the cycle, and its chain.\<close>

definition step_key :: "timeline_event \<Rightarrow> timeline_kind \<times> string" where
  "step_key e = (te_kind e, te_hash e)"

lemma orderTimeline_keys:
  "distinct (map step_key (orderTimeline events))" "step_key ` set (orderTimeline events) = step_key ` set events"
  "set (orderTimeline events) \<subseteq> set events"
proof -
  have k: "step_key = (\<lambda>e. (te_kind e, te_hash e))" by (simp add: step_key_def fun_eq_iff)
  have m: "set (orderTimeline events) = set (unique_events [] events)" using mset_orderTimeline [of events] by (metis set_mset_mset)
  have "mset (map step_key (orderTimeline events)) = mset (map step_key (unique_events [] events))" by (simp add: mset_orderTimeline)
  then show "distinct (map step_key (orderTimeline events))" using unique_events_keys [of "[]" events] unfolding k by (metis mset_eq_imp_distinct_iff)
  show "step_key ` set (orderTimeline events) = step_key ` set events" using unique_events_keys [of "[]" events] unfolding m k by simp
  show "set (orderTimeline events) \<subseteq> set events" unfolding m by (rule unique_events_sub)
qed

definition on_chain :: "timeline_event \<Rightarrow> bool" where
  "on_chain e \<longleftrightarrow> (case te_kind e of
     BtcLock \<Rightarrow> te_chain e = Bitcoin
   | Released \<Rightarrow> te_chain e = Bitcoin
   | Received \<Rightarrow> te_chain e \<in> {Stellar, BaseSepolia}
   | _ \<Rightarrow> te_chain e = Stellar)"

lemma bitcoin_steps_cases:
  obtains t where "fst (bitcoin_steps r btcTxid position) = [lock_event btcTxid t]"
  | t e where "fst (bitcoin_steps r btcTxid position) = [lock_event btcTxid t, e]" "te_kind e = Released" "te_chain e = Bitcoin"
  by (cases "fst (bitcoin_steps r btcTxid position)")
    (auto simp: bitcoin_steps_def Let_def split: sum.splits option.splits if_splits)

lemma history_step_kind: "history_step r h = Some e \<Longrightarrow> te_chain e = Stellar \<and> te_kind e \<in> {VerifiedOnStellar, Borrowed, Repaid}"
  by (auto simp: history_step_def Let_def split: if_splits)

lemma leg_steps_kind: "e \<in> set (leg_steps r leg) \<Longrightarrow> te_kind e = Received \<and> te_chain e \<in> {Stellar, BaseSepolia}"
  by (auto simp: leg_steps_def Let_def split: operation_kind.splits option.splits)

lemma receive_steps_kind: "e \<in> set (fst (receive_steps r owner borrows)) \<Longrightarrow> te_kind e = Received \<and> te_chain e \<in> {Stellar, BaseSepolia}"
  by (auto simp: receive_steps_def split: if_splits sum.splits dest: leg_steps_kind)

text \<open>The parts of an answer.\<close>

lemma compute_timeline_parts:
  assumes "computeTimeline r ex btcTxid = Inr tline"
  obtains history position where "tm_history r (toInternalTxid btcTxid) = Inr history" "tm_position r (toInternalTxid btcTxid) = Inr position"
    and "map fst (tl_events tline) = orderTimeline (fst (bitcoin_steps r btcTxid position) @ List.map_filter (history_step r) history
      @ fst (receive_steps r (timeline_owner position (filter (\<lambda>e. dp_kind e = ''borrow'') history)) (filter (\<lambda>e. dp_kind e = ''borrow'') history)))"
    and "tl_complete tline \<longleftrightarrow> list_ex (\<lambda>e. dp_kind e = ''deposit'') history \<and> snd (bitcoin_steps r btcTxid position) = []
      \<and> snd (receive_steps r (timeline_owner position (filter (\<lambda>e. dp_kind e = ''borrow'') history)) (filter (\<lambda>e. dp_kind e = ''borrow'') history)) = []"
    and "tl_events tline = map (\<lambda>e. (e, timeline_url ex e)) (map fst (tl_events tline))"
  using assms by (auto simp: computeTimeline_def Let_def comp_def split: sum.splits if_splits prod.splits)

lemma distinct_singleton: "distinct xs \<Longrightarrow> set xs \<subseteq> {a} \<Longrightarrow> length xs \<le> 1"
  by (cases xs; cases "tl xs") auto

lemma only_one: "a \<in> set xs \<Longrightarrow> length xs \<le> 1 \<Longrightarrow> xs = [a]"
  by (cases xs) auto

text \<open>A timeline is in chain order, names no transaction twice for the same step, has exactly one lock, at most one
  release and every step on the chain it happens on, linked to that chain's explorer.\<close>

theorem timeline_shape:
  assumes "computeTimeline r ex btcTxid = Inr tline"
  shows "sorted_wrt chain_order (map fst (tl_events tline)) \<and> distinct (map step_key (map fst (tl_events tline)))
    \<and> filter (\<lambda>k. fst k = BtcLock) (map step_key (map fst (tl_events tline))) = [(BtcLock, btcTxid)]
    \<and> length (filter (\<lambda>k. fst k = Released) (map step_key (map fst (tl_events tline)))) \<le> 1
    \<and> list_all (\<lambda>(e, url). on_chain e \<and> url = timeline_url ex e) (tl_events tline)"
proof -
  let ?es = "map fst (tl_events tline)" and ?keys = "map step_key (map fst (tl_events tline))"
  obtain btc rest where es: "?es = orderTimeline (btc @ rest)" and url: "tl_events tline = map (\<lambda>e. (e, timeline_url ex e)) ?es"
    and btc: "(\<exists>t. btc = [lock_event btcTxid t]) \<or> (\<exists>t e. btc = [lock_event btcTxid t, e] \<and> te_kind e = Released \<and> te_chain e = Bitcoin)"
    and rest: "\<And>e. e \<in> set rest \<Longrightarrow> on_chain e \<and> te_kind e \<noteq> BtcLock \<and> te_kind e \<noteq> Released"
  proof -
    show ?thesis
    proof (cases rule: compute_timeline_parts [OF assms, case_names parts])
      case (parts history position)
      show ?thesis
      proof (rule that [OF parts(3,5)])
      show "(\<exists>t. fst (bitcoin_steps r btcTxid position) = [lock_event btcTxid t])
        \<or> (\<exists>t e. fst (bitcoin_steps r btcTxid position) = [lock_event btcTxid t, e] \<and> te_kind e = Released \<and> te_chain e = Bitcoin)"
        by (cases rule: bitcoin_steps_cases [of r btcTxid position]) blast+
      fix e assume "e \<in> set (List.map_filter (history_step r) history
        @ fst (receive_steps r (timeline_owner position (filter (\<lambda>e. dp_kind e = ''borrow'') history)) (filter (\<lambda>e. dp_kind e = ''borrow'') history)))"
      then have "te_chain e = Stellar \<and> te_kind e \<in> {VerifiedOnStellar, Borrowed, Repaid} \<or> te_kind e = Received \<and> te_chain e \<in> {Stellar, BaseSepolia}"
        using history_step_kind receive_steps_kind by (auto; blast)
      then show "on_chain e \<and> te_kind e \<noteq> BtcLock \<and> te_kind e \<noteq> Released" by (auto simp: on_chain_def)
      qed
    qed
  qed
  have keys: "set ?keys = step_key ` set (btc @ rest)" using orderTimeline_keys(2) [of "btc @ rest"] by (simp add: es)
  have dist: "distinct ?keys" using orderTimeline_keys(1) by (simp add: es)
  obtain rel where btc_keys: "step_key ` set btc \<subseteq> {(BtcLock, btcTxid), (Released, rel)}" "(BtcLock, btcTxid) \<in> step_key ` set btc"
    using btc by (auto simp: step_key_def lock_event_def)
  have rest_keys: "fst k \<noteq> BtcLock \<and> fst k \<noteq> Released" if "k \<in> step_key ` set rest" for k
    using that rest by (auto simp: step_key_def)
  have in_keys: "k = (BtcLock, btcTxid) \<or> k = (Released, rel) \<or> fst k \<noteq> BtcLock \<and> fst k \<noteq> Released" if "k \<in> set ?keys" for k
    using that btc_keys(1) rest_keys [of k] unfolding keys set_append image_Un by blast
  have "(BtcLock, btcTxid) \<in> set ?keys" using btc_keys(2) unfolding keys set_append image_Un by blast
  then have lock: "(BtcLock, btcTxid) \<in> set (filter (\<lambda>k. fst k = BtcLock) ?keys)" by (simp only: set_filter mem_Collect_eq fst_conv simp_thms)
  have "set (filter (\<lambda>k. fst k = Released) ?keys) \<subseteq> {(Released, rel)}"
  proof
    fix k assume "k \<in> set (filter (\<lambda>k. fst k = Released) ?keys)"
    then have "k \<in> set ?keys" "fst k = Released" by (simp_all only: set_filter mem_Collect_eq)
    with in_keys [OF this(1)] show "k \<in> {(Released, rel)}" by auto
  qed
  moreover have "set (filter (\<lambda>k. fst k = BtcLock) ?keys) \<subseteq> {(BtcLock, btcTxid)}"
  proof
    fix k assume "k \<in> set (filter (\<lambda>k. fst k = BtcLock) ?keys)"
    then have "k \<in> set ?keys" "fst k = BtcLock" by (simp_all only: set_filter mem_Collect_eq)
    with in_keys [OF this(1)] show "k \<in> {(BtcLock, btcTxid)}" by auto
  qed
  ultimately have "length (filter (\<lambda>k. fst k = Released) ?keys) \<le> 1" and one: "length (filter (\<lambda>k. fst k = BtcLock) ?keys) \<le> 1"
    using distinct_singleton [OF distinct_filter [OF dist]] by blast+
  moreover have "filter (\<lambda>k. fst k = BtcLock) ?keys = [(BtcLock, btcTxid)]"
    by (rule only_one [OF lock one])
  moreover have "list_all (\<lambda>(e, url). on_chain e \<and> url = timeline_url ex e) (map (\<lambda>e. (e, timeline_url ex e)) ?es)"
  proof -
    have "on_chain e" if "e \<in> set ?es" for e
    proof -
      have "e \<in> set btc \<or> e \<in> set rest" using that orderTimeline_keys(3) [of "btc @ rest"] unfolding es by auto
      then show ?thesis using btc rest by (auto simp: on_chain_def lock_event_def)
    qed
    then show ?thesis by (simp add: list_all_iff)
  qed
  then have "list_all (\<lambda>(e, url). on_chain e \<and> url = timeline_url ex e) (tl_events tline)" by (simp only: url [symmetric])
  moreover have "sorted_wrt chain_order ?es" unfolding es by (rule orderTimeline_sorted)
  ultimately show ?thesis using dist by blast
qed

text \<open>The app's rows keep every event in order, and give each step of the cycle a row unless a borrow stands for its receipt.\<close>

lemma add_row_events: "List.map_filter tw_event (add_row ordered kind rows) = List.map_filter tw_event rows"
proof -
  have "List.map_filter tw_event (take n rows) @ List.map_filter tw_event (drop n rows) = List.map_filter tw_event rows" for n
    by (metis append_take_drop_id map_filter_append)
  then show ?thesis by (auto simp: add_row_def Let_def map_filter_append List.map_filter_simps split: option.split)
qed

lemma fold_add_row_events: "List.map_filter tw_event (fold (add_row ordered) ks rows) = List.map_filter tw_event rows"
  by (induction ks arbitrary: rows) (simp_all add: add_row_events)

lemma add_row_kinds: "tw_kind ` set rows \<subseteq> tw_kind ` set (add_row ordered kind rows)"
proof -
  have "set rows = set (take n rows) \<union> set (drop n rows)" for n by (metis append_take_drop_id set_append)
  then show ?thesis by (auto simp: add_row_def Let_def split: option.split)
qed

lemma fold_add_row_kinds: "tw_kind ` set rows \<subseteq> tw_kind ` set (fold (add_row ordered) ks rows)"
proof (induction ks arbitrary: rows)
  case (Cons k ks)
  from subset_trans [OF add_row_kinds Cons.IH] show ?case by simp
qed simp

lemma add_row_adds:
  "\<not> list_ex (\<lambda>e. te_kind e = kind) ordered \<Longrightarrow> \<not> (kind = Received \<and> list_ex (\<lambda>e. te_kind e = Borrowed) ordered) \<Longrightarrow>
   kind \<in> tw_kind ` set (add_row ordered kind rows)"
  by (auto simp: add_row_def Let_def split: option.split)

lemma timeline_rows_complete:
  "List.map_filter tw_event (timelineRows events) = orderTimeline events"
  "kind \<in> tw_kind ` set (timelineRows events) \<or> kind = Received \<and> list_ex (\<lambda>e. te_kind e = Borrowed) (orderTimeline events)"
proof -
  let ?rows = "map (\<lambda>e. \<lparr>tw_kind = te_kind e, tw_event = Some e, tw_passed = False\<rparr>) (orderTimeline events)"
  have "List.map_filter tw_event ?rows = orderTimeline events" by (simp add: List.map_filter_def comp_def)
  then show "List.map_filter tw_event (timelineRows events) = orderTimeline events" by (simp add: timelineRows_def Let_def fold_add_row_events)
  have split: "fold (add_row o') TIMELINE_KINDS rows = fold (add_row o') qs (add_row o' kind (fold (add_row o') ps rows))"
    if "TIMELINE_KINDS = ps @ kind # qs" for ps qs o' rows unfolding that by simp
  have "kind \<in> set TIMELINE_KINDS" by (cases kind) (simp_all add: TIMELINE_KINDS_def)
  then obtain ps qs where ks: "TIMELINE_KINDS = ps @ kind # qs" by (meson split_list)
  show "kind \<in> tw_kind ` set (timelineRows events) \<or> kind = Received \<and> list_ex (\<lambda>e. te_kind e = Borrowed) (orderTimeline events)"
  proof (cases "list_ex (\<lambda>e. te_kind e = kind) (orderTimeline events)")
    case True
    then have "kind \<in> tw_kind ` set ?rows" by (force simp: list_ex_iff)
    then have "kind \<in> tw_kind ` set (timelineRows events)" unfolding timelineRows_def Let_def using fold_add_row_kinds by blast
    then show ?thesis by blast
  next
    case False
    then show ?thesis
      using add_row_adds [OF False] fold_add_row_kinds unfolding timelineRows_def Let_def split [OF ks] by blast
  qed
qed

section \<open>From the chain to the timeline\<close>

definition step_kind :: "string \<Rightarrow> timeline_kind" where
  "step_kind kind = (if kind = ''deposit'' then VerifiedOnStellar else if kind = ''borrow'' then Borrowed else Repaid)"

lemma decoded_kind:
  assumes "decodePositionEvent sdk ev = Some d"
  shows "dp_kind d \<in> set POSITION_EVENT_KINDS"
proof -
  obtain t0 t1 ts where t: "ix_topic ev = t0 # t1 # ts" using assms by (auto simp: decodePositionEvent_def split: list.splits)
  obtain kind where k: "scValToNative sdk t0 = NStr kind" using assms t by (cases "scValToNative sdk t0") (auto simp: decodePositionEvent_def)
  have kind: "kind \<in> set POSITION_EVENT_KINDS" using assms t k by (auto simp: decodePositionEvent_def split: if_splits)
  obtain b where b: "scValToNative sdk t1 = NBytes b" "length b = 32"
    using assms t k kind by (cases "scValToNative sdk t1") (auto simp: decodePositionEvent_def split: if_splits)
  have "dp_kind d = kind"
  proof (cases "map_option (scValToNative sdk) (ix_value ev)")
    case (Some v)
    then show ?thesis using assms t k kind b by (cases v) (auto simp: decodePositionEvent_def Let_def)
  qed (use assms t k kind b in \<open>auto simp: decodePositionEvent_def Let_def\<close>)
  with kind show ?thesis by simp
qed

lemma history_step_key:
  "dp_kind e \<in> set POSITION_EVENT_KINDS \<Longrightarrow> \<exists>ev. history_step r e = Some ev \<and> step_key ev = (step_kind (dp_kind e), pe_stellarTxHash e)"
  by (auto simp: history_step_def step_key_def step_kind_def POSITION_EVENT_KINDS_def Let_def)

lemma wanted_record:
  "wanted sdk t ev = Some rec \<Longrightarrow> \<exists>d. decodePositionEvent sdk ev = Some d \<and> dp_txid d = t \<and> dp_kind rec = dp_kind d \<and> pe_stellarTxHash rec = ix_txHash ev"
  by (auto simp: wanted_def record_of_def split: option.splits if_splits)

text \<open>The events of a position the chain holds, as steps.\<close>

definition chain_steps :: "'x sdk \<Rightarrow> string \<Rightarrow> 'x index_event list \<Rightarrow> (timeline_kind \<times> string) set" where
  "chain_steps sdk t es = {(step_kind (dp_kind d), ix_txHash e) | e d. e \<in> set es \<and> decodePositionEvent sdk e = Some d \<and> dp_txid d = t}"

lemma history_steps:
  assumes "history = wanted_list sdk t es"
  shows "step_key ` set (List.map_filter (history_step r) history) = chain_steps sdk t es"
proof (intro set_eqI iffI)
  fix k assume "k \<in> step_key ` set (List.map_filter (history_step r) history)"
  then obtain rec ev e where e: "e \<in> set es" "wanted sdk t e = Some rec" "history_step r rec = Some ev" "k = step_key ev" unfolding assms by auto
  from wanted_record [OF e(2)] obtain d where d: "decodePositionEvent sdk e = Some d" "dp_txid d = t" "dp_kind rec = dp_kind d" "pe_stellarTxHash rec = ix_txHash e" by blast
  with history_step_key [of rec r] decoded_kind e(3,4) have "k = (step_kind (dp_kind d), ix_txHash e)" by (metis option.inject)
  with e(1) d(1,2) show "k \<in> chain_steps sdk t es" unfolding chain_steps_def by blast
next
  fix k assume "k \<in> chain_steps sdk t es"
  then obtain e d where e: "e \<in> set es" "decodePositionEvent sdk e = Some d" "dp_txid d = t" "k = (step_kind (dp_kind d), ix_txHash e)"
    unfolding chain_steps_def by blast
  then have w: "wanted sdk t e = Some (record_of e d)" by (simp add: wanted_def)
  from history_step_key [of "record_of e d" r] decoded_kind [OF e(2)] e(4) obtain ev where "history_step r (record_of e d) = Some ev" "step_key ev = k"
    by (auto simp: record_of_def)
  with e(1) w show "k \<in> step_key ` set (List.map_filter (history_step r) history)" unfolding assms by force
qed

lemma chain_steps_mono: "set es \<subseteq> set fs \<Longrightarrow> chain_steps sdk t es \<subseteq> chain_steps sdk t fs"
  unfolding chain_steps_def by blast


text \<open>The run of \<^verbatim>\<open>PositionIndex\<close>, served; Bitcoin has not seen the transaction.\<close>

definition tx_reads :: timeline_reads where
  "tx_reads = \<lparr>tm_history = (\<lambda>t. Inr (history_of t (snd px_run))), tm_position = (\<lambda>_. Inr (Some \<lparr>ps_depositor = [], ps_status = ''Active'', ps_p2wshScriptPubkey = []\<rparr>)),
     tm_bitcoinTx = (\<lambda>_. Inr None), tm_outspends = (\<lambda>_. Inl []), tm_ownerOperations = (\<lambda>_ _. Inl []), tm_mint = (\<lambda>_. None), tm_date = (\<lambda>_. 0)\<rparr>"

definition tx_explorers :: explorers where
  "tx_explorers = \<lparr>ex_bitcoinTx = (\<lambda>h. ''b/'' @ h), ex_stellarTx = (\<lambda>h. ''s/'' @ h), ex_baseSepoliaTx = (\<lambda>h. ''e/'' @ h)\<rparr>"

lemma tx_timeline: "\<exists>tline. computeTimeline tx_reads tx_explorers (hex_of_bytes (replicate 32 7)) = Inr tline"
  by (simp add: computeTimeline_def tx_reads_def Let_def split: prod.split)

lemma timeline_shape_witness:
  "\<exists>tline. computeTimeline tx_reads tx_explorers (hex_of_bytes (replicate 32 7)) = Inr tline
     \<and> filter (\<lambda>k. fst k = BtcLock) (map step_key (map fst (tl_events tline))) = [(BtcLock, hex_of_bytes (replicate 32 7))]"
  using tx_timeline timeline_shape by blast


end
