(* ===== verification/ProofRoute.thy ===== *)
theory ProofRoute
  imports DepositStatus HeaderSync
begin

text \<open>
  \<^verbatim>\<open>relayer/src/routes/proof.ts\<close>: SPV proofs over HTTP, from the cache and \<^const>\<open>buildSPVProof\<close>. The client a request builds
  its proof with, the light client's tip it reads and its times are its parameters; requests that overlap share a computation,
  which is the business of \<^verbatim>\<open>ProofCache\<close>.
\<close>

section \<open>Answers\<close>

datatype proof_result =
    ProofOk spv_bundle
  | Unconfirmed
  | TooFewConfirmations int int  \<comment> \<open>requested, available\<close>
  | TxNotFound

datatype proof_answer =
    Answered proof_result
  | BadTxid | BadConfirmations
  | ProofUpstreamUnavailable | ProofUpstreamError
  | LightClientBehind int int int  \<comment> \<open>available, height of the block, tip\<close>

definition SHORT_TTL_MS :: int where "SHORT_TTL_MS = 15000"
definition DEEP_CONFIRMATION_DEPTH :: int where "DEEP_CONFIRMATION_DEPTH = REORG_RESUBMIT_DEPTH"

record proof_deps =
  pr_cacheMaxEntries :: nat
  pr_cacheTtlMs :: int
  pr_defaultConfirmations :: int
  pr_maxConfirmations :: int

text \<open>
  An answer and how long it keeps, or an upstream failure. A 404 means the transaction is unknown only from the first
  request of a build, the one for the transaction itself.
\<close>

definition computeProof :: "proof_deps \<Rightarrow> esplora_client \<Rightarrow> string \<Rightarrow> int \<Rightarrow> spv_error + proof_result \<times> int" where
  "computeProof deps esplora display confs =
     (case buildSPVProof display confs esplora of
        Inr b \<Rightarrow>
          let depth = bitcoinTipHeight b - blockHeight b + 1
          in Inr (ProofOk b, if depth \<ge> DEEP_CONFIRMATION_DEPTH then pr_cacheTtlMs deps else SHORT_TTL_MS)
      | Inl (UnconfirmedTxError i) \<Rightarrow> Inr (Unconfirmed, SHORT_TTL_MS)
      | Inl (InsufficientConfirmationsError i requested available) \<Rightarrow> Inr (TooFewConfirmations requested available, SHORT_TTL_MS)
      | Inl e \<Rightarrow>
          if (case (e, getTxInfo esplora display) of
                (ClientError (EsploraStatus c body), Inl e') \<Rightarrow> c = 404 \<and> e' = EsploraStatus c body
              | _ \<Rightarrow> False)
          then Inr (TxNotFound, SHORT_TTL_MS)
          else Inl e)"

text \<open>\<^verbatim>\<open>parseInt(s, 10)\<close>: an optional sign and the digits after leading white space; \<^const>\<open>None\<close> is \<^verbatim>\<open>NaN\<close>.\<close>

definition parseInt :: "string \<Rightarrow> int option" where
  "parseInt s =
     (let t = dropWhile is_ws s;
          (neg, u) = (case t of c # cs \<Rightarrow> if c = CHR ''-'' then (True, cs) else if c = CHR ''+'' then (False, cs) else (False, t) | [] \<Rightarrow> (False, []));
          ds = takeWhile is_digit u
      in if ds = [] then None else Some (if neg then - int (dec_val ds) else int (dec_val ds)))"

text \<open>The confirmations asked for: the default, a number in range, or a refusal.\<close>

definition asked_confirmations :: "proof_deps \<Rightarrow> string option \<Rightarrow> int option" where
  "asked_confirmations deps raw =
     (case raw of
        None \<Rightarrow> Some (pr_defaultConfirmations deps)
      | Some s \<Rightarrow>
          (case parseInt s of
             None \<Rightarrow> None
           | Some n \<Rightarrow> if n < 1 \<or> n > pr_maxConfirmations deps then None else Some n))"

definition proof_key :: "string \<Rightarrow> int \<Rightarrow> string" where
  "proof_key normalized confs = normalized @ '':'' @ int_str confs"

text \<open>A proof is only handed out if the light client, as far as its tip is known, can verify it now.\<close>

definition light_client_check :: "int \<Rightarrow> int option \<Rightarrow> proof_result \<Rightarrow> proof_answer" where
  "light_client_check confs lcTip result =
     (case result of
        ProofOk b \<Rightarrow>
          (case lcTip of
             Some l \<Rightarrow> if l < blockHeight b + confs - 1 then LightClientBehind (max 0 (l - blockHeight b + 1)) (blockHeight b) l else Answered result
           | None \<Rightarrow> Answered result)
      | _ \<Rightarrow> Answered result)"

definition proof_failure :: "spv_error \<Rightarrow> proof_answer" where
  "proof_failure e = (case e of ClientError f \<Rightarrow> if isUpstreamUnavailable f then ProofUpstreamUnavailable else ProofUpstreamError | _ \<Rightarrow> ProofUpstreamError)"

record proof_request =
  pq_display :: string
  pq_confirmations :: "string option"
  pq_client :: esplora_client
  pq_lightClientTip :: "int option"
  pq_start :: int
  pq_end :: int

definition spvProof :: "proof_deps \<Rightarrow> proof_request \<Rightarrow> proof_result entries \<Rightarrow> proof_answer \<times> proof_result entries" where
  "spvProof deps q es =
     (if \<not> isTxid (pq_display q) then (BadTxid, es)
      else (case asked_confirmations deps (pq_confirmations q) of
        None \<Rightarrow> (BadConfirmations, es)
      | Some confs \<Rightarrow>
          let normalized = toLowerCase (pq_display q); key = proof_key normalized confs in
          (case ttl_get key (pq_start q) es of
             (Some result, es1) \<Rightarrow> (light_client_check confs (pq_lightClientTip q) result, es1)
           | (None, es1) \<Rightarrow>
               (case computeProof deps (pq_client q) normalized confs of
                  Inl e \<Rightarrow> (proof_failure e, es1)
                | Inr (result, ttlMs) \<Rightarrow>
                    (light_client_check confs (pq_lightClientTip q) result, ttl_set (pr_cacheMaxEntries deps) key result ttlMs (pq_end q) es1)))))"

fun proof_run :: "proof_deps \<Rightarrow> proof_request list \<Rightarrow> proof_result entries \<Rightarrow> proof_answer list" where
  "proof_run deps [] es = []"
| "proof_run deps (q # qs) es = (case spvProof deps q es of (a, es') \<Rightarrow> a # proof_run deps qs es')"

section \<open>What is handed out\<close>

text \<open>The transaction and confirmations a well-formed request asks for.\<close>

definition asked :: "proof_deps \<Rightarrow> proof_request \<Rightarrow> (string \<times> int) option" where
  "asked deps q = (if isTxid (pq_display q) then map_option (Pair (toLowerCase (pq_display q))) (asked_confirmations deps (pq_confirmations q)) else None)"

definition proof_cached :: "proof_deps \<Rightarrow> proof_request list \<Rightarrow> proof_result entries \<Rightarrow> bool" where
  "proof_cached deps past es \<longleftrightarrow> js_ok es \<and> (\<forall>key e. js_get es key = Some e \<longrightarrow> (\<exists>p i n ttl. p \<in> set past \<and> asked deps p = Some (i, n)
     \<and> key = proof_key i n \<and> computeProof deps (pq_client p) i n = Inr (ce_value e, ttl) \<and> ce_expiresAt e = pq_end p + ttl))"

lemma int_str_inject: "int_str n = int_str m \<longleftrightarrow> n = m"
  by (metis int_literal_str option.inject)

lemma proof_key_inject: "length i = length j \<Longrightarrow> proof_key i n = proof_key j m \<Longrightarrow> i = j \<and> n = m"
  by (auto simp: proof_key_def int_str_inject)

lemma asked_length: "asked deps q = Some (i, n) \<Longrightarrow> length i = 64"
  by (auto simp: asked_def isTxid_def toLowerCase_def split: if_splits)

text \<open>What a request that is answered with a result was answered from: its own build, or one before it that still keeps.\<close>

definition proof_source :: "proof_deps \<Rightarrow> proof_request list \<Rightarrow> proof_request \<Rightarrow> proof_result \<Rightarrow> bool" where
  "proof_source deps past q result \<longleftrightarrow> (\<exists>i n p ttl. asked deps q = Some (i, n) \<and> asked deps p = Some (i, n)
     \<and> computeProof deps (pq_client p) i n = Inr (result, ttl) \<and> (p = q \<or> p \<in> set past \<and> pq_start q < pq_end p + ttl))"

lemma light_client_ok:
  "light_client_check n tip result = Answered r \<Longrightarrow> r = result \<and> (\<forall>b l. result = ProofOk b \<and> tip = Some l \<longrightarrow> blockHeight b + n - 1 \<le> l)"
  by (auto simp: light_client_check_def split: proof_result.splits option.splits if_splits)

lemma answered_source:
  assumes "a = light_client_check n (pq_lightClientTip q) r" "asked deps q = Some (i, n)" "proof_source deps past q r"
  shows "\<forall>result. a = Answered result \<longrightarrow> proof_source deps past q result
      \<and> (\<forall>b l i n. result = ProofOk b \<and> pq_lightClientTip q = Some l \<and> asked deps q = Some (i, n) \<longrightarrow> blockHeight b + n - 1 \<le> l)"
proof (intro allI impI)
  fix result assume "a = Answered result"
  with assms(1) have "light_client_check n (pq_lightClientTip q) r = Answered result" by simp
  from light_client_ok [OF this] assms(2,3) show "proof_source deps past q result
      \<and> (\<forall>b l i n. result = ProofOk b \<and> pq_lightClientTip q = Some l \<and> asked deps q = Some (i, n) \<longrightarrow> blockHeight b + n - 1 \<le> l)" by auto
qed

lemma spvProof_step:
  assumes cached: "proof_cached deps past es" and step: "spvProof deps q es = (a, es')"
  shows "proof_cached deps (past @ [q]) es'"
    and "a = Answered result \<Longrightarrow> proof_source deps past q result
      \<and> (\<forall>b l i n. result = ProofOk b \<and> pq_lightClientTip q = Some l \<and> asked deps q = Some (i, n) \<longrightarrow> blockHeight b + n - 1 \<le> l)"
proof -
  have ok: "js_ok es" and entry: "\<And>key e. js_get es key = Some e \<Longrightarrow> \<exists>p i n ttl. p \<in> set past \<and> asked deps p = Some (i, n)
     \<and> key = proof_key i n \<and> computeProof deps (pq_client p) i n = Inr (ce_value e, ttl) \<and> ce_expiresAt e = pq_end p + ttl"
    using cached unfolding proof_cached_def by blast+
  have keep: "proof_cached deps (past @ [q]) (snd (ttl_get key t es))" for key t
    unfolding proof_cached_def
  proof (intro conjI allI impI)
    fix k e assume "js_get (snd (ttl_get key t es)) k = Some e"
    from entry [OF ttl_get_sub [OF ok this]] show "\<exists>p i n ttl. p \<in> set (past @ [q]) \<and> asked deps p = Some (i, n)
     \<and> k = proof_key i n \<and> computeProof deps (pq_client p) i n = Inr (ce_value e, ttl) \<and> ce_expiresAt e = pq_end p + ttl" by auto
  qed (rule ttl_get_ok [OF ok])
  have same: "proof_cached deps (past @ [q]) es"
    unfolding proof_cached_def
  proof (intro conjI allI impI)
    fix k e assume "js_get es k = Some e"
    from entry [OF this] show "\<exists>p i n ttl. p \<in> set (past @ [q]) \<and> asked deps p = Some (i, n)
     \<and> k = proof_key i n \<and> computeProof deps (pq_client p) i n = Inr (ce_value e, ttl) \<and> ce_expiresAt e = pq_end p + ttl" by auto
  qed (rule ok)
  have "proof_cached deps (past @ [q]) es' \<and> (\<forall>result. a = Answered result \<longrightarrow> proof_source deps past q result
      \<and> (\<forall>b l i n. result = ProofOk b \<and> pq_lightClientTip q = Some l \<and> asked deps q = Some (i, n) \<longrightarrow> blockHeight b + n - 1 \<le> l))"
  proof (cases "asked deps q")
    case None
    then have "es' = es \<and> (a = BadTxid \<or> a = BadConfirmations)" using step by (auto simp: spvProof_def asked_def split: if_splits option.splits)
    with same show ?thesis by auto
  next
    case (Some x)
    obtain i n where x: "x = (i, n)" by (cases x)
    with Some have q: "isTxid (pq_display q)" "asked_confirmations deps (pq_confirmations q) = Some n" "i = toLowerCase (pq_display q)"
      by (auto simp: asked_def split: if_splits)
    obtain v es1 where get: "ttl_get (proof_key i n) (pq_start q) es = (v, es1)" by fastforce
    show ?thesis
    proof (cases v)
      case hit: (Some r)
      have out: "a = light_client_check n (pq_lightClientTip q) r" "es' = es1" using step q get hit by (simp_all add: spvProof_def Let_def)
      obtain e where e: "js_get es (proof_key i n) = Some e" "ce_value e = r" "pq_start q < ce_expiresAt e"
        using ttl_get_same(2) [OF get [unfolded hit] ok] by blast
      from entry [OF e(1)] obtain p j m ttl where p: "p \<in> set past" "asked deps p = Some (j, m)" "proof_key i n = proof_key j m"
        "computeProof deps (pq_client p) j m = Inr (ce_value e, ttl)" "ce_expiresAt e = pq_end p + ttl" by blast
      have "j = i" "m = n" using proof_key_inject [OF _ p(3)] asked_length p(2) Some x by metis+
      then have "proof_source deps past q r" unfolding proof_source_def using Some x p e by auto
      moreover have "proof_cached deps (past @ [q]) es'" using keep [of "proof_key i n" "pq_start q"] get out(2) by simp
      ultimately show ?thesis using answered_source [OF out(1) Some [unfolded x]] by blast
    next
      case None
      have es1: "proof_cached deps (past @ [q]) es1" using keep [of "proof_key i n" "pq_start q"] get by simp
      show ?thesis
      proof (cases "computeProof deps (pq_client q) i n")
        case (Inl e)
        then have "a = proof_failure e" "es' = es1" using step q get None by (simp_all add: spvProof_def Let_def)
        then show ?thesis using es1 by (auto simp: proof_failure_def split: spv_error.splits if_splits)
      next
        case (Inr y)
        obtain r ttl where y: "y = (r, ttl)" by (cases y)
        have out: "a = light_client_check n (pq_lightClientTip q) r" "es' = ttl_set (pr_cacheMaxEntries deps) (proof_key i n) r ttl (pq_end q) es1"
          using step q get None Inr y by (simp_all add: spvProof_def Let_def)
        have "proof_source deps past q r" unfolding proof_source_def using Some x Inr y by blast
        moreover have "proof_cached deps (past @ [q]) es'"
          unfolding proof_cached_def out(2)
        proof (intro conjI allI impI)
          have ok1: "js_ok es1" using es1 by (simp add: proof_cached_def)
          then show "js_ok (ttl_set (pr_cacheMaxEntries deps) (proof_key i n) r ttl (pq_end q) es1)" by (rule ttl_set_get(2))
          fix k e assume "js_get (ttl_set (pr_cacheMaxEntries deps) (proof_key i n) r ttl (pq_end q) es1) k = Some e"
          from ttl_set_get(1) [OF ok1 this] show "\<exists>p i n ttl. p \<in> set (past @ [q]) \<and> asked deps p = Some (i, n)
             \<and> k = proof_key i n \<and> computeProof deps (pq_client p) i n = Inr (ce_value e, ttl) \<and> ce_expiresAt e = pq_end p + ttl"
          proof
            assume "js_get es1 k = Some e"
            with es1 show ?thesis unfolding proof_cached_def by blast
          next
            assume "k = proof_key i n \<and> e = \<lparr>ce_value = r, ce_expiresAt = pq_end q + ttl\<rparr>"
            then show ?thesis using Some x Inr y by (intro exI [of _ q] exI [of _ i] exI [of _ n] exI [of _ ttl]) simp
          qed
        qed
        ultimately show ?thesis using answered_source [OF out(1) Some [unfolded x]] by blast
      qed
    qed
  qed
  then show "proof_cached deps (past @ [q]) es'" "a = Answered result \<Longrightarrow> proof_source deps past q result
      \<and> (\<forall>b l i n. result = ProofOk b \<and> pq_lightClientTip q = Some l \<and> asked deps q = Some (i, n) \<longrightarrow> blockHeight b + n - 1 \<le> l)" by blast+
qed

lemma proof_run_sources:
  "proof_cached deps past es \<Longrightarrow> j < length qs \<Longrightarrow> proof_run deps qs es ! j = Answered result \<Longrightarrow> proof_source deps (past @ take j qs) (qs ! j) result
   \<and> (\<forall>b l i n. result = ProofOk b \<and> pq_lightClientTip (qs ! j) = Some l \<and> asked deps (qs ! j) = Some (i, n) \<longrightarrow> blockHeight b + n - 1 \<le> l)"
proof (induction qs arbitrary: past es j)
  case (Cons q qs)
  obtain a es' where step: "spvProof deps q es = (a, es')" by fastforce
  note new = spvProof_step [OF Cons.prems(1) step]
  show ?case
  proof (cases j)
    case 0
    then show ?thesis using new(2) [of result] Cons.prems(3) step by simp
  next
    case (Suc m)
    then show ?thesis using Cons.IH [OF new(1), of m] Cons.prems(2,3) step by simp
  qed
qed simp

lemma computeProof_ok:
  "computeProof deps client i n = Inr (ProofOk b, ttl) \<Longrightarrow> buildSPVProof i n client = Inr b
   \<and> ttl = (if DEEP_CONFIRMATION_DEPTH \<le> bitcoinTipHeight b - blockHeight b + 1 then pr_cacheTtlMs deps else SHORT_TTL_MS)"
  by (auto simp: computeProof_def Let_def split: sum.splits spv_error.splits if_splits)

text \<open>C38. A proof that is handed out was built for the very transaction and number of confirmations asked for, by this request
  or by one before it that is no older than its cache time, the long one only for blocks past the depth reorganisations
  are re-submitted to; and where the light client's tip is known, it holds every block the proof needs.\<close>

theorem served_proofs_stand:
  assumes "j < length qs" "proof_run deps qs [] ! j = Answered (ProofOk b)"
  shows "\<exists>i n k. asked deps (qs ! j) = Some (i, n) \<and> k \<le> j \<and> asked deps (qs ! k) = Some (i, n)
    \<and> buildSPVProof i n (pq_client (qs ! k)) = Inr b
    \<and> (k = j \<or> pq_start (qs ! j) < pq_end (qs ! k)
        + (if DEEP_CONFIRMATION_DEPTH \<le> bitcoinTipHeight b - blockHeight b + 1 then pr_cacheTtlMs deps else SHORT_TTL_MS))
    \<and> (\<forall>l. pq_lightClientTip (qs ! j) = Some l \<longrightarrow> blockHeight b + n - 1 \<le> l)"
proof -
  have "proof_cached deps [] []" by (simp add: proof_cached_def)
  note run = proof_run_sources [OF this assms, simplified]
  from run have "proof_source deps (take j qs) (qs ! j) (ProofOk b)" by blast
  then obtain i n p ttl where p: "asked deps (qs ! j) = Some (i, n)" "asked deps p = Some (i, n)"
    "computeProof deps (pq_client p) i n = Inr (ProofOk b, ttl)" "p = qs ! j \<or> p \<in> set (take j qs) \<and> pq_start (qs ! j) < pq_end p + ttl"
    unfolding proof_source_def by blast
  obtain k where k: "k \<le> j" "qs ! k = p" "k = j \<or> pq_start (qs ! j) < pq_end p + ttl"
  proof (cases "p = qs ! j")
    case False
    with p(4) have late: "p \<in> set (take j qs)" "pq_start (qs ! j) < pq_end p + ttl" by auto
    then obtain m where "m < length (take j qs)" "take j qs ! m = p" by (auto simp: in_set_conv_nth)
    then have "m \<le> j" "qs ! m = p" by simp_all
    with late(2) show ?thesis by (intro that [of m]) auto
  qed (use that [of j] in simp)
  show ?thesis
    using p(1,2) k run computeProof_ok [OF p(3)] by (intro exI [of _ i] exI [of _ n] exI [of _ k]) auto
qed

text \<open>Two requests for the bundle of \<^verbatim>\<open>SpvProof\<close>, the second from the cache.\<close>

definition qx_deps :: proof_deps where
  "qx_deps = \<lparr>pr_cacheMaxEntries = 10, pr_cacheTtlMs = 60000, pr_defaultConfirmations = 2, pr_maxConfirmations = 20\<rparr>"

definition qx_request :: "int \<Rightarrow> proof_request" where
  "qx_request t = \<lparr>pq_display = replicate 64 CHR ''a'', pq_confirmations = None, pq_client = sample_client, pq_lightClientTip = Some 101, pq_start = t, pq_end = t\<rparr>"

definition qx_bundle :: "string \<Rightarrow> spv_bundle" where
  "qx_bundle i = \<lparr>txid = i, rawTxNoWitness = ''0200'', blockHash = ''bbaa'', txIndex = 3, merkleProof = [''0201''], headers = [''aabb00'', ''ccdd00''],
     blockHeight = 100, confirmations = 2, bitcoinTipHeight = 101\<rparr>"

lemma qx_build: "buildSPVProof (replicate 64 CHR ''a'') 2 sample_client = Inr (qx_bundle (replicate 64 CHR ''a''))"
  by code_simp

lemma qx_run: "proof_run qx_deps [qx_request 0, qx_request 9] [] ! 1 = Answered (ProofOk (qx_bundle (replicate 64 CHR ''a'')))"
  by (simp add: qx_request_def spvProof_def sx_hex asked_confirmations_def qx_deps_def ttl_get_def computeProof_def qx_build light_client_check_def
      ttl_set_def SHORT_TTL_MS_def DEEP_CONFIRMATION_DEPTH_def REORG_RESUBMIT_DEPTH_def Let_def) (simp add: qx_bundle_def)

lemma served_proofs_stand_witness:
  "proof_run qx_deps [qx_request 0, qx_request 9] [] ! 1 = Answered (ProofOk (qx_bundle (replicate 64 CHR ''a'')))
   \<and> (\<exists>k. k \<le> 1 \<and> buildSPVProof (replicate 64 CHR ''a'') 2 (pq_client ([qx_request 0, qx_request 9] ! k)) = Inr (qx_bundle (replicate 64 CHR ''a'')))"
proof -
  have "asked qx_deps (qx_request 9) = Some (replicate 64 CHR ''a'', 2)"
    by (simp add: asked_def qx_request_def sx_hex asked_confirmations_def qx_deps_def)
  then show ?thesis using served_proofs_stand [OF _ qx_run] qx_run by auto
qed

end
