(* ===== verification/VaultWatcher.thy ===== *)
theory VaultWatcher
  imports LendRebuild
begin

text \<open>
  \<^verbatim>\<open>relayer/src/vault-watcher/event-store.ts\<close>, \<^verbatim>\<open>cursor-store.ts\<close>, \<^verbatim>\<open>poller.ts\<close> and \<^verbatim>\<open>genesis-events.ts\<close>: the deposits to and
  withdrawals from the yield vault, as the relayer indexes them. The event and cursor databases are two files, so a row and the
  cursor after it are not one transaction. The RPC's answers, its latest ledger and whether an \<^verbatim>\<open>INSERT\<close> is stored are
  the parameters of a cycle; an event's close time is read as milliseconds.
\<close>

section \<open>The event store\<close>

datatype vault_kind = VDeposit | VWithdraw

record vault_event =
  ve_cursor :: string
  ve_kind :: vault_kind
  ve_depositor :: string
  ve_amountStroops :: string
  ve_ledger :: nat
  ve_txHash :: string
  ve_ledgerCloseTime :: int

text \<open>The columns of \<^verbatim>\<open>UNIQUE\<close>.\<close>

definition vault_key :: "vault_event \<Rightarrow> string \<times> string \<times> vault_kind \<times> string" where
  "vault_key e = (ve_txHash e, ve_depositor e, ve_kind e, ve_amountStroops e)"

definition insertVaultEvent :: "vault_event \<Rightarrow> vault_event list \<Rightarrow> vault_event list" where
  "insertVaultEvent e rows = insert_new vault_key e rows"

definition readAllVaultEvents :: "vault_event list \<Rightarrow> vault_event list" where
  "readAllVaultEvents rows = sort_key ve_ledgerCloseTime rows"

record vault_store =
  vs_cursor :: "string option"
  vs_rows :: "vault_event list"

definition writeCursor :: "string \<Rightarrow> vault_store \<Rightarrow> cursor_error + vault_store" where
  "writeCursor c s = res_bind (assertValidCursor c) (\<lambda>_. Inr (s\<lparr>vs_cursor := Some c\<rparr>))"

section \<open>Decoding\<close>

record 'x raw_vault_event =
  vr_id :: string
  vr_topic :: "'x list"
  vr_value :: 'x
  vr_ledger :: nat
  vr_closedAtMs :: int
  vr_txHash :: string

record decoded_vault_event =
  dv_kind :: "vault_kind option"
  dv_depositor :: "string option"
  dv_amountStroops :: "string option"

datatype vault_decode_error = NotAnObject | NotAmounts

definition CONTRACT_TAG :: string where "CONTRACT_TAG = ''DeFindexVault''"
definition DEPOSIT_TOPIC :: string where "DEPOSIT_TOPIC = ''deposit''"
definition WITHDRAW_TOPIC :: string where "WITHDRAW_TOPIC = ''withdraw''"

definition native_field :: "native \<Rightarrow> string \<Rightarrow> vault_decode_error + native option" where
  "native_field v k = (case v of NMap kvs \<Rightarrow> Inr (map_of kvs k) | NNull \<Rightarrow> Inl NotAnObject | _ \<Rightarrow> Inr None)"

text \<open>
  \<^verbatim>\<open>(amounts ?? []).reduce((sum, a) => sum + a, 0n)\<close>. The amounts are a vector of \<^verbatim>\<open>i128\<close> in the vault's source and so a list of
  \<^verbatim>\<open>bigint\<close>; anything else is an error.
\<close>

fun bigint_sum :: "int \<Rightarrow> native list \<Rightarrow> vault_decode_error + int" where
  "bigint_sum acc [] = Inr acc"
| "bigint_sum acc (NBig a # xs) = bigint_sum (acc + a) xs"
| "bigint_sum acc (_ # xs) = Inl NotAmounts"

definition amounts_total :: "native option \<Rightarrow> vault_decode_error + int" where
  "amounts_total v = (case v of None \<Rightarrow> Inr 0 | Some NNull \<Rightarrow> Inr 0 | Some (NList xs) \<Rightarrow> bigint_sum 0 xs | Some _ \<Rightarrow> Inl NotAmounts)"

definition vault_nothing :: decoded_vault_event where
  "vault_nothing = \<lparr>dv_kind = None, dv_depositor = None, dv_amountStroops = None\<rparr>"

definition decodeVaultEvent :: "'x sdk \<Rightarrow> 'x raw_vault_event \<Rightarrow> vault_decode_error + decoded_vault_event" where
  "decodeVaultEvent sdk e =
     (let contractTag = (case vr_topic e of t # _ \<Rightarrow> Some (scValToNative sdk t) | [] \<Rightarrow> None);
          eventTag = (case vr_topic e of _ # t # _ \<Rightarrow> Some (scValToNative sdk t) | _ \<Rightarrow> None);
          kind = (if eventTag = Some (NStr DEPOSIT_TOPIC) then Some VDeposit
                  else if eventTag = Some (NStr WITHDRAW_TOPIC) then Some VWithdraw else None)
      in if contractTag \<noteq> Some (NStr CONTRACT_TAG) then Inr vault_nothing
         else (case kind of
           None \<Rightarrow> Inr vault_nothing
         | Some k \<Rightarrow>
             let v = scValToNative sdk (vr_value e) in
             res_bind (native_field v (if k = VDeposit then ''depositor'' else ''withdrawer'')) (\<lambda>d.
             res_bind (native_field v (if k = VDeposit then ''amounts'' else ''amounts_withdrawn'')) (\<lambda>a.
             res_bind (amounts_total a) (\<lambda>total.
               let depositor = (case d of Some (NStr s) \<Rightarrow> Some s | _ \<Rightarrow> None)
               in Inr \<lparr>dv_kind = Some k, dv_depositor = depositor,
                       dv_amountStroops = (if depositor = None \<or> depositor = Some [] then None else Some (int_str total))\<rparr>)))))"

section \<open>The poll cycle\<close>

text \<open>The row a decoded event calls for, if any.\<close>

definition vault_row :: "string \<Rightarrow> 'x raw_vault_event \<Rightarrow> decoded_vault_event \<Rightarrow> vault_event option" where
  "vault_row cursor e d =
     (case (dv_kind d, dv_depositor d, dv_amountStroops d) of
        (Some k, Some who, Some amount) \<Rightarrow>
          if who = [] then None
          else Some \<lparr>ve_cursor = cursor, ve_kind = k, ve_depositor = who, ve_amountStroops = amount, ve_ledger = vr_ledger e,
                     ve_txHash = vr_txHash e, ve_ledgerCloseTime = vr_closedAtMs e div 1000\<rparr>
      | _ \<Rightarrow> None)"

record 'x vault_answers =
  va_getEvents :: "events_request \<Rightarrow> string + 'x raw_vault_event page"
  va_latestLedger :: "string + nat"
  va_stored :: "nat \<Rightarrow> bool"  \<comment> \<open>whether the \<open>n\<close>-th row of the batch is written\<close>

datatype 'd vault_poll_error = VaultRpc string | VaultDecode 'd | VaultCursor cursor_error

text \<open>The loop over a batch: the rows and whether a write failed, or the error that ended the loop.\<close>

fun vault_batch ::
    "('x raw_vault_event \<Rightarrow> 'd + decoded_vault_event) \<Rightarrow> (nat \<Rightarrow> bool) \<Rightarrow> string \<Rightarrow> nat \<Rightarrow> 'x raw_vault_event list
     \<Rightarrow> vault_event list \<Rightarrow> bool \<Rightarrow> vault_event list \<times> ('d + bool)" where
  "vault_batch decode stored cursor n [] rows sawFailure = (rows, Inr sawFailure)"
| "vault_batch decode stored cursor n (e # es) rows sawFailure =
     (case decode e of
        Inl x \<Rightarrow> (rows, Inl x)
      | Inr d \<Rightarrow>
          (case vault_row cursor e d of
             None \<Rightarrow> vault_batch decode stored cursor n es rows sawFailure
           | Some r \<Rightarrow>
               if stored n then vault_batch decode stored cursor (Suc n) es (insertVaultEvent r rows) sawFailure
               else vault_batch decode stored cursor (Suc n) es rows True))"

definition vault_request :: "'x vault_answers \<Rightarrow> vault_store \<Rightarrow> string + events_request" where
  "vault_request a s =
     (case vs_cursor s of
        Some c \<Rightarrow> Inr (FromCursor c)
      | None \<Rightarrow> res_bind (va_latestLedger a) (\<lambda>l. Inr (FromLedger l)))"

text \<open>A cycle; \<^const>\<open>True\<close> when the cursor was written.\<close>

definition runVaultPollCycle ::
    "('x raw_vault_event \<Rightarrow> 'd + decoded_vault_event) \<Rightarrow> 'x vault_answers \<Rightarrow> vault_store \<Rightarrow> vault_store \<times> ('d vault_poll_error + bool)" where
  "runVaultPollCycle decode a s =
     (case res_bind (vault_request a s) (va_getEvents a) of
        Inl m \<Rightarrow> (s, Inl (VaultRpc m))
      | Inr p \<Rightarrow>
          (case vault_batch decode (va_stored a) (page_cursor p) 0 (page_events p) (vs_rows s) False of
             (rows, Inl x) \<Rightarrow> (s\<lparr>vs_rows := rows\<rparr>, Inl (VaultDecode x))
           | (rows, Inr True) \<Rightarrow> (s\<lparr>vs_rows := rows\<rparr>, Inr False)
           | (rows, Inr False) \<Rightarrow>
               (case writeCursor (page_cursor p) (s\<lparr>vs_rows := rows\<rparr>) of
                  Inl x \<Rightarrow> (s\<lparr>vs_rows := rows\<rparr>, Inl (VaultCursor x))
                | Inr s' \<Rightarrow> (s', Inr True))))"

section \<open>The backfill\<close>

definition TESTNET_PASSPHRASE :: string where "TESTNET_PASSPHRASE = ''Test SDF Network ; September 2015''"
definition MAINNET_PASSPHRASE :: string where "MAINNET_PASSPHRASE = ''Public Global Stellar Network ; September 2015''"

definition GENESIS_VAULT_ID :: string where "GENESIS_VAULT_ID = ''CBMHGL7GGGHODEDDJ5H2LKJEFHJWBRSQUKOXMC4FKOFDZK5HBKW6PI2S''"
definition MAINNET_GENESIS_VAULT_ID :: string where "MAINNET_GENESIS_VAULT_ID = ''CDODNWQY54F4WS7AZ5Z3AAIWRLKBFUMXHNOFEM4H3UNCTMFK4RF2A6GU''"

definition GENESIS_VAULT_EVENTS :: "vault_event list" where
  "GENESIS_VAULT_EVENTS = [\<lparr>ve_cursor = ''backfill:horizon:tx-e80b9bab14'', ve_kind = VDeposit,
     ve_depositor = ''GB2BSYQS3FRJ5LZSSIDF3ZCSG5MKWJT5SZ3OZO4QRCAMCR357YAVPTWT'', ve_amountStroops = ''200000000'', ve_ledger = 4473923,
     ve_txHash = ''e80b9bab145824fab252846b1c95da9d57cfb93cbdeab7ae7a91d4105450bf61'', ve_ledgerCloseTime = 1788393202\<rparr>]"

definition MAINNET_GENESIS_VAULT_EVENTS :: "vault_event list" where
  "MAINNET_GENESIS_VAULT_EVENTS = [\<lparr>ve_cursor = ''backfill:horizon:tx-a157bddff9'', ve_kind = VDeposit,
     ve_depositor = ''GBQRR7SXDZFKQCUHFAIVYEDVQTD6DTWC2OKMNS63ETF2ORG6KJZUO7NH'', ve_amountStroops = ''200000000'', ve_ledger = 64706364,
     ve_txHash = ''a157bddff915ecbfea9bab72dd0ed0fd5d324bf9b3e571b323521e281e51357d'', ve_ledgerCloseTime = 1790817602\<rparr>]"

definition GENESIS :: "(string \<times> string \<times> vault_event list) list" where
  "GENESIS = [(GENESIS_VAULT_ID, TESTNET_PASSPHRASE, GENESIS_VAULT_EVENTS),
              (MAINNET_GENESIS_VAULT_ID, MAINNET_PASSPHRASE, MAINNET_GENESIS_VAULT_EVENTS)]"

definition genesis_of :: "string \<Rightarrow> string \<Rightarrow> vault_event list" where
  "genesis_of vaultId passphrase =
     (case find (\<lambda>(v, p, _). v = trim vaultId \<and> p = trim passphrase) GENESIS of None \<Rightarrow> [] | Some (_, _, es) \<Rightarrow> es)"

fun seed_events :: "(nat \<Rightarrow> bool) \<Rightarrow> nat \<Rightarrow> vault_event list \<Rightarrow> vault_event list \<Rightarrow> vault_event list \<times> nat" where
  "seed_events stored n [] rows = (rows, 0)"
| "seed_events stored n (e # es) rows =
     (if stored n then (case seed_events stored (Suc n) es (insertVaultEvent e rows) of (rows', k) \<Rightarrow> (rows', Suc k))
      else seed_events stored (Suc n) es rows)"

definition seedGenesisVaultEvents :: "string \<Rightarrow> string \<Rightarrow> (nat \<Rightarrow> bool) \<Rightarrow> vault_store \<Rightarrow> vault_store \<times> nat" where
  "seedGenesisVaultEvents vaultId passphrase stored s =
     (case seed_events stored 0 (genesis_of vaultId passphrase) (vs_rows s) of (rows, k) \<Rightarrow> (s\<lparr>vs_rows := rows\<rparr>, k))"

section \<open>Runs\<close>

text \<open>What happens to the store of one vault: a boot of the relayer, which seeds, or a cycle.\<close>

datatype 'x vault_action = Boot "nat \<Rightarrow> bool" | Cycle "'x vault_answers"

fun vault_step ::
    "('x raw_vault_event \<Rightarrow> 'd + decoded_vault_event) \<Rightarrow> string \<Rightarrow> string \<Rightarrow> 'x vault_action \<Rightarrow> vault_store \<Rightarrow> vault_store" where
  "vault_step decode vaultId passphrase (Boot stored) s = fst (seedGenesisVaultEvents vaultId passphrase stored s)"
| "vault_step decode vaultId passphrase (Cycle a) s = fst (runVaultPollCycle decode a s)"

definition vault_run ::
    "('x raw_vault_event \<Rightarrow> 'd + decoded_vault_event) \<Rightarrow> string \<Rightarrow> string \<Rightarrow> 'x vault_action list \<Rightarrow> vault_store \<Rightarrow> vault_store" where
  "vault_run decode vaultId passphrase steps s = fold (vault_step decode vaultId passphrase) steps s"

section \<open>What the rows are\<close>

text \<open>The row an event of the chain calls for, but for the column that says at which cursor it was read.\<close>

definition vault_want :: "('x raw_vault_event \<Rightarrow> 'd + decoded_vault_event) \<Rightarrow> 'x raw_vault_event \<Rightarrow> vault_event option" where
  "vault_want decode e = (case decode e of Inl _ \<Rightarrow> None | Inr d \<Rightarrow> vault_row [] e d)"

lemma vault_row_cursor: "vault_row c e d = map_option (\<lambda>r. r\<lparr>ve_cursor := c\<rparr>) (vault_row [] e d)"
  by (simp add: vault_row_def split: option.splits)

lemma vault_key_cursor [simp]: "vault_key (r\<lparr>ve_cursor := c\<rparr>) = vault_key r"
  by (simp add: vault_key_def)

lemma vault_row_want: "decode e = Inr d \<Longrightarrow> vault_row c e d = Some r \<Longrightarrow> vault_want decode e = Some (r\<lparr>ve_cursor := []\<rparr>)"
proof -
  assume d: "decode e = Inr d" and r: "vault_row c e d = Some r"
  from r obtain r' where r': "vault_row [] e d = Some r'" "r = r'\<lparr>ve_cursor := c\<rparr>" unfolding vault_row_cursor [of c] by auto
  from r'(1) have "ve_cursor r' = []" by (auto simp: vault_row_def split: option.splits if_splits)
  with r' d show ?thesis by (simp add: vault_want_def)
qed

lemma vault_want_row: "decode e = Inr d \<Longrightarrow> vault_want decode e = Some r \<Longrightarrow> vault_row c e d = Some (r\<lparr>ve_cursor := c\<rparr>)"
  unfolding vault_row_cursor [of c] by (simp add: vault_want_def)

lemma vault_rows_distinct: "distinct (map vault_key rows) \<Longrightarrow> distinct (map vault_key (insertVaultEvent r rows))"
  using distinct_insert_new [of vault_key rows "[r]"] by (simp add: insertVaultEvent_def)

lemma insertVaultEvent_cases:
  obtains "insertVaultEvent r rows = rows" "vault_key r \<in> vault_key ` set rows"
  | "insertVaultEvent r rows = rows @ [r]" "vault_key r \<notin> vault_key ` set rows"
proof (cases "list_ex (\<lambda>x. vault_key x = vault_key r) rows")
  case True
  then have "vault_key r \<in> vault_key ` set rows" by (auto simp: list_ex_iff intro: rev_image_eqI)
  with True that(1) show ?thesis by (simp add: insertVaultEvent_def insert_new_def)
next
  case False
  then have "vault_key r \<notin> vault_key ` set rows" by (auto simp: list_ex_iff)
  with False that(2) show ?thesis by (simp add: insertVaultEvent_def insert_new_def)
qed

text \<open>A store grows: new rows satisfy \<open>from\<close>, and no key is there twice.\<close>

definition grows :: "(vault_event \<Rightarrow> bool) \<Rightarrow> vault_event list \<Rightarrow> vault_event list \<Rightarrow> bool" where
  "grows origin rows rows' \<longleftrightarrow> (\<exists>new. rows' = rows @ new \<and> (\<forall>r\<in>set new. origin r))
     \<and> (distinct (map vault_key rows) \<longrightarrow> distinct (map vault_key rows'))"

lemma grows_refl [simp]: "grows origin rows rows"
  by (simp add: grows_def)

lemma grows_trans: "grows origin a b \<Longrightarrow> grows origin b c \<Longrightarrow> grows origin a c"
proof -
  assume ab: "grows origin a b" and bc: "grows origin b c"
  from ab obtain x where "b = a @ x" "\<forall>r\<in>set x. origin r" by (auto simp: grows_def)
  moreover from bc obtain y where "c = b @ y" "\<forall>r\<in>set y. origin r" by (auto simp: grows_def)
  ultimately have "c = a @ (x @ y) \<and> (\<forall>r\<in>set (x @ y). origin r)" by auto
  with ab bc show ?thesis unfolding grows_def by blast
qed

lemma grows_mono: "grows origin a b \<Longrightarrow> (\<And>r. origin r \<Longrightarrow> origin' r) \<Longrightarrow> grows origin' a b"
  unfolding grows_def by blast

lemma grows_keys: "grows origin a b \<Longrightarrow> vault_key ` set a \<subseteq> vault_key ` set b"
  by (auto simp: grows_def)

lemma grows_insert: "origin r \<Longrightarrow> grows origin rows (insertVaultEvent r rows)"
  using vault_rows_distinct [of rows r] by (cases rule: insertVaultEvent_cases [of r rows]) (auto simp: grows_def)

lemma insert_key: "vault_key r \<in> vault_key ` set (insertVaultEvent r rows)"
  by (cases rule: insertVaultEvent_cases [of r rows]) auto

lemma vault_batch_rows:
  "vault_batch decode stored c n es rows f = (rows', res) \<Longrightarrow>
     grows (\<lambda>r. \<exists>e\<in>set es. vault_want decode e = Some (r\<lparr>ve_cursor := []\<rparr>)) rows rows'
     \<and> (res = Inr False \<longrightarrow> \<not> f \<and> (\<forall>e\<in>set es. is_ok (decode e)
         \<and> (\<forall>r. vault_want decode e = Some r \<longrightarrow> vault_key r \<in> vault_key ` set rows')))"
proof (induction decode stored c n es rows f rule: vault_batch.induct)
  case (2 decode stored c n e es rows f)
  let ?from = "\<lambda>es r. \<exists>e\<in>set es. vault_want decode e = Some (r\<lparr>ve_cursor := []\<rparr>)"
  show ?case
  proof (cases "decode e")
    case (Inl x)
    with "2.prems" show ?thesis by auto
  next
    case d: (Inr d)
    show ?thesis
    proof (cases "vault_row c e d")
      case None
      then have "vault_want decode e = None" using d vault_row_cursor [of c e d] by (simp add: vault_want_def)
      moreover have "grows (?from es) rows rows' \<and> (res = Inr False \<longrightarrow> \<not> f \<and> (\<forall>e\<in>set es. is_ok (decode e)
         \<and> (\<forall>r. vault_want decode e = Some r \<longrightarrow> vault_key r \<in> vault_key ` set rows')))"
        using "2.IH"(1) [OF d None] "2.prems" d None by simp
      ultimately show ?thesis using d grows_mono [of "?from es" rows rows' "?from (e # es)"] by auto
    next
      case (Some r)
      have want: "vault_want decode e = Some (r\<lparr>ve_cursor := []\<rparr>)" by (rule vault_row_want [of decode e, OF d Some])
      show ?thesis
      proof (cases "stored n")
        case True
        then have ih: "grows (?from es) (insertVaultEvent r rows) rows'" "res = Inr False \<longrightarrow> \<not> f \<and> (\<forall>e\<in>set es. is_ok (decode e)
           \<and> (\<forall>r. vault_want decode e = Some r \<longrightarrow> vault_key r \<in> vault_key ` set rows'))"
          using "2.IH"(2) [OF d Some True] "2.prems" d Some by simp_all
        have "grows (?from (e # es)) rows (insertVaultEvent r rows)" using want by (intro grows_insert) auto
        moreover have "grows (?from (e # es)) (insertVaultEvent r rows) rows'" using grows_mono [OF ih(1)] by auto
        ultimately have "grows (?from (e # es)) rows rows'" by (rule grows_trans)
        moreover have "vault_key r \<in> vault_key ` set rows'" using grows_keys [OF ih(1)] insert_key by blast
        ultimately show ?thesis using ih(2) want d by auto
      next
        case False
        then have "grows (?from es) rows rows'" "res \<noteq> Inr False" using "2.IH"(3) [OF d Some False] "2.prems" d Some by simp_all
        then show ?thesis using grows_mono [of "?from es" rows rows' "?from (e # es)"] by auto
      qed
    qed
  qed
qed auto

lemma seed_events_rows: "grows (\<lambda>r. r \<in> set es) rows (fst (seed_events stored n es rows))"
proof (induction stored n es rows rule: seed_events.induct)
  case (2 stored n e es rows)
  show ?case
  proof (cases "stored n")
    case True
    have "grows (\<lambda>r. r \<in> set (e # es)) (insertVaultEvent e rows) (fst (seed_events stored (Suc n) es (insertVaultEvent e rows)))"
      using grows_mono [OF "2.IH"(1) [OF True]] by auto
    moreover have "grows (\<lambda>r. r \<in> set (e # es)) rows (insertVaultEvent e rows)" by (intro grows_insert) simp
    ultimately show ?thesis using True grows_trans by (auto split: prod.splits)
  next
    case False
    then show ?thesis using grows_mono [OF "2.IH"(2) [OF False]] by auto
  qed
qed simp

text \<open>
  The server answers with the events of the chain, and the cursor of an answer is never before the start of its request.
\<close>

definition vault_server :: "'x raw_vault_event list \<Rightarrow> 'x vault_answers \<Rightarrow> bool" where
  "vault_server chain a \<longleftrightarrow> (\<forall>req p. va_getEvents a req = Inr p \<longrightarrow> serves vr_id chain req p
     \<and> (\<forall>e\<in>set chain. page_cursor p < vr_id e \<longrightarrow> past_start req (vr_id e)))"

text \<open>What the store owes to the chain from the request \<open>req\<close> on, whose cycle was the first to complete.\<close>

definition vault_origin ::
    "('x raw_vault_event \<Rightarrow> 'd + decoded_vault_event) \<Rightarrow> vault_event list \<Rightarrow> 'x raw_vault_event list \<Rightarrow> events_request \<Rightarrow> vault_event \<Rightarrow> bool" where
  "vault_origin decode genesis chain req r \<longleftrightarrow> r \<in> set genesis
     \<or> (\<exists>e\<in>set chain. past_start req (vr_id e) \<and> vault_want decode e = Some (r\<lparr>ve_cursor := []\<rparr>))"

definition vault_covers ::
    "('x raw_vault_event \<Rightarrow> 'd + decoded_vault_event) \<Rightarrow> 'x raw_vault_event list \<Rightarrow> events_request \<Rightarrow> vault_store \<Rightarrow> bool" where
  "vault_covers decode chain req s \<longleftrightarrow> (\<exists>c. vs_cursor s = Some c
     \<and> (\<forall>e\<in>set chain. past_start req (vr_id e) \<longrightarrow> vr_id e \<le> c \<longrightarrow>
          (\<forall>r. vault_want decode e = Some r \<longrightarrow> vault_key r \<in> vault_key ` set (vs_rows s)))
     \<and> (\<forall>e\<in>set chain. c < vr_id e \<longrightarrow> past_start req (vr_id e)))"

lemma runVaultPollCycle_cases:
  assumes "runVaultPollCycle decode a s = (s', out)"
  obtains (failed) m where "s' = s" "out = Inl m"
  | (batch) req p rows res where "vault_request a s = Inr req" "va_getEvents a req = Inr p"
      "vault_batch decode (va_stored a) (page_cursor p) 0 (page_events p) (vs_rows s) False = (rows, res)"
      "vs_rows s' = rows" "out = Inr True \<and> res = Inr False \<and> vs_cursor s' = Some (page_cursor p) \<or> out \<noteq> Inr True \<and> vs_cursor s' = vs_cursor s"
proof (cases "res_bind (vault_request a s) (va_getEvents a)")
  case (Inl m)
  with assms show ?thesis by (intro failed [of "VaultRpc m"]) (simp_all add: runVaultPollCycle_def)
next
  case (Inr p)
  then obtain req where req: "vault_request a s = Inr req" "va_getEvents a req = Inr p" by (auto simp: res_simps)
  obtain rows res where b: "vault_batch decode (va_stored a) (page_cursor p) 0 (page_events p) (vs_rows s) False = (rows, res)" by fastforce
  have out: "(s', out) = (case (rows, res) of
       (rows, Inl x) \<Rightarrow> (s\<lparr>vs_rows := rows\<rparr>, Inl (VaultDecode x))
     | (rows, Inr True) \<Rightarrow> (s\<lparr>vs_rows := rows\<rparr>, Inr False)
     | (rows, Inr False) \<Rightarrow> (case writeCursor (page_cursor p) (s\<lparr>vs_rows := rows\<rparr>) of
          Inl x \<Rightarrow> (s\<lparr>vs_rows := rows\<rparr>, Inl (VaultCursor x)) | Inr s' \<Rightarrow> (s', Inr True)))"
    using assms Inr b by (simp add: runVaultPollCycle_def)
  show ?thesis
    by (rule batch [OF req b])
      (use out in \<open>auto simp: writeCursor_def assertValidCursor_def split: sum.splits bool.splits if_splits\<close>)
qed

lemma vault_covers_grow:
  "vault_covers decode chain req s \<Longrightarrow> vs_cursor s' = vs_cursor s \<Longrightarrow> grows origin (vs_rows s) (vs_rows s') \<Longrightarrow> vault_covers decode chain req s'"
proof -
  assume covers: "vault_covers decode chain req s" and cursor: "vs_cursor s' = vs_cursor s" and grows: "grows origin (vs_rows s) (vs_rows s')"
  from covers obtain c where c: "vs_cursor s = Some c"
    "\<forall>e\<in>set chain. past_start req (vr_id e) \<longrightarrow> vr_id e \<le> c \<longrightarrow> (\<forall>r. vault_want decode e = Some r \<longrightarrow> vault_key r \<in> vault_key ` set (vs_rows s))"
    "\<forall>e\<in>set chain. c < vr_id e \<longrightarrow> past_start req (vr_id e)" unfolding vault_covers_def by blast
  have "\<forall>e\<in>set chain. past_start req (vr_id e) \<longrightarrow> vr_id e \<le> c \<longrightarrow>
      (\<forall>r. vault_want decode e = Some r \<longrightarrow> vault_key r \<in> vault_key ` set (vs_rows s'))"
    using c(2) grows_keys [OF grows] by blast
  with c(1,3) cursor show ?thesis by (simp add: vault_covers_def)
qed

lemma vault_server_serves:
  "vault_server chain a \<Longrightarrow> va_getEvents a req = Inr p \<Longrightarrow> serves vr_id chain req p
     \<and> (\<forall>e\<in>set chain. page_cursor p < vr_id e \<longrightarrow> past_start req (vr_id e))"
  unfolding vault_server_def by (elim allE impE) assumption+

lemma vault_server_page:
  assumes "vault_server chain a" "va_getEvents a req = Inr p"
  shows "page_events p = filter (\<lambda>e. past_start req (vr_id e) \<and> vr_id e \<le> page_cursor p) chain"
  using vault_server_serves [OF assms] unfolding serves_def by (elim conjE)

lemma vault_batch_origin:
  assumes server: "vault_server chain a" and get: "va_getEvents a req0 = Inr p"
    and batch: "vault_batch decode stored c 0 (page_events p) rows f = (rows', res)"
    and sub: "\<And>e. e \<in> set chain \<Longrightarrow> past_start req0 (vr_id e) \<Longrightarrow> past_start req (vr_id e)"
  shows "grows (vault_origin decode genesis chain req) rows rows'"
proof -
  have "page_events p = filter (\<lambda>e. past_start req0 (vr_id e) \<and> vr_id e \<le> page_cursor p) chain"
    by (rule vault_server_page [OF server get])
  then have page: "e \<in> set chain \<and> past_start req (vr_id e)" if "e \<in> set (page_events p)" for e using that sub by simp
  have "grows (\<lambda>r. \<exists>e\<in>set (page_events p). vault_want decode e = Some (r\<lparr>ve_cursor := []\<rparr>)) rows rows'"
    using vault_batch_rows [OF batch] by (rule conjunct1)
  then show ?thesis
  proof (rule grows_mono)
    fix r assume "\<exists>e\<in>set (page_events p). vault_want decode e = Some (r\<lparr>ve_cursor := []\<rparr>)"
    then obtain e where "e \<in> set (page_events p)" "vault_want decode e = Some (r\<lparr>ve_cursor := []\<rparr>)" by blast
    with page show "vault_origin decode genesis chain req r" unfolding vault_origin_def by blast
  qed
qed

lemma vault_batch_all:
  assumes server: "vault_server chain a" and get: "va_getEvents a req = Inr p"
    and batch: "vault_batch decode stored c 0 (page_events p) rows f = (rows', Inr False)"
    and e: "e \<in> set chain" "past_start req (vr_id e)" "vr_id e \<le> page_cursor p" "vault_want decode e = Some r"
  shows "vault_key r \<in> vault_key ` set rows'"
proof -
  have "page_events p = filter (\<lambda>e. past_start req (vr_id e) \<and> vr_id e \<le> page_cursor p) chain"
    by (rule vault_server_page [OF server get])
  with e have "e \<in> set (page_events p)" by simp
  moreover have "\<forall>e\<in>set (page_events p). is_ok (decode e) \<and> (\<forall>r. vault_want decode e = Some r \<longrightarrow> vault_key r \<in> vault_key ` set rows')"
    using vault_batch_rows [OF batch] by simp
  ultimately show ?thesis using e(4) by simp
qed

lemma vault_first_cycle:
  assumes server: "vault_server chain a" and req: "vault_request a s = Inr req" and cycle: "runVaultPollCycle decode a s = (s', Inr True)"
  shows "vault_covers decode chain req s' \<and> grows (vault_origin decode genesis chain req) (vs_rows s) (vs_rows s')"
  using cycle
proof (cases rule: runVaultPollCycle_cases)
  case (batch req0 p rows res)
  then have b: "va_getEvents a req = Inr p" "vs_cursor s' = Some (page_cursor p)"
    "vault_batch decode (va_stored a) (page_cursor p) 0 (page_events p) (vs_rows s) False = (vs_rows s', Inr False)"
    using req by auto
  have "grows (vault_origin decode genesis chain req) (vs_rows s) (vs_rows s')" by (rule vault_batch_origin [OF server b(1,3)])
  moreover have "\<forall>e\<in>set chain. page_cursor p < vr_id e \<longrightarrow> past_start req (vr_id e)"
    using vault_server_serves [OF server b(1)] by (rule conjunct2)
  ultimately show ?thesis using b(2) vault_batch_all [OF server b(1,3)] by (auto simp: vault_covers_def)
qed simp

lemma vault_cycle_covers:
  assumes server: "vault_server chain a" and old: "vault_covers decode chain req s" and cycle: "runVaultPollCycle decode a s = (s', out)"
  shows "vault_covers decode chain req s' \<and> grows (vault_origin decode genesis chain req) (vs_rows s) (vs_rows s')"
  using cycle
proof (cases rule: runVaultPollCycle_cases)
  case (batch req0 p rows res)
  from old obtain c where c: "vs_cursor s = Some c"
    "\<And>e r. e \<in> set chain \<Longrightarrow> past_start req (vr_id e) \<Longrightarrow> vr_id e \<le> c \<Longrightarrow> vault_want decode e = Some r \<Longrightarrow> vault_key r \<in> vault_key ` set (vs_rows s)"
    "\<And>e. e \<in> set chain \<Longrightarrow> c < vr_id e \<Longrightarrow> past_start req (vr_id e)" by (auto simp: vault_covers_def)
  have req0: "req0 = FromCursor c" using batch(1) c(1) by (simp add: vault_request_def)
  have grow: "grows (vault_origin decode genesis chain req) (vs_rows s) (vs_rows s')"
    using vault_batch_origin [OF server batch(2,3)] c(3) batch(4) req0 by simp
  show ?thesis
  proof (cases "vs_cursor s' = vs_cursor s")
    case True
    with grow old show ?thesis using vault_covers_grow by blast
  next
    case False
    then have res: "res = Inr False" "vs_cursor s' = Some (page_cursor p)" using batch(5) by auto
    have after: "c \<le> page_cursor p" using vault_server_serves [OF server batch(2)] req0 by (simp add: serves_def)
    have all: "vault_key r \<in> vault_key ` set (vs_rows s')"
      if e: "e \<in> set chain" "past_start req (vr_id e)" "vr_id e \<le> page_cursor p" "vault_want decode e = Some r" for e r
    proof (cases "vr_id e \<le> c")
      case True
      then show ?thesis using c(2) [OF e(1,2) _ e(4)] grows_keys [OF grow] by blast
    next
      case False
      then show ?thesis
        using vault_batch_all [OF server batch(2) batch(3) [unfolded res(1)] e(1) _ e(3,4)] batch(4) req0 by simp
    qed
    moreover have "\<forall>e\<in>set chain. page_cursor p < vr_id e \<longrightarrow> past_start req (vr_id e)" using c(3) after by auto
    ultimately show ?thesis using res(2) grow by (auto simp: vault_covers_def)
  qed
qed (use old in simp)

lemma vault_boot:
  "vs_cursor (fst (seedGenesisVaultEvents v p stored s)) = vs_cursor s
   \<and> grows (vault_origin decode (genesis_of v p) chain req) (vs_rows s) (vs_rows (fst (seedGenesisVaultEvents v p stored s)))"
proof -
  obtain rows k where r: "seed_events stored 0 (genesis_of v p) (vs_rows s) = (rows, k)" by fastforce
  with seed_events_rows [of "genesis_of v p" "vs_rows s" stored 0] have "grows (\<lambda>r. r \<in> set (genesis_of v p)) (vs_rows s) rows" by simp
  then have "grows (vault_origin decode (genesis_of v p) chain req) (vs_rows s) rows" by (rule grows_mono) (simp add: vault_origin_def)
  with r show ?thesis by (simp add: seedGenesisVaultEvents_def)
qed

lemma vault_run_covers:
  "vault_covers decode chain req s \<Longrightarrow> \<forall>a. Cycle a \<in> set steps \<longrightarrow> vault_server chain a \<Longrightarrow>
     vault_covers decode chain req (vault_run decode v p steps s)
     \<and> grows (vault_origin decode (genesis_of v p) chain req) (vs_rows s) (vs_rows (vault_run decode v p steps s))"
proof (induction steps arbitrary: s)
  case (Cons x steps)
  let ?grows = "grows (vault_origin decode (genesis_of v p) chain req)"
  have "vault_covers decode chain req (vault_step decode v p x s) \<and> ?grows (vs_rows s) (vs_rows (vault_step decode v p x s))"
  proof (cases x)
    case (Boot stored)
    with vault_boot [of v p stored s decode chain req] Cons.prems(1) show ?thesis by (auto intro: vault_covers_grow)
  next
    case (Cycle a)
    obtain s' out where c: "runVaultPollCycle decode a s = (s', out)" by fastforce
    have "vault_server chain a" using Cons.prems(2) Cycle by simp
    from vault_cycle_covers [OF this Cons.prems(1) c] Cycle c show ?thesis by simp
  qed
  with Cons.IH [of "vault_step decode v p x s"] Cons.prems(2) grows_trans show ?case by (auto simp: vault_run_def)
qed (simp add: vault_run_def)

end
