(* ===== verification/VaultMetrics.thy ===== *)
theory VaultMetrics
  imports VaultWatcher "HOL-Library.Multiset"
begin

text \<open>
  \<^verbatim>\<open>relayer/src/vault-watcher/metrics.ts\<close> and \<^verbatim>\<open>retention.ts\<close>: what is published of the vault from the rows of \<^verbatim>\<open>VaultWatcher\<close>. A
  \<^verbatim>\<open>BigInt\<close> of an amount that cannot be read throws, so the summaries are options; a UTC day is its number since the epoch, which
  compares as its \<^verbatim>\<open>YYYY-MM-DD\<close> does.
\<close>

section \<open>Value locked\<close>

record tvl_summary =
  ts_netDepositedStroops :: int
  ts_uniqueDepositors :: nat

fun tvl_loop :: "vault_event list \<Rightarrow> int \<Rightarrow> string list \<Rightarrow> (int \<times> string list) option" where
  "tvl_loop [] net depositors = Some (net, depositors)"
| "tvl_loop (e # es) net depositors =
     (case BigInt_str (ve_amountStroops e) of
        None \<Rightarrow> None
      | Some amount \<Rightarrow>
          if ve_kind e = VDeposit
          then tvl_loop es (net + amount) (if ve_depositor e \<in> set depositors then depositors else depositors @ [ve_depositor e])
          else tvl_loop es (net - amount) depositors)"

definition computeTvlSummary :: "vault_event list \<Rightarrow> tvl_summary option" where
  "computeTvlSummary es =
     map_option (\<lambda>(net, depositors). \<lparr>ts_netDepositedStroops = net, ts_uniqueDepositors = length depositors\<rparr>) (tvl_loop es 0 [])"

section \<open>Retention\<close>

definition THIRTY_DAYS_SECONDS :: int where "THIRTY_DAYS_SECONDS = 30 * 24 * 60 * 60"

record cohort_retention =
  ch_cohort :: int
  ch_depositors :: nat
  ch_eligible :: nat
  ch_retained :: nat

definition utcDay :: "int \<Rightarrow> int" where "utcDay unixSeconds = unixSeconds div 86400"

definition add_event :: "vault_event \<Rightarrow> (string, vault_event list) jsmap \<Rightarrow> (string, vault_event list) jsmap" where
  "add_event e m = (case js_get m (ve_depositor e) of
      Some es \<Rightarrow> js_set (ve_depositor e) (es @ [e]) m
    | None \<Rightarrow> js_set (ve_depositor e) [e] m)"

definition byDepositor :: "vault_event list \<Rightarrow> (string, vault_event list) jsmap" where
  "byDepositor es = fold add_event es []"

fun net_until :: "int \<Rightarrow> vault_event list \<Rightarrow> int \<Rightarrow> int option" where
  "net_until cutoff [] net = Some net"
| "net_until cutoff (e # es) net =
     (if ve_ledgerCloseTime e > cutoff then net_until cutoff es net
      else (case BigInt_str (ve_amountStroops e) of
        None \<Rightarrow> None
      | Some amount \<Rightarrow> net_until cutoff es (if ve_kind e = VDeposit then net + amount else net - amount)))"

definition cohort_step :: "int \<Rightarrow> vault_event list \<Rightarrow> (int, cohort_retention) jsmap \<Rightarrow> (int, cohort_retention) jsmap option" where
  "cohort_step nowSeconds depositorEvents cohorts =
     (let deposits = filter (\<lambda>e. ve_kind e = VDeposit) depositorEvents in
      if deposits = [] then Some cohorts
      else
        let firstDepositTime = Min (set (map ve_ledgerCloseTime deposits));
            cohortDay = utcDay firstDepositTime;
            cutoff = firstDepositTime + THIRTY_DAYS_SECONDS;
            cohort = (case js_get cohorts cohortDay of
                Some c \<Rightarrow> c
              | None \<Rightarrow> \<lparr>ch_cohort = cohortDay, ch_depositors = 0, ch_eligible = 0, ch_retained = 0\<rparr>);
            counted = cohort\<lparr>ch_depositors := ch_depositors cohort + 1\<rparr>
        in if nowSeconds < cutoff then Some (js_set cohortDay counted cohorts)
           else (case net_until cutoff depositorEvents 0 of
             None \<Rightarrow> None
           | Some net \<Rightarrow> Some (js_set cohortDay (counted\<lparr>ch_eligible := ch_eligible counted + 1,
               ch_retained := (if net > 0 then ch_retained counted + 1 else ch_retained counted)\<rparr>) cohorts)))"

fun cohort_loop :: "int \<Rightarrow> vault_event list list \<Rightarrow> (int, cohort_retention) jsmap \<Rightarrow> (int, cohort_retention) jsmap option" where
  "cohort_loop nowSeconds [] cohorts = Some cohorts"
| "cohort_loop nowSeconds (es # ess) cohorts =
     (case cohort_step nowSeconds es cohorts of None \<Rightarrow> None | Some cohorts' \<Rightarrow> cohort_loop nowSeconds ess cohorts')"

definition computeRetentionCohorts :: "vault_event list \<Rightarrow> int \<Rightarrow> cohort_retention list option" where
  "computeRetentionCohorts es nowMs =
     map_option (\<lambda>cohorts. sort_key ch_cohort (map snd cohorts)) (cohort_loop (nowMs div 1000) (map snd (byDepositor es)) [])"

section \<open>What they count\<close>

definition readable :: "vault_event list \<Rightarrow> bool" where
  "readable es \<longleftrightarrow> list_all (\<lambda>e. BigInt_str (ve_amountStroops e) \<noteq> None) es"

text \<open>What an event with this key adds to the balance.\<close>

definition key_amount :: "string \<times> string \<times> vault_kind \<times> string \<Rightarrow> int" where
  "key_amount k = (case k of (_, _, kind, amount) \<Rightarrow> (if kind = VDeposit then 1 else - 1) * (case BigInt_str amount of None \<Rightarrow> 0 | Some a \<Rightarrow> a))"

definition balance_change :: "vault_event \<Rightarrow> int" where
  "balance_change e = key_amount (vault_key e)"

lemma readable_Cons: "readable (e # es) \<longleftrightarrow> (\<exists>a. BigInt_str (ve_amountStroops e) = Some a \<and> balance_change e = (if ve_kind e = VDeposit then a else - a)) \<and> readable es"
  by (auto simp: readable_def balance_change_def key_amount_def vault_key_def)

lemma tvl_loop_exact:
  "readable es \<Longrightarrow> distinct ds \<Longrightarrow> \<exists>ds'. tvl_loop es net ds = Some (net + sum_list (map balance_change es), ds')
     \<and> distinct ds' \<and> set ds' = set ds \<union> ve_depositor ` {e \<in> set es. ve_kind e = VDeposit}"
proof (induction es arbitrary: net ds)
  case (Cons e es)
  from Cons.prems(1) obtain a where a: "BigInt_str (ve_amountStroops e) = Some a" "balance_change e = (if ve_kind e = VDeposit then a else - a)"
    "readable es" by (auto simp: readable_Cons)
  let ?ds = "if ve_kind e = VDeposit then (if ve_depositor e \<in> set ds then ds else ds @ [ve_depositor e]) else ds"
  have "distinct ?ds" using Cons.prems(2) by simp
  from Cons.IH [OF a(3) this, of "net + balance_change e"] obtain ds' where ds': "tvl_loop es (net + balance_change e) ?ds = Some (net + balance_change e + sum_list (map balance_change es), ds')"
     "distinct ds'" "set ds' = set ?ds \<union> ve_depositor ` {e \<in> set es. ve_kind e = VDeposit}" by blast
  have "tvl_loop (e # es) net ds = tvl_loop es (net + balance_change e) ?ds" using a by simp
  moreover have "set ds' = set ds \<union> ve_depositor ` {x \<in> set (e # es). ve_kind x = VDeposit}" unfolding ds'(3) by auto
  ultimately show ?case using ds'(1,2) by (intro exI [of _ ds']) (simp add: add.assoc)
qed simp

text \<open>The summary is a matter of the keys alone.\<close>

definition tvl_of_keys :: "(string \<times> string \<times> vault_kind \<times> string) set \<Rightarrow> tvl_summary" where
  "tvl_of_keys K = \<lparr>ts_netDepositedStroops = sum key_amount K,
     ts_uniqueDepositors = card ((\<lambda>(_, who, _, _). who) ` {k \<in> K. case k of (_, _, kind, _) \<Rightarrow> kind = VDeposit})\<rparr>"

lemma computeTvlSummary_keys:
  assumes "readable es" "distinct (map vault_key es)"
  shows "computeTvlSummary es = Some (tvl_of_keys (vault_key ` set es))"
proof -
  obtain ds where ds: "tvl_loop es 0 [] = Some (sum_list (map balance_change es), ds)" "distinct ds" "set ds = ve_depositor ` {e \<in> set es. ve_kind e = VDeposit}"
    using tvl_loop_exact [OF assms(1), of "[]" 0] by auto
  have "sum_list (map balance_change es) = sum_list (map key_amount (map vault_key es))"
    by (induction es) (simp_all add: balance_change_def)
  also have "\<dots> = sum key_amount (set (map vault_key es))" by (rule sum_list_distinct_conv_sum_set [OF assms(2)])
  finally have net: "sum_list (map balance_change es) = sum key_amount (vault_key ` set es)" by simp
  have "(\<lambda>(_, who, _, _). who) ` {k \<in> vault_key ` set es. case k of (_, _, kind, _) \<Rightarrow> kind = VDeposit} = set ds"
    unfolding ds(3) by (force simp: vault_key_def)
  then have "card ((\<lambda>(_, who, _, _). who) ` {k \<in> vault_key ` set es. case k of (_, _, kind, _) \<Rightarrow> kind = VDeposit}) = length ds"
    using distinct_card [OF ds(2)] by simp
  with ds(1) net show ?thesis by (simp add: computeTvlSummary_def tvl_of_keys_def)
qed

lemma BigInt_int_str [simp]: "BigInt_str (int_str i) = Some i"
proof -
  have ws: "\<not> is_ws c" if "is_digit c" for c using that by (auto simp: is_ws_def is_digit_def)
  have digits: "list_all is_digit (dec_str n)" "dec_str n \<noteq> []" for n by (rule dec_str_digits dec_str_nonempty)+
  have trim: "trim (int_str i) = int_str i"
    using digits ws by (intro trim_no_ws) (auto simp: int_str_def list_all_iff is_ws_def code_def split: if_splits)
  show ?thesis
  proof (cases "i < 0")
    case True
    then show ?thesis using trim digits by (simp add: BigInt_str_def int_str_def)
  next
    case False
    obtain c t where s: "dec_str (nat i) = c # t" using digits(2) by (cases "dec_str (nat i)") auto
    have d: "is_digit c" "list_all is_digit t" using digits(1) [of "nat i"] s by simp_all
    then have "c \<noteq> CHR ''-''" "c \<noteq> CHR ''+''" by (auto simp: is_digit_def code_def)
    moreover have "dec_val (c # t) = nat i" using dec_val_str [of "nat i"] s by simp
    ultimately show ?thesis using False trim s d by (simp add: BigInt_str_def int_str_def)
  qed
qed

section \<open>The chain's value\<close>

lemma vault_amount_decimal: "decodeVaultEvent sdk e = Inr d \<Longrightarrow> dv_amountStroops d = Some a \<Longrightarrow> a \<in> range int_str"
  by (auto simp: decodeVaultEvent_def vault_nothing_def Let_def res_simps split: option.splits if_splits)

lemma vault_want_readable:
  "vault_want (decodeVaultEvent sdk) e = Some r \<Longrightarrow> ve_amountStroops r \<in> range int_str"
  using vault_amount_decimal [of sdk e] by (auto simp: vault_want_def vault_row_def split: sum.splits option.splits if_splits)

lemma genesis_amount: "BigInt_str ''200000000'' = Some 200000000"
proof -
  have "trim ''200000000'' = ''200000000''" by (rule trim_no_ws) (auto simp: is_ws_def code_def)
  then show ?thesis by (simp add: BigInt_str_def is_digit_def code_def dec_val_def)
qed

lemma genesis_readable: "readable (genesis_of v p)"
proof -
  have "genesis_of v p \<in> {[], GENESIS_VAULT_EVENTS, MAINNET_GENESIS_VAULT_EVENTS}"
    by (simp add: genesis_of_def GENESIS_def)
  then show ?thesis by (auto simp: readable_def GENESIS_VAULT_EVENTS_def MAINNET_GENESIS_VAULT_EVENTS_def genesis_amount)
qed

lemma origin_readable:
  assumes "vault_origin (decodeVaultEvent sdk) (genesis_of v p) chain req r"
  shows "readable [r]"
proof (cases "r \<in> set (genesis_of v p)")
  case True
  then show ?thesis using genesis_readable [of v p] by (simp add: readable_def list_all_iff)
next
  case False
  with assms obtain e where "vault_want (decodeVaultEvent sdk) e = Some (r\<lparr>ve_cursor := []\<rparr>)" by (auto simp: vault_origin_def)
  from vault_want_readable [OF this] show ?thesis by (auto simp: readable_def)
qed

lemma readable_append: "readable (xs @ ys) \<longleftrightarrow> readable xs \<and> readable ys"
  by (simp add: readable_def)

lemma readable_all: "readable xs \<longleftrightarrow> (\<forall>x\<in>set xs. readable [x])"
  by (simp add: readable_def list_all_iff)

text \<open>The rows that a store with these rows is to hold, once it has read the chain from a request on.\<close>

definition chain_rows :: "'x sdk \<Rightarrow> 'x raw_vault_event list \<Rightarrow> events_request \<Rightarrow> vault_event list" where
  "chain_rows sdk chain req = List.map_filter (vault_want (decodeVaultEvent sdk)) (filter (\<lambda>e. past_start req (vr_id e)) chain)"

lemma chain_rows_iff: "r \<in> set (chain_rows sdk chain req) \<longleftrightarrow> (\<exists>e\<in>set chain. past_start req (vr_id e) \<and> vault_want (decodeVaultEvent sdk) e = Some r)"
  by (auto simp: chain_rows_def)

lemma origin_key:
  "vault_origin decode genesis chain req r \<Longrightarrow> decode = decodeVaultEvent sdk \<Longrightarrow>
    vault_key r \<in> vault_key ` (set genesis \<union> set (chain_rows sdk chain req))"
proof -
  assume r: "vault_origin decode genesis chain req r" and decode: "decode = decodeVaultEvent sdk"
  show ?thesis
  proof (cases "r \<in> set genesis")
    case False
    with r decode have "r\<lparr>ve_cursor := []\<rparr> \<in> set (chain_rows sdk chain req)" by (auto simp: vault_origin_def chain_rows_iff)
    then have "vault_key (r\<lparr>ve_cursor := []\<rparr>) \<in> vault_key ` set (chain_rows sdk chain req)" by (rule imageI)
    then show ?thesis by (simp add: image_Un)
  qed simp
qed

lemma grown_keys:
  assumes "grows (vault_origin (decodeVaultEvent sdk) genesis chain req) rows rows'"
    "vault_key ` set genesis \<subseteq> vault_key ` set rows"
  shows "vault_key ` set rows' \<subseteq> vault_key ` (set rows \<union> set (chain_rows sdk chain req))"
proof
  fix k assume "k \<in> vault_key ` set rows'"
  then obtain r where r: "r \<in> set rows'" "k = vault_key r" by blast
  show "k \<in> vault_key ` (set rows \<union> set (chain_rows sdk chain req))"
  proof (cases "r \<in> set rows")
    case False
    with assms(1) r(1) have "vault_origin (decodeVaultEvent sdk) genesis chain req r" by (auto simp: grows_def)
    from origin_key [OF this refl] r(2) assms(2) show ?thesis unfolding image_Un by blast
  qed (use r in auto)
qed

lemma readAllVaultEvents_keys:
  "vault_key ` set (readAllVaultEvents rows) = vault_key ` set rows"
  "distinct (map vault_key (readAllVaultEvents rows)) = distinct (map vault_key rows)"
  "readable (readAllVaultEvents rows) = readable rows"
  by (simp_all add: readAllVaultEvents_def distinct_map readable_def list_all_iff)


text \<open>A deposit and a withdrawal, in two pages; the second page is read twice because a row is not stored the first time.\<close>

definition vx_sdk :: "native sdk" where
  "vx_sdk = \<lparr>scValToNative = \<lambda>x. x, toXDR = \<lambda>_. [], fromXDR = \<lambda>_. None\<rparr>"

definition vx_id :: "char \<Rightarrow> string" where
  "vx_id c = replicate 18 (CHR ''0'') @ [c] @ ''-'' @ replicate 10 (CHR ''0'')"

definition vx_event :: "char \<Rightarrow> native raw_vault_event" where
  "vx_event c = \<lparr>vr_id = vx_id c, vr_topic = [NStr ''DeFindexVault'', NStr (if c = CHR ''1'' then ''deposit'' else ''withdraw'')],
     vr_value = NMap (if c = CHR ''1'' then [(''depositor'', NStr ''GA''), (''amounts'', NList [NBig 70, NBig 30])]
                      else [(''withdrawer'', NStr ''GA''), (''amounts_withdrawn'', NList [NBig 40])]),
     vr_ledger = 0, vr_closedAtMs = 5000, vr_txHash = [c]\<rparr>"

definition vx_answers :: "bool \<Rightarrow> native vault_answers" where
  "vx_answers stored = \<lparr>va_getEvents = (\<lambda>req. case req of
       FromLedger l \<Rightarrow> Inr \<lparr>page_events = (if l = 0 then [vx_event CHR ''1''] else []), page_cursor = (if l = 0 then vx_id CHR ''1'' else vx_id CHR ''2'')\<rparr>
     | FromCursor c \<Rightarrow> if c = vx_id CHR ''1'' then Inr \<lparr>page_events = [vx_event CHR ''2''], page_cursor = vx_id CHR ''2''\<rparr> else Inl ''no''),
     va_latestLedger = Inr 0, va_stored = (\<lambda>_. stored)\<rparr>"

definition vx_empty :: vault_store where "vx_empty = \<lparr>vs_cursor = None, vs_rows = []\<rparr>"

definition vx_chain :: "native raw_vault_event list" where "vx_chain = [vx_event CHR ''1'', vx_event CHR ''2'']"

lemma vx_ids: "vr_id (vx_event c) = vx_id c" "vx_id CHR ''1'' < vx_id CHR ''2''" "ledgerOfCursor (vx_id CHR ''1'') = 0" "ledgerOfCursor (vx_id CHR ''2'') = 0"
  "isValidCursor (vx_id CHR ''1'')" "isValidCursor (vx_id CHR ''2'')"
proof -
  have digits: "takeWhile (\<lambda>x. x \<noteq> CHR ''-'') (vx_id CHR ''1'') = ''0000000000000000001''"
    "takeWhile (\<lambda>x. x \<noteq> CHR ''-'') (vx_id CHR ''2'') = ''0000000000000000002''"
    by (simp_all add: vx_id_def eval_nat_numeral)
  show "vr_id (vx_event c) = vx_id c" by (simp add: vx_event_def)
  show "vx_id CHR ''1'' < vx_id CHR ''2''" by code_simp
  show "ledgerOfCursor (vx_id CHR ''1'') = 0" "ledgerOfCursor (vx_id CHR ''2'') = 0"
    using digits by (simp_all add: ledgerOfCursor_def dec_val_def code_def)
  show "isValidCursor (vx_id CHR ''1'')" by code_simp
  show "isValidCursor (vx_id CHR ''2'')" by code_simp
qed

lemma vx_server: "vault_server vx_chain (vx_answers b)"
proof -
  have n: "\<not> vx_id CHR ''2'' < vx_id CHR ''1''" "vx_id CHR ''1'' \<le> vx_id CHR ''2''" "\<not> vx_id CHR ''2'' \<le> vx_id CHR ''1''"
    "vx_id CHR ''1'' \<noteq> vx_id CHR ''2''" using vx_ids(2) by auto
  have "serves vr_id vx_chain req p \<and> (\<forall>e\<in>set vx_chain. page_cursor p < vr_id e \<longrightarrow> past_start req (vr_id e))"
    if "va_getEvents (vx_answers b) req = Inr p" for req p
    using that vx_ids n by (cases req) (auto simp: vx_answers_def serves_def vx_chain_def split: if_splits)
  then show ?thesis by (simp add: vault_server_def)
qed

definition vx_first :: vault_store where
  "vx_first = \<lparr>vs_cursor = Some (vx_id CHR ''1''), vs_rows = [\<lparr>ve_cursor = vx_id CHR ''1'', ve_kind = VDeposit, ve_depositor = ''GA'',
     ve_amountStroops = int_str 100, ve_ledger = 0, ve_txHash = ''1'', ve_ledgerCloseTime = 5\<rparr>]\<rparr>"

lemma vx_fields: "vr_ledger (vx_event c) = 0" "vr_closedAtMs (vx_event c) = 5000" "vr_txHash (vx_event c) = [c]"
  by (simp_all add: vx_event_def)

lemma vx_decode:
  "decodeVaultEvent vx_sdk (vx_event CHR ''1'') = Inr \<lparr>dv_kind = Some VDeposit, dv_depositor = Some ''GA'', dv_amountStroops = Some (int_str 100)\<rparr>"
  "decodeVaultEvent vx_sdk (vx_event CHR ''2'') = Inr \<lparr>dv_kind = Some VWithdraw, dv_depositor = Some ''GA'', dv_amountStroops = Some (int_str 40)\<rparr>"
  by (simp_all add: decodeVaultEvent_def vx_sdk_def vx_event_def CONTRACT_TAG_def DEPOSIT_TOPIC_def WITHDRAW_TOPIC_def native_field_def amounts_total_def)

lemma vx_first_cycle: "runVaultPollCycle (decodeVaultEvent vx_sdk) (vx_answers True) vx_empty = (vx_first, Inr True)"
  using vx_ids(5) by (simp add: runVaultPollCycle_def vault_request_def vx_empty_def vx_answers_def vx_decode vault_row_def insertVaultEvent_def insert_new_def
      writeCursor_def assertValidCursor_def vx_first_def vx_fields)

lemma vx_later_cycles:
  "runVaultPollCycle (decodeVaultEvent vx_sdk) (vx_answers False) vx_first = (vx_first, Inr False)"
  "vs_cursor (fst (runVaultPollCycle (decodeVaultEvent vx_sdk) (vx_answers True) vx_first)) = Some (vx_id CHR ''2'')"
proof -
  let ?rows = "vs_rows vx_first"
  have page: "res_bind (vault_request (vx_answers b) vx_first) (va_getEvents (vx_answers b)) = Inr \<lparr>page_events = [vx_event CHR ''2''], page_cursor = vx_id CHR ''2''\<rparr>"
    "va_stored (vx_answers b) = (\<lambda>_. b)" for b by (simp_all add: vault_request_def vx_first_def vx_answers_def)
  show "runVaultPollCycle (decodeVaultEvent vx_sdk) (vx_answers False) vx_first = (vx_first, Inr False)"
    unfolding runVaultPollCycle_def page by (simp add: vx_decode vault_row_def vx_fields)
  show "vs_cursor (fst (runVaultPollCycle (decodeVaultEvent vx_sdk) (vx_answers True) vx_first)) = Some (vx_id CHR ''2'')"
    unfolding runVaultPollCycle_def page using vx_ids(6) by (simp add: vx_decode vault_row_def vx_fields writeCursor_def assertValidCursor_def)
qed

lemma vx_run: "vs_cursor (vault_run (decodeVaultEvent vx_sdk) [] [] [Cycle (vx_answers False), Cycle (vx_answers True)] vx_first) = Some (vx_id CHR ''2'')"
  using vx_later_cycles by (simp add: vault_run_def)

lemma vx_genesis: "genesis_of [] [] = []"
  by (simp add: genesis_of_def GENESIS_def trim_def GENESIS_VAULT_ID_def MAINNET_GENESIS_VAULT_ID_def)


section \<open>Where the index falls short\<close>

text \<open>
  Two deposits of one amount by one account in one transaction are one row: the value locked misses the second.
\<close>

lemma equal_deposits_counted_once:
  "vault_key d' = vault_key d \<Longrightarrow> insertVaultEvent d' (insertVaultEvent d rows) = insertVaultEvent d rows"
  by (cases rule: insertVaultEvent_cases [of d rows]) (auto simp: insertVaultEvent_def insert_new_def list_ex_iff image_iff)

text \<open>
  Before a first cycle has completed there is no cursor, so a batch of which a row was not stored is not read again: the next
  cycle starts at the ledger that is the latest by then.
\<close>

lemma first_batch_not_retried:
  assumes "vs_cursor s = None" "runVaultPollCycle decode a s = (s', Inr False)" "va_latestLedger b = Inr l"
  shows "vault_request b s' = Inr (FromLedger l)"
proof -
  have "vs_cursor s' = None" using assms(2) by (cases rule: runVaultPollCycle_cases) (use assms(1) in auto)
  with assms(3) show ?thesis by (simp add: vault_request_def)
qed

section \<open>The cohorts\<close>

text \<open>When an account first deposited, and its balance of deposits and withdrawals up to a time.\<close>

definition first_deposit :: "vault_event list \<Rightarrow> string \<Rightarrow> int option" where
  "first_deposit es who =
     (let ts = map ve_ledgerCloseTime (filter (\<lambda>e. ve_depositor e = who \<and> ve_kind e = VDeposit) es)
      in if ts = [] then None else Some (Min (set ts)))"

definition balance_at :: "vault_event list \<Rightarrow> string \<Rightarrow> int \<Rightarrow> int" where
  "balance_at es who t = sum_list (map balance_change (filter (\<lambda>e. ve_depositor e = who \<and> ve_ledgerCloseTime e \<le> t) es))"

definition in_cohort :: "vault_event list \<Rightarrow> int \<Rightarrow> string \<Rightarrow> bool" where
  "in_cohort es day who \<longleftrightarrow> (case first_deposit es who of None \<Rightarrow> False | Some t \<Rightarrow> utcDay t = day)"

definition past_mark :: "vault_event list \<Rightarrow> int \<Rightarrow> string \<Rightarrow> bool" where
  "past_mark es now who \<longleftrightarrow> (case first_deposit es who of None \<Rightarrow> False | Some t \<Rightarrow> t + THIRTY_DAYS_SECONDS \<le> now)"

definition still_in :: "vault_event list \<Rightarrow> string \<Rightarrow> bool" where
  "still_in es who \<longleftrightarrow> (case first_deposit es who of None \<Rightarrow> False | Some t \<Rightarrow> balance_at es who (t + THIRTY_DAYS_SECONDS) > 0)"

abbreviation events_of :: "vault_event list \<Rightarrow> string \<Rightarrow> vault_event list" where
  "events_of es who \<equiv> filter (\<lambda>e. ve_depositor e = who) es"

lemma byDepositor_get:
  "js_ok (byDepositor es) \<and> js_get (byDepositor es) who = (if events_of es who = [] then None else Some (events_of es who))"
proof (induction es arbitrary: who rule: rev_induct)
  case (snoc e es)
  have step: "byDepositor (es @ [e]) = add_event e (byDepositor es)" by (simp add: byDepositor_def)
  have ok: "js_ok (byDepositor es)" using snoc.IH by blast
  have get: "js_get (byDepositor es) w = (if events_of es w = [] then None else Some (events_of es w))" for w using snoc.IH by blast
  have "js_ok (add_event e (byDepositor es))" using ok by (auto simp: add_event_def split: option.splits)
  moreover have "js_get (add_event e (byDepositor es)) who = (if events_of (es @ [e]) who = [] then None else Some (events_of (es @ [e]) who))"
    using get [of who] get [of "ve_depositor e"] by (auto simp: add_event_def jsmap_simps split: option.splits)
  ultimately show ?case unfolding step by blast
qed (simp add: byDepositor_def)

lemma byDepositor_lists: "map snd (byDepositor es) = map (events_of es) (js_keys (byDepositor es))"
proof -
  have "snd x = events_of es (fst x)" if x: "x \<in> set (byDepositor es)" for x
  proof -
    have "js_get (byDepositor es) (fst x) = Some (snd x)" using byDepositor_get x js_ok_get [of "byDepositor es" "fst x" "snd x"] by simp
    with byDepositor_get [of es "fst x"] show ?thesis by (simp split: if_splits)
  qed
  then show ?thesis by simp
qed

lemma first_deposit_known: "first_deposit es who = Some t \<Longrightarrow> who \<in> set (js_keys (byDepositor es))"
proof -
  assume "first_deposit es who = Some t"
  then have "events_of es who \<noteq> []" by (auto simp: first_deposit_def Let_def filter_empty_conv split: if_splits)
  with byDepositor_get [of es who] show ?thesis unfolding js_has_iff [symmetric] js_has_def by simp
qed

lemma net_until_exact: "readable es \<Longrightarrow> net_until t es n = Some (n + sum_list (map balance_change (filter (\<lambda>e. ve_ledgerCloseTime e \<le> t) es)))"
proof (induction es arbitrary: n)
  case (Cons e es)
  from Cons.prems obtain a where "BigInt_str (ve_amountStroops e) = Some a" "balance_change e = (if ve_kind e = VDeposit then a else - a)" "readable es"
    by (auto simp: readable_Cons)
  with Cons.IH show ?case by simp
qed simp

lemma net_until_balance: "readable es \<Longrightarrow> net_until t (events_of es who) 0 = Some (balance_at es who t)"
proof -
  assume "readable es"
  then have "readable (events_of es who)" by (simp add: readable_def list_all_iff)
  from net_until_exact [OF this] show ?thesis by (simp add: balance_at_def filter_filter conj_commute)
qed

definition bump :: "vault_event list \<Rightarrow> int \<Rightarrow> string \<Rightarrow> cohort_retention \<Rightarrow> cohort_retention" where
  "bump es now who c = c\<lparr>ch_depositors := ch_depositors c + 1,
     ch_eligible := ch_eligible c + (if past_mark es now who then 1 else 0),
     ch_retained := ch_retained c + (if past_mark es now who \<and> still_in es who then 1 else 0)\<rparr>"

definition tally :: "vault_event list \<Rightarrow> int \<Rightarrow> int \<Rightarrow> string list \<Rightarrow> cohort_retention" where
  "tally es now day ks = \<lparr>ch_cohort = day, ch_depositors = length (filter (in_cohort es day) ks),
     ch_eligible = length (filter (\<lambda>w. in_cohort es day w \<and> past_mark es now w) ks),
     ch_retained = length (filter (\<lambda>w. in_cohort es day w \<and> past_mark es now w \<and> still_in es w) ks)\<rparr>"

lemma tally_snoc: "tally es now day (ks @ [k]) = (if in_cohort es day k then bump es now k (tally es now day ks) else tally es now day ks)"
  by (simp add: tally_def bump_def)

lemma tally_none: "filter (in_cohort es day) ks = [] \<Longrightarrow> tally es now day ks = \<lparr>ch_cohort = day, ch_depositors = 0, ch_eligible = 0, ch_retained = 0\<rparr>"
  by (auto simp: tally_def filter_empty_conv)

lemma cohort_step_exact:
  assumes "readable es"
  shows "cohort_step now (events_of es who) cs = Some (case first_deposit es who of
      None \<Rightarrow> cs
    | Some t \<Rightarrow> js_set (utcDay t) (bump es now who (case js_get cs (utcDay t) of
        Some c \<Rightarrow> c | None \<Rightarrow> \<lparr>ch_cohort = utcDay t, ch_depositors = 0, ch_eligible = 0, ch_retained = 0\<rparr>)) cs)"
proof (cases "first_deposit es who")
  case None
  then have "filter (\<lambda>e. ve_depositor e = who \<and> ve_kind e = VDeposit) es = []" by (auto simp: first_deposit_def Let_def split: if_splits)
  then have "filter (\<lambda>e. ve_kind e = VDeposit) (events_of es who) = []" by (simp add: filter_filter conj_commute)
  with None show ?thesis by (simp add: cohort_step_def)
next
  case (Some t)
  have deposits: "filter (\<lambda>e. ve_kind e = VDeposit) (events_of es who) = filter (\<lambda>e. ve_depositor e = who \<and> ve_kind e = VDeposit) es"
    by (simp add: filter_filter conj_commute)
  from Some have t: "filter (\<lambda>e. ve_depositor e = who \<and> ve_kind e = VDeposit) es \<noteq> []"
    "Min (set (map ve_ledgerCloseTime (filter (\<lambda>e. ve_depositor e = who \<and> ve_kind e = VDeposit) es))) = t"
    by (auto simp: first_deposit_def Let_def split: if_splits)
  show ?thesis
    unfolding cohort_step_def deposits t(2) net_until_balance [OF assms] Let_def
    using t(1) Some by (simp add: bump_def past_mark_def still_in_def)
qed

lemma cohort_loop_snoc:
  "cohort_loop now (ess @ [es]) cs = Option.bind (cohort_loop now ess cs) (cohort_step now es)"
  by (induction now ess cs rule: cohort_loop.induct) (auto split: option.splits)

lemma cohort_loop_exact:
  assumes "readable es"
  shows "\<exists>cs. cohort_loop now (map (events_of es) ks) [] = Some cs \<and> js_ok cs
    \<and> (\<forall>day. js_get cs day = (if filter (in_cohort es day) ks = [] then None else Some (tally es now day ks)))"
proof (induction ks rule: rev_induct)
  case (snoc k ks)
  then obtain cs where cs: "cohort_loop now (map (events_of es) ks) [] = Some cs" "js_ok cs"
    "\<And>day. js_get cs day = (if filter (in_cohort es day) ks = [] then None else Some (tally es now day ks))" by blast
  show ?case
  proof (cases "first_deposit es k")
    case None
    then have "\<not> in_cohort es day k" for day by (simp add: in_cohort_def)
    with cs None show ?thesis by (intro exI [of _ cs]) (simp add: cohort_loop_snoc cohort_step_exact [OF assms] tally_snoc)
  next
    case (Some t)
    let ?day = "utcDay t"
    have k: "in_cohort es day k \<longleftrightarrow> day = ?day" for day using Some by (auto simp: in_cohort_def)
    have old: "(case js_get cs ?day of Some c \<Rightarrow> c | None \<Rightarrow> \<lparr>ch_cohort = ?day, ch_depositors = 0, ch_eligible = 0, ch_retained = 0\<rparr>) = tally es now ?day ks"
      using cs(3) [of ?day] tally_none [of es ?day ks now] by (simp split: if_splits)
    have "cohort_loop now (map (events_of es) (ks @ [k])) [] = Some (js_set ?day (bump es now k (tally es now ?day ks)) cs)"
      using cs(1) Some by (simp add: cohort_loop_snoc cohort_step_exact [OF assms] old)
    moreover have "js_ok (js_set ?day (bump es now k (tally es now ?day ks)) cs)" using cs(2) by blast
    moreover have "js_get (js_set ?day (bump es now k (tally es now ?day ks)) cs) day
        = (if filter (in_cohort es day) (ks @ [k]) = [] then None else Some (tally es now day (ks @ [k])))" for day
      using cs(3) [of day] k [of day] by (simp add: jsmap_simps tally_snoc)
    ultimately show ?thesis by blast
  qed
qed simp

lemma in_cohort_known: "in_cohort es day who \<Longrightarrow> who \<in> set (js_keys (byDepositor es))"
  using first_deposit_known by (auto simp: in_cohort_def split: option.splits)

lemma count_known:
  assumes "\<And>who. P who \<Longrightarrow> who \<in> set (js_keys (byDepositor es))"
  shows "length (filter P (js_keys (byDepositor es))) = card {who. P who}"
proof -
  have "distinct (js_keys (byDepositor es))" using byDepositor_get [of es] by (simp add: js_ok_def)
  then have "length (filter P (js_keys (byDepositor es))) = card (set (filter P (js_keys (byDepositor es))))"
    by (intro distinct_card [symmetric] distinct_filter)
  also have "set (filter P (js_keys (byDepositor es))) = {who. P who}" using assms by auto
  finally show ?thesis .
qed

lemma first_deposit_iff: "first_deposit es who \<noteq> None \<longleftrightarrow> who \<in> ve_depositor ` {e \<in> set es. ve_kind e = VDeposit}"
  by (auto simp: first_deposit_def Let_def filter_empty_conv)

text \<open>Everyone who deposited is in the cohort of one day.\<close>

lemma cohorts_partition:
  assumes "finite D" "\<And>day. (\<exists>who. in_cohort es day who) \<longleftrightarrow> day \<in> D"
  shows "(\<Sum>day\<in>D. card {who. in_cohort es day who}) = card {who. first_deposit es who \<noteq> None}"
proof -
  have fin: "finite {who. in_cohort es day who}" for day
    using in_cohort_known by (rule finite_subset [OF subsetI, of _ "set (js_keys (byDepositor es))"]) auto
  have "{who. first_deposit es who \<noteq> None} = (\<Union>day\<in>D. {who. in_cohort es day who})"
    using assms(2) by (force simp: in_cohort_def split: option.splits)
  moreover have "\<forall>i\<in>D. \<forall>j\<in>D. i \<noteq> j \<longrightarrow> {who. in_cohort es i who} \<inter> {who. in_cohort es j who} = {}"
    by (auto simp: in_cohort_def split: option.splits)
  ultimately show ?thesis using card_UN_disjoint [OF assms(1), of "\<lambda>day. {who. in_cohort es day who}"] fin by simp
qed

text \<open>C40. The retention that is published has one row for each day on which somebody deposited for the first time, in the order of the
  days. A row counts the accounts whose first deposit was on that day, of those the ones past their own thirtieth day, and
  of these the ones that up to then had deposited more than they withdrew; every depositor of the value locked is
  in exactly one row.\<close>

theorem retention_cohorts_exact:
  assumes "readable es"
  shows "\<exists>cs v. computeRetentionCohorts es nowMs = Some cs \<and> sorted_wrt (<) (map ch_cohort cs)
    \<and> (\<forall>day. day \<in> ch_cohort ` set cs \<longleftrightarrow> (\<exists>who. in_cohort es day who))
    \<and> (\<forall>c\<in>set cs. ch_depositors c = card {who. in_cohort es (ch_cohort c) who}
        \<and> ch_eligible c = card {who. in_cohort es (ch_cohort c) who \<and> past_mark es (nowMs div 1000) who}
        \<and> ch_retained c = card {who. in_cohort es (ch_cohort c) who \<and> past_mark es (nowMs div 1000) who \<and> still_in es who})
    \<and> computeTvlSummary es = Some v \<and> sum_list (map ch_depositors cs) = ts_uniqueDepositors v"
proof -
  let ?ks = "js_keys (byDepositor es)" and ?now = "nowMs div 1000"
  obtain m where m: "cohort_loop ?now (map (events_of es) ?ks) [] = Some m" "js_ok m"
    "\<And>day. js_get m day = (if filter (in_cohort es day) ?ks = [] then None else Some (tally es ?now day ?ks))"
    using cohort_loop_exact [OF assms, of ?now ?ks] by blast
  let ?cs = "sort_key ch_cohort (map snd m)"
  have result: "computeRetentionCohorts es nowMs = Some ?cs" unfolding computeRetentionCohorts_def byDepositor_lists m(1) by simp
  have entry: "c = tally es ?now day ?ks \<and> (\<exists>who. in_cohort es day who)" if "(day, c) \<in> set m" for day c
    using m(3) [of day] js_ok_get [OF m(2) that] by (auto simp: filter_empty_conv split: if_splits)
  have known: "day \<in> set (js_keys m)" if "in_cohort es day who" for day who
  proof -
    have "who \<in> set (filter (in_cohort es day) ?ks)" using in_cohort_known [OF that] that unfolding set_filter by blast
    then have "filter (in_cohort es day) ?ks \<noteq> []" by (metis empty_iff list.set(1))
    then have "js_has m day" using m(3) [of day] by (simp add: js_has_def)
    then show ?thesis by (simp only: js_has_iff)
  qed
  have cohort_day: "ch_cohort c = day" if "(day, c) \<in> set m" for day c
    using entry [OF that] by (metis tally_def cohort_retention.select_convs(1))
  have days: "map (ch_cohort \<circ> snd) m = js_keys m" by (rule map_cong [OF refl]) (use cohort_day in auto)
  have day_iff: "(\<exists>who. in_cohort es day who) \<longleftrightarrow> day \<in> set (js_keys m)" for day using known entry by fastforce
  have same: "mset (map ch_cohort ?cs) = mset (js_keys m)" unfolding days [symmetric] by (simp add: comp_def image_mset.compositionality)
  have distinct: "distinct (map ch_cohort ?cs)" using mset_eq_imp_distinct_iff [OF same] m(2) by (simp only: js_ok_def)
  have sorted: "sorted_wrt (<) (map ch_cohort ?cs)" using distinct strict_sorted_iff by (metis sorted_sort_key)
  have set_days: "ch_cohort ` set ?cs = set (js_keys m)" using arg_cong [OF days, of set] by (simp add: image_comp)
  have counts: "\<forall>c\<in>set ?cs. ch_depositors c = card {who. in_cohort es (ch_cohort c) who}
        \<and> ch_eligible c = card {who. in_cohort es (ch_cohort c) who \<and> past_mark es ?now who}
        \<and> ch_retained c = card {who. in_cohort es (ch_cohort c) who \<and> past_mark es ?now who \<and> still_in es who}"
  proof
    fix c assume "c \<in> set ?cs"
    then obtain day where "(day, c) \<in> set m" by auto
    then have c: "c = tally es ?now day ?ks" using entry by blast
    have "\<And>P. length (filter (\<lambda>w. in_cohort es day w \<and> P w) ?ks) = card {w. in_cohort es day w \<and> P w}"
      using in_cohort_known by (intro count_known) blast
    moreover have "length (filter (in_cohort es day) ?ks) = card {w. in_cohort es day w}" using in_cohort_known by (intro count_known) blast
    ultimately show "ch_depositors c = card {who. in_cohort es (ch_cohort c) who}
        \<and> ch_eligible c = card {who. in_cohort es (ch_cohort c) who \<and> past_mark es ?now who}
        \<and> ch_retained c = card {who. in_cohort es (ch_cohort c) who \<and> past_mark es ?now who \<and> still_in es who}"
      by (simp add: c tally_def)
  qed
  have "sum_list (map ch_depositors ?cs) = sum_list (map (\<lambda>day. card {who. in_cohort es day who}) (map ch_cohort ?cs))"
    unfolding map_map comp_def using counts by (intro arg_cong [of _ _ sum_list] map_cong refl) blast
  also have "\<dots> = (\<Sum>day\<in>set (map ch_cohort ?cs). card {who. in_cohort es day who})" by (rule sum_list_distinct_conv_sum_set [OF distinct])
  also have "\<dots> = (\<Sum>day\<in>set (js_keys m). card {who. in_cohort es day who})" using set_days by simp
  also have "\<dots> = card {who. first_deposit es who \<noteq> None}" by (rule cohorts_partition) (simp_all only: finite_set day_iff)
  finally have total: "sum_list (map ch_depositors ?cs) = card {who. first_deposit es who \<noteq> None}" .
  obtain ds where ds: "tvl_loop es 0 [] = Some (sum_list (map balance_change es), ds)" "distinct ds" "set ds = ve_depositor ` {e \<in> set es. ve_kind e = VDeposit}"
    using tvl_loop_exact [OF assms, of "[]" 0] by auto
  have "length ds = card {who. first_deposit es who \<noteq> None}" 
    unfolding first_deposit_iff Collect_mem_eq ds(3) [symmetric] by (rule distinct_card [OF ds(2), symmetric])
  with total result sorted set_days day_iff counts ds(1) show ?thesis
    by (intro exI [of _ ?cs] exI [of _ "\<lparr>ts_netDepositedStroops = sum_list (map balance_change es), ts_uniqueDepositors = length ds\<rparr>"])
      (simp add: computeTvlSummary_def)
qed

text \<open>One account stays, one leaves before its thirtieth day, one came too late to tell.\<close>

definition cx_event :: "vault_kind \<Rightarrow> string \<Rightarrow> int \<Rightarrow> int \<Rightarrow> vault_event" where
  "cx_event k who amount t = \<lparr>ve_cursor = [], ve_kind = k, ve_depositor = who, ve_amountStroops = int_str amount, ve_ledger = 0, ve_txHash = [], ve_ledgerCloseTime = t\<rparr>"

definition cx_events :: "vault_event list" where
  "cx_events = [cx_event VDeposit ''A'' 5 0, cx_event VDeposit ''B'' 5 10, cx_event VWithdraw ''B'' 5 86400, cx_event VDeposit ''C'' 9 2592010]"

lemma cx_cohorts: "computeRetentionCohorts cx_events 2592020000 =
    Some [\<lparr>ch_cohort = 0, ch_depositors = 2, ch_eligible = 2, ch_retained = 1\<rparr>, \<lparr>ch_cohort = 30, ch_depositors = 1, ch_eligible = 0, ch_retained = 0\<rparr>]"
  by (simp add: computeRetentionCohorts_def byDepositor_def cx_events_def cx_event_def add_event_def cohort_step_def utcDay_def THIRTY_DAYS_SECONDS_def Let_def)

lemma retention_cohorts_exact_witness:
  "readable cx_events \<and> card {who. in_cohort cx_events 0 who} = 2
   \<and> card {who. in_cohort cx_events 0 who \<and> past_mark cx_events 2592020 who \<and> still_in cx_events who} = 1
   \<and> card {who. in_cohort cx_events 30 who} = 1"
proof -
  have "readable cx_events" by (simp add: readable_def cx_events_def cx_event_def)
  with retention_cohorts_exact [OF this, of 2592020000] show ?thesis by (simp add: cx_cohorts)
qed

end
