(* ===== verification/Spec2Isabelle.thy ===== *)
theory Spec2Isabelle
  imports HeaderSync CctpRelayProps FaucetProps RepayHandler LendRebuild Onboarding Interest LoanModel FlowEngine TxLock ReleaseFlow DepositProps RateLimit Timeline ProofRoute VaultMetrics
begin

text \<open>
  Writz lends USDC on Stellar against BTC that stays on Bitcoin. A borrower sends BTC to a script only the protocol and
  the borrower together can spend before a timelock; a contract on Stellar (\<^verbatim>\<open>writz-lend\<close>) checks the payment by an SPV
  proof and opens a position; when the loan is repaid the protocol co-signs the BTC back. This development models the
  TypeScript around the contracts: the relayer (\<^verbatim>\<open>src/relayer/src\<close>), the Bitcoin library it shares with other services
  (\<^verbatim>\<open>src/bitcoin-script/src\<close>) and the logic of the web app (\<^verbatim>\<open>src/frontend/app/src/lib\<close>).

  \<^bold>\<open>How the parts interact.\<close> The relayer submits Bitcoin headers to the light client, builds SPV proofs for deposits,
  watches the contract's events and publishes co-signed releases for repaid positions; beside that it archives the
  events, rebuilds its own state from them, relays USDC burns to Base Sepolia, pays a Signet faucet, and counts
  an onboarding funnel. The app drives deposit, borrow, repay, supply, withdraw and release from a browser whose tab
  may close at any moment, and states what it knows of a loan. The two meet in the SPV bundle, in the position the
  contract holds, and in the release the relayer publishes and the app signs.

  \<^bold>\<open>Shared vocabulary.\<close> \<^verbatim>\<open>Prelude\<close> (results that carry a thrown error, insertion-ordered maps, days), \<^verbatim>\<open>JsText\<close>,
  \<^verbatim>\<open>JsBuffer\<close> and \<^verbatim>\<open>Json\<close> (the JavaScript the code uses: strings, byte buffers, JSON) and \<^verbatim>\<open>Effect\<close> (programs that change
  a state and may throw, \<open>keeps\<close> for invariants and \<open>triple\<close> for what holds after a result or an error).

  \<^bold>\<open>Bitcoin, relayer side.\<close> \<^verbatim>\<open>BtcTx\<close> (\<^verbatim>\<open>bitcoin/tx.ts\<close>): parsing over bytes, shown to invert the wire format. \<^verbatim>\<open>Backoff\<close>
  (\<^verbatim>\<open>bitcoin/esplora.ts\<close>): retry and failover. \<^verbatim>\<open>SpvProof\<close> (\<^verbatim>\<open>bitcoin/spv.ts\<close>): a bundle is built only for a confirmed
  transaction with exactly the headers asked for. \<^verbatim>\<open>HeaderSync\<close> (\<^verbatim>\<open>bitcoin/header-sync.ts\<close>, \<^verbatim>\<open>spv-submit.ts\<close>): passes under a
  fee ceiling.

  \<^bold>\<open>The lock.\<close> \<^verbatim>\<open>LockScript\<close> (\<^verbatim>\<open>bitcoin-script/src/script.ts\<close>, \<^verbatim>\<open>address.ts\<close>, \<^verbatim>\<open>spend.ts\<close>) with an interpreter of its
  opcodes: who can spend a deposit and how. \<^verbatim>\<open>ProtocolKey\<close> (\<^verbatim>\<open>keys.ts\<close>, \<^verbatim>\<open>message.ts\<close>): the KMS signer and signed messages.
  \<^verbatim>\<open>Payment\<close> (\<^verbatim>\<open>payment.ts\<close>): coin selection. \<^verbatim>\<open>AppLock\<close> (the app's \<^verbatim>\<open>bitcoin/address.ts\<close>, \<^verbatim>\<open>timelock.ts\<close>, \<^verbatim>\<open>keyProof.ts\<close>):
  the same lock derived again, and its timelock recovered from the deposit alone.

  \<^bold>\<open>Events and releases.\<close> \<^verbatim>\<open>EventCursor\<close> (\<^verbatim>\<open>rpc-cursor.ts\<close>) and \<^verbatim>\<open>EventFeed\<close>: positions in the event stream, what the RPC
  promises of a page, and the contract of a watcher's store as the locales \<open>event_store\<close> and \<open>event_archive\<close>, interpreted on
  the release table and on the archive. \<^verbatim>\<open>Releases\<close> (\<^verbatim>\<open>repay-watcher/release-store.ts\<close>, \<^verbatim>\<open>poller.ts\<close>): a repayment is owed until
  the contract shows its release. \<^verbatim>\<open>RepayHandler\<close> (\<^verbatim>\<open>handler.ts\<close>): the release that is published is one its owner can spend.
  \<^verbatim>\<open>LendEvents\<close>, \<^verbatim>\<open>ArchiveFile\<close> (\<^verbatim>\<open>lend-events/\<close>): the archive is the chain up to its cursor, and survives a file.
  \<^verbatim>\<open>LendRebuild\<close> (\<^verbatim>\<open>lend-rebuild/\<close>): a rebuild changes everything or nothing, and loses no repayment the events name.

  \<^bold>\<open>CCTP relay.\<close> \<^verbatim>\<open>CctpMessage\<close> (\<^verbatim>\<open>cctp/message.ts\<close>), \<^verbatim>\<open>CctpStore\<close> (\<^verbatim>\<open>store.ts\<close>, \<^verbatim>\<open>sqlite-store.ts\<close>; the locale
  \<open>relay_store\<close> and both stores as its interpretations), \<^verbatim>\<open>CctpSources\<close> (\<^verbatim>\<open>iris.ts\<close>, \<^verbatim>\<open>indexer.ts\<close>), \<^verbatim>\<open>CctpRelay\<close> (\<^verbatim>\<open>service.ts\<close> as a
  state machine of jobs), \<^verbatim>\<open>CctpRelayInv\<close>, \<^verbatim>\<open>CctpRelaySteps\<close>, \<^verbatim>\<open>CctpRelayProps\<close> (its invariant, step by step, and what follows).

  \<^bold>\<open>Faucet and funnel.\<close> \<^verbatim>\<open>FaucetStore\<close> (\<^verbatim>\<open>faucet/nonce.ts\<close>, \<^verbatim>\<open>store.ts\<close>, \<^verbatim>\<open>sqlite-store.ts\<close>; the locale \<open>claim_store\<close>), \<^verbatim>\<open>Faucet\<close>
  (\<^verbatim>\<open>service.ts\<close>, \<^verbatim>\<open>pollar.ts\<close>), \<^verbatim>\<open>FaucetProps\<close>; \<^verbatim>\<open>Onboarding\<close> (\<^verbatim>\<open>onboarding/\<close>).

  \<^bold>\<open>What the relayer serves.\<close> \<^verbatim>\<open>RateLimit\<close> (\<^verbatim>\<open>rate-limit.ts\<close> and the app's \<^verbatim>\<open>rateLimit.ts\<close>) and \<^verbatim>\<open>ProofCache\<close> (\<^verbatim>\<open>proof-cache.ts\<close>):
  how often and how fresh. \<^verbatim>\<open>PositionIndex\<close> (\<^verbatim>\<open>lend/deposit-reads.ts\<close>): a position's history is the chain's, whatever fails.
  \<^verbatim>\<open>DepositSubmission\<close> (\<^verbatim>\<open>lend/deposit-submission.ts\<close>) and \<^verbatim>\<open>DepositStatus\<close> (\<^verbatim>\<open>routes/deposit-status.ts\<close>): a stage is only stated
  from the chains, and a transaction a caller names only counts for the Bitcoin it deposits. \<^verbatim>\<open>ReceiveLegs\<close>
  (\<^verbatim>\<open>lend/receive-legs.ts\<close>): the swaps and burns of a loan are those the stated rule gives it. \<^verbatim>\<open>Timeline\<close>
  (\<^verbatim>\<open>routes/timeline.ts\<close>, the app's \<^verbatim>\<open>receive/timeline.ts\<close>): a loan's cycle, in order, is what the chain says of it.
  \<^verbatim>\<open>ProofRoute\<close> (\<^verbatim>\<open>routes/proof.ts\<close>): a proof that is handed out is the one asked for, fresh, and verifiable by the light client.
  \<^verbatim>\<open>VaultWatcher\<close> and \<^verbatim>\<open>VaultMetrics\<close> (\<^verbatim>\<open>vault-watcher/\<close>): the index of the yield vault's events misses none, and the
  value locked and the retention that are published are what the events say.

  \<^bold>\<open>The app.\<close> \<^verbatim>\<open>AppTypes\<close>: the records the flows share. \<^verbatim>\<open>Interest\<close> (\<^verbatim>\<open>contracts/writzLend.ts\<close> against the contract's
  \<^verbatim>\<open>rates.rs\<close>), \<^verbatim>\<open>LoanStatus\<close> (\<^verbatim>\<open>status/derive.ts\<close>), \<^verbatim>\<open>LoanModel\<close> (\<^verbatim>\<open>loan/model.ts\<close>): what is said of a loan and which
  actions are offered. \<^verbatim>\<open>FlowEngine\<close> (\<^verbatim>\<open>flow/engine.ts\<close>): a flow on screen. \<^verbatim>\<open>TxLock\<close> (\<^verbatim>\<open>flow/lock.ts\<close>): one transaction per
  account across tabs, over the locale \<open>lock_manager\<close>. \<^verbatim>\<open>AppTx\<close> (\<^verbatim>\<open>position/store.ts\<close>, \<^verbatim>\<open>flow/pendingTx.ts\<close>, \<^verbatim>\<open>flow/stellarTx.ts\<close>,
  \<^verbatim>\<open>flows/positionTx.ts\<close>): submission and reconciliation, with the locales \<open>app_invariant\<close> and \<open>app_frame\<close> that say what any
  invariant of a device has to survive. \<^verbatim>\<open>LendFlows\<close> (\<^verbatim>\<open>flows/borrow.ts\<close>, \<^verbatim>\<open>repay.ts\<close>, \<^verbatim>\<open>lend.ts\<close>, \<^verbatim>\<open>submit.ts\<close>), \<^verbatim>\<open>ReleaseFlow\<close>
  (\<^verbatim>\<open>flows/release.ts\<close>), \<^verbatim>\<open>Discover\<close> (\<^verbatim>\<open>flows/discover.ts\<close>), \<^verbatim>\<open>DepositFlow\<close> and \<^verbatim>\<open>DepositProps\<close> (\<^verbatim>\<open>flow/pendingDeposit.ts\<close>,
  \<^verbatim>\<open>flows/deposit.ts\<close>): the flows, and that sent BTC is never orphaned.

  \<^bold>\<open>How the code is read.\<close> A thrown error is the left of a sum. What another service, a library, the clock or the user
  answers is a parameter: a function, or, where it may change between two equal calls, a function of the number of calls
  made so far. A closed browser tab is an error no handler sees. Strings are lists of Latin-1 characters; a \<^verbatim>\<open>bigint\<close> is an
  \<open>int\<close>, and so is a \<^verbatim>\<open>number\<close> that holds an amount, a height or a time; fee rates are exact rationals; JSON numbers are
  integers; a PSBT is the data the code puts into it. Bitcoin script, P2WSH addresses, hashes, XDR and signatures are
  third-party libraries and stay parameters, constrained only by the documented behaviour a theorem states. Work that the
  code does while holding a lock is one step. Waiting itself takes no step: a sleep is left out, or an answer where it may
  fail.

  \<^bold>\<open>Bounds.\<close> The bounds of the code are kept: 20 event pages a poll, 1000 cycles and 5 verification rounds of a rebuild (fewer
  than 20000 events need no more cycles, by the theorem on \<open>catch_up\<close>), 64 outputs searched for a deposit's, 24 attempts of a
  release, 25 pages of account history, 120 polls for a co-signed release, 8 simulations, 10 reads after a repayment.
  Loops that only end with the tab take a number of turns instead, and the theorems hold for every number.

  \<^bold>\<open>Not modelled, and why.\<close> The Rust contracts are another language; of them only the interest rates are modelled, for the
  comparison the app's comment claims. React components, hooks and pages, toasts, mocks and fixtures are display. Generated
  contract bindings (\<^verbatim>\<open>packages/writz-lend\<close>, \<^verbatim>\<open>writzLendGenerated.ts\<close>), environment reading and wiring
  (\<^verbatim>\<open>config.ts\<close>, \<^verbatim>\<open>index.ts\<close>, \<^verbatim>\<open>from-config.ts\<close>, command lines) and adapters that only call a library (\<^verbatim>\<open>cctp/evm-chain.ts\<close>,
  wallets) decide nothing. The annual rates shown to lenders are floating-point arithmetic. Timers that start a pass, log
  lines and error texts are left out; where a branch depends on a text, it is modelled.
\<close>

end
